(* ===== verification/Prelude.thy ===== *)
theory Prelude
  imports Main
begin

text \<open>
  Shared vocabulary of the development: the insertion-ordered \<open>Map\<close> and \<open>Set\<close> of
  JavaScript as lists, the laws of a keyed store as a locale, the result type of operations
  that throw, and the generic list facts the components use.
\<close>

named_theorems js_simps \<open>rewrite rules for the JavaScript containers\<close>

section \<open>Results of operations that may throw\<close>

type_synonym ('e, 'a) result = "'e + 'a"

section \<open>The ECMAScript Map: an association list in insertion order\<close>

text \<open>
  \<open>Map.prototype.set\<close> overwrites in place when the key is present and appends otherwise;
  \<open>delete\<close> removes the entry; iteration follows the list.
\<close>

type_synonym ('k, 'v) jmap = "('k \<times> 'v) list"

abbreviation (input) jget :: "('k, 'v) jmap \<Rightarrow> 'k \<Rightarrow> 'v option" where
  "jget \<equiv> map_of"

fun jset :: "('k, 'v) jmap \<Rightarrow> 'k \<Rightarrow> 'v \<Rightarrow> ('k, 'v) jmap" where
  "jset [] k v = [(k, v)]"
| "jset ((k', v') # m) k v = (if k' = k then (k, v) # m else (k', v') # jset m k v)"

definition jdel :: "('k, 'v) jmap \<Rightarrow> 'k \<Rightarrow> ('k, 'v) jmap" where
  "jdel m k = filter (\<lambda>e. fst e \<noteq> k) m"

abbreviation (input) jhas :: "('k, 'v) jmap \<Rightarrow> 'k \<Rightarrow> bool" where
  "jhas m k \<equiv> map_of m k \<noteq> None"

abbreviation (input) jkeys :: "('k, 'v) jmap \<Rightarrow> 'k list" where
  "jkeys m \<equiv> map fst m"

definition jwf :: "('k, 'v) jmap \<Rightarrow> bool" where
  "jwf m \<longleftrightarrow> distinct (map fst m)"

text \<open>\<open>m.get(k) ?? d\<close>\<close>

definition jget_or :: "'v \<Rightarrow> ('k, 'v) jmap \<Rightarrow> 'k \<Rightarrow> 'v" where
  "jget_or d m k = (case map_of m k of None \<Rightarrow> d | Some v \<Rightarrow> v)"

lemma jget_jset [simp, js_simps]: "map_of (jset m k v) k' = (if k' = k then Some v else map_of m k')"
  by (induction m k v rule: jset.induct) auto

lemma jget_filter_key: "map_of (filter (\<lambda>e. P (fst e)) m) k = (if P k then map_of m k else None)"
  by (induction m) auto

lemma jget_jdel [simp, js_simps]: "map_of (jdel m k) k' = (if k' = k then None else map_of m k')"
  using jget_filter_key [of "\<lambda>x. x \<noteq> k" m k'] by (simp add: jdel_def)

lemma jdel_absent: "map_of m k = None \<Longrightarrow> jdel m k = m"
  by (simp add: jdel_def map_of_eq_None_iff filter_id_conv) (metis fst_conv imageI)

lemma fst_set_jset [simp, js_simps]: "fst ` set (jset m k v) = insert k (fst ` set m)"
  by (induction m k v rule: jset.induct) auto

lemma fst_set_jdel [simp, js_simps]: "fst ` set (jdel m k) = fst ` set m - {k}"
  by (auto simp: jdel_def)

lemma set_jset_subset: "set (jset m k v) \<subseteq> insert (k, v) (set m)"
  by (induction m k v rule: jset.induct) auto

lemma jwf_Nil [simp, js_simps]: "jwf []"
  by (simp add: jwf_def)

lemma jwf_jset [simp, js_simps]: "jwf m \<Longrightarrow> jwf (jset m k v)"
  by (induction m k v rule: jset.induct) (auto simp: jwf_def)

lemma jwf_filter [simp, js_simps]: "jwf m \<Longrightarrow> jwf (filter P m)"
  by (simp add: jwf_def distinct_map_filter)

lemma jwf_jdel [simp, js_simps]: "jwf m \<Longrightarrow> jwf (jdel m k)"
  by (simp add: jdel_def)

lemma jwf_map_of_eq: "jwf m \<Longrightarrow> map_of m k = Some v \<longleftrightarrow> (k, v) \<in> set m"
  by (simp add: jwf_def)

lemma map_of_none_iff [js_simps]: "map_of m k = None \<longleftrightarrow> k \<notin> fst ` set m"
  by (simp add: map_of_eq_None_iff)

lemma map_of_filter_Some:
  "jwf m \<Longrightarrow> map_of (filter P m) k = Some v \<longleftrightarrow> map_of m k = Some v \<and> P (k, v)"
  by (simp add: jwf_map_of_eq)

lemma map_of_all_None:
  assumes "\<And>k. map_of m k = None"
  shows "m = []"
  using assms [of "fst (hd m)"] by (cases m) simp_all

lemma length_jset_new: "map_of m k = None \<Longrightarrow> length (jset m k v) = Suc (length m)"
  by (induction m k v rule: jset.induct) (auto split: if_splits)

lemma length_jset_old: "map_of m k = Some w \<Longrightarrow> length (jset m k v) = length m"
  by (induction m k v rule: jset.induct) (auto split: if_splits)

lemma length_jdel_le [simp]: "length (jdel m k) \<le> length m"
  by (simp add: jdel_def)

lemma length_jset_le: "length (jset m k v) \<le> Suc (length m)"
  by (cases "map_of m k") (simp_all add: length_jset_new length_jset_old)

text \<open>Every value of the map satisfies \<open>P\<close>.\<close>

definition jall :: "('v \<Rightarrow> bool) \<Rightarrow> ('k, 'v) jmap \<Rightarrow> bool" where
  "jall P m \<longleftrightarrow> list_all (\<lambda>e. P (snd e)) m"

lemma jall_Nil [simp]: "jall P []"
  by (simp add: jall_def)

lemma jall_jset: "jall P m \<Longrightarrow> P v \<Longrightarrow> jall P (jset m k v)"
  by (induction m k v rule: jset.induct) (auto simp: jall_def)

lemma jall_filter: "jall P m \<Longrightarrow> jall P (filter Q m)"
  by (auto simp: jall_def list_all_iff)

lemma jall_get: "jall P m \<Longrightarrow> map_of m k = Some v \<Longrightarrow> P v"
  by (force simp: jall_def list_all_iff dest: map_of_SomeD)

lemma jall_get_or: "jall P m \<Longrightarrow> P d \<Longrightarrow> P (jget_or d m k)"
  by (auto simp: jget_or_def dest: jall_get split: option.split)

lemma jall_mono: "jall P m \<Longrightarrow> (\<And>v. P v \<Longrightarrow> Q v) \<Longrightarrow> jall Q m"
  by (auto simp: jall_def list_all_iff)

lemma jget_or_jset [simp, js_simps]:
  "jget_or d (jset m k v) k' = (if k' = k then v else jget_or d m k')"
  by (simp add: jget_or_def)

section \<open>The ECMAScript Set: a list without repetition, in insertion order\<close>

type_synonym 'a jsetof = "'a list"

definition sadd :: "'a jsetof \<Rightarrow> 'a \<Rightarrow> 'a jsetof" where
  "sadd s x = (if x \<in> set s then s else s @ [x])"

definition sdel :: "'a jsetof \<Rightarrow> 'a \<Rightarrow> 'a jsetof" where
  "sdel s x = filter (\<lambda>y. y \<noteq> x) s"

fun sadds :: "'a jsetof \<Rightarrow> 'a list \<Rightarrow> 'a jsetof" where
  "sadds s [] = s"
| "sadds s (x # xs) = sadds (sadd s x) xs"

lemma set_sadd [simp, js_simps]: "set (sadd s x) = insert x (set s)"
  by (auto simp: sadd_def)

lemma set_sdel [simp, js_simps]: "set (sdel s x) = set s - {x}"
  by (auto simp: sdel_def)

lemma distinct_sadd [simp, js_simps]: "distinct s \<Longrightarrow> distinct (sadd s x)"
  by (simp add: sadd_def)

lemma distinct_sdel [simp, js_simps]: "distinct s \<Longrightarrow> distinct (sdel s x)"
  by (simp add: sdel_def)

lemma set_sadds [simp, js_simps]: "set (sadds s xs) = set s \<union> set xs"
  by (induction s xs rule: sadds.induct) auto

lemma distinct_sadds [simp, js_simps]: "distinct s \<Longrightarrow> distinct (sadds s xs)"
  by (induction s xs rule: sadds.induct) auto

section \<open>Strings\<close>

text \<open>
  \<open>toLowerCase\<close> on the letters A to Z. The code applies it to header names, which are ASCII, and
  to a text it compares with \<open>magnet:?\<close>, whose letters are the image of no other letter.
\<close>

definition lower_char :: "char \<Rightarrow> char" where
  "lower_char c = (if 65 \<le> (of_char c :: nat) \<and> (of_char c :: nat) \<le> 90
                   then char_of ((of_char c :: nat) + 32) else c)"

definition toLowerCase :: "string \<Rightarrow> string" where
  "toLowerCase s = map lower_char s"

text \<open>\<open>toLowerCase\<close> on the characters up to 255: the letters A to Z and the accented capitals.\<close>

definition latin_lower_char :: "char \<Rightarrow> char" where
  "latin_lower_char c =
     (let n = of_char c :: nat
      in if 65 \<le> n \<and> n \<le> 90 \<or> 192 \<le> n \<and> n \<le> 222 \<and> n \<noteq> 215 then char_of (n + 32) else c)"

definition latinLowerCase :: "string \<Rightarrow> string" where
  "latinLowerCase s = map latin_lower_char s"

section \<open>The interface of a keyed store\<close>

text \<open>
  What the clients of a \<open>Map\<close> rely on: what a lookup returns after a write or a
  deletion, and that both keep the representation well formed.
\<close>

locale keyed_store =
  fixes lookup :: "'m \<Rightarrow> 'k \<Rightarrow> 'v option"
    and update :: "'m \<Rightarrow> 'k \<Rightarrow> 'v \<Rightarrow> 'm"
    and remove :: "'m \<Rightarrow> 'k \<Rightarrow> 'm"
    and wf :: "'m \<Rightarrow> bool"
  assumes lookup_update: "wf m \<Longrightarrow> lookup (update m k v) k' = (if k' = k then Some v else lookup m k')"
    and lookup_remove: "wf m \<Longrightarrow> lookup (remove m k) k' = (if k' = k then None else lookup m k')"
    and wf_update: "wf m \<Longrightarrow> wf (update m k v)"
    and wf_remove: "wf m \<Longrightarrow> wf (remove m k)"
begin

lemmas store_laws = lookup_update lookup_remove wf_update wf_remove

text \<open>A read-modify-write on one key never shows at another key (per-key isolation).\<close>

lemma modify_frame:
  "wf m \<Longrightarrow> k' \<noteq> k \<Longrightarrow>
   lookup (case f (lookup m k) of None \<Rightarrow> remove m k | Some v \<Rightarrow> update m k v) k' = lookup m k'"
  by (simp add: store_laws split: option.split)

lemma modify_same:
  "wf m \<Longrightarrow>
   lookup (case f (lookup m k) of None \<Rightarrow> remove m k | Some v \<Rightarrow> update m k v) k = f (lookup m k)"
  by (simp add: store_laws split: option.split)

lemma wf_removes: "wf m \<Longrightarrow> wf (foldl remove m ks)"
  by (induction ks arbitrary: m) (auto simp: store_laws)

lemma lookup_removes: "wf m \<Longrightarrow> lookup (foldl remove m ks) k = (if k \<in> set ks then None else lookup m k)"
  by (induction ks arbitrary: m) (auto simp: store_laws)

end

interpretation jm: keyed_store map_of jset jdel jwf
  by unfold_locales auto

section \<open>List facts\<close>

lemma filter_filter_weaker:
  "(\<And>x. P x \<Longrightarrow> Q x) \<Longrightarrow> filter P (filter Q xs) = filter P xs"
  by (induction xs) auto

lemma sorted_filter_all_le_last:
  "sorted (xs::int list) \<Longrightarrow> xs \<noteq> [] \<Longrightarrow> last xs \<le> c \<Longrightarrow> filter (\<lambda>x. c < x) xs = []"
proof (induction xs)
  case (Cons x xs)
  show ?case
  proof (cases "xs = []")
    case False
    then have "x \<le> last xs" and "last xs \<le> c"
      using Cons.prems last_in_set [of xs] by auto
    then have "x \<le> c" by linarith
    then show ?thesis using Cons False by simp
  qed (use Cons.prems in simp)
qed simp

lemma find_SomeD: "find P xs = Some x \<Longrightarrow> x \<in> set xs \<and> P x"
  by (auto simp: find_Some_iff in_set_conv_nth)

lemma length_filter_mono:
  "(\<And>x. P x \<Longrightarrow> Q x) \<Longrightarrow> length (filter P xs) \<le> length (filter Q xs)"
  by (induction xs) (auto intro: le_SucI)

end
