(* ===== verification/Sliding_Window.thy ===== *)
theory Sliding_Window
  imports Prelude
begin

text \<open>
  The contract shared by every rate limit of the bridge: a log of accepted timestamps, from
  which an event drops the entries older than the window, and which grows only while fewer
  than \<open>cap\<close> recent entries are left. The locale proves once that such a limiter accepts at
  most \<open>cap\<close> events in any window, whatever the sequence of events.
\<close>

section \<open>Accepted timestamps of a run\<close>

text \<open>\<open>hits step acc tm es s\<close> lists the times of the events of \<open>es\<close> that are accepted.\<close>

fun hits :: "('e \<Rightarrow> 's \<Rightarrow> 's) \<Rightarrow> ('e \<Rightarrow> 's \<Rightarrow> bool) \<Rightarrow> ('e \<Rightarrow> int) \<Rightarrow> 'e list \<Rightarrow> 's \<Rightarrow> int list" where
  "hits step acc tm [] s = []"
| "hits step acc tm (e # es) s =
     (if acc e s then tm e # hits step acc tm es (step e s) else hits step acc tm es (step e s))"

definition recent :: "int \<Rightarrow> int list \<Rightarrow> int list" where
  "recent c xs = filter (\<lambda>x. c < x) xs"

lemma recent_Nil [simp]: "recent c [] = []"
  by (simp add: recent_def)

lemma recent_append [simp]: "recent c (xs @ ys) = recent c xs @ recent c ys"
  by (simp add: recent_def)

lemma recent_recent: "c \<le> d \<Longrightarrow> recent d (recent c xs) = recent d xs"
  unfolding recent_def filter_filter by (rule filter_cong) auto

lemma set_recent: "x \<in> set (recent c xs) \<longleftrightarrow> x \<in> set xs \<and> c < x"
  by (auto simp: recent_def)

lemma sorted_recent: "sorted xs \<Longrightarrow> sorted (recent c xs)"
  by (simp add: recent_def sorted_wrt_filter)

lemma length_recent_mono: "c \<le> d \<Longrightarrow> length (recent d xs) \<le> length (recent c xs)"
  unfolding recent_def by (rule length_filter_mono) simp

section \<open>The contract\<close>

locale sliding_window =
  fixes step :: "'e \<Rightarrow> 's \<Rightarrow> 's"
    and acc :: "'e \<Rightarrow> 's \<Rightarrow> bool"
    and tm :: "'e \<Rightarrow> int"
    and log :: "'s \<Rightarrow> int list"
    and inv :: "int \<Rightarrow> 's \<Rightarrow> bool"
    and cap :: int
    and width :: int
  assumes inv_step: "inv t s \<Longrightarrow> t \<le> tm e \<Longrightarrow> inv (tm e) (step e s)"
    and accept_log: "inv t s \<Longrightarrow> t \<le> tm e \<Longrightarrow> acc e s \<Longrightarrow>
          recent (tm e - width) (log (step e s)) = recent (tm e - width) (log s) @ recent (tm e - width) [tm e]"
    and accept_cap: "inv t s \<Longrightarrow> t \<le> tm e \<Longrightarrow> acc e s \<Longrightarrow> int (length (recent (tm e - width) (log s))) < cap"
    and ignore_log: "inv t s \<Longrightarrow> t \<le> tm e \<Longrightarrow> \<not> acc e s \<Longrightarrow>
          recent (tm e - width) (log (step e s)) = recent (tm e - width) (log s)"
begin

text \<open>
  The log agrees with the accepted history on every entry that can still matter, so the
  window of any later moment sees the same entries in both.
\<close>

lemma log_tracks_history:
  assumes "inv t s" and "t \<le> tm e" and "recent (t - width) (log s) = recent (t - width) h"
  shows "recent (tm e - width) (log (step e s)) =
         recent (tm e - width) (h @ (if acc e s then [tm e] else []))"
proof -
  have "recent (tm e - width) (log s) = recent (tm e - width) (recent (t - width) (log s))"
    using assms(2) by (simp add: recent_recent)
  also have "\<dots> = recent (tm e - width) h"
    using assms(2,3) by (simp add: recent_recent)
  finally have "recent (tm e - width) (log s) = recent (tm e - width) h" .
  then show ?thesis
    using accept_log [OF assms(1,2)] ignore_log [OF assms(1,2)] by auto
qed

lemma window_bound_general:
  assumes "inv t s" and "sorted (map tm es)" and "\<forall>e \<in> set es. t \<le> tm e"
    and "recent (t - width) (log s) = recent (t - width) h"
    and "\<And>u. int (length (filter (\<lambda>x. u - width < x \<and> x \<le> u) h)) \<le> cap"
    and "\<forall>x \<in> set h. x \<le> t"
  shows "int (length (filter (\<lambda>x. u - width < x \<and> x \<le> u) (h @ hits step acc tm es s))) \<le> cap"
  using assms
proof (induction es arbitrary: s t h)
  case Nil
  then show ?case by simp
next
  case (Cons e es)
  let ?h = "h @ (if acc e s then [tm e] else [])"
  have te: "t \<le> tm e" using Cons.prems(3) by simp
  have tracks: "recent (tm e - width) (log (step e s)) = recent (tm e - width) ?h"
    using log_tracks_history [OF Cons.prems(1) te Cons.prems(4)] .
  have hist: "recent (tm e - width) (log s) = recent (tm e - width) h"
  proof -
    have "recent (tm e - width) (log s) = recent (tm e - width) (recent (t - width) (log s))"
      using te by (simp add: recent_recent)
    then show ?thesis using te Cons.prems(4) by (simp add: recent_recent)
  qed
  have bound: "int (length (filter (\<lambda>x. v - width < x \<and> x \<le> v) ?h)) \<le> cap" for v
  proof (cases "acc e s \<and> tm e \<le> v \<and> v - width < tm e")
    case True
    have "length (filter (\<lambda>x. v - width < x \<and> x \<le> v) h) \<le> length (recent (tm e - width) h)"
      unfolding recent_def by (rule length_filter_mono) (use True in simp)
    moreover have "int (length (recent (tm e - width) h)) < cap"
      using accept_cap [OF Cons.prems(1) te] True hist by simp
    ultimately have "int (length (filter (\<lambda>x. v - width < x \<and> x \<le> v) h)) + 1 \<le> cap"
      by linarith
    then show ?thesis using True by simp
  next
    case False
    then show ?thesis using Cons.prems(5) [of v] by auto
  qed
  have "int (length (filter (\<lambda>x. u - width < x \<and> x \<le> u) (?h @ hits step acc tm es (step e s)))) \<le> cap"
  proof (rule Cons.IH [OF inv_step [OF Cons.prems(1) te] _ _ tracks bound])
    show "sorted (map tm es)" using Cons.prems(2) by simp
    show "\<forall>e'\<in>set es. tm e \<le> tm e'" using Cons.prems(2) by simp
    show "\<forall>x\<in>set ?h. x \<le> tm e" using Cons.prems(6) te by (auto intro: order_trans)
  qed
  then show ?case by (cases "acc e s") simp_all
qed

text \<open>The contract's promise: at most \<open>cap\<close> accepted events in any half-open window.\<close>

lemma window_bound:
  assumes "inv t s" and "log s = []" and "0 \<le> cap"
    and "sorted (map tm es)" and "\<forall>e \<in> set es. t \<le> tm e"
  shows "int (length (filter (\<lambda>x. u - width < x \<and> x \<le> u) (hits step acc tm es s))) \<le> cap"
  using window_bound_general [OF assms(1,4,5), of "[]" u] assms(2,3) by simp

end

end
