(* ===== verification/Reconnect_Limit.thy ===== *)
theory Reconnect_Limit
  imports Sliding_Window
begin

text \<open>
  The reconnect rate limiter of the bridge (\<open>core/bridge/mbp1/reconnect-rate-limit.ts\<close>):
  its state, the admission of an attempt with its two quotas and the pruning of stale
  buckets; the window bounds for both quotas, the memory bound and the absence of
  starvation. Timestamps are integers (milliseconds).
\<close>

section \<open>State and operations\<close>

definition RECONNECT_WINDOW_MS :: int where
  "RECONNECT_WINDOW_MS = 60000"

record reconnect_limit =
  rl_perOrigin :: int
  rl_global :: int
  rl_globalAttempts :: "int list"
  rl_originAttempts :: "(string, int list) jmap"

definition rl_new :: "int option \<Rightarrow> int option \<Rightarrow> reconnect_limit" where
  "rl_new per glob = \<lparr>
     rl_perOrigin = (case per of None \<Rightarrow> 10 | Some n \<Rightarrow> n),
     rl_global = (case glob of None \<Rightarrow> 60 | Some n \<Rightarrow> n),
     rl_globalAttempts = [], rl_originAttempts = []\<rparr>"

definition rl_prune :: "int \<Rightarrow> (string, int list) jmap \<Rightarrow> (string, int list) jmap" where
  "rl_prune cutoff m = filter (\<lambda>e. \<not> (snd e = [] \<or> last (snd e) \<le> cutoff)) m"

definition rl_admit :: "int \<Rightarrow> string \<Rightarrow> reconnect_limit \<Rightarrow> bool \<times> reconnect_limit" where
  "rl_admit t origin s =
     (let cutoff = t - RECONNECT_WINDOW_MS;
          g = recent cutoff (rl_globalAttempts s);
          s1 = s\<lparr>rl_globalAttempts := g\<rparr>
      in if int (length g) \<ge> rl_global s then (False, s1)
         else let r = recent cutoff (jget_or [] (rl_originAttempts s) origin)
              in if int (length r) \<ge> rl_perOrigin s
                 then (False, s1\<lparr>rl_originAttempts := jset (rl_originAttempts s) origin r\<rparr>)
                 else (True, s1\<lparr>rl_globalAttempts := g @ [t],
                         rl_originAttempts :=
                           rl_prune cutoff (jset (rl_originAttempts s) origin (r @ [t]))\<rparr>))"

definition rl_trackedOrigins :: "reconnect_limit \<Rightarrow> nat" where
  "rl_trackedOrigins s = length (rl_originAttempts s)"

text \<open>A run of attempts \<open>(time, origin)\<close>.\<close>

type_synonym rl_attempt = "int \<times> string"

definition rl_step :: "rl_attempt \<Rightarrow> reconnect_limit \<Rightarrow> reconnect_limit" where
  "rl_step e s = snd (rl_admit (fst e) (snd e) s)"

definition rl_ok :: "rl_attempt \<Rightarrow> reconnect_limit \<Rightarrow> bool" where
  "rl_ok e s = fst (rl_admit (fst e) (snd e) s)"

definition rl_ok_for :: "string \<Rightarrow> rl_attempt \<Rightarrow> reconnect_limit \<Rightarrow> bool" where
  "rl_ok_for o1 e s \<longleftrightarrow> snd e = o1 \<and> rl_ok e s"

fun rl_run :: "rl_attempt list \<Rightarrow> reconnect_limit \<Rightarrow> reconnect_limit" where
  "rl_run [] s = s"
| "rl_run (e # es) s = rl_run es (rl_step e s)"

section \<open>Well-formedness\<close>

definition times_ok :: "int \<Rightarrow> int list \<Rightarrow> bool" where
  "times_ok now xs \<longleftrightarrow> sorted xs \<and> (\<forall>x \<in> set xs. x \<le> now)"

definition rl_inv :: "int \<Rightarrow> reconnect_limit \<Rightarrow> bool" where
  "rl_inv now s \<longleftrightarrow> times_ok now (rl_globalAttempts s) \<and> jwf (rl_originAttempts s) \<and>
     jall (times_ok now) (rl_originAttempts s)"

lemma times_ok_later: "times_ok now xs \<Longrightarrow> now \<le> t \<Longrightarrow> times_ok t xs"
  unfolding times_ok_def using order_trans by blast

lemma times_ok_recent: "times_ok now xs \<Longrightarrow> times_ok now (recent c xs)"
  by (auto simp: times_ok_def sorted_recent set_recent)

lemma times_ok_push: "times_ok t xs \<Longrightarrow> times_ok t (xs @ [t])"
  by (auto simp: times_ok_def sorted_append)

lemma rl_inv_new: "rl_inv now (rl_new per glob)"
  by (simp add: rl_inv_def rl_new_def times_ok_def)

lemma rl_config [simp]:
  "rl_perOrigin (rl_step e s) = rl_perOrigin s" "rl_global (rl_step e s) = rl_global s"
  by (simp_all add: rl_step_def rl_admit_def Let_def)

text \<open>The three outcomes of an attempt, with the state each one leaves.\<close>

lemma rl_step_cases:
  fixes e :: rl_attempt and s :: reconnect_limit
  defines "c \<equiv> fst e - RECONNECT_WINDOW_MS"
  defines "r \<equiv> recent c (jget_or [] (rl_originAttempts s) (snd e))"
  obtains
    (global_full) "int (length (recent c (rl_globalAttempts s))) \<ge> rl_global s" "\<not> rl_ok e s"
      "rl_globalAttempts (rl_step e s) = recent c (rl_globalAttempts s)"
      "rl_originAttempts (rl_step e s) = rl_originAttempts s"
  | (origin_full) "int (length (recent c (rl_globalAttempts s))) < rl_global s"
      "int (length r) \<ge> rl_perOrigin s" "\<not> rl_ok e s"
      "rl_globalAttempts (rl_step e s) = recent c (rl_globalAttempts s)"
      "rl_originAttempts (rl_step e s) = jset (rl_originAttempts s) (snd e) r"
  | (admitted) "int (length (recent c (rl_globalAttempts s))) < rl_global s"
      "int (length r) < rl_perOrigin s" "rl_ok e s"
      "rl_globalAttempts (rl_step e s) = recent c (rl_globalAttempts s) @ [fst e]"
      "rl_originAttempts (rl_step e s) = rl_prune c (jset (rl_originAttempts s) (snd e) (r @ [fst e]))"
  unfolding c_def r_def
  by (cases "int (length (recent (fst e - RECONNECT_WINDOW_MS) (rl_globalAttempts s))) \<ge> rl_global s";
      cases "int (length (recent (fst e - RECONNECT_WINDOW_MS) (jget_or [] (rl_originAttempts s) (snd e)))) \<ge> rl_perOrigin s")
    (simp_all add: rl_step_def rl_ok_def rl_admit_def Let_def)

lemma rl_inv_later:
  assumes "rl_inv now s" and "now \<le> t"
  shows "times_ok t (rl_globalAttempts s)" and "jall (times_ok t) (rl_originAttempts s)"
    and "times_ok t (jget_or [] (rl_originAttempts s) k)"
proof -
  show "times_ok t (rl_globalAttempts s)" and all: "jall (times_ok t) (rl_originAttempts s)"
    using assms by (auto simp: rl_inv_def intro: jall_mono times_ok_later)
  show "times_ok t (jget_or [] (rl_originAttempts s) k)"
    using all by (rule jall_get_or) (simp add: times_ok_def)
qed

lemma rl_inv_step:
  assumes "rl_inv now s" and "now \<le> fst e"
  shows "rl_inv (fst e) (rl_step e s)"
proof (cases e s rule: rl_step_cases)
qed (use assms rl_inv_later [OF assms] in \<open>simp_all add: rl_inv_def rl_prune_def times_ok_recent
        times_ok_push jall_jset jall_filter\<close>)

lemma recent_pruned_bucket:
  assumes "jwf m" and "jall (times_ok now) m" and "cutoff \<le> c"
  shows "recent c (jget_or [] (rl_prune cutoff m) k) = recent c (jget_or [] m k)"
proof (cases "map_of m k")
  case None
  then have "map_of (rl_prune cutoff m) k = None"
    by (auto simp: rl_prune_def map_of_eq_None_iff image_iff)
  then show ?thesis using None by (simp add: jget_or_def)
next
  case (Some ts)
  show ?thesis
  proof (cases "ts = [] \<or> last ts \<le> cutoff")
    case True
    have gone: "map_of (rl_prune cutoff m) k = None"
      using Some True map_of_filter_Some [OF assms(1)]
      by (cases "map_of (rl_prune cutoff m) k") (auto simp: rl_prune_def)
    have "sorted ts" using jall_get [OF assms(2) Some] by (simp add: times_ok_def)
    then have "recent c ts = []"
      using True assms(3) sorted_filter_all_le_last [of ts c]
      by (cases "ts = []") (simp_all add: recent_def)
    then show ?thesis using Some gone by (simp add: jget_or_def)
  next
    case False
    then have "map_of (rl_prune cutoff m) k = Some ts"
      using Some map_of_filter_Some [OF assms(1)] by (simp add: rl_prune_def)
    then show ?thesis using Some by (simp add: jget_or_def)
  qed
qed

section \<open>Both quotas meet the sliding-window contract\<close>

interpretation rl_global: sliding_window rl_step rl_ok fst rl_globalAttempts
    "\<lambda>now s. rl_inv now s \<and> rl_global s = cap" cap RECONNECT_WINDOW_MS for cap
proof (unfold_locales, goal_cases)
  case (1 t s e)
  then show ?case using rl_inv_step [of t s e] by simp
next
  case (2 t s e)
  then show ?case by (cases e s rule: rl_step_cases) (simp_all add: recent_recent)
next
  case (3 t s e)
  then show ?case by (cases e s rule: rl_step_cases) simp_all
next
  case (4 t s e)
  then show ?case by (cases e s rule: rl_step_cases) (simp_all add: recent_recent)
qed

lemma rl_bucket_after:
  assumes "rl_inv now s" and "now \<le> fst e"
  shows "recent (fst e - RECONNECT_WINDOW_MS) (jget_or [] (rl_originAttempts (rl_step e s)) o1) =
     recent (fst e - RECONNECT_WINDOW_MS) (jget_or [] (rl_originAttempts s) o1 @
       (if rl_ok_for o1 e s then [fst e] else []))"
proof (cases e s rule: rl_step_cases)
  case global_full
  then show ?thesis by (simp add: rl_ok_for_def)
next
  case origin_full
  then show ?thesis by (simp add: rl_ok_for_def recent_recent)
next
  case admitted
  let ?c = "fst e - RECONNECT_WINDOW_MS"
  let ?m = "jset (rl_originAttempts s) (snd e)
              (recent ?c (jget_or [] (rl_originAttempts s) (snd e)) @ [fst e])"
  have "jwf ?m" and "jall (times_ok (fst e)) ?m"
    using assms(1) rl_inv_later [OF assms]
    by (simp_all add: rl_inv_def jall_jset times_ok_push times_ok_recent)
  then have "recent ?c (jget_or [] (rl_prune ?c ?m) o1) = recent ?c (jget_or [] ?m o1)"
    by (rule recent_pruned_bucket) simp
  then show ?thesis using admitted by (simp add: rl_ok_for_def recent_recent)
qed

interpretation rl_origin: sliding_window rl_step "rl_ok_for o1" fst
    "\<lambda>s. jget_or [] (rl_originAttempts s) o1"
    "\<lambda>now s. rl_inv now s \<and> rl_perOrigin s = cap" cap RECONNECT_WINDOW_MS for o1 cap
proof (unfold_locales, goal_cases)
  case (1 t s e)
  then show ?case using rl_inv_step [of t s e] by simp
next
  case (2 t s e)
  then show ?case using rl_bucket_after [of t s e] by simp
next
  case (3 t s e)
  then show ?case by (cases e s rule: rl_step_cases) (auto simp: rl_ok_for_def)
next
  case (4 t s e)
  then show ?case using rl_bucket_after [of t s e] by simp
qed

section \<open>Bounded memory\<close>

text \<open>How many timestamps newer than \<open>c\<close> all the buckets hold together.\<close>

fun weight :: "int \<Rightarrow> (string, int list) jmap \<Rightarrow> nat" where
  "weight c [] = 0"
| "weight c (e # m) = length (recent c (snd e)) + weight c m"

lemma weight_jset:
  "weight c (jset m k v) + length (recent c (jget_or [] m k)) = weight c m + length (recent c v)"
  by (induction m k v rule: jset.induct) (auto simp: jget_or_def)

lemma weight_filter_le: "weight c (filter P m) \<le> weight c m"
  by (induction m) auto

lemma weight_ge_length:
  "(\<And>e. e \<in> set m \<Longrightarrow> recent c (snd e) \<noteq> []) \<Longrightarrow> length m \<le> weight c m"
proof (induction m)
  case (Cons e m)
  then have "recent c (snd e) \<noteq> []" and "length m \<le> weight c m" by simp_all
  then show ?case by (cases "recent c (snd e)") auto
qed simp

lemma pruned_length_le_weight: "length (rl_prune c m) \<le> weight c (rl_prune c m)"
proof (rule weight_ge_length)
  fix e assume "e \<in> set (rl_prune c m)"
  then have "snd e \<noteq> []" and "c < last (snd e)" by (auto simp: rl_prune_def)
  then have "last (snd e) \<in> set (recent c (snd e))" by (simp add: set_recent)
  then show "recent c (snd e) \<noteq> []" by auto
qed

definition rl_mem :: "int \<Rightarrow> reconnect_limit \<Rightarrow> bool" where
  "rl_mem now s \<longleftrightarrow>
     (\<forall>c. now - RECONNECT_WINDOW_MS \<le> c \<longrightarrow>
        weight c (rl_originAttempts s) \<le> length (recent c (rl_globalAttempts s))) \<and>
     (rl_originAttempts s = [] \<or> int (length (rl_originAttempts s)) \<le> rl_global s)"

lemma rl_mem_step:
  assumes "rl_mem now s" and "now \<le> fst e" and "1 \<le> rl_perOrigin s"
  shows "rl_mem (fst e) (rl_step e s)"
proof (cases e s rule: rl_step_cases)
  case global_full
  then show ?thesis using assms by (auto simp: rl_mem_def recent_recent)
next
  case origin_full
  let ?m = "rl_originAttempts s"
  let ?b = "jget_or [] ?m (snd e)"
  let ?c = "fst e - RECONNECT_WINDOW_MS"
  have "recent ?c ?b \<noteq> []" using origin_full(2) assms(3) by auto
  then obtain w where "map_of ?m (snd e) = Some w"
    by (cases "map_of ?m (snd e)") (auto simp: jget_or_def)
  then have len: "length (jset ?m (snd e) (recent ?c ?b)) = length ?m" and "?m \<noteq> []"
    by (auto simp: length_jset_old)
  have "weight c (jset ?m (snd e) (recent ?c ?b)) = weight c ?m" if "?c \<le> c" for c
    using weight_jset [of c ?m "snd e" "recent ?c ?b"] that by (simp add: recent_recent)
  then show ?thesis using origin_full assms len \<open>?m \<noteq> []\<close> by (auto simp: rl_mem_def recent_recent)
next
  case admitted
  let ?m = "rl_originAttempts s"
  let ?c = "fst e - RECONNECT_WINDOW_MS"
  let ?v = "recent ?c (jget_or [] ?m (snd e)) @ [fst e]"
  let ?m' = "rl_prune ?c (jset ?m (snd e) ?v)"
  have w: "weight c ?m' \<le> length (recent c (recent ?c (rl_globalAttempts s) @ [fst e]))" if "?c \<le> c" for c
  proof -
    have "weight c ?m' \<le> weight c (jset ?m (snd e) ?v)"
      by (simp add: rl_prune_def weight_filter_le)
    also have "\<dots> = weight c ?m + length (recent c [fst e])"
      using weight_jset [of c ?m "snd e" ?v] that by (simp add: recent_recent)
    also have "\<dots> \<le> length (recent c (rl_globalAttempts s)) + length (recent c [fst e])"
      using assms(1,2) that by (simp add: rl_mem_def)
    finally show ?thesis using that by (simp add: recent_recent)
  qed
  have "length ?m' \<le> weight ?c ?m'" by (rule pruned_length_le_weight)
  also have "\<dots> \<le> length (recent ?c (rl_globalAttempts s)) + 1"
    using w [of ?c] by (simp add: recent_recent recent_def split: if_splits)
  finally have "int (length ?m') \<le> rl_global s" using admitted(1) by linarith
  then show ?thesis using w admitted by (simp add: rl_mem_def)
qed

lemma rl_mem_run:
  "rl_mem now s \<Longrightarrow> sorted (map fst es) \<Longrightarrow> \<forall>e \<in> set es. now \<le> fst e \<Longrightarrow> 1 \<le> rl_perOrigin s \<Longrightarrow>
   \<exists>t. rl_mem t (rl_run es s) \<and> rl_global (rl_run es s) = rl_global s"
proof (induction es arbitrary: now s)
  case (Cons e es)
  then have "rl_mem (fst e) (rl_step e s)" by (simp add: rl_mem_step)
  then show ?case using Cons.IH [of "fst e" "rl_step e s"] Cons.prems by simp
qed auto

section \<open>One origin cannot starve another\<close>

text \<open>While only origin \<open>a\<close> was seen, its bucket is the whole recent global log.\<close>

definition rl_solo :: "string \<Rightarrow> int \<Rightarrow> reconnect_limit \<Rightarrow> bool" where
  "rl_solo a now s \<longleftrightarrow>
     (\<forall>c. now - RECONNECT_WINDOW_MS \<le> c \<longrightarrow>
        recent c (rl_globalAttempts s) = recent c (jget_or [] (rl_originAttempts s) a)) \<and>
     int (length (jget_or [] (rl_originAttempts s) a)) \<le> max 0 (rl_perOrigin s) \<and>
     (\<forall>b. b \<noteq> a \<longrightarrow> map_of (rl_originAttempts s) b = None)"

lemma prune_other: "map_of m b = None \<Longrightarrow> map_of (rl_prune c m) b = None"
  by (auto simp: rl_prune_def map_of_eq_None_iff image_iff)

lemma prune_fresh:
  assumes "jwf m" and "map_of m k = Some ts" and "ts \<noteq> []" and "c < last ts"
  shows "map_of (rl_prune c m) k = Some ts"
  using assms by (simp add: rl_prune_def map_of_filter_Some)

lemma length_recent_le: "length (recent c xs) \<le> length xs"
  by (simp add: recent_def)

lemma rl_solo_step:
  assumes "rl_solo a now s" and "rl_inv now s" and "now \<le> fst e" and "snd e = a"
  shows "rl_solo a (fst e) (rl_step e s)"
proof (cases e s rule: rl_step_cases)
  case global_full
  then show ?thesis using assms by (auto simp: rl_solo_def recent_recent)
next
  case origin_full
  have "int (length (recent c (jget_or [] (rl_originAttempts s) a))) \<le> max 0 (rl_perOrigin s)" for c
    using assms(1) length_recent_le [of c "jget_or [] (rl_originAttempts s) a"] unfolding rl_solo_def
    by linarith
  then show ?thesis using origin_full assms by (auto simp: rl_solo_def recent_recent)
next
  case admitted
  let ?c = "fst e - RECONNECT_WINDOW_MS"
  let ?v = "recent ?c (jget_or [] (rl_originAttempts s) a) @ [fst e]"
  let ?m = "jset (rl_originAttempts s) a ?v"
  have "map_of (rl_prune ?c ?m) a = Some ?v"
    by (rule prune_fresh) (use assms(2) in \<open>simp_all add: rl_inv_def RECONNECT_WINDOW_MS_def\<close>)
  moreover have "map_of (rl_prune ?c ?m) b = None" if "b \<noteq> a" for b
    using assms(1) that by (intro prune_other) (simp add: rl_solo_def)
  ultimately show ?thesis using admitted assms by (auto simp: rl_solo_def recent_recent jget_or_def)
qed

lemma rl_solo_run:
  "rl_solo a now s \<Longrightarrow> rl_inv now s \<Longrightarrow> sorted (map fst es) \<Longrightarrow> \<forall>e \<in> set es. now \<le> fst e \<and> fst e \<le> T \<Longrightarrow>
   now \<le> T \<Longrightarrow> \<forall>e \<in> set es. snd e = a \<Longrightarrow>
   \<exists>t \<le> T. rl_solo a t (rl_run es s) \<and> rl_perOrigin (rl_run es s) = rl_perOrigin s \<and>
     rl_global (rl_run es s) = rl_global s"
proof (induction es arbitrary: now s)
  case (Cons e es)
  then have "rl_solo a (fst e) (rl_step e s)" and "rl_inv (fst e) (rl_step e s)"
    by (simp_all add: rl_solo_step rl_inv_step)
  then show ?case using Cons.IH [of "fst e" "rl_step e s"] Cons.prems by simp
qed auto

section \<open>Properties\<close>

text \<open>
  per-origin quota. Starting from a fresh limiter, whatever the attempts of any origins
  (with a clock that does not run backwards), at most \<open>perOriginPerMinute\<close> attempts of one
  origin are admitted in any 60 second window.
\<close>
theorem reconnect_origin_quota:
  assumes "sorted (map fst es)" and "0 \<le> per"
  shows "int (length (filter (\<lambda>x. u - RECONNECT_WINDOW_MS < x \<and> x \<le> u)
           (hits rl_step (rl_ok_for o1) fst es (rl_new (Some per) glob)))) \<le> per"
proof (cases es)
  case (Cons e es')
  show ?thesis
    by (rule rl_origin.window_bound [where t = "fst e"])
      (use assms Cons in \<open>auto simp: rl_inv_new, auto simp: rl_new_def jget_or_def\<close>)
qed (use assms in simp)

theorem reconnect_origin_quota_witness:
  "length (hits rl_step (rl_ok_for ''a'') fst [(0, ''a''), (10, ''b''), (20, ''a''), (30, ''a'')]
      (rl_new (Some 2) None)) = 2 \<and>
   int (length (filter (\<lambda>x. 30 - RECONNECT_WINDOW_MS < x \<and> x \<le> 30)
           (hits rl_step (rl_ok_for ''a'') fst [(0, ''a''), (10, ''b''), (20, ''a''), (30, ''a'')]
              (rl_new (Some 2) None)))) \<le> 2"
  using reconnect_origin_quota [of "[(0, ''a''), (10, ''b''), (20, ''a''), (30, ''a'')]" 2 30 "''a''" None]
  by (simp add: rl_step_def rl_ok_for_def rl_ok_def rl_admit_def rl_new_def rl_prune_def recent_def
      RECONNECT_WINDOW_MS_def jget_or_def)

text \<open>
  global quota. At most \<open>globalPerMinute\<close> attempts are admitted in any 60 second
  window, over all origins together.
\<close>
theorem reconnect_global_quota:
  assumes "sorted (map fst es)" and "0 \<le> glob"
  shows "int (length (filter (\<lambda>x. u - RECONNECT_WINDOW_MS < x \<and> x \<le> u)
           (hits rl_step rl_ok fst es (rl_new per (Some glob))))) \<le> glob"
proof (cases es)
  case (Cons e es')
  show ?thesis
    by (rule rl_global.window_bound [where t = "fst e"])
      (use assms Cons in \<open>auto simp: rl_inv_new, auto simp: rl_new_def\<close>)
qed (use assms in simp)

theorem reconnect_global_quota_witness:
  "length (hits rl_step rl_ok fst [(0, ''a''), (10, ''b''), (20, ''c'')] (rl_new None (Some 2))) = 2 \<and>
   int (length (filter (\<lambda>x. 30 - RECONNECT_WINDOW_MS < x \<and> x \<le> 30)
           (hits rl_step rl_ok fst [(0, ''a''), (10, ''b''), (20, ''c'')] (rl_new None (Some 2))))) \<le> 2"
  using reconnect_global_quota [of "[(0, ''a''), (10, ''b''), (20, ''c'')]" 2 30 None]
  by (simp add: rl_step_def rl_ok_def rl_admit_def rl_new_def rl_prune_def recent_def
      RECONNECT_WINDOW_MS_def jget_or_def)

text \<open>
  bounded memory. A flood of attempts under ever new origins cannot grow the table: the
  limiter never tracks more origins than its global quota.
\<close>
theorem reconnect_memory_bound:
  assumes "sorted (map fst es)" and "1 \<le> per" and "0 \<le> glob"
  shows "int (rl_trackedOrigins (rl_run es (rl_new (Some per) (Some glob)))) \<le> glob"
proof (cases es)
  case (Cons e es')
  have "rl_mem (fst e) (rl_new (Some per) (Some glob))" by (simp add: rl_mem_def rl_new_def)
  then obtain t where "rl_mem t (rl_run es (rl_new (Some per) (Some glob)))"
    and "rl_global (rl_run es (rl_new (Some per) (Some glob))) = glob"
    using rl_mem_run [of "fst e" _ es] assms Cons by (fastforce simp: rl_new_def)
  then show ?thesis using assms(3) by (auto simp: rl_mem_def rl_trackedOrigins_def)
qed (use assms in \<open>simp add: rl_trackedOrigins_def rl_new_def\<close>)

theorem reconnect_memory_bound_witness:
  "rl_trackedOrigins (rl_run [(0, ''a''), (1, ''b''), (2, ''c''), (60000, ''d'')] (rl_new (Some 1) (Some 2))) = 2 \<and>
   int (rl_trackedOrigins (rl_run [(0, ''a''), (1, ''b''), (2, ''c''), (60000, ''d'')]
      (rl_new (Some 1) (Some 2)))) \<le> 2"
  using reconnect_memory_bound [of "[(0, ''a''), (1, ''b''), (2, ''c''), (60000, ''d'')]" 1 2]
  by (simp add: rl_step_def rl_admit_def rl_new_def rl_prune_def recent_def rl_trackedOrigins_def
      RECONNECT_WINDOW_MS_def jget_or_def)

text \<open>
  no starvation. As long as the global quota is above the per-origin one, an origin that
  floods the limiter alone cannot keep a different origin out: its first attempt is admitted.
\<close>
theorem reconnect_no_starvation:
  assumes "sorted (map fst es)" and "\<forall>e \<in> set es. snd e = a \<and> fst e \<le> t"
    and "b \<noteq> a" and "1 \<le> per" and "per < glob"
  shows "fst (rl_admit t b (rl_run es (rl_new (Some per) (Some glob))))"
proof -
  let ?s = "rl_run es (rl_new (Some per) (Some glob))"
  obtain t0 where t0: "t0 \<le> t" "\<forall>e \<in> set es. t0 \<le> fst e"
    using assms(1,2) by (cases es) auto
  have "rl_solo a t0 (rl_new (Some per) (Some glob))"
    using assms(4) by (auto simp: rl_solo_def rl_new_def jget_or_def)
  then obtain t1 where "t1 \<le> t" and solo: "rl_solo a t1 ?s"
    and cfg: "rl_perOrigin ?s = per" "rl_global ?s = glob"
    using rl_solo_run [OF _ rl_inv_new assms(1), of a t0 "Some per" "Some glob" t] t0 assms(2)
    by (auto simp: rl_new_def)
  let ?c = "t - RECONNECT_WINDOW_MS"
  have "recent ?c (rl_globalAttempts ?s) = recent ?c (jget_or [] (rl_originAttempts ?s) a)"
    using solo \<open>t1 \<le> t\<close> by (simp add: rl_solo_def)
  then have "int (length (recent ?c (rl_globalAttempts ?s))) < glob"
    using solo cfg assms(4,5) length_recent_le [of ?c "jget_or [] (rl_originAttempts ?s) a"]
    unfolding rl_solo_def by simp
  moreover have "jget_or [] (rl_originAttempts ?s) b = []"
    using solo assms(3) by (simp add: rl_solo_def jget_or_def)
  ultimately show ?thesis using cfg assms(4) by (simp add: rl_admit_def Let_def)
qed

theorem reconnect_no_starvation_witness:
  "fst (rl_admit 5 ''b'' (rl_run [(0, ''a''), (1, ''a''), (2, ''a'')] (rl_new (Some 1) (Some 2))))"
  by (rule reconnect_no_starvation [of _ "''a''"]) simp_all

end
