(* ===== verification/Canonical.thy ===== *)
theory Canonical
  imports Prelude "HOL-Library.Word"
begin

text \<open>
  The canonical byte encodings of the bridge protocol
  (\<open>core/bridge/mbp1/canonical.ts\<close>): length-prefixed strings, fixed-width integers, the
  octet-string-to-integer map and strict unpadded base64url. A byte is an \<open>8 word\<close>; a
  JavaScript string is a \<open>string\<close> of code units up to 255, of which the ASCII check accepts
  those up to 127. A thrown \<open>ProtocolViolationError\<close> is \<open>Inl\<close>.
\<close>

section \<open>Bytes and errors\<close>

type_synonym byte = "8 word"

datatype protocol_violation = ProtocolViolationError string

type_synonym 'a checked = "(protocol_violation, 'a) result"

text \<open>\<open>DataView.setBigUint64\<close> and \<open>setUint32\<close>: the low bytes of a value, either order.\<close>

fun le_bytes :: "nat \<Rightarrow> int \<Rightarrow> byte list" where
  "le_bytes 0 n = []"
| "le_bytes (Suc k) n = word_of_int (n mod 256) # le_bytes k (n div 256)"

definition be_bytes :: "nat \<Rightarrow> int \<Rightarrow> byte list" where
  "be_bytes k n = rev (le_bytes k n)"

section \<open>The encoders\<close>

definition assertAscii :: "string \<Rightarrow> string \<Rightarrow> unit checked" where
  "assertAscii s field =
     (if \<exists>c \<in> set s. of_char c > (127 :: nat)
      then Inl (ProtocolViolationError (field @ '' must be ASCII-only'')) else Inr ())"

definition assertUint64Range :: "int \<Rightarrow> string \<Rightarrow> int checked" where
  "assertUint64Range n field =
     (if n < 0 \<or> n \<ge> 2 ^ 64
      then Inl (ProtocolViolationError
             (field @ '' input must be a non-negative integer within uint64 range''))
      else Inr n)"

definition len64LE :: "int \<Rightarrow> byte list checked" where
  "len64LE n = (case assertUint64Range n ''len64LE'' of Inl e \<Rightarrow> Inl e | Inr v \<Rightarrow> Inr (le_bytes 8 v))"

definition encU64BE :: "int \<Rightarrow> byte list checked" where
  "encU64BE n = (case assertUint64Range n ''encU64BE'' of Inl e \<Rightarrow> Inl e | Inr v \<Rightarrow> Inr (be_bytes 8 v))"

definition encU32BE :: "int \<Rightarrow> byte list checked" where
  "encU32BE n =
     (if n < 0 \<or> n \<ge> 2 ^ 32
      then Inl (ProtocolViolationError
             ''encU32BE input must be a non-negative integer within uint32 range'')
      else Inr (be_bytes 4 n))"

definition utf8ToBytes :: "string \<Rightarrow> byte list" where
  "utf8ToBytes s = map of_char s"

definition asciiStringToBytes :: "string \<Rightarrow> byte list checked" where
  "asciiStringToBytes s =
     (case assertAscii s ''enc(string)'' of Inl e \<Rightarrow> Inl e | Inr _ \<Rightarrow> Inr (utf8ToBytes s))"

definition enc_bytes :: "byte list \<Rightarrow> byte list checked" where
  "enc_bytes b = (case len64LE (int (length b)) of Inl e \<Rightarrow> Inl e | Inr l \<Rightarrow> Inr (l @ b))"

definition enc_str :: "string \<Rightarrow> byte list checked" where
  "enc_str s = (case asciiStringToBytes s of Inl e \<Rightarrow> Inl e | Inr b \<Rightarrow> enc_bytes b)"

definition os2ip :: "byte list \<Rightarrow> int" where
  "os2ip bs = foldl (\<lambda>n b. or (push_bit 8 n) (uint b)) 0 bs"

section \<open>Base64url\<close>

text \<open>Node's \<open>Buffer\<close> codec: three bytes are four sextets; a rest of one or two bytes gives
  two or three sextets with zero low bits.\<close>

definition b64_alphabet :: string where
  "b64_alphabet = ''ABCDEFGHIJKLMNOPQRSTUVWXYZabcdefghijklmnopqrstuvwxyz0123456789-_''"

fun b64_sextets :: "nat list \<Rightarrow> nat list" where
  "b64_sextets [] = []"
| "b64_sextets [a] = [a div 4, (a mod 4) * 16]"
| "b64_sextets [a, b] = [a div 4, (a mod 4) * 16 + b div 16, (b mod 16) * 4]"
| "b64_sextets (a # b # c # r) =
     a div 4 # ((a mod 4) * 16 + b div 16) # ((b mod 16) * 4 + c div 64) # (c mod 64) # b64_sextets r"

fun b64_octets :: "nat list \<Rightarrow> nat list" where
  "b64_octets (p # q # r # s # t) =
     (p * 4 + q div 16) # ((q mod 16) * 16 + r div 4) # ((r mod 4) * 64 + s) # b64_octets t"
| "b64_octets [p, q, r] = [p * 4 + q div 16, (q mod 16) * 16 + r div 4]"
| "b64_octets [p, q] = [p * 4 + q div 16]"
| "b64_octets _ = []"

fun index_of :: "'a list \<Rightarrow> 'a \<Rightarrow> nat" where
  "index_of [] x = 0"
| "index_of (y # ys) x = (if x = y then 0 else Suc (index_of ys x))"

definition toBase64Url :: "byte list \<Rightarrow> string" where
  "toBase64Url bs = map (\<lambda>n. b64_alphabet ! n) (b64_sextets (map unat bs))"

text \<open>\<open>Buffer.from(s, 'base64url')\<close> on a string of the alphabet.\<close>

definition buffer_from_b64 :: "string \<Rightarrow> byte list" where
  "buffer_from_b64 s = map of_nat (b64_octets (map (index_of b64_alphabet) s))"

definition fromBase64Url :: "string \<Rightarrow> byte list checked" where
  "fromBase64Url s =
     (if \<not> set s \<subseteq> set b64_alphabet
      then Inl (ProtocolViolationError ''base64url input contains padding or non-alphabet characters'')
      else if length s mod 4 = 1
      then Inl (ProtocolViolationError ''base64url input has invalid length'')
      else let decoded = buffer_from_b64 s
           in if toBase64Url decoded \<noteq> s
              then Inl (ProtocolViolationError ''base64url input has non-canonical trailing bits'')
              else Inr decoded)"

section \<open>Fixed-width integers\<close>

lemma length_le_bytes [simp]: "length (le_bytes k n) = k"
  by (induction k arbitrary: n) auto

lemma length_be_bytes [simp]: "length (be_bytes k n) = k"
  by (simp add: be_bytes_def)

lemma or_byte: "or (push_bit 8 n) (uint (b :: byte)) = n * 256 + uint b"
proof -
  have "and (push_bit 8 n) (uint b) = 0"
    by (rule bit_eqI) (auto simp: bit_simps dest: bit_imp_le_length)
  then have "or (push_bit 8 n) (uint b) = push_bit 8 n + uint b"
    by (simp add: disjunctive_add_eq_or)
  then show ?thesis by (simp add: push_bit_eq_mult)
qed

lemma os2ip_eq: "os2ip bs = foldl (\<lambda>n b. n * 256 + uint b) 0 bs"
  by (simp add: os2ip_def or_byte)

lemma os2ip_snoc: "os2ip (bs @ [b]) = os2ip bs * 256 + uint b"
  by (simp add: os2ip_eq)

lemma uint_mod_256: "uint (word_of_int (n mod 256) :: byte) = n mod 256"
  by (simp add: uint_word_of_int)

lemma os2ip_be_bytes: "0 \<le> n \<Longrightarrow> n < 256 ^ k \<Longrightarrow> os2ip (be_bytes k n) = n"
proof (induction k arbitrary: n)
  case 0
  then show ?case by (simp add: be_bytes_def os2ip_def)
next
  case (Suc k)
  then have "256 * (n div 256) < 256 * 256 ^ k" using mult_div_mod_eq [of 256 n] by simp
  then have "n div 256 < 256 ^ k" and "0 \<le> n div 256" using Suc.prems(1) by simp_all
  then have "os2ip (be_bytes k (n div 256)) = n div 256" by (rule Suc.IH [rotated])
  then show ?case by (simp add: be_bytes_def os2ip_snoc uint_mod_256)
qed

lemma encU64BE_Inr: "encU64BE n = Inr b \<longleftrightarrow> 0 \<le> n \<and> n < 2 ^ 64 \<and> b = be_bytes 8 n"
  by (auto simp: encU64BE_def assertUint64Range_def)

lemma encU32BE_Inr: "encU32BE n = Inr b \<longleftrightarrow> 0 \<le> n \<and> n < 2 ^ 32 \<and> b = be_bytes 4 n"
  by (auto simp: encU32BE_def)

lemma len64LE_Inr: "len64LE n = Inr b \<longleftrightarrow> 0 \<le> n \<and> n < 2 ^ 64 \<and> b = le_bytes 8 n"
  by (auto simp: len64LE_def assertUint64Range_def)

lemma be_bytes_inj:
  assumes "be_bytes k m = be_bytes k n" and "0 \<le> m" "m < 256 ^ k" "0 \<le> n" "n < 256 ^ k"
  shows "m = n"
  using assms os2ip_be_bytes by metis

lemma le_bytes_inj:
  assumes "le_bytes k m = le_bytes k n" and "0 \<le> m" "m < 256 ^ k" "0 \<le> n" "n < 256 ^ k"
  shows "m = n"
  by (rule be_bytes_inj [of k]) (use assms in \<open>simp_all add: be_bytes_def\<close>)

section \<open>Prefix-free codes\<close>

text \<open>
  The contract the transcript builders rely on: from the front of a byte string a field can
  be read back in one way only, so concatenations of fields are unambiguous.
\<close>

locale prefix_code =
  fixes code :: "'a \<Rightarrow> byte list checked"
  assumes code_prefix: "code a = Inr x \<Longrightarrow> code b = Inr y \<Longrightarrow> x @ r = y @ s \<Longrightarrow> a = b \<and> r = s"
begin

lemma code_inj: "code a = Inr x \<Longrightarrow> code b = Inr x \<Longrightarrow> a = b"
  using code_prefix [of a x b x "[]" "[]"] by simp

end

lemma enc_bytes_Inr: "enc_bytes b = Inr x \<longleftrightarrow> int (length b) < 2 ^ 64 \<and> x = le_bytes 8 (int (length b)) @ b"
  by (auto simp: enc_bytes_def split: sum.split) (auto simp: len64LE_def assertUint64Range_def split: if_splits)

lemma enc_bytes_prefix:
  assumes "enc_bytes a = Inr x" "enc_bytes b = Inr y" "x @ r = y @ s"
  shows "a = b \<and> r = s"
proof -
  have "le_bytes 8 (int (length a)) = le_bytes 8 (int (length b))" and eq: "a @ r = b @ s"
    using assms by (auto simp: enc_bytes_Inr append_eq_append_conv)
  then have "int (length a) = int (length b)"
    using le_bytes_inj [of 8 "int (length a)" "int (length b)"] assms(1,2) by (simp add: enc_bytes_Inr)
  then show ?thesis using eq by (simp add: append_eq_append_conv)
qed

lemma of_char_inj: "(of_char c :: byte) = of_char d \<Longrightarrow> c = d"
proof -
  assume "(of_char c :: byte) = of_char d"
  then have "unat (of_char c :: byte) = unat (of_char d :: byte)" by simp
  moreover have "unat (of_char x :: byte) = of_char x" for x
  proof -
    have "unat (of_nat (of_char x) :: byte) = of_char x" by (simp add: unat_of_nat)
    then show ?thesis by (simp add: of_nat_of_char)
  qed
  ultimately show "c = d" by simp
qed

lemma enc_str_Inr: "enc_str s = Inr x \<Longrightarrow> enc_bytes (utf8ToBytes s) = Inr x"
  by (simp add: enc_str_def asciiStringToBytes_def split: sum.splits)

lemma enc_str_prefix:
  assumes "enc_str a = Inr x" "enc_str b = Inr y" "x @ r = y @ s"
  shows "a = b \<and> r = s"
proof -
  have "utf8ToBytes a = utf8ToBytes b \<and> r = s"
    using enc_bytes_prefix [OF enc_str_Inr [OF assms(1)] enc_str_Inr [OF assms(2)] assms(3)] .
  moreover have "inj (of_char :: char \<Rightarrow> byte)" by (rule injI) (rule of_char_inj)
  ultimately show ?thesis by (auto simp: utf8ToBytes_def inj_map_eq_map)
qed

interpretation enc_bytes: prefix_code enc_bytes
  by unfold_locales (rule enc_bytes_prefix)

interpretation enc_str: prefix_code enc_str
  by unfold_locales (rule enc_str_prefix)

interpretation encU32BE: prefix_code encU32BE
proof
  fix a x b y r s
  assume *: "encU32BE a = Inr x" "encU32BE b = Inr y" "x @ r = y @ s"
  then have "be_bytes 4 a = be_bytes 4 b" and "r = s" by (auto simp: encU32BE_Inr append_eq_append_conv)
  then show "a = b \<and> r = s" using be_bytes_inj [of 4 a b] * by (simp add: encU32BE_Inr)
qed

interpretation encU64BE: prefix_code encU64BE
proof
  fix a x b y r s
  assume *: "encU64BE a = Inr x" "encU64BE b = Inr y" "x @ r = y @ s"
  then have "be_bytes 8 a = be_bytes 8 b" and "r = s" by (auto simp: encU64BE_Inr append_eq_append_conv)
  then show "a = b \<and> r = s" using be_bytes_inj [of 8 a b] * by (simp add: encU64BE_Inr)
qed

section \<open>Base64url round trips\<close>

lemma sextets_lt_64: "\<forall>x \<in> set bs. x < 256 \<Longrightarrow> x \<in> set (b64_sextets bs) \<Longrightarrow> x < 64"
  by (induction bs rule: b64_sextets.induct) auto

lemma octets_sextets: "\<forall>x \<in> set bs. x < 256 \<Longrightarrow> b64_octets (b64_sextets bs) = bs"
proof (induction bs rule: b64_sextets.induct)
  case (4 a b c r)
  then have "c div 64 < 4" and "b div 16 < 16" by auto
  then show ?case using 4 by simp
qed auto

lemma length_sextets_mod: "length (b64_sextets bs) mod 4 \<noteq> 1"
  by (induction bs rule: b64_sextets.induct) auto

lemma length_alphabet: "length b64_alphabet = 64"
  by (simp add: b64_alphabet_def)

lemma distinct_alphabet: "distinct b64_alphabet"
  by (simp add: b64_alphabet_def)

lemma index_of_nth: "distinct xs \<Longrightarrow> i < length xs \<Longrightarrow> index_of xs (xs ! i) = i"
proof (induction xs arbitrary: i)
  case (Cons x xs)
  then show ?case by (cases i) auto
qed simp

lemma index_of_alphabet: "n < 64 \<Longrightarrow> index_of b64_alphabet (b64_alphabet ! n) = n"
  by (simp add: index_of_nth length_alphabet distinct_alphabet)

lemma unat_byte_lt: "\<forall>x \<in> set (map unat (bs :: byte list)). x < 256"
  using unsigned_less [where ?'a = nat and ?'b = 8] by auto

lemma map_index_of_alphabet:
  "\<forall>x \<in> set ns. x < 64 \<Longrightarrow> map (index_of b64_alphabet) (map (\<lambda>n. b64_alphabet ! n) ns) = ns"
  by (induction ns) (auto simp: index_of_alphabet)

lemma buffer_from_toBase64Url: "buffer_from_b64 (toBase64Url bs) = bs"
proof -
  have "\<forall>x \<in> set (b64_sextets (map unat bs)). x < 64"
    using sextets_lt_64 [OF unat_byte_lt] by blast
  then have "map (index_of b64_alphabet) (toBase64Url bs) = b64_sextets (map unat bs)"
    unfolding toBase64Url_def by (rule map_index_of_alphabet)
  then show ?thesis
    unfolding buffer_from_b64_def
    by (simp only: octets_sextets [OF unat_byte_lt]) (simp add: o_def)
qed

lemma toBase64Url_alphabet: "set (toBase64Url bs) \<subseteq> set b64_alphabet"
proof
  fix c assume "c \<in> set (toBase64Url bs)"
  then obtain n where "n \<in> set (b64_sextets (map unat bs))" and "c = b64_alphabet ! n"
    by (auto simp: toBase64Url_def)
  then show "c \<in> set b64_alphabet"
    using sextets_lt_64 [OF unat_byte_lt] by (simp add: length_alphabet)
qed

lemma from_to_base64url: "fromBase64Url (toBase64Url bs) = Inr bs"
proof -
  have "length (toBase64Url bs) mod 4 \<noteq> 1"
    unfolding toBase64Url_def length_map by (rule length_sextets_mod)
  then show ?thesis
    using toBase64Url_alphabet by (simp add: fromBase64Url_def buffer_from_toBase64Url)
qed

lemma fromBase64Url_Inr: "fromBase64Url s = Inr bs \<Longrightarrow> toBase64Url bs = s"
  by (simp add: fromBase64Url_def Let_def split: if_splits)

section \<open>Properties\<close>

text \<open>
  base64url is a bijection between byte strings and accepted texts. Every byte string
  decodes back from its encoding, and an accepted text is the only spelling of its bytes (no
  padding, no stray characters, no non-canonical trailing bits).
\<close>
theorem base64url_canonical:
  "fromBase64Url s = Inr bs \<longleftrightarrow> s = toBase64Url bs"
  using from_to_base64url fromBase64Url_Inr by blast

text \<open>
  big-endian integers round trip. \<open>encU64BE\<close> accepts exactly the 64-bit range (no
  silent wrap-around), yields eight bytes, and \<open>os2ip\<close> reads the same value back.
\<close>
theorem encU64BE_os2ip:
  "(\<exists>b. encU64BE n = Inr b \<and> length b = 8 \<and> os2ip b = n) \<longleftrightarrow> 0 \<le> n \<and> n < 2 ^ 64"
  using os2ip_be_bytes [of n 8] by (auto simp: encU64BE_Inr)

end
