(* ===== verification/Nonce_Service.thy ===== *)
theory Nonce_Service
  imports Sliding_Window Canonical
begin

text \<open>
  The pairing-nonce issuer of the bridge (\<open>core/bridge/mbp1/nonce-service.ts\<close>): outstanding
  nonces with their expiry, the three caps checked by \<open>issue\<close>, the one-shot \<open>consume\<close>.
  The clock and the sixteen random bytes are arguments of each operation.
\<close>

section \<open>State and operations\<close>

definition RATE_WINDOW_MS :: int where
  "RATE_WINDOW_MS = 60000"

record nonce_service =
  ns_ttlMs :: int
  ns_maxOutstanding :: int
  ns_ratePerMinute :: int
  ns_perOriginPerMinute :: int
  ns_nonces :: "(string, int) jmap"
  ns_issueTimes :: "int list"
  ns_originIssueTimes :: "(string, int list) jmap"

definition ns_new :: "int option \<Rightarrow> int option \<Rightarrow> int option \<Rightarrow> int option \<Rightarrow> nonce_service" where
  "ns_new ttl cap rate per = \<lparr>
     ns_ttlMs = (case ttl of None \<Rightarrow> 60000 | Some n \<Rightarrow> n),
     ns_maxOutstanding = (case cap of None \<Rightarrow> 32 | Some n \<Rightarrow> n),
     ns_ratePerMinute = (case rate of None \<Rightarrow> 60 | Some n \<Rightarrow> n),
     ns_perOriginPerMinute = (case per of None \<Rightarrow> 10 | Some n \<Rightarrow> n),
     ns_nonces = [], ns_issueTimes = [], ns_originIssueTimes = []\<rparr>"

text \<open>The pattern \<open>[A-Za-z0-9_-]{21}[AQgw]\<close>.\<close>

definition isCanonicalMbp1PairNonce :: "string \<Rightarrow> bool" where
  "isCanonicalMbp1PairNonce s \<longleftrightarrow>
     length s = 22 \<and> set (take 21 s) \<subseteq> set b64_alphabet \<and> s ! 21 \<in> set ''AQgw''"

definition sweepExpiredNonces :: "int \<Rightarrow> (string, int) jmap \<Rightarrow> (string, int) jmap" where
  "sweepExpiredNonces t m = filter (\<lambda>e. \<not> snd e \<le> t) m"

datatype issue_result = Issued string int | Limited | GenerationFailed

definition ns_issue ::
  "int \<Rightarrow> string option \<Rightarrow> byte list \<Rightarrow> nonce_service \<Rightarrow> issue_result \<times> nonce_service" where
  "ns_issue t origin rnd s0 =
     (let s = s0\<lparr>ns_nonces := sweepExpiredNonces t (ns_nonces s0)\<rparr>;
          cutoff = t - RATE_WINDOW_MS;
          g = recent cutoff (ns_issueTimes s);
          r = (case origin of None \<Rightarrow> [] | Some k \<Rightarrow> recent cutoff (jget_or [] (ns_originIssueTimes s) k))
      in if int (length (ns_nonces s)) \<ge> ns_maxOutstanding s then (Limited, s)
         else if int (length g) \<ge> ns_ratePerMinute s then (Limited, s\<lparr>ns_issueTimes := g\<rparr>)
         else if origin \<noteq> None \<and> int (length r) \<ge> ns_perOriginPerMinute s
         then (Limited, s\<lparr>ns_originIssueTimes := jset (ns_originIssueTimes s) (the origin) r\<rparr>)
         else let s1 = s\<lparr>ns_issueTimes := g @ [t],
                         ns_originIssueTimes :=
                           (case origin of None \<Rightarrow> ns_originIssueTimes s
                            | Some k \<Rightarrow> jset (ns_originIssueTimes s) k (r @ [t]))\<rparr>;
                  nonce = toBase64Url rnd
              in if \<not> isCanonicalMbp1PairNonce nonce then (GenerationFailed, s1)
                 else (Issued nonce (ns_ttlMs s div 1000),
                       s1\<lparr>ns_nonces := jset (ns_nonces s) nonce (t + ns_ttlMs s)\<rparr>))"

definition ns_consume :: "int \<Rightarrow> string \<Rightarrow> nonce_service \<Rightarrow> bool \<times> nonce_service" where
  "ns_consume t nonce s =
     (case map_of (ns_nonces s) nonce of
        None \<Rightarrow> (False, s)
      | Some expiresAt \<Rightarrow> (expiresAt > t, s\<lparr>ns_nonces := jdel (ns_nonces s) nonce\<rparr>))"

section \<open>Runs\<close>

datatype nonce_event =
    NsIssue (ns_time: int) "string option" "byte list"
  | NsConsume (ns_time: int) string

primrec ns_step :: "nonce_event \<Rightarrow> nonce_service \<Rightarrow> nonce_service" where
  "ns_step (NsIssue t origin rnd) s = snd (ns_issue t origin rnd s)"
| "ns_step (NsConsume t n) s = snd (ns_consume t n s)"

fun ns_run :: "nonce_event list \<Rightarrow> nonce_service \<Rightarrow> nonce_service" where
  "ns_run [] s = s"
| "ns_run (e # es) s = ns_run es (ns_step e s)"

text \<open>An event counts against the rate caps when it is an \<open>issue\<close> that was not refused.\<close>

primrec ns_counted :: "nonce_event \<Rightarrow> nonce_service \<Rightarrow> bool" where
  "ns_counted (NsIssue t origin rnd) s = (fst (ns_issue t origin rnd s) \<noteq> Limited)"
| "ns_counted (NsConsume t n) s = False"

primrec ns_origin_of :: "nonce_event \<Rightarrow> string option" where
  "ns_origin_of (NsIssue t origin rnd) = origin"
| "ns_origin_of (NsConsume t n) = None"

definition ns_counted_for :: "string \<Rightarrow> nonce_event \<Rightarrow> nonce_service \<Rightarrow> bool" where
  "ns_counted_for k e s \<longleftrightarrow> ns_origin_of e = Some k \<and> ns_counted e s"

section \<open>Outcomes of an issue\<close>

lemma ns_issue_cases:
  fixes s :: nonce_service and t :: int and origin :: "string option" and rnd :: "byte list"
  defines "m \<equiv> sweepExpiredNonces t (ns_nonces s)"
    and "g \<equiv> recent (t - RATE_WINDOW_MS) (ns_issueTimes s)"
    and "r \<equiv> (\<lambda>k. recent (t - RATE_WINDOW_MS) (jget_or [] (ns_originIssueTimes s) k))"
    and "res \<equiv> fst (ns_issue t origin rnd s)" and "s' \<equiv> snd (ns_issue t origin rnd s)"
  obtains
    (full) "res = Limited" "ns_nonces s' = m" "int (length m) \<ge> ns_maxOutstanding s"
      "ns_issueTimes s' = ns_issueTimes s" "ns_originIssueTimes s' = ns_originIssueTimes s"
  | (rate) "res = Limited" "ns_nonces s' = m" "int (length g) \<ge> ns_ratePerMinute s"
      "ns_issueTimes s' = g" "ns_originIssueTimes s' = ns_originIssueTimes s"
  | (origin_rate) k where "origin = Some k" "res = Limited" "ns_nonces s' = m"
      "int (length (r k)) \<ge> ns_perOriginPerMinute s" "ns_issueTimes s' = ns_issueTimes s"
      "ns_originIssueTimes s' = jset (ns_originIssueTimes s) k (r k)"
  | (passed) "res \<noteq> Limited" "int (length m) < ns_maxOutstanding s"
      "int (length g) < ns_ratePerMinute s"
      "\<And>k. origin = Some k \<Longrightarrow> int (length (r k)) < ns_perOriginPerMinute s"
      "ns_issueTimes s' = g @ [t]"
      "ns_originIssueTimes s' = (case origin of None \<Rightarrow> ns_originIssueTimes s
         | Some k \<Rightarrow> jset (ns_originIssueTimes s) k (r k @ [t]))"
      "res = (if isCanonicalMbp1PairNonce (toBase64Url rnd)
              then Issued (toBase64Url rnd) (ns_ttlMs s div 1000) else GenerationFailed)"
      "ns_nonces s' = (if isCanonicalMbp1PairNonce (toBase64Url rnd)
              then jset m (toBase64Url rnd) (t + ns_ttlMs s) else m)"
  unfolding m_def g_def r_def res_def s'_def
  by (cases "int (length (sweepExpiredNonces t (ns_nonces s))) \<ge> ns_maxOutstanding s";
      cases "int (length (recent (t - RATE_WINDOW_MS) (ns_issueTimes s))) \<ge> ns_ratePerMinute s";
      cases origin;
      cases "int (length (recent (t - RATE_WINDOW_MS) (jget_or [] (ns_originIssueTimes s) (the origin))))
               \<ge> ns_perOriginPerMinute s")
    (simp_all add: ns_issue_def Let_def)

lemma ns_config [simp]:
  "ns_ratePerMinute (ns_step e s) = ns_ratePerMinute s"
  "ns_perOriginPerMinute (ns_step e s) = ns_perOriginPerMinute s"
  "ns_maxOutstanding (ns_step e s) = ns_maxOutstanding s"
  "ns_ttlMs (ns_step e s) = ns_ttlMs s"
  by (cases e; simp add: ns_issue_def ns_consume_def Let_def split: option.split)+

lemma ns_consume_logs [simp]:
  "ns_issueTimes (snd (ns_consume t n s)) = ns_issueTimes s"
  "ns_originIssueTimes (snd (ns_consume t n s)) = ns_originIssueTimes s"
  by (simp_all add: ns_consume_def split: option.split)

section \<open>The rate caps meet the sliding-window contract\<close>

interpretation ns_global: sliding_window ns_step ns_counted ns_time ns_issueTimes
    "\<lambda>_ s. ns_ratePerMinute s = cap" cap RATE_WINDOW_MS for cap
proof (unfold_locales, goal_cases)
  case (2 t s e)
  then show ?case
  proof (cases e)
    case (NsIssue u origin rnd)
    then show ?thesis
      using 2 by (cases u origin rnd s rule: ns_issue_cases) (simp_all add: recent_recent)
  qed simp
next
  case (3 t s e)
  then show ?case
  proof (cases e)
    case (NsIssue u origin rnd)
    then show ?thesis
      using 3 by (cases u origin rnd s rule: ns_issue_cases) simp_all
  qed simp
next
  case (4 t s e)
  then show ?case
  proof (cases e)
    case (NsIssue u origin rnd)
    then show ?thesis
      using 4 by (cases u origin rnd s rule: ns_issue_cases) (simp_all add: recent_recent)
  qed simp
qed simp

lemma ns_bucket_after:
  "recent (ns_time e - RATE_WINDOW_MS) (jget_or [] (ns_originIssueTimes (ns_step e s)) k) =
     recent (ns_time e - RATE_WINDOW_MS)
       (jget_or [] (ns_originIssueTimes s) k @ (if ns_counted_for k e s then [ns_time e] else []))"
proof (cases e)
  case (NsIssue u origin rnd)
  then show ?thesis
    by (cases u origin rnd s rule: ns_issue_cases)
      (auto simp: ns_counted_for_def recent_recent split: option.splits)
qed (simp add: ns_counted_for_def)

interpretation ns_origin: sliding_window ns_step "ns_counted_for k" ns_time
    "\<lambda>s. jget_or [] (ns_originIssueTimes s) k"
    "\<lambda>_ s. ns_perOriginPerMinute s = cap" cap RATE_WINDOW_MS for k cap
proof (unfold_locales, goal_cases)
  case (3 t s e)
  then show ?case
  proof (cases e)
    case (NsIssue u origin rnd)
    then show ?thesis
      using 3 by (cases u origin rnd s rule: ns_issue_cases) (auto simp: ns_counted_for_def)
  qed (simp add: ns_counted_for_def)
qed (simp_all add: ns_bucket_after)

section \<open>Issued nonces are canonical\<close>

lemma sextets_rest_one:
  "length bs mod 3 = 1 \<Longrightarrow>
   length (b64_sextets bs) = 4 * (length bs div 3) + 2 \<and> last (b64_sextets bs) \<in> {0, 16, 32, 48}"
proof (induction bs rule: b64_sextets.induct)
  case (2 a)
  have "a mod 4 < 4" by simp
  then have "a mod 4 = 0 \<or> a mod 4 = 1 \<or> a mod 4 = 2 \<or> a mod 4 = 3" by linarith
  then show ?case by (elim disjE) simp_all
next
  case (4 a b c r)
  have m: "Suc (Suc (Suc n)) mod 3 = n mod 3" "(3 + n) div 3 = Suc (n div 3)" for n :: nat
    by presburger+
  have "length r mod 3 = 1" using 4(2) by (simp add: m)
  from 4(1) [OF this] show ?case by (cases "b64_sextets r = []") (simp_all add: m)
qed auto

lemma toBase64Url_16_canonical:
  assumes "length rnd = 16"
  shows "isCanonicalMbp1PairNonce (toBase64Url rnd)"
proof -
  let ?sx = "b64_sextets (map unat rnd)"
  have sx: "length ?sx = 22" "last ?sx \<in> {0, 16, 32, 48}"
    using sextets_rest_one [of "map unat rnd"] assms by simp_all
  then have "?sx ! 21 \<in> {0, 16, 32, 48}"
    using last_conv_nth [of ?sx] by (cases "?sx = []") simp_all
  moreover have "toBase64Url rnd ! 21 = b64_alphabet ! (?sx ! 21)"
    using sx(1) by (simp add: toBase64Url_def)
  ultimately have "toBase64Url rnd ! 21 \<in> (!) b64_alphabet ` {0, 16, 32, 48}" by blast
  also have "(!) b64_alphabet ` {0, 16, 32, 48} = set ''AQgw''"
    by (simp add: b64_alphabet_def insert_commute)
  finally have "toBase64Url rnd ! 21 \<in> set ''AQgw''" .
  moreover have "set (take 21 (toBase64Url rnd)) \<subseteq> set b64_alphabet"
    by (rule subset_trans [OF set_take_subset toBase64Url_alphabet])
  moreover have "length (toBase64Url rnd) = 22" using sx(1) by (simp add: toBase64Url_def)
  ultimately show ?thesis unfolding isCanonicalMbp1PairNonce_def by (intro conjI)
qed

section \<open>The outstanding table\<close>

definition ns_wf :: "nonce_service \<Rightarrow> bool" where
  "ns_wf s \<longleftrightarrow> jwf (ns_nonces s) \<and>
     (ns_nonces s = [] \<or> int (length (ns_nonces s)) \<le> ns_maxOutstanding s)"

lemma ns_wf_new: "ns_wf (ns_new ttl cap rate per)"
  by (simp add: ns_wf_def ns_new_def)

lemma sweep_keeps: "jwf m \<Longrightarrow> map_of (sweepExpiredNonces t m) n = Some x \<longleftrightarrow> map_of m n = Some x \<and> t < x"
  by (auto simp: sweepExpiredNonces_def map_of_filter_Some)

lemma jwf_sweep [simp]: "jwf m \<Longrightarrow> jwf (sweepExpiredNonces t m)"
  by (simp add: sweepExpiredNonces_def)

lemma sweep_bound: "m = [] \<or> int (length m) \<le> c \<Longrightarrow>
    sweepExpiredNonces t m = [] \<or> int (length (sweepExpiredNonces t m)) \<le> c"
  using length_filter_le [of "\<lambda>e. \<not> snd e \<le> t" m] unfolding sweepExpiredNonces_def
  by (cases "m = []") (simp, linarith)

lemma ns_wf_step: "ns_wf s \<Longrightarrow> ns_wf (ns_step e s)"
proof (cases e)
  case (NsIssue t origin rnd)
  assume wf: "ns_wf s"
  have b: "sweepExpiredNonces t (ns_nonces s) = [] \<or>
      int (length (sweepExpiredNonces t (ns_nonces s))) \<le> ns_maxOutstanding s"
    using wf unfolding ns_wf_def by (intro sweep_bound) simp
  have ins: "int (length (jset m k v)) \<le> c" if "int (length m) < c" for m :: "(string, int) jmap" and k v c
    using that length_jset_le [of m k v] by linarith
  have cfg: "ns_maxOutstanding (snd (ns_issue t origin rnd s)) = ns_maxOutstanding s"
    using ns_config(3) [of "NsIssue t origin rnd" s] by simp
  show ?thesis
    unfolding NsIssue ns_step.simps
    by (cases t origin rnd s rule: ns_issue_cases; use wf b cfg in \<open>simp add: ns_wf_def ins\<close>)
next
  case (NsConsume t n)
  assume "ns_wf s"
  moreover have "int (length (jdel m n)) \<le> c" if "int (length m) \<le> c" for m :: "(string, int) jmap" and c
    using that length_jdel_le [of m n] by linarith
  ultimately show ?thesis
    by (auto simp: NsConsume ns_wf_def ns_consume_def split: option.split)
qed

lemma ns_wf_run: "ns_wf s \<Longrightarrow> ns_wf (ns_run es s) \<and> ns_maxOutstanding (ns_run es s) = ns_maxOutstanding s"
  by (induction es arbitrary: s) (auto simp: ns_wf_step)

text \<open>Whether an event issues, or consumes, the nonce \<open>n\<close>.\<close>

primrec issues :: "string \<Rightarrow> nonce_event \<Rightarrow> bool" where
  "issues n (NsIssue t origin rnd) = (toBase64Url rnd = n)"
| "issues n (NsConsume t m) = False"

primrec consumes :: "string \<Rightarrow> nonce_event \<Rightarrow> bool" where
  "consumes n (NsIssue t origin rnd) = False"
| "consumes n (NsConsume t m) = (m = n)"

lemma absent_step:
  assumes "ns_wf s" "map_of (ns_nonces s) n = None" "\<not> issues n e"
  shows "map_of (ns_nonces (ns_step e s)) n = None"
proof (cases e)
  case (NsIssue t origin rnd)
  have "map_of (sweepExpiredNonces t (ns_nonces s)) n = None"
    using assms sweep_keeps by (cases "map_of (sweepExpiredNonces t (ns_nonces s)) n") (auto simp: ns_wf_def)
  then show ?thesis
    using assms(3) NsIssue by (cases t origin rnd s rule: ns_issue_cases) auto
next
  case (NsConsume t m)
  then show ?thesis using assms by (simp add: ns_consume_def split: option.split)
qed

lemma absent_run:
  "ns_wf s \<Longrightarrow> map_of (ns_nonces s) n = None \<Longrightarrow> \<forall>e \<in> set es. \<not> issues n e \<Longrightarrow>
   map_of (ns_nonces (ns_run es s)) n = None"
  by (induction es arbitrary: s) (auto simp: ns_wf_step absent_step)

lemma live_step:
  assumes "ns_wf s" "map_of (ns_nonces s) n = Some x" "ns_time e < x" "\<not> issues n e" "\<not> consumes n e"
  shows "map_of (ns_nonces (ns_step e s)) n = Some x"
proof (cases e)
  case (NsIssue t origin rnd)
  have "map_of (sweepExpiredNonces t (ns_nonces s)) n = Some x"
    using assms sweep_keeps NsIssue by (simp add: ns_wf_def)
  then show ?thesis
    using assms(4) NsIssue by (cases t origin rnd s rule: ns_issue_cases) auto
next
  case (NsConsume t m)
  then show ?thesis using assms by (auto simp: ns_consume_def split: option.split)
qed

lemma live_run:
  "ns_wf s \<Longrightarrow> map_of (ns_nonces s) n = Some x \<Longrightarrow>
   \<forall>e \<in> set es. ns_time e < x \<and> \<not> issues n e \<and> \<not> consumes n e \<Longrightarrow>
   map_of (ns_nonces (ns_run es s)) n = Some x"
  by (induction es arbitrary: s) (auto simp: ns_wf_step live_step)

lemma issued_nonce:
  assumes "ns_issue t origin rnd s = (Issued n sec, s')" and "ns_wf s"
  shows "map_of (ns_nonces s') n = Some (t + ns_ttlMs s)" and "ns_wf s'"
proof -
  have fst: "fst (ns_issue t origin rnd s) = Issued n sec" and snd: "snd (ns_issue t origin rnd s) = s'"
    using assms(1) by simp_all
  show "map_of (ns_nonces s') n = Some (t + ns_ttlMs s)"
    by (cases t origin rnd s rule: ns_issue_cases; use fst snd in \<open>auto split: if_splits\<close>)
  show "ns_wf s'" using ns_wf_step [OF assms(2), of "NsIssue t origin rnd"] snd by simp
qed

section \<open>Properties\<close>

text \<open>
  pairing nonces are one-shot. After a nonce has been consumed (successfully or not), no
  sequence of later operations makes it consumable again, unless the same sixteen random bytes
  are drawn anew.
\<close>
theorem nonce_one_shot:
  assumes "\<forall>e \<in> set es. \<not> issues n e"
  shows "\<not> fst (ns_consume u n (ns_run es (snd (ns_consume t n (ns_run es0 (ns_new ttl cap rate per))))))"
proof -
  let ?s = "ns_run es0 (ns_new ttl cap rate per)"
  have wf: "ns_wf ?s" using ns_wf_run [OF ns_wf_new] by blast
  have "map_of (ns_nonces (snd (ns_consume t n ?s))) n = None"
    by (simp add: ns_consume_def split: option.split)
  moreover have "ns_wf (snd (ns_consume t n ?s))"
    using ns_wf_step [OF wf, of "NsConsume t n"] by simp
  ultimately show ?thesis using absent_run assms by (simp add: ns_consume_def)
qed

theorem nonce_one_shot_witness:
  "(let rnd = replicate 16 7; n = toBase64Url rnd; s = ns_run [NsIssue 0 None rnd] (ns_new None None None None)
    in fst (ns_consume 5 n s) \<and>
       \<not> fst (ns_consume 7 n (ns_run [NsConsume 6 n] (snd (ns_consume 5 n s)))))"
  using nonce_one_shot [of "[NsConsume 6 (toBase64Url (replicate 16 7))]" "toBase64Url (replicate 16 7)" 7 5
      "[NsIssue 0 None (replicate 16 7)]" None None None None]
  by (simp add: Let_def ns_issue_def ns_new_def sweepExpiredNonces_def toBase64Url_16_canonical ns_consume_def)

text \<open>
  an issued nonce stays valid for its lifetime. Whatever other operations run before it
  expires (issues that sweep the table, refusals, other consumptions), it is consumable; from its
  expiry on it is not.
\<close>
theorem nonce_live_until_expiry:
  assumes "ns_issue t origin rnd (ns_run es0 (ns_new ttl cap rate per)) = (Issued n sec, s)"
    and "\<forall>e \<in> set es. ns_time e < t + ns_ttlMs s \<and> \<not> issues n e \<and> \<not> consumes n e"
  shows "fst (ns_consume u n (ns_run es s)) \<longleftrightarrow> u < t + ns_ttlMs s"
proof -
  let ?init = "ns_run es0 (ns_new ttl cap rate per)"
  have wf: "ns_wf ?init" using ns_wf_run [OF ns_wf_new] by blast
  have "ns_ttlMs s = ns_ttlMs ?init"
    using ns_config(4) [of "NsIssue t origin rnd" ?init] assms(1) by simp
  then have "map_of (ns_nonces (ns_run es s)) n = Some (t + ns_ttlMs s)"
    using live_run [OF issued_nonce(2,1) [OF assms(1) wf]] assms(2) by simp
  then show ?thesis by (simp add: ns_consume_def)
qed

theorem nonce_live_until_expiry_witness:
  "\<exists>n s. ns_issue 0 None (replicate 16 7) (ns_run [] (ns_new None None None None)) = (Issued n 60, s) \<and>
     fst (ns_consume 59999 n (ns_run [NsIssue 10 None (replicate 16 8)] s)) \<and>
     \<not> fst (ns_consume 60000 n (ns_run [NsIssue 10 None (replicate 16 8)] s))"
proof -
  let ?n = "toBase64Url (replicate 16 (7 :: byte))"
  let ?init = "ns_run [] (ns_new None None None None)"
  let ?s = "snd (ns_issue 0 None (replicate 16 7) ?init)"
  have "fst (ns_issue 0 None (replicate 16 7) ?init) = Issued ?n 60"
    by (simp add: ns_issue_def ns_new_def sweepExpiredNonces_def Let_def recent_def RATE_WINDOW_MS_def
        toBase64Url_16_canonical)
  then have iss: "ns_issue 0 None (replicate 16 7) ?init = (Issued ?n 60, ?s)"
    by (simp add: prod_eq_iff)
  have ttl: "ns_ttlMs ?s = 60000"
    using ns_config(4) [of "NsIssue 0 None (replicate 16 7)" ?init] by (simp add: ns_new_def)
  have "toBase64Url (replicate 16 (8 :: byte)) \<noteq> ?n"
  proof
    assume "toBase64Url (replicate 16 (8 :: byte)) = ?n"
    then have "replicate 16 (8 :: byte) = replicate 16 7" by (metis buffer_from_toBase64Url)
    then show False by simp
  qed
  then have side: "\<forall>e \<in> set [NsIssue 10 None (replicate 16 8)].
      ns_time e < 0 + ns_ttlMs ?s \<and> \<not> issues ?n e \<and> \<not> consumes ?n e"
    using ttl by simp
  show ?thesis
    using nonce_live_until_expiry [OF iss side] iss ttl by (intro exI [of _ ?n] exI [of _ ?s]) simp
qed

text \<open>
  bounded table. Never more than \<open>maxOutstanding\<close> nonces are outstanding, and with the
  sixteen random bytes the code draws, \<open>issue\<close> never fails its own canonicality check.
\<close>
theorem nonce_bounds:
  assumes "0 \<le> cap" and "length rnd = 16"
  shows "int (length (ns_nonces (ns_run es (ns_new ttl (Some cap) rate per)))) \<le> cap \<and>
     fst (ns_issue t origin rnd (ns_run es (ns_new ttl (Some cap) rate per))) \<noteq> GenerationFailed"
proof
  let ?s = "ns_run es (ns_new ttl (Some cap) rate per)"
  have "ns_wf ?s" and "ns_maxOutstanding ?s = cap"
    using ns_wf_run [OF ns_wf_new, of es ttl "Some cap" rate per] by (simp_all add: ns_new_def)
  then show "int (length (ns_nonces ?s)) \<le> cap" using assms(1) by (auto simp: ns_wf_def)
  show "fst (ns_issue t origin rnd ?s) \<noteq> GenerationFailed"
    by (cases t origin rnd ?s rule: ns_issue_cases) (use toBase64Url_16_canonical [OF assms(2)] in auto)
qed

theorem nonce_bounds_witness:
  "int (length (ns_nonces (ns_run [NsIssue 0 None (replicate 16 7)] (ns_new None (Some 1) None None)))) \<le> 1 \<and>
   fst (ns_issue 1 None (replicate 16 8) (ns_run [NsIssue 0 None (replicate 16 7)]
     (ns_new None (Some 1) None None))) \<noteq> GenerationFailed"
  using nonce_bounds [of 1 "replicate 16 8" "[NsIssue 0 None (replicate 16 7)]" None None None 1 None] by simp

text \<open>
  rate caps. In any 60 second window at most \<open>ratePerMinute\<close> nonces are issued in total
  and at most \<open>perOriginPerMinute\<close> to one verified origin, whatever is consumed in between.
\<close>
theorem nonce_rate_caps:
  assumes "sorted (map ns_time es)" and "0 \<le> rate" and "0 \<le> per"
  shows "int (length (filter (\<lambda>x. u - RATE_WINDOW_MS < x \<and> x \<le> u)
           (hits ns_step ns_counted ns_time es (ns_new ttl cap (Some rate) (Some per))))) \<le> rate \<and>
         int (length (filter (\<lambda>x. u - RATE_WINDOW_MS < x \<and> x \<le> u)
           (hits ns_step (ns_counted_for k) ns_time es (ns_new ttl cap (Some rate) (Some per))))) \<le> per"
proof (cases es)
  case (Cons e es')
  have le: "\<forall>e' \<in> set es. ns_time e \<le> ns_time e'" using assms(1) Cons by auto
  show ?thesis
    using ns_global.window_bound [OF _ _ assms(2,1) le] ns_origin.window_bound [OF _ _ assms(3,1) le]
    by (simp add: ns_new_def jget_or_def)
qed (use assms in simp)

theorem nonce_rate_caps_witness:
  "int (length (filter (\<lambda>x. 9 - RATE_WINDOW_MS < x \<and> x \<le> 9)
      (hits ns_step ns_counted ns_time [NsIssue 0 (Some ''a'') [], NsIssue 1 (Some ''a'') []]
        (ns_new None None (Some 1) (Some 1))))) \<le> 1"
  using nonce_rate_caps [of "[NsIssue 0 (Some ''a'') [], NsIssue 1 (Some ''a'') []]" 1 1 9] by simp

end
