(* ===== verification/Pair_Flood.thy ===== *)
theory Pair_Flood
  imports Prelude
begin

text \<open>
  Pairing flood control (\<open>core/bridge/mbp1/flood-control.ts\<close>): the global cap on pending
  approval dialogs, the escalating failure lockout and its 24 hour reset. Times are
  milliseconds; the clock reading is an argument of every operation that takes one.
\<close>

section \<open>State and operations\<close>

definition RESET_AFTER_MS :: int where
  "RESET_AFTER_MS = 24 * 60 * 60 * 1000"

record flood_control =
  fc_pendingCap :: int
  fc_pendingOrigins :: "string jsetof"
  fc_failureCount :: nat
  fc_lastFailureAt :: "int option"

record pair_outcome =
  queuedDialog :: bool
  consumedAttempt :: bool
  confirmed :: bool

datatype admit_code = Busy | RateLimited

datatype admit_result = Admitted | Refused admit_code

definition fc_new :: "int option \<Rightarrow> flood_control" where
  "fc_new cap = \<lparr>fc_pendingCap = (case cap of None \<Rightarrow> 3 | Some n \<Rightarrow> n), fc_pendingOrigins = [],
     fc_failureCount = 0, fc_lastFailureAt = None\<rparr>"

definition fc_resetIfStale :: "int \<Rightarrow> flood_control \<Rightarrow> flood_control" where
  "fc_resetIfStale t s =
     (case fc_lastFailureAt s of
        None \<Rightarrow> s
      | Some l \<Rightarrow> if t - l \<ge> RESET_AFTER_MS
                 then s\<lparr>fc_failureCount := 0, fc_lastFailureAt := None\<rparr> else s)"

text \<open>\<open>min(30 * 2 ** (n - 1), 3600)\<close> seconds after the \<open>n\<close>th failure, in milliseconds.\<close>

definition lockout_ms :: "nat \<Rightarrow> int" where
  "lockout_ms n = min (30 * 2 ^ (n - 1)) 3600 * 1000"

definition fc_lockoutRemainingMs :: "int \<Rightarrow> flood_control \<Rightarrow> int \<times> flood_control" where
  "fc_lockoutRemainingMs t s0 =
     (let s = fc_resetIfStale t s0
      in case fc_lastFailureAt s of
           None \<Rightarrow> (0, s)
         | Some l \<Rightarrow> if fc_failureCount s = 0 then (0, s)
                    else (max 0 (l + lockout_ms (fc_failureCount s) - t), s))"

definition fc_admit :: "int \<Rightarrow> string \<Rightarrow> flood_control \<Rightarrow> admit_result \<times> flood_control" where
  "fc_admit t origin s0 =
     (let (rem, s) = fc_lockoutRemainingMs t s0
      in if rem > 0 then (Refused RateLimited, s)
         else if origin \<in> set (fc_pendingOrigins s) then (Refused Busy, s)
         else if int (length (fc_pendingOrigins s)) \<ge> fc_pendingCap s then (Refused Busy, s)
         else (Admitted, s\<lparr>fc_pendingOrigins := sadd (fc_pendingOrigins s) origin\<rparr>))"

definition fc_release :: "string \<Rightarrow> flood_control \<Rightarrow> flood_control" where
  "fc_release origin s = s\<lparr>fc_pendingOrigins := sdel (fc_pendingOrigins s) origin\<rparr>"

definition fc_recordOutcome :: "int \<Rightarrow> pair_outcome \<Rightarrow> flood_control \<Rightarrow> flood_control" where
  "fc_recordOutcome t o1 s0 =
     (let s = fc_resetIfStale t s0
      in if confirmed o1 then s\<lparr>fc_failureCount := 0, fc_lastFailureAt := None\<rparr>
         else if queuedDialog o1 \<or> consumedAttempt o1
         then s\<lparr>fc_failureCount := fc_failureCount s + 1, fc_lastFailureAt := Some t\<rparr>
         else s)"

section \<open>Runs\<close>

datatype fc_event = FcAdmit int string | FcRelease string | FcOutcome int pair_outcome

primrec fc_step :: "fc_event \<Rightarrow> flood_control \<Rightarrow> flood_control" where
  "fc_step (FcAdmit t k) s = snd (fc_admit t k s)"
| "fc_step (FcRelease k) s = fc_release k s"
| "fc_step (FcOutcome t o1) s = fc_recordOutcome t o1 s"

fun fc_run :: "fc_event list \<Rightarrow> flood_control \<Rightarrow> flood_control" where
  "fc_run [] s = s"
| "fc_run (e # es) s = fc_run es (fc_step e s)"

section \<open>Invariant\<close>

definition fc_inv :: "flood_control \<Rightarrow> bool" where
  "fc_inv s \<longleftrightarrow> distinct (fc_pendingOrigins s) \<and>
     (fc_pendingOrigins s = [] \<or> int (length (fc_pendingOrigins s)) \<le> fc_pendingCap s) \<and>
     (fc_failureCount s = 0 \<longleftrightarrow> fc_lastFailureAt s = None)"

lemma fc_inv_new: "fc_inv (fc_new cap)"
  by (simp add: fc_inv_def fc_new_def)

lemma fc_reset_pending [simp]:
  "fc_pendingOrigins (fc_resetIfStale t s) = fc_pendingOrigins s"
  "fc_pendingCap (fc_resetIfStale t s) = fc_pendingCap s"
  by (simp_all add: fc_resetIfStale_def split: option.split)

lemma fc_inv_reset: "fc_inv s \<Longrightarrow> fc_inv (fc_resetIfStale t s)"
  by (simp add: fc_inv_def fc_resetIfStale_def split: option.split)

lemma fc_lockout_state [simp]: "snd (fc_lockoutRemainingMs t s) = fc_resetIfStale t s"
  by (simp add: fc_lockoutRemainingMs_def Let_def split: option.split)

lemma length_sdel_le: "length (sdel xs x) \<le> length xs"
  by (simp add: sdel_def)

lemma fc_admit_cases:
  fixes s :: flood_control and t :: int
  defines "s' \<equiv> fc_resetIfStale t s" and "rem \<equiv> fst (fc_lockoutRemainingMs t s)"
  obtains
    (locked) "rem > 0" "fc_admit t k s = (Refused RateLimited, s')"
  | (busy) "rem \<le> 0" "k \<in> set (fc_pendingOrigins s) \<or> int (length (fc_pendingOrigins s)) \<ge> fc_pendingCap s"
      "fc_admit t k s = (Refused Busy, s')"
  | (admitted) "rem \<le> 0" "k \<notin> set (fc_pendingOrigins s)" "int (length (fc_pendingOrigins s)) < fc_pendingCap s"
      "fc_admit t k s = (Admitted, s'\<lparr>fc_pendingOrigins := fc_pendingOrigins s @ [k]\<rparr>)"
proof -
  have eq: "fc_lockoutRemainingMs t s = (rem, s')"
    unfolding rem_def s'_def by (simp add: prod_eq_iff)
  consider "rem > 0" | "rem \<le> 0" "k \<in> set (fc_pendingOrigins s) \<or> int (length (fc_pendingOrigins s)) \<ge> fc_pendingCap s"
    | "rem \<le> 0" "k \<notin> set (fc_pendingOrigins s)" "int (length (fc_pendingOrigins s)) < fc_pendingCap s"
    by linarith
  then show thesis
  proof cases
    case 1
    then show ?thesis by (intro locked) (simp_all add: fc_admit_def eq)
  next
    case 2
    then show ?thesis by (intro busy) (auto simp: fc_admit_def eq s'_def)
  next
    case 3
    then show ?thesis by (intro admitted) (simp_all add: fc_admit_def eq s'_def sadd_def)
  qed
qed

lemma fc_inv_step: "fc_inv s \<Longrightarrow> fc_inv (fc_step e s)"
proof (cases e)
  case (FcAdmit t k)
  assume inv: "fc_inv s"
  have r: "fc_inv (fc_resetIfStale t s)" using inv by (rule fc_inv_reset)
  show ?thesis
    unfolding FcAdmit fc_step.simps
    by (cases rule: fc_admit_cases [where t = t and s = s and k = k]; use r in \<open>simp add: fc_inv_def\<close>)
next
  case (FcRelease k)
  assume "fc_inv s"
  then show ?thesis
    using length_sdel_le [of "fc_pendingOrigins s" k] distinct_sdel [of "fc_pendingOrigins s" k]
    by (cases "fc_pendingOrigins s = []") (simp add: FcRelease fc_inv_def fc_release_def sdel_def,
      simp add: FcRelease fc_inv_def fc_release_def)
next
  case (FcOutcome t o1)
  assume "fc_inv s"
  then have "fc_inv (fc_resetIfStale t s)" by (rule fc_inv_reset)
  then show ?thesis by (auto simp: FcOutcome fc_recordOutcome_def Let_def fc_inv_def)
qed

lemma fc_inv_run: "fc_inv s \<Longrightarrow> fc_inv (fc_run es s)"
  by (induction es arbitrary: s) (auto simp: fc_inv_step)

lemma fc_cap_step [simp]: "fc_pendingCap (fc_step e s) = fc_pendingCap s"
proof (cases e)
  case (FcAdmit t k)
  show ?thesis unfolding FcAdmit fc_step.simps by (cases rule: fc_admit_cases [where t = t and s = s and k = k]) simp_all
qed (simp_all add: fc_release_def fc_recordOutcome_def Let_def)

lemma fc_cap_run: "fc_pendingCap (fc_run es s) = fc_pendingCap s"
  by (induction es arbitrary: s) auto

section \<open>The lockout schedule\<close>

lemma lockout_ms_bounds: "30000 \<le> lockout_ms n" "lockout_ms n \<le> 3600000"
proof -
  have "(1 :: int) \<le> 2 ^ (n - 1)" by simp
  then show "30000 \<le> lockout_ms n" "lockout_ms n \<le> 3600000" by (simp_all add: lockout_ms_def)
qed

lemma lockout_ms_mono: "m \<le> n \<Longrightarrow> lockout_ms m \<le> lockout_ms n"
proof -
  assume "m \<le> n"
  then have "(2 :: int) ^ (m - 1) \<le> 2 ^ (n - 1)" by (intro power_increasing) auto
  then show ?thesis unfolding lockout_ms_def by linarith
qed

text \<open>\<open>n\<close> consecutive failures, each an attempt or a dialog that was not confirmed.\<close>

definition fails :: "pair_outcome \<Rightarrow> bool" where
  "fails o1 \<longleftrightarrow> \<not> confirmed o1 \<and> (queuedDialog o1 \<or> consumedAttempt o1)"

lemma reset_fresh:
  "(\<And>l. fc_lastFailureAt s = Some l \<Longrightarrow> t - l < RESET_AFTER_MS) \<Longrightarrow> fc_resetIfStale t s = s"
  by (cases "fc_lastFailureAt s") (simp_all add: fc_resetIfStale_def)

lemma record_failure:
  assumes "fails o1" and "\<And>l. fc_lastFailureAt s = Some l \<Longrightarrow> t - l < RESET_AFTER_MS"
  shows "fc_recordOutcome t o1 s = s\<lparr>fc_failureCount := fc_failureCount s + 1, fc_lastFailureAt := Some t\<rparr>"
  using assms(1) by (simp add: fc_recordOutcome_def fails_def reset_fresh [OF assms(2)])

lemma lockout_active:
  assumes "fc_lastFailureAt s = Some l" "fc_failureCount s = n" "0 < n" "t - l < RESET_AFTER_MS"
  shows "fst (fc_lockoutRemainingMs t s) = max 0 (l + lockout_ms n - t)"
  using assms by (simp add: fc_lockoutRemainingMs_def fc_resetIfStale_def)

section \<open>Properties\<close>

text \<open>
  dialog cap. In every reachable state at most \<open>pendingCap\<close> approval dialogs are
  pending, for pairwise different origins; so rotating the origin does not get past the cap.
\<close>
theorem flood_pending_cap:
  assumes "0 \<le> cap"
  shows "distinct (fc_pendingOrigins (fc_run es (fc_new (Some cap)))) \<and>
     int (length (fc_pendingOrigins (fc_run es (fc_new (Some cap))))) \<le> cap"
  using fc_inv_run [OF fc_inv_new, of es "Some cap"] fc_cap_run [of es "fc_new (Some cap)"] assms
  by (auto simp: fc_inv_def fc_new_def)

theorem flood_pending_cap_witness:
  "fc_pendingOrigins (fc_run [FcAdmit 0 ''a'', FcAdmit 1 ''b'', FcAdmit 2 ''c''] (fc_new (Some 2))) = [''a'', ''b''] \<and>
   int (length (fc_pendingOrigins (fc_run [FcAdmit 0 ''a'', FcAdmit 1 ''b'', FcAdmit 2 ''c''] (fc_new (Some 2))))) \<le> 2"
  using flood_pending_cap [of 2 "[FcAdmit 0 ''a'', FcAdmit 1 ''b'', FcAdmit 2 ''c'']"]
  by (simp add: fc_admit_def fc_lockoutRemainingMs_def fc_resetIfStale_def fc_new_def sadd_def)

text \<open>
  escalating lockout. A failed pairing recorded at time \<open>t\<close> in any state
  (with the previous failure, if any, less than 24 hours old) refuses every origin, before any
  change of the pending table, until \<open>min(30 * 2^(n-1), 3600)\<close> seconds later, where \<open>n\<close> counts the
  consecutive failures; from then on the lockout no longer refuses.
\<close>
theorem flood_lockout:
  assumes "fails o1"
    and "\<And>l. fc_lastFailureAt s = Some l \<Longrightarrow> t - l < RESET_AFTER_MS"
    and "t \<le> u" and "u - t < RESET_AFTER_MS"
  shows "fst (fc_admit u k (fc_recordOutcome t o1 s)) = Refused RateLimited \<longleftrightarrow>
           u < t + lockout_ms (fc_failureCount s + 1)"
proof -
  let ?s = "fc_recordOutcome t o1 s"
  have rec: "?s = s\<lparr>fc_failureCount := fc_failureCount s + 1, fc_lastFailureAt := Some t\<rparr>"
    using assms(1,2) by (rule record_failure)
  then have "fst (fc_lockoutRemainingMs u ?s) = max 0 (t + lockout_ms (fc_failureCount s + 1) - u)"
    using assms(4) by (intro lockout_active) simp_all
  then show "fst (fc_admit u k ?s) = Refused RateLimited \<longleftrightarrow> u < t + lockout_ms (fc_failureCount s + 1)"
    by (cases rule: fc_admit_cases [where t = u and s = ?s and k = k]) auto
qed

theorem flood_lockout_witness:
  "(let s = fc_run [FcOutcome 0 \<lparr>queuedDialog = True, consumedAttempt = False, confirmed = False\<rparr>] (fc_new None);
        o1 = \<lparr>queuedDialog = False, consumedAttempt = True, confirmed = False\<rparr>
    in fst (fc_admit 100999 ''x'' (fc_recordOutcome 41000 o1 s)) = Refused RateLimited \<and>
       fst (fc_admit 101000 ''x'' (fc_recordOutcome 41000 o1 s)) \<noteq> Refused RateLimited)"
proof -
  let ?o = "\<lparr>queuedDialog = False, consumedAttempt = True, confirmed = False\<rparr>"
  let ?es = "[FcOutcome 0 \<lparr>queuedDialog = True, consumedAttempt = False, confirmed = False\<rparr>]"
  let ?s = "fc_run ?es (fc_new None)"
  have s: "fc_lastFailureAt ?s = Some 0" "fc_failureCount ?s = 1"
    by (simp_all add: fc_new_def fc_recordOutcome_def fc_resetIfStale_def)
  have f: "fails ?o" by (simp add: fails_def)
  have fresh: "\<And>l. fc_lastFailureAt ?s = Some l \<Longrightarrow> 41000 - l < RESET_AFTER_MS"
    using s by (simp add: RESET_AFTER_MS_def)
  have "fst (fc_admit u ''x'' (fc_recordOutcome 41000 ?o ?s)) = Refused RateLimited \<longleftrightarrow> u < 101000"
    if "41000 \<le> u" "u < 200000" for u
    using flood_lockout [where s = ?s, OF f fresh that(1), where k = "''x''"] that s
    by (simp add: RESET_AFTER_MS_def lockout_ms_def)
  then show ?thesis by (simp add: Let_def)
qed

text \<open>
  a guesser cannot dodge the counter. While the last failure is less than 24 hours old,
  any session that showed a dialog or used an attempt and was not confirmed adds one to the failure
  count, however it ended, and so never shortens the lockout; only a confirmation clears the count,
  and neither a refusal, an admission nor the release of a dialog touches it.
\<close>
theorem flood_counter:
  assumes "\<And>l. fc_lastFailureAt s = Some l \<Longrightarrow> t - l < RESET_AFTER_MS"
  shows "fc_failureCount (fc_recordOutcome t o1 s) =
       (if confirmed o1 then 0 else if queuedDialog o1 \<or> consumedAttempt o1 then fc_failureCount s + 1
        else fc_failureCount s) \<and>
     lockout_ms (fc_failureCount s) \<le> lockout_ms (fc_failureCount s + 1) \<and>
     fc_failureCount (snd (fc_admit t k s)) = fc_failureCount s \<and>
     fc_failureCount (fc_release k s) = fc_failureCount s"
proof (intro conjI)
  show "fc_failureCount (fc_recordOutcome t o1 s) =
     (if confirmed o1 then 0 else if queuedDialog o1 \<or> consumedAttempt o1 then fc_failureCount s + 1
      else fc_failureCount s)"
    by (simp add: fc_recordOutcome_def reset_fresh [OF assms])
  show "lockout_ms (fc_failureCount s) \<le> lockout_ms (fc_failureCount s + 1)"
    by (rule lockout_ms_mono) simp
  show "fc_failureCount (snd (fc_admit t k s)) = fc_failureCount s"
    by (cases rule: fc_admit_cases [where t = t and s = s and k = k]) (simp_all add: reset_fresh [OF assms])
  show "fc_failureCount (fc_release k s) = fc_failureCount s" by (simp add: fc_release_def)
qed

theorem flood_counter_witness:
  "(let s = fc_recordOutcome 0 \<lparr>queuedDialog = True, consumedAttempt = False, confirmed = False\<rparr> (fc_new None);
        o1 = \<lparr>queuedDialog = True, consumedAttempt = True, confirmed = False\<rparr>
    in fc_failureCount (fc_recordOutcome 5 o1 s) = 2 \<and> fc_failureCount (fc_release ''a'' s) = 1)"
proof -
  let ?s = "fc_recordOutcome 0 \<lparr>queuedDialog = True, consumedAttempt = False, confirmed = False\<rparr> (fc_new None)"
  have s: "fc_lastFailureAt ?s = Some 0" "fc_failureCount ?s = 1"
    by (simp_all add: fc_new_def fc_recordOutcome_def fc_resetIfStale_def)
  have "\<And>l. fc_lastFailureAt ?s = Some l \<Longrightarrow> 5 - l < RESET_AFTER_MS"
    using s by (simp add: RESET_AFTER_MS_def)
  then show ?thesis
    using flood_counter [of ?s 5 "\<lparr>queuedDialog = True, consumedAttempt = True, confirmed = False\<rparr>" "''a''"] s
    by (simp add: Let_def)
qed

end
