(* ===== verification/Pre_Auth.thy ===== *)
theory Pre_Auth
  imports Prelude
begin

text \<open>
  The pre-authentication table of the bridge (\<open>core/bridge/mbp1/pre-auth-table.ts\<close>): entries
  held under a cap, each with an armed deadline timer. The event loop's timers are part of the
  state: \<open>setTimeout\<close> arms a fresh timer handle for an entry, \<open>clearTimeout\<close> disarms it, and an
  armed timer may fire once. \<open>onDeadline\<close> is observed as the list of entries it was called with.
\<close>

section \<open>State and operations\<close>

record slot =
  slot_timer :: nat
  slot_admittedAt :: int

record 'a pre_auth =
  pa_cap :: int
  pa_deadlineMs :: int
  pa_entries :: "('a, slot) jmap"
  pa_timers :: "(nat, 'a \<times> int) jmap"  \<comment> \<open>armed timers: the entry and the due time\<close>
  pa_nextTimer :: nat
  pa_expired :: "'a list"  \<comment> \<open>the calls of \<open>onDeadline\<close>, in order\<close>

definition pa_new :: "int \<Rightarrow> int \<Rightarrow> 'a pre_auth" where
  "pa_new cap deadline = \<lparr>pa_cap = cap, pa_deadlineMs = deadline, pa_entries = [], pa_timers = [],
     pa_nextTimer = 0, pa_expired = []\<rparr>"

definition pa_setTimeout :: "int \<Rightarrow> 'a \<Rightarrow> 'a pre_auth \<Rightarrow> nat \<times> 'a pre_auth" where
  "pa_setTimeout t entry s =
     (pa_nextTimer s, s\<lparr>pa_timers := jset (pa_timers s) (pa_nextTimer s) (entry, t + pa_deadlineMs s),
        pa_nextTimer := pa_nextTimer s + 1\<rparr>)"

definition pa_clearTimeout :: "nat \<Rightarrow> 'a pre_auth \<Rightarrow> 'a pre_auth" where
  "pa_clearTimeout h s = s\<lparr>pa_timers := jdel (pa_timers s) h\<rparr>"

definition pa_admit :: "int \<Rightarrow> 'a \<Rightarrow> 'a pre_auth \<Rightarrow> bool \<times> 'a pre_auth" where
  "pa_admit t entry s =
     (if jhas (pa_entries s) entry \<or> int (length (pa_entries s)) \<ge> pa_cap s then (False, s)
      else let (timer, s1) = pa_setTimeout t entry s
           in (True, s1\<lparr>pa_entries := jset (pa_entries s1) entry
                          \<lparr>slot_timer = timer, slot_admittedAt = t\<rparr>\<rparr>))"

definition pa_settle :: "'a \<Rightarrow> 'a pre_auth \<Rightarrow> 'a pre_auth" where
  "pa_settle entry s =
     (case map_of (pa_entries s) entry of
        None \<Rightarrow> s
      | Some slot \<Rightarrow> (let s1 = pa_clearTimeout (slot_timer slot) s
                     in s1\<lparr>pa_entries := jdel (pa_entries s1) entry\<rparr>))"

fun pa_take_loop :: "('a \<Rightarrow> bool) \<Rightarrow> ('a \<times> slot) list \<Rightarrow> 'a pre_auth \<Rightarrow> 'a list \<times> 'a pre_auth" where
  "pa_take_loop pred [] s = ([], s)"
| "pa_take_loop pred ((entry, slot) # es) s =
     (if \<not> pred entry then pa_take_loop pred es s
      else let s1 = pa_clearTimeout (slot_timer slot) s;
               s2 = s1\<lparr>pa_entries := jdel (pa_entries s1) entry\<rparr>;
               (taken, s3) = pa_take_loop pred es s2
           in (entry # taken, s3))"

definition pa_takeWhere :: "('a \<Rightarrow> bool) \<Rightarrow> 'a pre_auth \<Rightarrow> 'a list \<times> 'a pre_auth" where
  "pa_takeWhere pred s = pa_take_loop pred (pa_entries s) s"

definition pa_clear :: "'a pre_auth \<Rightarrow> 'a pre_auth" where
  "pa_clear s =
     (foldl (\<lambda>s e. pa_clearTimeout (slot_timer (snd e)) s) s (pa_entries s))\<lparr>pa_entries := []\<rparr>"

definition pa_size :: "'a pre_auth \<Rightarrow> nat" where
  "pa_size s = length (pa_entries s)"

definition pa_fireDeadline :: "'a \<Rightarrow> 'a pre_auth \<Rightarrow> 'a pre_auth" where
  "pa_fireDeadline entry s =
     (if \<not> jhas (pa_entries s) entry then s
      else s\<lparr>pa_entries := jdel (pa_entries s) entry, pa_expired := pa_expired s @ [entry]\<rparr>)"

text \<open>The event loop runs the callback of an armed timer that is due, and disarms it.\<close>

definition pa_fire :: "int \<Rightarrow> nat \<Rightarrow> 'a pre_auth \<Rightarrow> 'a pre_auth" where
  "pa_fire t h s =
     (case map_of (pa_timers s) h of
        None \<Rightarrow> s
      | Some (entry, due) \<Rightarrow> if t < due then s else pa_fireDeadline entry (pa_clearTimeout h s))"

section \<open>Invariant\<close>

text \<open>
  Armed timers and entries correspond one to one: an entry's slot holds the handle of the one
  armed timer that will fire for it, and no other timer is armed.
\<close>

definition pa_inv :: "'a pre_auth \<Rightarrow> bool" where
  "pa_inv s \<longleftrightarrow> jwf (pa_entries s) \<and>
     (pa_entries s = [] \<or> int (length (pa_entries s)) \<le> pa_cap s) \<and>
     (\<forall>x sl. map_of (pa_entries s) x = Some sl \<longrightarrow>
        map_of (pa_timers s) (slot_timer sl) = Some (x, slot_admittedAt sl + pa_deadlineMs s)) \<and>
     (\<forall>h x due. map_of (pa_timers s) h = Some (x, due) \<longrightarrow>
        h < pa_nextTimer s \<and> (\<exists>sl. map_of (pa_entries s) x = Some sl \<and> slot_timer sl = h))"

datatype 'a pa_event =
  PaAdmit int 'a | PaSettle 'a | PaTake "'a \<Rightarrow> bool" | PaClear | PaFire int nat

primrec pa_step :: "'a pa_event \<Rightarrow> 'a pre_auth \<Rightarrow> 'a pre_auth" where
  "pa_step (PaAdmit t x) s = snd (pa_admit t x s)"
| "pa_step (PaSettle x) s = pa_settle x s"
| "pa_step (PaTake p) s = snd (pa_takeWhere p s)"
| "pa_step PaClear s = pa_clear s"
| "pa_step (PaFire t h) s = pa_fire t h s"

fun pa_run :: "'a pa_event list \<Rightarrow> 'a pre_auth \<Rightarrow> 'a pre_auth" where
  "pa_run [] s = s"
| "pa_run (e # es) s = pa_run es (pa_step e s)"

lemma pa_inv_new: "pa_inv (pa_new cap d)"
  by (simp add: pa_inv_def pa_new_def)

text \<open>Removing an entry together with its timer keeps the correspondence.\<close>

lemma length_jdel_cap: "m = [] \<or> int (length m) \<le> c \<Longrightarrow> jdel m k = [] \<or> int (length (jdel m k)) \<le> c"
  using length_jdel_le [of m k] by (cases "m = []") (simp add: jdel_def, linarith)

definition pa_drop :: "'a \<Rightarrow> slot \<Rightarrow> 'a pre_auth \<Rightarrow> 'a pre_auth" where
  "pa_drop x sl s = s\<lparr>pa_timers := jdel (pa_timers s) (slot_timer sl), pa_entries := jdel (pa_entries s) x\<rparr>"

lemma pa_invD:
  assumes "pa_inv s"
  shows "jwf (pa_entries s)" "pa_entries s = [] \<or> int (length (pa_entries s)) \<le> pa_cap s"
    and "map_of (pa_entries s) x = Some sl \<Longrightarrow>
      map_of (pa_timers s) (slot_timer sl) = Some (x, slot_admittedAt sl + pa_deadlineMs s)"
    and "map_of (pa_timers s) h = Some (x, due) \<Longrightarrow> h < pa_nextTimer s"
    and "map_of (pa_timers s) h = Some (x, due) \<Longrightarrow> \<exists>sl. map_of (pa_entries s) x = Some sl \<and> slot_timer sl = h"
  using assms unfolding pa_inv_def by blast+

lemma pa_slot_unique:
  "pa_inv s \<Longrightarrow> map_of (pa_entries s) x = Some sl \<Longrightarrow> map_of (pa_entries s) y = Some sl' \<Longrightarrow>
   slot_timer sl = slot_timer sl' \<Longrightarrow> x = y"
  using pa_invD(3) [of s x sl] pa_invD(3) [of s y sl'] by simp

lemma pa_inv_drop:
  assumes inv: "pa_inv s" and x: "map_of (pa_entries s) x = Some sl"
  shows "pa_inv (pa_drop x sl s)"
  unfolding pa_inv_def
proof (intro conjI allI impI)
  show "jwf (pa_entries (pa_drop x sl s))" using pa_invD(1) [OF inv] by (simp add: pa_drop_def)
  show "pa_entries (pa_drop x sl s) = [] \<or> int (length (pa_entries (pa_drop x sl s))) \<le> pa_cap (pa_drop x sl s)"
    using length_jdel_cap [OF pa_invD(2) [OF inv]] by (simp add: pa_drop_def)
next
  fix y sl' assume "map_of (pa_entries (pa_drop x sl s)) y = Some sl'"
  then have y: "y \<noteq> x" "map_of (pa_entries s) y = Some sl'" by (simp_all add: pa_drop_def split: if_splits)
  then have "slot_timer sl' \<noteq> slot_timer sl" using pa_slot_unique [OF inv x y(2)] by metis
  then show "map_of (pa_timers (pa_drop x sl s)) (slot_timer sl') =
      Some (y, slot_admittedAt sl' + pa_deadlineMs (pa_drop x sl s))"
    using pa_invD(3) [OF inv y(2)] by (simp add: pa_drop_def)
next
  fix h y due assume "map_of (pa_timers (pa_drop x sl s)) h = Some (y, due)"
  then have h: "h \<noteq> slot_timer sl" "map_of (pa_timers s) h = Some (y, due)"
    by (simp_all add: pa_drop_def split: if_splits)
  show "h < pa_nextTimer (pa_drop x sl s)" using pa_invD(4) [OF inv h(2)] by (simp add: pa_drop_def)
  obtain sl' where sl': "map_of (pa_entries s) y = Some sl'" "slot_timer sl' = h"
    using pa_invD(5) [OF inv h(2)] by blast
  then have "y \<noteq> x" using x h(1) by auto
  then show "\<exists>sl'. map_of (pa_entries (pa_drop x sl s)) y = Some sl' \<and> slot_timer sl' = h"
    using sl' by (simp add: pa_drop_def)
qed

lemma pa_inv_expired [simp]: "pa_inv (s\<lparr>pa_expired := e\<rparr>) = pa_inv s"
  by (simp add: pa_inv_def)

lemma pa_inv_admit: "pa_inv s \<Longrightarrow> pa_inv (snd (pa_admit t x s))"
proof (cases "jhas (pa_entries s) x \<or> int (length (pa_entries s)) \<ge> pa_cap s")
  case False
  assume inv: "pa_inv s"
  let ?sl = "\<lparr>slot_timer = pa_nextTimer s, slot_admittedAt = t\<rparr>"
  let ?s = "s\<lparr>pa_timers := jset (pa_timers s) (pa_nextTimer s) (x, t + pa_deadlineMs s),
      pa_nextTimer := pa_nextTimer s + 1, pa_entries := jset (pa_entries s) x ?sl\<rparr>"
  have new: "map_of (pa_entries s) x = None" using False by simp
  have "pa_inv ?s"
    unfolding pa_inv_def
  proof (intro conjI allI impI)
    show "jwf (pa_entries ?s)" using pa_invD(1) [OF inv] by simp
    show "pa_entries ?s = [] \<or> int (length (pa_entries ?s)) \<le> pa_cap ?s"
      using False length_jset_new [OF new] by simp
  next
    fix y sl' assume y: "map_of (pa_entries ?s) y = Some sl'"
    show "map_of (pa_timers ?s) (slot_timer sl') = Some (y, slot_admittedAt sl' + pa_deadlineMs ?s)"
    proof (cases "y = x")
      case False
      then have "map_of (pa_timers s) (slot_timer sl') = Some (y, slot_admittedAt sl' + pa_deadlineMs s)"
        using y pa_invD(3) [OF inv] by simp
      then show ?thesis using pa_invD(4) [OF inv] by force
    qed (use y in auto)
  next
    fix h y due assume h: "map_of (pa_timers ?s) h = Some (y, due)"
    show "h < pa_nextTimer ?s" using h pa_invD(4) [OF inv] by (force split: if_splits)
    show "\<exists>sl'. map_of (pa_entries ?s) y = Some sl' \<and> slot_timer sl' = h"
    proof (cases "h = pa_nextTimer s")
      case False
      then obtain sl' where "map_of (pa_entries s) y = Some sl'" "slot_timer sl' = h"
        using h pa_invD(5) [OF inv] by fastforce
      then show ?thesis using new by auto
    qed (use h in auto)
  qed
  then show ?thesis using False by (simp add: pa_admit_def pa_setTimeout_def)
qed (simp add: pa_admit_def)

lemma pa_settle_eq:
  "pa_settle x s = (case map_of (pa_entries s) x of None \<Rightarrow> s | Some sl \<Rightarrow> pa_drop x sl s)"
  by (simp add: pa_settle_def pa_clearTimeout_def pa_drop_def Let_def split: option.split)

lemma pa_take_loop_Cons:
  "pa_take_loop pred ((x, sl) # es) s =
     (if pred x then (x # fst (pa_take_loop pred es (pa_drop x sl s)), snd (pa_take_loop pred es (pa_drop x sl s)))
      else pa_take_loop pred es s)"
  by (simp add: pa_clearTimeout_def pa_drop_def case_prod_unfold Let_def)

text \<open>The loop over a snapshot of the entries keeps the invariant, takes exactly the selected
  entries in order and leaves exactly the others.\<close>

lemma pa_take_loop_correct:
  assumes "pa_inv s" and "jwf es" and "\<And>x sl. (x, sl) \<in> set es \<Longrightarrow> map_of (pa_entries s) x = Some sl"
  shows "pa_inv (snd (pa_take_loop pred es s)) \<and>
     fst (pa_take_loop pred es s) = filter pred (map fst es) \<and>
     pa_entries (snd (pa_take_loop pred es s)) =
       filter (\<lambda>e. \<not> (pred (fst e) \<and> fst e \<in> fst ` set es)) (pa_entries s) \<and>
     pa_expired (snd (pa_take_loop pred es s)) = pa_expired s"
  using assms
proof (induction es arbitrary: s)
  case Nil
  then show ?case by simp
next
  case (Cons e es)
  obtain x sl where e: "e = (x, sl)" by (cases e)
  have es: "jwf es" "x \<notin> fst ` set es" using Cons.prems(2) e by (auto simp: jwf_def)
  show ?case
  proof (cases "pred x")
    case False
    have "map_of (pa_entries s) y = Some sl'" if "(y, sl') \<in> set es" for y sl'
      using that Cons.prems(3) by simp
    note IH = Cons.IH [OF Cons.prems(1) es(1) this]
    have "filter (\<lambda>a. \<not> (pred (fst a) \<and> fst a \<in> fst ` set (e # es))) (pa_entries s) =
        filter (\<lambda>a. \<not> (pred (fst a) \<and> fst a \<in> fst ` set es)) (pa_entries s)"
      by (rule filter_cong) (use False e in auto)
    then show ?thesis using IH False by (simp add: e pa_take_loop_Cons del: pa_take_loop.simps)
  next
    case True
    have x: "map_of (pa_entries s) x = Some sl" using Cons.prems(3) e by simp
    have "map_of (pa_entries (pa_drop x sl s)) y = Some sl'" if "(y, sl') \<in> set es" for y sl'
    proof -
      have "y \<noteq> x" using that es(2) by force
      then show ?thesis using that Cons.prems(3) by (simp add: pa_drop_def)
    qed
    note IH = Cons.IH [OF pa_inv_drop [OF Cons.prems(1) x] es(1) this]
    have "filter (\<lambda>a. \<not> (pred (fst a) \<and> fst a \<in> fst ` set es)) (jdel (pa_entries s) x) =
        filter (\<lambda>a. \<not> (pred (fst a) \<and> fst a \<in> fst ` set (e # es))) (pa_entries s)"
      unfolding jdel_def filter_filter by (rule filter_cong) (use True e in auto)
    then show ?thesis
      using IH True by (simp add: e pa_take_loop_Cons pa_drop_def del: pa_take_loop.simps)
  qed
qed

lemma pa_takeWhere_correct:
  assumes "pa_inv s"
  shows "pa_inv (snd (pa_takeWhere pred s))"
    and "fst (pa_takeWhere pred s) = filter pred (map fst (pa_entries s))"
    and "pa_entries (snd (pa_takeWhere pred s)) = filter (\<lambda>e. \<not> pred (fst e)) (pa_entries s)"
    and "pa_expired (snd (pa_takeWhere pred s)) = pa_expired s"
proof -
  have "map_of (pa_entries s) x = Some sl" if "(x, sl) \<in> set (pa_entries s)" for x sl
    using that pa_invD(1) [OF assms] by (simp add: jwf_map_of_eq)
  note c = pa_take_loop_correct [OF assms pa_invD(1) [OF assms] this, where pred = pred]
  moreover have "filter (\<lambda>e. \<not> (pred (fst e) \<and> fst e \<in> fst ` set (pa_entries s))) (pa_entries s) =
      filter (\<lambda>e. \<not> pred (fst e)) (pa_entries s)"
    by (rule filter_cong) auto
  ultimately show "pa_inv (snd (pa_takeWhere pred s))"
    "fst (pa_takeWhere pred s) = filter pred (map fst (pa_entries s))"
    "pa_entries (snd (pa_takeWhere pred s)) = filter (\<lambda>e. \<not> pred (fst e)) (pa_entries s)"
    "pa_expired (snd (pa_takeWhere pred s)) = pa_expired s"
    by (simp_all add: pa_takeWhere_def)
qed

lemma pa_clear_timers:
  "foldl (\<lambda>s e. pa_clearTimeout (slot_timer (snd e)) s) s es =
     s\<lparr>pa_timers := foldl jdel (pa_timers s) (map (slot_timer \<circ> snd) es)\<rparr>"
  by (induction es arbitrary: s) (simp_all add: pa_clearTimeout_def)

definition pa_wf :: "'a pre_auth \<Rightarrow> bool" where
  "pa_wf s \<longleftrightarrow> pa_inv s \<and> jwf (pa_timers s)"

lemma pa_clear_correct:
  assumes "pa_wf s"
  shows "pa_clear s = s\<lparr>pa_timers := [], pa_entries := []\<rparr>"
proof -
  let ?hs = "map (slot_timer \<circ> snd) (pa_entries s)"
  have "h \<in> set ?hs" if h: "map_of (pa_timers s) h = Some xd" for h xd
  proof -
    obtain x due where "xd = (x, due)" by (cases xd)
    then obtain sl where "map_of (pa_entries s) x = Some sl" "slot_timer sl = h"
      using pa_invD(5) [of s h x due] assms h by (auto simp: pa_wf_def)
    then show ?thesis by (force dest: map_of_SomeD)
  qed
  then have "map_of (foldl jdel (pa_timers s) ?hs) h = None" for h
    using jm.lookup_removes [of "pa_timers s" ?hs h] assms
    by (cases "map_of (pa_timers s) h") (auto simp: pa_wf_def)
  then have "foldl jdel (pa_timers s) ?hs = []" by (rule map_of_all_None)
  then show ?thesis by (simp add: pa_clear_def pa_clear_timers)
qed

lemma pa_fire_cases:
  assumes "pa_inv s"
  obtains "pa_fire t h s = s" "\<And>x due. map_of (pa_timers s) h = Some (x, due) \<Longrightarrow> t < due"
  | x sl due where "map_of (pa_timers s) h = Some (x, due)" "map_of (pa_entries s) x = Some sl"
      "slot_timer sl = h" "due \<le> t" "due = slot_admittedAt sl + pa_deadlineMs s"
      "pa_fire t h s = (pa_drop x sl s)\<lparr>pa_expired := pa_expired s @ [x]\<rparr>"
proof (cases "map_of (pa_timers s) h")
  case None
  then show thesis using that(1) by (simp add: pa_fire_def)
next
  case (Some xd)
  obtain x due where xd: "xd = (x, due)" by (cases xd)
  obtain sl where sl: "map_of (pa_entries s) x = Some sl" "slot_timer sl = h"
    using pa_invD(5) [OF assms] Some xd by blast
  have due: "due = slot_admittedAt sl + pa_deadlineMs s"
    using pa_invD(3) [OF assms sl(1)] sl(2) Some xd by simp
  show thesis
  proof (cases "t < due")
    case True
    then show ?thesis using that(1) Some xd by (simp add: pa_fire_def)
  next
    case False
    then have "pa_fire t h s = (pa_drop x sl s)\<lparr>pa_expired := pa_expired s @ [x]\<rparr>"
      using Some xd sl by (simp add: pa_fire_def pa_fireDeadline_def pa_clearTimeout_def pa_drop_def)
    then show ?thesis using that(2) Some xd sl due False by simp
  qed
qed

lemma pa_timers_take:
  "jwf (pa_timers s) \<Longrightarrow> jwf (pa_timers (snd (pa_take_loop pred es s)))"
proof (induction es arbitrary: s)
  case (Cons e es)
  then show ?case
    by (cases e) (simp add: pa_take_loop_Cons pa_drop_def del: pa_take_loop.simps)
qed simp

lemma pa_wf_step: "pa_wf s \<Longrightarrow> pa_wf (pa_step e s)"
proof (cases e)
  case (PaAdmit t x)
  assume "pa_wf s"
  then show ?thesis
    using pa_inv_admit [of s t x] by (simp add: PaAdmit pa_wf_def) (simp add: pa_admit_def pa_setTimeout_def)
next
  case (PaSettle x)
  assume wf: "pa_wf s"
  show ?thesis
  proof (cases "map_of (pa_entries s) x")
    case (Some sl)
    then show ?thesis
      using pa_inv_drop [of s x sl] wf by (simp add: PaSettle pa_wf_def pa_settle_eq) (simp add: pa_drop_def)
  qed (use wf in \<open>simp add: PaSettle pa_settle_eq\<close>)
next
  case (PaTake p)
  assume "pa_wf s"
  then show ?thesis
    using pa_takeWhere_correct(1) [of s p] pa_timers_take [of s p "pa_entries s"]
    by (simp add: PaTake pa_wf_def pa_takeWhere_def)
next
  case PaClear
  assume "pa_wf s"
  then show ?thesis by (simp add: PaClear pa_clear_correct) (simp add: pa_wf_def pa_inv_def)
next
  case (PaFire t h)
  assume wf: "pa_wf s"
  then have inv: "pa_inv s" by (simp add: pa_wf_def)
  show ?thesis
    unfolding PaFire pa_step.simps
  proof (cases rule: pa_fire_cases [OF inv, of t h])
    case 1
    then show "pa_wf (pa_fire t h s)" using wf by simp
  next
    case (2 x sl due)
    then show "pa_wf (pa_fire t h s)"
      using pa_inv_drop [OF inv 2(2)] wf by (simp add: pa_wf_def) (simp add: pa_drop_def)
  qed
qed

lemma pa_wf_run: "pa_wf s \<Longrightarrow> pa_wf (pa_run es s)"
  by (induction es arbitrary: s) (auto simp: pa_wf_step)

lemma pa_wf_new: "pa_wf (pa_new cap d)"
  by (simp add: pa_wf_def pa_inv_new) (simp add: pa_new_def)

lemma pa_config_take: "pa_cap (snd (pa_take_loop pred es s)) = pa_cap s \<and>
    pa_deadlineMs (snd (pa_take_loop pred es s)) = pa_deadlineMs s"
proof (induction es arbitrary: s)
  case (Cons e es)
  then show ?case
    by (cases e) (simp add: pa_take_loop_Cons pa_drop_def del: pa_take_loop.simps)
qed simp

lemma pa_config_step:
  "pa_wf s \<Longrightarrow> pa_cap (pa_step e s) = pa_cap s \<and> pa_deadlineMs (pa_step e s) = pa_deadlineMs s"
proof (cases e)
  case (PaTake p)
  then show ?thesis by (simp add: pa_takeWhere_def pa_config_take)
qed (simp_all add: pa_admit_def pa_setTimeout_def pa_settle_def pa_clearTimeout_def Let_def pa_clear_correct
      pa_fire_def pa_fireDeadline_def split: option.split)

lemma pa_config_run:
  "pa_wf s \<Longrightarrow> pa_cap (pa_run es s) = pa_cap s \<and> pa_deadlineMs (pa_run es s) = pa_deadlineMs s"
  by (induction es arbitrary: s) (auto simp: pa_wf_step pa_config_step)

section \<open>Properties\<close>

primrec readmits :: "'a \<Rightarrow> 'a pa_event \<Rightarrow> bool" where
  "readmits x (PaAdmit t y) = (y = x)"
| "readmits x (PaSettle y) = False"
| "readmits x (PaTake p) = False"
| "readmits x PaClear = False"
| "readmits x (PaFire t h) = False"

lemma gone_step:
  assumes "pa_wf s" and "map_of (pa_entries s) x = None" and "\<not> readmits x e"
  shows "map_of (pa_entries (pa_step e s)) x = None \<and>
     filter ((=) x) (pa_expired (pa_step e s)) = filter ((=) x) (pa_expired s)"
proof (cases e)
  case (PaAdmit t y)
  then show ?thesis using assms by (auto simp: pa_admit_def pa_setTimeout_def)
next
  case (PaSettle y)
  then show ?thesis using assms by (auto simp: pa_settle_eq pa_drop_def split: option.split)
next
  case (PaTake p)
  have "map_of (filter (\<lambda>e. \<not> p (fst e)) (pa_entries s)) x = None"
    using assms(2) by (auto simp: map_of_eq_None_iff)
  then show ?thesis using assms PaTake by (simp add: pa_wf_def pa_takeWhere_correct)
next
  case PaClear
  then show ?thesis using assms by (simp add: pa_clear_correct)
next
  case (PaFire t h)
  have inv: "pa_inv s" using assms(1) by (simp add: pa_wf_def)
  show ?thesis
    unfolding PaFire pa_step.simps
    by (cases rule: pa_fire_cases [OF inv, of t h]) (use assms(2) in \<open>auto simp: pa_drop_def\<close>)
qed

lemma gone_run:
  "pa_wf s \<Longrightarrow> map_of (pa_entries s) x = None \<Longrightarrow> \<forall>e \<in> set es. \<not> readmits x e \<Longrightarrow>
   filter ((=) x) (pa_expired (pa_run es s)) = filter ((=) x) (pa_expired s)"
  by (induction es arbitrary: s) (auto simp: pa_wf_step gone_step)

text \<open>
  the cap and the timer discipline. In every reachable state the table holds at most
  \<open>cap\<close> entries, and the armed timers are exactly the deadline timers of the entries it holds, so
  no timer is leaked by an admission and none survives the removal of its entry.
\<close>
theorem pre_auth_discipline:
  assumes "0 \<le> cap" and "s = pa_run es (pa_new cap d)"
  shows "int (pa_size s) \<le> cap \<and>
     (\<forall>h x due. map_of (pa_timers s) h = Some (x, due) \<longleftrightarrow>
        (\<exists>sl. map_of (pa_entries s) x = Some sl \<and> slot_timer sl = h \<and> due = slot_admittedAt sl + d))"
proof -
  have wf: "pa_wf s" and cfg: "pa_cap s = cap \<and> pa_deadlineMs s = d"
    using pa_wf_run [OF pa_wf_new, of es cap d] pa_config_run [OF pa_wf_new, of es cap d] assms(2)
    by (simp_all add: pa_new_def)
  then have inv: "pa_inv s" by (simp add: pa_wf_def)
  have "int (pa_size s) \<le> cap" using pa_invD(2) [OF inv] cfg assms(1) by (auto simp: pa_size_def)
  moreover have "map_of (pa_timers s) h = Some (x, due) \<longleftrightarrow>
        (\<exists>sl. map_of (pa_entries s) x = Some sl \<and> slot_timer sl = h \<and> due = slot_admittedAt sl + d)" for h x due
    using pa_invD(3) [OF inv] pa_invD(5) [OF inv, of h x due] cfg by fastforce
  ultimately show ?thesis by blast
qed

theorem pre_auth_discipline_witness:
  "int (pa_size (pa_run [PaAdmit 0 ''a'', PaAdmit 1 ''b'', PaAdmit 2 ''c'', PaSettle ''a''] (pa_new 2 10))) \<le> 2 \<and>
   map_of (pa_timers (pa_run [PaAdmit 0 ''a'', PaAdmit 1 ''b'', PaAdmit 2 ''c'', PaSettle ''a''] (pa_new 2 10))) 1
     = Some (''b'', 11)"
  using pre_auth_discipline [of 2 _ "[PaAdmit 0 ''a'', PaAdmit 1 ''b'', PaAdmit 2 ''c'', PaSettle ''a'']" 10,
      OF _ refl]
  by (simp add: pa_admit_def pa_setTimeout_def pa_settle_def pa_clearTimeout_def pa_new_def jdel_def)

text \<open>
  a settled entry never expires. Once an entry has left the table (settled, taken by a
  revocation, cleared or already expired), no later operation or timer calls \<open>onDeadline\<close> for it,
  unless it is admitted again.
\<close>
theorem pre_auth_settled_never_expires:
  assumes "\<forall>e \<in> set es. \<not> readmits x e"
  shows "filter ((=) x) (pa_expired (pa_run es (pa_settle x (pa_run es0 (pa_new cap d))))) =
     filter ((=) x) (pa_expired (pa_run es0 (pa_new cap d)))"
proof -
  let ?s = "pa_run es0 (pa_new cap d)"
  have "pa_wf ?s" by (rule pa_wf_run) (rule pa_wf_new)
  then have "pa_wf (pa_settle x ?s)" using pa_wf_step [of ?s "PaSettle x"] by simp
  moreover have "map_of (pa_entries (pa_settle x ?s)) x = None"
    by (simp add: pa_settle_eq pa_drop_def split: option.split)
  moreover have "pa_expired (pa_settle x ?s) = pa_expired ?s"
    by (simp add: pa_settle_eq pa_drop_def split: option.split)
  ultimately show ?thesis using gone_run [OF _ _ assms] by metis
qed

theorem pre_auth_settled_never_expires_witness:
  "filter ((=) ''a'') (pa_expired (pa_run [PaFire 10 0, PaFire 11 1]
     (pa_settle ''a'' (pa_run [PaAdmit 0 ''a'', PaAdmit 1 ''b''] (pa_new 2 10))))) = [] \<and>
   pa_expired (pa_run [PaFire 10 0, PaFire 11 1]
     (pa_settle ''a'' (pa_run [PaAdmit 0 ''a'', PaAdmit 1 ''b''] (pa_new 2 10)))) = [''b'']"
  using pre_auth_settled_never_expires [of "[PaFire 10 0, PaFire 11 1]" "''a''"
      "[PaAdmit 0 ''a'', PaAdmit 1 ''b'']" 2 10]
  by (simp add: pa_admit_def pa_setTimeout_def pa_settle_def pa_clearTimeout_def pa_new_def jdel_def
      pa_fire_def pa_fireDeadline_def)

text \<open>
  revocation is synchronous and complete. \<open>takeWhere\<close> returns exactly the selected
  entries in table order, leaves exactly the others with their timers, and no timer of a taken
  entry is armed afterwards.
\<close>
theorem pre_auth_takeWhere:
  assumes "s = pa_run es (pa_new cap d)" and "pa_takeWhere pred s = (taken, s')"
  shows "taken = filter pred (map fst (pa_entries s)) \<and>
     pa_entries s' = filter (\<lambda>e. \<not> pred (fst e)) (pa_entries s) \<and>
     (\<forall>h x due. map_of (pa_timers s') h = Some (x, due) \<longleftrightarrow>
        map_of (pa_timers s) h = Some (x, due) \<and> \<not> pred x)"
proof -
  have wf: "pa_wf s" using pa_wf_run [OF pa_wf_new] assms(1) by blast
  then have inv: "pa_inv s" by (simp add: pa_wf_def)
  note c = pa_takeWhere_correct [OF inv, where pred = pred, unfolded assms(2), simplified]
  have cfg: "pa_deadlineMs s' = pa_deadlineMs s"
    using pa_config_step [OF wf, of "PaTake pred"] assms(2) by simp
  have mem: "map_of (pa_entries s') x = Some sl \<longleftrightarrow> map_of (pa_entries s) x = Some sl \<and> \<not> pred x" for x sl
    using map_of_filter_Some [OF pa_invD(1) [OF inv]] c(3) by simp
  have "map_of (pa_timers u) h = Some (x, due) \<longleftrightarrow>
        (\<exists>sl. map_of (pa_entries u) x = Some sl \<and> slot_timer sl = h \<and>
           due = slot_admittedAt sl + pa_deadlineMs u)" if "pa_inv u" for u :: "'a pre_auth" and h x due
    using pa_invD(3) [OF that] pa_invD(5) [OF that, of h x due] by fastforce
  then show ?thesis using c inv mem cfg by auto
qed

theorem pre_auth_takeWhere_witness:
  "\<exists>s'. pa_takeWhere (\<lambda>x. x = ''a'') (pa_run [PaAdmit 0 ''a'', PaAdmit 1 ''b''] (pa_new 2 10)) = ([''a''], s') \<and>
     map fst (pa_entries s') = [''b''] \<and> map_of (pa_timers s') 0 \<noteq> Some (''a'', 10)"
proof -
  let ?s = "pa_run [PaAdmit 0 ''a'', PaAdmit 1 ''b''] (pa_new 2 10)"
  obtain tk s' where r: "pa_takeWhere (\<lambda>x. x = ''a'') ?s = (tk, s')" by (cases "pa_takeWhere (\<lambda>x. x = ''a'') ?s")
  have "map fst (pa_entries ?s) = [''a'', ''b'']"
    by (simp add: pa_admit_def pa_setTimeout_def pa_new_def)
  then show ?thesis
    using pre_auth_takeWhere [OF refl r] r by (intro exI [of _ s']) (auto simp: filter_map o_def simp del: pa_run.simps)
qed

end
