(* ===== verification/Circuit_Breaker.thy ===== *)
theory Circuit_Breaker
  imports Prelude
begin

text \<open>
  Two guards of the plugin host: the per-hook circuit breaker
  (\<open>core/plugin/circuit/circuit-breaker.ts\<close>) and the caller-side throttle for invalid
  arguments (\<open>core/plugin/commands/caller-throttle.ts\<close>). Every operation takes the clock reading
  it makes as an argument; calls of the \<open>onOpen\<close> callback are recorded in order.
\<close>

section \<open>The circuit breaker\<close>

record failure_record =
  fr_consecutive :: int
  fr_first :: int
  fr_last :: int
  fr_open :: bool

record circuit_breaker =
  cb_threshold :: int
  cb_decayMs :: int
  cb_records :: "(string, failure_record) jmap"
  cb_opened :: "(string \<times> string \<times> int) list"  \<comment> \<open>calls of onOpen: plugin, hook, failures\<close>

definition cb_new :: "int option \<Rightarrow> int option \<Rightarrow> circuit_breaker" where
  "cb_new threshold decay = \<lparr>
     cb_threshold = (case threshold of None \<Rightarrow> 3 | Some n \<Rightarrow> n),
     cb_decayMs = (case decay of None \<Rightarrow> 24 * 60 * 60 * 1000 | Some n \<Rightarrow> n),
     cb_records = [], cb_opened = []\<rparr>"

definition cb_key :: "string \<Rightarrow> string \<Rightarrow> string" where
  "cb_key pluginId hook = pluginId @ ''#'' @ hook"

definition cb_success :: "string \<Rightarrow> string \<Rightarrow> circuit_breaker \<Rightarrow> circuit_breaker" where
  "cb_success p h s = s\<lparr>cb_records := jdel (cb_records s) (cb_key p h)\<rparr>"

definition fresh_failure :: "int \<Rightarrow> failure_record" where
  "fresh_failure now = \<lparr>fr_consecutive = 1, fr_first = now, fr_last = now, fr_open = False\<rparr>"

definition next_failure :: "int \<Rightarrow> failure_record option \<Rightarrow> failure_record" where
  "next_failure now existing =
     (case existing of
        None \<Rightarrow> fresh_failure now
      | Some r \<Rightarrow> \<lparr>fr_consecutive = fr_consecutive r + 1, fr_first = fr_first r, fr_last = now,
                   fr_open = fr_open r\<rparr>)"

definition cb_failure :: "int \<Rightarrow> string \<Rightarrow> string \<Rightarrow> circuit_breaker \<Rightarrow> circuit_breaker" where
  "cb_failure now p h s =
     (let k = cb_key p h;
          existing = map_of (cb_records s) k
      in if (case existing of None \<Rightarrow> False | Some r \<Rightarrow> now - fr_last r > cb_decayMs s)
         then s\<lparr>cb_records := jset (cb_records s) k (fresh_failure now)\<rparr>
         else let nx = next_failure now existing
              in if \<not> fr_open nx \<and> fr_consecutive nx \<ge> cb_threshold s
                 then s\<lparr>cb_records := jset (cb_records s) k (nx\<lparr>fr_open := True\<rparr>),
                        cb_opened := cb_opened s @ [(p, h, fr_consecutive nx)]\<rparr>
                 else s\<lparr>cb_records := jset (cb_records s) k nx\<rparr>)"

definition cb_isOpen :: "int \<Rightarrow> string \<Rightarrow> string \<Rightarrow> circuit_breaker \<Rightarrow> bool \<times> circuit_breaker" where
  "cb_isOpen now p h s =
     (case map_of (cb_records s) (cb_key p h) of
        None \<Rightarrow> (False, s)
      | Some r \<Rightarrow>
          if \<not> fr_open r then (False, s)
          else if now - fr_last r > cb_decayMs s
          then (False, s\<lparr>cb_records := jdel (cb_records s) (cb_key p h)\<rparr>)
          else (True, s))"

definition cb_failureCount :: "string \<Rightarrow> string \<Rightarrow> circuit_breaker \<Rightarrow> int" where
  "cb_failureCount p h s =
     (case map_of (cb_records s) (cb_key p h) of None \<Rightarrow> 0 | Some r \<Rightarrow> fr_consecutive r)"

definition cb_reset :: "string \<Rightarrow> string \<Rightarrow> circuit_breaker \<Rightarrow> circuit_breaker" where
  "cb_reset p h s = s\<lparr>cb_records := jdel (cb_records s) (cb_key p h)\<rparr>"

subsection \<open>A streak of failures\<close>

fun cb_failures :: "int list \<Rightarrow> string \<Rightarrow> string \<Rightarrow> circuit_breaker \<Rightarrow> circuit_breaker" where
  "cb_failures [] p h s = s"
| "cb_failures (t # ts) p h s = cb_failures ts p h (cb_failure t p h s)"

text \<open>Consecutive times are never more than \<open>d\<close> apart.\<close>

fun close_gaps :: "int \<Rightarrow> int list \<Rightarrow> bool" where
  "close_gaps d (t # u # ts) = (u - t \<le> d \<and> close_gaps d (u # ts))"
| "close_gaps d _ = True"

text \<open>The state of the key after \<open>n\<close> failures of a streak, the last at \<open>l\<close>.\<close>

definition streak :: "nat \<Rightarrow> int \<Rightarrow> string \<Rightarrow> string \<Rightarrow> circuit_breaker \<Rightarrow> bool" where
  "streak n l p h s \<longleftrightarrow>
     (\<exists>r. map_of (cb_records s) (cb_key p h) = Some r \<and> fr_consecutive r = int n \<and> fr_last r = l \<and>
        (fr_open r \<longleftrightarrow> cb_threshold s \<le> int n))"

lemma cb_config_failure [simp]:
  "cb_threshold (cb_failure t p h s) = cb_threshold s" "cb_decayMs (cb_failure t p h s) = cb_decayMs s"
  by (simp_all add: cb_failure_def Let_def split: option.split)

lemma streak_start:
  assumes "map_of (cb_records s) (cb_key p h) = None"
  shows "streak 1 t p h (cb_failure t p h s)"
    and "cb_opened (cb_failure t p h s) = cb_opened s @ (if cb_threshold s \<le> 1 then [(p, h, 1)] else [])"
  using assms by (auto simp: streak_def cb_failure_def next_failure_def fresh_failure_def Let_def)

lemma streak_step:
  assumes "streak n l p h s" and "t - l \<le> cb_decayMs s"
  shows "streak (Suc n) t p h (cb_failure t p h s)"
    and "cb_opened (cb_failure t p h s) =
       cb_opened s @ (if cb_threshold s = int (Suc n) then [(p, h, int (Suc n))] else [])"
  using assms by (auto simp: streak_def cb_failure_def next_failure_def Let_def)

lemma streak_run:
  assumes "streak n l p h s" and "close_gaps (cb_decayMs s) (l # ts)"
  shows "streak (n + length ts) (last (l # ts)) p h (cb_failures ts p h s) \<and>
     cb_opened (cb_failures ts p h s) = cb_opened s @
       (if int n < cb_threshold s \<and> cb_threshold s \<le> int (n + length ts) then [(p, h, cb_threshold s)] else []) \<and>
     cb_decayMs (cb_failures ts p h s) = cb_decayMs s \<and> cb_threshold (cb_failures ts p h s) = cb_threshold s"
  using assms
proof (induction ts arbitrary: n l s)
  case (Cons t ts)
  have step: "streak (Suc n) t p h (cb_failure t p h s)"
    "cb_opened (cb_failure t p h s) =
       cb_opened s @ (if cb_threshold s = int (Suc n) then [(p, h, int (Suc n))] else [])"
    using streak_step [OF Cons.prems(1)] Cons.prems(2) by simp_all
  have "close_gaps (cb_decayMs (cb_failure t p h s)) (t # ts)" using Cons.prems(2) by simp
  from Cons.IH [OF step(1) this] show ?case using step(2) by auto
qed simp

text \<open>
  the breaker trips exactly once. Starting without a record for the hook, a streak of
  failures with no silence longer than the decay period calls \<open>onOpen\<close> exactly when its length
  reaches the threshold (once, with that count), and the breaker is then reported open until the
  decay period has passed since the last failure.
\<close>
theorem breaker_trips_once:
  assumes "map_of (cb_records s) (cb_key p h) = None" and "1 \<le> cb_threshold s"
    and "close_gaps (cb_decayMs s) (t # ts)"
  shows "cb_opened (cb_failures (t # ts) p h s) = cb_opened s @
       (if cb_threshold s \<le> int (length (t # ts)) then [(p, h, cb_threshold s)] else []) \<and>
     fst (cb_isOpen u p h (cb_failures (t # ts) p h s)) =
       (cb_threshold s \<le> int (length (t # ts)) \<and> u - last (t # ts) \<le> cb_decayMs s) \<and>
     cb_failureCount p h (cb_failures (t # ts) p h s) = int (length (t # ts))"
proof -
  let ?s = "cb_failure t p h s"
  note run = streak_run [OF streak_start(1) [OF assms(1), of t], of ts]
  have gaps: "close_gaps (cb_decayMs ?s) (t # ts)" using assms(3) by simp
  have "cb_opened (cb_failures (t # ts) p h s) = cb_opened s @
       (if cb_threshold s \<le> int (length (t # ts)) then [(p, h, cb_threshold s)] else [])"
    using run [OF gaps] streak_start(2) [OF assms(1), of t] assms(2) by auto
  moreover have "streak (Suc (length ts)) (last (t # ts)) p h (cb_failures (t # ts) p h s)"
    and "cb_decayMs (cb_failures (t # ts) p h s) = cb_decayMs s"
    and "cb_threshold (cb_failures (t # ts) p h s) = cb_threshold s"
    using run [OF gaps] by simp_all
  ultimately show ?thesis
    by (auto simp: streak_def cb_isOpen_def cb_failureCount_def simp del: cb_failures.simps split: if_splits)
qed

theorem breaker_trips_once_witness:
  "cb_opened (cb_failures [0, 10, 20, 30] ''p'' ''h'' (cb_new None None)) = [(''p'', ''h'', 3)] \<and>
   fst (cb_isOpen 40 ''p'' ''h'' (cb_failures [0, 10, 20, 30] ''p'' ''h'' (cb_new None None)))"
proof -
  have "map_of (cb_records (cb_new None None)) (cb_key ''p'' ''h'') = None" "1 \<le> cb_threshold (cb_new None None)"
    "close_gaps (cb_decayMs (cb_new None None)) [0, 10, 20, 30]"
    by (simp_all add: cb_new_def)
  from breaker_trips_once [OF this, of 40] show ?thesis by (simp add: cb_new_def del: cb_failures.simps)
qed

text \<open>A failure after the decay period restarts the count at one without looking at the threshold,
  so a breaker configured to trip on the first failure does not trip on that one.\<close>

lemma decay_skips_threshold:
  assumes "map_of (cb_records s) (cb_key p h) = Some r" and "now - fr_last r > cb_decayMs s"
  shows "cb_opened (cb_failure now p h s) = cb_opened s \<and>
     \<not> fst (cb_isOpen now p h (cb_failure now p h s)) \<and> cb_failureCount p h (cb_failure now p h s) = 1"
  using assms by (simp add: cb_failure_def cb_isOpen_def cb_failureCount_def fresh_failure_def)

text \<open>Two hooks of plugins whose ids hold no \<open>#\<close> never share a record.\<close>

lemma cb_key_inj:
  assumes "CHR ''#'' \<notin> set p" "CHR ''#'' \<notin> set q" "cb_key p h = cb_key q k"
  shows "p = q \<and> h = k"
proof -
  have "takeWhile (\<lambda>c. c \<noteq> CHR ''#'') (cb_key x y) = x" if "CHR ''#'' \<notin> set x" for x y
    using that by (induction x) (auto simp: cb_key_def)
  then have "p = q" using assms by metis
  then show ?thesis using assms(3) by (simp add: cb_key_def)
qed

lemma cb_isolation:
  assumes "CHR ''#'' \<notin> set p" "CHR ''#'' \<notin> set q" "(p, h) \<noteq> (q, k)"
  shows "map_of (cb_records (cb_failure t p h s)) (cb_key q k) = map_of (cb_records s) (cb_key q k)"
    and "map_of (cb_records (cb_success p h s)) (cb_key q k) = map_of (cb_records s) (cb_key q k)"
proof -
  have "cb_key q k \<noteq> cb_key p h" using cb_key_inj assms by metis
  then show "map_of (cb_records (cb_failure t p h s)) (cb_key q k) = map_of (cb_records s) (cb_key q k)"
    "map_of (cb_records (cb_success p h s)) (cb_key q k) = map_of (cb_records s) (cb_key q k)"
    by (simp_all add: cb_failure_def cb_success_def Let_def)
qed

section \<open>The caller throttle\<close>

record caller_throttle =
  ct_threshold :: int
  ct_windowMs :: int
  ct_blockMs :: int
  ct_invalidWindows :: "(string, int list) jmap"
  ct_blockedUntil :: "(string, int) jmap"

definition ct_new :: "int \<Rightarrow> int \<Rightarrow> int \<Rightarrow> caller_throttle" where
  "ct_new threshold window block = \<lparr>ct_threshold = threshold, ct_windowMs = window, ct_blockMs = block,
     ct_invalidWindows = [], ct_blockedUntil = []\<rparr>"

definition ct_isBlocked :: "int \<Rightarrow> string \<Rightarrow> caller_throttle \<Rightarrow> bool \<times> caller_throttle" where
  "ct_isBlocked now caller s =
     (case map_of (ct_blockedUntil s) caller of
        None \<Rightarrow> (False, s)
      | Some until \<Rightarrow>
          if now \<ge> until then (False, s\<lparr>ct_blockedUntil := jdel (ct_blockedUntil s) caller\<rparr>)
          else (True, s))"

definition ct_recordInvalid :: "int \<Rightarrow> string \<Rightarrow> caller_throttle \<Rightarrow> caller_throttle" where
  "ct_recordInvalid now caller s =
     (let cutoff = now - ct_windowMs s;
          fresh = (case map_of (ct_invalidWindows s) caller of
                     None \<Rightarrow> [] | Some ts \<Rightarrow> filter (\<lambda>x. x > cutoff) ts) @ [now]
      in if int (length fresh) \<ge> ct_threshold s
         then s\<lparr>ct_blockedUntil := jset (ct_blockedUntil s) caller (now + ct_blockMs s),
                ct_invalidWindows := jdel (ct_invalidWindows s) caller\<rparr>
         else s\<lparr>ct_invalidWindows := jset (ct_invalidWindows s) caller fresh\<rparr>)"

definition ct_reset :: "string \<Rightarrow> caller_throttle \<Rightarrow> caller_throttle" where
  "ct_reset caller s = s\<lparr>ct_invalidWindows := jdel (ct_invalidWindows s) caller,
     ct_blockedUntil := jdel (ct_blockedUntil s) caller\<rparr>"

fun ct_records :: "int list \<Rightarrow> string \<Rightarrow> caller_throttle \<Rightarrow> caller_throttle" where
  "ct_records [] c s = s"
| "ct_records (t # ts) c s = ct_records ts c (ct_recordInvalid t c s)"

lemma ct_record_frame:
  "c \<noteq> d \<Longrightarrow> map_of (ct_blockedUntil (ct_recordInvalid t d s)) c = map_of (ct_blockedUntil s) c \<and>
     map_of (ct_invalidWindows (ct_recordInvalid t d s)) c = map_of (ct_invalidWindows s) c"
  by (simp add: ct_recordInvalid_def Let_def)

lemma ct_records_frame:
  "c \<noteq> d \<Longrightarrow> map_of (ct_blockedUntil (ct_records ts d s)) c = map_of (ct_blockedUntil s) c"
  by (induction ts arbitrary: s) (simp_all add: ct_record_frame)

lemma ct_config [simp]:
  "ct_threshold (ct_recordInvalid t c s) = ct_threshold s"
  "ct_windowMs (ct_recordInvalid t c s) = ct_windowMs s"
  "ct_blockMs (ct_recordInvalid t c s) = ct_blockMs s"
  by (simp_all add: ct_recordInvalid_def Let_def)

text \<open>The window of \<open>c\<close> is \<open>w\<close>, and \<open>c\<close> is not blocked.\<close>

definition ct_window :: "string \<Rightarrow> int list \<Rightarrow> caller_throttle \<Rightarrow> bool" where
  "ct_window c w s \<longleftrightarrow> jget_or [] (ct_invalidWindows s) c = w \<and> map_of (ct_blockedUntil s) c = None"

lemma ct_record_below:
  assumes "ct_window c w s" and "\<forall>x \<in> set w. t - ct_windowMs s < x" and "int (length w) + 1 < ct_threshold s"
  shows "ct_window c (w @ [t]) (ct_recordInvalid t c s)"
proof -
  have "filter (\<lambda>x. x > t - ct_windowMs s) w = w" using assms(2) by simp
  then show ?thesis
    using assms by (auto simp: ct_window_def ct_recordInvalid_def Let_def jget_or_def split: option.splits)
qed

lemma ct_record_at:
  assumes "ct_window c w s" and "\<forall>x \<in> set w. t - ct_windowMs s < x" and "int (length w) + 1 = ct_threshold s"
  shows "map_of (ct_blockedUntil (ct_recordInvalid t c s)) c = Some (t + ct_blockMs s)"
    and "map_of (ct_invalidWindows (ct_recordInvalid t c s)) c = None"
proof -
  have "filter (\<lambda>x. x > t - ct_windowMs s) w = w" using assms(2) by simp
  then show "map_of (ct_blockedUntil (ct_recordInvalid t c s)) c = Some (t + ct_blockMs s)"
    "map_of (ct_invalidWindows (ct_recordInvalid t c s)) c = None"
    using assms by (auto simp: ct_window_def ct_recordInvalid_def Let_def jget_or_def split: option.splits)
qed

lemma ct_records_threshold:
  assumes "ct_window c w s" and "sorted (w @ ts)" and "\<forall>x \<in> set (w @ ts). \<forall>y \<in> set (w @ ts). y - ct_windowMs s < x"
    and "ts \<noteq> []" and "int (length w + length ts) = ct_threshold s"
  shows "map_of (ct_blockedUntil (ct_records ts c s)) c = Some (last ts + ct_blockMs s)"
  using assms
proof (induction ts arbitrary: w s)
  case (Cons t ts)
  show ?case
  proof (cases "ts = []")
    case True
    then show ?thesis using Cons.prems by (simp add: ct_record_at)
  next
    case False
    then have "0 < length ts" by simp
    then have "int (length w) + 1 < ct_threshold s" using Cons.prems(5) unfolding list.size by linarith
    moreover have "\<forall>x \<in> set w. t - ct_windowMs s < x" using Cons.prems(3) by simp
    ultimately have "ct_window c (w @ [t]) (ct_recordInvalid t c s)"
      using ct_record_below [OF Cons.prems(1)] by simp
    from Cons.IH [OF this] show ?thesis using Cons.prems False by simp
  qed
qed simp

lemma ct_records_below:
  assumes "ct_window c w s" and "\<forall>x \<in> set (w @ ts). \<forall>y \<in> set (w @ ts). y - ct_windowMs s < x"
    and "int (length w + length ts) < ct_threshold s"
  shows "map_of (ct_blockedUntil (ct_records ts c s)) c = None"
  using assms
proof (induction ts arbitrary: w s)
  case (Cons t ts)
  have "ct_window c (w @ [t]) (ct_recordInvalid t c s)"
    by (rule ct_record_below) (use Cons.prems in auto)
  from Cons.IH [OF this] show ?case using Cons.prems by simp
qed (simp add: ct_window_def)

text \<open>
  the throttle blocks the offender and nobody else. A caller with a clean record whose
  invalid calls fall within one window is blocked exactly when they reach the threshold, from
  the last of them for \<open>blockMs\<close>; no other caller's block changes.
\<close>
theorem throttle_blocks_offender:
  assumes "ct_window c [] s" and "sorted ts" and "ts \<noteq> []" and "last ts - hd ts < ct_windowMs s"
    and "int (length ts) \<le> ct_threshold s"
  shows "fst (ct_isBlocked u c (ct_records ts c s)) =
       (int (length ts) = ct_threshold s \<and> u < last ts + ct_blockMs s) \<and>
     (d \<noteq> c \<longrightarrow> fst (ct_isBlocked u d (ct_records ts c s)) = fst (ct_isBlocked u d s))"
proof -
  have ends: "hd ts \<le> x \<and> x \<le> last ts" if "x \<in> set ts" for x
    using that assms(2)
  proof (induction ts)
    case (Cons y ys)
    then show ?case using last_in_set [of ys] by (cases "ys = []") auto
  qed simp
  have close: "\<forall>x \<in> set ([] @ ts). \<forall>y \<in> set ([] @ ts). y - ct_windowMs s < x"
  proof (intro ballI)
    fix x y assume "x \<in> set ([] @ ts)" "y \<in> set ([] @ ts)"
    then show "y - ct_windowMs s < x" using ends [of x] ends [of y] assms(4) by simp
  qed
  have "fst (ct_isBlocked u c (ct_records ts c s)) =
       (int (length ts) = ct_threshold s \<and> u < last ts + ct_blockMs s)"
  proof (cases "int (length ts) = ct_threshold s")
    case True
    then have "map_of (ct_blockedUntil (ct_records ts c s)) c = Some (last ts + ct_blockMs s)"
      using ct_records_threshold [OF assms(1) _ close assms(3)] assms(2) by simp
    then show ?thesis using True by (simp add: ct_isBlocked_def)
  next
    case False
    then have "map_of (ct_blockedUntil (ct_records ts c s)) c = None"
      using ct_records_below [OF assms(1) close] assms(5) by simp
    then show ?thesis using False by (simp add: ct_isBlocked_def)
  qed
  moreover have "fst (ct_isBlocked u d (ct_records ts c s)) = fst (ct_isBlocked u d s)" if "d \<noteq> c"
    using ct_records_frame [OF that, of ts s] by (simp add: ct_isBlocked_def split: option.split)
  ultimately show ?thesis by blast
qed

theorem throttle_blocks_offender_witness:
  "fst (ct_isBlocked 8 ''a'' (ct_records [1, 2, 3] ''a'' (ct_new 3 10 100))) \<and>
   \<not> fst (ct_isBlocked 103 ''a'' (ct_records [1, 2, 3] ''a'' (ct_new 3 10 100))) \<and>
   \<not> fst (ct_isBlocked 8 ''b'' (ct_records [1, 2, 3] ''a'' (ct_new 3 10 100)))"
proof -
  have *: "ct_window ''a'' [] (ct_new 3 10 100)" "sorted [1, 2, 3 :: int]" "[1, 2, 3 :: int] \<noteq> []"
    "last [1, 2, 3] - hd [1, 2, 3] < ct_windowMs (ct_new 3 10 100)"
    "int (length [1, 2, 3 :: int]) \<le> ct_threshold (ct_new 3 10 100)"
    by (simp_all add: ct_window_def ct_new_def jget_or_def)
  show ?thesis
    using throttle_blocks_offender [OF *, of 8 "''b''"] throttle_blocks_offender [OF *, of 103 "''b''"]
    by (simp add: ct_new_def ct_isBlocked_def [of 8 "''b''" "\<lparr>ct_threshold = _, ct_windowMs = _, ct_blockMs = _,
      ct_invalidWindows = _, ct_blockedUntil = _\<rparr>"] del: ct_records.simps)
qed

end
