(* ===== verification/Task_Model.thy ===== *)
theory Task_Model
  imports Complex_Main Prelude
begin

text \<open>
  The task data model shared by every part of the application and the predicates that decide
  which actions a task accepts: \<open>shared/types/task.ts\<close>, \<open>shared/types/task-actions.ts\<close>,
  \<open>shared/schemas/media-progress.ts\<close>, the parts of the legacy-import and direct-replay
  schemas those predicates read, \<open>legacy-import/legacy-task-policy.ts\<close> and
  \<open>task/completed-direct-task-policy.ts\<close>.

  Byte counts, speeds and times are integers, the quotients \<open>progress\<close> and \<open>ratio\<close>
  are exact rationals; \<open>null\<close> and absent optional fields are \<open>None\<close>. The open
  \<open>payload\<close> object of an instance is the record of the keys the code looks up; each key
  holds \<open>Absent\<close>, a value its schema rejects (\<open>Malformed\<close>, with the raw
  \<open>engineTaskId\<close> string if there is one), or a value the schema accepts (\<open>Valid\<close>).
\<close>

section \<open>Enumerations\<close>

datatype TaskStatus = Queued | FetchingMetadata | MetadataReady | Downloading | Finalizing
  | Seeding | Paused | Completed | Error | Removed

datatype TaskType = Http | Ftp | Bt | Magnet | Metalink

datatype TransitionPhase = Idle | Renaming | Reseeding

datatype TaskKind = KDirect | KBt | KHls | KMux

datatype TaskInstancePhase = HttpDownload | BtDownload | MagnetMetadataResolution | HlsSegment
  | HlsSubtitle | HlsAudio | FfmpegMux

datatype MediaPhase = MPreparing | MDownloading | MDecrypting | MAssembling | MMuxing | MRenaming

datatype TaskSource = UserSource | BridgeSource | PluginSource

section \<open>Persisted payload objects\<close>

datatype 'a field = Absent | Malformed "string option" | Valid 'a

definition hasOwn :: "'a field \<Rightarrow> bool" where
  "hasOwn f \<longleftrightarrow> (case f of Absent \<Rightarrow> False | _ \<Rightarrow> True)"

definition safeParse :: "'a field \<Rightarrow> 'a option" where
  "safeParse f = (case f of Valid a \<Rightarrow> Some a | _ \<Rightarrow> None)"

datatype legacy_activation = LInactive | LActivating | LActive

datatype storage_policy = LegacyReadOnly | LegacyBtInPlace | LegacyHttpInPlace

record legacy_origin =
  lo_sessionDigest :: string
  lo_torrentDigest :: "string option"

record legacy_marker =
  lm_activation :: legacy_activation
  lm_storagePolicy :: storage_policy
  lm_selectionKnown :: bool
  lm_selectedFiles :: "nat list"
  lm_origin :: "legacy_origin option"

datatype legacy_stage = ImportUncertain | Checkpoint | CreateUncertain | Bound
  | ResumeUncertain | StageActive

record legacy_http_activation =
  lh_stage :: legacy_stage
  lh_engineTaskId :: string
  lh_targetPath :: string
  lh_saveDir :: string
  lh_uriDigest :: string

record legacy_bt_activation =
  lb_stage :: legacy_stage
  lb_engineTaskId :: string
  lb_torrentDigest :: string
  lb_selectedFiles :: "nat list"

datatype replayability = UriOnly | RequiresCredentials

record direct_replay =
  dr_replayability :: replayability
  dr_engineContextVersion :: "nat option"

record bt_finalize_upload =
  fu_gid :: string
  fu_bytes :: int

record bt_direct_layout =
  bl_torrentRootName :: "string option"
  bl_multiFile :: "bool option"
  bl_finalized :: bool

record payload =
  pl_legacyImport :: "legacy_marker field"
  pl_legacyHttpActivation :: "legacy_http_activation field"
  pl_legacyBtActivation :: "legacy_bt_activation field"
  pl_directReplay :: "direct_replay field"
  pl_btFinalizeUpload :: "bt_finalize_upload field"
  pl_btStorageLayout :: "bt_direct_layout field"

section \<open>Tasks and their instances\<close>

record TaskInstance =
  ti_instanceId :: string
  ti_motrixId :: string
  ti_gid :: "string option"
  ti_phase :: TaskInstancePhase
  ti_status :: TaskStatus
  ti_progress :: rat
  ti_totalBytes :: int
  ti_downloadedBytes :: int
  ti_uploadedBytes :: int
  ti_diskPath :: string
  ti_transitionPhase :: TransitionPhase
  ti_uris :: "string list"
  ti_uriHash :: "string option"
  ti_payload :: payload
  ti_createdAt :: int
  ti_updatedAt :: int

record media_download =
  md_progress :: rat
  md_completedParts :: int
  md_totalParts :: int
  md_totalBytes :: "int option"

record media_progress =
  mp_phase :: MediaPhase
  mp_download :: media_download
  mp_muxProgress :: "rat option"
  mp_outputBytes :: "int option"

record bt_extension =
  bt_peers :: int
  bt_seeds :: int
  bt_ratio :: rat
  bt_trackers :: "string list"
  bt_selectedFiles :: "nat list"
  bt_peersInSwarm :: int
  bt_seedsInSwarm :: int
  bt_announceList :: "string list list"
  bt_comment :: "string option"
  bt_isPrivate :: bool
  bt_magnetUri :: "string option"
  bt_sequentialDownload :: bool

record bridge_source_meta =
  sm_kind :: string
  sm_extensionId :: string
  sm_browser :: string
  sm_sessionKey :: string
  sm_pageUrl :: string
  sm_pageTitle :: string
  sm_qualityLabel :: string
  sm_durationSec :: "int option"
  sm_submittedAt :: int

record DownloadTask =
  dt_storageOperation :: bool
  dt_id :: string
  dt_engineTaskId :: string
  dt_name :: string
  dt_type :: TaskType
  dt_status :: TaskStatus
  dt_progress :: rat
  dt_mediaProgress :: "media_progress option"
  dt_totalBytes :: int
  dt_downloadedBytes :: int
  dt_downloadSpeed :: int
  dt_uploadSpeed :: int
  dt_etaSeconds :: int
  dt_saveDir :: string
  dt_createdAt :: int
  dt_updatedAt :: int
  dt_finishedAt :: "int option"
  dt_errorMessage :: "string option"
  dt_uris :: "string list"
  dt_uploadedBytes :: int
  dt_uploadedBytesBaseline :: int
  dt_fileCount :: int
  dt_connections :: int
  dt_pieceLength :: int
  dt_infoHash :: "string option"
  dt_errorCode :: "string option"
  dt_errorDetailKey :: "string option"
  dt_errorDetailParams :: "(string \<times> string) list option"
  dt_diagnosisRevision :: int
  dt_metadataProgress :: rat
  dt_priority :: int
  dt_category :: "string option"
  dt_dlLimit :: int
  dt_ulLimit :: int
  dt_filename :: string
  dt_sizeWhenDone :: int
  dt_source :: TaskSource
  dt_sourceMeta :: "bridge_source_meta option"
  dt_bt :: "bt_extension option"
  dt_diskPath :: string
  dt_finalPath :: string
  dt_finalName :: string
  dt_transitionPhase :: TransitionPhase
  dt_torrentMetaPath :: "string option"
  dt_kind :: TaskKind
  dt_instances :: "TaskInstance list"

text \<open>
  \<open>makeDownloadTask\<close>: the neutral zero state around the fields every creation site must
  supply. The code spreads a partial object over the defaults; here the caller updates the
  record this function returns.
\<close>

definition makeDownloadTask ::
  "string \<Rightarrow> string \<Rightarrow> TaskType \<Rightarrow> TaskKind \<Rightarrow> string \<Rightarrow> int \<Rightarrow> int \<Rightarrow> string \<Rightarrow> string \<Rightarrow>
   string \<Rightarrow> string \<Rightarrow> TaskSource \<Rightarrow> bridge_source_meta option \<Rightarrow> TaskInstance list \<Rightarrow> DownloadTask" where
  "makeDownloadTask tid name type kind saveDir createdAt updatedAt filename finalName
     finalPath diskPath src meta insts =
   \<lparr> dt_storageOperation = False, dt_id = tid, dt_engineTaskId = [], dt_name = name,
     dt_type = type, dt_status = Queued, dt_progress = 0, dt_mediaProgress = None,
     dt_totalBytes = 0, dt_downloadedBytes = 0, dt_downloadSpeed = 0, dt_uploadSpeed = 0,
     dt_etaSeconds = 0, dt_saveDir = saveDir, dt_createdAt = createdAt, dt_updatedAt = updatedAt,
     dt_finishedAt = None, dt_errorMessage = None, dt_uris = [], dt_uploadedBytes = 0,
     dt_uploadedBytesBaseline = 0, dt_fileCount = 0, dt_connections = 0, dt_pieceLength = 0,
     dt_infoHash = None, dt_errorCode = None, dt_errorDetailKey = None,
     dt_errorDetailParams = None, dt_diagnosisRevision = 0, dt_metadataProgress = 0,
     dt_priority = 0, dt_category = None, dt_dlLimit = 0, dt_ulLimit = 0,
     dt_filename = filename, dt_sizeWhenDone = 0, dt_source = src, dt_sourceMeta = meta,
     dt_bt = None, dt_diskPath = diskPath, dt_finalPath = finalPath, dt_finalName = finalName,
     dt_transitionPhase = Idle, dt_torrentMetaPath = None, dt_kind = kind,
     dt_instances = insts \<rparr>"

definition makeDefaultBtExtension :: bt_extension where
  "makeDefaultBtExtension =
   \<lparr> bt_peers = 0, bt_seeds = 0, bt_ratio = 0, bt_trackers = [], bt_selectedFiles = [],
     bt_peersInSwarm = 0, bt_seedsInSwarm = 0, bt_announceList = [], bt_comment = None,
     bt_isPrivate = False, bt_magnetUri = None, bt_sequentialDownload = False \<rparr>"

section \<open>Status predicates\<close>

definition isMediaKind :: "TaskKind \<Rightarrow> bool" where
  "isMediaKind k \<longleftrightarrow> k = KMux \<or> k = KHls"

definition isTorrentLikeType :: "TaskType \<Rightarrow> bool" where
  "isTorrentLikeType ty \<longleftrightarrow> ty = Bt \<or> ty = Magnet"

definition isTorrentLike :: "DownloadTask \<Rightarrow> bool" where
  "isTorrentLike t = isTorrentLikeType (dt_type t)"

definition canInspectPieces :: "DownloadTask \<Rightarrow> bool" where
  "canInspectPieces t \<longleftrightarrow> dt_kind t = KDirect \<or> isTorrentLike t"

definition isTerminalTaskStatus :: "TaskStatus \<Rightarrow> bool" where
  "isTerminalTaskStatus s \<longleftrightarrow> s = Completed \<or> s = Error"

definition isStoppedTaskStatus :: "TaskStatus \<Rightarrow> bool" where
  "isStoppedTaskStatus s \<longleftrightarrow> isTerminalTaskStatus s \<or> s = Removed"

section \<open>Legacy imports\<close>

definition hasLegacyImport :: "TaskInstance list \<Rightarrow> bool" where
  "hasLegacyImport insts \<longleftrightarrow>
     (\<exists>i \<in> set insts. hasOwn (pl_legacyImport (ti_payload i)) \<or>
                       hasOwn (pl_legacyHttpActivation (ti_payload i)))"

text \<open>
  The two branches of \<open>isLegacyImportInactive\<close> for one instance. \<open>selectedFiles\<close> are
  non-negative integers, whose decimal \<open>join(',')\<close> is injective, so the joined strings agree
  exactly when the lists do. \<open>origin?.torrentDigest\<close> is absent, \<open>null\<close> or a string;
  the activation's digest is always a string.
\<close>

definition httpBindingInactive :: "TaskInstance \<Rightarrow> legacy_marker \<Rightarrow> bool" where
  "httpBindingInactive i m \<longleftrightarrow>
     (case safeParse (pl_legacyHttpActivation (ti_payload i)) of
        None \<Rightarrow> True
      | Some a \<Rightarrow> lm_activation m \<noteq> LActive \<or> lh_stage a \<noteq> StageActive \<or>
                  ti_gid i \<noteq> Some (lh_engineTaskId a))"

definition btBindingInactive :: "TaskInstance \<Rightarrow> legacy_marker option \<Rightarrow> bool" where
  "btBindingInactive i marker \<longleftrightarrow>
     (case (marker, safeParse (pl_legacyBtActivation (ti_payload i))) of
        (Some m, Some a) \<Rightarrow>
          lm_activation m \<noteq> LActive \<or>
          lm_storagePolicy m \<noteq> LegacyBtInPlace \<or>
          lb_stage a \<notin> {Bound, StageActive} \<or>
          ti_gid i \<noteq> Some (lb_engineTaskId a) \<or>
          \<not> lm_selectionKnown m \<or>
          (case lm_origin m of None \<Rightarrow> None | Some origin \<Rightarrow> lo_torrentDigest origin)
            \<noteq> Some (lb_torrentDigest a) \<or>
          lm_selectedFiles m \<noteq> lb_selectedFiles a
      | _ \<Rightarrow> True)"

definition legacyInstanceInactive :: "TaskInstance \<Rightarrow> bool" where
  "legacyInstanceInactive i \<longleftrightarrow>
     (if \<not> hasOwn (pl_legacyImport (ti_payload i))
      then hasOwn (pl_legacyHttpActivation (ti_payload i))
      else let marker = safeParse (pl_legacyImport (ti_payload i)) in
        case marker of
          Some m \<Rightarrow> if lm_storagePolicy m = LegacyHttpInPlace then httpBindingInactive i m
                    else btBindingInactive i marker
        | None \<Rightarrow> btBindingInactive i marker)"

definition isLegacyImportInactive :: "TaskInstance list \<Rightarrow> bool" where
  "isLegacyImportInactive insts \<longleftrightarrow> (\<exists>i \<in> set insts. legacyInstanceInactive i)"

section \<open>Actions a task accepts\<close>

definition canPause :: "DownloadTask \<Rightarrow> bool" where
  "canPause t \<longleftrightarrow>
     (if isMediaKind (dt_kind t) then
        (case dt_mediaProgress t of
           Some mp \<Rightarrow> mp_phase mp = MDownloading
         | None \<Rightarrow> True) \<and>
        \<not> (\<exists>i \<in> set (dt_instances t). ti_phase i = FfmpegMux \<and> ti_status i \<noteq> Queued) \<and>
        dt_status t = Downloading
      else
        dt_status t = Queued \<or> dt_status t = FetchingMetadata \<or>
        dt_status t = Downloading \<or> dt_status t = Seeding)"

definition canResume :: "DownloadTask \<Rightarrow> bool" where
  "canResume t \<longleftrightarrow> dt_status t = Paused \<and> \<not> isLegacyImportInactive (dt_instances t)"

definition canOpenTaskFile :: "DownloadTask \<Rightarrow> bool" where
  "canOpenTaskFile t \<longleftrightarrow>
     dt_status t = Completed \<and> dt_fileCount t = 1 \<and> (dt_finalPath t \<noteq> [] \<or> dt_diskPath t \<noteq> [])"

definition canSelectTaskFiles :: "DownloadTask \<Rightarrow> bool" where
  "canSelectTaskFiles t \<longleftrightarrow>
     \<not> hasLegacyImport (dt_instances t) \<and> dt_engineTaskId t \<noteq> [] \<and> dt_fileCount t > 1 \<and>
     (isTorrentLike t \<or> dt_type t = Metalink) \<and>
     (dt_status t = Queued \<or> dt_status t = Downloading \<or> dt_status t = Paused \<or>
      dt_status t = Seeding)"

definition canMoveInQueue :: "DownloadTask \<Rightarrow> bool" where
  "canMoveInQueue t \<longleftrightarrow>
     dt_engineTaskId t \<noteq> [] \<and> \<not> isMediaKind (dt_kind t) \<and>
     (dt_status t = Queued \<or> dt_status t = Paused)"

definition canStopSeeding :: "DownloadTask \<Rightarrow> bool" where
  "canStopSeeding t \<longleftrightarrow> dt_status t = Seeding"

definition canReseed :: "DownloadTask \<Rightarrow> bool" where
  "canReseed t \<longleftrightarrow>
     \<not> hasLegacyImport (dt_instances t) \<and> dt_status t = Completed \<and>
     isTorrentLikeType (dt_type t) \<and> dt_torrentMetaPath t \<noteq> None"

definition canManageBtStorage :: "DownloadTask \<Rightarrow> bool" where
  "canManageBtStorage t \<longleftrightarrow>
     \<not> dt_storageOperation t \<and> \<not> hasLegacyImport (dt_instances t) \<and>
     isTorrentLikeType (dt_type t) \<and> dt_torrentMetaPath t \<noteq> None \<and>
     dt_transitionPhase t = Idle \<and>
     (dt_status t \<in> {Completed, Seeding, Error} \<or> (dt_status t = Paused \<and> dt_progress t = 1))"

definition canRedownload :: "DownloadTask \<Rightarrow> bool" where
  "canRedownload t \<longleftrightarrow>
     \<not> hasLegacyImport (dt_instances t) \<and> \<not> isMediaKind (dt_kind t) \<and> dt_status t = Completed"

definition canRetry :: "DownloadTask \<Rightarrow> bool" where
  "canRetry t \<longleftrightarrow>
     \<not> hasLegacyImport (dt_instances t) \<and> (dt_status t = Error \<or> dt_status t = Removed)"

definition canRemove :: "DownloadTask \<Rightarrow> bool" where
  "canRemove t \<longleftrightarrow> dt_status t \<noteq> Finalizing"

definition isFinalizing :: "DownloadTask \<Rightarrow> bool" where
  "isFinalizing t \<longleftrightarrow> dt_status t = Finalizing"

section \<open>Retry\<close>

definition parseDirectReplayRecipe :: "payload \<Rightarrow> direct_replay option" where
  "parseDirectReplayRecipe p = safeParse (pl_directReplay p)"

definition isUriOnlyDirectReplay :: "payload \<Rightarrow> bool" where
  "isUriOnlyDirectReplay p \<longleftrightarrow>
     (case parseDirectReplayRecipe p of Some r \<Rightarrow> dr_replayability r = UriOnly | None \<Rightarrow> False)"

definition httpDownloadInstance :: "DownloadTask \<Rightarrow> TaskInstance option" where
  "httpDownloadInstance t = find (\<lambda>i. ti_phase i = HttpDownload) (dt_instances t)"

definition canRebuildTaskInputs :: "DownloadTask \<Rightarrow> bool" where
  "canRebuildTaskInputs t \<longleftrightarrow>
     (if isMediaKind (dt_kind t) then False
      else if isTorrentLike t then dt_torrentMetaPath t \<noteq> None
      else if dt_kind t \<noteq> KDirect then False
      else case httpDownloadInstance t of
             None \<Rightarrow> False
           | Some i \<Rightarrow> ti_uris i \<noteq> [] \<and> isUriOnlyDirectReplay (ti_payload i))"

definition startsWith :: "string \<Rightarrow> string \<Rightarrow> bool" where
  "startsWith s p \<longleftrightarrow> take (length p) s = p"

definition canRetryMagnetMetadata :: "DownloadTask \<Rightarrow> bool" where
  "canRetryMagnetMetadata t \<longleftrightarrow>
     dt_status t = Error \<and> dt_type t = Magnet \<and> dt_torrentMetaPath t = None \<and>
     (\<exists>i \<in> set (dt_instances t). ti_phase i = MagnetMetadataResolution \<and>
        (\<exists>uri \<in> set (ti_uris i). startsWith (toLowerCase uri) ''magnet:?''))"

datatype TaskRetryKind = TorrentReadd | DirectReadd | MagnetMetadata | FinalizeRecovery

definition NON_RETRYABLE_DIRECT_RECOVERY_ERRORS :: "string list" where
  "NON_RETRYABLE_DIRECT_RECOVERY_ERRORS =
     [''task.recovery.startup.resumeCheckpointMissing'',
      ''task.recovery.startup.resumeCredentialsRequired'',
      ''task.recovery.startup.resumePathInvalid'',
      ''task.recovery.startup.resumeSourceChanged'',
      ''task.recovery.startup.resumeRangeUnsupported'',
      ''task.recovery.startup.resumeValidationFailed'']"

definition nonRetryableDetail :: "DownloadTask \<Rightarrow> bool" where
  "nonRetryableDetail t \<longleftrightarrow>
     (case dt_errorDetailKey t of
        None \<Rightarrow> False
      | Some k \<Rightarrow> k \<in> set NON_RETRYABLE_DIRECT_RECOVERY_ERRORS)"

definition getTaskRetryKind :: "DownloadTask \<Rightarrow> TaskRetryKind option" where
  "getTaskRetryKind t =
     (if \<not> canRetry t then None
      else if dt_status t = Error \<and>
              (dt_transitionPhase t = Renaming \<or> dt_transitionPhase t = Reseeding)
        then Some FinalizeRecovery
      else if canRebuildTaskInputs t \<and> isTorrentLike t then Some TorrentReadd
      else if canRebuildTaskInputs t \<and> dt_kind t = KDirect \<and> dt_status t = Error \<and>
              \<not> nonRetryableDetail t then Some DirectReadd
      else if canRetryMagnetMetadata t then Some MagnetMetadata
      else None)"

definition canAttemptRetry :: "DownloadTask \<Rightarrow> bool" where
  "canAttemptRetry t \<longleftrightarrow> getTaskRetryKind t \<noteq> None"

definition canRetryWithParameters :: "DownloadTask \<Rightarrow> bool" where
  "canRetryWithParameters t \<longleftrightarrow>
     \<not> hasLegacyImport (dt_instances t) \<and> dt_kind t = KDirect \<and> dt_type t = Http \<and>
     dt_status t = Error \<and> dt_transitionPhase t = Idle"

definition canOfferRetry :: "DownloadTask \<Rightarrow> bool" where
  "canOfferRetry t \<longleftrightarrow> canAttemptRetry t \<or> canRetryWithParameters t"

definition hasRetainedHttpRequestContext :: "DownloadTask \<Rightarrow> bool" where
  "hasRetainedHttpRequestContext t \<longleftrightarrow>
     (if hasLegacyImport (dt_instances t) \<or> dt_kind t \<noteq> KDirect \<or> dt_type t \<noteq> Http \<or>
         dt_transitionPhase t \<noteq> Idle \<or> dt_engineTaskId t = [] then False
      else case httpDownloadInstance t of
             None \<Rightarrow> False
           | Some i \<Rightarrow>
               ti_gid i = Some (dt_engineTaskId t) \<and> length (ti_uris i) = 1 \<and>
               ti_diskPath i = dt_diskPath t \<and>
               (case parseDirectReplayRecipe (ti_payload i) of
                  Some r \<Rightarrow> dr_engineContextVersion r = Some 1
                | None \<Rightarrow> False))"

section \<open>Legacy task policy\<close>

datatype app_error = EngineFeatureUnavailable string

definition assertLegacyTaskNotActivated :: "TaskInstance list \<Rightarrow> (app_error, unit) result" where
  "assertLegacyTaskNotActivated insts =
     (if isLegacyImportInactive insts
      then Inl (EngineFeatureUnavailable ''legacyImport.activationRequired'') else Inr ())"

definition assertLegacyTaskNotRecreated :: "TaskInstance list \<Rightarrow> (app_error, unit) result" where
  "assertLegacyTaskNotRecreated insts =
     (if hasLegacyImport insts
      then Inl (EngineFeatureUnavailable ''legacyImport.activationRequired'') else Inr ())"

text \<open>\<open>/^[a-f0-9]{16}$/\<close>\<close>

definition isEngineGid :: "string \<Rightarrow> bool" where
  "isEngineGid s \<longleftrightarrow> length s = 16 \<and> list_all (\<lambda>c. c \<in> set ''abcdef0123456789'') s"

text \<open>The raw \<open>engineTaskId\<close> of an activation object, whether or not its schema accepts it.\<close>

definition rawEngineTaskId :: "('a \<Rightarrow> string) \<Rightarrow> 'a field \<Rightarrow> string option" where
  "rawEngineTaskId sel f = (case f of Absent \<Rightarrow> None | Malformed r \<Rightarrow> r | Valid a \<Rightarrow> Some (sel a))"

definition sadd_gid :: "string jsetof \<Rightarrow> string option \<Rightarrow> string jsetof" where
  "sadd_gid s g = (case g of Some x \<Rightarrow> if isEngineGid x then sadd s x else s | None \<Rightarrow> s)"

definition quarantineInstance :: "string jsetof \<Rightarrow> TaskInstance \<Rightarrow> string jsetof" where
  "quarantineInstance acc i =
     (let s1 = (case ti_gid i of Some g \<Rightarrow> if g = [] then acc else sadd acc g | None \<Rightarrow> acc);
          s2 = sadd_gid s1 (rawEngineTaskId lb_engineTaskId (pl_legacyBtActivation (ti_payload i)))
      in sadd_gid s2 (rawEngineTaskId lh_engineTaskId (pl_legacyHttpActivation (ti_payload i))))"

definition getLegacyQuarantinedGids :: "TaskInstance list \<Rightarrow> string jsetof" where
  "getLegacyQuarantinedGids insts =
     (if \<not> isLegacyImportInactive insts then [] else foldl quarantineInstance [] insts)"

text \<open>
  \<open>isUnresolvedLegacyMagnet\<close> reads a persisted row: its type, its torrent metadata path and
  its instances.
\<close>

definition isUnresolvedLegacyMagnet :: "TaskType \<Rightarrow> string option \<Rightarrow> TaskInstance list \<Rightarrow> bool" where
  "isUnresolvedLegacyMagnet taskType torrentMetaPath insts \<longleftrightarrow>
     (case insts of
        [i] \<Rightarrow>
          taskType = Magnet \<and> (torrentMetaPath = None \<or> torrentMetaPath = Some []) \<and>
          (ti_gid i = None \<or> ti_gid i = Some []) \<and> ti_phase i = BtDownload \<and>
          \<not> hasOwn (pl_legacyBtActivation (ti_payload i)) \<and>
          \<not> hasOwn (pl_legacyHttpActivation (ti_payload i)) \<and>
          (case safeParse (pl_legacyImport (ti_payload i)) of
             Some m \<Rightarrow> lm_activation m = LInactive \<and> lm_storagePolicy m = LegacyReadOnly
           | None \<Rightarrow> False)
      | _ \<Rightarrow> False)"

section \<open>Completed direct output\<close>

definition isDirectFinalOutput :: "DownloadTask \<Rightarrow> bool" where
  "isDirectFinalOutput t \<longleftrightarrow>
     \<not> hasLegacyImport (dt_instances t) \<and> dt_kind t = KDirect \<and>
     (dt_type t = Http \<or> dt_type t = Ftp) \<and> length (dt_diskPath t) > 0 \<and>
     dt_diskPath t = dt_finalPath t \<and> dt_transitionPhase t = Idle \<and> dt_status t \<noteq> Finalizing \<and>
     list_all (\<lambda>i. ti_phase i = HttpDownload \<and>
                   (ti_gid i = None \<or> ti_gid i = Some (dt_engineTaskId t)) \<and>
                   ti_transitionPhase i = Idle) (dt_instances t)"

definition isCompletedDirectOutput :: "DownloadTask \<Rightarrow> bool" where
  "isCompletedDirectOutput t \<longleftrightarrow> dt_status t = Completed \<and> isDirectFinalOutput t"

section \<open>What the predicates guarantee\<close>

lemmas action_defs = canPause_def canResume_def canSelectTaskFiles_def canMoveInQueue_def
  canStopSeeding_def canReseed_def canManageBtStorage_def canRedownload_def canRetry_def
  canRemove_def canOpenTaskFile_def isFinalizing_def

lemma getTaskRetryKind_cases:
  assumes "getTaskRetryKind t = Some k"
  obtains
    (recover) "k = FinalizeRecovery" "canRetry t" "dt_status t = Error" "dt_transitionPhase t \<noteq> Idle"
  | (torrent) "k = TorrentReadd" "canRetry t" "canRebuildTaskInputs t" "isTorrentLike t"
      "dt_status t = Error \<longrightarrow> dt_transitionPhase t = Idle"
  | (direct) "k = DirectReadd" "canRetry t" "canRebuildTaskInputs t" "\<not> isTorrentLike t"
      "dt_kind t = KDirect" "dt_status t = Error" "\<not> nonRetryableDetail t"
      "dt_transitionPhase t = Idle"
  | (magnet) "k = MagnetMetadata" "canRetry t" "canRetryMagnetMetadata t"
      "dt_transitionPhase t = Idle"
proof -
  have idle: "dt_transitionPhase t = Idle"
    if "\<not> (dt_transitionPhase t = Renaming \<or> dt_transitionPhase t = Reseeding)"
    using that by (cases "dt_transitionPhase t") auto
  show ?thesis
    using assms idle that
    by (auto simp: getTaskRetryKind_def canRetryMagnetMetadata_def split: if_splits)
qed

lemma httpDownloadInstance_Some:
  "httpDownloadInstance t = Some i \<Longrightarrow> i \<in> set (dt_instances t) \<and> ti_phase i = HttpDownload"
  by (auto simp: httpDownloadInstance_def dest: find_SomeD)

lemma canRebuildTaskInputs_direct:
  assumes "canRebuildTaskInputs t" and "\<not> isTorrentLike t"
  obtains i where "dt_kind t = KDirect" "i \<in> set (dt_instances t)" "ti_phase i = HttpDownload"
    "ti_uris i \<noteq> []" "isUriOnlyDirectReplay (ti_payload i)"
  using assms
  by (auto simp: canRebuildTaskInputs_def split: if_splits option.splits
           dest: httpDownloadInstance_Some)

text \<open>
  every retry the interface offers is backed by what that retry needs: a finalization
  recovery only after a failure inside a filesystem transition, a torrent re-add only with the
  persisted metadata, a direct re-add only for a failed (never a removed) task whose recipe
  proves that the request was URI-only and whose failure is not one that would repeat, a magnet
  retry only with a persisted magnet URI; imported legacy tasks and tasks still alive get none.
\<close>
theorem retry_kind_sound:
  assumes "getTaskRetryKind t = Some k"
  shows "\<not> hasLegacyImport (dt_instances t) \<and> dt_status t \<in> {Error, Removed} \<and>
    (case k of
       FinalizeRecovery \<Rightarrow> dt_status t = Error \<and> dt_transitionPhase t \<noteq> Idle
     | TorrentReadd \<Rightarrow> dt_type t \<in> {Bt, Magnet} \<and> dt_torrentMetaPath t \<noteq> None \<and>
         dt_kind t \<notin> {KHls, KMux}
     | DirectReadd \<Rightarrow> dt_status t = Error \<and> dt_transitionPhase t = Idle \<and>
         dt_type t \<notin> {Bt, Magnet} \<and>
         (\<exists>i \<in> set (dt_instances t). ti_phase i = HttpDownload \<and> ti_uris i \<noteq> [] \<and>
            isUriOnlyDirectReplay (ti_payload i)) \<and>
         dt_errorDetailKey t \<noteq> Some ''task.recovery.startup.resumeCredentialsRequired''
     | MagnetMetadata \<Rightarrow> dt_status t = Error \<and> dt_torrentMetaPath t = None \<and>
         (\<exists>i \<in> set (dt_instances t). ti_phase i = MagnetMetadataResolution \<and>
            (\<exists>u \<in> set (ti_uris i). startsWith (toLowerCase u) ''magnet:?'')))"
  using assms
proof (cases rule: getTaskRetryKind_cases)
  case recover
  then show ?thesis by (simp add: canRetry_def)
next
  case torrent
  then show ?thesis
    by (auto simp: canRetry_def canRebuildTaskInputs_def isTorrentLike_def isTorrentLikeType_def
        isMediaKind_def split: if_splits)
next
  case direct
  have no_cred: "dt_errorDetailKey t \<noteq> Some ''task.recovery.startup.resumeCredentialsRequired''"
    using direct(7) by (auto simp: nonRetryableDetail_def NON_RETRYABLE_DIRECT_RECOVERY_ERRORS_def)
  obtain i where "i \<in> set (dt_instances t)" "ti_phase i = HttpDownload" "ti_uris i \<noteq> []"
    "isUriOnlyDirectReplay (ti_payload i)"
    using direct(3,4) by (rule canRebuildTaskInputs_direct)
  then show ?thesis
    using direct no_cred by (auto simp: canRetry_def isTorrentLike_def isTorrentLikeType_def)
next
  case magnet
  then show ?thesis by (simp add: canRetry_def canRetryMagnetMetadata_def)
qed

lemma legacyInstance_bound:
  assumes "\<not> legacyInstanceInactive i" and "hasOwn (pl_legacyImport (ti_payload i))"
  shows "\<exists>m. pl_legacyImport (ti_payload i) = Valid m \<and> lm_activation m = LActive \<and>
           ((\<exists>a. pl_legacyHttpActivation (ti_payload i) = Valid a \<and>
                 lm_storagePolicy m = LegacyHttpInPlace \<and> lh_stage a = StageActive \<and>
                 ti_gid i = Some (lh_engineTaskId a)) \<or>
            (\<exists>a. pl_legacyBtActivation (ti_payload i) = Valid a \<and>
                 lm_storagePolicy m = LegacyBtInPlace \<and> lb_stage a \<in> {Bound, StageActive} \<and>
                 ti_gid i = Some (lb_engineTaskId a) \<and>
                 lm_selectedFiles m = lb_selectedFiles a))"
  using assms
  by (auto simp: legacyInstanceInactive_def httpBindingInactive_def btBindingInactive_def
      safeParse_def Let_def split: field.splits if_splits)

lemma hasLegacyImport_no_replay:
  assumes "hasLegacyImport (dt_instances t)"
  shows "\<not> canRetry t" "\<not> canReseed t" "\<not> canManageBtStorage t" "\<not> canRedownload t"
    "\<not> canSelectTaskFiles t" "\<not> canOfferRetry t" "\<not> hasRetainedHttpRequestContext t"
    "\<not> isDirectFinalOutput t"
  using assms
  by (simp_all add: action_defs canOfferRetry_def canAttemptRetry_def getTaskRetryKind_def
      canRetryWithParameters_def hasRetainedHttpRequestContext_def isDirectFinalOutput_def)

text \<open>
  imported legacy tasks fail closed. Such a task is never recreated (no retry, re-download,
  reseed, storage change or file selection), and it resumes only when every marker it carries is
  understood, active, and bound to the engine id that the instance really holds.
\<close>
theorem legacy_import_fail_closed:
  assumes "hasLegacyImport (dt_instances t)"
  shows "\<not> canOfferRetry t \<and> \<not> canReseed t \<and> \<not> canManageBtStorage t \<and> \<not> canRedownload t \<and>
    \<not> canSelectTaskFiles t \<and> \<not> isCompletedDirectOutput t \<and>
    assertLegacyTaskNotRecreated (dt_instances t) =
      Inl (EngineFeatureUnavailable ''legacyImport.activationRequired'') \<and>
    (canResume t \<longrightarrow>
      (\<forall>i \<in> set (dt_instances t).
         (pl_legacyImport (ti_payload i) = Absent \<longrightarrow> pl_legacyHttpActivation (ti_payload i) = Absent) \<and>
         (pl_legacyImport (ti_payload i) \<noteq> Absent \<longrightarrow>
            (\<exists>m. pl_legacyImport (ti_payload i) = Valid m \<and> lm_activation m = LActive \<and>
               ((\<exists>a. pl_legacyHttpActivation (ti_payload i) = Valid a \<and>
                     lh_stage a = StageActive \<and> ti_gid i = Some (lh_engineTaskId a)) \<or>
                (\<exists>a. pl_legacyBtActivation (ti_payload i) = Valid a \<and>
                     lb_stage a \<in> {Bound, StageActive} \<and> ti_gid i = Some (lb_engineTaskId a)))))))"
proof -
  have bound: "(pl_legacyImport (ti_payload i) = Absent \<longrightarrow> pl_legacyHttpActivation (ti_payload i) = Absent) \<and>
      (pl_legacyImport (ti_payload i) \<noteq> Absent \<longrightarrow>
            (\<exists>m. pl_legacyImport (ti_payload i) = Valid m \<and> lm_activation m = LActive \<and>
               ((\<exists>a. pl_legacyHttpActivation (ti_payload i) = Valid a \<and>
                     lh_stage a = StageActive \<and> ti_gid i = Some (lh_engineTaskId a)) \<or>
                (\<exists>a. pl_legacyBtActivation (ti_payload i) = Valid a \<and>
                     lb_stage a \<in> {Bound, StageActive} \<and> ti_gid i = Some (lb_engineTaskId a)))))"
    if "canResume t" and "i \<in> set (dt_instances t)" for i
  proof -
    have act: "\<not> legacyInstanceInactive i"
      using that by (auto simp: canResume_def isLegacyImportInactive_def)
    have own: "hasOwn f \<longleftrightarrow> f \<noteq> Absent" for f :: "'a field"
      by (simp add: hasOwn_def split: field.split)
    show ?thesis
      using act legacyInstance_bound [OF act]
      by (auto simp: legacyInstanceInactive_def hasOwn_def split: field.splits)
  qed
  show ?thesis
    using hasLegacyImport_no_replay [OF assms] assms bound
    by (simp add: isCompletedDirectOutput_def assertLegacyTaskNotRecreated_def)
qed

section \<open>Concrete tasks for the witnesses\<close>

definition empty_payload :: payload where
  "empty_payload = \<lparr> pl_legacyImport = Absent, pl_legacyHttpActivation = Absent,
     pl_legacyBtActivation = Absent, pl_directReplay = Absent, pl_btFinalizeUpload = Absent,
     pl_btStorageLayout = Absent \<rparr>"

definition example_instance :: "TaskInstancePhase \<Rightarrow> string option \<Rightarrow> TaskInstance" where
  "example_instance phase gid =
   \<lparr> ti_instanceId = ''i1'', ti_motrixId = ''m1'', ti_gid = gid, ti_phase = phase,
     ti_status = Downloading, ti_progress = 0, ti_totalBytes = 0, ti_downloadedBytes = 0,
     ti_uploadedBytes = 0, ti_diskPath = ''/d/f'', ti_transitionPhase = Idle, ti_uris = [],
     ti_uriHash = None, ti_payload = empty_payload, ti_createdAt = 1, ti_updatedAt = 1 \<rparr>"

definition example_task :: "TaskType \<Rightarrow> TaskKind \<Rightarrow> TaskInstance list \<Rightarrow> DownloadTask" where
  "example_task ty kind insts =
     makeDownloadTask ''m1'' ''f'' ty kind ''/d'' 1 1 ''f'' ''f'' ''/d/f'' ''/d/f'' UserSource None insts"

lemmas example_defs = example_task_def makeDownloadTask_def example_instance_def empty_payload_def

lemma retry_kind_sound_witness:
  "getTaskRetryKind ((example_task Bt KBt []) \<lparr> dt_status := Error, dt_torrentMetaPath := Some ''s'' \<rparr>)
     = Some TorrentReadd \<and>
   dt_type ((example_task Bt KBt []) \<lparr> dt_status := Error, dt_torrentMetaPath := Some ''s'' \<rparr>) \<in> {Bt, Magnet}"
proof -
  let ?t = "(example_task Bt KBt []) \<lparr> dt_status := Error, dt_torrentMetaPath := Some ''s'' \<rparr>"
  have k: "getTaskRetryKind ?t = Some TorrentReadd"
    by (simp add: example_defs getTaskRetryKind_def canRetry_def canRebuildTaskInputs_def
        isMediaKind_def isTorrentLike_def isTorrentLikeType_def hasLegacyImport_def)
  show ?thesis using retry_kind_sound [OF k] k by simp
qed

definition example_legacy_instance :: TaskInstance where
  "example_legacy_instance =
     (example_instance HttpDownload (Some ''00000000000000a1''))
       \<lparr> ti_payload := empty_payload
           \<lparr> pl_legacyImport := Valid \<lparr> lm_activation = LActive, lm_storagePolicy = LegacyHttpInPlace,
               lm_selectionKnown = True, lm_selectedFiles = [], lm_origin = None \<rparr>,
             pl_legacyHttpActivation := Valid \<lparr> lh_stage = StageActive,
               lh_engineTaskId = ''00000000000000a1'', lh_targetPath = ''/d/f'', lh_saveDir = ''/d'',
               lh_uriDigest = [] \<rparr> \<rparr> \<rparr>"

lemma legacy_import_fail_closed_witness:
  "canResume ((example_task Http KDirect [example_legacy_instance]) \<lparr> dt_status := Paused \<rparr>) \<and>
   \<not> canOfferRetry ((example_task Http KDirect [example_legacy_instance]) \<lparr> dt_status := Paused \<rparr>)"
proof -
  let ?t = "(example_task Http KDirect [example_legacy_instance]) \<lparr> dt_status := Paused \<rparr>"
  have l: "hasLegacyImport (dt_instances ?t)"
    by (simp add: example_defs example_legacy_instance_def hasLegacyImport_def hasOwn_def)
  have r: "canResume ?t"
    by (simp add: example_defs example_legacy_instance_def canResume_def isLegacyImportInactive_def
        legacyInstanceInactive_def httpBindingInactive_def hasOwn_def safeParse_def)
  show ?thesis using legacy_import_fail_closed [OF l] r by blast
qed

section \<open>Quarantined engine ids\<close>

lemma quarantineInstance_mono: "set acc \<subseteq> set (quarantineInstance acc i)"
  by (auto simp: quarantineInstance_def sadd_gid_def Let_def split: option.splits if_splits)

lemma quarantineInstance_distinct: "distinct acc \<Longrightarrow> distinct (quarantineInstance acc i)"
  by (auto simp: quarantineInstance_def sadd_gid_def Let_def split: option.splits if_splits)

lemma quarantineInstance_covers:
  "ti_gid i = Some g \<Longrightarrow> g \<noteq> [] \<Longrightarrow> g \<in> set (quarantineInstance acc i)"
  "rawEngineTaskId lb_engineTaskId (pl_legacyBtActivation (ti_payload i)) = Some g \<Longrightarrow>
     isEngineGid g \<Longrightarrow> g \<in> set (quarantineInstance acc i)"
  "rawEngineTaskId lh_engineTaskId (pl_legacyHttpActivation (ti_payload i)) = Some g \<Longrightarrow>
     isEngineGid g \<Longrightarrow> g \<in> set (quarantineInstance acc i)"
  by (auto simp: quarantineInstance_def sadd_gid_def Let_def split: option.splits if_splits)

lemma quarantine_foldl_mono: "set acc \<subseteq> set (foldl quarantineInstance acc insts)"
proof (induction insts arbitrary: acc)
  case (Cons i insts)
  then show ?case using quarantineInstance_mono [of acc i] by fastforce
qed simp

lemma quarantine_foldl_covers:
  assumes "i \<in> set insts" and "\<And>acc. g \<in> set (quarantineInstance acc i)"
  shows "g \<in> set (foldl quarantineInstance acc insts)"
  using assms
proof (induction insts arbitrary: acc)
  case (Cons j insts)
  then show ?case using quarantine_foldl_mono [of "quarantineInstance acc j" insts] by auto
qed simp

lemma distinct_quarantined: "distinct (getLegacyQuarantinedGids insts)"
proof -
  have "distinct acc \<Longrightarrow> distinct (foldl quarantineInstance acc insts)" for acc
    by (induction insts arbitrary: acc) (auto simp: quarantineInstance_distinct)
  then show ?thesis by (simp add: getLegacyQuarantinedGids_def)
qed

lemma quarantined_bound_gid:
  assumes "isLegacyImportInactive insts" and "i \<in> set insts" and "ti_gid i = Some g" and "g \<noteq> []"
  shows "g \<in> set (getLegacyQuarantinedGids insts)"
  using assms quarantine_foldl_covers [of i insts g] quarantineInstance_covers(1) [of i g]
  by (simp add: getLegacyQuarantinedGids_def)

lemma quarantined_reserved_gid:
  assumes "isLegacyImportInactive insts" and "i \<in> set insts" and "isEngineGid g"
    and "rawEngineTaskId lb_engineTaskId (pl_legacyBtActivation (ti_payload i)) = Some g \<or>
         rawEngineTaskId lh_engineTaskId (pl_legacyHttpActivation (ti_payload i)) = Some g"
  shows "g \<in> set (getLegacyQuarantinedGids insts)"
  using assms quarantine_foldl_covers [of i insts g] quarantineInstance_covers(2,3) [of i g]
  by (auto simp: getLegacyQuarantinedGids_def)

end
