(* ===== verification/Task_Lifecycle.thy ===== *)
theory Task_Lifecycle
  imports Task_Model
begin

text \<open>
  How a task changes when the engine reports or the application ends it:
  \<open>task/apply-terminal-transition.ts\<close>, \<open>task/task-instance.ts\<close>,
  \<open>task/normalize-terminal-runtime-metrics.ts\<close>, \<open>task/non-zero-merge.ts\<close>,
  \<open>task/bt-upload-settlement.ts\<close>, \<open>shared/utils/share-ratio.ts\<close>,
  \<open>task/merge-engine-task.ts\<close> and the small decision functions the poll loop consults
  (\<open>active-downloads.ts\<close>, \<open>should-evict-from-engine.ts\<close>,
  \<open>should-trigger-transition-save.ts\<close>, \<open>should-skip-engine-completion-finalize.ts\<close>,
  \<open>slim-task-for-broadcast.ts\<close>).
\<close>

section \<open>Terminal metadata\<close>

record TerminalFields =
  tf_status :: TaskStatus
  tf_finishedAt :: "int option"
  tf_errorMessage :: "string option"
  tf_errorCode :: "string option"
  tf_errorDetailKey :: "string option"
  tf_errorDetailParams :: "(string \<times> string) list option"
  tf_diagnosisRevision :: int

text \<open>
  An optional field of the input is \<open>None\<close> when it is not provided and
  \<open>Some None\<close> when it is \<open>null\<close>; a \<open>finishedAt\<close> that is absent, \<open>null\<close> or not
  finite is \<open>None\<close>.
\<close>

record TerminalTransitionInput =
  in_finishedAt :: "int option"
  in_errorMessage :: "string option option"
  in_errorCode :: "string option option"
  in_errorDetailKey :: "string option option"
  in_errorDetailParams :: "(string \<times> string) list option option"
  in_diagnosisRevision :: "int option"

definition no_input :: TerminalTransitionInput where
  "no_input = \<lparr> in_finishedAt = None, in_errorMessage = None, in_errorCode = None,
     in_errorDetailKey = None, in_errorDetailParams = None, in_diagnosisRevision = None \<rparr>"

definition clearedFields :: "TaskStatus \<Rightarrow> TerminalFields" where
  "clearedFields s = \<lparr> tf_status = s, tf_finishedAt = None, tf_errorMessage = None,
     tf_errorCode = None, tf_errorDetailKey = None, tf_errorDetailParams = None,
     tf_diagnosisRevision = 0 \<rparr>"

text \<open>The seven columns of a persisted row, or the defaults of a task that has no row yet.\<close>

definition terminalFieldsFromRow :: "TerminalFields option \<Rightarrow> TerminalFields" where
  "terminalFieldsFromRow row = (case row of None \<Rightarrow> clearedFields Queued | Some r \<Rightarrow> r)"

definition validFinishedAt :: "int option \<Rightarrow> bool" where
  "validFinishedAt v \<longleftrightarrow> (case v of Some n \<Rightarrow> n > 0 | None \<Rightarrow> False)"

text \<open>
  \<open>resolve\<close> at a nullable field, whose cleared value is \<open>null\<close>, and at the revision
  counter, whose cleared value is 0.
\<close>

definition resolve_nullable :: "bool \<Rightarrow> 'a option option \<Rightarrow> 'a option \<Rightarrow> 'a option" where
  "resolve_nullable isCompleting incoming current =
     (if isCompleting then (case incoming of Some (Some v) \<Rightarrow> Some v | _ \<Rightarrow> None)
      else case incoming of Some v \<Rightarrow> v | None \<Rightarrow> current)"

definition resolve_number :: "bool \<Rightarrow> int option \<Rightarrow> int \<Rightarrow> int" where
  "resolve_number isCompleting incoming current =
     (if isCompleting then (case incoming of Some v \<Rightarrow> v | None \<Rightarrow> 0)
      else case incoming of Some v \<Rightarrow> v | None \<Rightarrow> current)"

definition applyTerminalTransition ::
  "TerminalFields \<Rightarrow> TaskStatus \<Rightarrow> TerminalTransitionInput \<Rightarrow> int \<Rightarrow> TerminalFields" where
  "applyTerminalTransition current nextStatus incoming now =
     (if \<not> isTerminalTaskStatus nextStatus then clearedFields nextStatus
      else if tf_status current = nextStatus then current
      else let c = (nextStatus = Completed) in
        \<lparr> tf_status = nextStatus,
          tf_finishedAt = (if validFinishedAt (in_finishedAt incoming) then in_finishedAt incoming
                           else Some now),
          tf_errorMessage = resolve_nullable c (in_errorMessage incoming) (tf_errorMessage current),
          tf_errorCode = resolve_nullable c (in_errorCode incoming) (tf_errorCode current),
          tf_errorDetailKey =
            resolve_nullable c (in_errorDetailKey incoming) (tf_errorDetailKey current),
          tf_errorDetailParams =
            resolve_nullable c (in_errorDetailParams incoming) (tf_errorDetailParams current),
          tf_diagnosisRevision =
            resolve_number c (in_diagnosisRevision incoming) (tf_diagnosisRevision current) \<rparr>)"

definition terminalFields :: "DownloadTask \<Rightarrow> TerminalFields" where
  "terminalFields t = \<lparr> tf_status = dt_status t, tf_finishedAt = dt_finishedAt t,
     tf_errorMessage = dt_errorMessage t, tf_errorCode = dt_errorCode t,
     tf_errorDetailKey = dt_errorDetailKey t, tf_errorDetailParams = dt_errorDetailParams t,
     tf_diagnosisRevision = dt_diagnosisRevision t \<rparr>"

text \<open>\<open>Object.assign(task, fields)\<close>\<close>

definition assignTerminal :: "DownloadTask \<Rightarrow> TerminalFields \<Rightarrow> DownloadTask" where
  "assignTerminal t f = t \<lparr> dt_status := tf_status f, dt_finishedAt := tf_finishedAt f,
     dt_errorMessage := tf_errorMessage f, dt_errorCode := tf_errorCode f,
     dt_errorDetailKey := tf_errorDetailKey f, dt_errorDetailParams := tf_errorDetailParams f,
     dt_diagnosisRevision := tf_diagnosisRevision f \<rparr>"

section \<open>Instances\<close>

definition truthy :: "string option \<Rightarrow> bool" where
  "truthy s \<longleftrightarrow> (case s of Some x \<Rightarrow> x \<noteq> [] | None \<Rightarrow> False)"

definition addGid :: "string jsetof \<Rightarrow> string option \<Rightarrow> string jsetof" where
  "addGid s g = (case g of Some x \<Rightarrow> if x = [] then s else sadd s x | None \<Rightarrow> s)"

definition collectTaskGids :: "DownloadTask \<Rightarrow> string jsetof" where
  "collectTaskGids t =
     (let gids = foldl (\<lambda>s i. addGid s (ti_gid i)) [] (dt_instances t)
      in if dt_engineTaskId t = [] then gids else sadd gids (dt_engineTaskId t))"

fun PHASE_PRIORITY :: "TaskInstancePhase \<Rightarrow> nat" where
  "PHASE_PRIORITY FfmpegMux = 100"
| "PHASE_PRIORITY BtDownload = 90"
| "PHASE_PRIORITY HttpDownload = 80"
| "PHASE_PRIORITY MagnetMetadataResolution = 70"
| "PHASE_PRIORITY HlsSegment = 50"
| "PHASE_PRIORITY HlsSubtitle = 40"
| "PHASE_PRIORITY HlsAudio = 30"

text \<open>
  The loop over \<open>instances[1..]\<close>: \<open>best\<close> is the index of the current choice. The code
  returns the object itself, through which its callers then write; the index stands for it.
\<close>

fun pick_loop :: "TaskInstance list \<Rightarrow> nat \<Rightarrow> nat \<Rightarrow> nat \<Rightarrow> nat" where
  "pick_loop [] i best bestPriority = best"
| "pick_loop (candidate # rest) i best bestPriority =
     (if PHASE_PRIORITY (ti_phase candidate) > bestPriority
      then pick_loop rest (Suc i) i (PHASE_PRIORITY (ti_phase candidate))
      else pick_loop rest (Suc i) best bestPriority)"

definition pickPrimaryIndex :: "TaskInstance list \<Rightarrow> nat option" where
  "pickPrimaryIndex insts =
     (case insts of
        [] \<Rightarrow> None
      | first # rest \<Rightarrow> Some (pick_loop rest 1 0 (PHASE_PRIORITY (ti_phase first))))"

definition pickPrimaryInstance :: "TaskInstance list \<Rightarrow> TaskInstance option" where
  "pickPrimaryInstance insts = (case pickPrimaryIndex insts of None \<Rightarrow> None | Some k \<Rightarrow> Some (insts ! k))"

definition setTaskTransitionPhase :: "DownloadTask \<Rightarrow> TransitionPhase \<Rightarrow> DownloadTask" where
  "setTaskTransitionPhase t ph =
     t \<lparr> dt_transitionPhase := ph,
         dt_instances := map (\<lambda>i. i \<lparr> ti_transitionPhase := ph \<rparr>) (dt_instances t) \<rparr>"

definition syncPrimaryInstanceIdentity :: "DownloadTask \<Rightarrow> DownloadTask" where
  "syncPrimaryInstanceIdentity t =
     (case pickPrimaryIndex (dt_instances t) of
        None \<Rightarrow> t
      | Some k \<Rightarrow>
          t \<lparr> dt_instances := (dt_instances t) [k := (dt_instances t ! k)
                \<lparr> ti_gid := (if dt_engineTaskId t = [] then None else Some (dt_engineTaskId t)),
                  ti_status := dt_status t \<rparr>] \<rparr>)"

definition syncTerminalInstanceStatus :: "DownloadTask \<Rightarrow> TaskStatus \<Rightarrow> DownloadTask" where
  "syncTerminalInstanceStatus t s =
     t \<lparr> dt_instances := map (\<lambda>i. i \<lparr> ti_status := s \<rparr>) (dt_instances t) \<rparr>"

definition applyTerminalStatusToTask ::
  "DownloadTask \<Rightarrow> TaskStatus \<Rightarrow> TerminalTransitionInput \<Rightarrow> int \<Rightarrow> DownloadTask" where
  "applyTerminalStatusToTask t s incoming now =
     syncTerminalInstanceStatus
       (assignTerminal t (applyTerminalTransition (terminalFields t) s incoming now)) s"

definition applyCompletedTaskAfterRename :: "DownloadTask \<Rightarrow> string \<Rightarrow> int \<Rightarrow> DownloadTask" where
  "applyCompletedTaskAfterRename t finalDiskPath completedAt =
     (let t1 = t \<lparr> dt_diskPath := finalDiskPath \<rparr>;
          t2 = setTaskTransitionPhase t1 Idle;
          t3 = syncTerminalInstanceStatus t2 Completed;
          t4 = t3 \<lparr> dt_instances := map (\<lambda>i. i \<lparr> ti_diskPath := finalDiskPath \<rparr>) (dt_instances t3) \<rparr>
      in assignTerminal t4 (applyTerminalTransition (terminalFields t4) Completed no_input completedAt))"

section \<open>Runtime metrics\<close>

definition normalizeTerminalRuntimeMetrics :: "DownloadTask \<Rightarrow> DownloadTask" where
  "normalizeTerminalRuntimeMetrics t =
     (if \<not> isTerminalTaskStatus (dt_status t) \<and> dt_status t \<noteq> Finalizing then t
      else t \<lparr> dt_downloadSpeed := 0, dt_uploadSpeed := 0, dt_etaSeconds := 0, dt_connections := 0 \<rparr>)"

text \<open>Zero never overwrites a non-zero mirror field.\<close>

definition nonzero_or :: "int \<Rightarrow> int \<Rightarrow> int" where
  "nonzero_or incoming existing = (if incoming = 0 \<and> existing \<noteq> 0 then existing else incoming)"

definition nonZeroMerge :: "DownloadTask \<Rightarrow> DownloadTask \<Rightarrow> DownloadTask" where
  "nonZeroMerge existing incoming =
     incoming \<lparr> dt_totalBytes := nonzero_or (dt_totalBytes incoming) (dt_totalBytes existing),
       dt_downloadedBytes := nonzero_or (dt_downloadedBytes incoming) (dt_downloadedBytes existing),
       dt_sizeWhenDone := nonzero_or (dt_sizeWhenDone incoming) (dt_sizeWhenDone existing),
       dt_fileCount := nonzero_or (dt_fileCount incoming) (dt_fileCount existing),
       dt_pieceLength := nonzero_or (dt_pieceLength incoming) (dt_pieceLength existing) \<rparr>"

section \<open>Upload accounting\<close>

text \<open>Byte counts are finite here, so only the sign tests of \<open>shareRatio\<close> remain.\<close>

definition shareRatio :: "int \<Rightarrow> int \<Rightarrow> rat" where
  "shareRatio uploadedBytes totalBytes =
     (if totalBytes > 0 then of_int (max 0 uploadedBytes) / of_int totalBytes else 0)"

definition uploadMarker :: "string \<Rightarrow> TaskInstance \<Rightarrow> int option" where
  "uploadMarker gid i =
     (case pl_btFinalizeUpload (ti_payload i) of
        Valid v \<Rightarrow> if fu_gid v = gid \<and> fu_bytes v \<ge> 0 then Some (fu_bytes v) else None
      | _ \<Rightarrow> None)"

fun accountedUpload :: "TaskInstance list \<Rightarrow> string \<Rightarrow> int option" where
  "accountedUpload [] gid = None"
| "accountedUpload (i # rest) gid =
     (case uploadMarker gid i of Some b \<Rightarrow> Some b | None \<Rightarrow> accountedUpload rest gid)"

definition unsettledBtUpload :: "TaskInstance list \<Rightarrow> string \<Rightarrow> int \<Rightarrow> int" where
  "unsettledBtUpload insts gid uploadedBytes =
     max 0 (uploadedBytes - (case accountedUpload insts gid of Some b \<Rightarrow> b | None \<Rightarrow> 0))"

text \<open>\<open>settleBtUpload\<close>; the \<open>upload\<close> argument is \<open>None\<close> when it is not a finite number.\<close>

definition settle_upload :: "DownloadTask \<Rightarrow> int option \<Rightarrow> int" where
  "settle_upload t upload =
     max (case upload of Some u \<Rightarrow> u | None \<Rightarrow> 0)
         (dt_uploadedBytes t - dt_uploadedBytesBaseline t +
          (case accountedUpload (dt_instances t) (dt_engineTaskId t) of Some b \<Rightarrow> b | None \<Rightarrow> 0))"

definition settle_previous :: "DownloadTask \<Rightarrow> int option \<Rightarrow> bool \<Rightarrow> int" where
  "settle_previous t upload recovering =
     (case accountedUpload (dt_instances t) (dt_engineTaskId t) of
        Some b \<Rightarrow> b
      | None \<Rightarrow> if recovering \<and> pickPrimaryIndex (dt_instances t) \<noteq> None
                then settle_upload t upload else 0)"

definition settle_marker :: "string \<Rightarrow> int \<Rightarrow> TaskInstance \<Rightarrow> TaskInstance" where
  "settle_marker gid bytes i =
     i \<lparr> ti_payload := (ti_payload i)
           \<lparr> pl_btFinalizeUpload := Valid \<lparr> fu_gid = gid, fu_bytes = bytes \<rparr> \<rparr> \<rparr>"

definition settleBtUpload :: "DownloadTask \<Rightarrow> int option \<Rightarrow> bool \<Rightarrow> DownloadTask" where
  "settleBtUpload t upload recovering =
     (let u = settle_upload t upload;
          previous = settle_previous t upload recovering;
          baseline = dt_uploadedBytesBaseline t + max 0 (u - previous);
          t1 = t \<lparr> dt_uploadedBytesBaseline := baseline, dt_uploadedBytes := baseline,
                   dt_bt := map_option (\<lambda>b. b \<lparr> bt_ratio := shareRatio baseline (dt_totalBytes t) \<rparr>) (dt_bt t) \<rparr>
      in case pickPrimaryIndex (dt_instances t) of
           None \<Rightarrow> t1
         | Some k \<Rightarrow> t1 \<lparr> dt_instances := (dt_instances t)
             [k := settle_marker (dt_engineTaskId t) (max previous u) (dt_instances t ! k)] \<rparr>)"

section \<open>Merging an engine snapshot\<close>

text \<open>The three early returns of \<open>mergeEngineTask\<close>.\<close>

definition keepsExisting :: "DownloadTask \<Rightarrow> DownloadTask \<Rightarrow> bool" where
  "keepsExisting existing engineTask \<longleftrightarrow>
     dt_storageOperation existing \<or>
     (dt_engineTaskId existing = dt_engineTaskId engineTask \<and> dt_status existing = Error \<and>
      dt_status engineTask = Paused \<and> hasRetainedHttpRequestContext existing) \<or>
     (dt_engineTaskId existing = dt_engineTaskId engineTask \<and>
      (isCompletedDirectOutput existing \<or>
       (hasLegacyImport (dt_instances existing) \<and> dt_status existing \<in> {Completed, Error})))"

definition merge_progress :: "DownloadTask \<Rightarrow> rat" where
  "merge_progress p =
     (if dt_totalBytes p > 0 then of_int (dt_downloadedBytes p) / of_int (dt_totalBytes p) else 0)"

definition merge_nextStatus :: "DownloadTask \<Rightarrow> DownloadTask \<Rightarrow> TaskStatus" where
  "merge_nextStatus existing p =
     (if dt_transitionPhase existing \<noteq> Idle \<or>
         (hasLegacyImport (dt_instances existing) \<and> dt_type existing = Http \<and> dt_status p = Completed)
      then dt_status existing else dt_status p)"

definition merge_bt :: "DownloadTask \<Rightarrow> bt_extension \<Rightarrow> rat \<Rightarrow> bt_extension" where
  "merge_bt existing b ratio =
     (let b1 = b \<lparr> bt_isPrivate := (case dt_bt existing of Some e \<Rightarrow> bt_isPrivate e | None \<Rightarrow> bt_isPrivate b) \<rparr>;
          b2 = (if hasLegacyImport (dt_instances existing)
                then b1 \<lparr> bt_selectedFiles := (case dt_bt existing of Some e \<Rightarrow> bt_selectedFiles e | None \<Rightarrow> []),
                          bt_announceList := (case dt_bt existing of Some e \<Rightarrow> bt_announceList e | None \<Rightarrow> []),
                          bt_trackers := (case dt_bt existing of Some e \<Rightarrow> bt_trackers e | None \<Rightarrow> []) \<rparr>
                else b1)
      in b2 \<lparr> bt_ratio := ratio \<rparr>)"

definition merge_uploaded :: "DownloadTask \<Rightarrow> DownloadTask \<Rightarrow> int" where
  "merge_uploaded existing engineTask =
     dt_uploadedBytesBaseline existing +
     unsettledBtUpload (dt_instances existing) (dt_engineTaskId engineTask) (dt_uploadedBytes engineTask)"

definition merge_fields :: "DownloadTask \<Rightarrow> DownloadTask \<Rightarrow> int \<Rightarrow> DownloadTask" where
  "merge_fields existing engineTask now =
     (let p = nonZeroMerge existing engineTask;
          up = merge_uploaded existing engineTask;
          fields = applyTerminalTransition (terminalFields existing) (merge_nextStatus existing p)
            (no_input \<lparr> in_finishedAt := dt_finishedAt p, in_errorMessage := Some (dt_errorMessage p),
                        in_errorCode := Some (dt_errorCode p) \<rparr>) now;
          bt = (case dt_bt p of Some b \<Rightarrow> Some b | None \<Rightarrow> dt_bt existing)
      in (assignTerminal existing fields)
         \<lparr> dt_progress := merge_progress p, dt_totalBytes := dt_totalBytes p,
           dt_sizeWhenDone := dt_sizeWhenDone p, dt_downloadedBytes := dt_downloadedBytes p,
           dt_downloadSpeed := dt_downloadSpeed p, dt_uploadSpeed := dt_uploadSpeed p,
           dt_etaSeconds := dt_etaSeconds p, dt_connections := dt_connections p,
           dt_pieceLength := dt_pieceLength p, dt_uploadedBytes := up,
           dt_fileCount := dt_fileCount p,
           dt_infoHash := (case dt_infoHash p of Some h \<Rightarrow> Some h | None \<Rightarrow> dt_infoHash existing),
           dt_uris := (if \<not> hasLegacyImport (dt_instances existing) \<and> dt_uris p \<noteq> []
                       then dt_uris p else dt_uris existing),
           dt_bt := map_option (\<lambda>b. merge_bt existing b (shareRatio up (dt_totalBytes p))) bt,
           dt_updatedAt := now \<rparr>)"

definition mergeEngineTask :: "DownloadTask \<Rightarrow> DownloadTask \<Rightarrow> int \<Rightarrow> DownloadTask" where
  "mergeEngineTask existing engineTask now =
     (if keepsExisting existing engineTask then existing
      else let merged = merge_fields existing engineTask now in
        if dt_status merged = Completed \<or> dt_status merged = Error
        then syncTerminalInstanceStatus merged (dt_status merged) else merged)"

section \<open>The primary instance\<close>

lemma pick_loop_best:
  assumes "length ds = i" and "best < i" and "bp = PHASE_PRIORITY (ti_phase (ds ! best))"
    and "\<And>k. k < i \<Longrightarrow> PHASE_PRIORITY (ti_phase (ds ! k)) \<le> bp"
    and "\<And>k. k < best \<Longrightarrow> PHASE_PRIORITY (ti_phase (ds ! k)) < bp"
  shows "let k = pick_loop rest i best bp in
    k < length (ds @ rest) \<and>
    (\<forall>j < length (ds @ rest). PHASE_PRIORITY (ti_phase ((ds @ rest) ! j))
       \<le> PHASE_PRIORITY (ti_phase ((ds @ rest) ! k))) \<and>
    (\<forall>j < k. PHASE_PRIORITY (ti_phase ((ds @ rest) ! j))
       < PHASE_PRIORITY (ti_phase ((ds @ rest) ! k)))"
  using assms
proof (induction rest arbitrary: ds i best bp)
  case Nil
  then show ?case by (auto simp: Let_def)
next
  case (Cons c rest)
  have less: "j < length ds \<or> j = length ds" if "j < Suc i" for j
    using that Cons.prems(1) by auto
  show ?case
  proof (cases "PHASE_PRIORITY (ti_phase c) > bp")
    case True
    have "let k = pick_loop rest (Suc i) i (PHASE_PRIORITY (ti_phase c)) in
      k < length ((ds @ [c]) @ rest) \<and>
      (\<forall>j < length ((ds @ [c]) @ rest). PHASE_PRIORITY (ti_phase (((ds @ [c]) @ rest) ! j))
         \<le> PHASE_PRIORITY (ti_phase (((ds @ [c]) @ rest) ! k))) \<and>
      (\<forall>j < k. PHASE_PRIORITY (ti_phase (((ds @ [c]) @ rest) ! j))
         < PHASE_PRIORITY (ti_phase (((ds @ [c]) @ rest) ! k)))"
    proof (rule Cons.IH)
      fix k assume "k < Suc i"
      then show "PHASE_PRIORITY (ti_phase ((ds @ [c]) ! k)) \<le> PHASE_PRIORITY (ti_phase c)"
        using less [of k] Cons.prems(1) Cons.prems(4) [of k] True by (auto simp: nth_append)
    next
      fix k assume "k < i"
      then show "PHASE_PRIORITY (ti_phase ((ds @ [c]) ! k)) < PHASE_PRIORITY (ti_phase c)"
        using Cons.prems(1) Cons.prems(4) [of k] True by (auto simp: nth_append)
    qed (use Cons.prems(1) in \<open>auto simp: nth_append\<close>)
    then show ?thesis using True by simp
  next
    case False
    have "let k = pick_loop rest (Suc i) best bp in
      k < length ((ds @ [c]) @ rest) \<and>
      (\<forall>j < length ((ds @ [c]) @ rest). PHASE_PRIORITY (ti_phase (((ds @ [c]) @ rest) ! j))
         \<le> PHASE_PRIORITY (ti_phase (((ds @ [c]) @ rest) ! k))) \<and>
      (\<forall>j < k. PHASE_PRIORITY (ti_phase (((ds @ [c]) @ rest) ! j))
         < PHASE_PRIORITY (ti_phase (((ds @ [c]) @ rest) ! k)))"
    proof (rule Cons.IH)
      fix k assume "k < Suc i"
      then show "PHASE_PRIORITY (ti_phase ((ds @ [c]) ! k)) \<le> bp"
        using less [of k] Cons.prems(1) Cons.prems(4) [of k] False by (auto simp: nth_append)
    next
      fix k assume "k < best"
      then show "PHASE_PRIORITY (ti_phase ((ds @ [c]) ! k)) < bp"
        using Cons.prems(1,2) Cons.prems(5) [of k] by (auto simp: nth_append)
    qed (use Cons.prems(1,2,3) in \<open>auto simp: nth_append\<close>)
    then show ?thesis using False by simp
  qed
qed

lemma pickPrimaryIndex_best:
  assumes "pickPrimaryIndex insts = Some k"
  shows "k < length insts \<and>
    (\<forall>j < length insts. PHASE_PRIORITY (ti_phase (insts ! j)) \<le> PHASE_PRIORITY (ti_phase (insts ! k))) \<and>
    (\<forall>j < k. PHASE_PRIORITY (ti_phase (insts ! j)) < PHASE_PRIORITY (ti_phase (insts ! k)))"
proof (cases insts)
  case Nil
  then show ?thesis using assms by (simp add: pickPrimaryIndex_def)
next
  case (Cons f rest)
  then have k: "k = pick_loop rest 1 0 (PHASE_PRIORITY (ti_phase f))"
    using assms by (simp add: pickPrimaryIndex_def)
  show ?thesis
    using pick_loop_best [of "[f]" 1 0 "PHASE_PRIORITY (ti_phase f)" rest] k Cons
    by (simp add: Let_def)
qed

lemma pickPrimaryIndex_None [simp]: "pickPrimaryIndex insts = None \<longleftrightarrow> insts = []"
  by (simp add: pickPrimaryIndex_def split: list.split)

text \<open>
  the primary instance, whose engine id and status stand for the task, exists as soon as
  there is an instance, has the highest phase priority of all of them, and is the first of
  those that share it.
\<close>
theorem primary_is_highest_phase:
  "(pickPrimaryIndex insts = None \<longleftrightarrow> insts = []) \<and>
   (case pickPrimaryIndex insts of
      None \<Rightarrow> pickPrimaryInstance insts = None
    | Some k \<Rightarrow> k < length insts \<and> pickPrimaryInstance insts = Some (insts ! k) \<and>
        list_all (\<lambda>i. PHASE_PRIORITY (ti_phase i) \<le> PHASE_PRIORITY (ti_phase (insts ! k))) insts \<and>
        list_all (\<lambda>i. PHASE_PRIORITY (ti_phase i) < PHASE_PRIORITY (ti_phase (insts ! k))) (take k insts))"
proof (cases "pickPrimaryIndex insts")
  case None
  then have "insts = []" by simp
  then show ?thesis by (simp add: pickPrimaryInstance_def pickPrimaryIndex_def)
next
  case (Some k)
  show ?thesis
    using pickPrimaryIndex_best [OF Some] Some
    by (auto simp: pickPrimaryInstance_def list_all_length)
qed

section \<open>The terminal-metadata invariant\<close>

text \<open>
  A task that is not terminal carries no terminal metadata; a terminal one has a positive
  completion time.
\<close>

definition terminal_ok :: "TerminalFields \<Rightarrow> bool" where
  "terminal_ok f \<longleftrightarrow>
     (if isTerminalTaskStatus (tf_status f) then validFinishedAt (tf_finishedAt f)
      else f = clearedFields (tf_status f))"

lemma applyTerminalTransition_status [simp]:
  "tf_status (applyTerminalTransition c s i now) = s"
  by (simp add: applyTerminalTransition_def clearedFields_def Let_def)

lemma applyTerminalTransition_ok:
  assumes "terminal_ok c" and "0 < now"
  shows "terminal_ok (applyTerminalTransition c s i now)"
proof (cases "isTerminalTaskStatus s \<and> tf_status c \<noteq> s")
  case True
  then show ?thesis
    using assms(2)
    by (simp add: applyTerminalTransition_def Let_def terminal_ok_def validFinishedAt_def)
next
  case False
  then show ?thesis
    using assms(1)
    by (auto simp: applyTerminalTransition_def terminal_ok_def clearedFields_def)
qed

lemma applyTerminalTransition_recommit:
  "isTerminalTaskStatus (tf_status c) \<Longrightarrow> applyTerminalTransition c (tf_status c) i now = c"
  by (simp add: applyTerminalTransition_def)

lemma terminalFields_assign [simp]: "terminalFields (assignTerminal t f) = f"
  by (simp add: terminalFields_def assignTerminal_def)

lemma terminalFields_instances [simp]:
  "terminalFields (t \<lparr> dt_instances := is \<rparr>) = terminalFields t"
  by (simp add: terminalFields_def)

lemma sync_frame [simp]:
  "terminalFields (syncTerminalInstanceStatus t s) = terminalFields t"
  "dt_status (syncTerminalInstanceStatus t s) = dt_status t"
  by (simp_all add: syncTerminalInstanceStatus_def terminalFields_def)

lemma sync_instances [simp]:
  "dt_instances (syncTerminalInstanceStatus t s) = map (\<lambda>i. i \<lparr> ti_status := s \<rparr>) (dt_instances t)"
  by (simp add: syncTerminalInstanceStatus_def)

lemma assignTerminal_instances [simp]: "dt_instances (assignTerminal t f) = dt_instances t"
  by (simp add: assignTerminal_def)

lemma assignTerminal_status [simp]: "dt_status (assignTerminal t f) = tf_status f"
  by (simp add: assignTerminal_def)

lemma terminalFields_status [simp]: "tf_status (terminalFields t) = dt_status t"
  by (simp add: terminalFields_def)

text \<open>
  The aggregate and its instance rows agree: a terminal task has valid terminal metadata and
  every instance carries the same terminal status (a restart rebuilds the task from the rows).
\<close>

definition terminal_consistent :: "DownloadTask \<Rightarrow> bool" where
  "terminal_consistent t \<longleftrightarrow> terminal_ok (terminalFields t) \<and>
     (isTerminalTaskStatus (dt_status t) \<longrightarrow> list_all (\<lambda>i. ti_status i = dt_status t) (dt_instances t))"

lemma merge_fields_terminal:
  "terminalFields (merge_fields e p now) =
     applyTerminalTransition (terminalFields e) (merge_nextStatus e (nonZeroMerge e p))
       (no_input \<lparr> in_finishedAt := dt_finishedAt p, in_errorMessage := Some (dt_errorMessage p),
                   in_errorCode := Some (dt_errorCode p) \<rparr>) now"
  by (simp add: merge_fields_def Let_def terminalFields_def assignTerminal_def nonZeroMerge_def)

lemma merge_fields_status [simp]:
  "dt_status (merge_fields e p now) = merge_nextStatus e (nonZeroMerge e p)"
  by (simp add: merge_fields_def Let_def)

lemma merge_consistent:
  assumes "terminal_consistent e" and "0 < now"
  shows "terminal_consistent (mergeEngineTask e p now)"
proof (cases "keepsExisting e p")
  case True
  then show ?thesis using assms(1) by (simp add: mergeEngineTask_def)
next
  case False
  have ok: "terminal_ok (terminalFields (merge_fields e p now))"
    unfolding merge_fields_terminal
    using assms by (intro applyTerminalTransition_ok) (simp_all add: terminal_consistent_def)
  show ?thesis
    using False ok
    by (auto simp: mergeEngineTask_def Let_def terminal_consistent_def isTerminalTaskStatus_def
        list_all_iff)
qed

lemma applyTerminalStatus_consistent:
  assumes "terminal_consistent t" and "isTerminalTaskStatus s" and "0 < now"
  shows "terminal_consistent (applyTerminalStatusToTask t s i now)"
  using assms applyTerminalTransition_ok [of "terminalFields t" now s i]
  by (simp add: applyTerminalStatusToTask_def terminal_consistent_def list_all_iff)

lemma applyCompleted_consistent:
  assumes "terminal_consistent t" and "0 < now"
  shows "terminal_consistent (applyCompletedTaskAfterRename t p now)"
proof -
  have f: "terminalFields (t \<lparr> dt_diskPath := p \<rparr>) = terminalFields t"
    "terminalFields (setTaskTransitionPhase t' ph) = terminalFields t'" for t' ph
    by (simp_all add: terminalFields_def setTaskTransitionPhase_def)
  show ?thesis
    using assms applyTerminalTransition_ok [of "terminalFields t" now Completed no_input]
    by (simp add: applyCompletedTaskAfterRename_def Let_def terminal_consistent_def list_all_iff f)
qed

text \<open>
  polling, finishing and failing keep a task consistent. If a task that is not terminal
  carries no terminal metadata, and a terminal one has a completion time and only instance rows
  of the same status, then so it is after merging any engine snapshot, after an explicit
  terminal transition, and after the completion that follows a rename; and re-committing the
  status a terminal task already has leaves its completion time and error untouched.
\<close>
theorem terminal_metadata_invariant:
  assumes "terminal_consistent t" and "0 < now"
  shows "terminal_consistent (mergeEngineTask t engineTask now) \<and>
    terminal_consistent (applyCompletedTaskAfterRename t path now) \<and>
    (isTerminalTaskStatus s \<longrightarrow> terminal_consistent (applyTerminalStatusToTask t s incoming now)) \<and>
    (isTerminalTaskStatus (dt_status t) \<longrightarrow>
       terminalFields (applyTerminalStatusToTask t (dt_status t) incoming now) = terminalFields t)"
  using assms merge_consistent applyCompleted_consistent applyTerminalStatus_consistent
    applyTerminalTransition_recommit [of "terminalFields t" incoming now]
  by (simp add: applyTerminalStatusToTask_def)

lemma example_task_consistent: "terminal_consistent (example_task ty k insts)"
  by (simp add: terminal_consistent_def terminal_ok_def example_task_def makeDownloadTask_def
      terminalFields_def isTerminalTaskStatus_def clearedFields_def)

lemma terminal_metadata_invariant_witness:
  "terminal_consistent (mergeEngineTask (example_task Http KDirect [example_instance HttpDownload None])
     ((example_task Http KDirect []) \<lparr> dt_status := Completed \<rparr>) 5)"
  using terminal_metadata_invariant
    [OF example_task_consistent [of Http KDirect "[example_instance HttpDownload None]"], of 5]
  by simp

text \<open>
  Completing does not always clear: a non-null error message that the caller passes is kept on
  a completed task.
\<close>

lemma completing_keeps_provided_error:
  "tf_errorMessage (applyTerminalTransition (clearedFields Downloading) Completed
     (no_input \<lparr> in_errorMessage := Some (Some e) \<rparr>) now) = Some e"
  by (simp add: applyTerminalTransition_def isTerminalTaskStatus_def clearedFields_def no_input_def
      resolve_nullable_def)

section \<open>Upload accounting across engine ids\<close>

lemma accountedUpload_update:
  assumes "k < length insts" and "list_all (\<lambda>i. uploadMarker gid i = None) (take k insts)"
    and "0 \<le> bytes"
  shows "accountedUpload (insts [k := settle_marker gid bytes (insts ! k)]) gid = Some bytes"
  using assms
proof (induction insts arbitrary: k)
  case (Cons i insts)
  show ?case
  proof (cases k)
    case 0
    then show ?thesis using Cons.prems(3) by (simp add: uploadMarker_def settle_marker_def)
  next
    case (Suc k')
    then show ?thesis using Cons by simp
  qed
qed simp

lemma accountedUpload_nonneg: "accountedUpload insts gid = Some b \<Longrightarrow> 0 \<le> b"
  by (induction insts) (auto simp: uploadMarker_def split: option.splits field.splits if_splits)

lemma settle_previous_nonneg:
  "0 \<le> dt_uploadedBytes t - dt_uploadedBytesBaseline t \<Longrightarrow> 0 \<le> settle_previous t u r"
  by (auto simp: settle_previous_def settle_upload_def split: option.splits dest: accountedUpload_nonneg)

lemma settle_instances:
  "pickPrimaryIndex (dt_instances t) = Some k \<Longrightarrow>
   dt_instances (settleBtUpload t u r) = (dt_instances t)
     [k := settle_marker (dt_engineTaskId t) (max (settle_previous t u r) (settle_upload t u))
       (dt_instances t ! k)]"
  by (simp add: settleBtUpload_def Let_def)

lemma settle_fields:
  "dt_uploadedBytesBaseline (settleBtUpload t u r) =
     dt_uploadedBytesBaseline t + max 0 (settle_upload t u - settle_previous t u r)"
  "dt_uploadedBytes (settleBtUpload t u r) = dt_uploadedBytesBaseline (settleBtUpload t u r)"
  "dt_engineTaskId (settleBtUpload t u r) = dt_engineTaskId t"
  by (simp_all add: settleBtUpload_def Let_def split: option.split)

lemma settle_accounted:
  assumes "pickPrimaryIndex (dt_instances t) = Some k"
    and "list_all (\<lambda>i. uploadMarker (dt_engineTaskId t) i = None) (take k (dt_instances t))"
    and "dt_uploadedBytesBaseline t \<le> dt_uploadedBytes t"
  shows "accountedUpload (dt_instances (settleBtUpload t u r)) (dt_engineTaskId t) =
    Some (max (settle_previous t u r) (settle_upload t u))"
proof -
  have "0 \<le> max (settle_previous t u r) (settle_upload t u)"
    using settle_previous_nonneg [of t u r] assms(3) by simp
  then show ?thesis
    using accountedUpload_update assms(1,2) pickPrimaryIndex_best [OF assms(1)]
    by (simp add: settle_instances)
qed

text \<open>
  settling the upload of an engine id before it is retired counts every byte once. After
  settling, the bytes a later poll reports for the same id add only what exceeds the settled
  amount, so a first settlement leaves the total of any such poll exactly what it was before;
  settling again, with nothing new uploaded, leaves the baseline as it is (a crash between
  settlement and retirement never credits the same id twice); and the baseline never goes down.
\<close>
theorem upload_settled_once:
  assumes "pickPrimaryIndex (dt_instances t) = Some k"
    and "list_all (\<lambda>i. uploadMarker (dt_engineTaskId t) i = None) (take k (dt_instances t))"
    and "dt_uploadedBytesBaseline t \<le> dt_uploadedBytes t"
  shows "dt_uploadedBytesBaseline t \<le> dt_uploadedBytesBaseline (settleBtUpload t u r) \<and>
    dt_uploadedBytesBaseline (settleBtUpload (settleBtUpload t u r) u r2) =
      dt_uploadedBytesBaseline (settleBtUpload t u r) \<and>
    (\<not> r \<and> settle_upload t u \<le> n \<and> settle_previous t u r \<le> n \<longrightarrow>
       dt_uploadedBytesBaseline (settleBtUpload t u r) +
         unsettledBtUpload (dt_instances (settleBtUpload t u r)) (dt_engineTaskId t) n =
       dt_uploadedBytesBaseline t + unsettledBtUpload (dt_instances t) (dt_engineTaskId t) n)"
proof -
  let ?t = "settleBtUpload t u r" and ?u = "settle_upload t u" and ?p = "settle_previous t u r"
  have acc: "accountedUpload (dt_instances ?t) (dt_engineTaskId ?t) = Some (max ?p ?u)"
    using settle_accounted [OF assms] by (simp add: settle_fields)
  have ge: "(case u of Some x \<Rightarrow> x | None \<Rightarrow> 0) \<le> ?u"
    by (simp add: settle_upload_def)
  have again_u: "settle_upload ?t u = max ?p ?u"
    using ge acc by (simp add: settle_upload_def [of ?t] settle_fields(2))
  have again_p: "settle_previous ?t u r2 = max ?p ?u"
    using acc by (simp add: settle_previous_def)
  have twice: "dt_uploadedBytesBaseline (settleBtUpload ?t u r2) = dt_uploadedBytesBaseline ?t"
    using again_u again_p by (simp add: settle_fields(1) [of ?t])
  have p: "?p = (case accountedUpload (dt_instances t) (dt_engineTaskId t) of Some b \<Rightarrow> b | None \<Rightarrow> 0)"
    if "\<not> r" using that by (simp add: settle_previous_def split: option.split)
  have total: "dt_uploadedBytesBaseline ?t + unsettledBtUpload (dt_instances ?t) (dt_engineTaskId t) n =
      dt_uploadedBytesBaseline t + unsettledBtUpload (dt_instances t) (dt_engineTaskId t) n"
    if "\<not> r" "?u \<le> n" "?p \<le> n"
    using that acc p by (simp add: unsettledBtUpload_def settle_fields)
  have mono: "dt_uploadedBytesBaseline t \<le> dt_uploadedBytesBaseline ?t"
    by (simp add: settle_fields(1))
  show ?thesis
    using mono twice total by blast
qed

definition example_seed :: DownloadTask where
  "example_seed = (example_task Bt KBt [example_instance BtDownload (Some ''g1'')])
     \<lparr> dt_engineTaskId := ''g1'', dt_uploadedBytes := 70, dt_uploadedBytesBaseline := 20 \<rparr>"

lemma upload_settled_once_witness:
  "dt_uploadedBytesBaseline (settleBtUpload example_seed (Some 60) False) = 80 \<and>
   dt_uploadedBytesBaseline (settleBtUpload (settleBtUpload example_seed (Some 60) False) (Some 60) True) = 80 \<and>
   dt_uploadedBytesBaseline (settleBtUpload example_seed (Some 60) False) +
     unsettledBtUpload (dt_instances (settleBtUpload example_seed (Some 60) False)) ''g1'' 100 = 120"
proof -
  have k: "pickPrimaryIndex (dt_instances example_seed) = Some 0"
    "list_all (\<lambda>i. uploadMarker (dt_engineTaskId example_seed) i = None)
       (take 0 (dt_instances example_seed))"
    "dt_uploadedBytesBaseline example_seed \<le> dt_uploadedBytes example_seed"
    by (simp_all add: example_seed_def example_defs pickPrimaryIndex_def)
  have g: "dt_engineTaskId example_seed = ''g1''"
    by (simp add: example_seed_def)
  have acc: "accountedUpload (dt_instances example_seed) ''g1'' = None"
    by (simp add: example_seed_def example_defs uploadMarker_def)
  have p: "settle_previous example_seed (Some 60) False = 0" and u: "settle_upload example_seed (Some 60) = 60"
    using acc g by (simp_all add: settle_previous_def settle_upload_def)
       (simp add: example_seed_def example_defs)
  have b: "dt_uploadedBytesBaseline example_seed = 20" by (simp add: example_seed_def)
  show ?thesis
    using upload_settled_once [OF k, of "Some 60" False True 100] p u b acc g
    by (simp add: settle_fields(1) [of example_seed] unsettledBtUpload_def [of "dt_instances example_seed"])
qed

section \<open>Merging an engine snapshot\<close>

text \<open>The fields of a merged task, once the early returns are excluded.\<close>

lemma merge_frame:
  "dt_id (mergeEngineTask e p now) = dt_id e"
  "dt_engineTaskId (mergeEngineTask e p now) = dt_engineTaskId e"
  "dt_type (mergeEngineTask e p now) = dt_type e"
  "dt_kind (mergeEngineTask e p now) = dt_kind e"
  "dt_name (mergeEngineTask e p now) = dt_name e"
  "dt_saveDir (mergeEngineTask e p now) = dt_saveDir e"
  "dt_diskPath (mergeEngineTask e p now) = dt_diskPath e"
  "dt_finalPath (mergeEngineTask e p now) = dt_finalPath e"
  "dt_createdAt (mergeEngineTask e p now) = dt_createdAt e"
  "dt_transitionPhase (mergeEngineTask e p now) = dt_transitionPhase e"
  "dt_torrentMetaPath (mergeEngineTask e p now) = dt_torrentMetaPath e"
  "dt_uploadedBytesBaseline (mergeEngineTask e p now) = dt_uploadedBytesBaseline e"
  by (simp_all add: mergeEngineTask_def merge_fields_def assignTerminal_def
      syncTerminalInstanceStatus_def Let_def)

lemma merge_mirror:
  assumes "\<not> keepsExisting e p"
  shows "dt_totalBytes (mergeEngineTask e p now) = nonzero_or (dt_totalBytes p) (dt_totalBytes e)"
    "dt_downloadedBytes (mergeEngineTask e p now) = nonzero_or (dt_downloadedBytes p) (dt_downloadedBytes e)"
    "dt_sizeWhenDone (mergeEngineTask e p now) = nonzero_or (dt_sizeWhenDone p) (dt_sizeWhenDone e)"
    "dt_fileCount (mergeEngineTask e p now) = nonzero_or (dt_fileCount p) (dt_fileCount e)"
    "dt_pieceLength (mergeEngineTask e p now) = nonzero_or (dt_pieceLength p) (dt_pieceLength e)"
    "dt_uploadedBytes (mergeEngineTask e p now) = merge_uploaded e p"
    "dt_progress (mergeEngineTask e p now) = merge_progress (nonZeroMerge e p)"
    "dt_status (mergeEngineTask e p now) = merge_nextStatus e (nonZeroMerge e p)"
  using assms
  by (simp_all add: mergeEngineTask_def merge_fields_def assignTerminal_def nonZeroMerge_def
      syncTerminalInstanceStatus_def Let_def)

lemma nonzero_or_keeps: "e \<noteq> 0 \<Longrightarrow> nonzero_or i e \<noteq> 0"
  by (simp add: nonzero_or_def)

text \<open>
  an engine snapshot never damages a task. Sizes, downloaded bytes, file count and piece
  length that are known are never overwritten by a zero the engine transiently reports; the
  uploaded total never falls below the persistent baseline; the task keeps its identity, its
  paths and its baseline; and while the application owns a filesystem transition the engine
  cannot publish a status of its own.
\<close>
theorem engine_snapshot_never_damages:
  "(dt_totalBytes e \<noteq> 0 \<longrightarrow> dt_totalBytes (mergeEngineTask e p now) \<noteq> 0) \<and>
   (dt_downloadedBytes e \<noteq> 0 \<longrightarrow> dt_downloadedBytes (mergeEngineTask e p now) \<noteq> 0) \<and>
   (dt_sizeWhenDone e \<noteq> 0 \<longrightarrow> dt_sizeWhenDone (mergeEngineTask e p now) \<noteq> 0) \<and>
   (dt_fileCount e \<noteq> 0 \<longrightarrow> dt_fileCount (mergeEngineTask e p now) \<noteq> 0) \<and>
   (dt_pieceLength e \<noteq> 0 \<longrightarrow> dt_pieceLength (mergeEngineTask e p now) \<noteq> 0) \<and>
   (dt_uploadedBytesBaseline e \<le> dt_uploadedBytes e \<longrightarrow>
      dt_uploadedBytesBaseline e \<le> dt_uploadedBytes (mergeEngineTask e p now)) \<and>
   (dt_id (mergeEngineTask e p now), dt_engineTaskId (mergeEngineTask e p now),
    dt_diskPath (mergeEngineTask e p now), dt_finalPath (mergeEngineTask e p now),
    dt_saveDir (mergeEngineTask e p now), dt_uploadedBytesBaseline (mergeEngineTask e p now)) =
   (dt_id e, dt_engineTaskId e, dt_diskPath e, dt_finalPath e, dt_saveDir e,
    dt_uploadedBytesBaseline e) \<and>
   (dt_transitionPhase e \<noteq> Idle \<longrightarrow> dt_status (mergeEngineTask e p now) = dt_status e)"
proof (cases "keepsExisting e p")
  case True
  then show ?thesis by (simp add: mergeEngineTask_def)
next
  case False
  have up: "dt_uploadedBytesBaseline e \<le> merge_uploaded e p"
    by (simp add: merge_uploaded_def unsettledBtUpload_def)
  show ?thesis
    using up by (simp add: merge_frame merge_mirror [OF False] nonzero_or_keeps merge_nextStatus_def)
qed

lemma engine_snapshot_never_damages_witness:
  "dt_totalBytes (mergeEngineTask ((example_task Http KDirect []) \<lparr> dt_totalBytes := 9 \<rparr>)
     (example_task Http KDirect []) 5) \<noteq> 0"
  using engine_snapshot_never_damages
    [of "(example_task Http KDirect []) \<lparr> dt_totalBytes := 9 \<rparr>" "example_task Http KDirect []" 5]
  by simp

section \<open>Every uploaded byte is counted once\<close>










lemma uploadMarker_status [simp]: "uploadMarker gid (i \<lparr> ti_status := s \<rparr>) = uploadMarker gid i"
  by (simp add: uploadMarker_def)











section \<open>Decisions of the poll loop\<close>

definition isActiveDownload :: "DownloadTask \<Rightarrow> bool" where
  "isActiveDownload t \<longleftrightarrow>
     dt_storageOperation t \<or> dt_status t \<in> {FetchingMetadata, Downloading, Finalizing}"

definition countActiveDownloads :: "DownloadTask list \<Rightarrow> nat" where
  "countActiveDownloads ts = length (filter isActiveDownload ts)"

definition shouldEvictFromEngine ::
  "TaskStatus \<Rightarrow> TaskStatus \<Rightarrow> TaskType \<Rightarrow> DownloadTask option \<Rightarrow> bool" where
  "shouldEvictFromEngine before after ty task =
     (if after = Error \<and> (case task of Some t \<Rightarrow> hasRetainedHttpRequestContext t | None \<Rightarrow> False)
      then False
      else if after = Error then before \<noteq> Error
      else if ty \<noteq> Bt \<and> ty \<noteq> Magnet then False
      else before = Seeding \<and> after = Completed)"

definition TRANSITION_SAVE_PAIRS :: "(TaskStatus \<times> TaskStatus) list" where
  "TRANSITION_SAVE_PAIRS =
     [(Downloading, Paused), (Downloading, Error), (FetchingMetadata, Error),
      (Queued, Downloading), (FetchingMetadata, Downloading)]"

definition shouldTriggerTransitionSave :: "TaskStatus \<Rightarrow> TaskStatus \<Rightarrow> bool" where
  "shouldTriggerTransitionSave before after \<longleftrightarrow>
     (\<not> isTerminalTaskStatus before \<and> isTerminalTaskStatus after) \<or>
     (before, after) \<in> set TRANSITION_SAVE_PAIRS"

definition getBtDirectStorageLayout :: "TaskInstance list \<Rightarrow> bt_direct_layout option" where
  "getBtDirectStorageLayout insts =
     (case find (\<lambda>i. safeParse (pl_btStorageLayout (ti_payload i)) \<noteq> None) insts of
        None \<Rightarrow> None
      | Some i \<Rightarrow> safeParse (pl_btStorageLayout (ti_payload i)))"

definition shouldSkipEngineCompletionFinalize :: "DownloadTask \<Rightarrow> bool" where
  "shouldSkipEngineCompletionFinalize t =
     (if hasLegacyImport (dt_instances t)
      then isLegacyImportInactive (dt_instances t) \<or> dt_status t = Completed
      else (dt_diskPath t = dt_finalPath t \<and>
            (case getBtDirectStorageLayout (dt_instances t) of
               Some l \<Rightarrow> bl_finalized l | None \<Rightarrow> True)) \<or>
           dt_status t = Finalizing \<or> dt_transitionPhase t \<noteq> Idle)"

definition slimTaskForBroadcast :: "DownloadTask \<Rightarrow> DownloadTask" where
  "slimTaskForBroadcast t =
     (case dt_bt t of
        None \<Rightarrow> t
      | Some b \<Rightarrow>
          if bt_trackers b = [] \<and> bt_announceList b = [] \<and> bt_magnetUri b = None then t
          else t \<lparr> dt_bt := Some (b \<lparr> bt_trackers := [], bt_announceList := [],
                                     bt_magnetUri := None \<rparr>) \<rparr>)"

text \<open>
  A snapshot that ends a task is both saved at once and evicted, unless its native request is
  retained; after the merge the engine's finalization is skipped only where no rename is owed.
\<close>

lemma merged_error_saved_and_evicted:
  assumes "\<not> isTerminalTaskStatus (dt_status e)"
    and "dt_status (mergeEngineTask e p now) = Error"
    and "\<not> hasRetainedHttpRequestContext (mergeEngineTask e p now)"
  shows "shouldTriggerTransitionSave (dt_status e) (dt_status (mergeEngineTask e p now)) \<and>
    shouldEvictFromEngine (dt_status e) (dt_status (mergeEngineTask e p now)) (dt_type e)
      (Some (mergeEngineTask e p now))"
  using assms by (simp add: shouldTriggerTransitionSave_def shouldEvictFromEngine_def isTerminalTaskStatus_def)

lemma slim_idempotent: "slimTaskForBroadcast (slimTaskForBroadcast t) = slimTaskForBroadcast t"
  by (simp add: slimTaskForBroadcast_def split: option.split)

lemma slim_frame:
  "dt_id (slimTaskForBroadcast t) = dt_id t" "dt_status (slimTaskForBroadcast t) = dt_status t"
  "dt_instances (slimTaskForBroadcast t) = dt_instances t"
  by (simp_all add: slimTaskForBroadcast_def split: option.split)

section \<open>The engine ids of a task\<close>

lemma set_addGids:
  "set (foldl (\<lambda>s i. addGid s (ti_gid i)) acc insts) =
     set acc \<union> {g. \<exists>i \<in> set insts. ti_gid i = Some g \<and> g \<noteq> []}"
  by (induction insts arbitrary: acc) (auto simp: addGid_def split: option.splits)

lemma distinct_addGids:
  "distinct acc \<Longrightarrow> distinct (foldl (\<lambda>s i. addGid s (ti_gid i)) acc insts)"
  by (induction insts arbitrary: acc) (auto simp: addGid_def split: option.splits)

lemma set_collectTaskGids:
  "set (collectTaskGids t) =
     {g. g \<noteq> [] \<and> (g = dt_engineTaskId t \<or> (\<exists>i \<in> set (dt_instances t). ti_gid i = Some g))}"
  by (auto simp: collectTaskGids_def Let_def set_addGids)

lemma distinct_collectTaskGids [simp]: "distinct (collectTaskGids t)"
  by (simp add: collectTaskGids_def Let_def distinct_addGids)

lemma collectTaskGids_nonempty: "g \<in> set (collectTaskGids t) \<Longrightarrow> g \<noteq> []"
  by (simp add: set_collectTaskGids)

lemma normalize_frame [simp]:
  "dt_instances (normalizeTerminalRuntimeMetrics t) = dt_instances t"
  "dt_engineTaskId (normalizeTerminalRuntimeMetrics t) = dt_engineTaskId t"
  "dt_status (normalizeTerminalRuntimeMetrics t) = dt_status t"
  "dt_id (normalizeTerminalRuntimeMetrics t) = dt_id t"
  by (simp_all add: normalizeTerminalRuntimeMetrics_def)

lemma collectTaskGids_normalize [simp]:
  "collectTaskGids (normalizeTerminalRuntimeMetrics t) = collectTaskGids t"
  by (simp add: collectTaskGids_def Let_def)

end
