(* ===== verification/Task_Manager.thy ===== *)
theory Task_Manager
  imports Task_Lifecycle
begin

text \<open>
  The registry of live tasks, \<open>core/task/task-manager.ts\<close>: the primary map, the secondary
  index from engine ids (\<open>gid\<close>s) to task ids, the quarantine of imported legacy ids, the
  reservations of ids the engine may already show before a task owns them, and the bounded FIFO
  of retired ids that shields a late poll from adopting a removed row again.

  The code hands out the stored task objects and other components write through them before
  they call \<open>set\<close> again; the step \<open>mutate\<close> of the relation at the end is that write: it
  changes a stored task and no index.
\<close>

section \<open>State\<close>

definition MAX_RETIRED_ENGINE_GIDS :: nat where
  "MAX_RETIRED_ENGINE_GIDS = 4096"

record task_manager =
  tm_legacyGidOwners :: "(string, string jsetof) jmap"
  tm_indexedLegacyGids :: "(string, string jsetof) jmap"
  tm_tasks :: "(string, DownloadTask) jmap"
  tm_engineIndex :: "(string, string) jmap"
  tm_indexedGids :: "(string, string jsetof) jmap"
  tm_reserved :: "string jsetof"
  tm_retired :: "string jsetof"

datatype tm_error = NotReserved string | NotOwnedByTask string string | NotAvailable string

definition tm_new :: task_manager where
  "tm_new = \<lparr> tm_legacyGidOwners = [], tm_indexedLegacyGids = [], tm_tasks = [],
     tm_engineIndex = [], tm_indexedGids = [], tm_reserved = [], tm_retired = [] \<rparr>"

section \<open>Operations\<close>

definition tm_getAll :: "task_manager \<Rightarrow> DownloadTask list" where
  "tm_getAll s = map snd (tm_tasks s)"

definition tm_getById :: "task_manager \<Rightarrow> string \<Rightarrow> DownloadTask option" where
  "tm_getById s i = map_of (tm_tasks s) i"

text \<open>\<open>deindex\<close>: the loop over the task's quarantined ids, then the loop over its engine ids.\<close>

definition drop_owner :: "string \<Rightarrow> (string, string jsetof) jmap \<Rightarrow> string \<Rightarrow> (string, string jsetof) jmap" where
  "drop_owner i owners gid =
     (case map_of owners gid of
        None \<Rightarrow> owners
      | Some os \<Rightarrow> if sdel os i = [] then jdel owners gid else jset owners gid (sdel os i))"

definition drop_index :: "string \<Rightarrow> (string, string) jmap \<Rightarrow> string \<Rightarrow> (string, string) jmap" where
  "drop_index i idx gid = (if map_of idx gid = Some i then jdel idx gid else idx)"

definition deindex :: "task_manager \<Rightarrow> string \<Rightarrow> task_manager" where
  "deindex s i =
     (let s1 = s \<lparr> tm_legacyGidOwners :=
                     foldl (drop_owner i) (tm_legacyGidOwners s) (jget_or [] (tm_indexedLegacyGids s) i),
                   tm_indexedLegacyGids := jdel (tm_indexedLegacyGids s) i \<rparr>
      in case map_of (tm_indexedGids s1) i of
           None \<Rightarrow> s1
         | Some gids \<Rightarrow>
             s1 \<lparr> tm_engineIndex := foldl (drop_index i) (tm_engineIndex s1) gids,
                  tm_indexedGids := jdel (tm_indexedGids s1) i \<rparr>)"

text \<open>The \<open>while\<close> loop that evicts the oldest retired ids, and one retirement.\<close>

fun evict_oldest :: "string jsetof \<Rightarrow> string jsetof" where
  "evict_oldest [] = []"
| "evict_oldest (g # gs) =
     (if length (g # gs) > MAX_RETIRED_ENGINE_GIDS then evict_oldest gs else g # gs)"

definition retireEngineGid :: "string jsetof \<Rightarrow> string \<Rightarrow> string jsetof" where
  "retireEngineGid retired gid =
     (if gid = [] \<or> gid \<in> set retired then retired else evict_oldest (retired @ [gid]))"

definition add_owner :: "string \<Rightarrow> (string, string jsetof) jmap \<Rightarrow> string \<Rightarrow> (string, string jsetof) jmap" where
  "add_owner i owners gid = jset owners gid (sadd (jget_or [] owners gid) i)"

text \<open>
  One turn of the claiming loop of \<open>store\<close>. The test \<open>previousOwner && ...\<close> is also false
  for an empty owner id.
\<close>

definition claim_gid :: "string \<Rightarrow> bool \<Rightarrow> task_manager \<Rightarrow> string \<Rightarrow> task_manager" where
  "claim_gid i claimReservations s gid =
     (let s1 = s \<lparr> tm_reserved := (if claimReservations then sdel (tm_reserved s) gid else tm_reserved s),
                   tm_retired := sdel (tm_retired s) gid \<rparr>;
          s2 = (case map_of (tm_engineIndex s1) gid of
                  Some prev \<Rightarrow>
                    if prev \<noteq> [] \<and> prev \<noteq> i
                    then (case map_of (tm_indexedGids s1) prev of
                            Some gs \<Rightarrow> s1 \<lparr> tm_indexedGids := jset (tm_indexedGids s1) prev (sdel gs gid) \<rparr>
                          | None \<Rightarrow> s1)
                    else s1
                | None \<Rightarrow> s1)
      in s2 \<lparr> tm_engineIndex := jset (tm_engineIndex s2) gid i \<rparr>)"

definition previousGids :: "task_manager \<Rightarrow> string \<Rightarrow> string jsetof" where
  "previousGids s i =
     sadds (sadds [] (jget_or [] (tm_indexedGids s) i)) (jget_or [] (tm_indexedLegacyGids s) i)"

definition store :: "task_manager \<Rightarrow> string \<Rightarrow> DownloadTask \<Rightarrow> bool \<Rightarrow> task_manager" where
  "store s i task0 claimReservations =
     (let task = normalizeTerminalRuntimeMetrics task0;
          prev = previousGids s i;
          s1 = (if map_of (tm_tasks s) i \<noteq> None then deindex s i else s);
          legacyGids = getLegacyQuarantinedGids (dt_instances task);
          s2 = s1 \<lparr> tm_tasks := jset (tm_tasks s1) i task,
                    tm_legacyGidOwners := foldl (add_owner i) (tm_legacyGidOwners s1) legacyGids,
                    tm_indexedLegacyGids :=
                      (if legacyGids \<noteq> [] then jset (tm_indexedLegacyGids s1) i legacyGids
                       else tm_indexedLegacyGids s1) \<rparr>;
          gids = collectTaskGids task;
          s3 = s2 \<lparr> tm_retired := foldl retireEngineGid (tm_retired s2) (filter (\<lambda>g. g \<notin> set gids) prev) \<rparr>;
          s4 = foldl (claim_gid i claimReservations) s3 gids
      in if gids \<noteq> [] then s4 \<lparr> tm_indexedGids := jset (tm_indexedGids s4) i gids \<rparr> else s4)"

definition tm_set :: "task_manager \<Rightarrow> string \<Rightarrow> DownloadTask \<Rightarrow> task_manager" where
  "tm_set s i task = store s i task True"

definition tm_add :: "task_manager \<Rightarrow> DownloadTask \<Rightarrow> task_manager" where
  "tm_add s task = tm_set s (dt_id task) task"

definition setReservedEngineTaskOwner ::
  "task_manager \<Rightarrow> string \<Rightarrow> DownloadTask \<Rightarrow> string \<Rightarrow> (tm_error, task_manager) result" where
  "setReservedEngineTaskOwner s i task engineTaskId =
     (if engineTaskId \<notin> set (tm_reserved s) then Inl (NotReserved engineTaskId)
      else if engineTaskId \<notin> set (collectTaskGids task) then Inl (NotOwnedByTask i engineTaskId)
      else Inr (store s i task False))"

definition rollbackReservedEngineTaskOwner ::
  "task_manager \<Rightarrow> string \<Rightarrow> string \<Rightarrow> DownloadTask option \<Rightarrow> bool \<times> task_manager" where
  "rollbackReservedEngineTaskOwner s i engineTaskId replacement =
     (if engineTaskId \<notin> set (tm_reserved s) \<or> map_of (tm_engineIndex s) engineTaskId \<noteq> Some i
      then (False, s)
      else let s1 = deindex s i;
               s2 = s1 \<lparr> tm_tasks := jdel (tm_tasks s1) i \<rparr>;
               s3 = (case replacement of Some r \<Rightarrow> tm_set s2 i r | None \<Rightarrow> s2)
           in (True, s3 \<lparr> tm_reserved := sdel (tm_reserved s3) engineTaskId \<rparr>))"

definition tm_remove :: "task_manager \<Rightarrow> string \<Rightarrow> bool \<times> task_manager" where
  "tm_remove s i =
     (let gids = previousGids s i;
          s1 = (if map_of (tm_tasks s) i \<noteq> None then deindex s i else s);
          s2 = s1 \<lparr> tm_retired := foldl retireEngineGid (tm_retired s1) gids \<rparr>
      in (map_of (tm_tasks s2) i \<noteq> None, s2 \<lparr> tm_tasks := jdel (tm_tasks s2) i \<rparr>))"

definition tm_clear :: "task_manager \<Rightarrow> task_manager" where
  "tm_clear s = tm_new"

definition tm_getByEngineTaskId :: "task_manager \<Rightarrow> string \<Rightarrow> DownloadTask option" where
  "tm_getByEngineTaskId s g =
     (case map_of (tm_engineIndex s) g of None \<Rightarrow> None | Some i \<Rightarrow> map_of (tm_tasks s) i)"

definition isEngineTaskIdRetired :: "task_manager \<Rightarrow> string \<Rightarrow> bool" where
  "isEngineTaskIdRetired s g \<longleftrightarrow>
     map_of (tm_legacyGidOwners s) g \<noteq> None \<or> g \<in> set (tm_reserved s) \<or> g \<in> set (tm_retired s)"

definition reserveEngineTaskId :: "task_manager \<Rightarrow> string \<Rightarrow> (tm_error, task_manager) result" where
  "reserveEngineTaskId s g =
     (if length g = 0 \<or> map_of (tm_engineIndex s) g \<noteq> None \<or> map_of (tm_legacyGidOwners s) g \<noteq> None \<or>
         g \<in> set (tm_reserved s) \<or> g \<in> set (tm_retired s)
      then Inl (NotAvailable g)
      else Inr (s \<lparr> tm_reserved := sadd (tm_reserved s) g \<rparr>))"

definition releaseEngineTaskIdReservation :: "task_manager \<Rightarrow> string \<Rightarrow> bool \<times> task_manager" where
  "releaseEngineTaskIdReservation s g =
     (g \<in> set (tm_reserved s), s \<lparr> tm_reserved := sdel (tm_reserved s) g \<rparr>)"

definition retireEngineTaskIdReservation :: "task_manager \<Rightarrow> string \<Rightarrow> bool \<times> task_manager" where
  "retireEngineTaskIdReservation s g =
     (if g \<notin> set (tm_reserved s) then (False, s)
      else (True, s \<lparr> tm_reserved := sdel (tm_reserved s) g,
                      tm_retired := retireEngineGid (tm_retired s) g \<rparr>))"

section \<open>Steps\<close>

text \<open>
  One call on the registry, or a write through a stored task. Task ids are generated and never
  empty.
\<close>

inductive tm_step :: "task_manager \<Rightarrow> task_manager \<Rightarrow> bool" where
  set: "i \<noteq> [] \<Longrightarrow> tm_step s (tm_set s i task)"
| setReserved: "i \<noteq> [] \<Longrightarrow> setReservedEngineTaskOwner s i task g = Inr s' \<Longrightarrow> tm_step s s'"
| rollback: "i \<noteq> [] \<Longrightarrow> tm_step s (snd (rollbackReservedEngineTaskOwner s i g replacement))"
| remove: "tm_step s (snd (tm_remove s i))"
| clear: "tm_step s (tm_clear s)"
| reserve: "reserveEngineTaskId s g = Inr s' \<Longrightarrow> tm_step s s'"
| release: "tm_step s (snd (releaseEngineTaskIdReservation s g))"
| retire: "tm_step s (snd (retireEngineTaskIdReservation s g))"
| mutate: "map_of (tm_tasks s) i \<noteq> None \<Longrightarrow> tm_step s (s \<lparr> tm_tasks := jset (tm_tasks s) i task' \<rparr>)"

inductive tm_reach :: "task_manager \<Rightarrow> bool" where
  init: "tm_reach tm_new"
| step: "tm_reach s \<Longrightarrow> tm_step s s' \<Longrightarrow> tm_reach s'"

section \<open>Retirement\<close>

lemma evict_oldest_drop: "evict_oldest gs = drop (length gs - MAX_RETIRED_ENGINE_GIDS) gs"
proof (induction gs)
  case (Cons g gs)
  then show ?case
    by (auto simp: Suc_diff_le not_less_eq_eq)
qed simp

lemma MAX_pos: "0 < MAX_RETIRED_ENGINE_GIDS"
  by (simp add: MAX_RETIRED_ENGINE_GIDS_def)

definition retired_ok :: "string jsetof \<Rightarrow> bool" where
  "retired_ok r \<longleftrightarrow> distinct r \<and> length r \<le> MAX_RETIRED_ENGINE_GIDS \<and> [] \<notin> set r"

lemma retired_ok_Nil [simp]: "retired_ok []"
  by (simp add: retired_ok_def)

lemma retired_ok_sdel [simp]: "retired_ok r \<Longrightarrow> retired_ok (sdel r g)"
  unfolding retired_ok_def
  by (auto simp: sdel_def intro: order_trans [OF length_filter_le])

lemma retired_ok_evict: "distinct gs \<Longrightarrow> [] \<notin> set gs \<Longrightarrow> retired_ok (evict_oldest gs)"
  by (auto simp: retired_ok_def evict_oldest_drop dest: in_set_dropD)

lemma retired_ok_retire [simp]: "retired_ok r \<Longrightarrow> retired_ok (retireEngineGid r g)"
  using retired_ok_evict [of "r @ [g]"] by (auto simp: retireEngineGid_def retired_ok_def)

lemma retired_ok_retires [simp]: "retired_ok r \<Longrightarrow> retired_ok (foldl retireEngineGid r gs)"
  by (induction gs arbitrary: r) auto

lemma retireEngineGid_new:
  "g \<noteq> [] \<Longrightarrow> g \<notin> set r \<Longrightarrow> retireEngineGid r g = drop (Suc (length r) - MAX_RETIRED_ENGINE_GIDS) r @ [g]"
  using MAX_pos by (simp add: retireEngineGid_def evict_oldest_drop)

text \<open>An entry that at most \<open>n\<close> newer entries follow survives as many retirements as still fit.\<close>

lemma retires_keep:
  assumes "r = xs @ g # ys" and "length ys + length gs < MAX_RETIRED_ENGINE_GIDS"
  shows "g \<in> set (foldl retireEngineGid r gs)"
  using assms
proof (induction gs arbitrary: r xs ys)
  case (Cons h gs)
  show ?case
  proof (cases "h = [] \<or> h \<in> set r")
    case True
    then have "retireEngineGid r h = r" by (simp add: retireEngineGid_def)
    then show ?thesis using Cons.IH [of r xs ys] Cons.prems by simp
  next
    case False
    have "Suc (length r) - MAX_RETIRED_ENGINE_GIDS \<le> length xs"
      using Cons.prems by simp
    then have "retireEngineGid r h = drop (Suc (length r) - MAX_RETIRED_ENGINE_GIDS) xs @ g # (ys @ [h])"
      using False Cons.prems(1) by (simp add: retireEngineGid_new)
    then show ?thesis
      using Cons.IH Cons.prems(2) by simp
  qed
qed simp

lemma retires_new_kept:
  assumes "g \<in> set gs" and "g \<noteq> []" and "g \<notin> set r" and "length gs \<le> MAX_RETIRED_ENGINE_GIDS"
  shows "g \<in> set (foldl retireEngineGid r gs)"
  using assms
proof (induction gs arbitrary: r)
  case (Cons h gs)
  show ?case
  proof (cases "g = h")
    case True
    then have "retireEngineGid r h = drop (Suc (length r) - MAX_RETIRED_ENGINE_GIDS) r @ [g]"
      using Cons.prems by (simp add: retireEngineGid_new)
    then show ?thesis using retires_keep Cons.prems(4) by simp
  next
    case False
    then have "g \<in> set gs" using Cons.prems(1) by simp
    show ?thesis
    proof (cases "g \<in> set (retireEngineGid r h)")
      case True
      have "set (retireEngineGid r h) \<subseteq> insert h (set r)"
        by (auto simp: retireEngineGid_def evict_oldest_drop dest: in_set_dropD)
      then show ?thesis using True False Cons.prems(3) by auto
    next
      case False
      then show ?thesis using Cons \<open>g \<in> set gs\<close> by simp
    qed
  qed
qed simp

section \<open>What the loops do to the maps\<close>

lemma get_drop_owners:
  "jget_or [] (foldl (drop_owner i) m gids) g =
     (if g \<in> set gids then sdel (jget_or [] m g) i else jget_or [] m g)"
proof (induction gids arbitrary: m)
  case (Cons h gids)
  have one: "jget_or [] (drop_owner i m h) k = (if k = h then sdel (jget_or [] m k) i else jget_or [] m k)" for k
    by (auto simp: drop_owner_def jget_or_def sdel_def split: option.split)
  show ?case
    by (simp add: Cons.IH one) (simp add: sdel_def)
qed simp

lemma drop_owner_nonempty:
  "(\<And>g. map_of m g \<noteq> Some []) \<Longrightarrow> map_of (foldl (drop_owner i) m gids) g \<noteq> Some []"
proof (induction gids arbitrary: m)
  case (Cons h gids)
  have "map_of (drop_owner i m h) k \<noteq> Some []" for k
    using Cons.prems by (auto simp: drop_owner_def split: option.split)
  then show ?case using Cons.IH [of "drop_owner i m h"] by simp
qed simp

lemma get_drop_index:
  "map_of (foldl (drop_index i) m gids) g =
     (if g \<in> set gids \<and> map_of m g = Some i then None else map_of m g)"
proof (induction gids arbitrary: m)
  case (Cons h gids)
  have one: "map_of (drop_index i m h) k = (if k = h \<and> map_of m k = Some i then None else map_of m k)" for k
    by (auto simp: drop_index_def)
  show ?case by (auto simp: Cons.IH one)
qed simp

lemma get_add_owners:
  "set (jget_or [] (foldl (add_owner i) m gids) g) =
     set (jget_or [] m g) \<union> (if g \<in> set gids then {i} else {})"
  by (induction gids arbitrary: m) (auto simp: add_owner_def)

lemma add_owner_nonempty:
  "(\<And>g. map_of m g \<noteq> Some []) \<Longrightarrow> map_of (foldl (add_owner i) m gids) g \<noteq> Some []"
proof (induction gids arbitrary: m)
  case (Cons h gids)
  have "sadd xs i \<noteq> []" for xs by (auto simp: sadd_def)
  then have "map_of (add_owner i m h) k \<noteq> Some []" for k
    using Cons.prems by (simp add: add_owner_def)
  then show ?case using Cons.IH [of "add_owner i m h"] by simp
qed simp

section \<open>The invariant\<close>

definition idx :: "task_manager \<Rightarrow> string \<Rightarrow> string set" where
  "idx s i = set (jget_or [] (tm_indexedGids s) i)"

definition lidx :: "task_manager \<Rightarrow> string \<Rightarrow> string set" where
  "lidx s i = set (jget_or [] (tm_indexedLegacyGids s) i)"

definition owners :: "task_manager \<Rightarrow> string \<Rightarrow> string set" where
  "owners s g = set (jget_or [] (tm_legacyGidOwners s) g)"

definition index_ok :: "task_manager \<Rightarrow> bool" where
  "index_ok s \<longleftrightarrow>
     (\<forall>g i. map_of (tm_engineIndex s) g = Some i \<longleftrightarrow> g \<in> idx s i) \<and>
     (\<forall>i g. g \<in> idx s i \<longrightarrow> map_of (tm_tasks s) i \<noteq> None \<and> i \<noteq> [] \<and> g \<noteq> [])"

definition legacy_ok :: "task_manager \<Rightarrow> bool" where
  "legacy_ok s \<longleftrightarrow>
     (\<forall>g i. i \<in> owners s g \<longleftrightarrow> g \<in> lidx s i) \<and>
     (\<forall>g. map_of (tm_legacyGidOwners s) g \<noteq> Some []) \<and>
     (\<forall>i g. g \<in> lidx s i \<longrightarrow> map_of (tm_tasks s) i \<noteq> None)"

definition shield_ok :: "task_manager \<Rightarrow> bool" where
  "shield_ok s \<longleftrightarrow> retired_ok (tm_retired s) \<and> distinct (tm_reserved s) \<and> [] \<notin> set (tm_reserved s)"

definition tm_ok :: "task_manager \<Rightarrow> bool" where
  "tm_ok s \<longleftrightarrow> index_ok s \<and> legacy_ok s \<and> shield_ok s"

lemma tm_ok_new: "tm_ok tm_new"
  by (simp add: tm_ok_def tm_new_def index_ok_def legacy_ok_def shield_ok_def idx_def lidx_def
      owners_def jget_or_def)

text \<open>\<open>deindex\<close> in terms of the views.\<close>

lemma deindex_frame [simp]:
  "tm_tasks (deindex s i) = tm_tasks s" "tm_reserved (deindex s i) = tm_reserved s"
  "tm_retired (deindex s i) = tm_retired s"
  by (simp_all add: deindex_def Let_def split: option.split)

lemma deindex_views:
  "idx (deindex s i) j = (if j = i then {} else idx s j)"
  "lidx (deindex s i) j = (if j = i then {} else lidx s j)"
  "owners (deindex s i) g = (if g \<in> lidx s i then owners s g - {i} else owners s g)"
  "map_of (tm_engineIndex (deindex s i)) g =
     (if g \<in> idx s i \<and> map_of (tm_engineIndex s) g = Some i then None else map_of (tm_engineIndex s) g)"
proof -
  show "idx (deindex s i) j = (if j = i then {} else idx s j)"
    by (auto simp: deindex_def Let_def idx_def jget_or_def split: option.split)
  show "lidx (deindex s i) j = (if j = i then {} else lidx s j)"
    by (auto simp: deindex_def Let_def lidx_def jget_or_def split: option.split)
  have "tm_legacyGidOwners (deindex s i) =
      foldl (drop_owner i) (tm_legacyGidOwners s) (jget_or [] (tm_indexedLegacyGids s) i)"
    by (simp add: deindex_def Let_def split: option.split)
  then show "owners (deindex s i) g = (if g \<in> lidx s i then owners s g - {i} else owners s g)"
    by (simp add: owners_def lidx_def get_drop_owners)
  have "tm_engineIndex (deindex s i) =
      foldl (drop_index i) (tm_engineIndex s) (jget_or [] (tm_indexedGids s) i)"
    by (simp add: deindex_def Let_def jget_or_def split: option.split)
  then show "map_of (tm_engineIndex (deindex s i)) g =
     (if g \<in> idx s i \<and> map_of (tm_engineIndex s) g = Some i then None else map_of (tm_engineIndex s) g)"
    by (simp add: idx_def get_drop_index)
qed

lemma deindex_owners_nonempty:
  "(\<And>g. map_of (tm_legacyGidOwners s) g \<noteq> Some []) \<Longrightarrow>
   map_of (tm_legacyGidOwners (deindex s i)) g \<noteq> Some []"
  by (simp add: deindex_def Let_def drop_owner_nonempty split: option.split)

lemma deindex_ok:
  assumes "tm_ok s"
  shows "tm_ok (deindex s i)"
proof -
  have "index_ok (deindex s i)"
    using assms by (simp add: tm_ok_def index_ok_def deindex_views) (metis option.inject)
  moreover have "legacy_ok (deindex s i)"
    using assms deindex_owners_nonempty [of s i]
    by (auto simp: tm_ok_def legacy_ok_def deindex_views)
  ultimately show ?thesis using assms by (simp add: tm_ok_def shield_ok_def)
qed

text \<open>Once deindexed, a task may be deleted from the primary map.\<close>

lemma deindexed_delete_ok:
  assumes "tm_ok s" and "idx s i = {}" and "lidx s i = {}"
  shows "tm_ok (s \<lparr> tm_tasks := jdel (tm_tasks s) i \<rparr>)"
  using assms
  by (auto simp: tm_ok_def index_ok_def legacy_ok_def shield_ok_def idx_def lidx_def owners_def)

lemma index_unique: "index_ok s \<Longrightarrow> g \<in> idx s i \<Longrightarrow> g \<in> idx s j \<Longrightarrow> i = j"
  unfolding index_ok_def by (metis option.inject)

lemma index_tasked: "index_ok s \<Longrightarrow> g \<in> idx s i \<Longrightarrow> map_of (tm_tasks s) i \<noteq> None"
  unfolding index_ok_def by blast

lemma index_names: "index_ok s \<Longrightarrow> g \<in> idx s i \<Longrightarrow> i \<noteq> [] \<and> g \<noteq> []"
  unfolding index_ok_def by blast

lemma index_owner: "index_ok s \<Longrightarrow> map_of (tm_engineIndex s) g = Some i \<longleftrightarrow> g \<in> idx s i"
  unfolding index_ok_def by blast

section \<open>Claiming\<close>

lemma claim_frame [simp]:
  "tm_tasks (claim_gid i c s gid) = tm_tasks s"
  "tm_legacyGidOwners (claim_gid i c s gid) = tm_legacyGidOwners s"
  "tm_indexedLegacyGids (claim_gid i c s gid) = tm_indexedLegacyGids s"
  "tm_retired (claim_gid i c s gid) = sdel (tm_retired s) gid"
  "tm_reserved (claim_gid i c s gid) = (if c then sdel (tm_reserved s) gid else tm_reserved s)"
  by (simp_all add: claim_gid_def Let_def split: option.split)

lemma claim_views:
  "map_of (tm_engineIndex (claim_gid i c s gid)) g =
     (if g = gid then Some i else map_of (tm_engineIndex s) g)"
  "idx (claim_gid i c s gid) j =
     (if map_of (tm_engineIndex s) gid = Some j \<and> j \<noteq> [] \<and> j \<noteq> i then idx s j - {gid} else idx s j)"
  by (auto simp: claim_gid_def Let_def idx_def jget_or_def split: option.split)

definition claiming :: "task_manager \<Rightarrow> string \<Rightarrow> string set \<Rightarrow> bool" where
  "claiming s i D \<longleftrightarrow>
     (\<forall>g j. j \<noteq> i \<longrightarrow> (map_of (tm_engineIndex s) g = Some j \<longleftrightarrow> g \<in> idx s j)) \<and>
     (\<forall>g. map_of (tm_engineIndex s) g = Some i \<longleftrightarrow> g \<in> D) \<and> idx s i = {} \<and>
     (\<forall>g j. map_of (tm_engineIndex s) g = Some j \<longrightarrow> j \<noteq> [])"

lemma claiming_step:
  assumes "claiming s i D" and "i \<noteq> []"
  shows "claiming (claim_gid i c s gid) i (insert gid D)"
proof -
  have "j \<noteq> []" if "g \<in> idx s j" for g j
    using assms(1) that by (cases "j = i") (auto simp: claiming_def)
  then show ?thesis using assms by (auto simp: claiming_def claim_views)
qed

lemma claiming_loop:
  assumes "claiming s i D" and "i \<noteq> []"
  shows "claiming (foldl (claim_gid i c) s gids) i (D \<union> set gids)"
  using assms
proof (induction gids arbitrary: s D)
  case (Cons g gids)
  then show ?case using claiming_step Cons.IH [of "claim_gid i c s g" "insert g D"] by simp
qed simp

lemma claim_loop_frame [simp]:
  "tm_tasks (foldl (claim_gid i c) s gids) = tm_tasks s"
  "tm_legacyGidOwners (foldl (claim_gid i c) s gids) = tm_legacyGidOwners s"
  "tm_indexedLegacyGids (foldl (claim_gid i c) s gids) = tm_indexedLegacyGids s"
  by (induction gids arbitrary: s) auto

lemma claim_loop_shield:
  "set (tm_retired (foldl (claim_gid i c) s gids)) = set (tm_retired s) - set gids"
  "set (tm_reserved (foldl (claim_gid i c) s gids)) =
     (if c then set (tm_reserved s) - set gids else set (tm_reserved s))"
  by (induction gids arbitrary: s) auto

lemma claim_loop_shield_ok:
  "shield_ok s \<Longrightarrow> shield_ok (foldl (claim_gid i c) s gids)"
  by (induction gids arbitrary: s) (auto simp: shield_ok_def)

lemma claim_loop_index:
  assumes "g \<notin> set gids"
  shows "map_of (tm_engineIndex (foldl (claim_gid i c) s gids)) g = map_of (tm_engineIndex s) g"
  using assms by (induction gids arbitrary: s) (auto simp: claim_views)

section \<open>Storing\<close>

text \<open>The state after the task has been written and before its ids are claimed.\<close>

definition store_base :: "task_manager \<Rightarrow> string \<Rightarrow> DownloadTask \<Rightarrow> task_manager" where
  "store_base s i task0 =
     (let task = normalizeTerminalRuntimeMetrics task0;
          s1 = (if map_of (tm_tasks s) i \<noteq> None then deindex s i else s);
          legacyGids = getLegacyQuarantinedGids (dt_instances task);
          s2 = s1 \<lparr> tm_tasks := jset (tm_tasks s1) i task,
                    tm_legacyGidOwners := foldl (add_owner i) (tm_legacyGidOwners s1) legacyGids,
                    tm_indexedLegacyGids :=
                      (if legacyGids \<noteq> [] then jset (tm_indexedLegacyGids s1) i legacyGids
                       else tm_indexedLegacyGids s1) \<rparr>
      in s2 \<lparr> tm_retired := foldl retireEngineGid (tm_retired s2)
                (filter (\<lambda>g. g \<notin> set (collectTaskGids task)) (previousGids s i)) \<rparr>)"

lemma store_unfold:
  "store s i task c =
     (let s4 = foldl (claim_gid i c) (store_base s i task) (collectTaskGids task)
      in if collectTaskGids task \<noteq> []
         then s4 \<lparr> tm_indexedGids := jset (tm_indexedGids s4) i (collectTaskGids task) \<rparr> else s4)"
  by (simp add: store_def store_base_def Let_def)

lemma store_base_frame [simp]:
  "tm_tasks (store_base s i task) = jset (tm_tasks s) i (normalizeTerminalRuntimeMetrics task)"
  "tm_reserved (store_base s i task) = tm_reserved s"
  "tm_retired (store_base s i task) = foldl retireEngineGid (tm_retired s)
     (filter (\<lambda>g. g \<notin> set (collectTaskGids task)) (previousGids s i))"
  by (simp_all add: store_base_def Let_def)

lemma untasked_views:
  "tm_ok s \<Longrightarrow> map_of (tm_tasks s) i = None \<Longrightarrow> idx s i = {} \<and> lidx s i = {}"
  using index_tasked [of s _ i] by (auto simp: tm_ok_def legacy_ok_def)

lemma store_base_views:
  assumes "tm_ok s"
  shows "map_of (tm_engineIndex (store_base s i task)) g =
      (if map_of (tm_engineIndex s) g = Some i then None else map_of (tm_engineIndex s) g)"
    and "idx (store_base s i task) j = (if j = i then {} else idx s j)"
    and "lidx (store_base s i task) j =
      (if j = i then set (getLegacyQuarantinedGids (dt_instances task)) else lidx s j)"
    and "owners (store_base s i task) g =
      owners s g - {i} \<union> (if g \<in> set (getLegacyQuarantinedGids (dt_instances task)) then {i} else {})"
proof -
  let ?s1 = "if map_of (tm_tasks s) i \<noteq> None then deindex s i else s"
  have E: "map_of (tm_engineIndex s) g = Some j \<longleftrightarrow> g \<in> idx s j" for g j
    using assms by (simp add: tm_ok_def index_ok_def)
  have O: "j \<in> owners s g \<longleftrightarrow> g \<in> lidx s j" for g j
    using assms by (simp add: tm_ok_def legacy_ok_def)
  have s1: "map_of (tm_engineIndex ?s1) g =
      (if map_of (tm_engineIndex s) g = Some i then None else map_of (tm_engineIndex s) g)"
    "idx ?s1 j = (if j = i then {} else idx s j)" "lidx ?s1 j = (if j = i then {} else lidx s j)"
    "owners ?s1 g = owners s g - {i}" for g j
    using untasked_views [OF assms, of i] by (auto simp: deindex_views E O)
  show "map_of (tm_engineIndex (store_base s i task)) g =
      (if map_of (tm_engineIndex s) g = Some i then None else map_of (tm_engineIndex s) g)"
    using s1(1) [of g] by (simp add: store_base_def Let_def)
  show "idx (store_base s i task) j = (if j = i then {} else idx s j)"
    using s1(2) [of j] by (simp add: store_base_def Let_def idx_def)
  show "lidx (store_base s i task) j =
      (if j = i then set (getLegacyQuarantinedGids (dt_instances task)) else lidx s j)"
    using s1(3) [of j] by (auto simp: store_base_def Let_def lidx_def)
  show "owners (store_base s i task) g =
      owners s g - {i} \<union> (if g \<in> set (getLegacyQuarantinedGids (dt_instances task)) then {i} else {})"
    using s1(4) [of g] by (auto simp: store_base_def Let_def owners_def get_add_owners)
qed

lemma store_base_owner_nonempty:
  assumes "tm_ok s"
  shows "map_of (tm_legacyGidOwners (store_base s i task)) g \<noteq> Some []"
proof -
  have ne: "map_of (tm_legacyGidOwners s) h \<noteq> Some []" for h
    using assms by (simp add: tm_ok_def legacy_ok_def)
  then have "map_of (tm_legacyGidOwners (if map_of (tm_tasks s) i \<noteq> None then deindex s i else s)) h \<noteq> Some []" for h
    using deindex_owners_nonempty [of s] by auto
  from add_owner_nonempty [OF this] show ?thesis
    by (simp add: store_base_def Let_def)
qed

lemma store_views:
  assumes "tm_ok s" and "i \<noteq> []"
  shows "map_of (tm_engineIndex (store s i task c)) g =
      (if g \<in> set (collectTaskGids task) then Some i
       else if map_of (tm_engineIndex s) g = Some i then None else map_of (tm_engineIndex s) g)"
    and "idx (store s i task c) j =
      (if j = i then set (collectTaskGids task) else idx s j - set (collectTaskGids task))"
    and "lidx (store s i task c) j =
      (if j = i then set (getLegacyQuarantinedGids (dt_instances task)) else lidx s j)"
    and "owners (store s i task c) g =
      owners s g - {i} \<union> (if g \<in> set (getLegacyQuarantinedGids (dt_instances task)) then {i} else {})"
proof -
  let ?b = "store_base s i task" and ?gids = "collectTaskGids task"
  let ?l = "foldl (claim_gid i c) ?b ?gids"
  have E: "map_of (tm_engineIndex s) g = Some j \<longleftrightarrow> g \<in> idx s j" for g j
    using assms by (simp add: tm_ok_def index_ok_def)
  have ne: "g \<in> idx s j \<Longrightarrow> j \<noteq> []" for g j
    using assms by (auto simp: tm_ok_def index_ok_def)
  have "claiming ?b i {}"
    using E ne index_unique [of s] assms(1)
    by (auto simp: claiming_def store_base_views [OF assms(1)] tm_ok_def)
  from claiming_loop [OF this assms(2), of c ?gids]
  have cl: "claiming ?l i (set ?gids)" by simp
  show idx_i: "map_of (tm_engineIndex (store s i task c)) g =
      (if g \<in> set ?gids then Some i
       else if map_of (tm_engineIndex s) g = Some i then None else map_of (tm_engineIndex s) g)" for g
  proof (cases "g \<in> set ?gids")
    case True
    have "map_of (tm_engineIndex (store s i task c)) g = map_of (tm_engineIndex ?l) g"
      by (simp add: store_unfold Let_def)
    moreover have "map_of (tm_engineIndex ?l) g = Some i"
      using cl True unfolding claiming_def by blast
    ultimately show ?thesis using True by simp
  next
    case False
    then show ?thesis
      by (simp add: store_unfold Let_def claim_loop_index store_base_views [OF assms(1)])
  qed
  show "idx (store s i task c) j = (if j = i then set ?gids else idx s j - set ?gids)"
  proof (cases "j = i")
    case True
    then show ?thesis using cl by (auto simp: store_unfold Let_def idx_def claiming_def)
  next
    case False
    have "idx (store s i task c) j = idx ?l j"
      using False by (simp add: store_unfold Let_def idx_def)
    also have "\<dots> = {g. map_of (tm_engineIndex ?l) g = Some j}"
      using cl False by (auto simp: claiming_def)
    also have "\<dots> = {g. map_of (tm_engineIndex (store s i task c)) g = Some j}"
      by (simp add: store_unfold Let_def)
    finally show ?thesis
      using False E index_unique [of s] assms(1) by (auto simp: idx_i tm_ok_def)
  qed
  show "lidx (store s i task c) j =
      (if j = i then set (getLegacyQuarantinedGids (dt_instances task)) else lidx s j)"
    using store_base_views(3) [OF assms(1), of i task j]
    by (cases "j = i") (simp_all add: store_unfold Let_def lidx_def)
  show "owners (store s i task c) g =
      owners s g - {i} \<union> (if g \<in> set (getLegacyQuarantinedGids (dt_instances task)) then {i} else {})"
    using store_base_views(4) [OF assms(1), of i task g] by (simp add: store_unfold Let_def owners_def)
qed

lemma store_frame:
  "tm_tasks (store s i task c) = jset (tm_tasks s) i (normalizeTerminalRuntimeMetrics task)"
  "set (tm_retired (store s i task c)) =
     set (foldl retireEngineGid (tm_retired s)
       (filter (\<lambda>g. g \<notin> set (collectTaskGids task)) (previousGids s i))) - set (collectTaskGids task)"
  "set (tm_reserved (store s i task c)) =
     (if c then set (tm_reserved s) - set (collectTaskGids task) else set (tm_reserved s))"
  by (simp_all add: store_unfold Let_def claim_loop_shield)

lemma store_ok:
  assumes "tm_ok s" and "i \<noteq> []"
  shows "tm_ok (store s i task c)"
proof -
  have ok: "index_ok s" "legacy_ok s" "shield_ok s"
    using assms(1) by (simp_all add: tm_ok_def)
  have "index_ok (store s i task c)"
    unfolding index_ok_def
  proof (intro conjI allI impI)
    fix g j
    show "map_of (tm_engineIndex (store s i task c)) g = Some j \<longleftrightarrow> g \<in> idx (store s i task c) j"
      using index_unique [OF ok(1)] index_owner [OF ok(1)] by (auto simp: store_views [OF assms])
  next
    fix j g
    assume g: "g \<in> idx (store s i task c) j"
    show "map_of (tm_tasks (store s i task c)) j \<noteq> None"
      using g index_tasked [OF ok(1), of g j] by (auto simp: store_views [OF assms] store_frame)
    show "j \<noteq> []"
      using g index_names [OF ok(1), of g j] assms(2) by (auto simp: store_views [OF assms] split: if_splits)
    show "g \<noteq> []"
      using g index_names [OF ok(1), of g j] collectTaskGids_nonempty [of g task]
      by (auto simp: store_views [OF assms] split: if_splits)
  qed
  moreover have "legacy_ok (store s i task c)"
    using ok(2) store_base_owner_nonempty [OF assms(1), of i task]
    by (auto simp: legacy_ok_def store_views [OF assms] store_frame)
       (auto simp: store_unfold Let_def split: if_splits)
  moreover have "shield_ok (store_base s i task)"
    using ok(3) by (simp add: shield_ok_def)
  then have "shield_ok (foldl (claim_gid i c) (store_base s i task) (collectTaskGids task))"
    by (rule claim_loop_shield_ok)
  then have "shield_ok (store s i task c)"
    by (cases "collectTaskGids task = []") (simp_all add: store_unfold Let_def shield_ok_def)
  ultimately show ?thesis by (simp add: tm_ok_def)
qed

section \<open>Every reachable registry is consistent\<close>

lemma rollback_cases:
  obtains (no) "rollbackReservedEngineTaskOwner s i g r = (False, s)"
      "g \<notin> set (tm_reserved s) \<or> map_of (tm_engineIndex s) g \<noteq> Some i"
  | (yes) s2 s3 where "g \<in> set (tm_reserved s)" "map_of (tm_engineIndex s) g = Some i"
      "s2 = deindex s i \<lparr> tm_tasks := jdel (tm_tasks s) i \<rparr>"
      "s3 = (case r of Some t \<Rightarrow> tm_set s2 i t | None \<Rightarrow> s2)"
      "rollbackReservedEngineTaskOwner s i g r = (True, s3 \<lparr> tm_reserved := sdel (tm_reserved s3) g \<rparr>)"
proof (cases "g \<notin> set (tm_reserved s) \<or> map_of (tm_engineIndex s) g \<noteq> Some i")
  case True
  then show ?thesis by (intro no) (auto simp: rollbackReservedEngineTaskOwner_def)
next
  case False
  show ?thesis
    by (rule yes [OF _ _ refl refl]) (use False in \<open>simp_all add: rollbackReservedEngineTaskOwner_def Let_def split: option.split\<close>)
qed

lemma tm_ok_shield_update:
  assumes "tm_ok s" and "retired_ok r" and "distinct rs" and "[] \<notin> set rs"
  shows "tm_ok (s \<lparr> tm_reserved := rs, tm_retired := r \<rparr>)"
  using assms
  by (simp add: tm_ok_def index_ok_def legacy_ok_def shield_ok_def idx_def lidx_def owners_def)

lemma tm_ok_reserved_update:
  assumes "tm_ok s" and "distinct rs" and "[] \<notin> set rs"
  shows "tm_ok (s \<lparr> tm_reserved := rs \<rparr>)"
  using tm_ok_shield_update [OF assms(1) _ assms(2,3), of "tm_retired s"] assms(1)
  by (simp add: tm_ok_def shield_ok_def)

lemma tm_ok_retired_update:
  assumes "tm_ok s" and "retired_ok r"
  shows "tm_ok (s \<lparr> tm_retired := r \<rparr>)"
  using tm_ok_shield_update [OF assms, of "tm_reserved s"] assms(1)
  by (simp add: tm_ok_def shield_ok_def)

lemma tm_ok_shield: "tm_ok s \<Longrightarrow> retired_ok (tm_retired s) \<and> distinct (tm_reserved s) \<and> [] \<notin> set (tm_reserved s)"
  by (simp add: tm_ok_def shield_ok_def)

lemma deleted_ok:
  assumes "tm_ok s"
  shows "tm_ok ((if map_of (tm_tasks s) i \<noteq> None then deindex s i else s) \<lparr> tm_tasks := jdel (tm_tasks s) i \<rparr>)"
proof -
  let ?s1 = "if map_of (tm_tasks s) i \<noteq> None then deindex s i else s"
  have "tm_ok ?s1" using assms deindex_ok by simp
  moreover have "idx ?s1 i = {}" "lidx ?s1 i = {}"
    using untasked_views [OF assms, of i] by (auto simp: deindex_views)
  ultimately show ?thesis
    using deindexed_delete_ok [of ?s1 i] by (simp split: if_splits)
qed

lemma rollback_ok:
  assumes "tm_ok s" and "i \<noteq> []"
  shows "tm_ok (snd (rollbackReservedEngineTaskOwner s i g r))"
proof (cases rule: rollback_cases [where s = s and i = i and g = g and r = r])
  case no
  then show ?thesis using assms by simp
next
  case (yes s2 s3)
  have "i \<in> fst ` set (tm_tasks s)"
    using index_tasked [of s g i] index_owner [of s g i] assms(1) yes(2)
    by (auto simp: tm_ok_def map_of_none_iff)
  then have s2: "tm_ok s2"
    using deleted_ok [OF assms(1), of i] yes(3) by (simp add: map_of_none_iff)
  then have s3: "tm_ok s3"
    using yes(4) store_ok [OF s2 assms(2)] by (simp add: tm_set_def split: option.split)
  then show ?thesis
    using yes(5) tm_ok_reserved_update [OF s3, of "sdel (tm_reserved s3) g"] tm_ok_shield [OF s3] by simp
qed

lemma remove_eq:
  "tm_remove s i =
     (map_of (tm_tasks s) i \<noteq> None,
      (if map_of (tm_tasks s) i \<noteq> None then deindex s i else s)
        \<lparr> tm_tasks := jdel (tm_tasks s) i,
          tm_retired := foldl retireEngineGid (tm_retired s) (previousGids s i) \<rparr>)"
  by (auto simp: tm_remove_def Let_def intro!: task_manager.equality)

lemma remove_ok:
  assumes "tm_ok s"
  shows "tm_ok (snd (tm_remove s i))"
  using tm_ok_retired_update [OF deleted_ok [OF assms, of i], of "foldl retireEngineGid (tm_retired s) (previousGids s i)"]
    tm_ok_shield [OF assms]
  by (cases "map_of (tm_tasks s) i") (simp_all add: remove_eq)

lemma mutate_ok:
  assumes "tm_ok s" and "map_of (tm_tasks s) i \<noteq> None"
  shows "tm_ok (s \<lparr> tm_tasks := jset (tm_tasks s) i t \<rparr>)"
proof -
  let ?s = "s \<lparr> tm_tasks := jset (tm_tasks s) i t \<rparr>"
  have v: "idx ?s = idx s" "lidx ?s = lidx s" "owners ?s = owners s"
    by (simp_all add: idx_def lidx_def owners_def fun_eq_iff)
  have m: "map_of (tm_tasks s) j \<noteq> None \<Longrightarrow> map_of (tm_tasks ?s) j \<noteq> None" for j by simp
  have "index_ok ?s"
    using assms(1) m unfolding tm_ok_def index_ok_def v by (simp del: jget_jset)
  moreover have "legacy_ok ?s"
    using assms(1) m unfolding tm_ok_def legacy_ok_def v by (simp del: jget_jset)
  ultimately show ?thesis using assms(1) by (simp add: tm_ok_def shield_ok_def)
qed

lemma reserve_cases:
  assumes "reserveEngineTaskId s g = Inr s'"
  obtains "g \<noteq> []" "map_of (tm_engineIndex s) g = None" "map_of (tm_legacyGidOwners s) g = None"
    "g \<notin> set (tm_reserved s)" "g \<notin> set (tm_retired s)"
    "s' = s \<lparr> tm_reserved := sadd (tm_reserved s) g \<rparr>"
  using assms by (auto simp: reserveEngineTaskId_def split: if_splits)

lemma reserve_ok: "tm_ok s \<Longrightarrow> reserveEngineTaskId s g = Inr s' \<Longrightarrow> tm_ok s'"
  using tm_ok_reserved_update [of s "sadd (tm_reserved s) g"] tm_ok_shield [of s]
  by (auto elim!: reserve_cases)

lemma release_ok: "tm_ok s \<Longrightarrow> tm_ok (snd (releaseEngineTaskIdReservation s g))"
  using tm_ok_reserved_update [of s "sdel (tm_reserved s) g"] tm_ok_shield [of s]
  by (simp add: releaseEngineTaskIdReservation_def)

lemma retire_ok: "tm_ok s \<Longrightarrow> tm_ok (snd (retireEngineTaskIdReservation s g))"
  using tm_ok_shield_update [of s "retireEngineGid (tm_retired s) g" "sdel (tm_reserved s) g"]
    tm_ok_shield [of s]
  by (simp add: retireEngineTaskIdReservation_def)

lemma setReserved_cases:
  assumes "setReservedEngineTaskOwner s i task g = Inr s'"
  obtains "g \<in> set (tm_reserved s)" "g \<in> set (collectTaskGids task)" "s' = store s i task False"
  using assms by (auto simp: setReservedEngineTaskOwner_def split: if_splits)

lemma tm_step_ok: "tm_step s s' \<Longrightarrow> tm_ok s \<Longrightarrow> tm_ok s'"
proof (induction rule: tm_step.induct)
  case (setReserved i s task g s')
  then show ?case by (auto elim!: setReserved_cases simp: store_ok)
qed (simp_all add: tm_set_def store_ok rollback_ok remove_ok tm_clear_def tm_ok_new reserve_ok
  release_ok retire_ok mutate_ok)

lemma tm_reach_ok: "tm_reach s \<Longrightarrow> tm_ok s"
  by (induction rule: tm_reach.induct) (auto simp: tm_ok_new dest: tm_step_ok)

text \<open>
  C18: whatever sequence of calls, errors and in-place task mutations the registry has seen, its
  indexes agree: an engine id maps to a task exactly when that task's snapshot lists it, so an id
  never has two owners and a lookup by engine id never dangles; every quarantined id has an
  owner that is a stored task; and the shield of retired ids holds no repetition and at most
  4096 ids.
\<close>
theorem registry_consistent:
  assumes "tm_reach s"
  shows "(\<forall>g i. map_of (tm_engineIndex s) g = Some i \<longleftrightarrow> g \<in> set (jget_or [] (tm_indexedGids s) i)) \<and>
    (\<forall>g. map_of (tm_engineIndex s) g \<noteq> None \<longrightarrow> tm_getByEngineTaskId s g \<noteq> None) \<and>
    (\<forall>g os. map_of (tm_legacyGidOwners s) g = Some os \<longrightarrow>
       os \<noteq> [] \<and> (\<forall>i \<in> set os. tm_getById s i \<noteq> None)) \<and>
    distinct (tm_retired s) \<and> length (tm_retired s) \<le> 4096"
proof -
  note ok = tm_reach_ok [OF assms]
  have ix: "index_ok s" using ok by (simp add: tm_ok_def)
  have lookup: "tm_getByEngineTaskId s g \<noteq> None" if "map_of (tm_engineIndex s) g = Some i" for g i
    using index_tasked [OF ix, of g i] index_owner [OF ix, of g i] that
    by (simp add: tm_getByEngineTaskId_def)
  have own: "os \<noteq> [] \<and> (\<forall>i \<in> set os. tm_getById s i \<noteq> None)"
    if "map_of (tm_legacyGidOwners s) g = Some os" for g os
  proof -
    have "i \<in> owners s g" if "i \<in> set os" for i
      using that \<open>map_of (tm_legacyGidOwners s) g = Some os\<close> by (simp add: owners_def jget_or_def)
    then have "\<forall>i \<in> set os. tm_getById s i \<noteq> None"
      using ok unfolding tm_ok_def legacy_ok_def tm_getById_def by blast
    then show ?thesis
      using ok that by (auto simp: tm_ok_def legacy_ok_def)
  qed
  have "\<forall>g i. map_of (tm_engineIndex s) g = Some i \<longleftrightarrow> g \<in> set (jget_or [] (tm_indexedGids s) i)"
    using ix by (simp add: index_ok_def idx_def)
  then show ?thesis
    using lookup own tm_ok_shield [OF ok]
    by (auto simp: retired_ok_def MAX_RETIRED_ENGINE_GIDS_def)
qed

lemma registry_consistent_witness:
  "length (tm_retired (snd (tm_remove (tm_set tm_new ''a''
     ((example_task Http KDirect []) \<lparr> dt_engineTaskId := ''g1'' \<rparr>)) ''a''))) \<le> 4096"
proof -
  have "tm_reach (snd (tm_remove (tm_set tm_new ''a''
     ((example_task Http KDirect []) \<lparr> dt_engineTaskId := ''g1'' \<rparr>)) ''a''))"
    by (rule tm_reach.step [OF tm_reach.step [OF tm_reach.init tm_step.set] tm_step.remove]) simp
  from registry_consistent [OF this] show ?thesis by blast
qed

section \<open>Publishing, dropping and shielding\<close>

lemma getBy_set:
  assumes "tm_ok s" and "i \<noteq> []"
  shows "tm_getByEngineTaskId (tm_set s i task) g =
    (if g \<in> set (collectTaskGids task) then Some (normalizeTerminalRuntimeMetrics task)
     else if map_of (tm_engineIndex s) g = Some i then None else tm_getByEngineTaskId s g)"
  by (simp add: tm_getByEngineTaskId_def tm_set_def store_views [OF assms] store_frame split: option.split)

text \<open>
  publishing a task with \<open>set\<close> makes it the one the registry answers with: under its id
  and under each of its engine ids, with terminal metrics cleared; each of these ids is claimed
  from whoever held, reserved or retired it; an id the task no longer has answers with nothing,
  and every other id and task answers as before.
\<close>
theorem set_publishes:
  assumes "tm_reach s" and "i \<noteq> []"
  shows "tm_getById (tm_set s i task) j =
      (if j = i then Some (normalizeTerminalRuntimeMetrics task) else tm_getById s j) \<and>
    tm_getByEngineTaskId (tm_set s i task) g =
      (if g \<in> set (collectTaskGids task) then Some (normalizeTerminalRuntimeMetrics task)
       else if map_of (tm_engineIndex s) g = Some i then None else tm_getByEngineTaskId s g) \<and>
    (g \<in> set (collectTaskGids task) \<longrightarrow>
       g \<notin> set (tm_reserved (tm_set s i task)) \<and> g \<notin> set (tm_retired (tm_set s i task)))"
  using getBy_set [OF tm_reach_ok [OF assms(1)] assms(2)]
  by (simp add: tm_getById_def tm_set_def store_frame)

lemma set_publishes_witness:
  "tm_getByEngineTaskId (tm_set tm_new ''a'' ((example_task Http KDirect []) \<lparr> dt_engineTaskId := ''g1'' \<rparr>)) ''g1''
     = Some ((example_task Http KDirect []) \<lparr> dt_engineTaskId := ''g1'' \<rparr>)"
  using set_publishes [OF tm_reach.init, of "''a''" "(example_task Http KDirect []) \<lparr> dt_engineTaskId := ''g1'' \<rparr>" "''a''" "''g1''"]
  by (simp add: set_collectTaskGids normalizeTerminalRuntimeMetrics_def example_defs isTerminalTaskStatus_def)

lemma set_previousGids: "set (previousGids s i) = idx s i \<union> lidx s i"
  by (simp add: previousGids_def idx_def lidx_def)

lemma retires_dropped:
  assumes "g \<in> set gs" and "g \<noteq> []" and "g \<in> set r \<longrightarrow> length r + length gs \<le> MAX_RETIRED_ENGINE_GIDS"
    and "length gs \<le> MAX_RETIRED_ENGINE_GIDS"
  shows "g \<in> set (foldl retireEngineGid r gs)"
proof (cases "g \<in> set r")
  case True
  then obtain xs ys where "r = xs @ g # ys" by (meson split_list)
  then show ?thesis using assms True retires_keep [of r xs g ys gs] by simp
next
  case False
  then show ?thesis using assms retires_new_kept by simp
qed

text \<open>
  an id that leaves a task is shielded at once. When a task is published without an engine
  id it held, or removed altogether, no lookup answers for that id any more and the registry
  reports it as retired, so a poll that captured the old row cannot adopt it as an orphan (for
  tasks of at most 4096 ids, and unless the id already sat in a shield with no room left).
\<close>
theorem dropped_ids_shielded:
  assumes "tm_reach s" and "i \<noteq> []" and "map_of (tm_engineIndex s) g = Some i"
    and "length (previousGids s i) \<le> 4096"
    and "g \<in> set (tm_retired s) \<longrightarrow> length (tm_retired s) + length (previousGids s i) \<le> 4096"
  shows "(g \<notin> set (collectTaskGids task) \<longrightarrow>
       tm_getByEngineTaskId (tm_set s i task) g = None \<and> isEngineTaskIdRetired (tm_set s i task) g) \<and>
    tm_getByEngineTaskId (snd (tm_remove s i)) g = None \<and> isEngineTaskIdRetired (snd (tm_remove s i)) g \<and>
    fst (tm_remove s i)"
proof -
  note ok = tm_reach_ok [OF assms(1)]
  have ix: "index_ok s" using ok by (simp add: tm_ok_def)
  have g: "g \<in> idx s i" using assms(3) index_owner [OF ix] by simp
  have prev: "g \<in> set (previousGids s i)" using g by (simp add: set_previousGids)
  have ne: "g \<noteq> []" and tk: "map_of (tm_tasks s) i \<noteq> None"
    using index_names [OF ix g] index_tasked [OF ix g] by auto
  let ?kept = "filter (\<lambda>g. g \<notin> set (collectTaskGids task)) (previousGids s i)"
  have len: "length ?kept \<le> length (previousGids s i)" by simp
  have dropped: "g \<in> set (foldl retireEngineGid (tm_retired s) ?kept)" if "g \<notin> set (collectTaskGids task)"
    using that prev ne assms(4,5) len
    by (intro retires_dropped) (auto simp: MAX_RETIRED_ENGINE_GIDS_def simp del: length_filter_le)
  have gone: "g \<in> set (foldl retireEngineGid (tm_retired s) (previousGids s i))"
    using prev ne assms(4,5) by (intro retires_dropped) (simp_all add: MAX_RETIRED_ENGINE_GIDS_def)
  have idx0: "map_of (tm_engineIndex (snd (tm_remove s i))) g = None"
    using tk g assms(3) by (simp add: remove_eq deindex_views)
  have "tm_getByEngineTaskId (tm_set s i task) g = None \<and> isEngineTaskIdRetired (tm_set s i task) g"
    if "g \<notin> set (collectTaskGids task)"
    using that dropped assms(3) getBy_set [OF ok assms(2)]
    by (simp add: isEngineTaskIdRetired_def tm_set_def store_frame)
  then show ?thesis
    using gone idx0 tk by (simp add: tm_getByEngineTaskId_def isEngineTaskIdRetired_def remove_eq)
qed

lemma dropped_ids_shielded_witness:
  "isEngineTaskIdRetired (snd (tm_remove (tm_set tm_new ''a''
     ((example_task Http KDirect []) \<lparr> dt_engineTaskId := ''g1'' \<rparr>)) ''a'')) ''g1''"
proof -
  let ?t = "(example_task Http KDirect []) \<lparr> dt_engineTaskId := ''g1'' \<rparr>"
  let ?s = "tm_set tm_new ''a'' ?t"
  have r: "tm_reach ?s" by (rule tm_reach.step [OF tm_reach.init tm_step.set]) simp
  have c: "collectTaskGids ?t = [''g1'']"
    by (simp add: collectTaskGids_def example_defs sadd_def)
  have i: "map_of (tm_engineIndex ?s) ''g1'' = Some ''a''"
    using c by (simp add: tm_set_def store_views [OF tm_ok_new])
  have l: "jget_or [] (tm_indexedLegacyGids ?s) ''a'' = []" and x: "jget_or [] (tm_indexedGids ?s) ''a'' = [''g1'']"
    using c by (simp_all add: tm_set_def store_unfold store_base_def Let_def tm_new_def jget_or_def
        getLegacyQuarantinedGids_def isLegacyImportInactive_def example_defs claim_gid_def)
  have p: "previousGids ?s ''a'' = [''g1'']"
    using l x by (simp add: previousGids_def sadd_def)
  have n: "tm_retired ?s = []"
    using c by (simp add: tm_set_def store_unfold store_base_def Let_def tm_new_def previousGids_def
        jget_or_def claim_gid_def sdel_def)
  show ?thesis
    using dropped_ids_shielded [OF r _ i] p n by simp
qed

lemma quarantined_ids_shielded:
  assumes "tm_reach s" and "i \<noteq> []" and "g \<in> set (getLegacyQuarantinedGids (dt_instances task))"
  shows "isEngineTaskIdRetired (tm_set s i task) g"
proof -
  note ok = tm_reach_ok [OF assms(1)]
  have "i \<in> owners (tm_set s i task) g"
    using assms(3) by (simp add: tm_set_def store_views(4) [OF ok assms(2)])
  then show ?thesis
    by (auto simp: owners_def jget_or_def isEngineTaskIdRetired_def split: option.splits)
qed

section \<open>Reservations\<close>

text \<open>
  What a caller that adds a row to the engine relies on: an id it reserved is nobody's, is
  shielded until it is claimed, released or retired, and cannot be reserved twice.
\<close>

locale gid_registry =
  fixes ok :: "'s \<Rightarrow> bool"
    and reserve :: "'s \<Rightarrow> 'g \<Rightarrow> ('e, 's) result"
    and release :: "'s \<Rightarrow> 'g \<Rightarrow> 's"
    and retire :: "'s \<Rightarrow> 'g \<Rightarrow> 's"
    and shielded :: "'s \<Rightarrow> 'g \<Rightarrow> bool"
    and owned :: "'s \<Rightarrow> 'g \<Rightarrow> bool"
    and valid :: "'g \<Rightarrow> bool"
  assumes reserve_iff: "ok s \<Longrightarrow> (\<exists>s'. reserve s g = Inr s') \<longleftrightarrow> valid g \<and> \<not> shielded s g \<and> \<not> owned s g"
    and reserve_effect: "ok s \<Longrightarrow> reserve s g = Inr s' \<Longrightarrow>
      ok s' \<and> shielded s' h = (h = g \<or> shielded s h) \<and> owned s' h = owned s h"
    and release_effect: "ok s \<Longrightarrow> reserve s g = Inr s' \<Longrightarrow>
      ok (release s' g) \<and> shielded (release s' g) h = shielded s h \<and> owned (release s' g) h = owned s h"
    and retire_effect: "ok s \<Longrightarrow> reserve s g = Inr s' \<Longrightarrow>
      ok (retire s' g) \<and> shielded (retire s' g) g \<and> owned (retire s' g) h = owned s h"
begin

lemma reserve_exclusive:
  assumes "ok s" and "reserve s g = Inr s'"
  shows "\<exists>e. reserve s' g = Inl e"
proof (cases "reserve s' g")
  case (Inr s'')
  then have "\<not> shielded s' g"
    using reserve_iff [of s' g] reserve_effect [OF assms] by auto
  then show ?thesis using reserve_effect [OF assms, of g] by simp
qed simp

lemma two_reservations_differ:
  assumes "ok s" and "reserve s g = Inr s'" and "reserve s' h = Inr s''"
  shows "g \<noteq> h"
  using reserve_exclusive [OF assms(1,2)] assms(3) by auto

text \<open>An add that never reached the engine gives the id back; one that may have does not.\<close>

lemma cancelled_add_reusable:
  assumes "ok s" and "reserve s g = Inr s'"
  shows "\<exists>s''. reserve (release s' g) g = Inr s''"
  using release_effect [OF assms, of g] reserve_iff [of "release s' g" g] reserve_iff [OF assms(1), of g] assms(2)
  by auto

lemma compensated_add_not_reusable:
  assumes "ok s" and "reserve s g = Inr s'"
  shows "\<exists>e. reserve (retire s' g) g = Inl e"
proof (cases "reserve (retire s' g) g")
  case (Inr s'')
  then show ?thesis
    using retire_effect [OF assms, of g] reserve_iff [of "retire s' g" g] by auto
qed simp

end

abbreviation tm_owned :: "task_manager \<Rightarrow> string \<Rightarrow> bool" where
  "tm_owned s g \<equiv> map_of (tm_engineIndex s) g \<noteq> None"

interpretation tmr: gid_registry tm_ok reserveEngineTaskId
  "\<lambda>s g. snd (releaseEngineTaskIdReservation s g)" "\<lambda>s g. snd (retireEngineTaskIdReservation s g)"
  isEngineTaskIdRetired tm_owned "\<lambda>g. g \<noteq> []"
proof (unfold_locales, goal_cases)
  case (1 s g)
  then show ?case by (auto simp: reserveEngineTaskId_def isEngineTaskIdRetired_def)
next
  case (2 s g s' h)
  then show ?case using reserve_ok [of s g s']
    by (auto simp: isEngineTaskIdRetired_def elim!: reserve_cases)
next
  case (3 s g s' h)
  then show ?case using reserve_ok [of s g s'] release_ok [of s' g]
    by (auto simp: isEngineTaskIdRetired_def releaseEngineTaskIdReservation_def elim!: reserve_cases)
next
  case (4 s g s' h)
  have "retireEngineGid (tm_retired s) g = drop (Suc (length (tm_retired s)) - MAX_RETIRED_ENGINE_GIDS) (tm_retired s) @ [g]"
    using 4(2) by (auto simp: retireEngineGid_new elim!: reserve_cases)
  then show ?case using 4 reserve_ok [of s g s'] retire_ok [of s' g]
    by (auto simp: isEngineTaskIdRetired_def retireEngineTaskIdReservation_def elim!: reserve_cases)
qed

text \<open>
  reserving an engine id. A reservation succeeds only for an id that no task owns and no
  shield holds, and from then on every poll sees the id as retired; a second reservation is
  refused; cancelling an add that never reached the engine makes the id available again, while
  compensating one that may have reached it keeps it shielded and refuses it.
\<close>
theorem reservation_exclusive:
  assumes "tm_reach s" and "reserveEngineTaskId s g = Inr s'"
  shows "tm_getByEngineTaskId s g = None \<and> \<not> isEngineTaskIdRetired s g \<and> isEngineTaskIdRetired s' g \<and>
    (\<exists>e. reserveEngineTaskId s' g = Inl e) \<and>
    (\<exists>s''. reserveEngineTaskId (snd (releaseEngineTaskIdReservation s' g)) g = Inr s'') \<and>
    isEngineTaskIdRetired (snd (retireEngineTaskIdReservation s' g)) g \<and>
    (\<exists>e. reserveEngineTaskId (snd (retireEngineTaskIdReservation s' g)) g = Inl e)"
proof -
  note ok = tm_reach_ok [OF assms(1)]
  have "tm_getByEngineTaskId s g = None" "\<not> isEngineTaskIdRetired s g"
    using tmr.reserve_iff [OF ok, of g] assms(2) by (auto simp: tm_getByEngineTaskId_def)
  then show ?thesis
    using tmr.reserve_effect [OF ok assms(2), of g] tmr.retire_effect [OF ok assms(2), of g]
      tmr.reserve_exclusive [OF ok assms(2)] tmr.cancelled_add_reusable [OF ok assms(2)]
      tmr.compensated_add_not_reusable [OF ok assms(2)]
    by blast
qed

lemma reservation_exclusive_witness:
  "isEngineTaskIdRetired (tm_new \<lparr> tm_reserved := [''g1''] \<rparr>) ''g1'' \<and>
   (\<exists>e. reserveEngineTaskId (tm_new \<lparr> tm_reserved := [''g1''] \<rparr>) ''g1'' = Inl e)"
proof -
  have r: "reserveEngineTaskId tm_new ''g1'' = Inr (tm_new \<lparr> tm_reserved := [''g1''] \<rparr>)"
    by (simp add: reserveEngineTaskId_def tm_new_def sadd_def)
  show ?thesis using reservation_exclusive [OF tm_reach.init r] by blast
qed

lemma set_keeps_or_claims:
  assumes "tm_ok s" and "i \<noteq> []" and "g \<in> set (tm_reserved s)"
  shows "g \<in> set (tm_reserved (store s i task c)) \<or> tm_getByEngineTaskId (store s i task c) g \<noteq> None"
proof (cases "g \<in> set (collectTaskGids task)")
  case True
  then have "tm_getByEngineTaskId (store s i task c) g \<noteq> None"
    by (simp add: tm_getByEngineTaskId_def store_views(1) [OF assms(1,2)] store_frame)
  then show ?thesis ..
next
  case False
  then show ?thesis using assms(3) by (simp add: store_frame)
qed

text \<open>An id that no poll can mistake for an orphan: reserved, owned by a stored task, or retired.\<close>

definition covered :: "task_manager \<Rightarrow> string \<Rightarrow> bool" where
  "covered s g \<longleftrightarrow>
     g \<in> set (tm_reserved s) \<or> tm_getByEngineTaskId s g \<noteq> None \<or> g \<in> set (tm_retired s)"

lemma set_covered:
  "tm_ok s \<Longrightarrow> i \<noteq> [] \<Longrightarrow> g \<in> set (tm_reserved s) \<Longrightarrow> covered (store s i task c) g"
  using set_keeps_or_claims [of s i g task c] by (auto simp: covered_def)

lemma retire_covered:
  assumes "tm_ok s" and "g \<in> set (tm_reserved s)"
  shows "covered (snd (retireEngineTaskIdReservation s h)) g"
proof -
  have nm: "g \<noteq> []" using tm_ok_shield [OF assms(1)] assms(2) by auto
  have "g \<in> set (retireEngineGid (tm_retired s) g)"
    using nm retires_new_kept [of g "[g]" "tm_retired s"] MAX_pos
    by (cases "g \<in> set (tm_retired s)") (auto simp: retireEngineGid_def)
  then show ?thesis
    using assms(2) by (auto simp: retireEngineTaskIdReservation_def covered_def)
qed

lemma rollback_covered:
  assumes "tm_ok s" and "g \<in> set (tm_reserved s)" and "i \<noteq> []" and "h \<noteq> g"
  shows "covered (snd (rollbackReservedEngineTaskOwner s i h r)) g"
proof (cases rule: rollback_cases [where s = s and i = i and g = h and r = r])
  case no
  then show ?thesis using assms(2) by (simp add: covered_def)
next
  case (yes s2 s3)
  have "i \<in> fst ` set (tm_tasks s)"
    using index_tasked [of s h i] index_owner [of s h i] assms(1) yes(2)
    by (auto simp: tm_ok_def map_of_none_iff)
  then have s2: "tm_ok s2"
    using deleted_ok [OF assms(1), of i] yes(3) by (simp add: map_of_none_iff)
  have "g \<in> set (tm_reserved s2)" using yes(3) assms(2) by simp
  then have "covered s3 g"
    using yes(4) set_covered [OF s2 assms(3)]
    by (cases r) (auto simp: tm_set_def covered_def)
  then show ?thesis using yes(5) assms(4)
    by (auto simp: covered_def tm_getByEngineTaskId_def split: option.splits)
qed

text \<open>
  there is no gap between a reservation and an owner. While an id is reserved, every other
  call on the registry (publishing or removing any task, installing a reserved owner, reserving,
  releasing or rolling back other ids, retiring any id) leaves it reserved, owned by a stored
  task, or in the retired shield: at no point can a poll see it ownerless and unshielded.
\<close>
theorem reservation_no_gap:
  assumes "tm_reach s" and "g \<in> set (tm_reserved s)" and "i \<noteq> []"
  shows "covered (tm_set s i task) g \<and>
    (\<forall>h s'. setReservedEngineTaskOwner s i task h = Inr s' \<longrightarrow> covered s' g) \<and>
    covered (snd (tm_remove s i)) g \<and>
    (\<forall>h s'. reserveEngineTaskId s h = Inr s' \<longrightarrow> covered s' g) \<and>
    (\<forall>h. covered (snd (retireEngineTaskIdReservation s h)) g) \<and>
    (\<forall>h. h \<noteq> g \<longrightarrow> covered (snd (releaseEngineTaskIdReservation s h)) g) \<and>
    (\<forall>h r. h \<noteq> g \<longrightarrow> covered (snd (rollbackReservedEngineTaskOwner s i h r)) g)"
proof -
  note ok = tm_reach_ok [OF assms(1)]
  have "covered (tm_set s i task) g"
    using set_covered [OF ok assms(3,2)] by (simp add: tm_set_def)
  moreover have "covered s' g" if "setReservedEngineTaskOwner s i task h = Inr s'" for h s'
    using that set_covered [OF ok assms(3,2)] by (auto elim: setReserved_cases)
  moreover have "covered (snd (tm_remove s i)) g"
    using assms(2) by (simp add: remove_eq covered_def)
  moreover have "covered s' g" if "reserveEngineTaskId s h = Inr s'" for h s'
    using that assms(2) by (auto simp: covered_def elim!: reserve_cases)
  moreover have "covered (snd (releaseEngineTaskIdReservation s h)) g" if "h \<noteq> g" for h
    using that assms(2) by (simp add: releaseEngineTaskIdReservation_def covered_def)
  ultimately show ?thesis
    using retire_covered [OF ok assms(2)] rollback_covered [OF ok assms(2,3)] by blast
qed

lemma reservation_no_gap_witness:
  "covered (tm_set (tm_new \<lparr> tm_reserved := [''g1''] \<rparr>) ''a'' (example_task Http KDirect [])) ''g1''"
proof -
  let ?s = "tm_new \<lparr> tm_reserved := [''g1''] \<rparr>"
  have r: "reserveEngineTaskId tm_new ''g1'' = Inr ?s"
    by (simp add: reserveEngineTaskId_def tm_new_def sadd_def)
  have reach: "tm_reach ?s"
    by (rule tm_reach.step [OF tm_reach.init tm_step.reserve [OF r]])
  show ?thesis using reservation_no_gap [OF reach, of "''g1''" "''a''"] by simp
qed

text \<open>Rolling back without a replacement leaves the retired shield as it was.\<close>

lemma rollback_keeps_shield:
  assumes "rollbackReservedEngineTaskOwner s i g None = (True, s')"
  shows "tm_getById s' i = None \<and> g \<notin> set (tm_reserved s') \<and> tm_retired s' = tm_retired s"
  using assms
proof (cases rule: rollback_cases [where s = s and i = i and g = g and r = None])
  case (yes s2 s3)
  then show ?thesis using assms by (auto simp: tm_getById_def)
qed auto

end
