(* ===== verification/Media_Progress.thy ===== *)
theory Media_Progress
  imports Task_Model
begin

text \<open>
  The progress figures of a task, \<open>shared/utils/media-progress.ts\<close>, with the consistency the
  schema \<open>shared/schemas/media-progress.ts\<close> demands of a media snapshot.

  A JavaScript number that may be infinite or \<open>NaN\<close> is a \<open>rat option\<close> whose \<open>None\<close> is
  any non-finite value; task fields are finite. \<open>Math.round\<close> rounds halves up.
\<close>

section \<open>The snapshot schema\<close>

definition media_download_ok :: "media_download \<Rightarrow> bool" where
  "media_download_ok d \<longleftrightarrow>
     0 \<le> md_progress d \<and> md_progress d \<le> 1 \<and>
     0 \<le> md_completedParts d \<and> 0 < md_totalParts d \<and>
     (case md_totalBytes d of Some b \<Rightarrow> 0 \<le> b | None \<Rightarrow> True) \<and>
     md_completedParts d \<le> md_totalParts d \<and>
     ((md_progress d = 1) = (md_completedParts d = md_totalParts d)) \<and>
     md_progress d \<ge> of_int (md_completedParts d) / of_int (md_totalParts d) - 1 / 10 ^ 10"

definition media_progress_ok :: "media_progress \<Rightarrow> bool" where
  "media_progress_ok m \<longleftrightarrow>
     media_download_ok (mp_download m) \<and>
     (case mp_muxProgress m of Some p \<Rightarrow> 0 \<le> p \<and> p \<le> 1 | None \<Rightarrow> True) \<and>
     (case mp_outputBytes m of Some b \<Rightarrow> 0 \<le> b | None \<Rightarrow> True)"

section \<open>Figures\<close>

fun MEDIA_PHASE_LABELS :: "MediaPhase \<Rightarrow> string" where
  "MEDIA_PHASE_LABELS MPreparing = ''panel.downloads.media.preparing''"
| "MEDIA_PHASE_LABELS MDownloading = ''panel.downloads.status.downloading''"
| "MEDIA_PHASE_LABELS MDecrypting = ''panel.downloads.media.decrypting''"
| "MEDIA_PHASE_LABELS MAssembling = ''panel.downloads.media.assembling''"
| "MEDIA_PHASE_LABELS MMuxing = ''panel.downloads.media.muxing''"
| "MEDIA_PHASE_LABELS MRenaming = ''panel.downloads.media.renaming''"

definition isMediaTask :: "DownloadTask \<Rightarrow> bool" where
  "isMediaTask t \<longleftrightarrow> dt_kind t = KHls \<or> dt_kind t = KMux"

definition finiteProgress :: "rat option \<Rightarrow> rat" where
  "finiteProgress v = (case v of Some x \<Rightarrow> max 0 (min 1 x) | None \<Rightarrow> 0)"

text \<open>\<open>downloaded / total\<close> is non-finite when \<open>downloaded\<close> is.\<close>

definition segmentFraction :: "rat option \<Rightarrow> rat option \<Rightarrow> bool \<Rightarrow> rat" where
  "segmentFraction downloaded totalBytes completed =
     (if completed then 1
      else case totalBytes of
             Some n \<Rightarrow> if n > 0 then min (9999 / 10000) (finiteProgress (map_option (\<lambda>d. d / n) downloaded))
                       else 0
           | None \<Rightarrow> 0)"

definition math_round :: "rat \<Rightarrow> int" where
  "math_round x = \<lfloor>x + 1 / 2\<rfloor>"

definition mediaProgressPercent :: "rat option \<Rightarrow> rat" where
  "mediaProgressPercent progress =
     (let value = finiteProgress progress
      in if value \<ge> 1 then 100 else min (999 / 10) (of_int (math_round (value * 1000)) / 10))"

definition getDownloadProgress :: "DownloadTask \<Rightarrow> rat option" where
  "getDownloadProgress t =
     (if dt_status t = Completed \<or> dt_status t = Seeding then Some 1
      else if isMediaTask t then map_option (\<lambda>m. md_progress (mp_download m)) (dt_mediaProgress t)
      else Some (finiteProgress (Some (dt_progress t))))"

definition getMediaPhaseLabel :: "DownloadTask \<Rightarrow> string option" where
  "getMediaPhaseLabel t =
     (case dt_mediaProgress t of
        Some m \<Rightarrow>
          if isMediaTask t \<and> (dt_status t = Downloading \<or> dt_status t = Finalizing \<or> dt_status t = Queued)
          then Some (MEDIA_PHASE_LABELS (mp_phase m)) else None
      | None \<Rightarrow> None)"

definition getStageProgress :: "DownloadTask \<Rightarrow> rat option" where
  "getStageProgress t =
     (if \<not> isMediaTask t \<or> getMediaPhaseLabel t = None then getDownloadProgress t
      else case dt_mediaProgress t of
             Some m \<Rightarrow> if mp_phase m = MDownloading then Some (md_progress (mp_download m))
                       else if mp_phase m = MMuxing then mp_muxProgress m
                       else None
           | None \<Rightarrow> None)"

definition isMediaProcessing :: "DownloadTask \<Rightarrow> bool" where
  "isMediaProcessing t \<longleftrightarrow>
     isMediaTask t \<and> (dt_status t = Downloading \<or> dt_status t = Finalizing) \<and>
     (case dt_mediaProgress t of
        Some m \<Rightarrow> mp_phase m \<notin> {MPreparing, MDownloading} | None \<Rightarrow> False)"

definition getOutputSize :: "DownloadTask \<Rightarrow> int option" where
  "getOutputSize t =
     (if \<not> isMediaTask t then Some (dt_sizeWhenDone t)
      else case dt_mediaProgress t of Some m \<Rightarrow> mp_outputBytes m | None \<Rightarrow> None)"

fun PHASE_ORDER :: "MediaPhase \<Rightarrow> nat" where
  "PHASE_ORDER MPreparing = 0"
| "PHASE_ORDER MDownloading = 1"
| "PHASE_ORDER MDecrypting = 2"
| "PHASE_ORDER MAssembling = 3"
| "PHASE_ORDER MMuxing = 4"
| "PHASE_ORDER MRenaming = 5"

definition getProgressSortValue :: "DownloadTask \<Rightarrow> rat option" where
  "getProgressSortValue t =
     (if dt_status t = Completed \<or> dt_status t = Seeding then Some 12
      else if dt_status t = Finalizing then Some 10
      else if isMediaTask t then
        (case dt_mediaProgress t of
           None \<Rightarrow> None
         | Some m \<Rightarrow>
             (let progress = (if mp_phase m = MMuxing then mp_muxProgress m
                              else if mp_phase m = MDownloading then Some (md_progress (mp_download m))
                              else None)
              in Some (of_nat (PHASE_ORDER (mp_phase m)) * 2 +
                       (case progress of Some p \<Rightarrow> p | None \<Rightarrow> 0))))
      else Some ((if dt_status t = Queued \<or> dt_status t = FetchingMetadata \<or> dt_status t = MetadataReady
                  then 0 else 2) + finiteProgress (Some (dt_progress t))))"

record transfer_metrics =
  tx_bytesTotal :: "int option"
  tx_speedBps :: int
  tx_etaSec :: "int option"

definition getTransferMetrics :: "DownloadTask \<Rightarrow> transfer_metrics" where
  "getTransferMetrics t =
     (let media = isMediaTask t;
          bytesTotal = (if media
            then (case dt_mediaProgress t of Some m \<Rightarrow> md_totalBytes (mp_download m) | None \<Rightarrow> None)
            else if dt_totalBytes t > 0 then Some (dt_totalBytes t) else None);
          transferring = (\<not> media \<or>
            (dt_status t = Downloading \<and>
             (case dt_mediaProgress t of Some m \<Rightarrow> mp_phase m = MDownloading | None \<Rightarrow> False)));
          speedBps = (if transferring then max 0 (dt_downloadSpeed t) else 0);
          etaSec = (if transferring \<and> (\<not> media \<or> (bytesTotal \<noteq> None \<and> speedBps > 0)) \<and> dt_etaSeconds t > 0
                    then Some (dt_etaSeconds t) else None)
      in \<lparr> tx_bytesTotal = bytesTotal, tx_speedBps = speedBps, tx_etaSec = etaSec \<rparr>)"

section \<open>Bounds\<close>

lemma finiteProgress_bounds: "0 \<le> finiteProgress v \<and> finiteProgress v \<le> 1"
  by (auto simp: finiteProgress_def split: option.split)

lemma segmentFraction_bounds: "0 \<le> segmentFraction d n c \<and> segmentFraction d n c \<le> 1"
  using finiteProgress_bounds
  by (auto simp: segmentFraction_def split: option.split intro: order_trans)

lemma segmentFraction_incomplete: "segmentFraction d n False < 1"
  by (auto simp: segmentFraction_def split: option.split)

lemma mediaProgressPercent_bounds:
  "0 \<le> mediaProgressPercent v \<and> mediaProgressPercent v \<le> 100"
proof -
  have "0 \<le> finiteProgress v" using finiteProgress_bounds by blast
  then have "(0::rat) \<le> of_int (math_round (finiteProgress v * 1000))"
    by (simp add: math_round_def)
  then show ?thesis by (auto simp: mediaProgressPercent_def Let_def)
qed

lemma mediaProgressPercent_full: "mediaProgressPercent v = 100 \<longleftrightarrow> finiteProgress v \<ge> 1"
  by (auto simp: mediaProgressPercent_def Let_def min_def)

text \<open>The value the list sorts by: later stages always sort after earlier ones.\<close>

definition stage_rank :: "DownloadTask \<Rightarrow> nat option" where
  "stage_rank t =
     (if dt_status t = Completed \<or> dt_status t = Seeding then Some 6
      else if dt_status t = Finalizing then Some 5
      else if isMediaTask t then map_option (\<lambda>m. PHASE_ORDER (mp_phase m)) (dt_mediaProgress t)
      else if dt_status t = Queued \<or> dt_status t = FetchingMetadata \<or> dt_status t = MetadataReady
        then Some 0 else Some 1)"

lemma sort_value_in_stage:
  assumes "getProgressSortValue t = Some v" and "\<And>m. dt_mediaProgress t = Some m \<Longrightarrow> media_progress_ok m"
  shows "\<exists>r. stage_rank t = Some r \<and> 2 * of_nat r \<le> v \<and> v \<le> 2 * of_nat r + 1"
proof -
  have f: "0 \<le> finiteProgress x" "finiteProgress x \<le> 1" for x
    using finiteProgress_bounds by auto
  have m: "0 \<le> md_progress (mp_download m) \<and> md_progress (mp_download m) \<le> 1 \<and>
      (\<forall>p. mp_muxProgress m = Some p \<longrightarrow> 0 \<le> p \<and> p \<le> 1)" if "dt_mediaProgress t = Some m" for m
    using assms(2) [OF that] by (auto simp: media_progress_ok_def media_download_ok_def)
  show ?thesis
    using assms(1) f m
    by (auto simp: getProgressSortValue_def stage_rank_def Let_def split: if_splits option.splits)
qed

text \<open>
  Progress figures never mislead: every fraction lies between 0 and 1 and every percentage
  between 0 and 100 whatever the engine reported; a segment whose completion event has not
  arrived never reads as complete, and 100 percent is shown only for a complete fraction.
\<close>

lemma progress_figures_bounded:
  "0 \<le> segmentFraction d n c \<and> segmentFraction d n c \<le> 1 \<and> segmentFraction d n False < 1 \<and>
   0 \<le> mediaProgressPercent x \<and> mediaProgressPercent x \<le> 100 \<and>
   (mediaProgressPercent x = 100 \<longleftrightarrow> finiteProgress x = 1)"
  using segmentFraction_bounds [of d n c] segmentFraction_incomplete [of d n] mediaProgressPercent_bounds [of x]
    mediaProgressPercent_full [of x] finiteProgress_bounds [of x] by auto

text \<open>
  the list sorted by progress follows the stages of a download. When both tasks have a sort
  value (and any media snapshot is one its schema accepts), a task in a later stage always sorts
  strictly after a task in an earlier one, whatever their progress inside the stage.
\<close>
theorem sort_follows_stages:
  assumes "getProgressSortValue t = Some v" and "getProgressSortValue t' = Some v'"
    and "stage_rank t = Some r" and "stage_rank t' = Some r'" and "r < r'"
    and "\<And>m. dt_mediaProgress t = Some m \<Longrightarrow> media_progress_ok m"
    and "\<And>m. dt_mediaProgress t' = Some m \<Longrightarrow> media_progress_ok m"
  shows "v < v'"
proof -
  have v: "v \<le> 2 * of_nat r + 1" using sort_value_in_stage [OF assms(1,6)] assms(3) by auto
  have v': "2 * of_nat r' \<le> v'" using sort_value_in_stage [OF assms(2,7)] assms(4) by auto
  have "(of_nat (Suc r) :: rat) \<le> of_nat r'" using assms(5) by (simp only: of_nat_le_iff)
  then show ?thesis using v v' by simp
qed

lemma sort_follows_stages_witness:
  "getProgressSortValue (example_task Http KDirect []) = Some 0 \<and>
   getProgressSortValue ((example_task Http KDirect []) \<lparr> dt_status := Completed \<rparr>) = Some 12 \<and>
   (0::rat) < 12"
  using sort_follows_stages
    [of "example_task Http KDirect []" 0 "(example_task Http KDirect []) \<lparr> dt_status := Completed \<rparr>" 12 0 6]
  by (simp add: getProgressSortValue_def stage_rank_def isMediaTask_def example_defs finiteProgress_def)

end
