(* ===== verification/Node_Path.thy ===== *)
theory Node_Path
  imports Main
begin

text \<open>
  The functions of the standard library's \<open>path\<close> module the code uses, in their POSIX form,
  and the decimal rendering of template literals. A path is a character list.
\<close>

section \<open>Decimal rendering\<close>

fun show_nat :: "nat \<Rightarrow> string" where
  "show_nat n = (if n < 10 then [char_of (48 + n)] else show_nat (n div 10) @ [char_of (48 + n mod 10)])"

declare show_nat.simps [simp del]

definition read_digit :: "nat \<Rightarrow> char \<Rightarrow> nat" where
  "read_digit acc c = acc * 10 + (of_char c - 48)"

lemma read_digit_char [simp]: "d < 10 \<Longrightarrow> read_digit acc (char_of (48 + d)) = acc * 10 + d"
proof -
  assume "d < 10"
  then have "(of_char (char_of (48 + d) :: char) :: nat) = 48 + d"
    by (simp add: of_char_of)
  then show ?thesis by (simp add: read_digit_def)
qed

lemma read_show_nat: "foldl read_digit 0 (show_nat n) = n"
proof (induction n rule: show_nat.induct)
  case (1 n)
  then show ?case by (subst show_nat.simps) simp
qed

lemma show_nat_inject [simp]: "show_nat m = show_nat n \<longleftrightarrow> m = n"
  by (metis read_show_nat)

lemma show_nat_nonempty [simp]: "show_nat n \<noteq> []"
  by (subst show_nat.simps) simp

section \<open>Segments\<close>

text \<open>\<open>split('/')\<close>\<close>

fun split_on :: "char \<Rightarrow> string \<Rightarrow> string list" where
  "split_on c [] = [[]]"
| "split_on c (x # xs) =
     (if x = c then [] # split_on c xs
      else case split_on c xs of [] \<Rightarrow> [[x]] | s # ss \<Rightarrow> (x # s) # ss)"

fun intersperse_c :: "char \<Rightarrow> string list \<Rightarrow> string" where
  "intersperse_c c [] = []"
| "intersperse_c c [s] = s"
| "intersperse_c c (s # ss) = s @ c # intersperse_c c ss"

text \<open>
  One step of \<open>normalizeString\<close>: empty and \<open>.\<close> segments vanish, \<open>..\<close> removes the segment
  before it, or stays where the path is relative and nothing can be removed.
\<close>

definition norm_step :: "bool \<Rightarrow> string list \<Rightarrow> string \<Rightarrow> string list" where
  "norm_step allowAboveRoot acc s =
     (if s = [] \<or> s = ''.'' then acc
      else if s = ''..'' then
        (if acc \<noteq> [] \<and> last acc \<noteq> ''..'' then butlast acc
         else if allowAboveRoot then acc @ [''..''] else acc)
      else acc @ [s])"

definition isAbsolute :: "string \<Rightarrow> bool" where
  "isAbsolute p \<longleftrightarrow> (case p of [] \<Rightarrow> False | c # _ \<Rightarrow> c = CHR ''/'')"

definition path_segments :: "string \<Rightarrow> string list" where
  "path_segments p = foldl (norm_step (\<not> isAbsolute p)) [] (split_on (CHR ''/'') p)"

definition path_normalize :: "string \<Rightarrow> string" where
  "path_normalize p =
     (if p = [] then ''.''
      else let segs = intersperse_c (CHR ''/'') (path_segments p);
               trailing = (last p = CHR ''/'');
               body = (if segs = [] \<and> \<not> isAbsolute p then (if trailing then ''./'' else ''.'')
                       else if trailing \<and> segs \<noteq> [] then segs @ ''/'' else segs)
           in if isAbsolute p then CHR ''/'' # body else body)"

definition path_join :: "string list \<Rightarrow> string" where
  "path_join parts =
     (case filter (\<lambda>s. s \<noteq> []) parts of
        [] \<Rightarrow> ''.''
      | ps \<Rightarrow> path_normalize (intersperse_c (CHR ''/'') ps))"

section \<open>Names\<close>

definition strip_trailing :: "string \<Rightarrow> string" where
  "strip_trailing p = rev (dropWhile (\<lambda>c. c = CHR ''/'') (rev p))"

definition path_basename :: "string \<Rightarrow> string" where
  "path_basename p = rev (takeWhile (\<lambda>c. c \<noteq> CHR ''/'') (rev (strip_trailing p)))"

text \<open>The position of the last dot, as \<open>lastIndexOf('.')\<close>.\<close>

definition last_dot :: "string \<Rightarrow> nat option" where
  "last_dot s = (if CHR ''.'' \<in> set s
                 then Some (length s - 1 - length (takeWhile (\<lambda>c. c \<noteq> CHR ''.'') (rev s))) else None)"

text \<open>
  \<open>path.extname\<close>: from the last dot of the base name, unless there is none, it is the first
  character, or the name is \<open>..\<close>.
\<close>

definition path_extname :: "string \<Rightarrow> string" where
  "path_extname p =
     (let b = path_basename p
      in case last_dot b of
           None \<Rightarrow> []
         | Some k \<Rightarrow> if k = 0 \<or> b = ''..'' then [] else drop k b)"

lemma last_dot_split:
  assumes "last_dot s = Some k"
  shows "k < length s \<and> s ! k = CHR ''.'' \<and> (\<forall>j. k < j \<and> j < length s \<longrightarrow> s ! j \<noteq> CHR ''.'')"
proof -
  have dot: "CHR ''.'' \<in> set s" and k: "k = length s - 1 - length (takeWhile (\<lambda>c. c \<noteq> CHR ''.'') (rev s))"
    using assms by (auto simp: last_dot_def split: if_splits)
  obtain ys zs where s: "s = ys @ CHR ''.'' # zs" and nd: "CHR ''.'' \<notin> set zs"
    using split_list_last [OF dot] by blast
  have "takeWhile (\<lambda>c. c \<noteq> CHR ''.'') (rev zs @ CHR ''.'' # rev ys) = rev zs"
    using nd by (subst takeWhile_append2) auto
  then have "k = length ys" using k s by simp
  then show ?thesis
    using s nd by (auto simp: nth_append nth_Cons' in_set_conv_nth)
qed

end
