(* ===== verification/Final_Name.thy ===== *)
theory Final_Name
  imports Prelude Node_Path
begin

text \<open>
  The name under which a download is published, \<open>core/task/final-name-picker.ts\<close> with
  \<open>core/task/output-path-identity.ts\<close>, \<open>shared/constants/incomplete.ts\<close> and the
  path-length limits of \<open>core/task/path-length.ts\<close>.

  The file system is what the code probes: a predicate \<open>exists\<close> on absolute paths, fixed
  during one pick. \<open>outputNameIdentity\<close> is the identity on hosts with case-sensitive volumes
  and a case-folding normalization elsewhere; the folding itself (Unicode NFD and lower case) is
  the parameter \<open>fold_case\<close>.
\<close>

section \<open>Definitions\<close>

definition INCOMPLETE_SUFFIX :: string where
  "INCOMPLETE_SUFFIX = ''.motrix''"

definition MAX_DEDUP_ATTEMPTS :: nat where
  "MAX_DEDUP_ATTEMPTS = 9999"

datatype platform = Darwin | Win32 | Linux

definition outputNameIdentity :: "(string \<Rightarrow> string) \<Rightarrow> platform \<Rightarrow> string \<Rightarrow> string" where
  "outputNameIdentity fold_case pf value =
     (if pf = Darwin \<or> pf = Win32 then fold_case value else value)"

record name_parts =
  np_base :: string
  np_ext :: string

definition isAlnum :: "char \<Rightarrow> bool" where
  "isAlnum c \<longleftrightarrow> (let n = (of_char c :: nat) in
     (48 \<le> n \<and> n \<le> 57) \<or> (65 \<le> n \<and> n \<le> 90) \<or> (97 \<le> n \<and> n \<le> 122))"

text \<open>\<open>/^\.[A-Za-z0-9]{2,8}$/\<close>\<close>

definition isRealExt :: "string \<Rightarrow> bool" where
  "isRealExt e \<longleftrightarrow>
     (case e of
        [] \<Rightarrow> False
      | c # cs \<Rightarrow> c = CHR ''.'' \<and> 2 \<le> length cs \<and> length cs \<le> 8 \<and> list_all isAlnum cs)"

definition splitNameExt :: "string \<Rightarrow> name_parts" where
  "splitNameExt name =
     (if take 1 name = ''.'' \<and> last_dot name = Some 0 then \<lparr> np_base = name, np_ext = [] \<rparr>
      else let ext = path_extname name
           in if ext = [] \<or> \<not> isRealExt ext then \<lparr> np_base = name, np_ext = [] \<rparr>
              else \<lparr> np_base = take (length name - length ext) name, np_ext = ext \<rparr>)"

definition fnp_isTaken :: "(string \<Rightarrow> bool) \<Rightarrow> string \<Rightarrow> string \<Rightarrow> bool \<Rightarrow> bool" where
  "fnp_isTaken exists dir name adjacentControlFile =
     (let finalPath = path_join [dir, name]
      in exists finalPath \<or> exists (finalPath @ INCOMPLETE_SUFFIX) \<or>
         (adjacentControlFile \<and> exists (finalPath @ ''.aria2'')))"

definition fnp_isReserved :: "(string \<Rightarrow> string) \<Rightarrow> string list \<Rightarrow> bool \<Rightarrow> string \<Rightarrow> bool" where
  "fnp_isReserved ident reservedNames adjacentControlFile name =
     (let reserved = map ident reservedNames
      in ident name \<in> set reserved \<or>
         ident (name @ INCOMPLETE_SUFFIX) \<in> set reserved \<or>
         ident (name @ INCOMPLETE_SUFFIX @ ''.aria2'') \<in> set reserved \<or>
         (adjacentControlFile \<and> ident (name @ ''.aria2'') \<in> set reserved))"

definition candidate :: "name_parts \<Rightarrow> nat \<Rightarrow> string" where
  "candidate p n =
     (if np_ext p \<noteq> [] then np_base p @ '' ('' @ show_nat n @ '')'' @ np_ext p
      else np_base p @ '' ('' @ show_nat n @ '')'')"

text \<open>The loop over \<open>n = 1 .. MAX_DEDUP_ATTEMPTS\<close>.\<close>

function dedup_loop :: "(string \<Rightarrow> bool) \<Rightarrow> name_parts \<Rightarrow> nat \<Rightarrow> string option" where
  "dedup_loop blocked p n =
     (if n > MAX_DEDUP_ATTEMPTS then None
      else if \<not> blocked (candidate p n) then Some (candidate p n)
      else dedup_loop blocked p (Suc n))"
  by auto
termination by (relation "measure (\<lambda>(b, p, n). Suc MAX_DEDUP_ATTEMPTS - n)") auto

declare dedup_loop.simps [simp del]

datatype pick_error = TaskCreateDedupExhausted string string

definition fnp_pick ::
  "(string \<Rightarrow> string) \<Rightarrow> (string \<Rightarrow> bool) \<Rightarrow> string \<Rightarrow> string \<Rightarrow> string list \<Rightarrow> bool \<Rightarrow>
   (pick_error, string) result" where
  "fnp_pick ident exists saveDir desiredName reservedNames adjacentControlFile =
     (let blocked = (\<lambda>name. fnp_isReserved ident reservedNames adjacentControlFile name \<or>
                            fnp_isTaken exists saveDir name adjacentControlFile)
      in if \<not> blocked desiredName then Inr desiredName
         else case dedup_loop blocked (splitNameExt desiredName) 1 of
                Some name \<Rightarrow> Inr name
              | None \<Rightarrow> Inl (TaskCreateDedupExhausted desiredName saveDir))"

section \<open>Names and candidates\<close>

lemma splitNameExt_ext:
  "np_ext (splitNameExt name) = [] \<or> isRealExt (np_ext (splitNameExt name))"
  by (simp add: splitNameExt_def Let_def)

lemma strip_trailing_noslash: "CHR ''/'' \<notin> set p \<Longrightarrow> strip_trailing p = p"
proof -
  assume a: "CHR ''/'' \<notin> set p"
  have "dropWhile (\<lambda>c. c = CHR ''/'') (rev p) = rev p"
  proof (cases "rev p")
    case (Cons c cs)
    then have "c \<in> set p" by (metis list.set_intros(1) set_rev)
    then show ?thesis using a Cons by auto
  qed simp
  then show ?thesis by (simp add: strip_trailing_def)
qed

lemma basename_noslash:
  assumes "CHR ''/'' \<notin> set p"
  shows "path_basename p = p"
proof -
  have "takeWhile (\<lambda>c. c \<noteq> CHR ''/'') (rev p) = rev p"
    using assms by (auto simp: takeWhile_eq_all_conv)
  then show ?thesis
    unfolding path_basename_def strip_trailing_noslash [OF assms] by (simp only: rev_rev_ident)
qed

text \<open>Splitting a file name loses nothing.\<close>

lemma splitNameExt_append:
  assumes "CHR ''/'' \<notin> set name"
  shows "np_base (splitNameExt name) @ np_ext (splitNameExt name) = name"
proof -
  have "take (length name - length (path_extname name)) name @ path_extname name = name"
    using assms
    by (auto simp: path_extname_def basename_noslash Let_def split: option.split dest: last_dot_split)
  then show ?thesis by (simp add: splitNameExt_def Let_def)
qed

lemma candidate_inject: "candidate p m = candidate p n \<Longrightarrow> m = n"
  by (simp add: candidate_def split: if_splits)

lemma candidate_longer:
  assumes "CHR ''/'' \<notin> set name"
  shows "candidate (splitNameExt name) n \<noteq> name"
proof -
  have "length (np_base (splitNameExt name)) + length (np_ext (splitNameExt name)) = length name"
    using splitNameExt_append [OF assms] by (metis length_append)
  then have "length (candidate (splitNameExt name) n) > length name"
    by (auto simp: candidate_def)
  then show ?thesis by auto
qed

lemma candidate_keeps_ext:
  "\<exists>stem. candidate (splitNameExt name) n = stem @ np_ext (splitNameExt name)"
  by (simp add: candidate_def)

lemma dedup_loop_Some:
  "dedup_loop blocked p n = Some name \<Longrightarrow>
   \<exists>k. n \<le> k \<and> k \<le> MAX_DEDUP_ATTEMPTS \<and> name = candidate p k \<and> \<not> blocked name \<and>
       (\<forall>j. n \<le> j \<and> j < k \<longrightarrow> blocked (candidate p j))"
proof (induction blocked p n rule: dedup_loop.induct)
  case (1 blocked p n)
  show ?case
  proof (cases "n > MAX_DEDUP_ATTEMPTS \<or> \<not> blocked (candidate p n)")
    case True
    then show ?thesis
      using "1.prems" by (subst (asm) dedup_loop.simps) (auto split: if_splits intro!: exI [of _ n])
  next
    case False
    then have "dedup_loop blocked p (Suc n) = Some name"
      using "1.prems" by (subst (asm) dedup_loop.simps) simp
    with "1.IH" False obtain k where k: "Suc n \<le> k" "k \<le> MAX_DEDUP_ATTEMPTS" "name = candidate p k"
      "\<not> blocked name" "\<forall>j. Suc n \<le> j \<and> j < k \<longrightarrow> blocked (candidate p j)" by auto
    have "blocked (candidate p j)" if "n \<le> j" "j < k" for j
      using that k(5) False by (cases "j = n") auto
    then show ?thesis using k by (intro exI [of _ k]) auto
  qed
qed

lemma dedup_loop_None:
  "dedup_loop blocked p n = None \<Longrightarrow> n \<le> j \<Longrightarrow> j \<le> MAX_DEDUP_ATTEMPTS \<Longrightarrow> blocked (candidate p j)"
proof (induction blocked p n rule: dedup_loop.induct)
  case (1 blocked p n)
  have "n \<le> MAX_DEDUP_ATTEMPTS" using "1.prems"(2,3) by simp
  then have b: "blocked (candidate p n)" and r: "dedup_loop blocked p (Suc n) = None"
    using "1.prems"(1) dedup_loop.simps [of blocked p n] by (auto split: if_splits)
  show ?case
  proof (cases "j = n")
    case False
    then have "Suc n \<le> j" using "1.prems"(2) by simp
    then show ?thesis
      using "1.IH" r b \<open>n \<le> MAX_DEDUP_ATTEMPTS\<close> "1.prems"(3) by simp
  qed (use b in simp)
qed

section \<open>The picked name\<close>

definition name_blocked ::
  "(string \<Rightarrow> string) \<Rightarrow> (string \<Rightarrow> bool) \<Rightarrow> string \<Rightarrow> string list \<Rightarrow> bool \<Rightarrow> string \<Rightarrow> bool" where
  "name_blocked ident exists dir reserved ctl name \<longleftrightarrow>
     fnp_isReserved ident reserved ctl name \<or> fnp_isTaken exists dir name ctl"

lemma fnp_pick_unfold:
  "fnp_pick ident exists dir name reserved ctl =
     (if \<not> name_blocked ident exists dir reserved ctl name then Inr name
      else case dedup_loop (name_blocked ident exists dir reserved ctl) (splitNameExt name) 1 of
             Some c \<Rightarrow> Inr c
           | None \<Rightarrow> Inl (TaskCreateDedupExhausted name dir))"
proof -
  have "(\<lambda>c. fnp_isReserved ident reserved ctl c \<or> fnp_isTaken exists dir c ctl) =
      name_blocked ident exists dir reserved ctl"
    by (simp add: name_blocked_def fun_eq_iff)
  then show ?thesis by (simp add: fnp_pick_def Let_def name_blocked_def)
qed

text \<open>
  a picked name never collides. The name returned is not reserved and neither the file, its
  incomplete companion nor (where asked) its control file exists; the desired name is kept
  whenever it is free, and otherwise the result is the first numbered variant that is free
  (the number stands before the extension).
\<close>
theorem picked_name_free:
  assumes "fnp_pick ident exists dir name reserved ctl = Inr picked"
  shows "\<not> fnp_isReserved ident reserved ctl picked \<and> \<not> fnp_isTaken exists dir picked ctl \<and>
    (picked = name \<or>
     (\<exists>k \<in> {1..9999}. picked = candidate (splitNameExt name) k \<and>
        name_blocked ident exists dir reserved ctl name \<and>
        (\<forall>j \<in> {1..<k}. name_blocked ident exists dir reserved ctl (candidate (splitNameExt name) j))))"
proof (cases "name_blocked ident exists dir reserved ctl name")
  case False
  then show ?thesis using assms by (auto simp: fnp_pick_unfold name_blocked_def)
next
  case True
  then have "dedup_loop (name_blocked ident exists dir reserved ctl) (splitNameExt name) 1 = Some picked"
    using assms by (simp add: fnp_pick_unfold split: option.splits)
  from dedup_loop_Some [OF this] obtain k where k: "1 \<le> k" "k \<le> MAX_DEDUP_ATTEMPTS"
    "picked = candidate (splitNameExt name) k" "\<not> name_blocked ident exists dir reserved ctl picked"
    "\<forall>j. 1 \<le> j \<and> j < k \<longrightarrow> name_blocked ident exists dir reserved ctl (candidate (splitNameExt name) j)"
    by blast
  have "k \<in> {1..9999}" using k(1,2) by (simp add: MAX_DEDUP_ATTEMPTS_def)
  then have "picked = name \<or>
     (\<exists>k \<in> {1..9999}. picked = candidate (splitNameExt name) k \<and>
        name_blocked ident exists dir reserved ctl name \<and>
        (\<forall>j \<in> {1..<k}. name_blocked ident exists dir reserved ctl (candidate (splitNameExt name) j)))"
    using k(3,5) True by auto
  then show ?thesis using k(4) by (simp add: name_blocked_def)
qed

lemma picked_name_free_witness:
  "fnp_pick id (\<lambda>p. p = ''/d/a.mp4'') ''/d'' ''a.mp4'' [] False = Inr ''a (1).mp4'' \<and>
   \<not> fnp_isTaken (\<lambda>p. p = ''/d/a.mp4'') ''/d'' ''a (1).mp4'' False"
proof -
  let ?ex = "\<lambda>p. p = ''/d/a.mp4''"
  have s: "splitNameExt ''a.mp4'' = \<lparr> np_base = ''a'', np_ext = ''.mp4'' \<rparr>"
    by (simp add: splitNameExt_def last_dot_def path_extname_def path_basename_def strip_trailing_def
        isRealExt_def isAlnum_def Let_def)
  have c: "candidate \<lparr> np_base = ''a'', np_ext = ''.mp4'' \<rparr> 1 = ''a (1).mp4''"
    by (simp add: candidate_def show_nat.simps char_of_def bit_0)
  have t: "fnp_isTaken ?ex ''/d'' ''a.mp4'' False" and f: "\<not> fnp_isTaken ?ex ''/d'' ''a (1).mp4'' False"
    by (simp_all add: fnp_isTaken_def path_join_def path_normalize_def path_segments_def isAbsolute_def
        norm_step_def INCOMPLETE_SUFFIX_def Let_def)
  have p: "fnp_pick id ?ex ''/d'' ''a.mp4'' [] False = Inr ''a (1).mp4''"
    using s c t f
    by (simp add: fnp_pick_unfold name_blocked_def fnp_isReserved_def Let_def dedup_loop.simps
        MAX_DEDUP_ATTEMPTS_def)
  show ?thesis using picked_name_free [OF p] p by blast
qed

text \<open>
  picking fails only when the directory really is full of the name: the error means that
  the desired name and all 9999 numbered variants are blocked, and these are pairwise different,
  so whenever fewer than 10000 names are blocked a name is found.
\<close>
theorem pick_succeeds:
  assumes "CHR ''/'' \<notin> set name" and "finite {n. name_blocked ident exists dir reserved ctl n}"
    and "card {n. name_blocked ident exists dir reserved ctl n} < 10000"
  shows "\<exists>picked. fnp_pick ident exists dir name reserved ctl = Inr picked"
proof (rule ccontr)
  let ?b = "name_blocked ident exists dir reserved ctl" and ?c = "candidate (splitNameExt name)"
  assume "\<not> ?thesis"
  then have b: "?b name" and l: "dedup_loop ?b (splitNameExt name) 1 = None"
    by (auto simp: fnp_pick_unfold split: if_splits option.splits)
  have "?c ` {1..9999} \<subseteq> {n. ?b n}"
    using dedup_loop_None [OF l] by (auto simp: MAX_DEDUP_ATTEMPTS_def)
  then have sub: "insert name (?c ` {1..9999}) \<subseteq> {n. ?b n}" using b by simp
  have "name \<notin> ?c ` {1..9999}"
    using candidate_longer [OF assms(1)] by (metis imageE)
  moreover have "card (?c ` {1..9999}) = card {1..9999::nat}"
    by (intro card_image inj_onI) (rule candidate_inject)
  ultimately have "card (insert name (?c ` {1..9999})) = 10000" by simp
  then show False using card_mono [OF assms(2) sub] assms(3) by simp
qed

lemma pick_succeeds_witness:
  "\<exists>picked. fnp_pick id (\<lambda>p. False) ''/d'' ''a.mp4'' [] False = Inr picked"
  by (rule pick_succeeds) (simp_all add: name_blocked_def fnp_isReserved_def fnp_isTaken_def Let_def)

section \<open>Whole-path limits\<close>

definition LONG_PATH_PREFIX :: string where
  "LONG_PATH_PREFIX = [CHR 0x5C, CHR 0x5C, CHR ''?'', CHR 0x5C]"

text \<open>The extended-length limit less the engine's longest prefix, the eight units of the UNC form.\<close>

definition WINDOWS_MAX_PATH :: nat where
  "WINDOWS_MAX_PATH = 32767 - 8"

record path_overrun =
  po_length :: nat
  po_limit :: nat
  po_path :: string

text \<open>A path is counted in UTF-16 units; \<open>units\<close> is that length.\<close>

definition exceedsPathLimit :: "(string \<Rightarrow> nat) \<Rightarrow> string \<Rightarrow> platform \<Rightarrow> (nat \<times> nat) option" where
  "exceedsPathLimit units filePath pf =
     (if pf \<noteq> Win32 then None
      else if take (length LONG_PATH_PREFIX) filePath = LONG_PATH_PREFIX then None
      else if units filePath \<le> WINDOWS_MAX_PATH then None
      else Some (units filePath, WINDOWS_MAX_PATH))"

fun findPathOverrun_loop ::
  "(string \<Rightarrow> nat) \<Rightarrow> platform \<Rightarrow> path_overrun option \<Rightarrow> string list \<Rightarrow> path_overrun option" where
  "findPathOverrun_loop units pf worst [] = worst"
| "findPathOverrun_loop units pf worst (c # cs) =
     findPathOverrun_loop units pf
       (if c = [] then worst
        else case exceedsPathLimit units c pf of
               None \<Rightarrow> worst
             | Some (len, lim) \<Rightarrow>
                 (case worst of
                    None \<Rightarrow> Some \<lparr> po_length = len, po_limit = lim, po_path = c \<rparr>
                  | Some w \<Rightarrow> if len > po_length w
                              then Some \<lparr> po_length = len, po_limit = lim, po_path = c \<rparr> else Some w)) cs"

definition findPathOverrun :: "(string \<Rightarrow> nat) \<Rightarrow> string list \<Rightarrow> platform \<Rightarrow> path_overrun option" where
  "findPathOverrun units candidates pf = findPathOverrun_loop units pf None candidates"

lemma findPathOverrun_loop_worst:
  "(findPathOverrun_loop units pf w cs = None \<longleftrightarrow>
      w = None \<and> (\<forall>c \<in> set cs. c \<noteq> [] \<longrightarrow> exceedsPathLimit units c pf = None)) \<and>
   (\<forall>r. findPathOverrun_loop units pf w cs = Some r \<longrightarrow>
      (\<forall>v. w = Some v \<longrightarrow> po_length v \<le> po_length r) \<and>
      (\<forall>c \<in> set cs. c \<noteq> [] \<longrightarrow> exceedsPathLimit units c pf \<noteq> None \<longrightarrow> units c \<le> po_length r) \<and>
      (w = Some r \<or> (po_path r \<in> set cs \<and> po_length r = units (po_path r) \<and>
         exceedsPathLimit units (po_path r) pf \<noteq> None)))"
proof (induction cs arbitrary: w)
  case (Cons c cs)
  show ?case
  proof (cases "c = [] \<or> exceedsPathLimit units c pf = None")
    case True
    then have "findPathOverrun_loop units pf w (c # cs) = findPathOverrun_loop units pf w cs"
      by auto
    then show ?thesis using Cons.IH [of w] True by auto
  next
    case False
    let ?n = "\<lparr> po_length = units c, po_limit = WINDOWS_MAX_PATH, po_path = c \<rparr>"
    have e: "exceedsPathLimit units c pf = Some (units c, WINDOWS_MAX_PATH)"
      using False by (auto simp: exceedsPathLimit_def split: if_splits)
    define w' where "w' = (case w of None \<Rightarrow> ?n | Some v \<Rightarrow> if units c > po_length v then ?n else v)"
    have "findPathOverrun_loop units pf w (c # cs) = findPathOverrun_loop units pf (Some w') cs"
      using False e by (cases w) (auto simp: w'_def)
    moreover have "units c \<le> po_length w'" "\<forall>v. w = Some v \<longrightarrow> po_length v \<le> po_length w'"
      "w = Some w' \<or> w' = ?n"
      by (auto simp: w'_def split: option.split)
    ultimately show ?thesis using Cons.IH [of "Some w'"] False e by fastforce
  qed
qed simp

text \<open>Nothing is reported exactly when every destination fits; otherwise the worst one is.\<close>

lemma findPathOverrun_worst:
  "(findPathOverrun units cs pf = None \<longleftrightarrow> (\<forall>c \<in> set cs. c \<noteq> [] \<longrightarrow> exceedsPathLimit units c pf = None)) \<and>
   (\<forall>r. findPathOverrun units cs pf = Some r \<longrightarrow>
      po_path r \<in> set cs \<and> po_length r = units (po_path r) \<and>
      (\<forall>c \<in> set cs. c \<noteq> [] \<longrightarrow> exceedsPathLimit units c pf \<noteq> None \<longrightarrow> units c \<le> po_length r))"
  using findPathOverrun_loop_worst [of units pf None cs] unfolding findPathOverrun_def by auto

end
