(* ===== verification/Transcript.thy ===== *)
theory Transcript
  imports Canonical
begin

text \<open>
  The byte strings both parties of a pairing bind into key confirmation,
  \<open>core/bridge/mbp1/transcript.ts\<close>. The SHA-256 of the runtime's crypto module is the
  parameter \<open>sha256\<close>; what is proved concerns the bytes that go into it.
\<close>

section \<open>Definitions\<close>

text \<open>\<open>concatBytes(a, b, ...)\<close>, whose arguments are evaluated in order and may throw.\<close>

fun concat_checked :: "byte list checked list \<Rightarrow> byte list checked" where
  "concat_checked [] = Inr []"
| "concat_checked (Inl e # rest) = Inl e"
| "concat_checked (Inr a # rest) =
     (case concat_checked rest of Inl e \<Rightarrow> Inl e | Inr b \<Rightarrow> Inr (a @ b))"

definition A_ID_LABEL :: string where "A_ID_LABEL = ''MBP1/A/v1''"
definition B_ID_LABEL :: string where "B_ID_LABEL = ''MBP1/B/v1''"
definition B_ID_ROLE :: string where "B_ID_ROLE = ''motrix-bridge''"

record client_identity =
  ci_browser :: string
  ci_verifiedOrigin :: string
  ci_claimedExtensionId :: string
  ci_clientInstallationId :: string
  ci_safariInstallationKey :: "string option"

definition buildAId :: "client_identity \<Rightarrow> byte list checked" where
  "buildAId f = concat_checked
     ([enc_str A_ID_LABEL, enc_str (ci_browser f), enc_str (ci_verifiedOrigin f),
       enc_str (ci_claimedExtensionId f), enc_str (ci_clientInstallationId f)] @
      (case ci_safariInstallationKey f of
         None \<Rightarrow> []
       | Some k \<Rightarrow> [enc_str ''MBP1/safari-installation/v1'', enc_str k]))"

definition buildBId :: "string \<Rightarrow> byte list checked" where
  "buildBId instanceId = concat_checked [enc_str B_ID_LABEL, enc_str B_ID_ROLE, enc_str instanceId]"

record ticket_wire =
  tw_v :: int
  tw_purpose :: string
  tw_protocolVersion :: int
  tw_serverGeneration :: string
  tw_browser :: string
  tw_callerId :: string
  tw_exp :: int
  tw_bindingPub :: "byte list"
  tw_mac :: "byte list"

definition ticket_data :: "ticket_wire \<Rightarrow> byte list checked" where
  "ticket_data t = concat_checked
     [encU32BE (tw_v t), enc_str (tw_purpose t), encU32BE (tw_protocolVersion t),
      enc_str (tw_serverGeneration t), enc_str (tw_browser t), enc_str (tw_callerId t),
      encU64BE (tw_exp t), enc_bytes (tw_bindingPub t), enc_bytes (tw_mac t)]"

definition ticketDigest :: "(byte list \<Rightarrow> byte list) \<Rightarrow> ticket_wire \<Rightarrow> byte list checked" where
  "ticketDigest sha256 t = (case ticket_data t of Inl e \<Rightarrow> Inl e | Inr d \<Rightarrow> Inr (sha256 d))"

definition enc_or_empty :: "byte list option \<Rightarrow> byte list checked" where
  "enc_or_empty b = (case b of Some x \<Rightarrow> enc_bytes x | None \<Rightarrow> enc_str [])"

definition buildAad :: "int \<Rightarrow> string \<Rightarrow> byte list option \<Rightarrow> byte list option \<Rightarrow> byte list checked" where
  "buildAad protocolVersion pairNonce ticketBindingKey digest = concat_checked
     [encU32BE protocolVersion, enc_str pairNonce, enc_or_empty ticketBindingKey, enc_or_empty digest]"

section \<open>Reading a concatenation back\<close>

lemma concat_checked_Cons:
  assumes "concat_checked (c # cs) = Inr z"
  obtains x y where "c = Inr x" "concat_checked cs = Inr y" "z = x @ y"
  using assms by (cases c) (auto split: sum.splits)

lemma concat_checked_enc_nonempty: "concat_checked (enc_str a # cs) \<noteq> Inr []"
proof
  assume "concat_checked (enc_str a # cs) = Inr []"
  then obtain x y where "enc_str a = Inr x" "[] = x @ y" by (rule concat_checked_Cons)
  then show False by (auto dest!: enc_str_Inr simp: enc_bytes_Inr)
     (metis length_le_bytes list.size(3) numeral_neq_zero)
qed

text \<open>Two field lists that are written as the same bytes.\<close>

definition same_bytes :: "byte list checked list \<Rightarrow> byte list checked list \<Rightarrow> bool" where
  "same_bytes cs ds \<longleftrightarrow> (\<exists>z. concat_checked cs = Inr z \<and> concat_checked ds = Inr z)"

text \<open>A field written with a prefix code can be read off the front of equal byte strings.\<close>

context prefix_code
begin

lemma peel:
  assumes "same_bytes (code a # cs) (code b # ds)"
  shows "a = b \<and> same_bytes cs ds"
proof -
  obtain z where z: "concat_checked (code a # cs) = Inr z" "concat_checked (code b # ds) = Inr z"
    using assms by (auto simp: same_bytes_def)
  obtain x y where 1: "code a = Inr x" "concat_checked cs = Inr y" "z = x @ y"
    using z(1) by (rule concat_checked_Cons)
  obtain x' y' where 2: "code b = Inr x'" "concat_checked ds = Inr y'" "z = x' @ y'"
    using z(2) by (rule concat_checked_Cons)
  have "a = b \<and> y = y'" using code_prefix [OF 1(1) 2(1), of y y'] 1(3) 2(3) by simp
  then show ?thesis using 1 2 by (simp add: same_bytes_def)
qed

end

lemmas peels = enc_str.peel enc_bytes.peel encU32BE.peel encU64BE.peel

lemma same_bytes_Nil: "\<not> same_bytes [] (enc_str a # cs)" "\<not> same_bytes (enc_str a # cs) []"
  using concat_checked_enc_nonempty [of a cs] by (auto simp: same_bytes_def)

lemma enc_or_empty_eq: "enc_or_empty b = enc_bytes (case b of Some x \<Rightarrow> x | None \<Rightarrow> [])"
  by (simp add: enc_or_empty_def enc_str_def asciiStringToBytes_def assertAscii_def utf8ToBytes_def
      split: option.split)

section \<open>The properties\<close>

text \<open>
  an identity string identifies. Two clients that differ in any field (browser, verified
  origin, claimed extension id, installation id, or the presence or value of the Safari key)
  never have the same \<open>A_id\<close>, two bridge instances never the same \<open>B_id\<close>, and no
  \<open>A_id\<close> is a \<open>B_id\<close>.
\<close>
theorem identities_injective:
  "(buildAId f = Inr z \<and> buildAId g = Inr z \<longrightarrow> f = g) \<and>
   (buildBId i = Inr z \<and> buildBId j = Inr z \<longrightarrow> i = j) \<and>
   \<not> (buildAId f = Inr z \<and> buildBId i = Inr z)"
proof (intro conjI impI notI; elim conjE)
  assume f: "buildAId f = Inr z" and g: "buildAId g = Inr z"
  let ?tail = "\<lambda>f. case ci_safariInstallationKey f of None \<Rightarrow> []
       | Some k \<Rightarrow> [enc_str ''MBP1/safari-installation/v1'', enc_str k]"
  have "same_bytes (enc_str A_ID_LABEL # enc_str (ci_browser f) # enc_str (ci_verifiedOrigin f) #
        enc_str (ci_claimedExtensionId f) # enc_str (ci_clientInstallationId f) # ?tail f)
      (enc_str A_ID_LABEL # enc_str (ci_browser g) # enc_str (ci_verifiedOrigin g) #
        enc_str (ci_claimedExtensionId g) # enc_str (ci_clientInstallationId g) # ?tail g)"
    using f g by (simp add: same_bytes_def buildAId_def)
  then have e: "ci_browser f = ci_browser g" "ci_verifiedOrigin f = ci_verifiedOrigin g"
      "ci_claimedExtensionId f = ci_claimedExtensionId g"
      "ci_clientInstallationId f = ci_clientInstallationId g"
    and t: "same_bytes (?tail f) (?tail g)" by (auto dest!: peels)
  have "ci_safariInstallationKey f = ci_safariInstallationKey g"
    using t same_bytes_Nil
    by (cases "ci_safariInstallationKey f"; cases "ci_safariInstallationKey g") (auto dest!: peels)
  then show "f = g" using e by (intro client_identity.equality) simp_all
next
  assume "buildBId i = Inr z" and "buildBId j = Inr z"
  then have "same_bytes [enc_str B_ID_LABEL, enc_str B_ID_ROLE, enc_str i]
      [enc_str B_ID_LABEL, enc_str B_ID_ROLE, enc_str j]"
    by (simp add: same_bytes_def buildBId_def)
  then show "i = j" by (auto dest!: peels)
next
  assume "buildAId f = Inr z" and "buildBId i = Inr z"
  then have "same_bytes (enc_str A_ID_LABEL # [enc_str (ci_browser f), enc_str (ci_verifiedOrigin f),
       enc_str (ci_claimedExtensionId f), enc_str (ci_clientInstallationId f)] @
      (case ci_safariInstallationKey f of None \<Rightarrow> []
       | Some k \<Rightarrow> [enc_str ''MBP1/safari-installation/v1'', enc_str k]))
      (enc_str B_ID_LABEL # [enc_str B_ID_ROLE, enc_str i])"
    by (simp add: same_bytes_def buildAId_def buildBId_def)
  then have "A_ID_LABEL = B_ID_LABEL" by (auto dest!: peels)
  then show False by (simp add: A_ID_LABEL_def B_ID_LABEL_def)
qed

text \<open>
  every field of a ticket is bound. Two tickets whose digest is computed from the same bytes
  agree in every wire field (version, purpose, protocol version, generation, browser, caller,
  expiry, binding key and MAC), and equal additional data fix the protocol version, the pairing
  nonce, and the binding key and digest up to an absent one counting as empty.
\<close>
theorem ticket_fields_bound:
  "(ticket_data t = Inr z \<and> ticket_data u = Inr z \<longrightarrow> t = u) \<and>
   (buildAad v n k d = Inr z \<and> buildAad v' n' k' d' = Inr z \<longrightarrow>
      v = v' \<and> n = n' \<and>
      (case k of Some x \<Rightarrow> x | None \<Rightarrow> []) = (case k' of Some x \<Rightarrow> x | None \<Rightarrow> []) \<and>
      (case d of Some x \<Rightarrow> x | None \<Rightarrow> []) = (case d' of Some x \<Rightarrow> x | None \<Rightarrow> []))"
proof (rule conjI; rule impI; erule conjE)
  let ?fields = "\<lambda>t. [encU32BE (tw_v t), enc_str (tw_purpose t), encU32BE (tw_protocolVersion t),
      enc_str (tw_serverGeneration t), enc_str (tw_browser t), enc_str (tw_callerId t),
      encU64BE (tw_exp t), enc_bytes (tw_bindingPub t), enc_bytes (tw_mac t)]"
  assume "ticket_data t = Inr z" and "ticket_data u = Inr z"
  then have "same_bytes (?fields t) (?fields u)"
    by (simp add: same_bytes_def ticket_data_def)
  then show "t = u" by (intro ticket_wire.equality) (auto dest!: peels)
next
  let ?get = "\<lambda>k::byte list option. case k of Some x \<Rightarrow> x | None \<Rightarrow> []"
  assume "buildAad v n k d = Inr z" "buildAad v' n' k' d' = Inr z"
  then have "same_bytes [encU32BE v, enc_str n, enc_bytes (?get k), enc_bytes (?get d)]
      [encU32BE v', enc_str n', enc_bytes (?get k'), enc_bytes (?get d')]"
    by (simp add: same_bytes_def buildAad_def enc_or_empty_eq)
  then show "v = v' \<and> n = n' \<and> ?get k = ?get k' \<and> ?get d = ?get d'" by (auto dest!: peels)
qed

definition example_client :: client_identity where
  "example_client = \<lparr> ci_browser = ''b'', ci_verifiedOrigin = ''o'', ci_claimedExtensionId = ''e'',
     ci_clientInstallationId = ''i'', ci_safariInstallationKey = Some ''k'' \<rparr>"

definition example_ticket :: ticket_wire where
  "example_ticket = \<lparr> tw_v = 1, tw_purpose = ''p'', tw_protocolVersion = 1, tw_serverGeneration = ''g'',
     tw_browser = ''b'', tw_callerId = ''c'', tw_exp = 7, tw_bindingPub = [1], tw_mac = [2] \<rparr>"

lemma example_encodings:
  "\<not> isl (buildAId example_client)" "\<not> isl (ticket_data example_ticket)" "\<not> isl (buildAad 1 ''n'' None (Some [1]))"
  by code_simp+

lemma identities_injective_witness:
  "\<exists>z. buildAId example_client = Inr z \<and> (\<forall>g. buildAId g = Inr z \<longrightarrow> example_client = g) \<and> buildBId ''b'' \<noteq> Inr z"
proof -
  obtain z where z: "buildAId example_client = Inr z"
    using example_encodings(1) by (cases "buildAId example_client") auto
  then show ?thesis using identities_injective [of example_client z] by blast
qed

lemma ticket_fields_bound_witness:
  "\<exists>z. ticket_data example_ticket = Inr z \<and> (\<forall>u. ticket_data u = Inr z \<longrightarrow> example_ticket = u)"
proof -
  obtain z where z: "ticket_data example_ticket = Inr z"
    using example_encodings(2) by (cases "ticket_data example_ticket") auto
  then show ?thesis using ticket_fields_bound [of example_ticket z] by blast
qed

end
