(* ===== verification/Envelope.thy ===== *)
theory Envelope
  imports Canonical
begin

text \<open>
  The encrypted frames that carry every message after a handshake,
  \<open>core/bridge/mbp1/envelope.ts\<close>: the sealer of one direction, the opener of the other end,
  the strict sequence check and the usage bounds of a key.

  AES-256-GCM of the runtime's crypto module is a pair of parameters: \<open>gcm_enc\<close> returns
  ciphertext and tag, \<open>gcm_dec\<close> the plaintext or \<open>None\<close> when authentication fails; both take
  the nonce and the associated data. The documented behaviour the code relies on is
  \<open>gcm_ok\<close> below.
\<close>

section \<open>Definitions\<close>

type_synonym gcm_enc = "byte list \<Rightarrow> byte list \<Rightarrow> byte list \<Rightarrow> byte list \<Rightarrow> byte list \<times> byte list"
type_synonym gcm_dec = "byte list \<Rightarrow> byte list \<Rightarrow> byte list \<Rightarrow> byte list \<Rightarrow> byte list \<Rightarrow> byte list option"

text \<open>Key, nonce, associated data, plaintext; decryption inverts encryption, the ciphertext is as
  long as the plaintext and the tag has 16 bytes.\<close>

definition gcm_ok :: "gcm_enc \<Rightarrow> gcm_dec \<Rightarrow> bool" where
  "gcm_ok gcm_enc gcm_dec \<longleftrightarrow>
     (\<forall>key nonce aad pt. let (ct, tag) = gcm_enc key nonce aad pt in
        length ct = length pt \<and> length tag = 16 \<and> gcm_dec key nonce aad ct tag = Some pt)"

datatype direction = DIR_C2S | DIR_S2C

fun dir_tag :: "direction \<Rightarrow> int" where
  "dir_tag DIR_C2S = 1"
| "dir_tag DIR_S2C = 2"

datatype side = Outbound | Inbound

datatype envelope_error = PlaintextTooLong nat | FrameTooShort nat | FrameTooLong
  | SequenceMismatch nat | AuthenticationFailed | EncodingError string
  | FrameLimit side | BlockLimit side

definition AAD :: "byte list" where "AAD = utf8ToBytes ''MBP1/env/v1''"
definition SEQ_LENGTH :: nat where "SEQ_LENGTH = 8"
definition TAG_LENGTH :: nat where "TAG_LENGTH = 16"
definition BLOCK_SIZE :: nat where "BLOCK_SIZE = 16"
definition MAX_ENVELOPE_PLAINTEXT_BYTES :: nat where "MAX_ENVELOPE_PLAINTEXT_BYTES = 1024 * 1024"
definition MAX_ENVELOPE_FRAME_BYTES :: nat where
  "MAX_ENVELOPE_FRAME_BYTES = MAX_ENVELOPE_PLAINTEXT_BYTES + SEQ_LENGTH + TAG_LENGTH"
definition MAX_ENVELOPE_FRAMES :: nat where "MAX_ENVELOPE_FRAMES = 2 ^ 24"
definition MAX_ENVELOPE_BLOCKS :: nat where "MAX_ENVELOPE_BLOCKS = 2 ^ 30"

definition assertFrameBoundNotReached :: "nat \<Rightarrow> side \<Rightarrow> (envelope_error, unit) result" where
  "assertFrameBoundNotReached seq side =
     (if seq \<ge> MAX_ENVELOPE_FRAMES then Inl (FrameLimit side) else Inr ())"

definition assertBlockBoundNotReached :: "nat \<Rightarrow> nat \<Rightarrow> side \<Rightarrow> (envelope_error, unit) result" where
  "assertBlockBoundNotReached blockCount blocks side =
     (if blockCount + blocks > MAX_ENVELOPE_BLOCKS then Inl (BlockLimit side) else Inr ())"

text \<open>\<open>Math.ceil(length / BLOCK_SIZE)\<close>\<close>

definition blockCountFor :: "nat \<Rightarrow> nat" where
  "blockCountFor len = (len + BLOCK_SIZE - 1) div BLOCK_SIZE"

definition buildNonce :: "direction \<Rightarrow> byte list \<Rightarrow> (envelope_error, byte list) result" where
  "buildNonce dir seqBytes =
     (case encU32BE (dir_tag dir) of
        Inl (ProtocolViolationError m) \<Rightarrow> Inl (EncodingError m)
      | Inr d \<Rightarrow> Inr (d @ seqBytes))"

text \<open>The state of a sealer and of an opener has the same four fields.\<close>

record endpoint =
  ep_key :: "byte list"
  ep_dir :: direction
  ep_seq :: nat
  ep_blockCount :: nat

definition ep_new :: "byte list \<Rightarrow> direction \<Rightarrow> nat \<Rightarrow> nat \<Rightarrow> endpoint" where
  "ep_new key dir startSeq startBlockCount =
     \<lparr> ep_key = key, ep_dir = dir, ep_seq = startSeq, ep_blockCount = startBlockCount \<rparr>"

definition ep_advance :: "endpoint \<Rightarrow> nat \<Rightarrow> endpoint" where
  "ep_advance s blocks = s \<lparr> ep_seq := ep_seq s + 1, ep_blockCount := ep_blockCount s + blocks \<rparr>"

definition seal :: "gcm_enc \<Rightarrow> endpoint \<Rightarrow> byte list \<Rightarrow> (envelope_error, byte list \<times> endpoint) result" where
  "seal gcm_enc s plaintext =
     (if length plaintext > MAX_ENVELOPE_PLAINTEXT_BYTES then Inl (PlaintextTooLong (length plaintext))
      else case assertFrameBoundNotReached (ep_seq s) Outbound of
        Inl e \<Rightarrow> Inl e
      | Inr _ \<Rightarrow>
        (let blocks = blockCountFor (length plaintext)
         in case assertBlockBoundNotReached (ep_blockCount s) blocks Outbound of
              Inl e \<Rightarrow> Inl e
            | Inr _ \<Rightarrow>
              (case encU64BE (int (ep_seq s)) of
                 Inl (ProtocolViolationError m) \<Rightarrow> Inl (EncodingError m)
               | Inr seqBytes \<Rightarrow>
                 (case buildNonce (ep_dir s) seqBytes of
                    Inl e \<Rightarrow> Inl e
                  | Inr nonce \<Rightarrow>
                    (let (ciphertext, tag) = gcm_enc (ep_key s) nonce AAD plaintext
                     in Inr (seqBytes @ ciphertext @ tag, ep_advance s blocks))))))"

definition open_frame ::
  "gcm_dec \<Rightarrow> endpoint \<Rightarrow> byte list \<Rightarrow> (envelope_error, byte list \<times> endpoint) result" where
  "open_frame gcm_dec s frame =
     (if length frame < SEQ_LENGTH + TAG_LENGTH then Inl (FrameTooShort (length frame))
      else if length frame - SEQ_LENGTH - TAG_LENGTH > MAX_ENVELOPE_PLAINTEXT_BYTES then Inl FrameTooLong
      else case assertFrameBoundNotReached (ep_seq s) Inbound of
        Inl e \<Rightarrow> Inl e
      | Inr _ \<Rightarrow>
        (let seqBytes = take SEQ_LENGTH frame
         in if os2ip seqBytes \<noteq> int (ep_seq s) then Inl (SequenceMismatch (ep_seq s))
            else let ciphertext = drop SEQ_LENGTH (take (length frame - TAG_LENGTH) frame);
                     tag = drop (length frame - TAG_LENGTH) frame
                 in case buildNonce (ep_dir s) seqBytes of
                      Inl e \<Rightarrow> Inl e
                    | Inr nonce \<Rightarrow>
                      (case gcm_dec (ep_key s) nonce AAD ciphertext tag of
                         None \<Rightarrow> Inl AuthenticationFailed
                       | Some plaintext \<Rightarrow>
                         (let blocks = blockCountFor (length plaintext)
                          in case assertBlockBoundNotReached (ep_blockCount s) blocks Inbound of
                               Inl e \<Rightarrow> Inl e
                             | Inr _ \<Rightarrow> Inr (plaintext, ep_advance s blocks)))))"

section \<open>Cases\<close>

lemma buildNonce_eq: "buildNonce d b = Inr (be_bytes 4 (dir_tag d) @ b)"
proof -
  have "encU32BE (dir_tag d) = Inr (be_bytes 4 (dir_tag d))"
    by (cases d) (simp_all add: encU32BE_Inr)
  then show ?thesis by (simp add: buildNonce_def)
qed

lemma frame_seq_encodable:
  "n < MAX_ENVELOPE_FRAMES \<Longrightarrow> encU64BE (int n) = Inr (be_bytes 8 (int n))"
  by (simp add: encU64BE_Inr MAX_ENVELOPE_FRAMES_def)

lemma seal_cases:
  assumes "seal gcm_enc s pt = Inr (frame, s')"
  obtains ct tag where
    "length pt \<le> MAX_ENVELOPE_PLAINTEXT_BYTES" "ep_seq s < MAX_ENVELOPE_FRAMES"
    "ep_blockCount s + blockCountFor (length pt) \<le> MAX_ENVELOPE_BLOCKS"
    "gcm_enc (ep_key s) (be_bytes 4 (dir_tag (ep_dir s)) @ be_bytes 8 (int (ep_seq s))) AAD pt = (ct, tag)"
    "frame = be_bytes 8 (int (ep_seq s)) @ ct @ tag"
    "s' = ep_advance s (blockCountFor (length pt))"
proof -
  have b: "length pt \<le> MAX_ENVELOPE_PLAINTEXT_BYTES" "ep_seq s < MAX_ENVELOPE_FRAMES"
    "ep_blockCount s + blockCountFor (length pt) \<le> MAX_ENVELOPE_BLOCKS"
    using assms
    by (auto simp: seal_def assertFrameBoundNotReached_def assertBlockBoundNotReached_def Let_def
        split: if_splits)
  obtain ct tag where g:
    "gcm_enc (ep_key s) (be_bytes 4 (dir_tag (ep_dir s)) @ be_bytes 8 (int (ep_seq s))) AAD pt = (ct, tag)"
    by fastforce
  show thesis
    using assms b g
    by (intro that [OF b g])
       (auto simp: seal_def assertFrameBoundNotReached_def assertBlockBoundNotReached_def Let_def
         frame_seq_encodable buildNonce_eq)
qed

lemma open_cases:
  assumes "open_frame gcm_dec s frame = Inr (pt, s')"
  shows "24 \<le> length frame \<and> length frame - 24 \<le> MAX_ENVELOPE_PLAINTEXT_BYTES \<and>
    ep_seq s < MAX_ENVELOPE_FRAMES \<and> os2ip (take 8 frame) = int (ep_seq s) \<and>
    gcm_dec (ep_key s) (be_bytes 4 (dir_tag (ep_dir s)) @ take 8 frame) AAD
      (drop 8 (take (length frame - 16) frame)) (drop (length frame - 16) frame) = Some pt \<and>
    ep_blockCount s + blockCountFor (length pt) \<le> MAX_ENVELOPE_BLOCKS \<and>
    s' = ep_advance s (blockCountFor (length pt))"
  using assms
  by (auto simp: open_frame_def assertFrameBoundNotReached_def assertBlockBoundNotReached_def Let_def
      buildNonce_eq SEQ_LENGTH_def TAG_LENGTH_def split: if_splits option.splits)

lemma advance_fields [simp]:
  "ep_seq (ep_advance s b) = Suc (ep_seq s)" "ep_blockCount (ep_advance s b) = ep_blockCount s + b"
  "ep_key (ep_advance s b) = ep_key s" "ep_dir (ep_advance s b) = ep_dir s"
  by (simp_all add: ep_advance_def)

section \<open>Round trip\<close>

lemma gcm_okD:
  assumes "gcm_ok gcm_enc gcm_dec" and e: "gcm_enc key nonce aad pt = (ct, tag)"
  shows "length ct = length pt \<and> length tag = 16 \<and> gcm_dec key nonce aad ct tag = Some pt"
proof -
  have "let (ct, tag) = gcm_enc key nonce aad pt in
      length ct = length pt \<and> length tag = 16 \<and> gcm_dec key nonce aad ct tag = Some pt"
    using assms(1) unfolding gcm_ok_def by blast
  then show ?thesis by (simp add: e)
qed

lemma open_seal:
  assumes "gcm_ok gcm_enc gcm_dec" and "seal gcm_enc s pt = Inr (frame, s')"
  shows "open_frame gcm_dec s frame = Inr (pt, s')"
  using assms(2)
proof (cases rule: seal_cases)
  case (1 ct tag)
  have g: "length ct = length pt" "length tag = 16"
    "gcm_dec (ep_key s) (be_bytes 4 (dir_tag (ep_dir s)) @ be_bytes 8 (int (ep_seq s))) AAD ct tag = Some pt"
    using gcm_okD [OF assms(1) 1(4)] by auto
  have seq: "os2ip (be_bytes 8 (int (ep_seq s))) = int (ep_seq s)"
    using 1(2) by (intro os2ip_be_bytes) (simp_all add: MAX_ENVELOPE_FRAMES_def)
  show ?thesis
    using 1 g seq
    by (simp add: open_frame_def assertFrameBoundNotReached_def assertBlockBoundNotReached_def Let_def
        buildNonce_eq SEQ_LENGTH_def TAG_LENGTH_def)
qed

fun seal_all :: "gcm_enc \<Rightarrow> endpoint \<Rightarrow> byte list list \<Rightarrow> (envelope_error, byte list list \<times> endpoint) result" where
  "seal_all e s [] = Inr ([], s)"
| "seal_all e s (pt # pts) =
     (case seal e s pt of
        Inl err \<Rightarrow> Inl err
      | Inr (frame, s1) \<Rightarrow>
          (case seal_all e s1 pts of Inl err \<Rightarrow> Inl err | Inr (frames, s2) \<Rightarrow> Inr (frame # frames, s2)))"

fun open_all :: "gcm_dec \<Rightarrow> endpoint \<Rightarrow> byte list list \<Rightarrow> (envelope_error, byte list list \<times> endpoint) result" where
  "open_all d s [] = Inr ([], s)"
| "open_all d s (frame # frames) =
     (case open_frame d s frame of
        Inl err \<Rightarrow> Inl err
      | Inr (pt, s1) \<Rightarrow>
          (case open_all d s1 frames of Inl err \<Rightarrow> Inl err | Inr (pts, s2) \<Rightarrow> Inr (pt # pts, s2)))"

text \<open>
  C16: what one end seals, the other end opens. When both ends of a direction start from the same
  key and counters, every sequence of messages that the sealer accepts is opened frame by frame
  to exactly those messages, in order, and both ends arrive at the same counters.
\<close>
theorem envelope_roundtrip:
  assumes "gcm_ok gcm_enc gcm_dec" and "seal_all gcm_enc s pts = Inr (frames, s')"
  shows "open_all gcm_dec s frames = Inr (pts, s')"
  using assms(2)
proof (induction pts arbitrary: s frames)
  case (Cons pt pts)
  then show ?case
    using open_seal [OF assms(1)] by (auto split: sum.splits)
qed simp

lemma seal_accepts:
  assumes "length pt \<le> MAX_ENVELOPE_PLAINTEXT_BYTES" "ep_seq s < MAX_ENVELOPE_FRAMES"
    "ep_blockCount s + blockCountFor (length pt) \<le> MAX_ENVELOPE_BLOCKS"
  shows "\<exists>frame. seal e s pt = Inr (frame, ep_advance s (blockCountFor (length pt)))"
  using assms
  by (auto simp: seal_def assertFrameBoundNotReached_def assertBlockBoundNotReached_def Let_def
      frame_seq_encodable buildNonce_eq split: prod.split)

lemma seal_two: "\<exists>frames s'. seal_all e (ep_new k d 0 0) [[1, 2], [3]] = Inr (frames, s')"
proof -
  note m = MAX_ENVELOPE_PLAINTEXT_BYTES_def MAX_ENVELOPE_FRAMES_def MAX_ENVELOPE_BLOCKS_def
    blockCountFor_def BLOCK_SIZE_def ep_new_def
  obtain f where f: "seal e (ep_new k d 0 0) [1, 2] = Inr (f, ep_advance (ep_new k d 0 0) 1)"
    using seal_accepts [of "[1, 2]" "ep_new k d 0 0" e] by (auto simp: m)
  obtain g s' where "seal e (ep_advance (ep_new k d 0 0) 1) [3] = Inr (g, s')"
    using seal_accepts [of "[3]" "ep_advance (ep_new k d 0 0) 1" e] by (auto simp: m)
  then show ?thesis using f by simp
qed

lemma gcm_example: "gcm_ok (\<lambda>k n a pt. (pt, replicate 16 0)) (\<lambda>k n a ct tag. if tag = replicate 16 0 then Some ct else None)"
  by (simp add: gcm_ok_def)

lemma envelope_roundtrip_witness:
  "\<exists>frames s'. seal_all (\<lambda>k n a pt. (pt, replicate 16 0)) (ep_new [] DIR_C2S 0 0) [[1, 2], [3]] = Inr (frames, s') \<and>
     open_all (\<lambda>k n a ct tag. if tag = replicate 16 0 then Some ct else None) (ep_new [] DIR_C2S 0 0) frames =
       Inr ([[1, 2], [3]], s')"
proof -
  obtain frames s' where "seal_all (\<lambda>k n a pt. (pt, replicate 16 0)) (ep_new [] DIR_C2S 0 0) [[1, 2], [3]] = Inr (frames, s')"
    using seal_two [of "\<lambda>k n a pt. (pt, replicate 16 0)" "[]" DIR_C2S] by blast
  then show ?thesis using envelope_roundtrip [OF gcm_example] by blast
qed

section \<open>Strict sequencing\<close>

text \<open>
  A receiver that accepts a frame only when the frame's stamp is its counter, and then advances
  the counter by one.
\<close>

locale strict_receiver =
  fixes accept :: "'s \<Rightarrow> 'f \<Rightarrow> 's option"
    and stamp :: "'f \<Rightarrow> int"
    and counter :: "'s \<Rightarrow> nat"
  assumes accept_stamp: "accept s f = Some s' \<Longrightarrow> stamp f = int (counter s)"
    and accept_counter: "accept s f = Some s' \<Longrightarrow> counter s' = Suc (counter s)"
begin

text \<open>A refused frame changes nothing, so the state after a list of frames is a fold.\<close>

fun accepted :: "'s \<Rightarrow> 'f list \<Rightarrow> 'f list" where
  "accepted s [] = []"
| "accepted s (f # fs) =
     (case accept s f of None \<Rightarrow> accepted s fs | Some s' \<Rightarrow> f # accepted s' fs)"

lemma accepted_stamps:
  "map stamp (accepted s fs) = map int [counter s..<counter s + length (accepted s fs)]"
proof (induction fs arbitrary: s)
  case (Cons f fs)
  show ?case
  proof (cases "accept s f")
    case None
    then show ?thesis using Cons.IH by simp
  next
    case (Some s')
    have "[counter s..<counter s + Suc (length (accepted s' fs))] =
        counter s # [Suc (counter s)..<Suc (counter s) + length (accepted s' fs)]"
      by (subst upt_conv_Cons) simp_all
    then show ?thesis
      using Some Cons.IH [of s'] accept_stamp [OF Some] accept_counter [OF Some] by simp
  qed
qed simp

lemma never_accepted_twice: "distinct (accepted s fs)"
proof -
  have "distinct (map stamp (accepted s fs))"
    unfolding accepted_stamps by (simp add: distinct_map inj_on_def)
  then show ?thesis by (simp add: distinct_map)
qed

end

definition open_accept :: "gcm_dec \<Rightarrow> endpoint \<Rightarrow> byte list \<Rightarrow> endpoint option" where
  "open_accept d s f = (case open_frame d s f of Inr (_, s') \<Rightarrow> Some s' | Inl _ \<Rightarrow> None)"

lemma open_accept_Some: "open_accept d s f = Some s' \<Longrightarrow> \<exists>pt. open_frame d s f = Inr (pt, s')"
  by (auto simp: open_accept_def split: sum.splits)

interpretation opener: strict_receiver "open_accept d" "\<lambda>f. os2ip (take 8 f)" ep_seq for d
  by unfold_locales (auto dest!: open_accept_Some open_cases)

text \<open>The frames an opener accepts from any stream of frames, refused ones being skipped.\<close>

fun opened :: "gcm_dec \<Rightarrow> endpoint \<Rightarrow> byte list list \<Rightarrow> byte list list" where
  "opened d s [] = []"
| "opened d s (f # fs) =
     (case open_accept d s f of None \<Rightarrow> opened d s fs | Some s' \<Rightarrow> f # opened d s' fs)"

lemma opened_accepted: "opened d s fs = opener.accepted d s fs"
  by (induction fs arbitrary: s) (auto split: option.split)

text \<open>
  C1: no replay, no gap, no reordering. Whatever frames arrive, from whoever sends them and
  whatever the cipher does, the frames one opener accepts carry exactly the consecutive sequence
  numbers that start at its counter; hence none is accepted twice.
\<close>
theorem envelope_no_replay:
  "map (\<lambda>f. os2ip (take 8 f)) (opened gcm_dec s fs) =
     map int [ep_seq s..<ep_seq s + length (opened gcm_dec s fs)] \<and>
   distinct (opened gcm_dec s fs)"
  unfolding opened_accepted using opener.accepted_stamps opener.never_accepted_twice by blast

section \<open>Usage bounds\<close>

lemma seal_all_bounds:
  assumes "seal_all e s pts = Inr (frames, s')"
  shows "ep_seq s' = ep_seq s + length frames \<and> length frames = length pts \<and>
    ep_blockCount s' = ep_blockCount s + (\<Sum>pt\<leftarrow>pts. blockCountFor (length pt)) \<and>
    (pts \<noteq> [] \<longrightarrow> ep_seq s' \<le> MAX_ENVELOPE_FRAMES \<and> ep_blockCount s' \<le> MAX_ENVELOPE_BLOCKS) \<and>
    (ep_seq s' \<le> MAX_ENVELOPE_FRAMES \<longrightarrow>
      map (take 8) frames = map (\<lambda>n. be_bytes 8 (int n)) [ep_seq s..<ep_seq s'])"
  using assms
proof (induction pts arbitrary: s frames)
  case (Cons pt pts)
  obtain f s1 fs where 1: "seal e s pt = Inr (f, s1)" "seal_all e s1 pts = Inr (fs, s')" "frames = f # fs"
    using Cons.prems by (auto split: sum.splits)
  from 1(1) show ?case
  proof (cases rule: seal_cases)
    case (1 ct tag)
    note IH = Cons.IH [OF \<open>seal_all e s1 pts = Inr (fs, s')\<close>]
    have upt: "[ep_seq s..<ep_seq s'] = ep_seq s # [Suc (ep_seq s)..<ep_seq s']"
      using IH 1(6) by (intro upt_conv_Cons) simp
    have "take 8 f = be_bytes 8 (int (ep_seq s))" using 1(5) by simp
    then show ?thesis
      using IH 1 upt \<open>frames = f # fs\<close> by (cases "pts = []") auto
  qed
qed simp

text \<open>The calls of the cipher behind the frames: their nonces, in the order of the messages.\<close>

definition nonce_of :: "direction \<Rightarrow> nat \<Rightarrow> byte list" where
  "nonce_of dir n = be_bytes 4 (dir_tag dir) @ be_bytes 8 (int n)"

definition framed :: "gcm_enc \<Rightarrow> byte list \<Rightarrow> byte list \<Rightarrow> byte list \<Rightarrow> byte list" where
  "framed gcm_enc key nonce pt = drop 4 nonce @ (case gcm_enc key nonce AAD pt of (ct, tag) \<Rightarrow> ct @ tag)"

lemma seal_all_frames:
  assumes "seal_all e s pts = Inr (frames, s')"
  shows "frames = map2 (framed e (ep_key s)) (map (nonce_of (ep_dir s)) [ep_seq s..<ep_seq s']) pts \<and>
    list_all (\<lambda>pt. length pt \<le> MAX_ENVELOPE_PLAINTEXT_BYTES) pts"
  using assms
proof (induction pts arbitrary: s frames)
  case (Cons pt pts)
  obtain f s1 fs where 1: "seal e s pt = Inr (f, s1)" "seal_all e s1 pts = Inr (fs, s')" "frames = f # fs"
    using Cons.prems by (auto split: sum.splits)
  have upt: "[ep_seq s1..<ep_seq s'] = [Suc (ep_seq s)..<ep_seq s']" "ep_key s1 = ep_key s" "ep_dir s1 = ep_dir s"
      "ep_seq s < ep_seq s'"
    using seal_all_bounds [OF 1(2)] 1(1) by (auto elim!: seal_cases simp: ep_advance_def)
  from 1(1) show ?case
  proof (cases rule: seal_cases)
    case (1 ct tag)
    have "f = framed e (ep_key s) (nonce_of (ep_dir s) (ep_seq s)) pt"
      using 1(4,5) by (simp add: framed_def nonce_of_def)
    then show ?thesis
      using Cons.IH [OF \<open>seal_all e s1 pts = Inr (fs, s')\<close>] 1(1) upt \<open>frames = f # fs\<close> by (simp add: upt_conv_Cons)
  qed
qed simp

text \<open>
  C34: no nonce is ever used twice under a key, and the key's usage bounds hold. Whatever the cipher, the frames a
  fresh sealer makes of a run of messages are what the cipher returns for pairwise different nonces of 12 bytes, whose
  first four are those of the direction, so that neither the same nor the other direction uses one again; each frame
  shows the rest of its nonce; no message is longer than 1 MiB, and at most 2^24 frames and 2^30 blocks are sealed.
\<close>
theorem envelope_nonces_unique:
  assumes "seal_all gcm_enc (ep_new key dir 0 0) pts = Inr (frames, s')"
  shows "(\<exists>nonces. length nonces = length pts \<and> distinct nonces \<and>
      list_all (\<lambda>n. length n = 12 \<and> take 4 n = be_bytes 4 (dir_tag dir)) nonces \<and>
      frames = map2 (\<lambda>n pt. drop 4 n @ (case gcm_enc key n AAD pt of (ct, tag) \<Rightarrow> ct @ tag)) nonces pts) \<and>
    list_all (\<lambda>pt. length pt \<le> 1024 * 1024) pts \<and> length frames \<le> 2 ^ 24 \<and>
    (\<Sum>pt\<leftarrow>pts. blockCountFor (length pt)) \<le> 2 ^ 30"
proof -
  note b = seal_all_bounds [OF assms]
  have n: "ep_seq s' = length pts" using b by (simp add: ep_new_def)
  have bounds: "length pts \<le> 2 ^ 24" "(\<Sum>pt\<leftarrow>pts. blockCountFor (length pt)) \<le> 2 ^ 30"
    using b by (cases "pts = []"; simp add: ep_new_def MAX_ENVELOPE_FRAMES_def MAX_ENVELOPE_BLOCKS_def)+
  let ?nonces = "map (nonce_of dir) [0..<length pts]"
  have "inj_on (nonce_of dir) (set [0..<length pts])"
  proof (rule inj_onI)
    fix m k assume "m \<in> set [0..<length pts]" "k \<in> set [0..<length pts]" "nonce_of dir m = nonce_of dir k"
    then show "m = k"
      using be_bytes_inj [of 8 "int m" "int k"] bounds(1) by (simp add: nonce_of_def)
  qed
  then have "distinct ?nonces" by (simp add: distinct_map)
  moreover have "frames = map2 (framed gcm_enc key) ?nonces pts" "list_all (\<lambda>pt. length pt \<le> 1024 * 1024) pts"
    using seal_all_frames [OF assms] n by (simp_all add: ep_new_def MAX_ENVELOPE_PLAINTEXT_BYTES_def)
  moreover have "list_all (\<lambda>n. length n = 12 \<and> take 4 n = be_bytes 4 (dir_tag dir)) ?nonces"
    by (simp add: list_all_iff nonce_of_def)
  moreover have "length frames \<le> 2 ^ 24" using b bounds(1) by simp
  ultimately show ?thesis using bounds(2) unfolding framed_def by (intro conjI exI [where x = ?nonces]) simp_all
qed

lemma envelope_nonces_unique_witness:
  "\<exists>frames s'. seal_all (\<lambda>k n a pt. (pt, n)) (ep_new [] DIR_C2S 0 0) [[1, 2], [3]] = Inr (frames, s') \<and>
     (\<exists>a b. length a = 12 \<and> length b = 12 \<and> a \<noteq> b \<and> frames = [drop 4 a @ [1, 2] @ a, drop 4 b @ [3] @ b])"
proof -
  obtain frames s' where run: "seal_all (\<lambda>k n a pt. (pt, n)) (ep_new [] DIR_C2S 0 0) [[1, 2], [3]] = Inr (frames, s')"
    using seal_two [of "\<lambda>k n a pt. (pt, n)" "[]" DIR_C2S] by blast
  from conjunct1 [OF envelope_nonces_unique [OF run]] obtain ns where
    ns': "length ns = length [[1, 2], [3 :: byte]]" "distinct ns"
      "list_all (\<lambda>n. length n = 12 \<and> take 4 n = be_bytes 4 (dir_tag DIR_C2S)) ns"
      "frames = map2 (\<lambda>n pt. drop 4 n @ (case (pt, n) of (ct, tag) \<Rightarrow> ct @ tag)) ns [[1, 2], [3]]"
    by blast
  then have ns: "length ns = 2" "distinct ns" "list_all (\<lambda>n. length n = 12) ns"
      "frames = map2 (\<lambda>n pt. drop 4 n @ pt @ n) ns [[1, 2], [3]]"
    by (simp_all add: list_all_iff)
  then obtain a b where "ns = [a, b]" by (cases ns; cases "tl ns") auto
  then show ?thesis using run ns by (intro exI [of _ frames] exI [of _ s'] conjI exI [of _ a] exI [of _ b]) simp_all
qed

end
