(* ===== verification/Epoch_Guard.thy ===== *)
theory Epoch_Guard
  imports Main
begin

text \<open>
  The guard that asynchronous code of the repository shares: a counter is captured before an
  \<open>await\<close> and compared after it; whatever invalidates the operation increments the counter.
  The locale states what the guard needs (the counter never decreases) and proves what its
  users rely on: a captured value that has been passed never becomes current again.
\<close>

locale epoch_guard =
  fixes epoch :: "'s \<Rightarrow> nat"
    and step :: "'s \<Rightarrow> 's \<Rightarrow> bool"
  assumes epoch_mono: "step s s' \<Longrightarrow> epoch s \<le> epoch s'"
begin

inductive steps :: "'s \<Rightarrow> 's \<Rightarrow> bool" where
  refl: "steps s s"
| trans: "steps s s' \<Longrightarrow> step s' s'' \<Longrightarrow> steps s s''"

lemma epoch_steps: "steps s s' \<Longrightarrow> epoch s \<le> epoch s'"
  by (induction rule: steps.induct) (auto dest: epoch_mono)

lemma stale_forever:
  assumes "token < epoch s" and "steps s s'"
  shows "token \<noteq> epoch s'"
  using assms(1) epoch_steps [OF assms(2)] by simp

lemma invalidated:
  assumes "token \<le> epoch s" and "epoch s < epoch t" and "steps t u"
  shows "token \<noteq> epoch u"
  using stale_forever [of token t u] assms by simp

end

end
