(* ===== verification/Completion_Shutdown.thy ===== *)
theory Completion_Shutdown
  imports Task_Model Epoch_Guard
begin

text \<open>
  Shutting the computer down when the downloads are done,
  \<open>core/task/completion-shutdown-controller.ts\<close>.

  Each stretch of code between two \<open>await\<close>s is one operation. What it reads from outside (the
  tasks, whether startup has finished, the two clocks, whether the lease has incoming work) is
  the record \<open>env\<close> of that moment. The asynchronous calls in flight are part of the state: the
  generation of each pending probe, and for each run of \<open>execute\<close> its generation and how far it
  has come. Calls to the outside are appended to \<open>cs_out\<close>. A timer tick is a call of
  \<open>evaluate\<close>; the promise race of the ten-second timeout is the step that makes it reject.
\<close>

section \<open>State\<close>

datatype phase = Off | Waiting | Countdown | Preparing | Requested | Failed

datatype shutdown_error = ErrUnavailable | ErrFailed

datatype effect = OnState phase | OnError | ReleaseLease nat | RequestShutdown nat | SaveSession nat

record env =
  ev_tasks :: "DownloadTask list"
  ev_isReady :: bool
  ev_wall :: int
  ev_mono :: int
  ev_incoming :: bool

datatype run_stage = Draining | Saving | Raced bool | Requesting

record controller =
  cs_supported :: bool
  cs_phase :: phase
  cs_deadline :: "int option"
  cs_error :: "shutdown_error option"
  cs_generation :: nat
  cs_participants :: "string jsetof"
  cs_historical :: "string jsetof option"
  cs_authorizing :: bool
  cs_timer :: bool
  cs_lastTick :: int
  cs_lastMonotonicTick :: int
  cs_monotonicDeadline :: int
  cs_preparation :: "nat option"
  cs_disposed :: bool
  cs_probes :: "nat list"
  cs_runs :: "(nat, run_stage) jmap"
  cs_out :: "effect list"

definition COUNTDOWN_MS :: int where "COUNTDOWN_MS = 60000"

definition isFinished :: "DownloadTask \<Rightarrow> bool" where
  "isFinished t \<longleftrightarrow> \<not> dt_storageOperation t \<and>
     (dt_status t = Completed \<or> dt_status t = Seeding) \<and> dt_transitionPhase t = Idle"

definition cs_new :: "bool \<Rightarrow> controller" where
  "cs_new supported =
   \<lparr> cs_supported = supported, cs_phase = Off, cs_deadline = None, cs_error = None,
     cs_generation = 0, cs_participants = [], cs_historical = None, cs_authorizing = False,
     cs_timer = False, cs_lastTick = 0, cs_lastMonotonicTick = 0, cs_monotonicDeadline = 0,
     cs_preparation = None, cs_disposed = False, cs_probes = [], cs_runs = [], cs_out = [] \<rparr>"

section \<open>Operations\<close>

definition emit :: "effect \<Rightarrow> controller \<Rightarrow> controller" where
  "emit e s = s \<lparr> cs_out := cs_out s @ [e] \<rparr>"

definition cs_update :: "phase \<Rightarrow> int option \<Rightarrow> shutdown_error option \<Rightarrow> controller \<Rightarrow> controller" where
  "cs_update p deadline err s =
     emit (OnState p) (s \<lparr> cs_phase := p, cs_deadline := deadline, cs_error := err \<rparr>)"

definition bump :: "controller \<Rightarrow> controller" where
  "bump s = s \<lparr> cs_generation := cs_generation s + 1 \<rparr>"

definition clearTimer :: "controller \<Rightarrow> controller" where
  "clearTimer s = s \<lparr> cs_timer := False \<rparr>"

definition releasePreparation :: "controller \<Rightarrow> controller" where
  "releasePreparation s =
     (case cs_preparation s of
        None \<Rightarrow> s
      | Some g \<Rightarrow> (emit (ReleaseLease g) s) \<lparr> cs_preparation := None \<rparr>)"

definition cancel :: "controller \<Rightarrow> controller" where
  "cancel s =
     cs_update Off None None
       ((releasePreparation (clearTimer (bump s)))
          \<lparr> cs_participants := [], cs_historical := None, cs_authorizing := False \<rparr>)"

definition interrupt :: "controller \<Rightarrow> controller" where
  "interrupt s =
     (if cs_phase s \<noteq> Countdown \<and> cs_phase s \<noteq> Preparing then s
      else cs_update Waiting None None (releasePreparation (bump s)))"

definition observeClock :: "env \<Rightarrow> controller \<Rightarrow> controller" where
  "observeClock e s =
     (let elapsed = ev_mono e - cs_lastMonotonicTick s;
          s1 = (if elapsed > 5000 \<or> \<bar>ev_wall e - cs_lastTick s - elapsed\<bar> > 5000
                then interrupt s else s)
      in s1 \<lparr> cs_lastTick := ev_wall e, cs_lastMonotonicTick := ev_mono e \<rparr>)"

definition live_tasks :: "env \<Rightarrow> DownloadTask list" where
  "live_tasks e = filter (\<lambda>t. dt_status t \<noteq> Removed) (ev_tasks e)"

definition baseline :: "env \<Rightarrow> controller \<Rightarrow> string jsetof" where
  "baseline e s =
     (case cs_historical s of
        Some h \<Rightarrow> h
      | None \<Rightarrow> sadds [] (map dt_id (filter (\<lambda>t. dt_status t = Completed) (live_tasks e))))"

text \<open>The loop that adds participants, and whether it added one.\<close>

fun collect_loop :: "string jsetof \<Rightarrow> string jsetof \<Rightarrow> bool \<Rightarrow> DownloadTask list \<Rightarrow> string jsetof \<times> bool" where
  "collect_loop historical participants added [] = (participants, added)"
| "collect_loop historical participants added (t # ts) =
     (if (dt_id t \<notin> set historical \<or> dt_status t \<noteq> Completed) \<and> dt_id t \<notin> set participants
      then collect_loop historical (sadd participants (dt_id t)) True ts
      else collect_loop historical participants added ts)"

text \<open>\<open>collectTasks\<close>: the tasks it returns (\<open>None\<close> is \<open>null\<close>) and the new state.\<close>

definition collectTasks :: "env \<Rightarrow> controller \<Rightarrow> DownloadTask list option \<times> controller" where
  "collectTasks e s =
     (if \<not> ev_isReady e then (None, s)
      else let tasks = live_tasks e;
               s1 = s \<lparr> cs_historical := Some (baseline e s) \<rparr>
           in if list_ex (\<lambda>i. i \<notin> set (map dt_id tasks)) (cs_participants s1) then (None, cancel s1)
              else let (ps, added) = collect_loop (baseline e s) (cs_participants s1) False tasks;
                       s2 = s1 \<lparr> cs_participants := ps \<rparr>
                   in (Some tasks, if added then interrupt s2 else s2))"

definition ready :: "env \<Rightarrow> controller \<Rightarrow> bool \<times> controller" where
  "ready e s =
     (let (tasks, s1) = collectTasks e s
      in (case tasks of
            None \<Rightarrow> False
          | Some ts \<Rightarrow> length (cs_participants s1) > 0 \<and> list_all isFinished ts, s1))"

text \<open>\<open>setEnabled\<close> up to its first \<open>await\<close>, and the continuation once the probe settles.\<close>

definition setEnabled :: "bool \<Rightarrow> env \<Rightarrow> controller \<Rightarrow> controller" where
  "setEnabled enabled e s =
     (if cs_disposed s then s
      else if \<not> enabled then cancel s
      else if cs_authorizing s \<or> cs_phase s \<in> {Waiting, Countdown, Preparing, Requested} then s
      else let s1 = (bump s) \<lparr> cs_participants := [], cs_historical := None, cs_authorizing := True \<rparr>;
               generation = cs_generation s1;
               s2 = snd (collectTasks e s1)
           in if \<not> cs_supported s2 then
                (if generation = cs_generation s2
                 then cs_update Failed None (Some ErrUnavailable)
                        (emit OnError (s2 \<lparr> cs_authorizing := False \<rparr>))
                 else s2)
              else s2 \<lparr> cs_probes := cs_probes s2 @ [generation] \<rparr>)"

definition startRun :: "bool \<Rightarrow> controller \<Rightarrow> controller" where
  "startRun prepareOk s =
     (let s1 = cs_update Preparing None None (bump s);
          generation = cs_generation s1
      in if prepareOk
         then s1 \<lparr> cs_preparation := Some generation,
                   cs_runs := jset (cs_runs s1) generation Draining \<rparr>
         else if \<not> cs_disposed s1
         then cs_update Failed None (Some ErrFailed) (emit OnError (clearTimer (bump s1)))
         else s1)"

definition evaluate :: "env \<Rightarrow> bool \<Rightarrow> controller \<Rightarrow> controller" where
  "evaluate e prepareOk s =
     (if cs_authorizing s then snd (collectTasks e s)
      else let s1 = (if cs_phase s \<in> {Waiting, Countdown, Preparing} then observeClock e s else s)
           in if cs_phase s1 = Preparing then
                (let (r, s2) = ready e s1 in if \<not> r then interrupt s2 else s2)
              else if cs_phase s1 \<noteq> Waiting \<and> cs_phase s1 \<noteq> Countdown then s1
              else let (r, s2) = ready e s1
                   in if \<not> r then (if cs_phase s2 = Countdown then interrupt s2 else s2)
                      else if cs_phase s2 = Waiting
                      then cs_update Countdown (Some (ev_wall e + COUNTDOWN_MS)) None
                             (s2 \<lparr> cs_monotonicDeadline := ev_mono e + COUNTDOWN_MS \<rparr>)
                      else if cs_deadline s2 \<noteq> None \<and> ev_mono e \<ge> cs_monotonicDeadline s2
                      then startRun prepareOk s2
                      else s2)"

definition probeSettled :: "nat \<Rightarrow> bool \<Rightarrow> env \<Rightarrow> bool \<Rightarrow> controller \<Rightarrow> controller" where
  "probeSettled generation ok e prepareOk s0 =
     (let s = s0 \<lparr> cs_probes := remove1 generation (cs_probes s0) \<rparr>
      in if generation \<noteq> cs_generation s then s
         else if \<not> ok
         then cs_update Failed None (Some ErrUnavailable) (emit OnError (s \<lparr> cs_authorizing := False \<rparr>))
         else evaluate e prepareOk
                ((cs_update Waiting None None (s \<lparr> cs_authorizing := False \<rparr>))
                   \<lparr> cs_lastTick := ev_wall e, cs_lastMonotonicTick := ev_mono e, cs_timer := True \<rparr>))"

section \<open>The stages of one run\<close>

definition current :: "nat \<Rightarrow> controller \<Rightarrow> bool" where
  "current generation s \<longleftrightarrow> generation = cs_generation s \<and> \<not> cs_disposed s"

definition setStage :: "nat \<Rightarrow> run_stage \<Rightarrow> controller \<Rightarrow> controller" where
  "setStage g st s = s \<lparr> cs_runs := jset (cs_runs s) g st \<rparr>"

text \<open>The \<open>finally\<close> block ends the run: its lease is released, once more if need be.\<close>

definition finishRun :: "nat \<Rightarrow> controller \<Rightarrow> controller" where
  "finishRun g s =
     (let s1 = (emit (ReleaseLease g) s) \<lparr> cs_runs := jdel (cs_runs s) g \<rparr>
      in if cs_preparation s1 = Some g then s1 \<lparr> cs_preparation := None \<rparr> else s1)"

text \<open>
  The drain settles: the continuation that may save. (After a timeout the continuation still
  runs when the drain settles late, but the run is no longer current by then and it does nothing.)
\<close>

definition drained :: "nat \<Rightarrow> env \<Rightarrow> controller \<Rightarrow> controller" where
  "drained g e s =
     (if \<not> current g s \<or> ev_incoming e then setStage g (Raced False) s
      else let (r, s1) = ready e s
           in if \<not> r \<or> \<not> current g s1 then setStage g (Raced False) s1
              else emit (SaveSession g) (setStage g Saving s1))"

definition saved :: "nat \<Rightarrow> controller \<Rightarrow> controller" where
  "saved g s = setStage g (Raced True) s"

text \<open>The \<open>catch\<close> block: the drain, the save, the timeout or the platform action rejected.\<close>

definition runRejected :: "nat \<Rightarrow> controller \<Rightarrow> controller" where
  "runRejected g s =
     finishRun g
       (if current g s
        then cs_update Failed None (Some ErrFailed) (emit OnError (clearTimer (bump s)))
        else s)"

text \<open>
  After the race. \<open>cancels\<close> says whether the state callback of \<open>update('requested')\<close> cancels
  the plan from inside, the case the test after that call guards against.
\<close>

definition raceWon :: "nat \<Rightarrow> bool \<Rightarrow> env \<Rightarrow> bool \<Rightarrow> controller \<Rightarrow> controller" where
  "raceWon g isSaved e cancels s =
     (if \<not> current g s then finishRun g s
      else let s1 = observeClock e s
           in if \<not> current g s1 then finishRun g s1
              else let (r, s2) = (if \<not> isSaved \<or> ev_incoming e then (False, s1) else ready e s1)
                   in if \<not> r \<or> \<not> current g s2
                      then finishRun g (if current g s2 then cs_update Waiting None None s2 else s2)
                      else let s3 = cs_update Requested None None (clearTimer s2);
                               s4 = (if cancels then cancel s3 else s3)
                           in if \<not> current g s4 then finishRun g s4
                              else emit (RequestShutdown g) (setStage g Requesting s4))"

definition dispose :: "controller \<Rightarrow> controller" where
  "dispose s = cancel (s \<lparr> cs_disposed := True \<rparr>)"

section \<open>Steps\<close>

inductive cs_step :: "controller \<Rightarrow> controller \<Rightarrow> bool" where
  enable: "cs_step s (setEnabled b e s)"
| probe: "g \<in> set (cs_probes s) \<Longrightarrow> cs_step s (probeSettled g ok e p s)"
| tick: "cs_step s (evaluate e p s)"
| interrupt: "cs_step s (interrupt s)"
| cancel: "cs_step s (cancel s)"
| dispose: "cs_step s (dispose s)"
| drained: "map_of (cs_runs s) g = Some Draining \<Longrightarrow> cs_step s (drained g e s)"
| saved: "map_of (cs_runs s) g = Some Saving \<Longrightarrow> cs_step s (saved g s)"
| rejected: "map_of (cs_runs s) g = Some st \<Longrightarrow> (\<And>b. st \<noteq> Raced b) \<Longrightarrow> cs_step s (runRejected g s)"
| race: "map_of (cs_runs s) g = Some (Raced b) \<Longrightarrow> cs_step s (raceWon g b e c s)"
| requested: "map_of (cs_runs s) g = Some Requesting \<Longrightarrow> cs_step s (finishRun g s)"

inductive cs_reach :: "controller \<Rightarrow> bool" where
  init: "cs_reach (cs_new supported)"
| step: "cs_reach s \<Longrightarrow> cs_step s s' \<Longrightarrow> cs_reach s'"

section \<open>What each operation may do\<close>

text \<open>The shutdown requests made so far, and the relation every other operation satisfies.\<close>

definition requests :: "controller \<Rightarrow> effect list" where
  "requests s = filter (\<lambda>e. case e of RequestShutdown _ \<Rightarrow> True | _ \<Rightarrow> False) (cs_out s)"

definition quiet :: "controller \<Rightarrow> controller \<Rightarrow> bool" where
  "quiet s s' \<longleftrightarrow> requests s' = requests s \<and> cs_generation s \<le> cs_generation s' \<and>
     (cs_disposed s \<longrightarrow> cs_disposed s') \<and> cs_supported s' = cs_supported s \<and>
     (\<forall>x \<in> set (cs_out s). x \<in> set (cs_out s'))"

lemma quiet_refl [simp, intro]: "quiet s s"
  by (simp add: quiet_def)

lemma quiet_trans: "quiet s s' \<Longrightarrow> quiet s' s'' \<Longrightarrow> quiet s s''"
  by (auto simp: quiet_def)

lemma quiet_emit [simp]: "(\<And>g. e \<noteq> RequestShutdown g) \<Longrightarrow> quiet s (emit e s)"
  by (simp add: quiet_def requests_def emit_def split: effect.split)

lemma quiet_update: "quiet s (cs_update p d err s)"
  by (simp add: quiet_def requests_def cs_update_def emit_def)

lemma quiet_bump: "quiet s (bump s)"
  by (simp add: quiet_def requests_def bump_def)

lemma quiet_clearTimer: "quiet s (clearTimer s)"
  by (simp add: quiet_def requests_def clearTimer_def)

lemma quiet_release: "quiet s (releasePreparation s)"
  by (simp add: quiet_def requests_def releasePreparation_def emit_def split: option.split)

lemma quiet_cancel: "quiet s (cancel s)"
  by (simp add: quiet_def requests_def cancel_def cs_update_def emit_def releasePreparation_def
      clearTimer_def bump_def split: option.split)

lemma quiet_interrupt: "quiet s (interrupt s)"
  by (simp add: interrupt_def quiet_trans [OF quiet_trans [OF quiet_bump quiet_release] quiet_update])

lemma quiet_observe: "quiet s (observeClock e s)"
proof -
  have "quiet s' (s' \<lparr> cs_lastTick := a, cs_lastMonotonicTick := b \<rparr>)" for s' a b
    by (simp add: quiet_def requests_def)
  then show ?thesis
    using quiet_interrupt [of s] by (auto simp: observeClock_def Let_def intro: quiet_trans)
qed

lemma quiet_historical: "quiet s (s \<lparr> cs_historical := h \<rparr>)"
  by (simp add: quiet_def requests_def)

lemma quiet_participants: "quiet s (s \<lparr> cs_participants := p \<rparr>)"
  by (simp add: quiet_def requests_def)

lemma quiet_collect: "quiet s (snd (collectTasks e s))"
proof -
  let ?s1 = "s \<lparr> cs_historical := Some (baseline e s) \<rparr>"
  have c: "quiet s (cancel ?s1)"
    using quiet_trans [OF quiet_historical quiet_cancel] .
  have p: "quiet s (?s1 \<lparr> cs_participants := ps \<rparr>)" for ps
    using quiet_trans [OF quiet_historical quiet_participants] .
  have i: "quiet s (interrupt (?s1 \<lparr> cs_participants := ps \<rparr>))" for ps
    using quiet_trans [OF p quiet_interrupt] .
  show ?thesis
    using c p i by (auto simp: collectTasks_def Let_def split: prod.split)
qed

lemma ready_state: "snd (ready e s) = snd (collectTasks e s)"
  by (simp add: ready_def Let_def split: prod.split)

lemma quiet_ready: "quiet s (snd (ready e s))"
  by (simp add: ready_state quiet_collect)

lemma quiet_fail: "quiet s (cs_update Failed None er (emit OnError s))"
  by (rule quiet_trans [OF quiet_emit quiet_update]) simp

lemma quiet_catch: "quiet s (cs_update Failed None er (emit OnError (clearTimer (bump s))))"
  by (rule quiet_trans [OF quiet_trans [OF quiet_bump quiet_clearTimer] quiet_fail])

lemma quiet_startRun: "quiet s (startRun p s)"
proof -
  let ?s1 = "cs_update Preparing None None (bump s)"
  have 1: "quiet s ?s1" by (rule quiet_trans [OF quiet_bump quiet_update])
  have 2: "quiet ?s1 (?s1 \<lparr> cs_preparation := a, cs_runs := b \<rparr>)" for a b
    by (simp add: quiet_def requests_def)
  show ?thesis
    using 1 quiet_trans [OF 1 2] quiet_trans [OF 1 quiet_catch] by (simp add: startRun_def Let_def)
qed

lemma quiet_countdown: "quiet s (cs_update Countdown d None (s \<lparr> cs_monotonicDeadline := m \<rparr>))"
  by (simp add: quiet_def requests_def cs_update_def emit_def)

text \<open>\<open>evaluate\<close> with its intermediate states named.\<close>

lemma evaluate_unfold:
  assumes "\<not> cs_authorizing s"
    and "s1 = (if cs_phase s \<in> {Waiting, Countdown, Preparing} then observeClock e s else s)"
    and "ready e s1 = (r, s2)"
  shows "evaluate e p s =
    (if cs_phase s1 = Preparing then (if \<not> r then interrupt s2 else s2)
     else if cs_phase s1 \<noteq> Waiting \<and> cs_phase s1 \<noteq> Countdown then s1
     else if \<not> r then (if cs_phase s2 = Countdown then interrupt s2 else s2)
     else if cs_phase s2 = Waiting
     then cs_update Countdown (Some (ev_wall e + COUNTDOWN_MS)) None
            (s2 \<lparr> cs_monotonicDeadline := ev_mono e + COUNTDOWN_MS \<rparr>)
     else if cs_deadline s2 \<noteq> None \<and> ev_mono e \<ge> cs_monotonicDeadline s2 then startRun p s2 else s2)"
  unfolding evaluate_def Let_def assms(2) [symmetric] assms(3) using assms(1) by simp

lemma quiet_evaluate: "quiet s (evaluate e p s)"
proof (cases "cs_authorizing s")
  case True
  then show ?thesis by (simp add: evaluate_def quiet_collect)
next
  case False
  define s1 where "s1 = (if cs_phase s \<in> {Waiting, Countdown, Preparing} then observeClock e s else s)"
  obtain r s2 where r: "ready e s1 = (r, s2)" by fastforce
  have 1: "quiet s s1" by (simp add: s1_def quiet_observe)
  have 2: "quiet s s2" using quiet_trans [OF 1 quiet_ready [of s1 e]] r by simp
  have 3: "quiet s (interrupt s2)" by (rule quiet_trans [OF 2 quiet_interrupt])
  have 4: "quiet s (startRun p s2)" by (rule quiet_trans [OF 2 quiet_startRun])
  have 5: "quiet s (cs_update Countdown d None (s2 \<lparr> cs_monotonicDeadline := m \<rparr>))" for d m
    by (rule quiet_trans [OF 2 quiet_countdown])
  show ?thesis
    using 1 2 3 4 5 by (simp add: evaluate_unfold [OF False s1_def r])
qed

lemma quiet_setEnabled: "quiet s (setEnabled b e s)"
proof -
  let ?s1 = "(bump s) \<lparr> cs_participants := [], cs_historical := None, cs_authorizing := True \<rparr>"
  let ?s2 = "snd (collectTasks e ?s1)"
  have 1: "quiet s ?s1" by (simp add: quiet_def requests_def bump_def)
  have 2: "quiet s ?s2" by (rule quiet_trans [OF 1 quiet_collect])
  have 3: "quiet ?s2 (cs_update Failed None er (emit OnError (?s2 \<lparr> cs_authorizing := False \<rparr>)))" for er
    by (rule quiet_trans [OF _ quiet_fail]) (simp add: quiet_def requests_def)
  have 4: "quiet ?s2 (?s2 \<lparr> cs_probes := ps \<rparr>)" for ps by (simp add: quiet_def requests_def)
  show ?thesis
    using quiet_cancel [of s] 2 quiet_trans [OF 2 3] quiet_trans [OF 2 4]
    by (simp add: setEnabled_def Let_def)
qed

lemma quiet_probe: "quiet s (probeSettled g ok e p s)"
proof -
  let ?s = "s \<lparr> cs_probes := remove1 g (cs_probes s) \<rparr>"
  let ?w = "(cs_update Waiting None None (?s \<lparr> cs_authorizing := False \<rparr>))
    \<lparr> cs_lastTick := ev_wall e, cs_lastMonotonicTick := ev_mono e, cs_timer := True \<rparr>"
  have 1: "quiet s ?s" by (simp add: quiet_def requests_def)
  have 2: "quiet s (?s \<lparr> cs_authorizing := False \<rparr>)" by (simp add: quiet_def requests_def)
  have 3: "quiet s ?w" by (simp add: quiet_def requests_def cs_update_def emit_def)
  show ?thesis
    using 1 quiet_trans [OF 2 quiet_fail] quiet_trans [OF 3 quiet_evaluate]
    by (auto simp: probeSettled_def Let_def)
qed

lemma quiet_finish: "quiet s (finishRun g s)"
  by (simp add: quiet_def requests_def finishRun_def Let_def emit_def)

lemma quiet_setStage: "quiet s (setStage g st s)"
  by (simp add: quiet_def requests_def setStage_def)

lemma quiet_drained: "quiet s (drained g e s)"
proof -
  obtain r s1 where r: "ready e s = (r, s1)" by fastforce
  have 1: "quiet s s1" using quiet_ready [of s e] r by simp
  have 2: "quiet s1 (emit (SaveSession g) (setStage g Saving s1))"
    by (rule quiet_trans [OF quiet_setStage quiet_emit]) simp
  show ?thesis
    using quiet_setStage [of s] quiet_trans [OF 1 quiet_setStage] quiet_trans [OF 1 2]
    by (simp add: drained_def r)
qed

lemma quiet_rejected: "quiet s (runRejected g s)"
  using quiet_finish [of s g] quiet_trans [OF quiet_catch quiet_finish] by (simp add: runRejected_def)

lemma quiet_dispose: "quiet s (dispose s)"
  unfolding dispose_def
  by (rule quiet_trans [OF _ quiet_cancel]) (simp add: quiet_def requests_def)


section \<open>What does not touch the runs\<close>

lemma runs_simple [simp]:
  "cs_runs (emit x s) = cs_runs s" "cs_runs (cs_update p d er s) = cs_runs s" "cs_runs (bump s) = cs_runs s"
  "cs_runs (clearTimer s) = cs_runs s" "cs_runs (releasePreparation s) = cs_runs s"
  by (simp_all add: emit_def cs_update_def bump_def clearTimer_def releasePreparation_def split: option.split)

lemma runs_cancel [simp]: "cs_runs (cancel s) = cs_runs s" "cs_runs (interrupt s) = cs_runs s"
  "cs_runs (dispose s) = cs_runs s"
  by (simp_all add: cancel_def interrupt_def dispose_def)

lemma runs_observe [simp]: "cs_runs (observeClock e s) = cs_runs s"
  by (simp add: observeClock_def Let_def)

lemma runs_collect [simp]: "cs_runs (snd (collectTasks e s)) = cs_runs s"
  by (simp add: collectTasks_def Let_def split: prod.split)

lemma runs_ready: "ready e s = (r, s') \<Longrightarrow> cs_runs s' = cs_runs s"
  using runs_collect [of e s] ready_state [of e s] by simp

text \<open>The phase after the checks, where they leave it in a countdown.\<close>

lemma phase_simple [simp]:
  "cs_phase (emit x s) = cs_phase s" "cs_phase (cs_update p d er s) = p" "cs_phase (bump s) = cs_phase s"
  "cs_phase (clearTimer s) = cs_phase s" "cs_phase (releasePreparation s) = cs_phase s"
  "cs_phase (cancel s) = Off"
  by (simp_all add: emit_def cs_update_def bump_def clearTimer_def releasePreparation_def cancel_def
      split: option.split)

lemma deadline_simple [simp]:
  "cs_monotonicDeadline (emit x s) = cs_monotonicDeadline s"
  "cs_monotonicDeadline (cs_update p d er s) = cs_monotonicDeadline s"
  "cs_monotonicDeadline (bump s) = cs_monotonicDeadline s"
  "cs_monotonicDeadline (clearTimer s) = cs_monotonicDeadline s"
  "cs_monotonicDeadline (releasePreparation s) = cs_monotonicDeadline s"
  "cs_monotonicDeadline (cancel s) = cs_monotonicDeadline s"
  "cs_monotonicDeadline (interrupt s) = cs_monotonicDeadline s"
  by (simp_all add: emit_def cs_update_def bump_def clearTimer_def releasePreparation_def cancel_def
      interrupt_def split: option.split)

lemma interrupt_phase: "cs_phase (interrupt s) = (if cs_phase s \<in> {Countdown, Preparing} then Waiting else cs_phase s)"
  by (simp add: interrupt_def)

lemma observe_phase:
  "cs_phase (observeClock e s) = cs_phase s \<or> cs_phase (observeClock e s) = Waiting"
  "cs_monotonicDeadline (observeClock e s) = cs_monotonicDeadline s"
  by (simp_all add: observeClock_def Let_def interrupt_phase)

lemma collect_phase:
  "cs_phase (snd (collectTasks e s)) = cs_phase s \<or> cs_phase (snd (collectTasks e s)) \<in> {Waiting, Off}"
  "cs_monotonicDeadline (snd (collectTasks e s)) = cs_monotonicDeadline s"
  by (simp_all add: collectTasks_def Let_def interrupt_phase split: prod.split)

lemma ready_phase:
  assumes "ready e s = (r, s')"
  shows "cs_phase s' = cs_phase s \<or> cs_phase s' \<in> {Waiting, Off}"
    "cs_monotonicDeadline s' = cs_monotonicDeadline s"
  using collect_phase [where e = e and s = s] ready_state [of e s] assms by simp_all

lemma ready_True:
  assumes "ready e s = (True, s')"
  shows "ev_isReady e \<and> list_all isFinished (live_tasks e) \<and> cs_participants s' \<noteq> [] \<and>
    set (cs_participants s') \<subseteq> set (map dt_id (live_tasks e))"
proof -
  have sub: "set (fst (collect_loop h ps a ts)) \<subseteq> set ps \<union> set (map dt_id ts)" for h ps a ts
    by (induction h ps a ts rule: collect_loop.induct) auto
  have i: "cs_participants (interrupt x) = cs_participants x" for x
    by (simp add: interrupt_def cs_update_def emit_def releasePreparation_def bump_def split: option.split)
  obtain ps a where c: "collect_loop (baseline e s) (cs_participants s) False (live_tasks e) = (ps, a)"
    by fastforce
  have pset: "set ps \<subseteq> set (cs_participants s) \<union> set (map dt_id (live_tasks e))"
    using sub [of "baseline e s" "cs_participants s" False "live_tasks e"] c by simp
  show ?thesis
    using assms pset
    by (auto simp: ready_def collectTasks_def Let_def c i list_ex_iff split: if_splits)
qed

section \<open>A shutdown request\<close>

lemma finish_runs: "cs_runs (finishRun g s) = jdel (cs_runs s) g"
  by (simp add: finishRun_def Let_def)

lemma raceWon_cases:
  obtains (quiet) "quiet s (raceWon g b e c s)" "cs_runs (raceWon g b e c s) = jdel (cs_runs s) g"
  | (request) s2 where "b" "current g s" "\<not> ev_incoming e" "ready e (observeClock e s) = (True, s2)"
      "current g s2" "\<not> c"
      "raceWon g b e c s =
         emit (RequestShutdown g) (setStage g Requesting (cs_update Requested None None (clearTimer s2)))"
proof (cases "current g s \<and> current g (observeClock e s)")
  case False
  have "quiet s (finishRun g (observeClock e s))" by (rule quiet_trans [OF quiet_observe quiet_finish])
  then show ?thesis
    using False by (intro that(1)) (auto simp: raceWon_def Let_def quiet_finish finish_runs)
next
  case True
  define s1 where "s1 = observeClock e s"
  obtain r s2 where r: "(if \<not> b \<or> ev_incoming e then (False, s1) else ready e s1) = (r, s2)" by fastforce
  have 1: "quiet s s1" by (simp add: s1_def quiet_observe)
  have 2: "quiet s s2"
    using r quiet_trans [OF 1 quiet_ready [of s1 e]] 1 by (auto split: if_splits)
  have rs2: "cs_runs s2 = cs_runs s"
    using r runs_ready [of e s1] by (auto simp: s1_def split: if_splits)
  have w: "raceWon g b e c s =
    (if \<not> r \<or> \<not> current g s2
     then finishRun g (if current g s2 then cs_update Waiting None None s2 else s2)
     else let s3 = cs_update Requested None None (clearTimer s2);
              s4 = (if c then cancel s3 else s3)
          in if \<not> current g s4 then finishRun g s4
             else emit (RequestShutdown g) (setStage g Requesting s4))"
    using True unfolding raceWon_def s1_def [symmetric] Let_def r by simp
  show ?thesis
  proof (cases "\<not> r \<or> \<not> current g s2")
    case True
    have "quiet s (finishRun g s2)" "quiet s (finishRun g (cs_update Waiting None None s2))"
      using quiet_trans [OF 2 quiet_finish] quiet_trans [OF 2 quiet_trans [OF quiet_update quiet_finish]] .
    then show ?thesis using True w rs2 by (intro that(1)) (simp_all add: finish_runs)
  next
    case False
    let ?s3 = "cs_update Requested None None (clearTimer s2)"
    have cur: "current g ?s3"
      using False by (simp add: current_def cs_update_def emit_def clearTimer_def)
    have ncur: "\<not> current g (cancel ?s3)"
      using cur by (simp add: current_def cancel_def cs_update_def emit_def releasePreparation_def
          clearTimer_def bump_def split: option.split)
    show ?thesis
    proof (cases c)
      case True
      have "quiet s (finishRun g (cancel ?s3))"
        by (rule quiet_trans [OF 2 quiet_trans [OF quiet_clearTimer quiet_trans [OF quiet_update
            quiet_trans [OF quiet_cancel quiet_finish]]]])
      then show ?thesis using True False w ncur rs2 by (intro that(1)) (simp_all add: Let_def finish_runs)
    next
      case nc: False
      have "b" "\<not> ev_incoming e" "ready e s1 = (True, s2)"
        using r False by (auto split: if_splits)
      then show ?thesis
        using False w cur nc True by (intro that(2) [of s2]) (auto simp: Let_def s1_def)
    qed
  qed
qed

section \<open>Every step\<close>

lemma quiet_saved: "quiet s (saved g s)"
  by (simp add: saved_def quiet_setStage)

lemma raceWon_generation: "cs_generation s \<le> cs_generation (raceWon g b e c s)"
proof (cases rule: raceWon_cases [where g = g and b = b and e = e and c = c and s = s])
  case quiet
  then show ?thesis by (simp add: quiet_def)
next
  case (request s2)
  have "cs_generation s \<le> cs_generation s2"
    using quiet_trans [OF quiet_observe quiet_ready, of s e e] request(4) by (simp add: quiet_def)
  then show ?thesis
    using request(7) by (simp add: emit_def setStage_def cs_update_def clearTimer_def)
qed

lemma step_quiet_or_race:
  assumes "cs_step s s'"
  shows "quiet s s' \<or> (\<exists>g b e c. map_of (cs_runs s) g = Some (Raced b) \<and> s' = raceWon g b e c s)"
  using assms
  by (cases rule: cs_step.cases)
     (auto simp: quiet_setEnabled quiet_probe quiet_evaluate quiet_interrupt quiet_cancel quiet_dispose
       quiet_drained quiet_saved quiet_rejected quiet_finish)

interpretation cg: epoch_guard cs_generation cs_step
proof
  fix s s' :: controller
  assume "cs_step s s'"
  then show "cs_generation s \<le> cs_generation s'"
    using step_quiet_or_race [of s s'] raceWon_generation by (auto simp: quiet_def)
qed

text \<open>A run is never of a future generation, and one past its save has saved.\<close>

definition runs_ok :: "controller \<Rightarrow> bool" where
  "runs_ok s \<longleftrightarrow> (\<forall>g st. map_of (cs_runs s) g = Some st \<longrightarrow> g \<le> cs_generation s \<and>
     (st \<in> {Saving, Raced True, Requesting} \<longrightarrow> SaveSession g \<in> set (cs_out s)))"

lemma runs_okI:
  assumes "runs_ok s" and "quiet s s'"
    and "\<And>g st. map_of (cs_runs s') g = Some st \<Longrightarrow> map_of (cs_runs s) g = Some st \<or>
      (g \<le> cs_generation s' \<and> (st \<in> {Saving, Raced True, Requesting} \<longrightarrow> SaveSession g \<in> set (cs_out s')))"
  shows "runs_ok s'"
  using assms unfolding runs_ok_def quiet_def by (meson le_trans)

lemma startRun_runs:
  "map_of (cs_runs (startRun p s)) g = Some st \<Longrightarrow>
   map_of (cs_runs s) g = Some st \<or> (g = cs_generation s + 1 \<and> st = Draining \<and> cs_generation (startRun p s) = g)"
  by (auto simp: startRun_def Let_def cs_update_def emit_def bump_def clearTimer_def split: if_splits)

text \<open>Only an evaluation whose countdown has elapsed starts a run.\<close>

lemma evaluate_runs:
  obtains (same) "cs_runs (evaluate e p s) = cs_runs s"
  | (started) s2 where "evaluate e p s = startRun p s2" "cs_runs s2 = cs_runs s" "quiet s s2"
      "\<not> cs_authorizing s" "cs_phase s = Countdown" "cs_monotonicDeadline s \<le> ev_mono e"
      "ev_isReady e" "list_all isFinished (live_tasks e)" "cs_participants s2 \<noteq> []"
proof (cases "cs_authorizing s")
  case True
  then show ?thesis by (intro same) (simp add: evaluate_def)
next
  case False
  define s1 where "s1 = (if cs_phase s \<in> {Waiting, Countdown, Preparing} then observeClock e s else s)"
  obtain r s2 where r: "ready e s1 = (r, s2)" by fastforce
  have rs: "cs_runs s1 = cs_runs s" "cs_runs s2 = cs_runs s"
    using runs_ready [OF r] by (simp_all add: s1_def)
  note ev = evaluate_unfold [OF False s1_def r, of p]
  show ?thesis
  proof (cases "r \<and> (cs_phase s1 = Waiting \<or> cs_phase s1 = Countdown) \<and> cs_phase s2 \<noteq> Waiting \<and>
      cs_deadline s2 \<noteq> None \<and> ev_mono e \<ge> cs_monotonicDeadline s2")
    case run: True
    have "cs_phase s2 \<noteq> Off"
    proof
      assume "cs_phase s2 = Off"
      then have "cs_phase (snd (collectTasks e s1)) = Off" using ready_state [of e s1] r by simp
      then have "fst (collectTasks e s1) = None"
        using run by (auto simp: collectTasks_def Let_def interrupt_phase split: if_splits prod.splits)
      then show False using r run by (simp add: ready_def split: prod.splits)
    qed
    then have "cs_phase s2 = Countdown" and "cs_phase s1 = Countdown"
      using ready_phase(1) [OF r] run by auto
    then have ph: "cs_phase s = Countdown"
      using observe_phase(1) [of e s] by (auto simp: s1_def split: if_splits)
    have dl: "cs_monotonicDeadline s2 = cs_monotonicDeadline s"
      using ready_phase(2) [OF r] observe_phase(2) [of e s] by (simp add: s1_def)
    have q: "quiet s s2"
      using quiet_trans [OF _ quiet_ready, of s s1 e] r quiet_observe [of s e] by (simp add: s1_def split: if_splits)
    have "evaluate e p s = startRun p s2" using ev run \<open>cs_phase s1 = Countdown\<close> by simp
    then show ?thesis
      using started [of s2] rs q False ph dl run ready_True [of e s1 s2] r by auto
  next
    case False
    then show ?thesis using ev rs by (intro same) auto
  qed
qed

lemma evaluate_runs_ok:
  assumes "runs_ok s"
  shows "runs_ok (evaluate e p s)"
proof (cases rule: evaluate_runs [where e = e and p = p and s = s])
  case same
  then show ?thesis by (intro runs_okI [OF assms quiet_evaluate]) simp
next
  case (started s2)
  show ?thesis
    using runs_okI [OF assms quiet_evaluate, of e p] startRun_runs [of p s2] started(1,2) by fastforce
qed

lemma setStage_runs:
  "map_of (cs_runs (setStage g st s)) h = (if h = g then Some st else map_of (cs_runs s) h)"
  by (simp add: setStage_def)

lemma finishRun_runs: "map_of (cs_runs (finishRun g s)) h = (if h = g then None else map_of (cs_runs s) h)"
  by (simp add: finishRun_def Let_def emit_def)


lemma step_runs_ok:
  assumes "cs_step s s'" and ok: "runs_ok s"
  shows "runs_ok s'"
  using assms(1)
proof cases
  case (enable b e)
  have "cs_runs (setEnabled b e s) = cs_runs s"
    by (simp add: setEnabled_def Let_def)
  then show ?thesis using enable by (intro runs_okI [OF ok]) (simp_all add: quiet_setEnabled)
next
  case (probe g k e p)
  let ?w = "(cs_update Waiting None None (s \<lparr> cs_probes := remove1 g (cs_probes s), cs_authorizing := False \<rparr>))
    \<lparr> cs_lastTick := ev_wall e, cs_lastMonotonicTick := ev_mono e, cs_timer := True \<rparr>"
  have w: "runs_ok ?w"
    by (rule runs_okI [OF ok]) (simp_all add: quiet_def requests_def cs_update_def emit_def)
  show ?thesis
  proof (cases "g = cs_generation s \<and> k")
    case True
    then show ?thesis using probe(1) evaluate_runs_ok [OF w] by (simp add: probeSettled_def Let_def)
  next
    case False
    then have "cs_runs (probeSettled g k e p s) = cs_runs s"
      by (auto simp: probeSettled_def Let_def)
    then show ?thesis using probe(1) by (intro runs_okI [OF ok]) (simp_all add: quiet_probe)
  qed
next
  case (tick e p)
  then show ?thesis using evaluate_runs_ok [OF ok] by simp
next
  case interrupt
  then show ?thesis by (intro runs_okI [OF ok]) (simp_all add: quiet_interrupt)
next
  case cancel
  then show ?thesis by (intro runs_okI [OF ok]) (simp_all add: quiet_cancel)
next
  case dispose
  then show ?thesis by (intro runs_okI [OF ok]) (simp_all add: quiet_dispose)
next
  case (drained g e)
  have g: "g \<le> cs_generation s'"
    using ok drained quiet_drained [of s g e] unfolding runs_ok_def quiet_def by (metis le_trans)
  obtain r s1 where r: "ready e s = (r, s1)" by fastforce
  have q: "quiet s s'" using drained(1) quiet_drained by simp
  show ?thesis
    using drained(1) g runs_ready [OF r]
    by (intro runs_okI [OF ok q]) (auto simp: drained_def r setStage_runs emit_def split: if_splits)
next
  case (saved g)
  have "SaveSession g \<in> set (cs_out s)" "g \<le> cs_generation s"
    using ok saved(2) unfolding runs_ok_def by blast+
  then have n: "map_of (cs_runs s') h = Some st \<Longrightarrow> map_of (cs_runs s) h = Some st \<or>
      (h \<le> cs_generation s' \<and> SaveSession h \<in> set (cs_out s'))" for h st
    using saved(1) by (auto simp: saved_def setStage_runs setStage_def split: if_splits)
  have q: "quiet s s'" using saved(1) quiet_saved by simp
  show ?thesis by (rule runs_okI [OF ok q]) (use n in blast)
next
  case (rejected g st)
  have "cs_runs (runRejected g s) = jdel (cs_runs s) g"
    by (simp add: runRejected_def finishRun_def Let_def)
  then show ?thesis
    using rejected(1) by (intro runs_okI [OF ok]) (auto simp: quiet_rejected split: if_splits)
next
  case (race g b e c)
  show ?thesis
  proof (cases rule: raceWon_cases [where g = g and b = b and e = e and c = c and s = s])
    case quiet
    then have "quiet s s'" "cs_runs s' = jdel (cs_runs s) g" using race(1) by simp_all
    then show ?thesis by (intro runs_okI [OF ok]) (auto split: if_splits)
  next
    case (request s2)
    have sv: "SaveSession g \<in> set (cs_out s)" "g \<le> cs_generation s"
      using ok race(2) request(1) unfolding runs_ok_def by blast+
    have q: "quiet s s2" using quiet_trans [OF quiet_observe quiet_ready, of s e e] request(4) by simp
    have rs2: "cs_runs s2 = cs_runs s" using runs_ready [OF request(4)] by simp
    have out: "cs_out s' = cs_out s2 @ [OnState Requested, RequestShutdown g]" "cs_generation s' = cs_generation s2"
      using request(7) race(1) by (simp_all add: emit_def setStage_def cs_update_def clearTimer_def)
    have rn: "map_of (cs_runs s') h = (if h = g then Some Requesting else map_of (cs_runs s) h)" for h
      using request(7) race(1) rs2 by (simp add: setStage_runs)
    show ?thesis
      unfolding runs_ok_def
    proof (intro allI impI)
      fix h st
      assume h: "map_of (cs_runs s') h = Some st"
      show "h \<le> cs_generation s' \<and> (st \<in> {Saving, Raced True, Requesting} \<longrightarrow> SaveSession h \<in> set (cs_out s'))"
      proof (cases "h = g")
        case True
        then show ?thesis using sv q out by (auto simp: quiet_def)
      next
        case False
        then have "map_of (cs_runs s) h = Some st" using h rn by simp
        then show ?thesis using ok q out unfolding runs_ok_def quiet_def by (auto dest: le_trans)
      qed
    qed
  qed
next
  case (requested g)
  then show ?thesis by (intro runs_okI [OF ok]) (auto simp: quiet_finish finishRun_runs split: if_splits)
qed

lemma reach_runs_ok: "cs_reach s \<Longrightarrow> runs_ok s"
proof (induction rule: cs_reach.induct)
  case (init supported)
  then show ?case by (simp add: runs_ok_def cs_new_def)
next
  case (step s s')
  then show ?case using step_runs_ok by blast
qed


section \<open>The properties\<close>

lemma requests_emit [simp]: "requests (emit (RequestShutdown g) s) = requests s @ [RequestShutdown g]"
  by (simp add: requests_def emit_def)

lemma new_request:
  assumes "cs_step s s'" and "requests s' \<noteq> requests s"
  obtains g e c s2 where "map_of (cs_runs s) g = Some (Raced True)" "s' = raceWon g True e c s"
    "current g s" "\<not> ev_incoming e" "ready e (observeClock e s) = (True, s2)" "current g s2"
    "requests s' = requests s @ [RequestShutdown g]" "cs_participants s' = cs_participants s2"
proof -
  have "\<not> quiet s s'" using assms(2) by (simp add: quiet_def)
  then obtain g b e c where r: "map_of (cs_runs s) g = Some (Raced b)" "s' = raceWon g b e c s"
    using step_quiet_or_race [OF assms(1)] by blast
  from this(2) \<open>\<not> quiet s s'\<close> show thesis
  proof (cases rule: raceWon_cases [where g = g and b = b and e = e and c = c and s = s])
    case (request s2)
    have q: "quiet s (setStage g Requesting (cs_update Requested None None (clearTimer s2)))"
      using quiet_trans [OF quiet_observe quiet_ready, of s e e] request(4)
      by (auto intro: quiet_trans [OF _ quiet_trans [OF quiet_clearTimer quiet_trans [OF quiet_update quiet_setStage]]])
    show thesis
      using that [of g e c s2] r request q
      by (simp add: quiet_def emit_def setStage_def cs_update_def clearTimer_def requests_def)
  qed simp
qed

text \<open>
  C27: the computer is shut down only when the work is done. A step that asks the platform to
  shut down is the end of one run: that run is current (nothing has cancelled, interrupted or
  disposed of the plan since it started), its session was saved, no work is coming in, startup
  has finished, at least one participating task exists, every participant is still there, and
  every task that is not removed is finished.
\<close>
theorem shutdown_only_when_done:
  assumes "cs_reach s" and "cs_step s s'" and "requests s' \<noteq> requests s"
  shows "\<exists>g e c. requests s' = requests s @ [RequestShutdown g] \<and> s' = raceWon g True e c s \<and>
    g = cs_generation s \<and> \<not> cs_disposed s \<and> SaveSession g \<in> set (cs_out s) \<and>
    \<not> ev_incoming e \<and> ev_isReady e \<and> list_all isFinished (live_tasks e) \<and>
    cs_participants s' \<noteq> [] \<and> set (cs_participants s') \<subseteq> set (map dt_id (live_tasks e))"
proof -
  obtain g e c s2 where n: "map_of (cs_runs s) g = Some (Raced True)" "s' = raceWon g True e c s"
    "current g s" "\<not> ev_incoming e" "ready e (observeClock e s) = (True, s2)"
    "requests s' = requests s @ [RequestShutdown g]" "cs_participants s' = cs_participants s2"
    using new_request [OF assms(2,3)] by metis
  have "SaveSession g \<in> set (cs_out s)"
    using reach_runs_ok [OF assms(1)] n(1) unfolding runs_ok_def by blast
  then have "requests s' = requests s @ [RequestShutdown g] \<and> s' = raceWon g True e c s \<and>
    g = cs_generation s \<and> \<not> cs_disposed s \<and> SaveSession g \<in> set (cs_out s) \<and>
    \<not> ev_incoming e \<and> ev_isReady e \<and> list_all isFinished (live_tasks e) \<and>
    cs_participants s' \<noteq> [] \<and> set (cs_participants s') \<subseteq> set (map dt_id (live_tasks e))"
    using n(2-4,6,7) ready_True [OF n(5)] by (simp add: current_def)
  then show ?thesis by (intro exI)
qed

text \<open>
  a plan that was invalidated never fires. Once the user cancels or the controller is
  disposed of, or a countdown or preparation is interrupted, no run that had been started by then
  asks for a shutdown, however late its drain, its save or its timeout settles and whatever
  happens in between (including a new plan being armed).
\<close>
theorem cancelled_plan_never_fires:
  assumes "cs_reach s" and "map_of (cs_runs s) g \<noteq> None"
    and "s1 = cancel s \<or> s1 = dispose s \<or> (s1 = interrupt s \<and> cs_phase s \<in> {Countdown, Preparing})"
    and "cg.steps s1 t" and "RequestShutdown g \<in> set (cs_out t)"
  shows "RequestShutdown g \<in> set (cs_out s)"
proof -
  have "g \<le> cs_generation s"
    using reach_runs_ok [OF assms(1)] assms(2) by (auto simp: runs_ok_def)
  moreover have "cs_generation s < cs_generation s1 \<and> requests s1 = requests s"
    using assms(3) quiet_cancel [of s] quiet_dispose [of s] quiet_interrupt [of s]
    by (auto simp: quiet_def cancel_def dispose_def interrupt_def cs_update_def emit_def
        releasePreparation_def clearTimer_def bump_def split: option.split)
  ultimately have g: "g < cs_generation s1" and r: "requests s1 = requests s" by auto
  have mem: "RequestShutdown g \<in> set (cs_out x) \<longleftrightarrow> RequestShutdown g \<in> set (requests x)" for x
    by (simp add: requests_def)
  have "RequestShutdown g \<in> set (requests t) \<longrightarrow> RequestShutdown g \<in> set (requests s1)"
    using assms(4) g
  proof (induction rule: cg.steps.induct)
    case (trans x y z)
    have stale: "g \<noteq> cs_generation y" using cg.stale_forever [OF trans.prems trans.hyps(1)] .
    show ?case
    proof (cases "requests z = requests y")
      case True
      then show ?thesis using trans by simp
    next
      case False
      obtain h where "current h y" "requests z = requests y @ [RequestShutdown h]"
        using new_request [OF trans.hyps(2) False] by metis
      then show ?thesis
        using stale trans.IH [OF trans.prems] by (simp add: current_def)
    qed
  qed simp
  then show ?thesis using assms(5) r by (simp add: mem)
qed

text \<open>
  the countdown lasts its minute. Entering the countdown sets the deadline sixty seconds of
  monotonic time ahead; a run is started only by an evaluation that finds the countdown still in
  force, its deadline reached and everything finished; and a clock that jumped or slept by more
  than five seconds since the last tick puts a countdown back to waiting instead.
\<close>
theorem countdown_lasts:
  assumes "\<not> cs_authorizing s"
  shows "(cs_phase s \<noteq> Countdown \<and> cs_phase (evaluate e p s) = Countdown \<longrightarrow>
      cs_monotonicDeadline (evaluate e p s) = ev_mono e + 60000) \<and>
    (cs_runs (evaluate e p s) \<noteq> cs_runs s \<longrightarrow>
      cs_phase s = Countdown \<and> cs_monotonicDeadline s \<le> ev_mono e \<and> list_all isFinished (live_tasks e)) \<and>
    (cs_phase s = Countdown \<and> ev_mono e - cs_lastMonotonicTick s > 5000 \<longrightarrow>
      cs_runs (evaluate e p s) = cs_runs s \<and> cs_generation s < cs_generation (evaluate e p s))"
proof -
  define s1 where "s1 = (if cs_phase s \<in> {Waiting, Countdown, Preparing} then observeClock e s else s)"
  obtain r s2 where r: "ready e s1 = (r, s2)" by fastforce
  note ev = evaluate_unfold [OF assms s1_def r, of p]
  have start: "cs_phase (startRun p x) \<noteq> Countdown" for x
    by (simp add: startRun_def Let_def)
  have 1: "cs_monotonicDeadline (evaluate e p s) = ev_mono e + 60000"
    if "cs_phase s \<noteq> Countdown" "cs_phase (evaluate e p s) = Countdown"
  proof -
    have "cs_phase s1 \<noteq> Countdown"
      using that(1) observe_phase(1) [of e s] by (auto simp: s1_def)
    then have "cs_phase s2 \<noteq> Countdown" using ready_phase(1) [OF r] by auto
    then show ?thesis
      using that(2) ev start \<open>cs_phase s1 \<noteq> Countdown\<close>
      by (auto simp: interrupt_phase COUNTDOWN_MS_def split: if_splits)
  qed
  have 2: "cs_phase s = Countdown \<and> cs_monotonicDeadline s \<le> ev_mono e \<and> list_all isFinished (live_tasks e)"
    if "cs_runs (evaluate e p s) \<noteq> cs_runs s"
    by (cases rule: evaluate_runs [where e = e and p = p and s = s]) (use that in auto)
  have 3: "cs_runs (evaluate e p s) = cs_runs s \<and> cs_generation s < cs_generation (evaluate e p s)"
    if "cs_phase s = Countdown" "ev_mono e - cs_lastMonotonicTick s > 5000"
  proof -
    have w: "cs_phase s1 = Waiting" and g: "cs_generation s < cs_generation s1"
      using that
      by (auto simp: s1_def observeClock_def Let_def interrupt_def cs_update_def emit_def
          releasePreparation_def bump_def split: option.split)
    have g2: "cs_generation s < cs_generation s2"
      using g quiet_ready [of s1 e] r by (simp add: quiet_def)
    have rs: "cs_runs s2 = cs_runs s" using runs_ready [OF r] by (simp add: s1_def)
    have ph: "cs_phase s2 \<in> {Waiting, Off}" using ready_phase(1) [OF r] w by auto
    have "r \<longrightarrow> cs_phase s2 = Waiting"
    proof
      assume r
      show "cs_phase s2 = Waiting"
      proof (rule ccontr)
        assume "cs_phase s2 \<noteq> Waiting"
        then have "cs_phase (snd (collectTasks e s1)) = Off" using ph ready_state [of e s1] r by simp
        then have "fst (collectTasks e s1) = None"
          using w by (auto simp: collectTasks_def Let_def interrupt_phase split: if_splits prod.splits)
        then show False using r \<open>r\<close> by (simp add: ready_def split: prod.splits)
      qed
    qed
    then show ?thesis
      using ev w ph rs g2 by (auto simp: cs_update_def emit_def)
  qed
  show ?thesis using 1 2 3 by blast
qed

text \<open>
  Neither restored history nor an empty queue arms a plan: while every task is one that was
  already completed when the plan was made, there is no participant and the plan is not ready.
\<close>

lemma history_never_arms:
  assumes "cs_participants s = []"
    and "list_all (\<lambda>t. dt_status t = Completed \<and> dt_id t \<in> set (baseline e s)) (live_tasks e)"
  shows "\<not> fst (ready e s) \<and> cs_participants (snd (ready e s)) = []"
proof -
  have "list_all (\<lambda>t. dt_status t = Completed \<and> dt_id t \<in> set h) ts \<Longrightarrow>
      collect_loop h [] False ts = ([], False)" for h ts
    by (induction ts) auto
  then have "collect_loop (baseline e s) [] False (live_tasks e) = ([], False)"
    using assms(2) .
  then show ?thesis
    using assms(1) by (simp add: ready_def collectTasks_def Let_def)
qed

section \<open>A concrete plan\<close>

text \<open>One download runs while the plan is made, completes, and the countdown runs in five-second ticks.\<close>

definition ex_env :: "TaskStatus \<Rightarrow> int \<Rightarrow> env" where
  "ex_env st t = \<lparr> ev_tasks = [(example_task Bt KBt []) \<lparr> dt_status := st \<rparr>], ev_isReady = True,
     ev_wall = t, ev_mono = t, ev_incoming = False \<rparr>"

fun ticks :: "env list \<Rightarrow> controller \<Rightarrow> controller" where
  "ticks [] s = s"
| "ticks (e # es) s = ticks es (evaluate e True s)"

lemma reach_ticks: "cs_reach s \<Longrightarrow> cs_reach (ticks es s)"
  by (induction es arbitrary: s) (auto intro: cs_reach.step cs_step.tick)

definition ex_armed :: controller where
  "ex_armed = probeSettled 1 True (ex_env Downloading 0) True (setEnabled True (ex_env Downloading 0) (cs_new True))"

definition ex_running :: controller where
  "ex_running = ticks (map (\<lambda>k. ex_env Completed (5000 * k)) [1, 2, 3, 4, 5, 6, 7, 8, 9, 10, 11, 12, 13]) ex_armed"

definition ex_saved :: controller where
  "ex_saved = saved 2 (drained 2 (ex_env Completed 65100) ex_running)"

lemma ex_armed_probe: "1 \<in> set (cs_probes (setEnabled True (ex_env Downloading 0) (cs_new True)))"
  by code_simp

lemma ex_running_run: "map_of (cs_runs ex_running) 2 = Some Draining"
  by code_simp

lemma ex_saving_run: "map_of (cs_runs (drained 2 (ex_env Completed 65100) ex_running)) 2 = Some Saving"
  by code_simp

lemma ex_saved_run: "map_of (cs_runs ex_saved) 2 = Some (Raced True)"
  by code_simp

lemma ex_requests:
  "requests (raceWon 2 True (ex_env Completed 65200) False ex_saved) = [RequestShutdown 2]" "requests ex_saved = []"
  by code_simp+

lemma ex_reach: "cs_reach ex_running" "cs_reach ex_saved"
proof -
  have "cs_reach ex_armed" unfolding ex_armed_def
    by (rule cs_reach.step [OF cs_reach.step [OF cs_reach.init cs_step.enable] cs_step.probe [OF ex_armed_probe]])
  then show r: "cs_reach ex_running" unfolding ex_running_def by (rule reach_ticks)
  show "cs_reach ex_saved" unfolding ex_saved_def
    by (rule cs_reach.step [OF cs_reach.step [OF r cs_step.drained [OF ex_running_run]] cs_step.saved [OF ex_saving_run]])
qed


theorem shutdown_only_when_done_witness:
  "\<exists>g e c. requests (raceWon 2 True (ex_env Completed 65200) False ex_saved) = requests ex_saved @ [RequestShutdown g] \<and>
    raceWon 2 True (ex_env Completed 65200) False ex_saved = raceWon g True e c ex_saved \<and>
    g = cs_generation ex_saved \<and> \<not> cs_disposed ex_saved \<and> SaveSession g \<in> set (cs_out ex_saved) \<and>
    \<not> ev_incoming e \<and> ev_isReady e \<and> list_all isFinished (live_tasks e) \<and>
    cs_participants (raceWon 2 True (ex_env Completed 65200) False ex_saved) \<noteq> [] \<and>
    set (cs_participants (raceWon 2 True (ex_env Completed 65200) False ex_saved)) \<subseteq> set (map dt_id (live_tasks e))"
  by (rule shutdown_only_when_done [OF ex_reach(2) cs_step.race [OF ex_saved_run]])
     (simp add: ex_requests)

definition ex_requested :: controller where
  "ex_requested = raceWon 2 True (ex_env Completed 65200) False ex_saved"

lemma ex_requested_out:
  "map_of (cs_runs ex_requested) 2 \<noteq> None" "RequestShutdown 2 \<in> set (cs_out (cancel ex_requested))"
  by code_simp+

theorem cancelled_plan_never_fires_witness: "RequestShutdown 2 \<in> set (cs_out ex_requested)"
proof (rule cancelled_plan_never_fires [of _ _ "cancel ex_requested" "cancel ex_requested"])
  show "cs_reach ex_requested"
    unfolding ex_requested_def by (rule cs_reach.step [OF ex_reach(2) cs_step.race [OF ex_saved_run]])
qed (simp_all add: ex_requested_out cg.steps.refl)

theorem countdown_lasts_witness:
  "cs_phase (evaluate (ex_env Completed 100) True ex_armed) = Countdown \<and>
   cs_monotonicDeadline (evaluate (ex_env Completed 100) True ex_armed) = 60100"
proof -
  have "\<not> cs_authorizing ex_armed" by code_simp
  moreover have "cs_phase ex_armed \<noteq> Countdown \<and> cs_phase (evaluate (ex_env Completed 100) True ex_armed) = Countdown"
    by code_simp
  ultimately show ?thesis
    using countdown_lasts [of ex_armed "ex_env Completed 100" True] by (simp add: ex_env_def)
qed

end
