(* ===== verification/Polling.thy ===== *)
theory Polling
  imports Prelude Epoch_Guard
begin

text \<open>
  The poll loop over aria2, \<open>core/engine/aria2/polling-scheduler.ts\<close> (with
  \<open>translateGlobalStat\<close> of \<open>translate.ts\<close>).

  Each stretch of code between two \<open>await\<close>s is one operation. The asynchronous calls in flight
  are part of the state: the \<open>pollOnce\<close> calls with the stage each is at, the notification
  handlers with theirs, and the timers the runtime holds (\<open>ps_armed\<close>) beside the one handle the
  code remembers (\<open>ps_timer\<close>). Replies of the RPC client and of the metadata cache are
  arguments of the operation that receives them. Callbacks and calls to the cache are appended
  to \<open>ps_out\<close>, the deliveries tagged with the epoch that their request captured.
\<close>

section \<open>Data\<close>

text \<open>A counter as \<open>Number(raw)\<close> reads it; \<open>None\<close> is a value that is not finite.\<close>

record raw_global_stat =
  rg_downloadSpeed :: "int option"
  rg_uploadSpeed :: "int option"
  rg_numActive :: "int option"
  rg_numWaiting :: "int option"
  rg_numStopped :: "int option"

record global_stats =
  gs_totalDownloadSpeed :: "int option"
  gs_totalUploadSpeed :: "int option"
  gs_activeTasks :: "int option"
  gs_waitingTasks :: "int option"
  gs_stoppedTasks :: "int option"

definition translateGlobalStat :: "raw_global_stat \<Rightarrow> global_stats" where
  "translateGlobalStat raw =
     \<lparr> gs_totalDownloadSpeed = rg_downloadSpeed raw, gs_totalUploadSpeed = rg_uploadSpeed raw,
       gs_activeTasks = rg_numActive raw, gs_waitingTasks = rg_numWaiting raw,
       gs_stoppedTasks = rg_numStopped raw \<rparr>"

record 'r raw_status =
  rs_gid :: string
  rs_rest :: 'r

datatype poll_mode = ActiveMode | IdleMode

datatype update_source = AuthoritativePoll | Notification

datatype 't poll_effect =
    Stats nat global_stats
  | TasksUpdate nat "'t list" update_source
  | EngineActiveChanged bool
  | MetaInvalidate "string option"
  | MetaRetain "string list"
  | Multicall nat

text \<open>Where one \<open>pollOnce\<close> stands, with the epoch it captured.\<close>

datatype ('r, 't) poll_stage =
    Calling nat
  | Hydrating nat "'r raw_status list" "'t list"
  | Updating
  | Settled

text \<open>Where one \<open>handleNotification\<close> stands.\<close>

datatype notify_stage =
    Telling nat
  | HydratingOne nat
  | Publishing
  | Synced
  | Checking
  | Checked

datatype drain = Drained | DrainAfter nat

record ('r, 't) poller =
  ps_mode :: poll_mode
  ps_timer :: "nat option"
  ps_armed :: "nat list"
  ps_nextTimer :: nat
  ps_polling :: bool
  ps_stopped :: bool
  ps_pendingPoll :: bool
  ps_inFlight :: "nat option"
  ps_drain :: "drain option"
  ps_subscribed :: bool
  ps_epoch :: nat
  ps_runs :: "(nat, ('r, 't) poll_stage) jmap"
  ps_nextRun :: nat
  ps_handlers :: "(nat, bool \<times> notify_stage) jmap"
  ps_nextHandler :: nat
  ps_out :: "'t poll_effect list"

definition ACTIVE_INTERVAL :: int where "ACTIVE_INTERVAL = 1000"
definition IDLE_INTERVAL :: int where "IDLE_INTERVAL = 10000"

definition START_NOTIFICATIONS :: "string list" where
  "START_NOTIFICATIONS = [''aria2.onDownloadStart'']"

definition STOP_NOTIFICATIONS :: "string list" where
  "STOP_NOTIFICATIONS =
     [''aria2.onDownloadPause'', ''aria2.onDownloadComplete'', ''aria2.onDownloadStop'',
      ''aria2.onDownloadError'', ''aria2.onBtDownloadComplete'']"

definition ps_new :: "('r, 't) poller" where
  "ps_new =
   \<lparr> ps_mode = IdleMode, ps_timer = None, ps_armed = [], ps_nextTimer = 0, ps_polling = False,
     ps_stopped = True, ps_pendingPoll = False, ps_inFlight = None, ps_drain = None,
     ps_subscribed = False, ps_epoch = 0, ps_runs = [], ps_nextRun = 0, ps_handlers = [],
     ps_nextHandler = 0, ps_out = [] \<rparr>"

section \<open>Timers and polls\<close>

definition ps_emit :: "'t poll_effect \<Rightarrow> ('r, 't) poller \<Rightarrow> ('r, 't) poller" where
  "ps_emit e s = s \<lparr> ps_out := ps_out s @ [e] \<rparr>"

definition ps_clearTimer :: "('r, 't) poller \<Rightarrow> ('r, 't) poller" where
  "ps_clearTimer s =
     (case ps_timer s of
        None \<Rightarrow> s
      | Some h \<Rightarrow> s \<lparr> ps_armed := sdel (ps_armed s) h, ps_timer := None \<rparr>)"

text \<open>The delay of the timer \<open>scheduleNext\<close> arms.\<close>

definition interval :: "('r, 't) poller \<Rightarrow> int" where
  "interval s = (if ps_mode s = ActiveMode then ACTIVE_INTERVAL else IDLE_INTERVAL)"

definition scheduleNext :: "('r, 't) poller \<Rightarrow> ('r, 't) poller" where
  "scheduleNext s =
     (if ps_stopped s then s
      else s \<lparr> ps_armed := ps_armed s @ [ps_nextTimer s], ps_timer := Some (ps_nextTimer s),
               ps_nextTimer := ps_nextTimer s + 1 \<rparr>)"

definition switchMode :: "poll_mode \<Rightarrow> ('r, 't) poller \<Rightarrow> ('r, 't) poller" where
  "switchMode newMode s =
     (if ps_mode s = newMode then s
      else ps_emit (EngineActiveChanged (newMode = ActiveMode))
             (scheduleNext (ps_clearTimer (s \<lparr> ps_mode := newMode \<rparr>))))"

text \<open>
  \<open>poll\<close>, with the head of \<open>pollOnce\<close> (up to the multicall) that it runs synchronously.
\<close>

definition poll :: "('r, 't) poller \<Rightarrow> ('r, 't) poller" where
  "poll s =
     (if ps_stopped s then s
      else if ps_polling s then s \<lparr> ps_pendingPoll := True \<rparr>
      else ps_emit (Multicall (ps_epoch s))
             (s \<lparr> ps_polling := True, ps_runs := jset (ps_runs s) (ps_nextRun s) (Calling (ps_epoch s)),
                  ps_inFlight := Some (ps_nextRun s), ps_nextRun := ps_nextRun s + 1 \<rparr>))"

definition requestPoll :: "('r, 't) poller \<Rightarrow> ('r, 't) poller" where
  "requestPoll s = (if ps_stopped s then s else poll (ps_clearTimer s))"

definition timerFired :: "nat \<Rightarrow> ('r, 't) poller \<Rightarrow> ('r, 't) poller" where
  "timerFired h s = poll (s \<lparr> ps_armed := sdel (ps_armed s) h, ps_timer := None \<rparr>)"

section \<open>Start and stop\<close>

definition start :: "('r, 't) poller \<Rightarrow> ('r, 't) poller" where
  "start s =
     poll ((ps_emit (MetaInvalidate None) (s \<lparr> ps_epoch := ps_epoch s + 1 \<rparr>))
             \<lparr> ps_subscribed := True, ps_drain := None, ps_mode := IdleMode, ps_stopped := False \<rparr>)"

definition stopAndDrain :: "('r, 't) poller \<Rightarrow> ('r, 't) poller" where
  "stopAndDrain s =
     (if ps_drain s \<noteq> None then s
      else let s1 = ps_emit (MetaInvalidate None)
                      ((ps_clearTimer (s \<lparr> ps_stopped := True, ps_epoch := ps_epoch s + 1, ps_pendingPoll := False \<rparr>))
                         \<lparr> ps_subscribed := False \<rparr>)
           in s1 \<lparr> ps_drain := Some (case ps_inFlight s1 of None \<Rightarrow> Drained | Some r \<Rightarrow> DrainAfter r) \<rparr>)"

text \<open>The listener registered by \<open>start\<close>: the client reports a change of one task, or of all.\<close>

definition metadataChanged :: "string option \<Rightarrow> ('r, 't) poller \<Rightarrow> ('r, 't) poller" where
  "metadataChanged gid s =
     (let s1 = ps_emit (MetaInvalidate gid) s
      in case gid of
           None \<Rightarrow> s1 \<lparr> ps_epoch := ps_epoch s1 + 1 \<rparr>
         | Some g \<Rightarrow> requestPoll s1)"

section \<open>One poll\<close>

definition ps_setStage :: "nat \<Rightarrow> ('r, 't) poll_stage \<Rightarrow> ('r, 't) poller \<Rightarrow> ('r, 't) poller" where
  "ps_setStage r st s = s \<lparr> ps_runs := jset (ps_runs s) r st \<rparr>"

definition live :: "nat \<Rightarrow> ('r, 't) poller \<Rightarrow> bool" where
  "live epoch s \<longleftrightarrow> \<not> (ps_stopped s \<or> epoch \<noteq> ps_epoch s)"

text \<open>The head of the batch loop: hand over when nothing is left, else await the next batch.\<close>

definition nextBatch :: "nat \<Rightarrow> nat \<Rightarrow> 'r raw_status list \<Rightarrow> 't list \<Rightarrow> ('r, 't) poller \<Rightarrow> ('r, 't) poller" where
  "nextBatch r epoch statuses tasks s =
     (if statuses = [] then ps_setStage r Updating (ps_emit (TasksUpdate epoch tasks AuthoritativePoll) s)
      else ps_setStage r (Hydrating epoch statuses tasks) s)"

definition multicallDone ::
  "nat \<Rightarrow> nat \<Rightarrow> raw_global_stat \<Rightarrow> 'r raw_status list \<Rightarrow> 'r raw_status list \<Rightarrow> ('r, 't) poller \<Rightarrow> ('r, 't) poller"
where
  "multicallDone r epoch rawStats rawActive rawWaiting s =
     (if \<not> live epoch s then ps_setStage r Settled s
      else let s1 = (case rg_numActive rawStats of
                       None \<Rightarrow> s
                     | Some n \<Rightarrow> switchMode (if n > 0 then ActiveMode else IdleMode) s);
               s2 = ps_emit (Stats epoch (translateGlobalStat rawStats)) s1;
               statuses = rawActive @ rawWaiting;
               s3 = ps_emit (MetaRetain (sadds [] (map rs_gid statuses))) s2
           in nextBatch r epoch statuses [] s3)"

text \<open>One batch of at most four \<open>hydrate\<close> calls settles; \<open>None\<close> is the \<open>null\<close> of a lost race.\<close>

definition batchDone ::
  "nat \<Rightarrow> nat \<Rightarrow> 'r raw_status list \<Rightarrow> 't list \<Rightarrow> 't option list \<Rightarrow> ('r, 't) poller \<Rightarrow> ('r, 't) poller"
where
  "batchDone r epoch statuses tasks batch s =
     (if \<not> live epoch s then ps_setStage r Settled s
      else nextBatch r epoch (drop 4 statuses) (tasks @ List.map_filter id batch) s)"

definition runSettled :: "nat \<Rightarrow> ('r, 't) poller \<Rightarrow> ('r, 't) poller" where
  "runSettled r s = ps_setStage r Settled s"

text \<open>The \<open>finally\<close> callback of \<open>poll\<close>.\<close>

definition pollFinally :: "nat \<Rightarrow> ('r, 't) poller \<Rightarrow> ('r, 't) poller" where
  "pollFinally r s =
     (let s1 = s \<lparr> ps_runs := jdel (ps_runs s) r \<rparr>;
          s2 = (if ps_inFlight s1 = Some r then s1 \<lparr> ps_inFlight := None \<rparr> else s1);
          s3 = s2 \<lparr> ps_polling := False \<rparr>
      in if ps_stopped s3 then s3
         else if ps_pendingPoll s3 then poll (s3 \<lparr> ps_pendingPoll := False \<rparr>)
         else if ps_timer s3 = None then scheduleNext s3
         else s3)"

section \<open>Notifications\<close>

definition setHandler :: "nat \<Rightarrow> bool \<Rightarrow> notify_stage \<Rightarrow> ('r, 't) poller \<Rightarrow> ('r, 't) poller" where
  "setHandler h isStart st s = s \<lparr> ps_handlers := jset (ps_handlers s) h (isStart, st) \<rparr>"

definition endHandler :: "nat \<Rightarrow> ('r, 't) poller \<Rightarrow> ('r, 't) poller" where
  "endHandler h s = s \<lparr> ps_handlers := jdel (ps_handlers s) h \<rparr>"

definition handleNotification :: "string \<Rightarrow> ('r, 't) poller \<Rightarrow> ('r, 't) poller" where
  "handleNotification method s =
     (if ps_stopped s then s
      else if method \<in> set START_NOTIFICATIONS then
        let s1 = switchMode ActiveMode s
        in (setHandler (ps_nextHandler s1) True (Telling (ps_epoch s1)) s1)
             \<lparr> ps_nextHandler := ps_nextHandler s1 + 1 \<rparr>
      else if method \<in> set STOP_NOTIFICATIONS then
        (setHandler (ps_nextHandler s) False (Telling (ps_epoch s)) s)
          \<lparr> ps_nextHandler := ps_nextHandler s + 1 \<rparr>
      else s)"

text \<open>\<open>syncNotifiedTask\<close>: the status arrives, its metadata arrives, or something rejects.\<close>

definition statusTold :: "nat \<Rightarrow> bool \<Rightarrow> nat \<Rightarrow> ('r, 't) poller \<Rightarrow> ('r, 't) poller" where
  "statusTold h isStart epoch s = setHandler h isStart (if \<not> live epoch s then Synced else HydratingOne epoch) s"

definition statusHydrated :: "nat \<Rightarrow> bool \<Rightarrow> nat \<Rightarrow> 't option \<Rightarrow> ('r, 't) poller \<Rightarrow> ('r, 't) poller" where
  "statusHydrated h isStart epoch task s =
     (if \<not> live epoch s then setHandler h isStart Synced s
      else case task of
             None \<Rightarrow> setHandler h isStart Synced s
           | Some t \<Rightarrow> setHandler h isStart Publishing (ps_emit (TasksUpdate epoch [t] Notification) s))"

definition syncSettled :: "nat \<Rightarrow> bool \<Rightarrow> ('r, 't) poller \<Rightarrow> ('r, 't) poller" where
  "syncSettled h isStart s = setHandler h isStart Synced s"

text \<open>After \<open>syncNotifiedTask\<close>: a start polls at once, a stop looks at the statistics first.\<close>

definition afterSync :: "nat \<Rightarrow> bool \<Rightarrow> ('r, 't) poller \<Rightarrow> ('r, 't) poller" where
  "afterSync h isStart s =
     (if ps_stopped s then endHandler h s
      else if isStart then endHandler h (requestPoll s)
      else setHandler h isStart Checking s)"

text \<open>\<open>checkAndSwitchMode\<close>: \<open>None\<close> is a failed call.\<close>

definition statsChecked :: "nat \<Rightarrow> bool \<Rightarrow> raw_global_stat option \<Rightarrow> ('r, 't) poller \<Rightarrow> ('r, 't) poller" where
  "statsChecked h isStart stats s =
     setHandler h isStart Checked
       (case stats of
          None \<Rightarrow> s
        | Some st \<Rightarrow> if ps_stopped s then s
                     else if rg_numActive st = Some 0 then switchMode IdleMode s else s)"

definition afterCheck :: "nat \<Rightarrow> ('r, 't) poller \<Rightarrow> ('r, 't) poller" where
  "afterCheck h s = (if ps_stopped s then endHandler h s else endHandler h (requestPoll s))"

section \<open>Steps\<close>

inductive ps_step :: "('r, 't) poller \<Rightarrow> ('r, 't) poller \<Rightarrow> bool" where
  start: "ps_step s (start s)"
| stop: "ps_step s (stopAndDrain s)"
| changed: "ps_subscribed s \<Longrightarrow> ps_step s (metadataChanged gid s)"
| timer: "h \<in> set (ps_armed s) \<Longrightarrow> ps_step s (timerFired h s)"
| multicall: "map_of (ps_runs s) r = Some (Calling e) \<Longrightarrow> ps_step s (multicallDone r e st ra rw s)"
| batch: "map_of (ps_runs s) r = Some (Hydrating e rs ts) \<Longrightarrow> length b = length (take 4 rs) \<Longrightarrow>
    ps_step s (batchDone r e rs ts b s)"
| settled: "map_of (ps_runs s) r = Some st \<Longrightarrow> ps_step s (runSettled r s)"
| after_poll: "map_of (ps_runs s) r = Some Settled \<Longrightarrow> ps_step s (pollFinally r s)"
| notify: "ps_step s (handleNotification m s)"
| told: "map_of (ps_handlers s) h = Some (b, Telling e) \<Longrightarrow> ps_step s (statusTold h b e s)"
| hydrated: "map_of (ps_handlers s) h = Some (b, HydratingOne e) \<Longrightarrow> ps_step s (statusHydrated h b e t s)"
| sync_settled: "map_of (ps_handlers s) h = Some (b, st) \<Longrightarrow> st \<noteq> Synced \<Longrightarrow> st \<noteq> Checking \<Longrightarrow> st \<noteq> Checked \<Longrightarrow>
    ps_step s (syncSettled h b s)"
| synced: "map_of (ps_handlers s) h = Some (b, Synced) \<Longrightarrow> ps_step s (afterSync h b s)"
| stats_checked: "map_of (ps_handlers s) h = Some (b, Checking) \<Longrightarrow> ps_step s (statsChecked h b gs s)"
| checked: "map_of (ps_handlers s) h = Some (b, Checked) \<Longrightarrow> ps_step s (afterCheck h s)"

inductive ps_reach :: "('r, 't) poller \<Rightarrow> bool" where
  init: "ps_reach ps_new"
| step: "ps_reach s \<Longrightarrow> ps_step s s' \<Longrightarrow> ps_reach s'"

section \<open>Invariant\<close>

text \<open>
  The code remembers the one timer the runtime holds; at most one \<open>pollOnce\<close> is in flight and
  \<open>polling\<close> says whether; while running a poll is in flight or a timer is armed; while stopped
  nothing is scheduled and nobody listens.
\<close>

fun opt_list :: "'a option \<Rightarrow> 'a list" where
  "opt_list None = []"
| "opt_list (Some x) = [x]"

lemma opt_list_simps [simp]: "opt_list x = [] \<longleftrightarrow> x = None" "opt_list x = [y] \<longleftrightarrow> x = Some y" "set (opt_list x) = set_option x"
  by (cases x; simp)+

definition timers_ok :: "('r, 't) poller \<Rightarrow> bool" where
  "timers_ok s \<longleftrightarrow> ps_armed s = opt_list (ps_timer s)"

definition flight_ok :: "('r, 't) poller \<Rightarrow> bool" where
  "flight_ok s \<longleftrightarrow> (ps_polling s \<longleftrightarrow> ps_inFlight s \<noteq> None) \<and> map fst (ps_runs s) = opt_list (ps_inFlight s)"

definition stopped_ok :: "('r, 't) poller \<Rightarrow> bool" where
  "stopped_ok s \<longleftrightarrow> (ps_stopped s \<longrightarrow> ps_timer s = None \<and> \<not> ps_pendingPoll s \<and> \<not> ps_subscribed s) \<and>
     (ps_pendingPoll s \<longrightarrow> ps_polling s)"

definition alive :: "('r, 't) poller \<Rightarrow> bool" where
  "alive s \<longleftrightarrow> (\<not> ps_stopped s \<longrightarrow> ps_polling s \<or> ps_timer s \<noteq> None)"

definition ps_ok :: "('r, 't) poller \<Rightarrow> bool" where
  "ps_ok s \<longleftrightarrow> timers_ok s \<and> flight_ok s \<and> stopped_ok s"

named_theorems ps_defs

lemmas [ps_defs] = ps_ok_def timers_ok_def flight_ok_def stopped_ok_def alive_def

lemma ps_ok_out [simp]: "ps_ok (ps_emit e s) = ps_ok s" "alive (ps_emit e s) = alive s"
  "ps_stopped (ps_emit e s) = ps_stopped s" "ps_timer (ps_emit e s) = ps_timer s"
  "ps_runs (ps_emit e s) = ps_runs s" "ps_epoch (ps_emit e s) = ps_epoch s" "ps_handlers (ps_emit e s) = ps_handlers s"
  "ps_out (ps_emit e s) = ps_out s @ [e]"
  by (simp_all add: ps_defs ps_emit_def)

lemma ps_ok_handlers [simp]:
  "ps_ok (setHandler h b st s) = ps_ok s" "alive (setHandler h b st s) = alive s"
  "ps_ok (endHandler h s) = ps_ok s" "alive (endHandler h s) = alive s"
  "ps_ok (s \<lparr> ps_nextHandler := n \<rparr>) = ps_ok s" "alive (s \<lparr> ps_nextHandler := n \<rparr>) = alive s"
  by (simp_all add: ps_defs setHandler_def endHandler_def)

lemma ps_clearTimer_ok: "ps_ok s \<Longrightarrow> ps_ok (ps_clearTimer s) \<and> ps_timer (ps_clearTimer s) = None"
  by (cases "ps_timer s") (auto simp: ps_defs ps_clearTimer_def sdel_def)

lemma ps_clearTimer_fields [simp]:
  "ps_stopped (ps_clearTimer s) = ps_stopped s" "ps_polling (ps_clearTimer s) = ps_polling s"
  "ps_epoch (ps_clearTimer s) = ps_epoch s" "ps_out (ps_clearTimer s) = ps_out s"
  "ps_runs (ps_clearTimer s) = ps_runs s" "ps_inFlight (ps_clearTimer s) = ps_inFlight s"
  "ps_pendingPoll (ps_clearTimer s) = ps_pendingPoll s" "ps_handlers (ps_clearTimer s) = ps_handlers s"
  by (simp_all add: ps_clearTimer_def split: option.split)

lemma scheduleNext_ok: "ps_ok s \<Longrightarrow> ps_timer s = None \<Longrightarrow> ps_ok (scheduleNext s) \<and> alive (scheduleNext s)"
  by (auto simp: ps_defs scheduleNext_def)

lemma switchMode_ok: "ps_ok s \<Longrightarrow> alive s \<Longrightarrow> ps_ok (switchMode m s) \<and> alive (switchMode m s)"
proof -
  assume a: "ps_ok s" "alive s"
  have "ps_ok (s \<lparr> ps_mode := m \<rparr>)" using a(1) by (auto simp: ps_defs)
  then show ?thesis
    using a ps_clearTimer_ok [of "s \<lparr> ps_mode := m \<rparr>"] by (auto simp: switchMode_def scheduleNext_ok)
qed

lemma poll_ok: "ps_ok s \<Longrightarrow> ps_ok (poll s) \<and> alive (poll s)"
  by (auto simp: ps_defs poll_def ps_emit_def split: option.splits)

lemma requestPoll_ok: "ps_ok s \<Longrightarrow> ps_ok (requestPoll s) \<and> alive (requestPoll s)"
  using poll_ok [OF conjunct1 [OF ps_clearTimer_ok]] by (auto simp: requestPoll_def alive_def)

lemma keys_jset: "map_of m k \<noteq> None \<Longrightarrow> map fst (jset m k v) = map fst m"
  by (induction m k v rule: jset.induct) (auto split: if_splits)

lemma ps_setStage_ok:
  "ps_ok s \<Longrightarrow> map_of (ps_runs s) r \<noteq> None \<Longrightarrow> ps_ok (ps_setStage r st s) \<and> alive (ps_setStage r st s) = alive s"
  by (auto simp: ps_defs ps_setStage_def keys_jset)

lemma nextBatch_ok:
  "ps_ok s \<Longrightarrow> map_of (ps_runs s) r \<noteq> None \<Longrightarrow> alive s \<Longrightarrow> ps_ok (nextBatch r e rs ts s) \<and> alive (nextBatch r e rs ts s)"
  using ps_setStage_ok [of s r] ps_setStage_ok [of "ps_emit (TasksUpdate e ts AuthoritativePoll) s" r]
  by (auto simp: nextBatch_def)

lemma switchMode_runs [simp]: "ps_runs (switchMode m s) = ps_runs s" "ps_stopped (switchMode m s) = ps_stopped s"
  "ps_epoch (switchMode m s) = ps_epoch s" "ps_handlers (switchMode m s) = ps_handlers s"
  by (simp_all add: switchMode_def ps_emit_def scheduleNext_def)

lemma pollFinally_ok: "ps_ok s \<Longrightarrow> map_of (ps_runs s) r \<noteq> None \<Longrightarrow> ps_ok (pollFinally r s) \<and> alive (pollFinally r s)"
proof -
  assume a: "ps_ok s" "map_of (ps_runs s) r \<noteq> None"
  define s3 where "s3 = (if ps_inFlight s = Some r then s \<lparr> ps_runs := jdel (ps_runs s) r, ps_inFlight := None \<rparr>
      else s \<lparr> ps_runs := jdel (ps_runs s) r \<rparr>) \<lparr> ps_polling := False \<rparr>"
  have eq: "pollFinally r s = (if ps_stopped s3 then s3
     else if ps_pendingPoll s3 then poll (s3 \<lparr> ps_pendingPoll := False \<rparr>)
     else if ps_timer s3 = None then scheduleNext s3 else s3)"
    by (simp add: pollFinally_def s3_def Let_def)
  obtain st where "ps_runs s = [(r, st)]" "ps_inFlight s = Some r"
    using a by (cases "ps_inFlight s") (auto simp: ps_defs Cons_eq_map_conv map_eq_Cons_conv split: if_splits)
  then have 3: "ps_ok (s3 \<lparr> ps_pendingPoll := False \<rparr>)"
    using a by (auto simp: ps_defs s3_def jdel_def)
  then have "\<not> ps_pendingPoll s3 \<Longrightarrow> ps_ok s3" by (simp add: ps_defs)
  moreover have "ps_stopped s3 \<Longrightarrow> \<not> ps_pendingPoll s3"
    using a by (auto simp: ps_defs s3_def)
  ultimately show ?thesis
    using poll_ok [OF 3] scheduleNext_ok [of s3] by (auto simp: eq alive_def)
qed

lemma step_ok:
  assumes "ps_step s s'" and "ps_ok s" and "alive s"
  shows "ps_ok s' \<and> alive s'"
  using assms(1)
proof cases
  case start
  have "ps_ok ((ps_emit (MetaInvalidate None) (s \<lparr> ps_epoch := ps_epoch s + 1 \<rparr>))
             \<lparr> ps_subscribed := True, ps_drain := None, ps_mode := IdleMode, ps_stopped := False \<rparr>)"
    using assms(2) by (auto simp: ps_defs ps_emit_def)
  then show ?thesis using start poll_ok by (simp add: start_def)
next
  case stop
  have "ps_ok (stopAndDrain s)"
    using assms(2) by (cases "ps_timer s"; cases "ps_inFlight s")
      (auto simp: ps_defs stopAndDrain_def ps_clearTimer_def sdel_def ps_emit_def)
  then show ?thesis using stop assms by (auto simp: stopAndDrain_def Let_def alive_def)
next
  case (changed gid)
  have "ps_ok (ps_emit (MetaInvalidate gid) s \<lparr> ps_epoch := n \<rparr>)" "alive (ps_emit (MetaInvalidate gid) s \<lparr> ps_epoch := n \<rparr>)" for n
    using assms by (auto simp: ps_defs ps_emit_def)
  then show ?thesis
    using changed assms requestPoll_ok [of "ps_emit (MetaInvalidate gid) s"]
    by (auto simp: metadataChanged_def Let_def split: option.split)
next
  case (timer h)
  have "ps_ok (s \<lparr> ps_armed := sdel (ps_armed s) h, ps_timer := None \<rparr>)"
    using assms timer by (auto simp: ps_defs sdel_def split: option.splits)
  then show ?thesis using timer poll_ok by (simp add: timerFired_def)
next
  case (multicall r e st ra rw)
  define s1 where "s1 = ps_emit (MetaRetain (sadds [] (map rs_gid (ra @ rw)))) (ps_emit (Stats e (translateGlobalStat st))
    (case rg_numActive st of None \<Rightarrow> s | Some n \<Rightarrow> switchMode (if n > 0 then ActiveMode else IdleMode) s))"
  have 1: "ps_ok s1 \<and> alive s1 \<and> ps_runs s1 = ps_runs s"
    using assms switchMode_ok [of s] by (auto simp: s1_def split: option.split)
  have "s' = (if \<not> live e s then ps_setStage r Settled s else nextBatch r e (ra @ rw) [] s1)"
    using multicall(1) by (simp add: multicallDone_def Let_def s1_def)
  then show ?thesis
    using 1 multicall(2) assms ps_setStage_ok [of s r Settled] nextBatch_ok [of s1 r] by simp
next
  case (batch r e rs ts b)
  then show ?thesis
    using assms ps_setStage_ok [of s r Settled] nextBatch_ok [of s r] by (auto simp: batchDone_def)
next
  case (settled r st)
  then show ?thesis using assms ps_setStage_ok [of s r Settled] by (auto simp: runSettled_def)
next
  case (after_poll r)
  then show ?thesis using assms pollFinally_ok [of s r] by auto
next
  case (notify m)
  then show ?thesis using assms switchMode_ok [of s] by (auto simp: handleNotification_def Let_def)
next
  case (told h b e)
  then show ?thesis using assms by (simp add: statusTold_def)
next
  case (hydrated h b e t)
  then show ?thesis using assms by (simp add: statusHydrated_def split: option.split)
next
  case (sync_settled h b st)
  then show ?thesis using assms by (simp add: syncSettled_def)
next
  case (synced h b)
  then show ?thesis using assms requestPoll_ok [of s] by (auto simp: afterSync_def)
next
  case (stats_checked h b gs)
  then show ?thesis using assms switchMode_ok [of s] by (auto simp: statsChecked_def split: option.split)
next
  case (checked h b)
  then show ?thesis using assms requestPoll_ok [of s] by (auto simp: afterCheck_def)
qed

lemma reach_ok: "ps_reach s \<Longrightarrow> ps_ok s \<and> alive s"
proof (induction rule: ps_reach.induct)
  case init
  then show ?case by (simp add: ps_defs ps_new_def)
next
  case (step s s')
  then show ?case using step_ok by blast
qed

section \<open>Deliveries\<close>

text \<open>The epoch whose request a delivery answers.\<close>

fun tag :: "'t poll_effect \<Rightarrow> nat option" where
  "tag (Stats e _) = Some e"
| "tag (TasksUpdate e _ _) = Some e"
| "tag _ = None"

definition deliveries :: "nat \<Rightarrow> ('r, 't) poller \<Rightarrow> 't poll_effect list" where
  "deliveries e s = filter (\<lambda>d. tag d = Some e) (ps_out s)"

definition silent :: "nat \<Rightarrow> ('r, 't) poller \<Rightarrow> ('r, 't) poller \<Rightarrow> bool" where
  "silent e s s' \<longleftrightarrow> deliveries e s' = deliveries e s"

lemma silent_simps [simp]:
  "silent e s (ps_clearTimer s') = silent e s s'" "silent e s (ps_setStage r st s') = silent e s s'"
  "silent e s (scheduleNext s') = silent e s s'" "silent e s (setHandler h b hst s') = silent e s s'"
  "silent e s (endHandler h s') = silent e s s'" "tag d \<noteq> Some e \<Longrightarrow> silent e s (ps_emit d s') = silent e s s'"
  "silent e s s"
  by (simp_all add: silent_def deliveries_def ps_setStage_def scheduleNext_def setHandler_def endHandler_def)

lemma silent_mono: "ps_out s' = ps_out s'' \<Longrightarrow> silent e s s' = silent e s s''"
  by (simp add: silent_def deliveries_def)

lemma switchMode_silent [simp]: "silent e s (switchMode m s') = silent e s s'"
  using silent_mono [of "s' \<lparr> ps_mode := m \<rparr>" s' e s] by (simp add: switchMode_def)

lemma poll_out [simp]: "filter (\<lambda>d. tag d = Some e) (ps_out (poll s)) = filter (\<lambda>d. tag d = Some e) (ps_out s)"
  by (simp add: poll_def ps_emit_def)

lemma poll_silent [simp]: "silent e s (poll s') = silent e s s'"
  by (simp add: poll_def silent_def deliveries_def ps_emit_def)

lemma requestPoll_silent [simp]: "silent e s (requestPoll s') = silent e s s'"
  by (simp add: requestPoll_def)

lemma nextBatch_silent: "e \<noteq> d \<Longrightarrow> silent d s (nextBatch r e rs ts s') = silent d s s'"
  by (simp add: nextBatch_def)

lemma poll_epoch [simp]: "ps_epoch (poll s) = ps_epoch s" "ps_epoch (scheduleNext s) = ps_epoch s"
  by (simp_all add: poll_def scheduleNext_def)

lemma step_epoch: "ps_step s s' \<Longrightarrow> ps_epoch s \<le> ps_epoch s'"
  by (cases rule: ps_step.cases)
     (auto simp: start_def stopAndDrain_def metadataChanged_def timerFired_def multicallDone_def batchDone_def
       runSettled_def pollFinally_def handleNotification_def statusTold_def statusHydrated_def syncSettled_def
       afterSync_def statsChecked_def afterCheck_def nextBatch_def ps_setStage_def setHandler_def endHandler_def
       requestPoll_def Let_def split: option.split)

interpretation pg: epoch_guard ps_epoch ps_step
  by unfold_locales (rule step_epoch)

lemma step_silent:
  assumes "ps_step s s'" and "d \<noteq> ps_epoch s \<or> ps_stopped s"
  shows "silent d s s'"
  using assms(1)
proof cases
  case start
  then show ?thesis by (simp add: start_def silent_def deliveries_def ps_emit_def)
next
  case stop
  then show ?thesis by (simp add: stopAndDrain_def silent_def deliveries_def Let_def)
next
  case (changed gid)
  have "silent d s (ps_emit (MetaInvalidate gid) s \<lparr> ps_epoch := n \<rparr>)" for n
    by (simp add: silent_def deliveries_def)
  then show ?thesis using changed by (cases gid) (simp_all add: metadataChanged_def Let_def)
next
  case (timer h)
  then show ?thesis by (simp add: timerFired_def silent_def deliveries_def)
next
  case (multicall r e st ra rw)
  have "live e s \<Longrightarrow> e \<noteq> d" using assms(2) by (auto simp: live_def)
  then show ?thesis
    using multicall(1) by (auto simp: multicallDone_def Let_def nextBatch_silent split: option.split)
next
  case (batch r e rs ts b)
  have "live e s \<Longrightarrow> e \<noteq> d" using assms(2) by (auto simp: live_def)
  then show ?thesis using batch(1) by (auto simp: batchDone_def nextBatch_silent)
next
  case (settled r st)
  then show ?thesis by (simp add: runSettled_def)
next
  case (after_poll r)
  then show ?thesis
    by (simp add: pollFinally_def silent_def deliveries_def Let_def scheduleNext_def)
next
  case (notify m)
  have 1: "silent d s (x \<lparr> ps_nextHandler := n \<rparr>) = silent d s x" for x n
    by (simp add: silent_def deliveries_def)
  show ?thesis using notify by (simp add: handleNotification_def Let_def 1)
next
  case (told h b e)
  then show ?thesis by (simp add: statusTold_def)
next
  case (hydrated h b e t)
  have "live e s \<Longrightarrow> e \<noteq> d" using assms(2) by (auto simp: live_def)
  then show ?thesis using hydrated(1) by (auto simp: statusHydrated_def split: option.split)
next
  case (sync_settled h b st)
  then show ?thesis by (simp add: syncSettled_def)
next
  case (synced h b)
  then show ?thesis by (simp add: afterSync_def)
next
  case (stats_checked h b gs)
  then show ?thesis by (simp add: statsChecked_def split: option.split)
next
  case (checked h b)
  then show ?thesis by (simp add: afterCheck_def)
qed

section \<open>The drain\<close>

definition drain_ok :: "('r, 't) poller \<Rightarrow> bool" where
  "drain_ok s \<longleftrightarrow> (ps_drain s \<noteq> None \<longrightarrow> ps_stopped s) \<and>
     (ps_drain s = Some Drained \<longrightarrow> ps_inFlight s = None) \<and>
     (\<forall>r. ps_drain s = Some (DrainAfter r) \<longrightarrow> ps_inFlight s = None \<or> ps_inFlight s = Some r)"

lemma poll_drain: "drain_ok s \<Longrightarrow> drain_ok (poll s)"
  by (auto simp: drain_ok_def poll_def ps_emit_def)

lemma drain_simps [simp]:
  "drain_ok (ps_emit e s) = drain_ok s" "drain_ok (ps_clearTimer s) = drain_ok s" "drain_ok (ps_setStage r st s) = drain_ok s"
  "drain_ok (setHandler h b hst s) = drain_ok s" "drain_ok (endHandler h s) = drain_ok s"
  "drain_ok (scheduleNext s) = drain_ok s" "drain_ok (s \<lparr> ps_nextHandler := n \<rparr>) = drain_ok s"
  "drain_ok (s \<lparr> ps_epoch := n \<rparr>) = drain_ok s" "drain_ok (s \<lparr> ps_mode := m \<rparr>) = drain_ok s"
  by (simp_all add: drain_ok_def ps_emit_def ps_clearTimer_def ps_setStage_def setHandler_def endHandler_def
      scheduleNext_def split: option.split)

lemma switch_drain [simp]: "drain_ok (switchMode m s) = drain_ok s"
  by (simp add: switchMode_def)

lemma request_drain: "drain_ok s \<Longrightarrow> drain_ok (requestPoll s)"
  by (simp add: requestPoll_def poll_drain)

lemma batch_drain [simp]: "drain_ok (nextBatch r e rs ts s) = drain_ok s"
  by (simp add: nextBatch_def)

lemma finally_drain: "drain_ok s \<Longrightarrow> drain_ok (pollFinally r s)"
  by (auto simp: pollFinally_def Let_def intro!: poll_drain) (auto simp: drain_ok_def)

lemma step_drain:
  assumes "ps_step s s'" and "drain_ok s"
  shows "drain_ok s'"
  using assms(1)
proof cases
  case start
  then show ?thesis by (auto simp: start_def intro!: poll_drain) (simp add: drain_ok_def)
next
  case stop
  then show ?thesis
    using assms(2) by (auto simp: stopAndDrain_def Let_def drain_ok_def ps_emit_def split: option.splits)
next
  case (timer h)
  then show ?thesis using assms(2) by (auto simp: timerFired_def intro!: poll_drain) (simp add: drain_ok_def)
qed (use assms(2) in \<open>auto simp: metadataChanged_def multicallDone_def batchDone_def runSettled_def
  handleNotification_def statusTold_def statusHydrated_def syncSettled_def afterSync_def statsChecked_def
  afterCheck_def Let_def request_drain finally_drain split: option.split\<close>)

lemma reach_drain: "ps_reach s \<Longrightarrow> drain_ok s"
proof (induction rule: ps_reach.induct)
  case init
  then show ?case by (simp add: drain_ok_def ps_new_def)
next
  case (step s s')
  then show ?case using step_drain by blast
qed

section \<open>The properties\<close>

text \<open>
  C26: one poll at a time, one timer, and the chain never breaks. In every reachable state at most
  one \<open>pollOnce\<close> is in flight and the runtime holds no timer but the one the code remembers; while
  the scheduler runs, a poll is in flight or a timer is armed, so another poll always comes; while
  it is stopped, no timer is armed and no further poll is wanted.
\<close>
theorem poll_chain:
  assumes "ps_reach s"
  shows "length (ps_runs s) \<le> 1 \<and> length (ps_armed s) \<le> 1 \<and> set (ps_armed s) = set_option (ps_timer s) \<and>
    (\<not> ps_stopped s \<longrightarrow> ps_runs s \<noteq> [] \<or> ps_armed s \<noteq> []) \<and>
    (ps_stopped s \<longrightarrow> ps_armed s = [] \<and> \<not> ps_pendingPoll s)"
proof -
  have ok: "timers_ok s" "flight_ok s" "stopped_ok s" "alive s"
    using reach_ok [OF assms] by (simp_all add: ps_ok_def)
  have t: "length (ps_armed s) \<le> 1" "set (ps_armed s) = set_option (ps_timer s)"
    using ok(1) by (cases "ps_timer s"; simp add: timers_ok_def)+
  have "length (map fst (ps_runs s)) \<le> 1"
    using ok(2) by (cases "ps_inFlight s") (auto simp: flight_ok_def)
  then have r: "length (ps_runs s) \<le> 1" by simp
  have l: "\<not> ps_stopped s \<longrightarrow> ps_runs s \<noteq> [] \<or> ps_armed s \<noteq> []"
    using ok by (auto simp: ps_defs)
  have "ps_stopped s \<longrightarrow> ps_armed s = [] \<and> \<not> ps_pendingPoll s"
    using ok by (auto simp: ps_defs)
  then show ?thesis using t r l by simp
qed

text \<open>
  nothing that was asked for before a stop, a restart or a reconnect is delivered after it.
  However the calls in flight settle afterwards, the deliveries that answer a request of that time
  or earlier stay exactly those made before.
\<close>
theorem stale_poll_silent:
  assumes "e \<le> ps_epoch s" and "u = start s \<or> (u = stopAndDrain s \<and> ps_drain s = None) \<or> u = metadataChanged None s"
    and "pg.steps u t"
  shows "deliveries e t = deliveries e s"
proof -
  have u: "ps_epoch s < ps_epoch u" "deliveries e u = deliveries e s"
    using assms(2) by (auto simp: start_def stopAndDrain_def metadataChanged_def Let_def deliveries_def ps_emit_def)
  have "e < ps_epoch u \<Longrightarrow> deliveries e t = deliveries e u" using assms(3)
  proof (induction rule: pg.steps.induct)
    case (trans x y z)
    have "e \<noteq> ps_epoch y" using pg.stale_forever [OF trans.prems trans.hyps(1)] .
    then show ?case using step_silent [OF trans.hyps(2)] trans by (simp add: silent_def)
  qed simp
  then show ?thesis using u assms(1) by simp
qed

text \<open>
  waiting for the drain is enough. Once the promise of \<open>stopAndDrain\<close> has resolved (at once
  when no poll was in flight, else when that poll's run is over), no poll is in flight and no
  timer will start one.
\<close>
theorem drained_is_quiet:
  assumes "ps_reach s" and "ps_drain s = Some d" and "\<forall>r. d = DrainAfter r \<longrightarrow> map_of (ps_runs s) r = None"
  shows "ps_stopped s \<and> ps_runs s = [] \<and> ps_armed s = [] \<and> ps_inFlight s = None"
proof -
  have ok: "timers_ok s" "flight_ok s" "stopped_ok s" "drain_ok s"
    using reach_ok [OF assms(1)] reach_drain [OF assms(1)] by (simp_all add: ps_ok_def)
  have st: "ps_stopped s" using ok(4) assms(2) by (simp add: drain_ok_def)
  have "ps_inFlight s = None"
  proof (cases d)
    case Drained
    then show ?thesis using ok(4) assms(2) by (simp add: drain_ok_def)
  next
    case (DrainAfter r)
    then have "ps_inFlight s = None \<or> ps_inFlight s = Some r" using ok(4) assms(2) by (simp add: drain_ok_def)
    moreover have "ps_inFlight s \<noteq> Some r"
      using ok(2) assms(3) DrainAfter by (force simp: flight_ok_def map_of_none_iff simp flip: set_map)
    ultimately show ?thesis by simp
  qed
  then show ?thesis using ok st by (auto simp: ps_defs)
qed

text \<open>A poll that nothing disturbs, with \<open>f\<close> what the cache answers for each status.\<close>

function hydrateAll ::
  "('r raw_status \<Rightarrow> 't option) \<Rightarrow> nat \<Rightarrow> nat \<Rightarrow> 'r raw_status list \<Rightarrow> 't list \<Rightarrow> ('r, 't) poller \<Rightarrow> ('r, 't) poller"
where
  "hydrateAll f r e rs ts s =
     (if rs = [] then s
      else let b = map f (take 4 rs)
           in hydrateAll f r e (drop 4 rs) (ts @ List.map_filter id b) (batchDone r e rs ts b s))"
  by pat_completeness auto
termination
  by (relation "measure (\<lambda>(f, r, e, rs, ts, s). length rs)") auto

declare hydrateAll.simps [simp del]

lemma nextBatch_live [simp]: "live e (nextBatch r e' rs ts s) = live e s"
  by (simp add: nextBatch_def live_def ps_setStage_def)

lemma mf_append: "List.map_filter f (xs @ ys) = List.map_filter f xs @ List.map_filter f ys"
  by (simp add: List.map_filter_def)

lemma hydrateAll_last:
  assumes "live e s" and "rs \<noteq> []"
  shows "last (ps_out (hydrateAll f r e rs ts s)) = TasksUpdate e (ts @ List.map_filter f rs) AuthoritativePoll \<and>
    map_of (ps_runs (hydrateAll f r e rs ts s)) r = Some Updating"
  using assms
proof (induction f r e rs ts s rule: hydrateAll.induct)
  case (1 f r e rs ts s)
  let ?b = "map f (take 4 rs)"
  have mf: "List.map_filter id ?b = List.map_filter f (take 4 rs)"
    by (simp add: List.map_filter_def filter_map o_def)
  have b: "batchDone r e rs ts ?b s = nextBatch r e (drop 4 rs) (ts @ List.map_filter f (take 4 rs)) s"
    using 1(2) mf by (simp add: batchDone_def)
  have split: "List.map_filter f rs = List.map_filter f (take 4 rs) @ List.map_filter f (drop 4 rs)"
    by (metis append_take_drop_id mf_append)
  show ?case
  proof (cases "drop 4 rs = []")
    case True
    have "hydrateAll f r e (drop 4 rs) t' s' = s'" for t' s'
      by (subst hydrateAll.simps) (simp add: True)
    then have h: "hydrateAll f r e rs ts s = nextBatch r e [] (ts @ List.map_filter f (take 4 rs)) s"
      using 1(3) by (subst hydrateAll.simps) (simp only: b Let_def if_False True)
    show ?thesis
      unfolding h split True by (simp add: nextBatch_def ps_setStage_def ps_emit_def List.map_filter_def)
  next
    case False
    have "live e (batchDone r e rs ts ?b s)" using 1(2) b by simp
    then have "last (ps_out (hydrateAll f r e (drop 4 rs) (ts @ List.map_filter id ?b) (batchDone r e rs ts ?b s))) =
        TasksUpdate e ((ts @ List.map_filter id ?b) @ List.map_filter f (drop 4 rs)) AuthoritativePoll \<and>
      map_of (ps_runs (hydrateAll f r e (drop 4 rs) (ts @ List.map_filter id ?b) (batchDone r e rs ts ?b s))) r = Some Updating"
      using 1(1) [OF 1(3) refl] False by simp
    then show ?thesis
      using 1(3) split mf by (subst (1 2) hydrateAll.simps) (simp add: Let_def)
  qed
qed

text \<open>
  an undisturbed poll reports every task, once and in order. From the reply of the multicall,
  the batches of four end with one authoritative update that holds, for the active and then the
  waiting statuses, exactly what the metadata cache answered for each; the statistics and the
  cadence follow the same reply.
\<close>
theorem poll_reports_everything:
  assumes "live e s"
  shows "last (ps_out (hydrateAll f r e (ra @ rw) [] (multicallDone r e st ra rw s))) =
      TasksUpdate e (List.map_filter f (ra @ rw)) AuthoritativePoll \<and>
    map_of (ps_runs (hydrateAll f r e (ra @ rw) [] (multicallDone r e st ra rw s))) r = Some Updating \<and>
    Stats e (translateGlobalStat st) \<in> set (ps_out (multicallDone r e st ra rw s)) \<and>
    (\<forall>n. rg_numActive st = Some n \<longrightarrow> ps_mode (multicallDone r e st ra rw s) = (if n > 0 then ActiveMode else IdleMode))"
proof -
  define s3 where "s3 = ps_emit (MetaRetain (sadds [] (map rs_gid (ra @ rw)))) (ps_emit (Stats e (translateGlobalStat st))
    (case rg_numActive st of None \<Rightarrow> s | Some n \<Rightarrow> switchMode (if n > 0 then ActiveMode else IdleMode) s))"
  have m: "multicallDone r e st ra rw s = nextBatch r e (ra @ rw) [] s3"
    using assms by (simp add: multicallDone_def s3_def Let_def)
  have l: "live e s3" using assms by (simp add: s3_def live_def split: option.split)
  have md: "ps_mode (switchMode k s) = k" for k
    by (simp add: switchMode_def ps_emit_def scheduleNext_def ps_clearTimer_def split: option.split)
  have stats: "Stats e (translateGlobalStat st) \<in> set (ps_out s3)" by (simp add: s3_def)
  have mode: "rg_numActive st = Some n \<Longrightarrow> ps_mode s3 = (if n > 0 then ActiveMode else IdleMode)" for n
    using md by (auto simp: s3_def ps_emit_def)
  have nb: "set (ps_out s3) \<subseteq> set (ps_out (nextBatch r e (ra @ rw) [] s3))" "ps_mode (nextBatch r e (ra @ rw) [] s3) = ps_mode s3"
    by (auto simp: nextBatch_def ps_setStage_def ps_emit_def)
  have "last (ps_out (hydrateAll f r e (ra @ rw) [] (nextBatch r e (ra @ rw) [] s3))) =
      TasksUpdate e (List.map_filter f (ra @ rw)) AuthoritativePoll \<and>
    map_of (ps_runs (hydrateAll f r e (ra @ rw) [] (nextBatch r e (ra @ rw) [] s3))) r = Some Updating"
  proof (cases "ra @ rw = []")
    case True
    then show ?thesis
      by (subst (1 2) hydrateAll.simps) (simp add: nextBatch_def ps_setStage_def ps_emit_def List.map_filter_def)
  next
    case False
    then show ?thesis using hydrateAll_last [of e "nextBatch r e (ra @ rw) [] s3" "ra @ rw" f r "[]"] l by simp
  qed
  then show ?thesis using m stats mode nb by auto
qed

section \<open>Witnesses\<close>

definition ex_stat :: raw_global_stat where
  "ex_stat = \<lparr> rg_downloadSpeed = Some 5, rg_uploadSpeed = Some 0, rg_numActive = Some 1,
     rg_numWaiting = Some 0, rg_numStopped = Some 0 \<rparr>"

definition ex_raw :: "string \<Rightarrow> unit raw_status" where
  "ex_raw g = \<lparr> rs_gid = g, rs_rest = () \<rparr>"

definition ex_started :: "(unit, string) poller" where "ex_started = start ps_new"

theorem poll_chain_witness:
  "length (ps_runs ex_started) \<le> 1 \<and> \<not> (ps_runs ex_started = [] \<and> ps_armed ex_started = [])"
proof -
  have "ps_reach ex_started" unfolding ex_started_def by (rule ps_reach.step [OF ps_reach.init ps_step.start])
  moreover have "\<not> ps_stopped ex_started" by code_simp
  ultimately show ?thesis using poll_chain [of ex_started] by simp
qed

theorem stale_poll_silent_witness:
  "deliveries 1 (multicallDone 0 1 ex_stat [ex_raw ''a''] [] (stopAndDrain ex_started)) = deliveries 1 ex_started"
proof (rule stale_poll_silent [of _ _ "stopAndDrain ex_started"])
  show "1 \<le> ps_epoch ex_started" by code_simp
  have "map_of (ps_runs (stopAndDrain ex_started)) 0 = Some (Calling 1)" by code_simp
  then show "pg.steps (stopAndDrain ex_started) (multicallDone 0 1 ex_stat [ex_raw ''a''] [] (stopAndDrain ex_started))"
    by (rule pg.steps.trans [OF pg.steps.refl ps_step.multicall])
  have "ps_drain ex_started = None" by code_simp
  then show "stopAndDrain ex_started = start ex_started \<or>
      (stopAndDrain ex_started = stopAndDrain ex_started \<and> ps_drain ex_started = None) \<or>
      stopAndDrain ex_started = metadataChanged None ex_started" by simp
qed

definition ex_drained :: "(unit, string) poller" where
  "ex_drained = pollFinally 0 (runSettled 0 (stopAndDrain ex_started))"

theorem drained_is_quiet_witness:
  "ps_stopped ex_drained \<and> ps_runs ex_drained = [] \<and> ps_armed ex_drained = [] \<and> ps_inFlight ex_drained = None"
proof (rule drained_is_quiet)
  have r: "map_of (ps_runs (stopAndDrain ex_started)) 0 = Some (Calling 1)" by code_simp
  have r2: "map_of (ps_runs (runSettled 0 (stopAndDrain ex_started))) 0 = Some Settled" by code_simp
  have "ps_reach ex_started" unfolding ex_started_def by (rule ps_reach.step [OF ps_reach.init ps_step.start])
  from ps_reach.step [OF this ps_step.stop] have "ps_reach (stopAndDrain ex_started)" .
  from ps_reach.step [OF this ps_step.settled [OF r]] have "ps_reach (runSettled 0 (stopAndDrain ex_started))" .
  from ps_reach.step [OF this ps_step.after_poll [OF r2]] show "ps_reach ex_drained" by (simp only: ex_drained_def)
  show "ps_drain ex_drained = Some (DrainAfter 0)" by code_simp
  have "map_of (ps_runs ex_drained) 0 = None" by code_simp
  then show "\<forall>r. DrainAfter 0 = DrainAfter r \<longrightarrow> map_of (ps_runs ex_drained) r = None" by simp
qed

theorem poll_reports_everything_witness:
  "last (ps_out (hydrateAll (\<lambda>x. if rs_gid x = ''b'' then None else Some (rs_gid x)) 0 1
      ([ex_raw ''a'', ex_raw ''b''] @ [ex_raw ''c'', ex_raw ''d'', ex_raw ''e'', ex_raw ''f'']) []
      (multicallDone 0 1 ex_stat [ex_raw ''a'', ex_raw ''b''] [ex_raw ''c'', ex_raw ''d'', ex_raw ''e'', ex_raw ''f''] ex_started))) =
   TasksUpdate 1 [''a'', ''c'', ''d'', ''e'', ''f''] AuthoritativePoll"
proof -
  have "live 1 ex_started" by code_simp
  then show ?thesis
    using poll_reports_everything [of 1 ex_started "\<lambda>x. if rs_gid x = ''b'' then None else Some (rs_gid x)" 0
        "[ex_raw ''a'', ex_raw ''b'']" "[ex_raw ''c'', ex_raw ''d'', ex_raw ''e'', ex_raw ''f'']" ex_stat]
    by (simp add: ex_raw_def List.map_filter_def)
qed

end
