(* ===== verification/Role_Band.thy ===== *)
theory Role_Band
  imports Prelude "HOL-Library.Multiset"
begin

text \<open>
  The order in which plugins run, \<open>core/plugin/hooks/role-band.ts\<close>, with the
  \<open>Array.prototype.sort\<close> and \<open>String.prototype.localeCompare\<close> it uses. The bands are an
  instance of the library's linear orders, and the comparator of the sort is an interface whose
  laws give what the users of a sort rely on.
\<close>

section \<open>Sorting with a comparator\<close>

text \<open>
  \<open>[...xs].sort(cmp)\<close> is stable: an element goes before the first one it does not exceed. The
  result of a stable sort by a consistent comparator does not depend on the algorithm.
\<close>

fun js_insert :: "('a \<Rightarrow> 'a \<Rightarrow> int) \<Rightarrow> 'a \<Rightarrow> 'a list \<Rightarrow> 'a list" where
  "js_insert cmp x [] = [x]"
| "js_insert cmp x (y # ys) = (if cmp x y \<le> 0 then x # y # ys else y # js_insert cmp x ys)"

definition js_sort :: "('a \<Rightarrow> 'a \<Rightarrow> int) \<Rightarrow> 'a list \<Rightarrow> 'a list" where
  "js_sort cmp xs = foldr (js_insert cmp) xs []"

lemma js_sort_simps [simp]: "js_sort cmp [] = []" "js_sort cmp (x # xs) = js_insert cmp x (js_sort cmp xs)"
  by (simp_all add: js_sort_def)

lemma mset_js_insert [simp]: "mset (js_insert cmp x ys) = add_mset x (mset ys)"
  by (induction ys) auto

lemma mset_js_sort [simp]: "mset (js_sort cmp xs) = mset xs"
  by (induction xs) auto

lemma set_js_sort [simp]: "set (js_sort cmp xs) = set xs"
  by (metis mset_js_sort set_mset_mset)

lemma length_js_sort [simp]: "length (js_sort cmp xs) = length xs"
  by (metis mset_js_sort size_mset)

lemma js_insert_map: "js_insert cmp (f x) (map f ys) = map f (js_insert (\<lambda>a b. cmp (f a) (f b)) x ys)"
  by (induction ys) auto

lemma js_sort_map: "js_sort cmp (map f xs) = map f (js_sort (\<lambda>a b. cmp (f a) (f b)) xs)"
  by (induction xs) (simp_all add: js_insert_map)

locale comparator =
  fixes cmp :: "'a \<Rightarrow> 'a \<Rightarrow> int"
  assumes cmp_sym: "cmp a b \<le> 0 \<longleftrightarrow> 0 \<le> cmp b a"
    and cmp_trans: "cmp a b \<le> 0 \<Longrightarrow> cmp b c \<le> 0 \<Longrightarrow> cmp a c \<le> 0"
begin

lemma cmp_total: "cmp a b \<le> 0 \<or> cmp b a \<le> 0"
  using cmp_sym [of b a] by linarith

lemma cmp_0_sym: "cmp a b = 0 \<longleftrightarrow> cmp b a = 0"
  using cmp_sym [of a b] cmp_sym [of b a] by linarith

lemma sorted_js_insert: "sorted_wrt (\<lambda>a b. cmp a b \<le> 0) ys \<Longrightarrow> sorted_wrt (\<lambda>a b. cmp a b \<le> 0) (js_insert cmp x ys)"
proof (induction ys)
  case (Cons y ys)
  have "set (js_insert cmp x ys) = insert x (set ys)" by (metis mset_js_insert set_mset_add_mset_insert set_mset_mset)
  then show ?case
    using Cons cmp_total [of x y] cmp_trans [of x y] by auto
qed simp

lemma sorted_js_sort: "sorted_wrt (\<lambda>a b. cmp a b \<le> 0) (js_sort cmp xs)"
  by (induction xs) (simp_all add: sorted_js_insert)

lemma tie_insert:
  assumes "sorted_wrt (\<lambda>a b. cmp a b \<le> 0) ys" and "\<And>a b. P a \<Longrightarrow> P b \<Longrightarrow> cmp a b = 0"
  shows "filter P (js_insert cmp x ys) = (if P x then x # filter P ys else filter P ys)"
  using assms(1)
proof (induction ys)
  case (Cons y ys)
  have "\<not> cmp x y \<le> 0 \<Longrightarrow> P x \<Longrightarrow> \<not> P y" using assms(2) [of x y] by auto
  then show ?case using Cons by auto
qed simp

text \<open>Stability: elements that tie keep their order.\<close>

lemma stable_js_sort:
  assumes "\<And>a b. P a \<Longrightarrow> P b \<Longrightarrow> cmp a b = 0"
  shows "filter P (js_sort cmp xs) = filter P xs"
  by (induction xs) (simp_all add: tie_insert [OF sorted_js_sort assms])

lemma js_insert_least: "\<forall>y\<in>set ys. cmp x y \<le> 0 \<Longrightarrow> js_insert cmp x ys = x # ys"
  by (cases ys) auto

lemma js_sort_sorted: "sorted_wrt (\<lambda>a b. cmp a b \<le> 0) xs \<Longrightarrow> js_sort cmp xs = xs"
  by (induction xs) (simp_all add: js_insert_least)

text \<open>
  A sorted list is determined by its elements and by the order within each tie: two inputs whose
  ties agree sort to the same list.
\<close>

lemma sorted_unique:
  assumes "sorted_wrt (\<lambda>a b. cmp a b \<le> 0) xs" and "sorted_wrt (\<lambda>a b. cmp a b \<le> 0) ys"
    and "\<And>z. filter (\<lambda>a. cmp a z = 0) xs = filter (\<lambda>a. cmp a z = 0) ys"
  shows "xs = ys"
  using assms
proof (induction xs arbitrary: ys)
  case Nil
  then show ?case
  proof (cases ys)
    case (Cons y ys')
    then show ?thesis using Nil(3) [of y] cmp_sym [of y y] cmp_total [of y y] by (auto split: if_splits)
  qed simp
next
  case (Cons x xs)
  have refl: "cmp z z = 0" for z using cmp_sym [of z z] cmp_total [of z z] by linarith
  have "x \<in> set (filter (\<lambda>a. cmp a x = 0) ys)"
    using Cons.prems(3) [of x, symmetric] by (simp add: refl)
  then have "x \<in> set ys" by simp
  then obtain y ys' where ys: "ys = y # ys'" by (cases ys) auto
  have "y \<in> set (filter (\<lambda>a. cmp a y = 0) (x # xs))"
    unfolding Cons.prems(3) [of y] by (simp add: ys refl)
  then have "y \<in> set (x # xs)" by (auto split: if_splits)
  then have xy: "cmp x y \<le> 0" using Cons.prems(1) refl [of x] by auto
  have "cmp y x \<le> 0" using Cons.prems(2) ys \<open>x \<in> set ys\<close> refl [of x] by auto
  then have tie: "cmp x y = 0" "cmp y x = 0" using xy cmp_sym [of x y] cmp_sym [of y x] by linarith+
  have "filter (\<lambda>a. cmp a x = 0) (x # xs) = x # filter (\<lambda>a. cmp a x = 0) xs" by (simp add: refl)
  moreover have "filter (\<lambda>a. cmp a x = 0) ys = y # filter (\<lambda>a. cmp a x = 0) ys'" using ys tie by simp
  ultimately have eq: "x = y" using Cons.prems(3) [of x] by simp
  have "filter (\<lambda>a. cmp a z = 0) xs = filter (\<lambda>a. cmp a z = 0) ys'" for z
    using Cons.prems(3) [of z] ys eq by (auto split: if_splits)
  then show ?case using Cons.IH [of ys'] Cons.prems ys eq by simp
qed

lemma js_sort_cong:
  assumes "\<And>z. filter (\<lambda>a. cmp a z = 0) xs = filter (\<lambda>a. cmp a z = 0) ys"
  shows "js_sort cmp xs = js_sort cmp ys"
proof (rule sorted_unique [OF sorted_js_sort sorted_js_sort])
  fix z
  have t: "cmp a z = 0 \<Longrightarrow> cmp b z = 0 \<Longrightarrow> cmp a b = 0" for a b
    using cmp_trans [of a z b] cmp_trans [of b z a] cmp_0_sym [of b z] cmp_0_sym [of a z] cmp_sym [of b a]
    by linarith
  show "filter (\<lambda>a. cmp a z = 0) (js_sort cmp xs) = filter (\<lambda>a. cmp a z = 0) (js_sort cmp ys)"
    using stable_js_sort [of "\<lambda>a. cmp a z = 0"] t assms by simp
qed

end

section \<open>Plugin identifiers\<close>

text \<open>
  \<open>localeCompare\<close> on plugin identifiers (lower-case letters, digits, \<open>-\<close> and \<open>.\<close>): in that alphabet
  the root collation orders the characters as their codes do, so the comparison is by codes.
\<close>

fun localeCompare :: "string \<Rightarrow> string \<Rightarrow> int" where
  "localeCompare [] [] = 0"
| "localeCompare [] (_ # _) = -1"
| "localeCompare (_ # _) [] = 1"
| "localeCompare (a # as) (b # bs) =
     (if of_char a < (of_char b :: int) then -1 else if of_char b < (of_char a :: int) then 1
      else localeCompare as bs)"

lemma localeCompare_0 [simp]: "localeCompare a b = 0 \<longleftrightarrow> a = b"
proof (induction a b rule: localeCompare.induct)
  case (4 a as b bs)
  have "of_char a = (of_char b :: int) \<Longrightarrow> a = b" by simp
  then show ?case using 4 by (auto simp: not_less)
qed auto

lemma localeCompare_sym: "localeCompare a b = - localeCompare b a"
  by (induction a b rule: localeCompare.induct) auto

lemma localeCompare_range: "localeCompare a b \<in> {-1, 0, 1}"
  by (induction a b rule: localeCompare.induct) auto

lemma localeCompare_trans: "localeCompare a b \<le> 0 \<Longrightarrow> localeCompare b c \<le> 0 \<Longrightarrow> localeCompare a c \<le> 0"
proof (induction a b arbitrary: c rule: localeCompare.induct)
  case (4 a as b bs)
  show ?case
  proof (cases c)
    case (Cons d ds)
    define x y z where xyz: "x = (of_char a :: int)" "y = (of_char b :: int)" "z = (of_char d :: int)"
    have "x = y \<Longrightarrow> y = z \<Longrightarrow> localeCompare as bs \<le> 0 \<Longrightarrow> localeCompare bs ds \<le> 0 \<Longrightarrow> localeCompare as ds \<le> 0"
      using 4(1) [of ds] by (simp add: xyz)
    moreover have "x < y \<or> (x = y \<and> localeCompare as bs \<le> 0)" "y < z \<or> (y = z \<and> localeCompare bs ds \<le> 0)"
      using 4(2,3) Cons by (simp_all add: xyz [symmetric] split: if_splits)
    ultimately have "x < z \<or> (x = z \<and> localeCompare as ds \<le> 0)" by linarith
    then show ?thesis using Cons by (auto simp: xyz [symmetric])
  qed (use 4 in simp)
next
  case (2 b bs)
  then show ?case by (cases c) auto
qed (auto)

interpretation lc: comparator localeCompare
proof
  fix a b c
  show "localeCompare a b \<le> 0 \<longleftrightarrow> 0 \<le> localeCompare b a"
    using localeCompare_sym [of a b] by simp
qed (rule localeCompare_trans)

section \<open>Role bands\<close>

datatype role_band = PreResolve | Resolve | Enrich | PostProcess | Audit

datatype band_error = RequiresBuiltin | UnknownBand

definition ORDER :: "role_band list" where
  "ORDER = [PreResolve, Resolve, Enrich, PostProcess, Audit]"

fun position_of :: "'a list \<Rightarrow> 'a \<Rightarrow> nat option" where
  "position_of [] x = None"
| "position_of (y # ys) x = (if y = x then Some 0 else map_option Suc (position_of ys x))"

text \<open>\<open>bandIndex\<close>; the option is \<open>opts?.builtin\<close>.\<close>

definition bandIndex :: "role_band \<Rightarrow> bool option \<Rightarrow> (band_error, nat) result" where
  "bandIndex role builtin =
     (if role = PreResolve \<and> builtin = Some False then Inl RequiresBuiltin
      else case position_of ORDER role of None \<Rightarrow> Inl UnknownBand | Some i \<Rightarrow> Inr i)"

text \<open>The call without options, which no declared role makes throw.\<close>

definition band :: "role_band \<Rightarrow> int" where
  "band role = (case bandIndex role None of Inl _ \<Rightarrow> 0 | Inr i \<Rightarrow> int i)"

lemma band_simps [simp]:
  "band PreResolve = 0" "band Resolve = 1" "band Enrich = 2" "band PostProcess = 3" "band Audit = 4"
  by (simp_all add: band_def bandIndex_def ORDER_def)

lemma bandIndex_total: "bandIndex role None = Inr (nat (band role))"
  by (cases role) (simp_all add: bandIndex_def ORDER_def)

lemma band_eq [simp]: "band r = band r' \<longleftrightarrow> r = r'"
  by (cases r; cases r') simp_all

instantiation role_band :: linorder
begin

definition less_eq_role_band :: "role_band \<Rightarrow> role_band \<Rightarrow> bool" where
  "less_eq_role_band r r' \<longleftrightarrow> band r \<le> band r'"

definition less_role_band :: "role_band \<Rightarrow> role_band \<Rightarrow> bool" where
  "less_role_band r r' \<longleftrightarrow> band r < band r'"

instance
  by standard (auto simp: less_eq_role_band_def less_role_band_def)

end

definition isMostCritical :: "role_band \<Rightarrow> bool" where
  "isMostCritical role \<longleftrightarrow> role = PreResolve \<or> role = Resolve \<or> role = PostProcess"

text \<open>The comparator shared by \<open>sortByBand\<close> and \<open>mergeChain\<close>.\<close>

definition band_cmp :: "role_band \<times> string \<Rightarrow> role_band \<times> string \<Rightarrow> int" where
  "band_cmp a b =
     (let d = band (fst a) - band (fst b) in if d \<noteq> 0 then d else localeCompare (snd a) (snd b))"

definition sortByBand :: "(string \<times> role_band) list \<Rightarrow> (string \<times> role_band) list" where
  "sortByBand arr = js_sort (\<lambda>a b. band_cmp (snd a, fst a) (snd b, fst b)) arr"

lemma band_cmp_0 [simp]: "band_cmp a b = 0 \<longleftrightarrow> a = b"
  by (auto simp: band_cmp_def Let_def prod_eq_iff)

interpretation bc: comparator band_cmp
proof
  fix a b c :: "role_band \<times> string"
  show "band_cmp a b \<le> 0 \<longleftrightarrow> 0 \<le> band_cmp b a"
    using localeCompare_sym [of "snd a" "snd b"] by (auto simp: band_cmp_def Let_def)
  show "band_cmp a b \<le> 0 \<Longrightarrow> band_cmp b c \<le> 0 \<Longrightarrow> band_cmp a c \<le> 0"
    using localeCompare_trans [of "snd a" "snd b" "snd c"]
    by (auto simp: band_cmp_def Let_def split: if_splits)
qed

lemma band_cmp_role: "band_cmp (r, p) (r', q) \<le> 0 \<Longrightarrow> r \<le> r'"
  by (auto simp: band_cmp_def Let_def less_eq_role_band_def split: if_splits)

end
