(* ===== verification/Chain_Merge.thy ===== *)
theory Chain_Merge
  imports Role_Band
begin

text \<open>
  Merging what the plugins of one chain ask for into the request of the user,
  \<open>core/plugin/hooks/chain-merge.ts\<close>.
\<close>

section \<open>Data\<close>

record header =
  h_name :: string
  h_value :: string

record staged_http_patch =
  hp_uris :: "string list option"
  hp_filename :: "string option"
  hp_connections :: "int option"
  hp_headers :: "header list option"
  hp_proxy :: "string option"

record chain_entry =
  ce_pluginId :: string
  ce_role :: role_band
  ce_patch :: staged_http_patch

record http_input =
  ui_uris :: "string list"
  ui_filename :: "string option"
  ui_connections :: "int option"
  ui_headers :: "header list"
  ui_proxy :: "string option"

record merged_http =
  mh_uris :: "string list"
  mh_filename :: "string option"
  mh_connections :: "int option"
  mh_headers :: "header list"
  mh_proxy :: "string option"
  mh_headerContributors :: "string list"
  mh_proxyContributor :: "string option"
  mh_urisContributor :: "string option"

text \<open>Truthiness of an optional string or number.\<close>

definition truthy_str :: "string option \<Rightarrow> bool" where
  "truthy_str v \<longleftrightarrow> v \<noteq> None \<and> v \<noteq> Some ''''"

definition truthy_num :: "int option \<Rightarrow> bool" where
  "truthy_num v \<longleftrightarrow> v \<noteq> None \<and> v \<noteq> Some 0"

section \<open>The merge\<close>

fun findIndex :: "('a \<Rightarrow> bool) \<Rightarrow> 'a list \<Rightarrow> nat option" where
  "findIndex P [] = None"
| "findIndex P (x # xs) = (if P x then Some 0 else map_option Suc (findIndex P xs))"

text \<open>One header of a patch: user names win, a repeated name is replaced in place.\<close>

definition merge_header :: "string set \<Rightarrow> string \<Rightarrow> header \<Rightarrow> merged_http \<Rightarrow> merged_http" where
  "merge_header userNamesLC pluginId h m =
     (let lc = toLowerCase (h_name h)
      in if lc \<in> userNamesLC then m
         else let hs = (case findIndex (\<lambda>x. toLowerCase (h_name x) = lc) (mh_headers m) of
                          Some idx \<Rightarrow> (mh_headers m)[idx := h]
                        | None \<Rightarrow> mh_headers m @ [h])
              in m \<lparr> mh_headers := hs, mh_headerContributors := sadd (mh_headerContributors m) pluginId \<rparr>)"

fun merge_headers :: "string set \<Rightarrow> string \<Rightarrow> header list \<Rightarrow> merged_http \<Rightarrow> merged_http" where
  "merge_headers userNamesLC pluginId [] m = m"
| "merge_headers userNamesLC pluginId (h # hs) m =
     merge_headers userNamesLC pluginId hs (merge_header userNamesLC pluginId h m)"

definition merge_scalars :: "chain_entry \<Rightarrow> merged_http \<Rightarrow> merged_http" where
  "merge_scalars e m =
     (let p = ce_patch e;
          m1 = (case hp_uris p of None \<Rightarrow> m
                | Some us \<Rightarrow> m \<lparr> mh_uris := us, mh_urisContributor := Some (ce_pluginId e) \<rparr>);
          m2 = (if truthy_str (hp_filename p) then m1 \<lparr> mh_filename := hp_filename p \<rparr> else m1)
      in if truthy_num (hp_connections p) then m2 \<lparr> mh_connections := hp_connections p \<rparr> else m2)"

definition merge_proxy :: "http_input \<Rightarrow> chain_entry \<Rightarrow> merged_http \<Rightarrow> merged_http" where
  "merge_proxy u e m =
     (if truthy_str (hp_proxy (ce_patch e)) \<and> \<not> truthy_str (ui_proxy u)
      then m \<lparr> mh_proxy := hp_proxy (ce_patch e), mh_proxyContributor := Some (ce_pluginId e) \<rparr>
      else m)"

definition merge_entry :: "http_input \<Rightarrow> string set \<Rightarrow> chain_entry \<Rightarrow> merged_http \<Rightarrow> merged_http" where
  "merge_entry u userNamesLC e m =
     merge_proxy u e
       (case hp_headers (ce_patch e) of
          None \<Rightarrow> merge_scalars e m
        | Some hs \<Rightarrow> merge_headers userNamesLC (ce_pluginId e) hs (merge_scalars e m))"

fun merge_entries :: "http_input \<Rightarrow> string set \<Rightarrow> chain_entry list \<Rightarrow> merged_http \<Rightarrow> merged_http" where
  "merge_entries u userNamesLC [] m = m"
| "merge_entries u userNamesLC (e # es) m = merge_entries u userNamesLC es (merge_entry u userNamesLC e m)"

definition entry_key :: "chain_entry \<Rightarrow> role_band \<times> string" where
  "entry_key e = (ce_role e, ce_pluginId e)"

definition sort_entries :: "chain_entry list \<Rightarrow> chain_entry list" where
  "sort_entries es = js_sort (\<lambda>a b. band_cmp (entry_key a) (entry_key b)) es"

definition user_names :: "http_input \<Rightarrow> string set" where
  "user_names u = set (map (\<lambda>h. toLowerCase (h_name h)) (ui_headers u))"

definition merge_start :: "http_input \<Rightarrow> merged_http" where
  "merge_start u =
     \<lparr> mh_uris = ui_uris u, mh_filename = ui_filename u, mh_connections = ui_connections u,
       mh_headers = ui_headers u, mh_proxy = ui_proxy u, mh_headerContributors = [],
       mh_proxyContributor = None, mh_urisContributor = None \<rparr>"

definition mergeChain :: "http_input \<Rightarrow> chain_entry list \<Rightarrow> merged_http" where
  "mergeChain u plugins = merge_entries u (user_names u) (sort_entries plugins) (merge_start u)"

section \<open>Lemmas\<close>

interpretation ec: comparator "\<lambda>a b. band_cmp (entry_key a) (entry_key b)"
  by unfold_locales (rule bc.cmp_sym, rule bc.cmp_trans)

lemma set_sort_entries [simp]: "set (sort_entries es) = set es"
  by (simp add: sort_entries_def)

lemma mergeChain_Nil [simp]: "mergeChain u [] = merge_start u"
  by (simp add: mergeChain_def sort_entries_def)

lemma findIndex_Some: "findIndex P xs = Some i \<Longrightarrow> i < length xs \<and> P (xs ! i)"
  by (induction xs arbitrary: i) (auto split: if_splits)

lemma findIndex_None: "findIndex P xs = None \<longleftrightarrow> (\<forall>x\<in>set xs. \<not> P x)"
  by (induction xs) auto

lemma merge_scalars_frame [simp]:
  "mh_headers (merge_scalars e m) = mh_headers m" "mh_proxy (merge_scalars e m) = mh_proxy m"
  "mh_headerContributors (merge_scalars e m) = mh_headerContributors m"
  by (simp_all add: merge_scalars_def Let_def split: option.split)

lemma merge_proxy_frame [simp]:
  "mh_headers (merge_proxy u e m) = mh_headers m" "mh_uris (merge_proxy u e m) = mh_uris m"
  by (simp_all add: merge_proxy_def)

lemma merge_header_frame [simp]:
  "mh_proxy (merge_header ns p h m) = mh_proxy m" "mh_uris (merge_header ns p h m) = mh_uris m"
  by (simp_all add: merge_header_def Let_def)

lemma merge_headers_frame [simp]:
  "mh_proxy (merge_headers ns p hs m) = mh_proxy m" "mh_uris (merge_headers ns p hs m) = mh_uris m"
  by (induction hs arbitrary: m) simp_all

text \<open>The headers stay the user's, followed by plugin headers of other names, each name once.\<close>

definition headers_ok :: "http_input \<Rightarrow> header list \<Rightarrow> bool" where
  "headers_ok u hs \<longleftrightarrow> take (length (ui_headers u)) hs = ui_headers u \<and>
     (let own = map (\<lambda>h. toLowerCase (h_name h)) (drop (length (ui_headers u)) hs)
      in distinct own \<and> set own \<inter> user_names u = {})"

lemma headers_ok_start: "headers_ok u (ui_headers u)"
  by (simp add: headers_ok_def)

lemma merge_header_ok:
  assumes "headers_ok u (mh_headers m)"
  shows "headers_ok u (mh_headers (merge_header (user_names u) p h m))"
proof -
  let ?n = "length (ui_headers u)" and ?lc = "toLowerCase (h_name h)" and ?hs = "mh_headers m"
  let ?f = "\<lambda>h. toLowerCase (h_name h)"
  have tk: "take ?n ?hs = ui_headers u" and d: "distinct (map ?f (drop ?n ?hs))"
    and dj: "set (map ?f (drop ?n ?hs)) \<inter> user_names u = {}"
    using assms by (simp_all add: headers_ok_def Let_def)
  have n: "?n \<le> length ?hs" using tk by (metis length_take min.cobounded1 min_def nat_le_linear)
  have hs: "?hs = ui_headers u @ drop ?n ?hs" using tk by (metis append_take_drop_id)
  show ?thesis
  proof (cases "?lc \<in> user_names u")
    case False
    show ?thesis
    proof (cases "findIndex (\<lambda>x. ?f x = ?lc) ?hs")
      case None
      then have "?lc \<notin> ?f ` set (drop ?n ?hs)" by (auto simp: findIndex_None dest: in_set_dropD)
      then show ?thesis
        using False None tk d dj n by (simp add: merge_header_def headers_ok_def Let_def)
    next
      case (Some i)
      then have i: "i < length ?hs" "?f (?hs ! i) = ?lc" using findIndex_Some by fastforce+
      have "\<not> i < ?n"
      proof
        assume "i < ?n"
        then have "?hs ! i \<in> set (ui_headers u)" using tk by (metis nth_mem nth_take)
        then have "?f (?hs ! i) \<in> user_names u" by (simp add: user_names_def)
        then show False using i(2) False by simp
      qed
      then obtain j where j: "i = ?n + j" by (metis le_add_diff_inverse not_less)
      have upd: "map ?f (drop ?n (?hs[i := h])) = map ?f (drop ?n ?hs)"
      proof (rule nth_equalityI)
        fix k assume "k < length (map ?f (drop ?n (?hs[i := h])))"
        then show "map ?f (drop ?n (?hs[i := h])) ! k = map ?f (drop ?n ?hs) ! k"
          using i j by (auto simp: nth_list_update)
      qed simp
      have "take ?n (?hs[i := h]) = ui_headers u" using tk \<open>\<not> i < ?n\<close> by simp
      then show ?thesis
        using False Some d dj upd by (simp add: merge_header_def headers_ok_def Let_def)
    qed
  qed (use assms in \<open>simp add: merge_header_def Let_def\<close>)
qed

lemma merge_headers_ok: "headers_ok u (mh_headers m) \<Longrightarrow> headers_ok u (mh_headers (merge_headers (user_names u) p hs m))"
  by (induction hs arbitrary: m) (simp_all add: merge_header_ok)

lemma merge_entries_ok: "headers_ok u (mh_headers m) \<Longrightarrow> headers_ok u (mh_headers (merge_entries u (user_names u) es m))"
  by (induction es arbitrary: m) (auto simp: merge_entry_def merge_headers_ok split: option.split)

lemma merge_entries_proxy:
  "truthy_str (ui_proxy u) \<Longrightarrow> mh_proxy (merge_entries u ns es m) = mh_proxy m"
  by (induction es arbitrary: m) (auto simp: merge_entry_def merge_proxy_def split: option.split)

lemma merge_entries_uris:
  "mh_uris (merge_entries u ns es m) =
   last (mh_uris m # List.map_filter (\<lambda>e. hp_uris (ce_patch e)) es)"
  by (induction es arbitrary: m)
     (auto simp: merge_entry_def merge_scalars_def Let_def List.map_filter_def split: option.split)

text \<open>
  the user's choices win over every plugin. Whatever the plugins of a chain stage, the merged
  request starts with the user's headers unchanged; a plugin header never repeats a name of the
  user (in any case) nor another plugin's name; a proxy the user chose is kept; and the sources
  are those of the last plugin of the order that asked for sources, else the user's.
\<close>
theorem user_input_wins:
  "take (length (ui_headers u)) (mh_headers (mergeChain u es)) = ui_headers u \<and>
   distinct (map (\<lambda>h. toLowerCase (h_name h)) (drop (length (ui_headers u)) (mh_headers (mergeChain u es)))) \<and>
   (\<forall>h\<in>set (drop (length (ui_headers u)) (mh_headers (mergeChain u es))). toLowerCase (h_name h) \<notin> user_names u) \<and>
   (truthy_str (ui_proxy u) \<longrightarrow> mh_proxy (mergeChain u es) = ui_proxy u) \<and>
   mh_uris (mergeChain u es) =
     last (ui_uris u # List.map_filter (\<lambda>e. hp_uris (ce_patch e)) (sort_entries es))"
proof -
  have "headers_ok u (mh_headers (mergeChain u es))"
    using merge_entries_ok [of u "merge_start u"] headers_ok_start by (simp add: mergeChain_def merge_start_def)
  moreover have "truthy_str (ui_proxy u) \<longrightarrow> mh_proxy (mergeChain u es) = ui_proxy u"
    by (simp add: mergeChain_def merge_entries_proxy merge_start_def)
  moreover have "mh_uris (mergeChain u es) = last (ui_uris u # List.map_filter (\<lambda>e. hp_uris (ce_patch e)) (sort_entries es))"
    by (simp add: mergeChain_def merge_entries_uris merge_start_def)
  ultimately show ?thesis by (auto simp: headers_ok_def Let_def)
qed

text \<open>
  the merge does not depend on the order in which patches were staged. It is enough that
  each plugin's own patches are in the same order: two stores with the same patches per role and
  plugin merge to the same request, and bands are applied from pre-resolve to audit.
\<close>
theorem merge_order_irrelevant:
  assumes "\<And>r p. filter (\<lambda>e. ce_role e = r \<and> ce_pluginId e = p) es = filter (\<lambda>e. ce_role e = r \<and> ce_pluginId e = p) es'"
  shows "mergeChain u es = mergeChain u es' \<and> sorted_wrt (\<lambda>a b. ce_role a \<le> ce_role b) (sort_entries es)"
proof -
  have "filter (\<lambda>a. band_cmp (entry_key a) (entry_key z) = 0) es = filter (\<lambda>a. band_cmp (entry_key a) (entry_key z) = 0) es'" for z
    using assms [of "ce_role z" "ce_pluginId z"] by (simp add: entry_key_def)
  then have "sort_entries es = sort_entries es'" unfolding sort_entries_def by (rule ec.js_sort_cong)
  moreover have "sorted_wrt (\<lambda>a b. ce_role a \<le> ce_role b) (sort_entries es)"
    unfolding sort_entries_def
    by (rule sorted_wrt_mono_rel [OF _ ec.sorted_js_sort]) (auto simp: entry_key_def dest: band_cmp_role)
  ultimately show ?thesis by (simp add: mergeChain_def)
qed

section \<open>Witnesses\<close>

definition ex_patch :: staged_http_patch where
  "ex_patch = \<lparr> hp_uris = None, hp_filename = None, hp_connections = None, hp_headers = None, hp_proxy = None \<rparr>"

definition ex_input :: http_input where
  "ex_input = \<lparr> ui_uris = [''http://a/''], ui_filename = None, ui_connections = None,
     ui_headers = [\<lparr> h_name = ''Cookie'', h_value = ''u'' \<rparr>], ui_proxy = Some ''http://p/'' \<rparr>"

definition ex_entries :: "chain_entry list" where
  "ex_entries =
     [\<lparr> ce_pluginId = ''z.late'', ce_role = Enrich,
        ce_patch = ex_patch \<lparr> hp_headers := Some [\<lparr> h_name = ''COOKIE'', h_value = ''p'' \<rparr>], hp_proxy := Some ''http://q/'' \<rparr> \<rparr>,
      \<lparr> ce_pluginId = ''a.first'', ce_role = Resolve, ce_patch = ex_patch \<lparr> hp_uris := Some [''http://b/''] \<rparr> \<rparr>]"

theorem user_input_wins_witness:
  "mh_proxy (mergeChain ex_input ex_entries) = Some ''http://p/'' \<and>
   take 1 (mh_headers (mergeChain ex_input ex_entries)) = [\<lparr> h_name = ''Cookie'', h_value = ''u'' \<rparr>]"
  using user_input_wins [of ex_input ex_entries] by (simp add: ex_input_def truthy_str_def)

theorem merge_order_irrelevant_witness:
  "mergeChain ex_input ex_entries = mergeChain ex_input (rev ex_entries)"
  by (rule conjunct1 [OF merge_order_irrelevant]) (auto simp: ex_entries_def)

end
