(* ===== verification/Staged_Effects.thy ===== *)
theory Staged_Effects
  imports Chain_Merge
begin

text \<open>
  The effects that the plugins of one chain stage and that the host commits or drops,
  \<open>core/plugin/hooks/staged-effects.ts\<close>, with the policy check of
  \<open>PluginHost.capturePolicyCheck\<close>.

  A captured check is the generation it captured; the state of the host's policy at the moment a
  check runs is an argument. The metadata table is a map from (task, plugin, key) to the stored
  text, its size and its time. \<open>JSON.stringify\<close> is the parameter \<open>ser\<close> (\<open>None\<close> when it
  throws or yields no text), the caller's transaction body the parameter \<open>tx\<close>; texts are UTF-8
  bytes, so their byte length is their length.
\<close>

section \<open>Policy\<close>

record host_policy =
  pol_allowed :: "string \<Rightarrow> bool"
  pol_barriers :: "string set"
  pol_generation :: "string \<Rightarrow> nat"

datatype policy_error = SecurityDenied string | LaneAdmissionClosed string

definition policy_check :: "host_policy \<Rightarrow> string \<Rightarrow> nat \<Rightarrow> (policy_error, unit) result" where
  "policy_check pol pluginId generation =
     (if \<not> pol_allowed pol pluginId then Inl (SecurityDenied pluginId)
      else if pluginId \<in> pol_barriers pol \<or> pol_generation pol pluginId \<noteq> generation
      then Inl (LaneAdmissionClosed pluginId)
      else Inr ())"

definition capturePolicyCheck :: "host_policy \<Rightarrow> string \<Rightarrow> (policy_error, nat) result" where
  "capturePolicyCheck pol pluginId =
     (let generation = pol_generation pol pluginId
      in case policy_check pol pluginId generation of Inl e \<Rightarrow> Inl e | Inr _ \<Rightarrow> Inr generation)"

section \<open>The store\<close>

record 'v meta_op =
  mo_pluginId :: string
  mo_isSet :: bool
  mo_key :: string
  mo_value :: "'v option"

record ('v, 'g) staged_store =
  ss_httpPatches :: "chain_entry list"
  ss_metaOps :: "'v meta_op list"
  ss_finalizePath :: "string option"
  ss_stagings :: "(string, 'g) jmap"
  ss_policyChecks :: "(string, nat) jmap"

definition ss_new :: "('v, 'g) staged_store" where
  "ss_new = \<lparr> ss_httpPatches = [], ss_metaOps = [], ss_finalizePath = None, ss_stagings = [], ss_policyChecks = [] \<rparr>"

definition bindPolicyCheck :: "string \<Rightarrow> nat \<Rightarrow> ('v, 'g) staged_store \<Rightarrow> ('v, 'g) staged_store" where
  "bindPolicyCheck pluginId check s = s \<lparr> ss_policyChecks := jset (ss_policyChecks s) pluginId check \<rparr>"

definition hasPolicyChecks :: "('v, 'g) staged_store \<Rightarrow> bool" where
  "hasPolicyChecks s \<longleftrightarrow> length (ss_policyChecks s) > 0"

fun run_checks :: "host_policy \<Rightarrow> (string, nat) jmap \<Rightarrow> (policy_error, unit) result" where
  "run_checks pol [] = Inr ()"
| "run_checks pol ((p, g) # cs) = (case policy_check pol p g of Inl e \<Rightarrow> Inl e | Inr _ \<Rightarrow> run_checks pol cs)"

definition assertPolicyCurrent :: "host_policy \<Rightarrow> ('v, 'g) staged_store \<Rightarrow> (policy_error, unit) result" where
  "assertPolicyCurrent pol s = run_checks pol (ss_policyChecks s)"

definition appendHttp :: "string \<Rightarrow> role_band \<Rightarrow> staged_http_patch \<Rightarrow> ('v, 'g) staged_store \<Rightarrow> ('v, 'g) staged_store" where
  "appendHttp pluginId role patch s =
     s \<lparr> ss_httpPatches := ss_httpPatches s @ [\<lparr> ce_pluginId = pluginId, ce_role = role, ce_patch = patch \<rparr>] \<rparr>"

definition appendMeta :: "'v meta_op \<Rightarrow> ('v, 'g) staged_store \<Rightarrow> ('v, 'g) staged_store" where
  "appendMeta op s = s \<lparr> ss_metaOps := ss_metaOps s @ [op] \<rparr>"

definition appendStaging :: "string \<Rightarrow> 'g \<Rightarrow> ('v, 'g) staged_store \<Rightarrow> ('v, 'g) staged_store" where
  "appendStaging pluginId g s = s \<lparr> ss_stagings := jset (ss_stagings s) pluginId g \<rparr>"

definition takeAllStagings :: "('v, 'g) staged_store \<Rightarrow> (string, 'g) jmap \<times> ('v, 'g) staged_store" where
  "takeAllStagings s = (ss_stagings s, s \<lparr> ss_stagings := [] \<rparr>)"

definition setFinalizePath :: "string \<Rightarrow> ('v, 'g) staged_store \<Rightarrow> ('v, 'g) staged_store" where
  "setFinalizePath p s = s \<lparr> ss_finalizePath := Some p \<rparr>"

definition restoreFinalizePath :: "string option \<Rightarrow> ('v, 'g) staged_store \<Rightarrow> ('v, 'g) staged_store" where
  "restoreFinalizePath p s = s \<lparr> ss_finalizePath := p \<rparr>"

text \<open>\<open>latestStagedFields\<close>: unlike the merge, every field that is not undefined counts.\<close>

fun latest_fields :: "chain_entry list \<Rightarrow> staged_http_patch \<Rightarrow> staged_http_patch" where
  "latest_fields [] out = out"
| "latest_fields (e # es) out =
     (let p = ce_patch e;
          o1 = (if hp_uris p \<noteq> None then out \<lparr> hp_uris := hp_uris p \<rparr> else out);
          o2 = (if hp_filename p \<noteq> None then o1 \<lparr> hp_filename := hp_filename p \<rparr> else o1);
          o3 = (if hp_connections p \<noteq> None then o2 \<lparr> hp_connections := hp_connections p \<rparr> else o2)
      in latest_fields es o3)"

definition latestStagedFields :: "('v, 'g) staged_store \<Rightarrow> staged_http_patch" where
  "latestStagedFields s =
     latest_fields (ss_httpPatches s)
       \<lparr> hp_uris = None, hp_filename = None, hp_connections = None, hp_headers = None, hp_proxy = None \<rparr>"

definition discard :: "('v, 'g) staged_store \<Rightarrow> ('v, 'g) staged_store" where
  "discard s = ss_new"

definition removeFromPlugin :: "string \<Rightarrow> ('v, 'g) staged_store \<Rightarrow> ('v, 'g) staged_store" where
  "removeFromPlugin pluginId s =
     s \<lparr> ss_httpPatches := filter (\<lambda>e. ce_pluginId e \<noteq> pluginId) (ss_httpPatches s),
         ss_metaOps := filter (\<lambda>m. mo_pluginId m \<noteq> pluginId) (ss_metaOps s),
         ss_stagings := jdel (ss_stagings s) pluginId,
         ss_policyChecks := jdel (ss_policyChecks s) pluginId \<rparr>"

section \<open>Committing metadata\<close>

definition DEFAULT_METADATA_QUOTA_BYTES :: int where
  "DEFAULT_METADATA_QUOTA_BYTES = 65536"

type_synonym meta_db = "(string \<times> string \<times> string, string \<times> int \<times> int) jmap"

datatype 'e commit_error =
    PolicyStale policy_error
  | TxFailed 'e
  | QuotaExceeded int
  | ValueNotSerializable

record usage =
  us_total :: int
  us_keys :: "(string, int) jmap"

text \<open>The rows of one plugin in one task, as the query returns them.\<close>

definition usage_rows :: "meta_db \<Rightarrow> string \<Rightarrow> string \<Rightarrow> (string, int) jmap" where
  "usage_rows db task plugin =
     map (\<lambda>((t, p, k), (v, sz, at)). (k, sz)) (filter (\<lambda>((t, p, k), r). t = task \<and> p = plugin) db)"

definition usage_of :: "meta_db \<Rightarrow> string \<Rightarrow> string \<Rightarrow> usage" where
  "usage_of db task plugin =
     \<lparr> us_total = sum_list (map snd (usage_rows db task plugin)), us_keys = usage_rows db task plugin \<rparr>"

definition usageFor :: "meta_db \<Rightarrow> string \<Rightarrow> (string, usage) jmap \<Rightarrow> string \<Rightarrow> usage" where
  "usageFor db task usages plugin =
     (case map_of usages plugin of Some u \<Rightarrow> u | None \<Rightarrow> usage_of db task plugin)"

text \<open>\<open>validateStagedMetadataQuota\<close>: the loop over the staged operations.\<close>

fun quota_loop ::
  "('v \<Rightarrow> string option) \<Rightarrow> meta_db \<Rightarrow> string \<Rightarrow> nat \<Rightarrow> 'v meta_op list \<Rightarrow> (string, usage) jmap \<Rightarrow>
   (nat, string \<times> int) jmap \<Rightarrow> ('e commit_error, (nat, string \<times> int) jmap) result"
where
  "quota_loop ser db task index [] usages serialized = Inr serialized"
| "quota_loop ser db task index (op # ops) usages serialized =
     (let u = usageFor db task usages (mo_pluginId op);
          currentSize = jget_or 0 (us_keys u) (mo_key op)
      in if \<not> mo_isSet op then
           quota_loop ser db task (index + 1) ops
             (jset usages (mo_pluginId op)
                \<lparr> us_total = us_total u - currentSize, us_keys = jdel (us_keys u) (mo_key op) \<rparr>)
             serialized
         else case Option.bind (mo_value op) ser of
                None \<Rightarrow> Inl ValueNotSerializable
              | Some json \<Rightarrow>
                  (let sz = int (length json);
                       projected = us_total u - currentSize + sz
                   in if projected > DEFAULT_METADATA_QUOTA_BYTES then Inl (QuotaExceeded projected)
                      else quota_loop ser db task (index + 1) ops
                             (jset usages (mo_pluginId op)
                                \<lparr> us_total = projected, us_keys = jset (us_keys u) (mo_key op) sz \<rparr>)
                             (jset serialized index (json, sz))))"

definition validateStagedMetadataQuota ::
  "('v \<Rightarrow> string option) \<Rightarrow> meta_db \<Rightarrow> string \<Rightarrow> 'v meta_op list \<Rightarrow> ('e commit_error, (nat, string \<times> int) jmap) result"
where
  "validateStagedMetadataQuota ser db task ops = quota_loop ser db task 0 ops [] []"

fun write_ops ::
  "int \<Rightarrow> string \<Rightarrow> (nat, string \<times> int) jmap \<Rightarrow> nat \<Rightarrow> 'v meta_op list \<Rightarrow> meta_db \<Rightarrow> ('e commit_error, meta_db) result"
where
  "write_ops now task serialized index [] db = Inr db"
| "write_ops now task serialized index (op # ops) db =
     (if mo_isSet op then
        (case map_of serialized index of
           None \<Rightarrow> Inl ValueNotSerializable
         | Some (json, sz) \<Rightarrow>
             write_ops now task serialized (index + 1) ops
               (jset db (task, mo_pluginId op, mo_key op) (json, sz, now)))
      else write_ops now task serialized (index + 1) ops (jdel db (task, mo_pluginId op, mo_key op)))"

text \<open>The transaction: an error of any part leaves the table as it was.\<close>

definition commitMetadata ::
  "('v \<Rightarrow> string option) \<Rightarrow> host_policy \<Rightarrow> int \<Rightarrow> (meta_db \<Rightarrow> ('e, meta_db) result) \<Rightarrow> string \<Rightarrow>
   ('v, 'g) staged_store \<Rightarrow> meta_db \<Rightarrow> ('e commit_error, meta_db) result"
where
  "commitMetadata ser pol now tx task s db =
     (case assertPolicyCurrent pol s of
        Inl e \<Rightarrow> Inl (PolicyStale e)
      | Inr _ \<Rightarrow>
        (case tx db of
           Inl e \<Rightarrow> Inl (TxFailed e)
         | Inr db1 \<Rightarrow>
           (case validateStagedMetadataQuota ser db1 task (ss_metaOps s) of
              Inl e \<Rightarrow> Inl e
            | Inr serialized \<Rightarrow> write_ops now task serialized 0 (ss_metaOps s) db1)))"

section \<open>The projection follows the table\<close>

lemma usage_rows_simps [simp]:
  "usage_rows [] task plugin = []"
  "usage_rows (((t, p, k), (v, sz, at)) # db) task plugin =
     (if t = task \<and> p = plugin then (k, sz) # usage_rows db task plugin else usage_rows db task plugin)"
  by (simp_all add: usage_rows_def)

lemma usage_rows_map_of: "map_of (usage_rows db task plugin) k = map_option (fst \<circ> snd) (map_of db (task, plugin, k))"
  by (induction db) auto

lemma usage_rows_keys: "k \<in> fst ` set (usage_rows db task plugin) \<longleftrightarrow> (task, plugin, k) \<in> fst ` set db"
  by (metis map_of_eq_None_iff option.map_disc_iff usage_rows_map_of)

lemma usage_rows_jset:
  "usage_rows (jset db (task, plugin, k) (v, sz, at)) task' plugin' =
   (if task = task' \<and> plugin = plugin' then jset (usage_rows db task plugin) k sz else usage_rows db task' plugin')"
  by (induction db) auto

lemma usage_rows_jdel:
  "usage_rows (jdel db (task, plugin, k)) task' plugin' =
   (if task = task' \<and> plugin = plugin' then jdel (usage_rows db task plugin) k else usage_rows db task' plugin')"
  by (induction db) (auto simp: jdel_def)

lemma usage_rows_wf: "jwf db \<Longrightarrow> jwf (usage_rows db task plugin)"
proof (induction db)
  case (Cons e db)
  obtain t p k v sz at where e: "e = ((t, p, k), (v, sz, at))" by (metis surj_pair)
  have "(t, p, k) \<notin> fst ` set db" using Cons.prems e by (simp add: jwf_def)
  then have "t = task \<Longrightarrow> p = plugin \<Longrightarrow> k \<notin> fst ` set (usage_rows db task plugin)"
    by (simp add: usage_rows_keys)
  then show ?case using Cons e by (auto simp: jwf_def)
qed simp

lemma sum_jset: "jwf m \<Longrightarrow> sum_list (map snd (jset m k v)) = sum_list (map snd m) - jget_or 0 m k + (v :: int)"
proof (induction m)
  case (Cons e m)
  then show ?case by (cases e) (auto simp: jwf_def jget_or_def)
qed (simp add: jget_or_def)

lemma sum_jdel: "jwf m \<Longrightarrow> sum_list (map snd (jdel m k)) = sum_list (map snd m) - jget_or (0 :: int) m k"
proof (induction m)
  case (Cons e m)
  have "fst e = k \<Longrightarrow> map_of m k = None"
    using Cons.prems by (auto simp: jwf_def map_of_eq_None_iff)
  then have "fst e = k \<Longrightarrow> jdel m k = m" by (rule jdel_absent)
  then show ?case using Cons by (cases e) (auto simp: jwf_def jget_or_def jdel_def)
qed (simp add: jget_or_def jdel_def)

text \<open>\<open>db'\<close> is the table the operations seen so far would leave.\<close>

definition tracks :: "meta_db \<Rightarrow> meta_db \<Rightarrow> string \<Rightarrow> (string, usage) jmap \<Rightarrow> bool" where
  "tracks db db' task usages \<longleftrightarrow> (\<forall>p. usageFor db task usages p = usage_of db' task p)"

lemma tracks_start: "tracks db db task []"
  by (simp add: tracks_def usageFor_def)

lemma tracks_set:
  assumes "tracks db db' task usages" and "jwf db'"
  shows "tracks db (jset db' (task, p, k) (json, sz, now)) task
    (jset usages p \<lparr> us_total = us_total (usage_of db' task p) - jget_or 0 (us_keys (usage_of db' task p)) k + sz,
                     us_keys = jset (us_keys (usage_of db' task p)) k sz \<rparr>)"
  unfolding tracks_def
proof
  fix q
  have "usageFor db task usages q = usage_of db' task q" using assms(1) by (simp add: tracks_def)
  then show "usageFor db task (jset usages p \<lparr> us_total = us_total (usage_of db' task p) - jget_or 0 (us_keys (usage_of db' task p)) k + sz,
      us_keys = jset (us_keys (usage_of db' task p)) k sz \<rparr>) q = usage_of (jset db' (task, p, k) (json, sz, now)) task q"
    using sum_jset [OF usage_rows_wf [OF assms(2)], of task p k sz]
    by (auto simp: usageFor_def usage_of_def usage_rows_jset)
qed

lemma tracks_delete:
  assumes "tracks db db' task usages" and "jwf db'"
  shows "tracks db (jdel db' (task, p, k)) task
    (jset usages p \<lparr> us_total = us_total (usage_of db' task p) - jget_or 0 (us_keys (usage_of db' task p)) k,
                     us_keys = jdel (us_keys (usage_of db' task p)) k \<rparr>)"
  unfolding tracks_def
proof
  fix q
  have "usageFor db task usages q = usage_of db' task q" using assms(1) by (simp add: tracks_def)
  then show "usageFor db task (jset usages p \<lparr> us_total = us_total (usage_of db' task p) - jget_or 0 (us_keys (usage_of db' task p)) k,
      us_keys = jdel (us_keys (usage_of db' task p)) k \<rparr>) q = usage_of (jdel db' (task, p, k)) task q"
    using sum_jdel [OF usage_rows_wf [OF assms(2)], of task p k]
    by (auto simp: usageFor_def usage_of_def usage_rows_jdel)
qed

definition plugin_total :: "meta_db \<Rightarrow> string \<Rightarrow> string \<Rightarrow> int" where
  "plugin_total db task p = us_total (usage_of db task p)"

definition sizes_ok :: "meta_db \<Rightarrow> bool" where
  "sizes_ok db \<longleftrightarrow> (\<forall>k v sz at. map_of db k = Some (v, sz, at) \<longrightarrow> 0 \<le> sz)"

lemma sizes_key: "sizes_ok db \<Longrightarrow> 0 \<le> jget_or 0 (us_keys (usage_of db task p)) k"
  by (auto simp: sizes_ok_def usage_of_def jget_or_def usage_rows_map_of split: option.split)

lemma plugin_total_delete:
  "jwf db \<Longrightarrow> sizes_ok db \<Longrightarrow> plugin_total (jdel db (task, p, k)) task q \<le> plugin_total db task q"
  using sum_jdel [OF usage_rows_wf, of db task p k] sizes_key [of db task p k]
  by (auto simp: plugin_total_def usage_of_def usage_rows_jdel)

lemma quota_loop_prefix:
  "quota_loop ser db task i ops usages acc = Inr serialized \<Longrightarrow> j < i \<Longrightarrow> map_of serialized j = map_of acc j"
proof (induction ser db task i ops usages acc rule: quota_loop.induct)
  case (2 ser db task index op ops usages serialized')
  then show ?case
    by (auto simp: Let_def split: if_splits option.splits)
qed simp

text \<open>What an operation writes for its key: the text with its length, or nothing.\<close>

definition written :: "('v \<Rightarrow> string option) \<Rightarrow> int \<Rightarrow> 'v meta_op \<Rightarrow> (string \<times> int \<times> int) option" where
  "written ser now op =
     (if mo_isSet op then map_option (\<lambda>json. (json, int (length json), now)) (Option.bind (mo_value op) ser) else None)"

definition op_key :: "'v meta_op \<Rightarrow> string \<times> string" where
  "op_key op = (mo_pluginId op, mo_key op)"

text \<open>The last operation on a key decides; a key without an operation keeps its row.\<close>

fun row_after ::
  "('v \<Rightarrow> string option) \<Rightarrow> int \<Rightarrow> string \<times> string \<Rightarrow> 'v meta_op list \<Rightarrow> (string \<times> int \<times> int) option \<Rightarrow> (string \<times> int \<times> int) option"
where
  "row_after ser now pk [] r = r"
| "row_after ser now pk (op # ops) r = row_after ser now pk ops (if op_key op = pk then written ser now op else r)"

lemma write_follows_quota:
  assumes "quota_loop ser db task i ops usages acc = (Inr serialized :: ('e commit_error, (nat, string \<times> int) jmap) result)"
    and "tracks db db' task usages" and "jwf db'" and "sizes_ok db'"
  shows "\<exists>db''. write_ops now task serialized i ops db' = (Inr db'' :: ('e commit_error, meta_db) result) \<and> jwf db'' \<and>
    (\<forall>p. (\<exists>op\<in>set ops. mo_isSet op \<and> mo_pluginId op = p) \<or> plugin_total db' task p \<le> DEFAULT_METADATA_QUOTA_BYTES \<longrightarrow>
       plugin_total db'' task p \<le> DEFAULT_METADATA_QUOTA_BYTES) \<and>
    (\<forall>t p k. map_of db'' (t, p, k) = (if t = task then row_after ser now (p, k) ops (map_of db' (t, p, k)) else map_of db' (t, p, k)))"
  using assms
proof (induction ops arbitrary: i usages acc db')
  case (Cons op ops)
  let ?p = "mo_pluginId op" and ?k = "mo_key op"
  let ?u = "usage_of db' task ?p"
  have u: "usageFor db task usages ?p = ?u" using Cons.prems(2) by (simp add: tracks_def)
  show ?case
  proof (cases "mo_isSet op")
    case False
    let ?db = "jdel db' (task, ?p, ?k)"
    have q: "quota_loop ser db task (i + 1) ops
        (jset usages ?p \<lparr> us_total = us_total ?u - jget_or 0 (us_keys ?u) ?k, us_keys = jdel (us_keys ?u) ?k \<rparr>) acc = (Inr serialized :: ('e commit_error, (nat, string \<times> int) jmap) result)"
      using Cons.prems(1) False u by (simp add: Let_def)
    have "sizes_ok ?db" using Cons.prems(4) by (auto simp: sizes_ok_def split: if_splits)
    from Cons.IH [OF q tracks_delete [OF Cons.prems(2,3)] _ this] obtain db'' where w:
      "write_ops now task serialized (i + 1) ops ?db = (Inr db'' :: ('e commit_error, meta_db) result)" "jwf db''"
      "\<forall>p. (\<exists>op\<in>set ops. mo_isSet op \<and> mo_pluginId op = p) \<or> plugin_total ?db task p \<le> DEFAULT_METADATA_QUOTA_BYTES \<longrightarrow>
         plugin_total db'' task p \<le> DEFAULT_METADATA_QUOTA_BYTES"
      "\<forall>t p k. map_of db'' (t, p, k) = (if t = task then row_after ser now (p, k) ops (map_of ?db (t, p, k)) else map_of ?db (t, p, k))"
      using Cons.prems(3) by auto
    have t: "plugin_total db' task p \<le> DEFAULT_METADATA_QUOTA_BYTES \<Longrightarrow> plugin_total ?db task p \<le> DEFAULT_METADATA_QUOTA_BYTES" for p
      using plugin_total_delete [OF Cons.prems(3,4), of task ?p ?k p] by simp
    have m: "map_of db'' (t, p, k) = (if t = task then row_after ser now (p, k) (op # ops) (map_of db' (t, p, k)) else map_of db' (t, p, k))" for t p k
      using w(4) False by (auto simp: written_def op_key_def)
    show ?thesis using w(1-3) t m False by auto
  next
    case True
    then obtain json where j: "Option.bind (mo_value op) ser = Some json"
      using Cons.prems(1) by (cases "Option.bind (mo_value op) ser") (auto simp: Let_def)
    let ?sz = "int (length json)"
    let ?db = "jset db' (task, ?p, ?k) (json, ?sz, now)"
    have pr: "us_total ?u - jget_or 0 (us_keys ?u) ?k + ?sz \<le> DEFAULT_METADATA_QUOTA_BYTES"
      using Cons.prems(1) True j u by (auto simp: Let_def split: if_splits)
    have q: "quota_loop ser db task (i + 1) ops
        (jset usages ?p \<lparr> us_total = us_total ?u - jget_or 0 (us_keys ?u) ?k + ?sz, us_keys = jset (us_keys ?u) ?k ?sz \<rparr>)
        (jset acc i (json, ?sz)) = (Inr serialized :: ('e commit_error, (nat, string \<times> int) jmap) result)"
      using Cons.prems(1) True u j pr by (simp add: Let_def)
    have s: "map_of serialized i = Some (json, ?sz)" using quota_loop_prefix [OF q, of i] by simp
    have "sizes_ok ?db" using Cons.prems(4) by (auto simp: sizes_ok_def split: if_splits)
    from Cons.IH [OF q tracks_set [OF Cons.prems(2,3)] _ this] obtain db'' where w:
      "write_ops now task serialized (i + 1) ops ?db = (Inr db'' :: ('e commit_error, meta_db) result)" "jwf db''"
      "\<forall>p. (\<exists>op\<in>set ops. mo_isSet op \<and> mo_pluginId op = p) \<or> plugin_total ?db task p \<le> DEFAULT_METADATA_QUOTA_BYTES \<longrightarrow>
         plugin_total db'' task p \<le> DEFAULT_METADATA_QUOTA_BYTES"
      "\<forall>t p k. map_of db'' (t, p, k) = (if t = task then row_after ser now (p, k) ops (map_of ?db (t, p, k)) else map_of ?db (t, p, k))"
      using Cons.prems(3) by auto
    have tp: "plugin_total ?db task ?p \<le> DEFAULT_METADATA_QUOTA_BYTES"
      using pr sum_jset [OF usage_rows_wf [OF Cons.prems(3)], of task ?p ?k ?sz]
      by (simp add: plugin_total_def usage_of_def usage_rows_jset)
    have to: "p \<noteq> ?p \<Longrightarrow> plugin_total ?db task p = plugin_total db' task p" for p
      by (simp add: plugin_total_def usage_of_def usage_rows_jset)
    have m: "map_of db'' (t, p, k) = (if t = task then row_after ser now (p, k) (op # ops) (map_of db' (t, p, k)) else map_of db' (t, p, k))" for t p k
      using w(4) True j by (auto simp: written_def op_key_def)
    have c: "plugin_total db'' task p \<le> DEFAULT_METADATA_QUOTA_BYTES"
      if "(\<exists>op'\<in>set (op # ops). mo_isSet op' \<and> mo_pluginId op' = p) \<or> plugin_total db' task p \<le> DEFAULT_METADATA_QUOTA_BYTES" for p
      using that w(3) tp to [of p] by (cases "p = ?p") auto
    have "write_ops now task serialized i (op # ops) db' = (Inr db'' :: ('e commit_error, meta_db) result)" using w(1) True s by simp
    then show ?thesis using w(2) c m by blast
  qed
qed auto

text \<open>
  metadata is committed all at once, within the quota. Once the policy of every participant
  still holds, the caller's transaction has run and the staged operations fit, every write
  succeeds: each row holds what the last operation on its key asked for, rows no operation names
  and rows of other tasks stay, and no plugin that wrote stores more than 64 KiB for the task.
\<close>
theorem commit_within_quota:
  assumes "assertPolicyCurrent pol s = Inr ()" and "tx db = Inr db1"
    and "validateStagedMetadataQuota ser db1 task (ss_metaOps s) = (Inr serialized :: ('e commit_error, _) result)"
    and "jwf db1" and "sizes_ok db1"
  shows "\<exists>db'. commitMetadata ser pol now tx task s db = (Inr db' :: ('e commit_error, _) result) \<and>
    (\<forall>p. (\<exists>op\<in>set (ss_metaOps s). mo_isSet op \<and> mo_pluginId op = p) \<longrightarrow>
       plugin_total db' task p \<le> DEFAULT_METADATA_QUOTA_BYTES) \<and>
    (\<forall>t p k. map_of db' (t, p, k) =
       (if t = task then row_after ser now (p, k) (ss_metaOps s) (map_of db1 (t, p, k)) else map_of db1 (t, p, k)))"
  using write_follows_quota [OF assms(3) [unfolded validateStagedMetadataQuota_def] tracks_start assms(4,5), of now] assms(1-3)
  by (auto simp: commitMetadata_def)

text \<open>
  dropping a plugin leaves no trace of it and nothing else changes. After
  \<open>removeFromPlugin\<close> no patch, metadata operation, staging or policy check of the plugin is in the
  store, and those of the others are there in the same order.
\<close>
theorem removal_is_exact:
  "(\<forall>e\<in>set (ss_httpPatches (removeFromPlugin p s)). ce_pluginId e \<noteq> p) \<and>
   (\<forall>m\<in>set (ss_metaOps (removeFromPlugin p s)). mo_pluginId m \<noteq> p) \<and>
   map_of (ss_stagings (removeFromPlugin p s)) p = None \<and>
   (q \<noteq> p \<longrightarrow>
      filter (\<lambda>e. ce_pluginId e = q) (ss_httpPatches (removeFromPlugin p s)) = filter (\<lambda>e. ce_pluginId e = q) (ss_httpPatches s) \<and>
      filter (\<lambda>m. mo_pluginId m = q) (ss_metaOps (removeFromPlugin p s)) = filter (\<lambda>m. mo_pluginId m = q) (ss_metaOps s) \<and>
      map_of (ss_policyChecks (removeFromPlugin p s)) q = map_of (ss_policyChecks s) q)"
  by (auto simp: removeFromPlugin_def intro: filter_cong)


section \<open>Witnesses\<close>

definition ex_store :: "(string, unit) staged_store" where
  "ex_store = appendMeta \<lparr> mo_pluginId = ''c.d'', mo_isSet = True, mo_key = ''k'', mo_value = Some ''w'' \<rparr>
     (appendMeta \<lparr> mo_pluginId = ''a.b'', mo_isSet = True, mo_key = ''k'', mo_value = Some ''v'' \<rparr>
       (appendHttp ''a.b'' Resolve ex_patch (bindPolicyCheck ''a.b'' 3 ss_new)))"

definition ex_policy :: host_policy where
  "ex_policy = \<lparr> pol_allowed = (\<lambda>p. True), pol_barriers = {}, pol_generation = (\<lambda>p. 3) \<rparr>"

theorem commit_within_quota_witness:
  "\<exists>db'. commitMetadata Some ex_policy 5 Inr ''t'' ex_store [] = (Inr db' :: (unit commit_error, _) result) \<and>
     plugin_total db' ''t'' ''a.b'' \<le> DEFAULT_METADATA_QUOTA_BYTES \<and>
     map_of db' (''t'', ''a.b'', ''k'') = Some (''v'', 1, 5)"
proof -
  have 1: "assertPolicyCurrent ex_policy ex_store = Inr ()"
    by (simp add: assertPolicyCurrent_def ex_store_def ex_policy_def bindPolicyCheck_def appendMeta_def appendHttp_def
        ss_new_def policy_check_def)
  have ops: "ss_metaOps ex_store =
    [\<lparr> mo_pluginId = ''a.b'', mo_isSet = True, mo_key = ''k'', mo_value = Some ''v'' \<rparr>,
     \<lparr> mo_pluginId = ''c.d'', mo_isSet = True, mo_key = ''k'', mo_value = Some ''w'' \<rparr>]"
    by (simp add: ex_store_def bindPolicyCheck_def appendMeta_def appendHttp_def ss_new_def)
  have 2: "validateStagedMetadataQuota Some [] ''t'' (ss_metaOps ex_store) =
      (Inr [(0, (''v'', 1)), (1, (''w'', 1))] :: (unit commit_error, _) result)"
    by (simp add: ops validateStagedMetadataQuota_def usageFor_def usage_of_def jget_or_def Let_def DEFAULT_METADATA_QUOTA_BYTES_def)
  obtain db' where "commitMetadata Some ex_policy 5 Inr ''t'' ex_store [] = (Inr db' :: (unit commit_error, _) result)"
    "\<forall>p. (\<exists>op\<in>set (ss_metaOps ex_store). mo_isSet op \<and> mo_pluginId op = p) \<longrightarrow>
       plugin_total db' ''t'' p \<le> DEFAULT_METADATA_QUOTA_BYTES"
    "\<forall>t p k. map_of db' (t, p, k) =
       (if t = ''t'' then row_after Some 5 (p, k) (ss_metaOps ex_store) (map_of [] (t, p, k)) else map_of [] (t, p, k))"
    using commit_within_quota [of ex_policy ex_store Inr "[]" "[]", OF 1 refl 2, of 5] by (auto simp: sizes_ok_def)
  then show ?thesis by (intro exI [of _ db']) (simp add: ops op_key_def written_def)
qed

theorem removal_is_exact_witness:
  "map_of (ss_policyChecks (removeFromPlugin ''c.d'' ex_store)) ''a.b'' = Some 3"
proof -
  have "map_of (ss_policyChecks (removeFromPlugin ''c.d'' ex_store)) ''a.b'' = map_of (ss_policyChecks ex_store) ''a.b''"
    using removal_is_exact [of "''c.d''" ex_store "''a.b''"] by simp
  then show ?thesis by (simp add: ex_store_def bindPolicyCheck_def appendMeta_def appendHttp_def ss_new_def)
qed

end
