(* ===== verification/Finalize_Path.thy ===== *)
theory Finalize_Path
  imports Node_Path Prelude
begin

text \<open>
  The boundary of a finalize target, \<open>resolveFinalizeTarget\<close> of \<open>core/fs/finalize-path.ts\<close>, on
  POSIX paths: \<open>path.resolve\<close> and \<open>path.relative\<close> of the standard library, and the check that
  the target is a descendant of the save directory.
\<close>

section \<open>Absolute paths\<close>

text \<open>
  \<open>path.resolve(dir, target)\<close> for an absolute \<open>dir\<close>: the segments of the target alone when it is
  absolute, else those of the directory followed by the target's, with \<open>.\<close> and \<open>..\<close> resolved.
\<close>

definition abs_segments :: "string \<Rightarrow> string list" where
  "abs_segments p = foldl (norm_step False) [] (split_on (CHR ''/'') p)"

definition path_resolve :: "string \<Rightarrow> string \<Rightarrow> string" where
  "path_resolve dir target =
     CHR ''/'' # intersperse_c (CHR ''/'') (abs_segments (if isAbsolute target then target else dir @ CHR ''/'' # target))"

fun strip_common :: "string list \<Rightarrow> string list \<Rightarrow> string list \<times> string list" where
  "strip_common (x # xs) (y # ys) = (if x = y then strip_common xs ys else (x # xs, y # ys))"
| "strip_common xs ys = (xs, ys)"

text \<open>\<open>path.relative(from, to)\<close> of two absolute paths.\<close>

definition path_relative :: "string \<Rightarrow> string \<Rightarrow> string" where
  "path_relative f t =
     (let (a, b) = strip_common (abs_segments f) (abs_segments t)
      in intersperse_c (CHR ''/'') (replicate (length a) ''..'' @ b))"

datatype finalize_path_error = NotAbsolute | NotDescendant

definition resolveFinalizeTarget :: "string \<Rightarrow> string \<Rightarrow> (finalize_path_error, string) result" where
  "resolveFinalizeTarget saveDir targetPath =
     (if \<not> isAbsolute saveDir \<or> char_of (0 :: nat) \<in> set saveDir \<or> char_of (0 :: nat) \<in> set targetPath
      then Inl NotAbsolute
      else let target = path_resolve saveDir targetPath;
               relative = path_relative saveDir target
           in if relative = '''' \<or> relative = ''..'' \<or> take 3 relative = ''../'' \<or> isAbsolute relative
              then Inl NotDescendant
              else Inr target)"

section \<open>Segments\<close>

definition seg_ok :: "string \<Rightarrow> bool" where
  "seg_ok s \<longleftrightarrow> s \<noteq> [] \<and> s \<noteq> ''.'' \<and> s \<noteq> ''..'' \<and> CHR ''/'' \<notin> set s"

lemma split_on_no_sep: "s \<in> set (split_on c p) \<Longrightarrow> c \<notin> set s"
proof (induction p arbitrary: s)
  case (Cons x xs)
  then show ?case by (cases "split_on c xs") (auto split: if_splits)
qed simp

lemma norm_step_ok:
  assumes "\<forall>s\<in>set acc. seg_ok s" and "CHR ''/'' \<notin> set s"
  shows "\<forall>t\<in>set (norm_step False acc s). seg_ok t"
proof (cases "s = [] \<or> s = ''.'' \<or> s = ''..''")
  case True
  then show ?thesis using assms(1) in_set_butlastD [of _ acc] by (auto simp: norm_step_def)
next
  case False
  then have "norm_step False acc s = acc @ [s]" "seg_ok s" using assms(2) by (simp_all add: norm_step_def seg_ok_def)
  then show ?thesis using assms(1) by simp
qed

lemma abs_segments_ok: "\<forall>s\<in>set (abs_segments p). seg_ok s"
proof -
  have "\<forall>s\<in>set acc. seg_ok s \<Longrightarrow> \<forall>s\<in>set ss. CHR ''/'' \<notin> set s \<Longrightarrow>
      \<forall>t\<in>set (foldl (norm_step False) acc ss). seg_ok t" for acc ss
  proof (induction ss arbitrary: acc)
    case (Cons a ss)
    then show ?case using norm_step_ok [of acc a] by simp
  qed simp
  from this [of "[]"] show ?thesis unfolding abs_segments_def by (auto dest: split_on_no_sep)
qed

lemma split_on_nonempty [simp]: "split_on c p \<noteq> []"
  by (cases p) (auto split: list.split)

lemma split_on_append_sep: "split_on c (p @ c # q) = split_on c p @ split_on c q"
proof (induction p)
  case (Cons x xs)
  then show ?case
    by (cases "split_on c xs") (auto split: list.splits)
qed simp

lemma split_on_id: "c \<notin> set s \<Longrightarrow> split_on c s = [s]"
  by (induction s) auto

lemma split_intersperse: "\<forall>s\<in>set ss. c \<notin> set s \<Longrightarrow> ss \<noteq> [] \<Longrightarrow> split_on c (intersperse_c c ss) = ss"
  by (induction c ss rule: intersperse_c.induct) (auto simp: split_on_id split_on_append_sep)

lemma foldl_norm_ok: "\<forall>s\<in>set ss. seg_ok s \<Longrightarrow> foldl (norm_step False) acc ss = acc @ ss"
  by (induction ss arbitrary: acc) (auto simp: norm_step_def seg_ok_def)

text \<open>The segments of a rendered absolute path are the ones it was rendered from.\<close>

lemma abs_segments_render:
  assumes "\<forall>s\<in>set ss. seg_ok s"
  shows "abs_segments (CHR ''/'' # intersperse_c (CHR ''/'') ss) = ss"
proof (cases ss)
  case Nil
  then show ?thesis by (simp add: abs_segments_def norm_step_def)
next
  case (Cons x xs)
  have "split_on (CHR ''/'') (CHR ''/'' # intersperse_c (CHR ''/'') ss) = [] # ss"
    using assms Cons by (simp add: split_intersperse seg_ok_def)
  then show ?thesis
    using foldl_norm_ok [OF assms, of "[]"] by (simp add: abs_segments_def norm_step_def)
qed

lemma abs_segments_resolve:
  "abs_segments (path_resolve dir t) = abs_segments (if isAbsolute t then t else dir @ CHR ''/'' # t)"
  unfolding path_resolve_def by (rule abs_segments_render) (rule abs_segments_ok)

lemma strip_common_spec:
  "strip_common xs ys = (a, b) \<Longrightarrow> \<exists>c. xs = c @ a \<and> ys = c @ b \<and> (a = [] \<or> b = [] \<or> hd a \<noteq> hd b)"
proof (induction xs ys arbitrary: a b rule: strip_common.induct)
  case (1 x xs y ys)
  show ?case
  proof (cases "x = y")
    case True
    then obtain c where "xs = c @ a" "ys = c @ b" "a = [] \<or> b = [] \<or> hd a \<noteq> hd b" using 1 by auto
    then show ?thesis using True by (intro exI [of _ "x # c"]) simp
  next
    case False
    then show ?thesis using 1 by auto
  qed
qed auto

lemma intersperse_first:
  assumes "ss \<noteq> []"
  shows "\<exists>rest. intersperse_c c ss = hd ss @ rest \<and> (rest = [] \<or> hd rest = c)"
  using assms by (cases ss rule: list.exhaust; cases "tl ss") auto

lemma intersperse_Nil: "intersperse_c c ss = [] \<longleftrightarrow> ss = [] \<or> ss = [[]]"
  by (induction c ss rule: intersperse_c.induct) auto

lemma relative_inside:
  assumes "\<forall>s\<in>set b. seg_ok s" and "b \<noteq> []"
  shows "\<not> (intersperse_c (CHR ''/'') b = [] \<or> intersperse_c (CHR ''/'') b = ''..'' \<or>
    take 3 (intersperse_c (CHR ''/'') b) = ''../'' \<or> isAbsolute (intersperse_c (CHR ''/'') b))"
proof -
  obtain x xs where b: "b = x # xs" using assms(2) by (cases b) auto
  have x: "seg_ok x" using assms(1) b by simp
  obtain rest where r: "intersperse_c (CHR ''/'') b = x @ rest" "rest = [] \<or> hd rest = CHR ''/''"
    using intersperse_first [OF assms(2), of "CHR ''/''"] b by auto
  have nd: "x \<noteq> []" "x \<noteq> ''..''" "CHR ''/'' \<notin> set x" using x by (auto simp: seg_ok_def)
  have 1: "\<not> isAbsolute (x @ rest)" using nd by (cases x) (auto simp: isAbsolute_def)
  have 2: "x @ rest \<noteq> ''..''"
  proof
    assume e: "x @ rest = ''..''"
    have "CHR ''/'' \<notin> set (x @ rest)" unfolding e by simp
    then have "CHR ''/'' \<notin> set rest" by simp
    then have "rest = []" using r(2) by (cases rest) auto
    then show False using e nd by simp
  qed
  have 3: "take 3 (x @ rest) \<noteq> ''../''"
  proof
    assume e: "take 3 (x @ rest) = ''../''"
    then obtain z where z: "x @ rest = ''../'' @ z" by (metis append_take_drop_id)
    show False
    proof (cases x)
      case (Cons x0 x1)
      show False
      proof (cases x1)
        case Nil
        then have "rest = ''./'' @ z" using Cons z by simp
        then show False using r(2) by simp
      next
        case Cons2: (Cons y0 x2)
        show False
        proof (cases x2)
          case Nil
          then show False using Cons Cons2 z nd(2) by simp
        next
          case (Cons w0 x3)
          then have "CHR ''/'' \<in> set x" using \<open>x = x0 # x1\<close> Cons2 z by simp
          then show False using nd(3) by simp
        qed
      qed
    qed (use nd(1) in simp)
  qed
  show ?thesis using 1 2 3 nd(1) r(1) by simp
qed

text \<open>
  C36: a finalize target stays inside the save directory. For a plugin's path, absolute or
  relative and with any mixture of dots, the target is accepted exactly when its resolved
  segments properly extend those of the save directory, and then the target returned is that
  resolved path; a path that climbs out of the directory, names the directory itself or lies
  beside it is refused.
\<close>
theorem finalize_target_confined:
  assumes "isAbsolute saveDir" and "char_of (0 :: nat) \<notin> set saveDir" and "char_of (0 :: nat) \<notin> set t"
  shows "resolveFinalizeTarget saveDir t =
    (if \<exists>rest. rest \<noteq> [] \<and> abs_segments (path_resolve saveDir t) = abs_segments saveDir @ rest
     then Inr (path_resolve saveDir t) else Inl NotDescendant)"
proof -
  let ?f = "abs_segments saveDir" and ?t = "abs_segments (path_resolve saveDir t)"
  obtain a b where ab: "strip_common ?f ?t = (a, b)" by fastforce
  obtain c where c: "?f = c @ a" "?t = c @ b" "a = [] \<or> b = [] \<or> hd a \<noteq> hd b" using strip_common_spec [OF ab] by blast
  define rel where "rel = intersperse_c (CHR ''/'') (replicate (length a) ''..'' @ b)"
  have rel: "path_relative saveDir (path_resolve saveDir t) = rel"
    by (simp add: path_relative_def ab rel_def)
  have ext: "(\<exists>rest. rest \<noteq> [] \<and> ?t = ?f @ rest) \<longleftrightarrow> a = [] \<and> b \<noteq> []"
  proof
    assume "\<exists>rest. rest \<noteq> [] \<and> ?t = ?f @ rest"
    then obtain rest where "rest \<noteq> []" "b = a @ rest" using c(1,2) by auto
    then show "a = [] \<and> b \<noteq> []" using c(3) by (cases a) auto
  next
    assume "a = [] \<and> b \<noteq> []"
    then show "\<exists>rest. rest \<noteq> [] \<and> ?t = ?f @ rest" using c(1,2) by auto
  qed
  have bad: "rel = '''' \<or> rel = ''..'' \<or> take 3 rel = ''../'' \<or> isAbsolute rel \<longleftrightarrow> \<not> (a = [] \<and> b \<noteq> [])"
  proof (cases a)
    case Nil
    have "\<forall>s\<in>set b. seg_ok s" using abs_segments_ok [of "path_resolve saveDir t"] c(2) by auto
    then show ?thesis
      using relative_inside [of b] Nil by (cases "b = []") (auto simp: rel_def)
  next
    case (Cons x xs)
    have "rel = ''..'' \<or> take 3 rel = ''../''"
      using Cons by (cases "replicate (length xs) ''..'' @ b") (auto simp: rel_def)
    then show ?thesis using Cons by auto
  qed
  show ?thesis
    using assms ext bad rel by (simp add: resolveFinalizeTarget_def Let_def)
qed

theorem finalize_target_confined_witness:
  "resolveFinalizeTarget ''/dl/x'' ''a/../b.bin'' = Inr ''/dl/x/b.bin'' \<and>
   resolveFinalizeTarget ''/dl/x'' ''../y'' = Inl NotDescendant"
proof -
  have z: "char_of (0 :: nat) \<notin> set ''/dl/x''" "char_of (0 :: nat) \<notin> set ''a/../b.bin''" "char_of (0 :: nat) \<notin> set ''../y''"
    by code_simp+
  have a: "isAbsolute ''/dl/x''" by code_simp
  have s: "abs_segments ''/dl/x'' = [''dl'', ''x'']" "abs_segments (path_resolve ''/dl/x'' ''a/../b.bin'') = [''dl'', ''x'', ''b.bin'']"
    "path_resolve ''/dl/x'' ''a/../b.bin'' = ''/dl/x/b.bin''" "abs_segments (path_resolve ''/dl/x'' ''../y'') = [''dl'', ''y'']"
    by code_simp+
  have "resolveFinalizeTarget ''/dl/x'' ''a/../b.bin'' = Inr ''/dl/x/b.bin''"
    using finalize_target_confined [OF a z(1,2)] s by simp
  moreover have "resolveFinalizeTarget ''/dl/x'' ''../y'' = Inl NotDescendant"
    using finalize_target_confined [OF a z(1,3)] s by simp
  ultimately show ?thesis by simp
qed

end
