(* ===== verification/Hook_Effects.thy ===== *)
theory Hook_Effects
  imports Staged_Effects Finalize_Path
begin

text \<open>
  What a hook may do and when: the phase matrix (\<open>core/plugin/hooks/phase-matrix.ts\<close>), the
  validation of context patches (\<open>core/plugin/hooks/ctx-update.ts\<close>), and the application of a
  hook's effects as one unit when it exits (\<open>applyHookEffects\<close> of
  \<open>core/plugin/host/capability-bridge.ts\<close>). The URL grammar of \<open>zod\<close> and the proxy grammar are
  the parameters \<open>url_ok\<close> and \<open>proxy_ok\<close>.
\<close>

section \<open>The phase matrix\<close>

datatype hook_phase = BeforeCreate | BeforeFinalize | AfterComplete | OnErrorHook

datatype verdict = Immediate | Staged | Disallowed

definition immediate :: "hook_phase \<Rightarrow> verdict" where
  "immediate p = Immediate"

definition task_read :: "hook_phase \<Rightarrow> verdict" where
  "task_read p = (if p = BeforeCreate then Disallowed else Immediate)"

definition staged_write :: "hook_phase \<Rightarrow> verdict" where
  "staged_write p = (if p = BeforeCreate \<or> p = BeforeFinalize then Staged else Disallowed)"

definition MATRIX :: "(string \<times> (hook_phase \<Rightarrow> verdict)) list" where
  "MATRIX =
     [(''http.request'', immediate), (''http.get'', immediate), (''http.post'', immediate),
      (''fs.task.stat'', task_read), (''fs.task.exists'', task_read),
      (''fs.task.openReader'', task_read), (''fs.task.computeHash'', task_read),
      (''fs.task.rename'', \<lambda>p. if p = OnErrorHook then Immediate else Disallowed),
      (''fs.storage.read'', immediate), (''fs.storage.write'', immediate),
      (''fs.storage.delete'', immediate), (''fs.storage.rename'', immediate),
      (''fs.storage.exists'', immediate), (''fs.storage.stat'', immediate),
      (''fs.storage.mkdir'', immediate), (''storage.get'', immediate), (''storage.set'', immediate),
      (''storage.compareAndSet'', immediate), (''storage.delete'', immediate),
      (''storage.keys'', immediate), (''notify.show'', immediate), (''commands.execute'', immediate),
      (''metadata.set'', staged_write), (''metadata.delete'', staged_write),
      (''metadata.get'', immediate), (''metadata.has'', immediate), (''metadata.keys'', immediate),
      (''metadata.getAll'', immediate), (''ctx.update'', staged_write)]"

definition phaseMatrix :: "string \<Rightarrow> string \<Rightarrow> hook_phase \<Rightarrow> verdict" where
  "phaseMatrix cap m phase =
     (case map_of MATRIX (cap @ ''.'' @ m) of None \<Rightarrow> Immediate | Some row \<Rightarrow> row phase)"

definition isStaged :: "string \<Rightarrow> string \<Rightarrow> hook_phase \<Rightarrow> bool" where
  "isStaged c m p \<longleftrightarrow> phaseMatrix c m p = Staged"

definition isDisallowed :: "string \<Rightarrow> string \<Rightarrow> hook_phase \<Rightarrow> bool" where
  "isDisallowed c m p \<longleftrightarrow> phaseMatrix c m p = Disallowed"

section \<open>Validation\<close>

datatype hook_error =
    AuditRoleCannotMutate
  | CtxUpdateInvalid
  | FilenameNeedsPermission
  | OutputInvalid
  | PermissionDenied

datatype ctx_patch = HttpPatch staged_http_patch | FinalizePatch string

definition basename_ok :: "string \<Rightarrow> bool" where
  "basename_ok s \<longleftrightarrow>
     CHR ''/'' \<notin> set s \<and> CHR 0x5C \<notin> set s \<and> s \<noteq> ''..'' \<and> take 1 s \<noteq> ''.''"

definition http_patch_ok :: "(string \<Rightarrow> bool) \<Rightarrow> (string \<Rightarrow> bool) \<Rightarrow> staged_http_patch \<Rightarrow> bool" where
  "http_patch_ok url_ok proxy_ok p \<longleftrightarrow>
     (case hp_uris p of None \<Rightarrow> True | Some us \<Rightarrow> list_all url_ok us) \<and>
     (case hp_filename p of None \<Rightarrow> True | Some s \<Rightarrow> basename_ok s) \<and>
     (case hp_connections p of None \<Rightarrow> True | Some n \<Rightarrow> 1 \<le> n \<and> n \<le> 16) \<and>
     (case hp_proxy p of None \<Rightarrow> True | Some s \<Rightarrow> s = '''' \<or> proxy_ok s)"

definition validateHttpPatch ::
  "(string \<Rightarrow> bool) \<Rightarrow> (string \<Rightarrow> bool) \<Rightarrow> string set \<Rightarrow> role_band \<Rightarrow> ctx_patch \<Rightarrow> (hook_error, staged_http_patch) result"
where
  "validateHttpPatch url_ok proxy_ok permissions role patch =
     (if role = Audit then Inl AuditRoleCannotMutate
      else case patch of
             FinalizePatch _ \<Rightarrow> Inl CtxUpdateInvalid
           | HttpPatch p \<Rightarrow>
               if \<not> http_patch_ok url_ok proxy_ok p then Inl CtxUpdateInvalid
               else if hp_filename p \<noteq> None \<and> ''fs.task.write'' \<notin> permissions then Inl FilenameNeedsPermission
               else Inr p)"

definition validateFinalizePatch :: "string \<Rightarrow> role_band \<Rightarrow> ctx_patch \<Rightarrow> (hook_error, string) result" where
  "validateFinalizePatch saveDir role patch =
     (if role = Audit then Inl AuditRoleCannotMutate
      else case patch of
             HttpPatch _ \<Rightarrow> Inl CtxUpdateInvalid
           | FinalizePatch filePath \<Rightarrow>
               (case resolveFinalizeTarget saveDir filePath of
                  Inl _ \<Rightarrow> Inl CtxUpdateInvalid
                | Inr target \<Rightarrow> Inr target))"

section \<open>The exit of a hook\<close>

record 'v hook_effects =
  he_contextPatches :: "ctx_patch list"
  he_metadataOperations :: "'v meta_op list"

fun collect_results :: "('a \<Rightarrow> ('e, 'b) result) \<Rightarrow> 'a list \<Rightarrow> ('e, 'b list) result" where
  "collect_results f [] = Inr []"
| "collect_results f (x # xs) =
     (case f x of
        Inl e \<Rightarrow> Inl e
      | Inr y \<Rightarrow> (case collect_results f xs of Inl e \<Rightarrow> Inl e | Inr ys \<Rightarrow> Inr (y # ys)))"

fun append_https :: "string \<Rightarrow> role_band \<Rightarrow> staged_http_patch list \<Rightarrow> ('v, 'g) staged_store \<Rightarrow> ('v, 'g) staged_store" where
  "append_https pluginId role [] s = s"
| "append_https pluginId role (p # ps) s = append_https pluginId role ps (appendHttp pluginId role p s)"

fun set_paths :: "string list \<Rightarrow> ('v, 'g) staged_store \<Rightarrow> ('v, 'g) staged_store" where
  "set_paths [] s = s"
| "set_paths (p # ps) s = set_paths ps (setFinalizePath p s)"

fun append_metas :: "string \<Rightarrow> 'v meta_op list \<Rightarrow> ('v, 'g) staged_store \<Rightarrow> ('v, 'g) staged_store" where
  "append_metas pluginId [] s = s"
| "append_metas pluginId (m # ms) s =
     append_metas pluginId ms (appendMeta (m \<lparr> mo_pluginId := pluginId \<rparr>) s)"

text \<open>What the bridge of one plugin knows of the running hook.\<close>

record bridge =
  br_pluginId :: string
  br_role :: role_band
  br_saveDir :: string
  br_permissions :: "string set"
  br_url_ok :: "string \<Rightarrow> bool"
  br_proxy_ok :: "string \<Rightarrow> bool"

definition applyHookEffects ::
  "bridge \<Rightarrow> hook_phase \<Rightarrow> 'v hook_effects \<Rightarrow> ('v, 'g) staged_store \<Rightarrow> (hook_error, ('v, 'g) staged_store) result"
where
  "applyHookEffects b phase e s =
     (if phase \<noteq> BeforeCreate \<and> phase \<noteq> BeforeFinalize then
        (if length (he_contextPatches e) > 0 \<or> length (he_metadataOperations e) > 0 then Inl OutputInvalid else Inr s)
      else if br_role b = Audit \<and> (length (he_contextPatches e) > 0 \<or> length (he_metadataOperations e) > 0)
      then Inl PermissionDenied
      else if length (he_metadataOperations e) > 0 \<and> ''metadata'' \<notin> br_permissions b then Inl PermissionDenied
      else if phase = BeforeCreate then
        (case collect_results (validateHttpPatch (br_url_ok b) (br_proxy_ok b) (br_permissions b) (br_role b)) (he_contextPatches e) of
           Inl err \<Rightarrow> Inl err
         | Inr ps \<Rightarrow> Inr (append_metas (br_pluginId b) (he_metadataOperations e)
                            (append_https (br_pluginId b) (br_role b) ps s)))
      else
        (case collect_results (validateFinalizePatch (br_saveDir b) (br_role b)) (he_contextPatches e) of
           Inl err \<Rightarrow> Inl err
         | Inr ps \<Rightarrow> Inr (append_metas (br_pluginId b) (he_metadataOperations e) (set_paths ps s))))"

section \<open>Lemmas\<close>

lemma collect_results_all: "collect_results f xs = Inr ys \<Longrightarrow> y \<in> set ys \<Longrightarrow> \<exists>x\<in>set xs. f x = Inr y"
  by (induction xs arbitrary: ys) (auto split: sum.splits)

lemma append_https_fields [simp]:
  "ss_httpPatches (append_https p r ps s) = ss_httpPatches s @ map (\<lambda>x. \<lparr> ce_pluginId = p, ce_role = r, ce_patch = x \<rparr>) ps"
  "ss_metaOps (append_https p r ps s) = ss_metaOps s" "ss_finalizePath (append_https p r ps s) = ss_finalizePath s"
  "ss_stagings (append_https p r ps s) = ss_stagings s" "ss_policyChecks (append_https p r ps s) = ss_policyChecks s"
  by (induction ps arbitrary: s) (simp_all add: appendHttp_def)

lemma set_paths_fields [simp]:
  "ss_finalizePath (set_paths ps s) = (if ps = [] then ss_finalizePath s else Some (last ps))"
  "ss_httpPatches (set_paths ps s) = ss_httpPatches s" "ss_metaOps (set_paths ps s) = ss_metaOps s"
  "ss_stagings (set_paths ps s) = ss_stagings s" "ss_policyChecks (set_paths ps s) = ss_policyChecks s"
  by (induction ps arbitrary: s) (simp_all add: setFinalizePath_def)

lemma append_metas_fields [simp]:
  "ss_metaOps (append_metas p ms s) = ss_metaOps s @ map (\<lambda>m. m \<lparr> mo_pluginId := p \<rparr>) ms"
  "ss_httpPatches (append_metas p ms s) = ss_httpPatches s" "ss_finalizePath (append_metas p ms s) = ss_finalizePath s"
  "ss_stagings (append_metas p ms s) = ss_stagings s" "ss_policyChecks (append_metas p ms s) = ss_policyChecks s"
  by (induction ms arbitrary: s) (simp_all add: appendMeta_def)

lemma validateHttpPatch_Inr:
  "validateHttpPatch u pr perms role patch = Inr p \<Longrightarrow>
   patch = HttpPatch p \<and> role \<noteq> Audit \<and> http_patch_ok u pr p \<and> (hp_filename p \<noteq> None \<longrightarrow> ''fs.task.write'' \<in> perms)"
  by (cases patch) (auto simp: validateHttpPatch_def split: if_splits)

lemma validateFinalizePatch_Inr:
  "validateFinalizePatch d role patch = Inr t \<Longrightarrow> \<exists>f. patch = FinalizePatch f \<and> resolveFinalizeTarget d f = Inr t"
  by (cases patch) (auto simp: validateFinalizePatch_def split: if_splits sum.splits)

text \<open>
  Effects of one hook are staged under its own name and role, and only those.
\<close>

definition owned :: "string \<Rightarrow> ('v, 'g) staged_store \<Rightarrow> ('v, 'g) staged_store \<Rightarrow> bool" where
  "owned p s s' \<longleftrightarrow>
     (\<exists>hs ms. ss_httpPatches s' = ss_httpPatches s @ hs \<and> ss_metaOps s' = ss_metaOps s @ ms \<and>
        (\<forall>e\<in>set hs. ce_pluginId e = p) \<and> (\<forall>m\<in>set ms. mo_pluginId m = p)) \<and>
     ss_stagings s' = ss_stagings s \<and> ss_policyChecks s' = ss_policyChecks s"

lemma applyHookEffects_owned: "applyHookEffects b phase e s = Inr s' \<Longrightarrow> owned (br_pluginId b) s s'"
  by (auto simp: applyHookEffects_def owned_def split: if_splits sum.splits)

text \<open>
  a hook's effects are all accepted or all refused, and only within its rights. When
  \<open>applyHookEffects\<close> accepts a hook that asked for anything, the phase is one that may
  change the task, its role is not audit, metadata operations had the metadata permission, every
  staged HTTP patch passed validation (a file name only with the file permission, and then a base
  name), and a finalize target lies inside the save directory; everything is staged under the
  plugin's own name.
\<close>
theorem effects_within_rights:
  assumes "applyHookEffects b phase e s = Inr s'"
    and "he_contextPatches e \<noteq> [] \<or> he_metadataOperations e \<noteq> []"
  shows "(phase = BeforeCreate \<or> phase = BeforeFinalize) \<and> br_role b \<noteq> Audit \<and>
    (he_metadataOperations e \<noteq> [] \<longrightarrow> ''metadata'' \<in> br_permissions b) \<and>
    (\<exists>ps. ss_httpPatches s' = ss_httpPatches s @ map (\<lambda>x. \<lparr> ce_pluginId = br_pluginId b, ce_role = br_role b, ce_patch = x \<rparr>) ps \<and>
       (\<forall>p\<in>set ps. http_patch_ok (br_url_ok b) (br_proxy_ok b) p \<and>
          (hp_filename p \<noteq> None \<longrightarrow> ''fs.task.write'' \<in> br_permissions b))) \<and>
    (ss_finalizePath s' = ss_finalizePath s \<or>
       (\<exists>f t. resolveFinalizeTarget (br_saveDir b) f = Inr t \<and> ss_finalizePath s' = Some t)) \<and>
    ss_metaOps s' = ss_metaOps s @ map (\<lambda>m. m \<lparr> mo_pluginId := br_pluginId b \<rparr>) (he_metadataOperations e)"
proof -
  have ph: "phase = BeforeCreate \<or> phase = BeforeFinalize" and r: "br_role b \<noteq> Audit"
    and m: "he_metadataOperations e \<noteq> [] \<longrightarrow> ''metadata'' \<in> br_permissions b"
    using assms by (auto simp: applyHookEffects_def split: if_splits)
  show ?thesis
  proof (cases "phase = BeforeCreate")
    case True
    then obtain ps where ps: "collect_results (validateHttpPatch (br_url_ok b) (br_proxy_ok b) (br_permissions b) (br_role b)) (he_contextPatches e) = Inr ps"
      and s': "s' = append_metas (br_pluginId b) (he_metadataOperations e) (append_https (br_pluginId b) (br_role b) ps s)"
      using assms(1) by (auto simp: applyHookEffects_def split: if_splits sum.splits)
    have "http_patch_ok (br_url_ok b) (br_proxy_ok b) p \<and> (hp_filename p \<noteq> None \<longrightarrow> ''fs.task.write'' \<in> br_permissions b)"
      if "p \<in> set ps" for p
      using collect_results_all [OF ps that] validateHttpPatch_Inr by blast
    then show ?thesis using ph r m s' by auto
  next
    case False
    then obtain ps where ps: "collect_results (validateFinalizePatch (br_saveDir b) (br_role b)) (he_contextPatches e) = Inr ps"
      and s': "s' = append_metas (br_pluginId b) (he_metadataOperations e) (set_paths ps s)"
      using assms(1) ph by (auto simp: applyHookEffects_def split: if_splits sum.splits)
    have "\<exists>f. resolveFinalizeTarget (br_saveDir b) f = Inr t" if "t \<in> set ps" for t
      using collect_results_all [OF ps that] validateFinalizePatch_Inr by blast
    then have "ps \<noteq> [] \<Longrightarrow> \<exists>f t. resolveFinalizeTarget (br_saveDir b) f = Inr t \<and> ss_finalizePath s' = Some t"
      using s' by (metis append_metas_fields(3) last_in_set set_paths_fields(1))
    then show ?thesis using ph r m s' by (cases "ps = []") auto
  qed
qed

definition ex_bridge :: bridge where
  "ex_bridge = \<lparr> br_pluginId = ''a.b'', br_role = Enrich, br_saveDir = ''/dl'', br_permissions = {''fs.task.write''},
     br_url_ok = (\<lambda>u. True), br_proxy_ok = (\<lambda>p. False) \<rparr>"

theorem effects_within_rights_witness:
  "\<exists>s'. applyHookEffects ex_bridge BeforeFinalize \<lparr> he_contextPatches = [FinalizePatch ''x.bin''], he_metadataOperations = [] \<rparr>
      (ss_new :: (string, unit) staged_store) = Inr s' \<and> ss_finalizePath s' = Some ''/dl/x.bin'' \<and> br_role ex_bridge \<noteq> Audit"
proof -
  let ?e = "\<lparr> he_contextPatches = [FinalizePatch ''x.bin''], he_metadataOperations = [] \<rparr> :: string hook_effects"
  have r: "resolveFinalizeTarget ''/dl'' ''x.bin'' = Inr ''/dl/x.bin''" by code_simp
  have a: "applyHookEffects ex_bridge BeforeFinalize ?e (ss_new :: (string, unit) staged_store) = Inr (setFinalizePath ''/dl/x.bin'' ss_new)"
    by (simp add: applyHookEffects_def ex_bridge_def validateFinalizePatch_def r)
  show ?thesis
    using a effects_within_rights [OF a] by (simp add: setFinalizePath_def)
qed

text \<open>
  the phase matrix stages exactly the writes to the task, and only before it exists or before
  it is finalized. A capability is staged just when it is \<open>ctx.update\<close>, \<open>metadata.set\<close> or
  \<open>metadata.delete\<close> in one of the two serial phases; in the parallel phases the same calls are
  disallowed, and reading the files of a task that does not exist yet is disallowed.
\<close>
theorem phase_matrix_writes:
  "(isStaged c m p \<longleftrightarrow> c @ ''.'' @ m \<in> {''metadata.set'', ''metadata.delete'', ''ctx.update''} \<and> (p = BeforeCreate \<or> p = BeforeFinalize)) \<and>
   (isDisallowed c m p \<longleftrightarrow>
      (c @ ''.'' @ m \<in> {''metadata.set'', ''metadata.delete'', ''ctx.update''} \<and> (p = AfterComplete \<or> p = OnErrorHook)) \<or>
      (c @ ''.'' @ m \<in> {''fs.task.stat'', ''fs.task.exists'', ''fs.task.openReader'', ''fs.task.computeHash''} \<and> p = BeforeCreate) \<or>
      (c @ ''.'' @ m = ''fs.task.rename'' \<and> p \<noteq> OnErrorHook))"
proof -
  have m: "map_of MATRIX k =
    (if k \<in> {''metadata.set'', ''metadata.delete'', ''ctx.update''} then Some staged_write
     else if k \<in> {''fs.task.stat'', ''fs.task.exists'', ''fs.task.openReader'', ''fs.task.computeHash''} then Some task_read
     else if k = ''fs.task.rename'' then Some (\<lambda>p. if p = OnErrorHook then Immediate else Disallowed)
     else if k \<in> fst ` set MATRIX then Some immediate else None)" for k
    by (simp add: MATRIX_def)
  show ?thesis
    unfolding isStaged_def isDisallowed_def phaseMatrix_def m
    by (cases p) (auto simp: staged_write_def task_read_def immediate_def)
qed

end
