(* ===== verification/Hook_Chain.thy ===== *)
theory Hook_Chain
  imports Hook_Effects Circuit_Breaker
begin

text \<open>
  The serial hook chains, \<open>runBeforeCreateHttp\<close> and \<open>runBeforeFinalize\<close> of
  \<open>core/plugin/hooks/hook-orchestrator.ts\<close>, with discovery (\<open>eligiblePlugins\<close>,
  \<open>isEligible\<close> of \<open>eligibility.ts\<close>) and failure accounting.

  The plugins of a chain run one after the other. What one plugin's turn meets outside the
  orchestrator (the clock, its activation, the host's policy, what its hook asks for and how it
  ends) is the record \<open>attempt\<close>. The URL grammar of the source admission is the parameter
  \<open>admit\<close> (\<open>None\<close> is a thrown \<open>DownloadSourceError\<close>), the match of a host pattern the parameter
  \<open>matches\<close>. Audit log entries and calls of \<open>host.disable\<close> are recorded in order.
\<close>

section \<open>Discovery\<close>

record manifest =
  mf_hooks :: "(string, string option) jmap option"
  mf_hostPermissions :: "string list option"

fun parse_role :: "string \<Rightarrow> role_band option" where
  "parse_role raw =
     (if raw = ''pre-resolve'' then Some PreResolve
      else if raw = ''resolve'' then Some Resolve
      else if raw = ''enrich'' then Some Enrich
      else if raw = ''post-process'' then Some PostProcess
      else if raw = ''audit'' then Some Audit
      else None)"

definition roleFromManifest :: "manifest \<Rightarrow> string \<Rightarrow> role_band option" where
  "roleFromManifest mf hook =
     (case Option.bind (mf_hooks mf) (\<lambda>hs. map_of hs hook) of
        None \<Rightarrow> None
      | Some raw \<Rightarrow> (case Option.bind raw parse_role of Some r \<Rightarrow> Some r | None \<Rightarrow> Some Enrich))"

definition isEligible :: "(string \<Rightarrow> string \<Rightarrow> bool) \<Rightarrow> manifest \<Rightarrow> string \<Rightarrow> string option \<Rightarrow> bool" where
  "isEligible matches mf hook taskUrl =
     (case mf_hooks mf of
        None \<Rightarrow> False
      | Some hooks \<Rightarrow>
          if \<not> jhas hooks hook then False
          else if hook \<noteq> ''beforeCreate'' then True
          else if \<not> truthy_str taskUrl then True
          else (let patterns = (case mf_hostPermissions mf of None \<Rightarrow> [] | Some ps \<Rightarrow> ps)
                in if length patterns = 0 then False
                   else list_ex (\<lambda>p. matches p (the taskUrl)) patterns))"

definition urlMatchesHostPermissions :: "(string \<Rightarrow> string \<Rightarrow> bool) \<Rightarrow> string list option \<Rightarrow> string \<Rightarrow> bool" where
  "urlMatchesHostPermissions matches perms url =
     list_ex (\<lambda>p. matches p url) (case perms of None \<Rightarrow> [] | Some ps \<Rightarrow> ps)"

text \<open>\<open>descriptors\<close> is what the activation dispatcher finds, \<open>None\<close> without a dispatcher.\<close>

definition eligiblePlugins ::
  "(string \<Rightarrow> string \<Rightarrow> bool) \<Rightarrow> (string \<times> role_band) list option \<Rightarrow> (string \<times> manifest) list \<Rightarrow> string \<Rightarrow> string option \<Rightarrow>
   (string \<times> role_band) list"
where
  "eligiblePlugins matches descriptors active hook url =
     (case descriptors of
        Some ds \<Rightarrow> sortByBand ds
      | None \<Rightarrow>
          sortByBand
            (List.map_filter
               (\<lambda>(i, mf). if isEligible matches mf hook url
                          then map_option (\<lambda>r. (i, r)) (roleFromManifest mf hook) else None)
               active))"

section \<open>One plugin's turn\<close>

datatype activation = NoDispatcher | ActivationFailed string | Activated "manifest option"

record 'v attempt =
  at_openNow :: int
  at_activation :: activation
  at_policy :: "host_policy option"
  at_snapshotError :: "string option"
  at_bridge :: bridge
  at_hookError :: "string option"
  at_effects :: "'v hook_effects"
  at_lateError :: "string option"
  at_outputs :: "(string, string) jmap"
  at_restricted :: bool
  at_failNow :: int

datatype audit_event =
    ChainSkip string
  | ChainPluginError string role_band string
  | ChainAbort string role_band string
  | ChainCommit

type_synonym 'v chain_store = "('v, (string, string) jmap) staged_store"

definition activateForHook :: "string \<Rightarrow> activation \<Rightarrow> role_band \<Rightarrow> (string, role_band) result" where
  "activateForHook hook a role =
     (case a of
        NoDispatcher \<Rightarrow> Inr role
      | ActivationFailed msg \<Rightarrow> Inl msg
      | Activated None \<Rightarrow> Inl ''hook demand activation completed without active plugin''
      | Activated (Some mf) \<Rightarrow>
          (case roleFromManifest mf hook of
             None \<Rightarrow> Inl ''active plugin no longer declares hook''
           | Some r \<Rightarrow> Inr r))"

definition bind_check :: "string \<Rightarrow> host_policy option \<Rightarrow> 'v chain_store \<Rightarrow> (string, 'v chain_store) result" where
  "bind_check pluginId pol s =
     (case pol of
        None \<Rightarrow> Inr s
      | Some h \<Rightarrow> (case capturePolicyCheck h pluginId of
                     Inl _ \<Rightarrow> Inl ''plugin.runtime.admission_closed''
                   | Inr g \<Rightarrow> Inr (bindPolicyCheck pluginId g s)))"

text \<open>\<open>invokeHook\<close>: the hook fails, or exits and its effects are applied; it may still be too late.\<close>

definition invokeHook ::
  "hook_phase \<Rightarrow> string \<Rightarrow> role_band \<Rightarrow> string \<Rightarrow> 'v attempt \<Rightarrow> 'v chain_store \<Rightarrow> string option \<times> 'v chain_store"
where
  "invokeHook phase pluginId role saveDir at s =
     (case at_hookError at of
        Some msg \<Rightarrow> (Some msg, s)
      | None \<Rightarrow>
        (case applyHookEffects ((at_bridge at) \<lparr> br_pluginId := pluginId, br_role := role, br_saveDir := saveDir \<rparr>)
                phase (at_effects at) s of
           Inl _ \<Rightarrow> (Some ''plugin.hook.output_invalid'', s)
         | Inr s' \<Rightarrow> (at_lateError at, s')))"

text \<open>The \<open>try\<close> block up to the end of the hook: the error if any, the role, the store.\<close>

definition run_turn ::
  "hook_phase \<Rightarrow> string \<Rightarrow> string \<times> role_band \<Rightarrow> string \<Rightarrow> 'v attempt \<Rightarrow> 'v chain_store \<Rightarrow> string option \<times> role_band \<times> 'v chain_store"
where
  "run_turn phase hook entry saveDir at s =
     (case activateForHook hook (at_activation at) (snd entry) of
        Inl msg \<Rightarrow> (Some msg, snd entry, s)
      | Inr role \<Rightarrow>
        (case bind_check (fst entry) (at_policy at) s of
           Inl msg \<Rightarrow> (Some msg, role, s)
         | Inr s1 \<Rightarrow>
           (case at_snapshotError at of
              Some msg \<Rightarrow> (Some msg, role, s1)
            | None \<Rightarrow>
              (let (err, s2) = invokeHook phase (fst entry) role saveDir at s1 in (err, role, s2)))))"

section \<open>Failure accounting\<close>

record 'w chain_env =
  ch_working :: 'w
  ch_breaker :: circuit_breaker
  ch_disabled :: "string list"
  ch_audit :: "audit_event list"

definition log_event :: "audit_event \<Rightarrow> 'w chain_env \<Rightarrow> 'w chain_env" where
  "log_event e c = c \<lparr> ch_audit := ch_audit c @ [e] \<rparr>"

definition maybeDisable :: "string \<Rightarrow> string \<Rightarrow> int \<Rightarrow> 'w chain_env \<Rightarrow> 'w chain_env" where
  "maybeDisable hook pluginId now c =
     (let (isOpen, b) = cb_isOpen now pluginId hook (ch_breaker c)
      in if isOpen then c \<lparr> ch_breaker := b, ch_disabled := ch_disabled c @ [pluginId] \<rparr>
         else c \<lparr> ch_breaker := b \<rparr>)"

definition recordPluginFailure :: "string \<Rightarrow> string \<Rightarrow> bool \<Rightarrow> int \<Rightarrow> 'w chain_env \<Rightarrow> 'w chain_env" where
  "recordPluginFailure hook pluginId restricted now c =
     (if restricted then c
      else maybeDisable hook pluginId now (c \<lparr> ch_breaker := cb_failure now pluginId hook (ch_breaker c) \<rparr>))"

definition abortsChainOnFailure :: "string \<Rightarrow> string \<Rightarrow> role_band \<Rightarrow> bool" where
  "abortsChainOnFailure hook pluginId role =
     (if hook = ''beforeFinalize'' \<and> pluginId = ''motrix.filename-template'' then False
      else isMostCritical role)"

datatype ('w, 'v) turn =
    Proceed "'w chain_env" "'v chain_store"
  | Abort string "'w chain_env"
  | SourceRefused "'w chain_env"

section \<open>beforeCreate\<close>

record before_create = http_input +
  bc_sourceUrl :: string
  bc_saveDir :: string

definition mergeBeforeCreateWorking :: "before_create \<Rightarrow> 'v chain_store \<Rightarrow> before_create" where
  "mergeBeforeCreateWorking initial s =
     (let m = mergeChain (http_input.truncate initial) (ss_httpPatches s)
      in initial \<lparr> ui_uris := mh_uris m, ui_filename := mh_filename m, ui_connections := mh_connections m,
                   ui_headers := mh_headers m, ui_proxy := mh_proxy m \<rparr>)"

definition create_failed ::
  "before_create \<Rightarrow> string \<Rightarrow> role_band \<Rightarrow> string \<Rightarrow> 'v attempt \<Rightarrow> before_create chain_env \<Rightarrow> 'v chain_store \<Rightarrow> (before_create, 'v) turn"
where
  "create_failed initial pluginId role msg at c s =
     (let c1 = log_event (ChainPluginError pluginId role msg)
                 (recordPluginFailure ''beforeCreate'' pluginId (at_restricted at) (at_failNow at) c)
      in if abortsChainOnFailure ''beforeCreate'' pluginId role
         then Abort (pluginId @ '': '' @ msg) (log_event (ChainAbort pluginId role msg) c1)
         else let s1 = removeFromPlugin pluginId s
              in Proceed (c1 \<lparr> ch_working := mergeBeforeCreateWorking initial s1 \<rparr>) s1)"

definition create_turn ::
  "(string list \<Rightarrow> string list option) \<Rightarrow> before_create \<Rightarrow> string \<times> role_band \<Rightarrow> 'v attempt \<Rightarrow>
   before_create chain_env \<Rightarrow> 'v chain_store \<Rightarrow> (before_create, 'v) turn"
where
  "create_turn admit initial entry at c s =
     (let (isOpen, b) = cb_isOpen (at_openNow at) (fst entry) ''beforeCreate'' (ch_breaker c);
          c0 = c \<lparr> ch_breaker := b \<rparr>
      in if isOpen then Proceed (log_event (ChainSkip (fst entry)) c0) s
         else case run_turn BeforeCreate ''beforeCreate'' entry (bc_saveDir (ch_working c)) at s of
                (Some msg, role, s1) \<Rightarrow> create_failed initial (fst entry) role msg at c0 s1
              | (None, role, s1) \<Rightarrow>
                  (let working = mergeBeforeCreateWorking initial s1
                   in case admit (ui_uris working) of
                        None \<Rightarrow> SourceRefused c0
                      | Some us \<Rightarrow>
                          Proceed (c0 \<lparr> ch_working := working \<lparr> ui_uris := us \<rparr>,
                                        ch_breaker := cb_success (fst entry) ''beforeCreate'' b \<rparr>) s1))"

fun create_loop ::
  "(string list \<Rightarrow> string list option) \<Rightarrow> before_create \<Rightarrow> ((string \<times> role_band) \<times> 'v attempt) list \<Rightarrow>
   before_create chain_env \<Rightarrow> 'v chain_store \<Rightarrow> (before_create, 'v) turn"
where
  "create_loop admit initial [] c s = Proceed c s"
| "create_loop admit initial ((entry, at) # rest) c s =
     (case create_turn admit initial entry at c s of
        Proceed c1 s1 \<Rightarrow> create_loop admit initial rest c1 s1
      | Abort r c1 \<Rightarrow> Abort r c1
      | SourceRefused c1 \<Rightarrow> SourceRefused c1)"

datatype 'v create_result =
    Created before_create "string list" "'v chain_store"
  | CreateAborted string
  | CreateSourceRefused
  | CreatePolicyStale policy_error

definition chain_start :: "'w \<Rightarrow> circuit_breaker \<Rightarrow> 'w chain_env" where
  "chain_start w b = \<lparr> ch_working = w, ch_breaker = b, ch_disabled = [], ch_audit = [] \<rparr>"

definition runBeforeCreateHttp ::
  "(string list \<Rightarrow> string list option) \<Rightarrow> before_create \<Rightarrow> ((string \<times> role_band) \<times> 'v attempt) list \<Rightarrow> host_policy \<Rightarrow>
   circuit_breaker \<Rightarrow> 'v create_result \<times> before_create chain_env"
where
  "runBeforeCreateHttp admit initial chain pol breaker =
     (if length chain = 0 then (Created initial [] ss_new, chain_start initial breaker)
      else case create_loop admit initial chain (chain_start initial breaker) ss_new of
             Abort r c \<Rightarrow> (CreateAborted r, c)
           | SourceRefused c \<Rightarrow> (CreateSourceRefused, c)
           | Proceed c s \<Rightarrow>
               (let final = mergeBeforeCreateWorking initial s;
                    m = mergeChain (http_input.truncate initial) (ss_httpPatches s);
                    c1 = log_event ChainCommit c
                in case assertPolicyCurrent pol s of
                     Inl e \<Rightarrow> (CreatePolicyStale e, c1)
                   | Inr _ \<Rightarrow> (Created final (mh_headerContributors m) s, c1)))"

section \<open>beforeFinalize\<close>

record before_finalize =
  bf_saveDir :: string
  bf_filePath :: string
  bf_targetFilePath :: string

definition finalize_failed ::
  "before_finalize \<Rightarrow> string \<Rightarrow> role_band \<Rightarrow> string \<Rightarrow> 'v attempt \<Rightarrow> string option \<Rightarrow>
   before_finalize chain_env \<Rightarrow> 'v chain_store \<Rightarrow> (before_finalize, 'v) turn"
where
  "finalize_failed initial pluginId role msg at previous c s =
     (let c1 = log_event (ChainPluginError pluginId role msg)
                 (recordPluginFailure ''beforeFinalize'' pluginId (at_restricted at) (at_failNow at) c)
      in if abortsChainOnFailure ''beforeFinalize'' pluginId role
         then Abort (pluginId @ '': '' @ msg) (log_event (ChainAbort pluginId role msg) c1)
         else Proceed
                (c1 \<lparr> ch_working := (ch_working c1)
                      \<lparr> bf_filePath := (case previous of None \<Rightarrow> bf_filePath initial | Some p \<Rightarrow> p),
                        bf_targetFilePath := (case previous of None \<Rightarrow> bf_targetFilePath initial | Some p \<Rightarrow> p) \<rparr> \<rparr>)
                (restoreFinalizePath previous (removeFromPlugin pluginId s)))"

definition finalize_turn ::
  "before_finalize \<Rightarrow> string \<times> role_band \<Rightarrow> 'v attempt \<Rightarrow>
   before_finalize chain_env \<Rightarrow> 'v chain_store \<Rightarrow> (before_finalize, 'v) turn"
where
  "finalize_turn initial entry at c s =
     (let (isOpen, b) = cb_isOpen (at_openNow at) (fst entry) ''beforeFinalize'' (ch_breaker c);
          c0 = c \<lparr> ch_breaker := b \<rparr>
      in if isOpen then Proceed (log_event (ChainSkip (fst entry)) c0) s
         else let s0 = appendStaging (fst entry) (at_outputs at) s;
                  previous = ss_finalizePath s0
              in case run_turn BeforeFinalize ''beforeFinalize'' entry (bf_saveDir initial) at s0 of
                   (Some msg, role, s1) \<Rightarrow> finalize_failed initial (fst entry) role msg at previous c0 s1
                 | (None, role, s1) \<Rightarrow>
                     Proceed
                       (c0 \<lparr> ch_working := (case ss_finalizePath s1 of
                                              None \<Rightarrow> ch_working c0
                                            | Some p \<Rightarrow> (ch_working c0) \<lparr> bf_filePath := p, bf_targetFilePath := p \<rparr>),
                             ch_breaker := cb_success (fst entry) ''beforeFinalize'' b \<rparr>) s1)"

fun finalize_loop ::
  "before_finalize \<Rightarrow> ((string \<times> role_band) \<times> 'v attempt) list \<Rightarrow>
   before_finalize chain_env \<Rightarrow> 'v chain_store \<Rightarrow> (before_finalize, 'v) turn"
where
  "finalize_loop initial [] c s = Proceed c s"
| "finalize_loop initial ((entry, at) # rest) c s =
     (case finalize_turn initial entry at c s of
        Proceed c1 s1 \<Rightarrow> finalize_loop initial rest c1 s1
      | Abort r c1 \<Rightarrow> Abort r c1
      | SourceRefused c1 \<Rightarrow> SourceRefused c1)"

text \<open>\<open>FfmpegStaging.mappedArtifact\<close> of \<open>staging-dir.ts\<close>: the staged file behind a final path.\<close>

definition strip_separators :: "string \<Rightarrow> string" where
  "strip_separators p = rev (dropWhile (\<lambda>c. c = CHR ''/'' \<or> c = CHR 0x5C) (rev p))"

definition mappedArtifact :: "string \<Rightarrow> (string, string) jmap \<Rightarrow> string \<Rightarrow> string option" where
  "mappedArtifact saveDir mappings finalFilePath =
     map_of mappings (path_resolve (strip_separators saveDir) finalFilePath)"

definition replacements :: "string \<Rightarrow> string option \<Rightarrow> (string, (string, string) jmap) jmap \<Rightarrow> (string \<times> string) list" where
  "replacements saveDir finalFilePath stagings =
     (if \<not> truthy_str finalFilePath then []
      else List.map_filter (\<lambda>(pluginId, m).
             case mappedArtifact saveDir m (the finalFilePath) of
               None \<Rightarrow> None
             | Some p \<Rightarrow> if p = '''' then None else Some (pluginId, p)) stagings)"

datatype 'v finalize_result =
    Finalized before_finalize "string option" "(string \<times> string) option" "'v chain_store"
  | FinalizeAborted string
  | FinalizePolicyStale policy_error

definition runBeforeFinalize ::
  "before_finalize \<Rightarrow> ((string \<times> role_band) \<times> 'v attempt) list \<Rightarrow> host_policy \<Rightarrow> circuit_breaker \<Rightarrow>
   'v finalize_result \<times> before_finalize chain_env"
where
  "runBeforeFinalize initial chain pol breaker =
     (if length chain = 0 then (Finalized initial None None ss_new, chain_start initial breaker)
      else case finalize_loop initial chain (chain_start initial breaker) ss_new of
             Abort r c \<Rightarrow> (FinalizeAborted r, c)
           | SourceRefused c \<Rightarrow> (FinalizeAborted [], c)
           | Proceed c s \<Rightarrow>
               (let finalFilePath = ss_finalizePath s;
                    (stagings, s1) = takeAllStagings s;
                    rs = replacements (bf_saveDir initial) finalFilePath stagings
                in if length rs > 1
                   then (FinalizeAborted ''multiple plugins selected the same finalize replacement'', c)
                   else let c1 = log_event ChainCommit c
                        in case assertPolicyCurrent pol s1 of
                             Inl e \<Rightarrow> (FinalizePolicyStale e, c1)
                           | Inr _ \<Rightarrow> (Finalized (ch_working c) finalFilePath
                                         (case rs of [] \<Rightarrow> None | r # _ \<Rightarrow> Some r) s1, c1)))"

section \<open>Parallel hooks\<close>

text \<open>
  \<open>runParallel\<close>: every plugin's breaker is asked first, in order; the turns of those not skipped
  then end in any order, which is the order of \<open>settled\<close>.
\<close>

fun parallel_checks ::
  "string \<Rightarrow> (string \<times> int) list \<Rightarrow> unit chain_env \<Rightarrow> string list \<times> unit chain_env"
where
  "parallel_checks hook [] c = ([], c)"
| "parallel_checks hook ((pluginId, now) # rest) c =
     (let (isOpen, b) = cb_isOpen now pluginId hook (ch_breaker c);
          c0 = c \<lparr> ch_breaker := b \<rparr>
      in if isOpen then parallel_checks hook rest (log_event (ChainSkip pluginId) c0)
         else let (ids, c1) = parallel_checks hook rest c0 in (pluginId # ids, c1))"

definition parallel_settled ::
  "string \<Rightarrow> (string \<times> role_band) \<times> string option \<times> bool \<times> int \<Rightarrow> unit chain_env \<Rightarrow> unit chain_env"
where
  "parallel_settled hook r c =
     (case r of ((pluginId, role), err, restricted, now) \<Rightarrow>
        (case err of
           None \<Rightarrow> c \<lparr> ch_breaker := cb_success pluginId hook (ch_breaker c) \<rparr>
         | Some msg \<Rightarrow> log_event (ChainPluginError pluginId role msg) (recordPluginFailure hook pluginId restricted now c)))"

definition runParallel ::
  "string \<Rightarrow> (string \<times> int) list \<Rightarrow> ((string \<times> role_band) \<times> string option \<times> bool \<times> int) list \<Rightarrow> unit chain_env \<Rightarrow> unit chain_env"
where
  "runParallel hook checks settled c =
     (let (ids, c1) = parallel_checks hook checks c
      in foldl (\<lambda>c r. parallel_settled hook r c) c1 (filter (\<lambda>r. fst (fst r) \<in> set ids) settled))"

section \<open>What a turn does to the store\<close>

text \<open>The plugin adds to the store under its own name only.\<close>

definition grown :: "string \<Rightarrow> 'v chain_store \<Rightarrow> 'v chain_store \<Rightarrow> bool" where
  "grown p s s' \<longleftrightarrow>
     (\<exists>hs ms. ss_httpPatches s' = ss_httpPatches s @ hs \<and> ss_metaOps s' = ss_metaOps s @ ms \<and>
        (\<forall>e\<in>set hs. ce_pluginId e = p) \<and> (\<forall>m\<in>set ms. mo_pluginId m = p)) \<and>
     ss_stagings s' = ss_stagings s \<and> (\<forall>q. q \<noteq> p \<longrightarrow> map_of (ss_policyChecks s') q = map_of (ss_policyChecks s) q)"

lemma grown_refl [simp]: "grown p s s"
  by (simp add: grown_def)

lemma grown_bind: "bind_check p pol s = Inr s' \<Longrightarrow> grown p s s' \<and> ss_httpPatches s' = ss_httpPatches s \<and>
    ss_metaOps s' = ss_metaOps s \<and> ss_finalizePath s' = ss_finalizePath s \<and> ss_stagings s' = ss_stagings s"
  by (auto simp: bind_check_def bindPolicyCheck_def grown_def split: option.splits sum.splits)

lemma grown_owned:
  assumes "grown p s s1" and "ss_httpPatches s1 = ss_httpPatches s" and "ss_metaOps s1 = ss_metaOps s" and "owned p s1 s2"
  shows "grown p s s2"
  using assms by (auto simp: grown_def owned_def)

lemma invokeHook_owned: "invokeHook phase p role d at s = (err, s') \<Longrightarrow> owned p s s'"
proof -
  assume a: "invokeHook phase p role d at s = (err, s')"
  let ?b = "(at_bridge at) \<lparr> br_pluginId := p, br_role := role, br_saveDir := d \<rparr>"
  have "owned p s s" by (simp add: owned_def)
  moreover have "applyHookEffects ?b phase (at_effects at) s = Inr x \<Longrightarrow> owned p s x" for x
    using applyHookEffects_owned [of ?b] by simp
  ultimately show ?thesis using a by (auto simp: invokeHook_def split: option.splits sum.splits)
qed

lemma run_turn_grown:
  assumes "run_turn phase hook entry d at s = (err, role, s')"
  shows "grown (fst entry) s s'"
proof (cases "activateForHook hook (at_activation at) (snd entry)")
  case (Inl msg)
  then show ?thesis using assms by (simp add: run_turn_def)
next
  case act: (Inr r)
  show ?thesis
  proof (cases "bind_check (fst entry) (at_policy at) s")
    case (Inl msg)
    then show ?thesis using assms act by (simp add: run_turn_def)
  next
    case bind: (Inr s1)
    note g = grown_bind [OF bind]
    obtain e s2 where inv: "invokeHook phase (fst entry) r d at s1 = (e, s2)" by fastforce
    have "grown (fst entry) s s2" using g invokeHook_owned [OF inv] by (blast intro: grown_owned)
    then show ?thesis
      using assms act bind inv g by (cases "at_snapshotError at") (auto simp: run_turn_def)
  qed
qed

definition mentions :: "string \<Rightarrow> 'v chain_store \<Rightarrow> bool" where
  "mentions p s \<longleftrightarrow> p \<in> ce_pluginId ` set (ss_httpPatches s) \<or> p \<in> mo_pluginId ` set (ss_metaOps s)"

lemma grown_mentions: "grown p s s' \<Longrightarrow> mentions q s' \<Longrightarrow> q = p \<or> mentions q s"
  by (auto simp: grown_def mentions_def)

lemma removed_restores:
  assumes "grown p s s'" and "\<not> mentions p s"
  shows "ss_httpPatches (removeFromPlugin p s') = ss_httpPatches s \<and> ss_metaOps (removeFromPlugin p s') = ss_metaOps s"
proof -
  obtain hs ms where g: "ss_httpPatches s' = ss_httpPatches s @ hs" "ss_metaOps s' = ss_metaOps s @ ms"
    "\<forall>e\<in>set hs. ce_pluginId e = p" "\<forall>m\<in>set ms. mo_pluginId m = p" using assms(1) by (auto simp: grown_def)
  have "filter (\<lambda>e. ce_pluginId e \<noteq> p) (ss_httpPatches s) = ss_httpPatches s" "filter (\<lambda>m. mo_pluginId m \<noteq> p) (ss_metaOps s) = ss_metaOps s"
    using assms(2) by (auto simp: mentions_def filter_id_conv)
  then show ?thesis using g by (simp add: removeFromPlugin_def filter_empty_conv)
qed

section \<open>The chain before creation\<close>

lemma log_event_fields [simp]:
  "ch_audit (log_event e c) = ch_audit c @ [e]" "ch_working (log_event e c) = ch_working c" "ch_breaker (log_event e c) = ch_breaker c"
  by (simp_all add: log_event_def)

lemma recordPluginFailure_fields [simp]:
  "ch_audit (recordPluginFailure h p r now c) = ch_audit c" "ch_working (recordPluginFailure h p r now c) = ch_working c"
  by (simp_all add: recordPluginFailure_def maybeDisable_def Let_def split: prod.split)

lemma create_turn_cases [consumes 1]:
  assumes "create_turn admit initial entry at c s = t"
  obtains (skip) b where "t = Proceed (log_event (ChainSkip (fst entry)) (c \<lparr> ch_breaker := b \<rparr>)) s"
  | (failed) msg role b s1 where "run_turn BeforeCreate ''beforeCreate'' entry (bc_saveDir (ch_working c)) at s = (Some msg, role, s1)"
      "t = create_failed initial (fst entry) role msg at (c \<lparr> ch_breaker := b \<rparr>) s1"
  | (refused) b where "t = SourceRefused (c \<lparr> ch_breaker := b \<rparr>)"
  | (ok) role b' s1 us where "run_turn BeforeCreate ''beforeCreate'' entry (bc_saveDir (ch_working c)) at s = (None, role, s1)"
      "admit (ui_uris (mergeBeforeCreateWorking initial s1)) = Some us"
      "t = Proceed (c \<lparr> ch_working := (mergeBeforeCreateWorking initial s1) \<lparr> ui_uris := us \<rparr>, ch_breaker := b' \<rparr>) s1"
proof -
  obtain io b where o: "cb_isOpen (at_openNow at) (fst entry) ''beforeCreate'' (ch_breaker c) = (io, b)" by fastforce
  obtain err role s1 where r: "run_turn BeforeCreate ''beforeCreate'' entry (bc_saveDir (ch_working c)) at s = (err, role, s1)"
    by (metis prod_cases3)
  show thesis
  proof (cases io)
    case True
    then show ?thesis using assms o by (intro skip [of b]) (simp add: create_turn_def)
  next
    case io: False
    show ?thesis
    proof (cases err)
      case (Some msg)
      then show ?thesis using assms o r io by (intro failed [of msg role s1 b]) (simp_all add: create_turn_def)
    next
      case None
      show ?thesis
      proof (cases "admit (ui_uris (mergeBeforeCreateWorking initial s1))")
        case None
        then show ?thesis using assms o r io \<open>err = None\<close> by (intro refused [of b]) (simp add: create_turn_def Let_def)
      next
        case (Some us)
        then show ?thesis using assms o r io \<open>err = None\<close>
          by (intro ok [of role s1 us "cb_success (fst entry) ''beforeCreate'' b"])
            (simp_all add: create_turn_def Let_def)
      qed
    qed
  qed
qed

definition admitted :: "(string list \<Rightarrow> string list option) \<Rightarrow> before_create \<Rightarrow> 'v chain_store \<Rightarrow> bool" where
  "admitted admit initial s \<longleftrightarrow>
     ui_uris (mergeBeforeCreateWorking initial s) = ui_uris initial \<or> admit (ui_uris (mergeBeforeCreateWorking initial s)) \<noteq> None"

definition failures :: "'w chain_env \<Rightarrow> (string \<times> role_band) set" where
  "failures c = {(p, r). \<exists>msg. ChainPluginError p r msg \<in> set (ch_audit c)}"

definition aborted :: "'w chain_env \<Rightarrow> bool" where
  "aborted c \<longleftrightarrow> (\<exists>p r msg. ChainAbort p r msg \<in> set (ch_audit c))"

definition create_inv ::
  "(string list \<Rightarrow> string list option) \<Rightarrow> before_create \<Rightarrow> string set \<Rightarrow> before_create chain_env \<Rightarrow> 'v chain_store \<Rightarrow> bool"
where
  "create_inv admit initial D c s \<longleftrightarrow>
     (\<forall>p. mentions p s \<longrightarrow> p \<in> D) \<and>
     (\<forall>(p, r)\<in>failures c. \<not> isMostCritical r \<and> p \<in> D \<and> \<not> mentions p s) \<and>
     \<not> aborted c \<and> admitted admit initial s"

lemma same_patches: "ss_httpPatches s = ss_httpPatches s' \<Longrightarrow> mergeBeforeCreateWorking initial s = mergeBeforeCreateWorking initial s'"
  by (simp add: mergeBeforeCreateWorking_def)

lemma create_turn_inv:
  assumes "create_turn admit initial entry at c s = Proceed c' s'" and "create_inv admit initial D c s" and "fst entry \<notin> D"
  shows "create_inv admit initial (insert (fst entry) D) c' s'"
  using assms(1)
proof (cases rule: create_turn_cases)
  case (skip b)
  then show ?thesis using assms(2) by (auto simp: create_inv_def failures_def aborted_def)
next
  case (failed msg role b s1)
  let ?s = "removeFromPlugin (fst entry) s1"
  have nm: "\<not> mentions (fst entry) s" using assms(2,3) by (auto simp: create_inv_def)
  have r: "ss_httpPatches ?s = ss_httpPatches s" "ss_metaOps ?s = ss_metaOps s"
    using removed_restores [OF run_turn_grown [OF failed(1)] nm] by simp_all
  have nc: "\<not> isMostCritical role" and s': "s' = ?s" and au: "ch_audit c' = ch_audit c @ [ChainPluginError (fst entry) role msg]"
    using failed(2) by (auto simp: create_failed_def Let_def abortsChainOnFailure_def split: if_splits)
  have "mentions q s' \<longleftrightarrow> mentions q s" for q using r s' by (simp add: mentions_def)
  moreover have "admitted admit initial s' = admitted admit initial s"
    using same_patches [of s' s] r s' by (simp add: admitted_def)
  moreover have "failures c' = insert (fst entry, role) (failures c)" "aborted c' = aborted c"
    using au by (auto simp: failures_def aborted_def)
  ultimately show ?thesis
    using assms(2) nm nc unfolding create_inv_def by auto
next
  case (ok role b' s1 us)
  have g: "grown (fst entry) s s1" using run_turn_grown [OF ok(1)] .
  have "s' = s1" "ch_audit c' = ch_audit c" using ok(3) by simp_all
  moreover have "mentions q s1 \<Longrightarrow> q \<in> insert (fst entry) D" for q
    using grown_mentions [OF g] assms(2) by (auto simp: create_inv_def)
  moreover have "(p, r) \<in> failures c \<Longrightarrow> \<not> isMostCritical r \<and> p \<in> D \<and> \<not> mentions p s1" for p r
    using grown_mentions [OF g, of p] assms(2,3) by (fastforce simp: create_inv_def)
  ultimately show ?thesis
    using assms(2) ok(2) by (auto simp: create_inv_def failures_def aborted_def admitted_def)
qed simp

lemma create_loop_inv:
  assumes "create_loop admit initial chain c s = Proceed c' s'" and "create_inv admit initial D c s"
    and "distinct (map (fst \<circ> fst) chain)" and "set (map (fst \<circ> fst) chain) \<inter> D = {}"
  shows "create_inv admit initial (set (map (fst \<circ> fst) chain) \<union> D) c' s'"
  using assms
proof (induction chain arbitrary: c s D)
  case (Cons e rest)
  obtain entry at where e: "e = (entry, at)" by (cases e)
  obtain c1 s1 where t: "create_turn admit initial entry at c s = Proceed c1 s1" "create_loop admit initial rest c1 s1 = Proceed c' s'"
    using Cons.prems(1) e by (auto split: turn.splits)
  have "create_inv admit initial (insert (fst entry) D) c1 s1"
    using create_turn_inv [OF t(1) Cons.prems(2)] Cons.prems(4) e by simp
  then have "create_inv admit initial (set (map (fst \<circ> fst) rest) \<union> insert (fst entry) D) c' s'"
    by (rule Cons.IH [OF t(2)]) (use Cons.prems(3,4) e in auto)
  then show ?case using e by simp
qed simp

lemma create_loop_abort:
  "create_loop admit initial chain c s = Abort r c' \<Longrightarrow>
   \<exists>pre p role msg. ch_audit c' = pre @ [ChainPluginError p role msg, ChainAbort p role msg] \<and> isMostCritical role \<and> r = p @ '': '' @ msg"
proof (induction chain arbitrary: c s)
  case (Cons e rest)
  obtain entry at where e: "e = (entry, at)" by (cases e)
  show ?case
  proof (cases "create_turn admit initial entry at c s")
    case (Abort r1 c1)
    then have "r1 = r" "c1 = c'" using Cons.prems e by simp_all
    from Abort show ?thesis
    proof (cases rule: create_turn_cases)
      case (failed msg role b s1)
      then show ?thesis
        using \<open>r1 = r\<close> \<open>c1 = c'\<close> by (auto simp: create_failed_def Let_def abortsChainOnFailure_def split: if_splits)
    qed auto
  qed (use Cons e in auto)
qed simp

text \<open>The lemmas above, as the properties of a whole run.\<close>

lemma create_inv_start: "create_inv admit initial {} (chain_start initial b) ss_new"
  by (simp add: create_inv_def mentions_def ss_new_def failures_def aborted_def chain_start_def admitted_def
      mergeBeforeCreateWorking_def merge_start_def http_input.defs)

lemma created_inv:
  assumes "runBeforeCreateHttp admit initial chain pol b = (Created final hs s, c)" and "distinct (map (fst \<circ> fst) chain)"
  shows "create_inv admit initial (set (map (fst \<circ> fst) chain)) c s \<and> final = mergeBeforeCreateWorking initial s \<and>
    assertPolicyCurrent pol s = Inr ()"
proof (cases "chain = []")
  case True
  then have "final = initial" "s = ss_new" "c = chain_start initial b" using assms(1) by (auto simp: runBeforeCreateHttp_def)
  moreover have "mergeBeforeCreateWorking initial s = initial" "assertPolicyCurrent pol s = Inr ()"
    using \<open>s = ss_new\<close>
    by (simp_all add: mergeBeforeCreateWorking_def ss_new_def merge_start_def http_input.defs assertPolicyCurrent_def)
  moreover have "create_inv admit initial {} (chain_start initial b) s"
    unfolding \<open>s = ss_new\<close> by (rule create_inv_start)
  ultimately show ?thesis using True by simp
next
  case False
  obtain c1 where l: "create_loop admit initial chain (chain_start initial b) ss_new = Proceed c1 s"
    "c = log_event ChainCommit c1" "final = mergeBeforeCreateWorking initial s" "assertPolicyCurrent pol s = Inr ()"
    using assms(1) False by (auto simp: runBeforeCreateHttp_def Let_def split: turn.splits sum.splits)
  have "create_inv admit initial (set (map (fst \<circ> fst) chain)) c1 s"
    using create_loop_inv [OF l(1) create_inv_start assms(2)] by simp
  then show ?thesis using l by (simp add: create_inv_def failures_def aborted_def)
qed

text \<open>
  C21: a failure of a critical plugin stops the task, a failure of another does not. When the
  chain before creation ends with a request, no failure on record is of a pre-resolve, resolve or
  post-process plugin, and the policy of every participant still holds; when it ends aborted, the
  plugin it names failed in such a role.
\<close>
theorem create_chain_fail_mode:
  assumes "runBeforeCreateHttp admit initial chain pol b = (res, c)" and "distinct (map (fst \<circ> fst) chain)"
  shows "(\<forall>final hs s. res = Created final hs s \<longrightarrow>
      (\<forall>(p, r)\<in>failures c. \<not> isMostCritical r) \<and> assertPolicyCurrent pol s = Inr ()) \<and>
    (\<forall>reason. res = CreateAborted reason \<longrightarrow>
      (\<exists>p r msg. (p, r) \<in> failures c \<and> isMostCritical r \<and> reason = p @ '': '' @ msg))"
proof (intro conjI allI impI)
  fix final hs s assume "res = Created final hs s"
  then show "\<forall>(p, r)\<in>failures c. \<not> isMostCritical r" "assertPolicyCurrent pol s = Inr ()"
    using created_inv [of admit initial chain pol b final hs s c] assms by (auto simp: create_inv_def)
next
  fix reason assume "res = CreateAborted reason"
  then have "create_loop admit initial chain (chain_start initial b) ss_new = Abort reason c"
    using assms(1) by (auto simp: runBeforeCreateHttp_def Let_def split: if_splits turn.splits sum.splits)
  from create_loop_abort [OF this] obtain pre p role msg where
    "ch_audit c = pre @ [ChainPluginError p role msg, ChainAbort p role msg]" "isMostCritical role" "reason = p @ '': '' @ msg"
    by blast
  then show "\<exists>p r msg. (p, r) \<in> failures c \<and> isMostCritical r \<and> reason = p @ '': '' @ msg"
    by (intro exI [of _ p] exI [of _ role] exI [of _ msg]) (auto simp: failures_def)
qed

text \<open>
  C22: the request is the user's plus what the plugins that succeeded asked for, nothing else. Every
  staged patch or metadata operation is of a plugin of the chain that did not fail; the final
  request merges exactly these patches into the user's; its sources are the user's own or have
  passed the source admission.
\<close>
theorem create_chain_isolates:
  assumes "runBeforeCreateHttp admit initial chain pol b = (Created final hs s, c)" and "distinct (map (fst \<circ> fst) chain)"
  shows "(\<forall>p. mentions p s \<longrightarrow> p \<in> set (map (fst \<circ> fst) chain) \<and> (\<forall>r. (p, r) \<notin> failures c)) \<and>
    final = mergeBeforeCreateWorking initial s \<and>
    (ui_uris final = ui_uris initial \<or> admit (ui_uris final) \<noteq> None)"
  using created_inv [OF assms] by (auto simp: create_inv_def admitted_def)

section \<open>The chain before finalization\<close>

lemma applyHookEffects_path:
  assumes "applyHookEffects b BeforeFinalize e s = Inr s'"
  shows "ss_finalizePath s' = ss_finalizePath s \<or> (\<exists>f t. resolveFinalizeTarget (br_saveDir b) f = Inr t \<and> ss_finalizePath s' = Some t)"
proof -
  obtain ps where ps: "collect_results (validateFinalizePatch (br_saveDir b) (br_role b)) (he_contextPatches e) = Inr ps"
    "ss_finalizePath s' = (if ps = [] then ss_finalizePath s else Some (last ps))"
    using assms by (auto simp: applyHookEffects_def split: if_splits sum.splits)
  show ?thesis
  proof (cases "ps = []")
    case False
    then obtain x where "validateFinalizePatch (br_saveDir b) (br_role b) x = Inr (last ps)"
      using collect_results_all [OF ps(1), of "last ps"] by auto
    then show ?thesis using validateFinalizePatch_Inr ps(2) False by fastforce
  qed (use ps(2) in simp)
qed

lemma run_turn_path:
  assumes "run_turn BeforeFinalize hook entry d at s = (err, role, s')"
  shows "ss_finalizePath s' = ss_finalizePath s \<or> (\<exists>f t. resolveFinalizeTarget d f = Inr t \<and> ss_finalizePath s' = Some t)"
proof (cases "activateForHook hook (at_activation at) (snd entry)")
  case (Inl msg)
  then show ?thesis using assms by (simp add: run_turn_def)
next
  case act: (Inr r)
  show ?thesis
  proof (cases "bind_check (fst entry) (at_policy at) s")
    case (Inl msg)
    then show ?thesis using assms act by (simp add: run_turn_def)
  next
    case bind: (Inr s1)
    have p: "ss_finalizePath s1 = ss_finalizePath s" using grown_bind [OF bind] by simp
    let ?b = "(at_bridge at) \<lparr> br_pluginId := fst entry, br_role := r, br_saveDir := d \<rparr>"
    obtain e s2 where inv: "invokeHook BeforeFinalize (fst entry) r d at s1 = (e, s2)" by fastforce
    have "ss_finalizePath s2 = ss_finalizePath s1 \<or> (\<exists>f t. resolveFinalizeTarget d f = Inr t \<and> ss_finalizePath s2 = Some t)"
      using inv applyHookEffects_path [of ?b "at_effects at" s1] by (auto simp: invokeHook_def split: option.splits sum.splits)
    then show ?thesis
      using assms act bind inv p by (cases "at_snapshotError at") (auto simp: run_turn_def)
  qed
qed

lemma finalize_turn_cases [consumes 1]:
  assumes "finalize_turn initial entry at c s = t"
  obtains (skip) b where "t = Proceed (log_event (ChainSkip (fst entry)) (c \<lparr> ch_breaker := b \<rparr>)) s"
  | (failed) msg role b s1 where
      "run_turn BeforeFinalize ''beforeFinalize'' entry (bf_saveDir initial) at (appendStaging (fst entry) (at_outputs at) s) = (Some msg, role, s1)"
      "t = finalize_failed initial (fst entry) role msg at (ss_finalizePath s) (c \<lparr> ch_breaker := b \<rparr>) s1"
  | (ok) role b' s1 where
      "run_turn BeforeFinalize ''beforeFinalize'' entry (bf_saveDir initial) at (appendStaging (fst entry) (at_outputs at) s) = (None, role, s1)"
      "t = Proceed (c \<lparr> ch_working := (case ss_finalizePath s1 of None \<Rightarrow> ch_working c
          | Some p \<Rightarrow> (ch_working c) \<lparr> bf_filePath := p, bf_targetFilePath := p \<rparr>), ch_breaker := b' \<rparr>) s1"
proof -
  obtain io b where o: "cb_isOpen (at_openNow at) (fst entry) ''beforeFinalize'' (ch_breaker c) = (io, b)" by fastforce
  obtain err role s1 where r: "run_turn BeforeFinalize ''beforeFinalize'' entry (bf_saveDir initial) at
      (appendStaging (fst entry) (at_outputs at) s) = (err, role, s1)"
    by (metis prod_cases3)
  have pv: "ss_finalizePath (appendStaging (fst entry) (at_outputs at) s) = ss_finalizePath s" by (simp add: appendStaging_def)
  show thesis
  proof (cases io)
    case True
    then show ?thesis using assms o by (intro skip [of b]) (simp add: finalize_turn_def)
  next
    case io: False
    show ?thesis
    proof (cases err)
      case (Some msg)
      then show ?thesis using assms o r io pv by (intro failed [of msg role s1 b]) (simp_all add: finalize_turn_def Let_def)
    next
      case None
      then show ?thesis using assms o r io
        by (intro ok [of role s1 "cb_success (fst entry) ''beforeFinalize'' b"])
          (auto simp: finalize_turn_def Let_def split: option.splits)
    qed
  qed
qed

definition path_state :: "before_finalize \<Rightarrow> string option \<Rightarrow> before_finalize" where
  "path_state initial p =
     (case p of None \<Rightarrow> initial | Some q \<Rightarrow> initial \<lparr> bf_filePath := q, bf_targetFilePath := q \<rparr>)"

definition confined :: "before_finalize \<Rightarrow> string option \<Rightarrow> bool" where
  "confined initial p \<longleftrightarrow> (\<forall>t. p = Some t \<longrightarrow> (\<exists>f. resolveFinalizeTarget (bf_saveDir initial) f = Inr t))"

definition finalize_inv :: "before_finalize \<Rightarrow> string set \<Rightarrow> before_finalize chain_env \<Rightarrow> 'v chain_store \<Rightarrow> bool" where
  "finalize_inv initial D c s \<longleftrightarrow>
     (\<forall>p. mentions p s \<or> map_of (ss_stagings s) p \<noteq> None \<longrightarrow> p \<in> D) \<and>
     (\<forall>(p, r)\<in>failures c. \<not> abortsChainOnFailure ''beforeFinalize'' p r \<and> p \<in> D \<and> \<not> mentions p s \<and>
        map_of (ss_stagings s) p = None) \<and>
     ch_working c = path_state initial (ss_finalizePath s) \<and> confined initial (ss_finalizePath s)"

lemma mentions_appendStaging [simp]: "mentions p (appendStaging q g s) = mentions p s"
  by (simp add: mentions_def appendStaging_def)

lemma finalize_turn_inv:
  assumes "finalize_turn initial entry at c s = Proceed c' s'" and "finalize_inv initial D c s" and "fst entry \<notin> D"
  shows "finalize_inv initial (insert (fst entry) D) c' s'"
  using assms(1)
proof (cases rule: finalize_turn_cases)
  case (skip b)
  then show ?thesis using assms(2) by (auto simp: finalize_inv_def failures_def)
next
  case (failed msg role b s1)
  let ?s0 = "appendStaging (fst entry) (at_outputs at) s"
  have g: "grown (fst entry) ?s0 s1" using run_turn_grown [OF failed(1)] .
  have nm: "\<not> mentions (fst entry) ?s0" and ns: "map_of (ss_stagings s) (fst entry) = None"
    using assms(2,3) by (auto simp: finalize_inv_def)
  have s': "s' = restoreFinalizePath (ss_finalizePath s) (removeFromPlugin (fst entry) s1)"
    and na: "\<not> abortsChainOnFailure ''beforeFinalize'' (fst entry) role"
    and au: "ch_audit c' = ch_audit c @ [ChainPluginError (fst entry) role msg]"
    and w: "ch_working c' = (ch_working c) \<lparr> bf_filePath := (case ss_finalizePath s of None \<Rightarrow> bf_filePath initial | Some p \<Rightarrow> p),
        bf_targetFilePath := (case ss_finalizePath s of None \<Rightarrow> bf_targetFilePath initial | Some p \<Rightarrow> p) \<rparr>"
    using failed(2) by (auto simp: finalize_failed_def Let_def split: if_splits)
  have m: "mentions q s' \<longleftrightarrow> mentions q s" for q
    using removed_restores [OF g nm] s' by (simp add: mentions_def restoreFinalizePath_def appendStaging_def)
  have st: "map_of (ss_stagings s') q = map_of (ss_stagings s) q" for q
    using g ns s' by (auto simp: grown_def restoreFinalizePath_def removeFromPlugin_def appendStaging_def)
  have p: "ss_finalizePath s' = ss_finalizePath s" using s' by (simp add: restoreFinalizePath_def)
  have "ch_working c' = path_state initial (ss_finalizePath s)"
    using w assms(2) by (simp add: finalize_inv_def path_state_def split: option.split)
  moreover have "failures c' = insert (fst entry, role) (failures c)" using au by (auto simp: failures_def)
  moreover have "\<not> mentions (fst entry) s" using nm by simp
  ultimately show ?thesis
    using assms(2) na ns m st p unfolding finalize_inv_def by auto
next
  case (ok role b' s1)
  let ?s0 = "appendStaging (fst entry) (at_outputs at) s"
  have g: "grown (fst entry) ?s0 s1" using run_turn_grown [OF ok(1)] .
  have s': "s' = s1" and w: "ch_working c' = (case ss_finalizePath s1 of None \<Rightarrow> ch_working c
          | Some p \<Rightarrow> (ch_working c) \<lparr> bf_filePath := p, bf_targetFilePath := p \<rparr>)" and au: "ch_audit c' = ch_audit c"
    using ok(2) by simp_all
  have m: "mentions q s' \<Longrightarrow> q = fst entry \<or> mentions q s" for q
    using grown_mentions [OF g] s' by simp
  have st: "map_of (ss_stagings s') q = (if q = fst entry then Some (at_outputs at) else map_of (ss_stagings s) q)" for q
    using g s' by (simp add: grown_def appendStaging_def)
  have pt: "ss_finalizePath s' = ss_finalizePath s \<or> (\<exists>f t. resolveFinalizeTarget (bf_saveDir initial) f = Inr t \<and> ss_finalizePath s' = Some t)"
    using run_turn_path [OF ok(1)] s' by (simp add: appendStaging_def)
  have "ch_working c' = path_state initial (ss_finalizePath s')"
    using w s' pt assms(2) by (auto simp: finalize_inv_def path_state_def split: option.splits)
  moreover have "confined initial (ss_finalizePath s')" using pt assms(2) by (auto simp: finalize_inv_def confined_def)
  moreover have "failures c' = failures c" using au by (simp add: failures_def)
  moreover have "(p, r) \<in> failures c \<Longrightarrow> p \<noteq> fst entry" for p r using assms(2,3) by (auto simp: finalize_inv_def)
  ultimately show ?thesis
    using assms(2) unfolding finalize_inv_def by (auto simp: st dest!: m split: if_splits)
qed

lemma finalize_loop_inv:
  assumes "finalize_loop initial chain c s = Proceed c' s'" and "finalize_inv initial D c s"
    and "distinct (map (fst \<circ> fst) chain)" and "set (map (fst \<circ> fst) chain) \<inter> D = {}"
  shows "finalize_inv initial (set (map (fst \<circ> fst) chain) \<union> D) c' s'"
  using assms
proof (induction chain arbitrary: c s D)
  case (Cons e rest)
  obtain entry at where e: "e = (entry, at)" by (cases e)
  obtain c1 s1 where t: "finalize_turn initial entry at c s = Proceed c1 s1" "finalize_loop initial rest c1 s1 = Proceed c' s'"
    using Cons.prems(1) e by (auto split: turn.splits)
  have "finalize_inv initial (insert (fst entry) D) c1 s1"
    using finalize_turn_inv [OF t(1) Cons.prems(2)] Cons.prems(4) e by simp
  then have "finalize_inv initial (set (map (fst \<circ> fst) rest) \<union> insert (fst entry) D) c' s'"
    by (rule Cons.IH [OF t(2)]) (use Cons.prems(3,4) e in auto)
  then show ?case using e by simp
qed simp

text \<open>
  The reference for the target: what a plugin asks for are its patches that name a file the save directory admits, and
  it counts when the log holds neither a failure nor a skip of that plugin. The last of all that counts wins.
\<close>

definition set_targets :: "string \<Rightarrow> 'v attempt \<Rightarrow> string list" where
  "set_targets saveDir at =
     List.map_filter (\<lambda>patch. case patch of
         HttpPatch _ \<Rightarrow> None
       | FinalizePatch f \<Rightarrow> (case resolveFinalizeTarget saveDir f of Inl _ \<Rightarrow> None | Inr t \<Rightarrow> Some t))
       (he_contextPatches (at_effects at))"

definition ran_well :: "'w chain_env \<Rightarrow> string \<Rightarrow> bool" where
  "ran_well c p \<longleftrightarrow> (\<forall>r. (p, r) \<notin> failures c) \<and> ChainSkip p \<notin> set (ch_audit c)"

definition accepted_targets :: "before_finalize \<Rightarrow> ((string \<times> role_band) \<times> 'v attempt) list \<Rightarrow> 'w chain_env \<Rightarrow> string list" where
  "accepted_targets initial chain c =
     concat (map (\<lambda>((p, _), at). if ran_well c p then set_targets (bf_saveDir initial) at else []) chain)"

definition last_or :: "'a option \<Rightarrow> 'a list \<Rightarrow> 'a option" where
  "last_or d ts = (if ts = [] then d else Some (last ts))"

lemma last_or_append [simp]: "last_or (last_or d xs) ys = last_or d (xs @ ys)"
  by (simp add: last_or_def)

lemma collect_finalize:
  "collect_results (validateFinalizePatch d role) patches = Inr ps \<Longrightarrow>
   ps = List.map_filter (\<lambda>patch. case patch of
       HttpPatch _ \<Rightarrow> None | FinalizePatch f \<Rightarrow> (case resolveFinalizeTarget d f of Inl _ \<Rightarrow> None | Inr t \<Rightarrow> Some t)) patches"
proof (induction patches arbitrary: ps)
  case (Cons x xs)
  obtain t ts where "validateFinalizePatch d role x = Inr t" "collect_results (validateFinalizePatch d role) xs = Inr ts" "ps = t # ts"
    using Cons.prems by (auto split: sum.splits)
  then show ?case using Cons.IH validateFinalizePatch_Inr [of d role x t] by (auto simp: List.map_filter_simps)
qed (simp add: List.map_filter_simps)

lemma run_turn_targets:
  assumes "run_turn BeforeFinalize hook entry d at s = (None, role, s')"
  shows "ss_finalizePath s' = last_or (ss_finalizePath s) (set_targets d at)"
proof -
  obtain r s1 where act: "activateForHook hook (at_activation at) (snd entry) = Inr r" "bind_check (fst entry) (at_policy at) s = Inr s1"
    and inv: "invokeHook BeforeFinalize (fst entry) r d at s1 = (None, s')"
    using assms by (auto simp: run_turn_def split: sum.splits option.splits prod.splits)
  let ?b = "(at_bridge at) \<lparr> br_pluginId := fst entry, br_role := r, br_saveDir := d \<rparr>"
  have app: "applyHookEffects ?b BeforeFinalize (at_effects at) s1 = Inr s'"
    using inv by (auto simp: invokeHook_def split: option.splits sum.splits)
  obtain ps where ps: "collect_results (validateFinalizePatch d r) (he_contextPatches (at_effects at)) = Inr ps"
      "ss_finalizePath s' = last_or (ss_finalizePath s1) ps"
    using app by (auto simp: applyHookEffects_def last_or_def split: if_splits sum.splits)
  then show ?thesis using collect_finalize [OF ps(1)] grown_bind [OF act(2)] by (simp add: set_targets_def)
qed

lemma finalize_turn_targets:
  assumes "finalize_turn initial entry at c s = Proceed c' s'" and "ran_well c (fst entry)"
  shows "ss_finalizePath s' =
      last_or (ss_finalizePath s) (if ran_well c' (fst entry) then set_targets (bf_saveDir initial) at else []) \<and>
    (\<forall>q. q \<noteq> fst entry \<longrightarrow> ran_well c' q = ran_well c q)"
  using assms(1)
proof (cases rule: finalize_turn_cases)
  case (skip b)
  then show ?thesis by (auto simp: ran_well_def failures_def last_or_def)
next
  case (failed msg role b s1)
  have "ch_audit c' = ch_audit c @ [ChainPluginError (fst entry) role msg]" "ss_finalizePath s' = ss_finalizePath s"
    using failed(2) by (auto simp: finalize_failed_def Let_def restoreFinalizePath_def split: if_splits)
  then show ?thesis by (auto simp: ran_well_def failures_def last_or_def)
next
  case (ok role b' s1)
  then have "ran_well c' q = ran_well c q" for q by (simp add: ran_well_def failures_def)
  then show ?thesis using run_turn_targets [OF ok(1)] ok(2) assms(2) by (simp add: appendStaging_def)
qed

lemma finalize_loop_targets:
  assumes "finalize_loop initial chain c s = Proceed c' s'" and "distinct (map (fst \<circ> fst) chain)"
    and "\<forall>p\<in>set (map (fst \<circ> fst) chain). ran_well c p"
  shows "ss_finalizePath s' = last_or (ss_finalizePath s) (accepted_targets initial chain c') \<and>
    (\<forall>q. q \<notin> set (map (fst \<circ> fst) chain) \<longrightarrow> ran_well c' q = ran_well c q)"
  using assms
proof (induction chain arbitrary: c s)
  case Nil
  then show ?case by (simp add: accepted_targets_def last_or_def)
next
  case (Cons e rest)
  obtain p r at where e: "e = ((p, r), at)" by (metis prod.collapse)
  obtain c1 s1 where t: "finalize_turn initial (p, r) at c s = Proceed c1 s1" "finalize_loop initial rest c1 s1 = Proceed c' s'"
    using Cons.prems(1) e by (auto split: turn.splits)
  have turn: "ss_finalizePath s1 = last_or (ss_finalizePath s) (if ran_well c1 p then set_targets (bf_saveDir initial) at else [])"
      "\<forall>q. q \<noteq> p \<longrightarrow> ran_well c1 q = ran_well c q"
    using finalize_turn_targets [OF t(1)] Cons.prems(3) e by simp_all
  have p: "p \<notin> set (map (fst \<circ> fst) rest)" using Cons.prems(2) e by simp
  have "\<forall>q\<in>set (map (fst \<circ> fst) rest). ran_well c1 q"
  proof
    fix q assume q: "q \<in> set (map (fst \<circ> fst) rest)"
    then have "q \<noteq> p" using p by blast
    then show "ran_well c1 q" using turn(2) Cons.prems(3) q by auto
  qed
  from Cons.IH [OF t(2) _ this] have rest:
      "ss_finalizePath s' = last_or (ss_finalizePath s1) (accepted_targets initial rest c')"
      "\<forall>q. q \<notin> set (map (fst \<circ> fst) rest) \<longrightarrow> ran_well c' q = ran_well c1 q"
    using Cons.prems(2) by simp_all
  then have "ran_well c' p = ran_well c1 p" using p by blast
  then have "ss_finalizePath s' = last_or (ss_finalizePath s) (accepted_targets initial (e # rest) c')"
    using rest(1) turn(1) e by (simp add: accepted_targets_def)
  moreover have "\<forall>q. q \<notin> set (map (fst \<circ> fst) (e # rest)) \<longrightarrow> ran_well c' q = ran_well c q"
    using rest(2) turn(2) e by simp
  ultimately show ?case by blast
qed

text \<open>
  C35: the file ends up where the last plugin that counts wants it, inside the save directory. When the chain before
  finalization ends with a result, the path handed on is the last target set by a plugin that neither failed nor was
  skipped, and the original one when there is none; it was accepted for the save directory; no failure on record is one
  that aborts a chain; and the replacement file, if any, was staged by a plugin of the chain that did not fail.
\<close>
theorem finalize_chain_target:
  assumes "runBeforeFinalize initial chain pol b = (Finalized final path rep s, c)" and "distinct (map (fst \<circ> fst) chain)"
  shows "path = last_or None (accepted_targets initial chain c) \<and> final = path_state initial path \<and> confined initial path \<and>
    (\<forall>(p, r)\<in>failures c. \<not> abortsChainOnFailure ''beforeFinalize'' p r) \<and>
    (\<forall>q f. rep = Some (q, f) \<longrightarrow> path \<noteq> None \<and> q \<in> set (map (fst \<circ> fst) chain) \<and> (\<forall>r. (q, r) \<notin> failures c))"
proof (cases "chain = []")
  case True
  then have "final = initial" "path = None" "rep = None" "c = chain_start initial b" using assms(1) by (auto simp: runBeforeFinalize_def)
  then show ?thesis using True by (simp add: path_state_def confined_def failures_def chain_start_def accepted_targets_def last_or_def)
next
  case False
  obtain c1 s1 where l: "finalize_loop initial chain (chain_start initial b) ss_new = Proceed c1 s1"
    "c = log_event ChainCommit c1" "path = ss_finalizePath s1" "final = ch_working c1"
    "rep = (case replacements (bf_saveDir initial) path (ss_stagings s1) of [] \<Rightarrow> None | r # _ \<Rightarrow> Some r)"
    using assms(1) False
    by (auto simp: runBeforeFinalize_def Let_def takeAllStagings_def split: turn.splits sum.splits if_splits)
  have "finalize_inv initial {} (chain_start initial b) ss_new"
    by (simp add: finalize_inv_def mentions_def ss_new_def failures_def chain_start_def path_state_def confined_def)
  from finalize_loop_inv [OF l(1) this assms(2)]
  have i: "finalize_inv initial (set (map (fst \<circ> fst) chain)) c1 s1" by simp
  have f: "failures c = failures c1" using l(2) by (simp add: failures_def)
  have "ran_well (chain_start initial b) p" for p by (simp add: ran_well_def failures_def chain_start_def)
  then have "ss_finalizePath s1 = last_or (ss_finalizePath (ss_new :: 'a chain_store)) (accepted_targets initial chain c1)"
    using finalize_loop_targets [OF l(1) assms(2)] by blast
  moreover have "accepted_targets initial chain c1 = accepted_targets initial chain c"
    using f l(2) by (simp add: accepted_targets_def ran_well_def)
  ultimately have target: "path = last_or None (accepted_targets initial chain c)" using l(3) by (simp add: ss_new_def)
  have "path \<noteq> None \<and> map_of (ss_stagings s1) q \<noteq> None" if "rep = Some (q, fl)" for q fl
  proof -
    have "(q, fl) \<in> set (replacements (bf_saveDir initial) path (ss_stagings s1))"
      using that l(5) by (cases "replacements (bf_saveDir initial) path (ss_stagings s1)") auto
    then show ?thesis
      by (auto simp: replacements_def List.map_filter_def truthy_str_def map_of_eq_None_iff image_iff Bex_def split: if_splits option.splits prod.splits)
  qed
  then show ?thesis using target i l f unfolding finalize_inv_def by fastforce
qed

section \<open>Witnesses\<close>

definition ex_attempt :: "string option \<Rightarrow> ctx_patch list \<Rightarrow> string attempt" where
  "ex_attempt err patches =
     \<lparr> at_openNow = 0, at_activation = NoDispatcher, at_policy = None, at_snapshotError = None, at_bridge = ex_bridge,
       at_hookError = err, at_effects = \<lparr> he_contextPatches = patches, he_metadataOperations = [] \<rparr>,
       at_lateError = None, at_outputs = [], at_restricted = False, at_failNow = 0 \<rparr>"

definition ex_initial :: before_create where
  "ex_initial = http_input.extend ex_input \<lparr> bc_sourceUrl = ''http://a/'', bc_saveDir = ''/dl'' \<rparr>"

definition ex_create_chain :: "string option \<Rightarrow> ((string \<times> role_band) \<times> string attempt) list" where
  "ex_create_chain err =
     [((''a.b'', Resolve), ex_attempt err [HttpPatch (ex_patch \<lparr> hp_uris := Some [''http://b/''] \<rparr>)]),
      ((''c.d'', Enrich), ex_attempt (Some ''boom'') [])]"

definition ex_run :: "string option \<Rightarrow> string create_result \<times> before_create chain_env" where
  "ex_run err = runBeforeCreateHttp Some ex_initial (ex_create_chain err) ex_policy (cb_new None None)"

fun created_uris :: "'v create_result \<Rightarrow> string list option" where
  "created_uris (Created final hs s) = Some (ui_uris final)"
| "created_uris r = None"

fun abort_reason :: "'v create_result \<Rightarrow> string option" where
  "abort_reason (CreateAborted r) = Some r"
| "abort_reason r = None"

lemma ex_run_values:
  "created_uris (fst (ex_run None)) = Some [''http://b/'']" "abort_reason (fst (ex_run (Some ''down''))) = Some ''a.b: down''"
  "failures (snd (ex_run None)) = {(''c.d'', Enrich)}"
proof -
  show "created_uris (fst (ex_run None)) = Some [''http://b/'']" "abort_reason (fst (ex_run (Some ''down''))) = Some ''a.b: down''"
    by code_simp+
  have "ch_audit (snd (ex_run None)) = [ChainPluginError ''c.d'' Enrich ''boom'', ChainCommit]"
    by code_simp
  then show "failures (snd (ex_run None)) = {(''c.d'', Enrich)}" by (auto simp: failures_def)
qed

lemma ex_chain_distinct: "distinct (map (fst \<circ> fst) (ex_create_chain err))"
  by (simp add: ex_create_chain_def)

theorem create_chain_fail_mode_witness:
  "\<exists>p r msg. (p, r) \<in> failures (snd (ex_run (Some ''down''))) \<and> isMostCritical r \<and> ''a.b: down'' = p @ '': '' @ msg"
proof -
  obtain res c where run: "ex_run (Some ''down'') = (res, c)" by fastforce
  have "res = CreateAborted ''a.b: down''" using ex_run_values(2) run by (cases res) simp_all
  then show ?thesis
    using create_chain_fail_mode [of Some ex_initial "ex_create_chain (Some ''down'')" ex_policy "cb_new None None" res c]
      run ex_chain_distinct by (simp add: ex_run_def)
qed

theorem create_chain_isolates_witness:
  "\<exists>final hs s c. ex_run None = (Created final hs s, c) \<and> ui_uris final = [''http://b/''] \<and>
     final = mergeBeforeCreateWorking ex_initial s \<and> \<not> mentions ''c.d'' s"
proof -
  obtain res c where run: "ex_run None = (res, c)" by fastforce
  obtain final hs s where r: "res = Created final hs s" "ui_uris final = [''http://b/'']"
    using ex_run_values(1) run by (cases res) auto
  have "(''c.d'', Enrich) \<in> failures c" using ex_run_values(3) run by simp
  then show ?thesis
    using create_chain_isolates [of Some ex_initial "ex_create_chain None" ex_policy "cb_new None None" final hs s c]
      run r ex_chain_distinct [of None] by (auto simp: ex_run_def)
qed

definition ex_finalize :: before_finalize where
  "ex_finalize = \<lparr> bf_saveDir = ''/dl'', bf_filePath = ''/dl/old'', bf_targetFilePath = ''/dl/old'' \<rparr>"

definition ex_finalize_chain :: "((string \<times> role_band) \<times> string attempt) list" where
  "ex_finalize_chain =
     [((''a.b'', Resolve), ex_attempt None [FinalizePatch ''new''] \<lparr> at_outputs := [(''/dl/new'', ''/st/new'')] \<rparr>),
      ((''c.d'', Enrich), ex_attempt None [FinalizePatch ''../x''])]"

definition ex_finalize_run :: "string finalize_result \<times> before_finalize chain_env" where
  "ex_finalize_run = runBeforeFinalize ex_finalize ex_finalize_chain ex_policy (cb_new None None)"

fun finalized_as :: "'v finalize_result \<Rightarrow> (string option \<times> (string \<times> string) option) option" where
  "finalized_as (Finalized final path rep s) = Some (path, rep)"
| "finalized_as r = None"

lemma ex_finalize_value: "finalized_as (fst ex_finalize_run) = Some (Some ''/dl/new'', Some (''a.b'', ''/st/new''))"
  by code_simp

theorem finalize_chain_target_witness:
  "\<exists>s c. ex_finalize_run = (Finalized (path_state ex_finalize (Some ''/dl/new'')) (Some ''/dl/new'') (Some (''a.b'', ''/st/new'')) s, c) \<and>
     confined ex_finalize (Some ''/dl/new'')"
proof -
  obtain res c where run: "ex_finalize_run = (res, c)" by fastforce
  have "finalized_as res = Some (Some ''/dl/new'', Some (''a.b'', ''/st/new''))"
    using ex_finalize_value unfolding run by simp
  then obtain final s where r: "res = Finalized final (Some ''/dl/new'') (Some (''a.b'', ''/st/new'')) s"
    by (cases res) auto
  have "distinct (map (fst \<circ> fst) ex_finalize_chain)" by (simp add: ex_finalize_chain_def)
  then show ?thesis
    using finalize_chain_target [of ex_finalize ex_finalize_chain ex_policy "cb_new None None" final "Some ''/dl/new''"
        "Some (''a.b'', ''/st/new'')" s c] run r by (auto simp: ex_finalize_run_def)
qed

end
