(* ===== verification/Call_Guards.thy ===== *)
theory Call_Guards
  imports Sliding_Window Circuit_Breaker "HOL-Library.Multiset"
begin

text \<open>
  The safeguards of cross-plugin command calls that hold state of their own: the depth counter
  of a call chain (\<open>ChainDepth\<close>), the rate limit of a pair of plugins (\<open>RateLimiter\<close>) and the
  compiled schemas of the public commands (\<open>SchemaCache\<close>). The throttle of misbehaving callers
  is in \<open>Circuit_Breaker\<close>.
\<close>

section \<open>The bag of open calls\<close>

text \<open>A run of entries (\<open>Inl\<close>) and exits (\<open>Inr\<close>), and what it does to a bag.\<close>

fun run_calls :: "('t \<Rightarrow> 's \<Rightarrow> int \<times> 's) \<Rightarrow> ('t \<Rightarrow> 's \<Rightarrow> 's) \<Rightarrow> ('t + 't) list \<Rightarrow> 's \<Rightarrow> 's" where
  "run_calls enter leave [] s = s"
| "run_calls enter leave (Inl t # es) s = run_calls enter leave es (snd (enter t s))"
| "run_calls enter leave (Inr t # es) s = run_calls enter leave es (leave t s)"

fun bag_run :: "('t + 't) list \<Rightarrow> 't multiset \<Rightarrow> 't multiset" where
  "bag_run [] b = b"
| "bag_run (Inl t # es) b = bag_run es (add_mset t b)"
| "bag_run (Inr t # es) b = bag_run es (b - {#t#})"

text \<open>
  What the invoker relies on: entering and leaving a task act on a bag of task names, and the
  counter reads the multiplicity of a name.
\<close>

locale open_calls =
  fixes enter :: "'t \<Rightarrow> 's \<Rightarrow> int \<times> 's"
    and leave :: "'t \<Rightarrow> 's \<Rightarrow> 's"
    and count_of :: "'t \<Rightarrow> 's \<Rightarrow> int"
    and bag :: "'s \<Rightarrow> 't multiset"
    and ok :: "'s \<Rightarrow> bool"
  assumes ok_enter: "ok s \<Longrightarrow> ok (snd (enter t s))"
    and ok_leave: "ok s \<Longrightarrow> ok (leave t s)"
    and bag_enter: "ok s \<Longrightarrow> bag (snd (enter t s)) = add_mset t (bag s)"
    and bag_leave: "ok s \<Longrightarrow> bag (leave t s) = bag s - {#t#}"
    and depth_enter: "ok s \<Longrightarrow> fst (enter t s) = int (count (bag s) t) + 1"
    and count_of_bag: "ok s \<Longrightarrow> count_of t s = int (count (bag s) t)"
begin

lemma leave_enter: "ok s \<Longrightarrow> bag (leave t (snd (enter t s))) = bag s"
  by (simp add: ok_enter bag_leave bag_enter)

lemma enter_depth_count: "ok s \<Longrightarrow> fst (enter t s) = count_of t (snd (enter t s))"
  by (simp add: depth_enter count_of_bag ok_enter bag_enter)

lemma run_refines: "ok s \<Longrightarrow> ok (run_calls enter leave es s) \<and> bag (run_calls enter leave es s) = bag_run es (bag s)"
proof (induction es arbitrary: s)
  case (Cons e es)
  then show ?case by (cases e) (simp_all add: ok_enter ok_leave bag_enter bag_leave)
qed simp

end

section \<open>ChainDepth\<close>

record chain_depth =
  cd_max :: int
  cd_depths :: "(string, int) jmap"

definition cd_new :: "int option \<Rightarrow> chain_depth" where
  "cd_new limit = \<lparr> cd_max = (case limit of None \<Rightarrow> 8 | Some m \<Rightarrow> m), cd_depths = [] \<rparr>"

definition cd_enter :: "string \<Rightarrow> chain_depth \<Rightarrow> int \<times> chain_depth" where
  "cd_enter taskId s =
     (let nxt = jget_or 0 (cd_depths s) taskId + 1
      in (nxt, s \<lparr> cd_depths := jset (cd_depths s) taskId nxt \<rparr>))"

definition cd_exit :: "string \<Rightarrow> chain_depth \<Rightarrow> chain_depth" where
  "cd_exit taskId s =
     (case map_of (cd_depths s) taskId of
        None \<Rightarrow> s
      | Some current \<Rightarrow>
          if current \<le> 1 then s \<lparr> cd_depths := jdel (cd_depths s) taskId \<rparr>
          else s \<lparr> cd_depths := jset (cd_depths s) taskId (current - 1) \<rparr>)"

definition cd_current :: "string \<Rightarrow> chain_depth \<Rightarrow> int" where
  "cd_current taskId s = jget_or 0 (cd_depths s) taskId"

text \<open>The bag a table of counters stands for, and its invariant: no counter is zero or negative.\<close>

definition cd_ok :: "chain_depth \<Rightarrow> bool" where
  "cd_ok s \<longleftrightarrow> jwf (cd_depths s) \<and> jall (\<lambda>n. 1 \<le> n) (cd_depths s)"

definition cd_bag :: "chain_depth \<Rightarrow> string multiset" where
  "cd_bag s = sum_list (map (\<lambda>(t, n). replicate_mset (nat n) t) (cd_depths s))"

lemma count_sum_absent:
  "t \<notin> fst ` set m \<Longrightarrow> count (sum_list (map (\<lambda>(t, n). replicate_mset (nat n) t) m)) t = 0"
  by (induction m) auto

lemma count_cd_bag: "jwf (cd_depths s) \<Longrightarrow> count (cd_bag s) t = nat (jget_or 0 (cd_depths s) t)"
  unfolding cd_bag_def
proof (induction "cd_depths s" arbitrary: s)
  case (Cons e m)
  have "jwf (cd_depths (s \<lparr> cd_depths := m \<rparr>))" using Cons.prems by (simp add: jwf_def flip: Cons.hyps(2))
  from Cons.hyps(1) [OF _ this] have "count (sum_list (map (\<lambda>(t, n). replicate_mset (nat n) t) m)) t = nat (jget_or 0 m t)"
    by simp
  moreover have "fst e \<notin> fst ` set m" using Cons.prems by (simp add: jwf_def flip: Cons.hyps(2))
  ultimately show ?case
    using count_sum_absent [of t m]
    by (cases e) (auto simp: jget_or_def simp flip: Cons.hyps(2) split: option.splits)
qed (simp add: jget_or_def)

lemma cd_value: "cd_ok s \<Longrightarrow> int (count (cd_bag s) t) = jget_or 0 (cd_depths s) t"
  by (cases "map_of (cd_depths s) t") (auto simp: cd_ok_def count_cd_bag jget_or_def dest: jall_get)

interpretation cd: open_calls cd_enter cd_exit cd_current cd_bag cd_ok
proof
  fix s :: chain_depth and t :: string
  assume ok: "cd_ok s"
  have nn: "0 \<le> jget_or 0 (cd_depths s) t" using cd_value [OF ok, of t] by linarith
  show e: "cd_ok (snd (cd_enter t s))"
    using ok nn by (auto simp: cd_ok_def cd_enter_def Let_def intro: jall_jset)
  show l: "cd_ok (cd_exit t s)"
    using ok by (auto simp: cd_ok_def cd_exit_def jdel_def intro: jall_jset jall_filter split: option.split)
  show "cd_bag (snd (cd_enter t s)) = add_mset t (cd_bag s)"
    by (rule multiset_eqI) (use ok e nn in \<open>auto simp: cd_ok_def count_cd_bag\<close>,
        simp_all add: cd_enter_def Let_def nat_add_distrib)
  show "cd_bag (cd_exit t s) = cd_bag s - {#t#}"
  proof (rule multiset_eqI)
    fix u
    show "count (cd_bag (cd_exit t s)) u = count (cd_bag s - {#t#}) u"
      using ok l by (auto simp: cd_ok_def count_cd_bag cd_exit_def jget_or_def split: option.splits)
  qed
  show "fst (cd_enter t s) = int (count (cd_bag s) t) + 1"
    using cd_value [OF ok, of t] by (simp add: cd_enter_def Let_def)
  show "cd_current t s = int (count (cd_bag s) t)"
    using cd_value [OF ok, of t] by (simp add: cd_current_def)
qed

lemma cd_max [simp]: "cd_max (snd (cd_enter t s)) = cd_max s" "cd_max (cd_exit t s) = cd_max s"
  by (simp_all add: cd_enter_def cd_exit_def Let_def split: option.split)

lemma cd_new_ok [simp]: "cd_ok (cd_new m)" "cd_bag (cd_new m) = {#}" 
  by (simp_all add: cd_ok_def cd_new_def cd_bag_def)


section \<open>RateLimiter\<close>

record rate_limiter =
  rt_limit :: int
  rt_windowMs :: int
  rt_windows :: "(string, int list) jmap"

definition rt_new :: "int \<Rightarrow> int \<Rightarrow> rate_limiter" where
  "rt_new limit window = \<lparr> rt_limit = limit, rt_windowMs = window, rt_windows = [] \<rparr>"

definition rt_key :: "string \<Rightarrow> string \<Rightarrow> string" where
  "rt_key caller callee = caller @ ''->'' @ callee"

definition rt_consume :: "int \<Rightarrow> string \<Rightarrow> string \<Rightarrow> rate_limiter \<Rightarrow> bool \<times> rate_limiter" where
  "rt_consume now caller callee s =
     (let key = rt_key caller callee;
          cutoff = now - rt_windowMs s;
          fresh = (case map_of (rt_windows s) key of None \<Rightarrow> [] | Some ts \<Rightarrow> filter (\<lambda>x. x > cutoff) ts)
      in if int (length fresh) \<ge> rt_limit s
         then (False, s \<lparr> rt_windows := jset (rt_windows s) key fresh \<rparr>)
         else (True, s \<lparr> rt_windows := jset (rt_windows s) key (fresh @ [now]) \<rparr>))"

text \<open>One event is a call of \<open>consume\<close>; the limiter of one key is a sliding window.\<close>

fun rt_step :: "int \<times> string \<times> string \<Rightarrow> rate_limiter \<Rightarrow> rate_limiter" where
  "rt_step (now, caller, callee) s = snd (rt_consume now caller callee s)"

fun rt_accepts :: "string \<Rightarrow> int \<times> string \<times> string \<Rightarrow> rate_limiter \<Rightarrow> bool" where
  "rt_accepts key (now, caller, callee) s \<longleftrightarrow> rt_key caller callee = key \<and> fst (rt_consume now caller callee s)"

definition rt_log :: "string \<Rightarrow> rate_limiter \<Rightarrow> int list" where
  "rt_log key s = jget_or [] (rt_windows s) key"

lemma rt_config [simp]:
  "rt_limit (snd (rt_consume now c d s)) = rt_limit s" "rt_windowMs (snd (rt_consume now c d s)) = rt_windowMs s"
  by (simp_all add: rt_consume_def Let_def)

lemma rt_log_consume:
  "rt_log key (snd (rt_consume now c d s)) =
     (if key = rt_key c d
      then recent (now - rt_windowMs s) (rt_log key s) @ (if fst (rt_consume now c d s) then [now] else [])
      else rt_log key s)"
  by (simp add: rt_log_def rt_consume_def Let_def jget_or_def recent_def split: option.split)

lemma rt_accept_iff:
  "fst (rt_consume now c d s) \<longleftrightarrow> int (length (recent (now - rt_windowMs s) (rt_log (rt_key c d) s))) < rt_limit s"
  by (simp add: rt_log_def rt_consume_def Let_def jget_or_def recent_def not_le split: option.split)

interpretation rt: sliding_window rt_step "rt_accepts key" fst "rt_log key"
    "\<lambda>t s. rt_limit s = limit \<and> rt_windowMs s = width" limit width
  by unfold_locales (auto simp: rt_log_consume rt_accept_iff recent_recent)

text \<open>Pairs of plugins whose ids have no \<open>-\<close> and \<open>>\<close> do not share a window.\<close>

lemma rt_key_inj:
  assumes "rt_key a b = rt_key c d" and "CHR ''>'' \<notin> set a" and "CHR ''>'' \<notin> set c"
  shows "a = c \<and> b = d"
proof -
  have t: "takeWhile (\<lambda>x. x \<noteq> CHR ''>'') (rt_key x y) = x @ ''-''" if "CHR ''>'' \<notin> set x" for x y
    using that by (induction x) (auto simp: rt_key_def)
  have "a @ ''-'' = c @ ''-''" using t [OF assms(2), of b] t [OF assms(3), of d] assms(1) by simp
  then have "a = c" by simp
  then show ?thesis using assms(1) by (simp add: rt_key_def)
qed

section \<open>SchemaCache\<close>

text \<open>
  A compiled validator of Ajv answers with no error or with the text of its errors, or throws.
\<close>

datatype ajv_verdict = Valid | Invalid string | Throws string

type_synonym 'v validator = "'v \<Rightarrow> ajv_verdict"

record 'v compiled_pair =
  cp_args :: "'v validator"
  cp_result :: "'v validator"

record 'sch schema_input =
  si_id :: string
  si_argsSchema :: "'sch option"
  si_resultSchema :: "'sch option"
  si_public :: "bool option"
  si_operation :: bool

record 'v schema_cache =
  sc_operationProfile :: bool
  sc_byPlugin :: "(string, (string, 'v compiled_pair) jmap) jmap"

definition sc_new :: "bool \<Rightarrow> 'v schema_cache" where
  "sc_new profile = \<lparr> sc_operationProfile = profile, sc_byPlugin = [] \<rparr>"

text \<open>Which commands are compiled; \<open>compile\<close> is \<open>Ajv.compile\<close>, with its error message.\<close>

definition sc_skips :: "bool \<Rightarrow> 'sch schema_input \<Rightarrow> bool" where
  "sc_skips operationProfile cmd \<longleftrightarrow>
     (if operationProfile then \<not> si_operation cmd \<or> si_public cmd = Some True
      else si_public cmd \<noteq> Some True \<or> si_operation cmd) \<or>
     si_argsSchema cmd = None \<or> si_resultSchema cmd = None"

fun sc_compile ::
  "('sch \<Rightarrow> (string, 'v validator) result) \<Rightarrow> bool \<Rightarrow> 'sch schema_input list \<Rightarrow> (string, 'v compiled_pair) jmap \<Rightarrow>
   (string \<times> string, (string, 'v compiled_pair) jmap) result"
where
  "sc_compile compile profile [] compiled = Inr compiled"
| "sc_compile compile profile (cmd # cmds) compiled =
     (if sc_skips profile cmd then sc_compile compile profile cmds compiled
      else case compile (the (si_argsSchema cmd)) of
             Inl cause \<Rightarrow> Inl (si_id cmd, cause)
           | Inr args \<Rightarrow>
             (case compile (the (si_resultSchema cmd)) of
                Inl cause \<Rightarrow> Inl (si_id cmd, cause)
              | Inr res \<Rightarrow>
                  sc_compile compile profile cmds
                    (jset compiled (si_id cmd) \<lparr> cp_args = args, cp_result = res \<rparr>)))"

definition sc_install ::
  "('sch \<Rightarrow> (string, 'v validator) result) \<Rightarrow> string \<Rightarrow> 'sch schema_input list \<Rightarrow> 'v schema_cache \<Rightarrow>
   (string \<times> string, 'v schema_cache) result"
where
  "sc_install compile pluginId cmds s =
     (case sc_compile compile (sc_operationProfile s) cmds [] of
        Inl e \<Rightarrow> Inl e
      | Inr compiled \<Rightarrow> Inr (s \<lparr> sc_byPlugin := jset (sc_byPlugin s) pluginId compiled \<rparr>))"

definition sc_pair :: "string \<Rightarrow> string \<Rightarrow> 'v schema_cache \<Rightarrow> 'v compiled_pair option" where
  "sc_pair pluginId commandId s = Option.bind (map_of (sc_byPlugin s) pluginId) (\<lambda>m. map_of m commandId)"

definition sc_validateArgs :: "string \<Rightarrow> string \<Rightarrow> 'v \<Rightarrow> 'v schema_cache \<Rightarrow> (string, unit) result" where
  "sc_validateArgs pluginId commandId args s =
     (case sc_pair pluginId commandId s of
        None \<Rightarrow> Inl ''plugin.command.not_public''
      | Some p \<Rightarrow>
        (case cp_args p args of
           Valid \<Rightarrow> Inr ()
         | Invalid errs \<Rightarrow> Inl (''plugin.command.args_invalid: '' @ errs)
         | Throws msg \<Rightarrow> Inl msg))"

definition sc_validateResult :: "string \<Rightarrow> string \<Rightarrow> 'v \<Rightarrow> 'v schema_cache \<Rightarrow> (string, unit) result" where
  "sc_validateResult pluginId commandId res s =
     (case sc_pair pluginId commandId s of
        None \<Rightarrow> Inl ''plugin.command.schema_missing''
      | Some p \<Rightarrow>
        (case cp_result p res of
           Valid \<Rightarrow> Inr ()
         | Invalid errs \<Rightarrow> Inl (''plugin.command.result_invalid: '' @ errs)
         | Throws msg \<Rightarrow> Inl msg))"

definition sc_uninstall :: "string \<Rightarrow> 'v schema_cache \<Rightarrow> 'v schema_cache" where
  "sc_uninstall pluginId s = s \<lparr> sc_byPlugin := jdel (sc_byPlugin s) pluginId \<rparr>"

lemma find_snoc: "find P (xs @ [x]) = (case find P xs of None \<Rightarrow> if P x then Some x else None | Some y \<Rightarrow> Some y)"
  by (induction xs) auto

text \<open>
  What an installation compiles: a command has a pair of validators just when it survives the
  profile's filter, and then the ones of its last listing.
\<close>

lemma sc_compile_get:
  assumes "sc_compile compile profile cmds compiled = Inr m"
  shows "map_of m k =
    (case find (\<lambda>cmd. \<not> sc_skips profile cmd \<and> si_id cmd = k) (rev cmds) of
       None \<Rightarrow> map_of compiled k
     | Some cmd \<Rightarrow> (case (compile (the (si_argsSchema cmd)), compile (the (si_resultSchema cmd))) of
                     (Inr a, Inr r) \<Rightarrow> Some \<lparr> cp_args = a, cp_result = r \<rparr> | _ \<Rightarrow> None))"
  using assms
proof (induction compile profile cmds compiled arbitrary: m rule: sc_compile.induct)
  case (2 compile profile cmd cmds compiled)
  show ?case
  proof (cases "sc_skips profile cmd")
    case True
    with 2 show ?thesis by (auto simp: find_snoc split: option.splits)
  next
    case False
    with "2.prems" obtain a r where ar: "compile (the (si_argsSchema cmd)) = Inr a" "compile (the (si_resultSchema cmd)) = Inr r"
      and rest: "sc_compile compile profile cmds (jset compiled (si_id cmd) \<lparr> cp_args = a, cp_result = r \<rparr>) = Inr m"
      by (auto split: sum.splits)
    show ?thesis
      using "2.IH"(2) [OF False ar rest] ar False by (auto simp: find_snoc split: option.splits)
  qed
qed simp

lemma sc_uninstalled: "sc_pair p c (sc_uninstall p s) = None"
  by (simp add: sc_pair_def sc_uninstall_def)


section \<open>Properties\<close>

text \<open>
  the depth counter is a bag of open calls. Whatever entries and exits ran, in any order and
  with any number of exits too many, the table stands for the bag they leave, and reading a task
  answers its multiplicity there.
\<close>
theorem chain_depth_refines_bag:
  "cd_bag (run_calls cd_enter cd_exit es (cd_new limit)) = bag_run es {#} \<and>
   cd_current t (run_calls cd_enter cd_exit es (cd_new limit)) = int (count (bag_run es {#}) t) \<and>
   fst (cd_enter t (run_calls cd_enter cd_exit es (cd_new limit))) = int (count (bag_run es {#}) t) + 1"
  using cd.run_refines [of "cd_new limit" es] by (simp add: cd.count_of_bag cd.depth_enter)

text \<open>
  rate limit of a pair. In any window of the configured width at most \<open>limit\<close> calls of one
  pair of plugins are admitted, whatever other pairs do in between.
\<close>
theorem pair_rate_bound:
  assumes "sorted (map fst es)" and "0 \<le> limit"
  shows "int (length (filter (\<lambda>x. u - width < x \<and> x \<le> u)
           (hits rt_step (rt_accepts (rt_key caller callee)) fst es (rt_new limit width)))) \<le> limit"
proof (cases es)
  case (Cons e es')
  show ?thesis
    by (rule rt.window_bound [where t = "fst e" and limit = limit and width = width])
      (use assms Cons in \<open>auto simp: rt_new_def rt_log_def jget_or_def\<close>)
qed (use assms in simp)

theorem pair_rate_bound_witness:
  "hits rt_step (rt_accepts ''a->b'') fst [(0, ''a'', ''b''), (1, ''a'', ''c''), (2, ''a'', ''b''), (3, ''a'', ''b'')]
     (rt_new 2 1000) = [0, 2] \<and>
   int (length (filter (\<lambda>x. 3 - 1000 < x \<and> x \<le> 3)
     (hits rt_step (rt_accepts (rt_key ''a'' ''b'')) fst
        [(0, ''a'', ''b''), (1, ''a'', ''c''), (2, ''a'', ''b''), (3, ''a'', ''b'')] (rt_new 2 1000)))) \<le> 2"
proof
  show "hits rt_step (rt_accepts ''a->b'') fst [(0, ''a'', ''b''), (1, ''a'', ''c''), (2, ''a'', ''b''), (3, ''a'', ''b'')]
     (rt_new 2 1000) = [0, 2]"
    by code_simp
qed (rule pair_rate_bound, simp_all)

end
