(* ===== verification/Plugin_Lane.thy ===== *)
theory Plugin_Lane
  imports Prelude
begin

text \<open>
  \<open>PluginLane\<close>: the queue through which every host-initiated entry into one plugin passes. Each call of \<open>run\<close>
  hangs its continuation on the promise that is \<open>this.tail\<close> at that moment and makes the promise of its own result
  the next tail. A promise is named by the number of the call it belongs to; a continuation may run once that promise
  has settled, whichever others are ready. The steps are the calls of the class, the start of a continuation, the end
  of an operation and the timer of \<open>drainWithin\<close>. The lane is compared with a serial queue that knows no promises,
  counters or epochs.
\<close>

section \<open>Data\<close>

record call_chain =
  cc_id :: string
  cc_plugins :: "string list"

text \<open>
  A call of \<open>run\<close> that was admitted: \<open>admittedEpoch\<close>, the chain, the promise it was chained to (\<open>None\<close> is the resolved
  promise the lane begins with), and how far its own promise is.
\<close>

datatype entry_phase = EntryWaiting | EntryRunning | EntrySettled

record lane_entry =
  le_id :: nat
  le_epoch :: nat
  le_chain :: call_chain
  le_after :: "nat option"
  le_phase :: entry_phase

text \<open>What happened to an admitted entry, in the order of the events.\<close>

datatype lane_event = EntryStarted nat | EntryEnded nat | EntryClosed nat | EntryAborted nat

record plugin_lane =
  ln_pluginId :: string
  ln_tail :: "nat option"
  ln_queued :: int
  ln_running :: int
  ln_accepting :: bool
  ln_epoch :: nat
  ln_drainWaiters :: "nat list"
  ln_entries :: "lane_entry list"
  ln_events :: "lane_event list"
  ln_drained :: "(nat \<times> bool) list"

definition lane_new :: "string \<Rightarrow> plugin_lane" where
  "lane_new pluginId =
     \<lparr> ln_pluginId = pluginId, ln_tail = None, ln_queued = 0, ln_running = 0, ln_accepting = True, ln_epoch = 0,
       ln_drainWaiters = [], ln_entries = [], ln_events = [], ln_drained = [] \<rparr>"

definition lane_state :: "plugin_lane \<Rightarrow> bool \<times> int \<times> int" where
  "lane_state s = (ln_accepting s, ln_queued s, ln_running s)"

definition isDrained :: "plugin_lane \<Rightarrow> bool" where
  "isDrained s \<longleftrightarrow> ln_queued s = 0 \<and> ln_running s = 0"

text \<open>A drain promise is settled once: by the lane (\<open>True\<close>) or by the timer (\<open>False\<close>).\<close>

definition settle_once :: "bool \<Rightarrow> nat \<Rightarrow> (nat \<times> bool) list \<Rightarrow> (nat \<times> bool) list" where
  "settle_once b w ds = (if w \<in> fst ` set ds then ds else ds @ [(w, b)])"

definition settle_drain :: "bool \<Rightarrow> nat \<Rightarrow> plugin_lane \<Rightarrow> plugin_lane" where
  "settle_drain b w s = s \<lparr> ln_drained := settle_once b w (ln_drained s) \<rparr>"

definition notifyDrained :: "plugin_lane \<Rightarrow> plugin_lane" where
  "notifyDrained s =
     (if \<not> isDrained s then s
      else s \<lparr> ln_drained := fold (settle_once True) (ln_drainWaiters s) (ln_drained s), ln_drainWaiters := [] \<rparr>)"

section \<open>Operations\<close>

datatype lane_answer = Admitted lane_entry | Rejected string

definition laneClosed :: "string \<Rightarrow> string" where
  "laneClosed pluginId = ''plugin.runtime.admission_closed: '' @ pluginId"

text \<open>\<open>run\<close>: \<open>explicit\<close> is the chain of the options, \<open>ambient\<close> the one of the asynchronous context.\<close>

definition lane_run :: "string \<Rightarrow> call_chain option \<Rightarrow> call_chain option \<Rightarrow> plugin_lane \<Rightarrow> lane_answer \<times> plugin_lane" where
  "lane_run uuid explicit ambient s =
     (if \<not> ln_accepting s then (Rejected (laneClosed (ln_pluginId s)), s)
      else let inherited = (case explicit of Some ch \<Rightarrow> Some ch | None \<Rightarrow> ambient);
               plugins = (case inherited of Some ch \<Rightarrow> cc_plugins ch | None \<Rightarrow> [])
           in if ln_pluginId s \<in> set plugins then (Rejected ''plugin.runtime.reentrant_call'', s)
              else let chain = \<lparr> cc_id = (case inherited of Some ch \<Rightarrow> cc_id ch | None \<Rightarrow> uuid),
                                 cc_plugins = plugins @ [ln_pluginId s] \<rparr>;
                       e = \<lparr> le_id = length (ln_entries s), le_epoch = ln_epoch s, le_chain = chain, le_after = ln_tail s,
                             le_phase = EntryWaiting \<rparr>
                   in (Admitted e, s \<lparr> ln_queued := ln_queued s + 1, ln_entries := ln_entries s @ [e], ln_tail := Some (le_id e) \<rparr>))"

definition set_phase :: "nat \<Rightarrow> entry_phase \<Rightarrow> plugin_lane \<Rightarrow> plugin_lane" where
  "set_phase i ph s = s \<lparr> ln_entries := (ln_entries s)[i := (ln_entries s ! i) \<lparr> le_phase := ph \<rparr>] \<rparr>"

definition lane_log :: "lane_event \<Rightarrow> plugin_lane \<Rightarrow> plugin_lane" where
  "lane_log ev s = s \<lparr> ln_events := ln_events s @ [ev] \<rparr>"

definition promise_settled :: "plugin_lane \<Rightarrow> nat option \<Rightarrow> bool" where
  "promise_settled s p \<longleftrightarrow>
     (case p of None \<Rightarrow> True | Some j \<Rightarrow> j < length (ln_entries s) \<and> le_phase (ln_entries s ! j) = EntrySettled)"

text \<open>The continuation of entry \<open>i\<close>: it runs once, when the promise it hangs on has settled.\<close>

definition lane_start :: "nat \<Rightarrow> bool \<Rightarrow> plugin_lane \<Rightarrow> plugin_lane" where
  "lane_start i aborted s =
     (if i < length (ln_entries s) \<and> le_phase (ln_entries s ! i) = EntryWaiting \<and> promise_settled s (le_after (ln_entries s ! i))
      then let s1 = s \<lparr> ln_queued := ln_queued s - 1 \<rparr>
           in if le_epoch (ln_entries s1 ! i) \<noteq> ln_epoch s1 then lane_log (EntryClosed i) (set_phase i EntrySettled (notifyDrained s1))
              else if aborted then lane_log (EntryAborted i) (set_phase i EntrySettled (notifyDrained s1))
              else lane_log (EntryStarted i) (set_phase i EntryRunning (s1 \<lparr> ln_running := ln_running s1 + 1 \<rparr>))
      else s)"

text \<open>The \<open>finally\<close> block when the operation of entry \<open>i\<close> settles, and with it the result and the tail made of it.\<close>

definition lane_end :: "nat \<Rightarrow> plugin_lane \<Rightarrow> plugin_lane" where
  "lane_end i s =
     (if i < length (ln_entries s) \<and> le_phase (ln_entries s ! i) = EntryRunning
      then lane_log (EntryEnded i) (set_phase i EntrySettled (notifyDrained (s \<lparr> ln_running := ln_running s - 1 \<rparr>)))
      else s)"

definition lane_close :: "plugin_lane \<Rightarrow> plugin_lane" where
  "lane_close s = s \<lparr> ln_accepting := False \<rparr>"

definition lane_reopen :: "plugin_lane \<Rightarrow> plugin_lane" where
  "lane_reopen s = s \<lparr> ln_accepting := True \<rparr>"

definition cancelQueued :: "plugin_lane \<Rightarrow> plugin_lane" where
  "cancelQueued s = s \<lparr> ln_epoch := ln_epoch s + 1 \<rparr>"

text \<open>\<open>drain\<close> and the first part of \<open>drainWithin\<close>; \<open>w\<close> names the promise.\<close>

definition lane_drain :: "nat \<Rightarrow> plugin_lane \<Rightarrow> plugin_lane" where
  "lane_drain w s =
     (if isDrained s then settle_drain True w s
      else s \<lparr> ln_drainWaiters := ln_drainWaiters s @ [w] \<rparr>)"

definition drain_timeout :: "nat \<Rightarrow> plugin_lane \<Rightarrow> plugin_lane" where
  "drain_timeout w s = settle_drain False w s"

datatype lane_step =
    LaneRun string "call_chain option" "call_chain option"
  | LaneStart nat bool | LaneEnd nat | LaneClose | LaneReopen | LaneCancel
  | LaneDrain nat | LaneDrainTimeout nat

fun lane_do :: "lane_step \<Rightarrow> plugin_lane \<Rightarrow> plugin_lane" where
  "lane_do (LaneRun uuid ex am) s = snd (lane_run uuid ex am s)"
| "lane_do (LaneStart i aborted) s = lane_start i aborted s"
| "lane_do (LaneEnd i) s = lane_end i s"
| "lane_do LaneClose s = lane_close s"
| "lane_do LaneReopen s = lane_reopen s"
| "lane_do LaneCancel s = cancelQueued s"
| "lane_do (LaneDrain w) s = lane_drain w s"
| "lane_do (LaneDrainTimeout w) s = drain_timeout w s"

definition lane_steps :: "lane_step list \<Rightarrow> plugin_lane \<Rightarrow> plugin_lane" where
  "lane_steps xs s = foldl (\<lambda>s x. lane_do x s) s xs"

section \<open>The abstract lane\<close>

text \<open>
  What the lane promises: a gate, a queue of numbered entries some of which are cancelled, the one that runs, and the
  log. Nothing leaves the queue but its head while nothing runs; what is cancelled never runs; drains are answered when
  the queue is empty and nothing runs.
\<close>

record abs_lane =
  al_open :: bool
  al_next :: nat
  al_waiting :: "(nat \<times> bool) list"
  al_current :: "nat option"
  al_log :: "lane_event list"
  al_waiters :: "nat list"
  al_answered :: "(nat \<times> bool) list"

definition abs_new :: abs_lane where
  "abs_new = \<lparr> al_open = True, al_next = 0, al_waiting = [], al_current = None, al_log = [], al_waiters = [], al_answered = [] \<rparr>"

definition abs_idle :: "abs_lane \<Rightarrow> bool" where
  "abs_idle a \<longleftrightarrow> al_waiting a = [] \<and> al_current a = None"

definition abs_notify :: "abs_lane \<Rightarrow> abs_lane" where
  "abs_notify a =
     (if abs_idle a then a \<lparr> al_answered := fold (settle_once True) (al_waiters a) (al_answered a), al_waiters := [] \<rparr> else a)"

fun abs_do :: "string \<Rightarrow> lane_step \<Rightarrow> abs_lane \<Rightarrow> abs_lane" where
  "abs_do p (LaneRun uuid ex am) a =
     (if al_open a \<and> p \<notin> set (case ex of Some ch \<Rightarrow> cc_plugins ch | None \<Rightarrow> (case am of Some ch \<Rightarrow> cc_plugins ch | None \<Rightarrow> []))
      then a \<lparr> al_waiting := al_waiting a @ [(al_next a, False)], al_next := al_next a + 1 \<rparr> else a)"
| "abs_do p (LaneStart i aborted) a =
     (case (al_current a, al_waiting a) of
        (None, (n, cancelled) # rest) \<Rightarrow>
          if i \<noteq> n then a
          else if cancelled then abs_notify (a \<lparr> al_waiting := rest, al_log := al_log a @ [EntryClosed n] \<rparr>)
          else if aborted then abs_notify (a \<lparr> al_waiting := rest, al_log := al_log a @ [EntryAborted n] \<rparr>)
          else a \<lparr> al_waiting := rest, al_current := Some n, al_log := al_log a @ [EntryStarted n] \<rparr>
      | _ \<Rightarrow> a)"
| "abs_do p (LaneEnd i) a =
     (if al_current a = Some i then abs_notify (a \<lparr> al_current := None, al_log := al_log a @ [EntryEnded i] \<rparr>) else a)"
| "abs_do p LaneClose a = a \<lparr> al_open := False \<rparr>"
| "abs_do p LaneReopen a = a \<lparr> al_open := True \<rparr>"
| "abs_do p LaneCancel a = a \<lparr> al_waiting := map (\<lambda>(n, _). (n, True)) (al_waiting a) \<rparr>"
| "abs_do p (LaneDrain w) a =
     (if abs_idle a then a \<lparr> al_answered := settle_once True w (al_answered a) \<rparr> else a \<lparr> al_waiters := al_waiters a @ [w] \<rparr>)"
| "abs_do p (LaneDrainTimeout w) a = a \<lparr> al_answered := settle_once False w (al_answered a) \<rparr>"

definition abs_steps :: "string \<Rightarrow> lane_step list \<Rightarrow> abs_lane \<Rightarrow> abs_lane" where
  "abs_steps p xs a = foldl (\<lambda>a x. abs_do p x a) a xs"

text \<open>How a lane is read as a queue: by the phases and epochs of its entries alone.\<close>

abbreviation waiting :: "lane_entry \<Rightarrow> bool" where "waiting e \<equiv> le_phase e = EntryWaiting"
abbreviation in_progress :: "lane_entry \<Rightarrow> bool" where "in_progress e \<equiv> le_phase e = EntryRunning"
abbreviation settled :: "lane_entry \<Rightarrow> bool" where "settled e \<equiv> le_phase e = EntrySettled"

definition abs_of :: "plugin_lane \<Rightarrow> abs_lane" where
  "abs_of s =
     \<lparr> al_open = ln_accepting s, al_next = length (ln_entries s),
       al_waiting = map (\<lambda>e. (le_id e, le_epoch e \<noteq> ln_epoch s)) (filter waiting (ln_entries s)),
       al_current = map_option le_id (find in_progress (ln_entries s)),
       al_log = ln_events s, al_waiters = ln_drainWaiters s, al_answered = ln_drained s \<rparr>"

section \<open>The invariant\<close>

text \<open>
  The chain of promises: each entry hangs on the one before it and the tail is the last. With it the settled entries
  come first, then at most one that runs, then those that wait; the counters count the last two groups.
\<close>

definition linked :: "lane_entry list \<Rightarrow> bool" where
  "linked es \<longleftrightarrow> (\<forall>k < length es. le_id (es ! k) = k \<and> le_after (es ! k) = (if k = 0 then None else Some (k - 1)))"

definition lane_inv :: "plugin_lane \<Rightarrow> bool" where
  "lane_inv s \<longleftrightarrow>
     linked (ln_entries s) \<and> ln_tail s = (if ln_entries s = [] then None else Some (length (ln_entries s) - 1)) \<and>
     (\<exists>ds cur ws. ln_entries s = ds @ cur @ ws \<and> list_all settled ds \<and> list_all in_progress cur \<and> length cur \<le> 1 \<and>
        list_all waiting ws) \<and>
     ln_queued s = int (length (filter waiting (ln_entries s))) \<and>
     ln_running s = int (length (filter in_progress (ln_entries s))) \<and>
     list_all (\<lambda>e. le_epoch e \<le> ln_epoch s) (ln_entries s)"

lemma filter_phase_app:
  assumes "list_all settled ds" and "list_all in_progress cur" and "list_all waiting ws"
  shows "filter waiting (ds @ cur @ ws) = ws" and "filter in_progress (ds @ cur @ ws) = cur"
    and "find in_progress (ds @ cur @ ws) = (case cur of [] \<Rightarrow> None | e # _ \<Rightarrow> Some e)"
proof -
  have ds: "filter waiting ds = []" "filter in_progress ds = []" "find in_progress ds = None"
    using assms(1) by (auto simp: filter_empty_conv list_all_iff find_None_iff)
  have ws: "filter waiting ws = ws" "filter in_progress ws = []" "find in_progress ws = None"
    using assms(3) by (auto simp: filter_empty_conv list_all_iff find_None_iff)
  have cur: "filter waiting cur = []" "filter in_progress cur = cur" "find in_progress cur = (case cur of [] \<Rightarrow> None | e # _ \<Rightarrow> Some e)"
    using assms(2) by (auto simp: filter_empty_conv list_all_iff split: list.splits)
  have find_append: "find in_progress (xs @ ys) = (case find in_progress xs of None \<Rightarrow> find in_progress ys | Some x \<Rightarrow> Some x)" for xs ys
    by (induction xs) auto
  show "filter waiting (ds @ cur @ ws) = ws" "filter in_progress (ds @ cur @ ws) = cur" using ds ws cur by simp_all
  show "find in_progress (ds @ cur @ ws) = (case cur of [] \<Rightarrow> None | e # _ \<Rightarrow> Some e)"
    using ds ws cur by (simp add: find_append split: list.splits)
qed

text \<open>Only the first entry that waits can start, and only while none runs.\<close>

lemma only_head_starts:
  assumes "linked (ds @ cur @ ws)" and "list_all settled ds" and "list_all in_progress cur" and "length cur \<le> 1"
    and "list_all waiting ws" and "ln_entries s = ds @ cur @ ws"
    and "i < length (ds @ cur @ ws)" and "waiting ((ds @ cur @ ws) ! i)"
  shows "promise_settled s (le_after ((ds @ cur @ ws) ! i)) \<longleftrightarrow> cur = [] \<and> i = length ds"
proof -
  have ge: "length ds + length cur \<le> i"
    using assms(2,3,7,8) by (auto simp: nth_append list_all_length not_le split: if_splits)
  have after: "le_after ((ds @ cur @ ws) ! i) = (if i = 0 then None else Some (i - 1))" using assms(1,7) by (simp add: linked_def)
  show ?thesis
  proof (cases "i = 0")
    case True
    then show ?thesis using ge after by (simp add: promise_settled_def)
  next
    case False
    have settled: "settled ((ds @ cur @ ws) ! (i - 1)) \<longleftrightarrow> i - 1 < length ds"
    proof -
      consider "i - 1 < length ds" | "length ds \<le> i - 1" "i - 1 < length ds + length cur" | "length ds + length cur \<le> i - 1" by linarith
      then show ?thesis
        using assms(2,3,5,7) by cases (auto simp: nth_append list_all_length)
    qed
    then have "promise_settled s (le_after ((ds @ cur @ ws) ! i)) \<longleftrightarrow> i - 1 < length ds"
      using False assms(6,7) by (simp add: after promise_settled_def less_imp_diff_less)
    then show ?thesis using ge False by (cases cur) auto
  qed
qed

lemma linked_id: "linked (ds @ e # ws) \<Longrightarrow> le_id e = length ds"
  unfolding linked_def by (drule spec [of _ "length ds"]) simp

lemma linked_phase: "linked (ds @ e # ws) \<Longrightarrow> linked (ds @ e \<lparr> le_phase := ph \<rparr> # ws)"
  by (auto simp: linked_def nth_append nth_Cons split: nat.split if_splits)

lemma abs_of_shape:
  assumes "ln_entries s = ds @ cur @ ws" and "list_all settled ds" and "list_all in_progress cur" and "list_all waiting ws"
  shows "abs_of s =
     \<lparr> al_open = ln_accepting s, al_next = length ds + length cur + length ws,
       al_waiting = map (\<lambda>e. (le_id e, le_epoch e \<noteq> ln_epoch s)) ws,
       al_current = (case cur of [] \<Rightarrow> None | e # _ \<Rightarrow> Some (le_id e)),
       al_log = ln_events s, al_waiters = ln_drainWaiters s, al_answered = ln_drained s \<rparr>"
  using filter_phase_app [OF assms(2-4)] by (simp add: abs_of_def assms(1) split: list.splits)

lemma lane_inv_shape:
  assumes "lane_inv s"
  obtains ds cur ws where "ln_entries s = ds @ cur @ ws" "list_all settled ds" "list_all in_progress cur" "length cur \<le> 1"
    "list_all waiting ws" "ln_queued s = int (length ws)" "ln_running s = int (length cur)"
proof -
  obtain ds cur ws where es: "ln_entries s = ds @ cur @ ws" and l: "list_all settled ds" "list_all in_progress cur" "length cur \<le> 1"
      "list_all waiting ws" using assms by (auto simp: lane_inv_def)
  show ?thesis by (rule that [OF es l]) (use assms in \<open>simp_all add: lane_inv_def es filter_phase_app [OF l(1,2,4)] del: filter_append\<close>)
qed

lemma lane_invI:
  assumes "ln_entries s = ds @ cur @ ws" and "list_all settled ds" and "list_all in_progress cur" and "length cur \<le> 1"
    and "list_all waiting ws" and "linked (ds @ cur @ ws)"
    and "ln_tail s = (if ds @ cur @ ws = [] then None else Some (length (ds @ cur @ ws) - 1))"
    and "ln_queued s = int (length ws)" and "ln_running s = int (length cur)"
    and "list_all (\<lambda>e. le_epoch e \<le> ln_epoch s) (ds @ cur @ ws)"
  shows "lane_inv s"
  unfolding lane_inv_def assms(1) filter_phase_app [OF assms(2,3,5)] using assms(2-10) by blast

lemma lane_inv_new: "lane_inv (lane_new p)"
  by (rule lane_invI [of _ "[]" "[]" "[]"]) (simp_all add: lane_new_def linked_def)

lemma notifyDrained_frame [simp]:
  "ln_pluginId (notifyDrained s) = ln_pluginId s" "ln_tail (notifyDrained s) = ln_tail s" "ln_queued (notifyDrained s) = ln_queued s"
  "ln_running (notifyDrained s) = ln_running s" "ln_accepting (notifyDrained s) = ln_accepting s"
  "ln_epoch (notifyDrained s) = ln_epoch s" "ln_entries (notifyDrained s) = ln_entries s" "ln_events (notifyDrained s) = ln_events s"
  by (simp_all add: notifyDrained_def)

lemma notifyDrained_drains:
  "ln_drainWaiters (notifyDrained s) = (if isDrained s then [] else ln_drainWaiters s)"
  "ln_drained (notifyDrained s) = (if isDrained s then fold (settle_once True) (ln_drainWaiters s) (ln_drained s) else ln_drained s)"
  by (simp_all add: notifyDrained_def)

lemmas lane_marks = set_phase_def lane_log_def

section \<open>The simulation\<close>

text \<open>What a step does to the abstract lane and that it keeps the invariant, together for each step.\<close>

definition simulates :: "lane_step \<Rightarrow> plugin_lane \<Rightarrow> bool" where
  "simulates x s \<longleftrightarrow> lane_inv (lane_do x s) \<and> ln_pluginId (lane_do x s) = ln_pluginId s \<and>
     abs_of (lane_do x s) = abs_do (ln_pluginId s) x (abs_of s)"

lemma lane_run_admits:
  assumes "ln_accepting s \<and>
    ln_pluginId s \<notin> set (case ex of Some ch \<Rightarrow> cc_plugins ch | None \<Rightarrow> (case am of Some ch \<Rightarrow> cc_plugins ch | None \<Rightarrow> []))"
  shows "\<exists>e. lane_run uuid ex am s =
      (Admitted e, s \<lparr> ln_queued := ln_queued s + 1, ln_entries := ln_entries s @ [e], ln_tail := Some (le_id e) \<rparr>) \<and>
    le_id e = length (ln_entries s) \<and> le_epoch e = ln_epoch s \<and> le_after e = ln_tail s \<and> waiting e"
  using assms by (cases ex; cases am) (simp_all add: lane_run_def Let_def)

lemma simulates_run:
  assumes "lane_inv s"
  shows "simulates (LaneRun uuid ex am) s"
proof -
  obtain ds cur ws where l: "ln_entries s = ds @ cur @ ws" "list_all settled ds" "list_all in_progress cur" "length cur \<le> 1"
    "list_all waiting ws" "ln_queued s = int (length ws)" "ln_running s = int (length cur)" using lane_inv_shape [OF assms] .
  let ?plugins = "case ex of Some ch \<Rightarrow> cc_plugins ch | None \<Rightarrow> (case am of Some ch \<Rightarrow> cc_plugins ch | None \<Rightarrow> [])"
  show ?thesis
  proof (cases "ln_accepting s \<and> ln_pluginId s \<notin> set ?plugins")
    case False
    then have "lane_do (LaneRun uuid ex am) s = s" "abs_do (ln_pluginId s) (LaneRun uuid ex am) (abs_of s) = abs_of s"
      by (auto simp: lane_run_def abs_of_def split: option.splits)
    then show ?thesis using assms by (simp add: simulates_def)
  next
    case True
    then obtain e where step: "lane_run uuid ex am s =
        (Admitted e, s \<lparr> ln_queued := ln_queued s + 1, ln_entries := ln_entries s @ [e], ln_tail := Some (le_id e) \<rparr>)"
      and e: "le_id e = length (ln_entries s)" "le_epoch e = ln_epoch s" "le_after e = ln_tail s" "waiting e"
      using lane_run_admits by blast
    define t where "t = lane_do (LaneRun uuid ex am) s"
    have run: "t = s \<lparr> ln_queued := ln_queued s + 1, ln_entries := ln_entries s @ [e], ln_tail := Some (le_id e) \<rparr>"
      by (simp add: t_def step)
    have es: "ln_entries t = ds @ cur @ (ws @ [e])" unfolding run by (simp add: l(1))
    have ws: "list_all waiting (ws @ [e])" using l(5) e by simp
    have old: "linked (ds @ cur @ ws)" "ln_tail s = (if ds @ cur @ ws = [] then None else Some (length (ds @ cur @ ws) - 1))"
        "list_all (\<lambda>e. le_epoch e \<le> ln_epoch s) (ds @ cur @ ws)"
      using assms by (auto simp: lane_inv_def l(1))
    have "linked ((ds @ cur @ ws) @ [e])"
      unfolding linked_def
    proof (intro allI impI)
      fix k assume "k < length ((ds @ cur @ ws) @ [e])"
      then consider "k < length (ds @ cur @ ws)" | "k = length (ds @ cur @ ws)" by fastforce
      then show "le_id (((ds @ cur @ ws) @ [e]) ! k) = k \<and>
          le_after (((ds @ cur @ ws) @ [e]) ! k) = (if k = 0 then None else Some (k - 1))"
      proof cases
        case 1
        then show ?thesis using old(1) unfolding linked_def by (simp only: nth_append if_True)
      next
        case 2
        then show ?thesis using e(1,3) old(2) unfolding 2 nth_append_length by (simp add: l(1))
      qed
    qed
    then have "lane_inv t"
      using old l(6,7) e by (intro lane_invI [OF es l(2-4) ws]) (auto simp: run l(1))
    moreover have "abs_of t = abs_do (ln_pluginId s) (LaneRun uuid ex am) (abs_of s)"
      using True e unfolding abs_of_shape [OF es l(2,3) ws] abs_of_shape [OF l(1-3,5)] by (simp add: run l(1))
    ultimately show ?thesis unfolding simulates_def t_def [symmetric] by (simp add: run)
  qed
qed

lemma simulates_start:
  assumes "lane_inv s"
  shows "simulates (LaneStart i aborted) s"
proof -
  obtain ds cur ws where l: "ln_entries s = ds @ cur @ ws" "list_all settled ds" "list_all in_progress cur" "length cur \<le> 1"
    "list_all waiting ws" "ln_queued s = int (length ws)" "ln_running s = int (length cur)" using lane_inv_shape [OF assms] .
  have old: "linked (ds @ cur @ ws)" "ln_tail s = (if ds @ cur @ ws = [] then None else Some (length (ds @ cur @ ws) - 1))"
      "list_all (\<lambda>e. le_epoch e \<le> ln_epoch s) (ds @ cur @ ws)"
    using assms by (auto simp: lane_inv_def l(1))
  note abs = abs_of_shape [OF l(1-3,5)]
  show ?thesis
  proof (cases "cur = [] \<and> ws \<noteq> [] \<and> i = length ds")
    case False
    have "\<not> (i < length (ln_entries s) \<and> waiting (ln_entries s ! i) \<and> promise_settled s (le_after (ln_entries s ! i)))"
      using only_head_starts [OF old(1) l(2-5,1), of i] False unfolding l(1) by (cases ws) auto
    then have "lane_do (LaneStart i aborted) s = s" unfolding lane_do.simps lane_start_def by (rule if_not_P)
    moreover have "i \<noteq> le_id (hd ws)" if "cur = []" "ws \<noteq> []"
      using old(1) that False linked_id [of ds] by (cases ws) auto
    then have "abs_do (ln_pluginId s) (LaneStart i aborted) (abs_of s) = abs_of s"
      unfolding abs by (cases ws; cases cur) auto
    ultimately show ?thesis using assms by (simp add: simulates_def)
  next
    case True
    then obtain e ws' where ws: "ws = e # ws'" and cur: "cur = []" and i: "i = length ds" by (cases ws) auto
    have e: "waiting e" "list_all waiting ws'" "le_id e = i" using l(5) old(1) ws cur i linked_id [of ds] by auto
    have es: "ln_entries s = ds @ e # ws'" using l(1) ws cur by simp
    have ready: "i < length (ln_entries s) \<and> waiting (ln_entries s ! i) \<and> promise_settled s (le_after (ln_entries s ! i))"
      using only_head_starts [OF old(1) l(2-5,1), of i] e ws cur i unfolding l(1) by simp
    let ?s1 = "s \<lparr> ln_queued := ln_queued s - 1 \<rparr>"
    have drained: "isDrained ?s1 \<longleftrightarrow> ws' = []" using l(6,7) ws cur by (simp add: isDrained_def)
    have start: "lane_do (LaneStart i aborted) s =
       (if le_epoch e \<noteq> ln_epoch s then lane_log (EntryClosed i) (set_phase i EntrySettled (notifyDrained ?s1))
        else if aborted then lane_log (EntryAborted i) (set_phase i EntrySettled (notifyDrained ?s1))
        else lane_log (EntryStarted i) (set_phase i EntryRunning (?s1 \<lparr> ln_running := ln_running s + 1 \<rparr>)))"
      using ready unfolding lane_do.simps lane_start_def by (simp add: es i nth_append)
    show ?thesis
    proof (cases "le_epoch e = ln_epoch s \<and> \<not> aborted")
      case True
      define t where "t = lane_do (LaneStart i aborted) s"
      have t: "t = lane_log (EntryStarted i) (set_phase i EntryRunning (?s1 \<lparr> ln_running := ln_running s + 1 \<rparr>))"
        using True unfolding t_def start by simp
      have es': "ln_entries t = ds @ [e \<lparr> le_phase := EntryRunning \<rparr>] @ ws'" unfolding t by (simp add: lane_marks es i nth_append)
      have "lane_inv t"
        using old l(2,6,7) ws cur e linked_phase [of ds e ws'] by (intro lane_invI [OF es']) (auto simp: t lane_marks)
      moreover have "abs_of t = abs_do (ln_pluginId s) (LaneStart i aborted) (abs_of s)"
        using True e ws cur unfolding abs by (subst abs_of_shape [OF es']) (use l(2) in \<open>simp_all add: t lane_marks\<close>)
      ultimately show ?thesis unfolding simulates_def t_def [symmetric] by (simp add: t lane_marks)
    next
      case False
      define t where "t = lane_do (LaneStart i aborted) s"
      define ev where "ev = (if le_epoch e \<noteq> ln_epoch s then EntryClosed i else EntryAborted i)"
      have t: "t = lane_log ev (set_phase i EntrySettled (notifyDrained ?s1))" using False unfolding t_def start ev_def by auto
      have es': "ln_entries t = (ds @ [e \<lparr> le_phase := EntrySettled \<rparr>]) @ [] @ ws'" unfolding t by (simp add: lane_marks es i nth_append)
      have "lane_inv t"
        using old l(2,6,7) ws cur e linked_phase [of ds e ws'] by (intro lane_invI [OF es']) (auto simp: t lane_marks)
      moreover have "abs_of t = abs_do (ln_pluginId s) (LaneStart i aborted) (abs_of s)"
        using False e ws cur unfolding abs
        by (subst abs_of_shape [OF es'])
          (use l(2) drained in \<open>auto simp: t lane_marks ev_def abs_notify_def abs_idle_def notifyDrained_drains\<close>)
      ultimately show ?thesis unfolding simulates_def t_def [symmetric] by (simp add: t lane_marks)
    qed
  qed
qed

lemma simulates_end:
  assumes "lane_inv s"
  shows "simulates (LaneEnd i) s"
proof -
  obtain ds cur ws where l: "ln_entries s = ds @ cur @ ws" "list_all settled ds" "list_all in_progress cur" "length cur \<le> 1"
    "list_all waiting ws" "ln_queued s = int (length ws)" "ln_running s = int (length cur)" using lane_inv_shape [OF assms] .
  have old: "linked (ds @ cur @ ws)" "ln_tail s = (if ds @ cur @ ws = [] then None else Some (length (ds @ cur @ ws) - 1))"
      "list_all (\<lambda>e. le_epoch e \<le> ln_epoch s) (ds @ cur @ ws)"
    using assms by (auto simp: lane_inv_def l(1))
  note abs = abs_of_shape [OF l(1-3,5)]
  have running: "i < length (ds @ cur @ ws) \<and> in_progress ((ds @ cur @ ws) ! i) \<longleftrightarrow> cur \<noteq> [] \<and> i = length ds"
    using l(2-5) by (cases cur) (fastforce simp: list_all_length nth_append nth_Cons split: nat.splits if_splits)+
  show ?thesis
  proof (cases "cur \<noteq> [] \<and> i = length ds")
    case False
    then have "lane_do (LaneEnd i) s = s" using running by (auto simp: lane_end_def l(1))
    moreover have "le_id (hd cur) = length ds" if "cur \<noteq> []" using old(1) that linked_id [of ds] by (cases cur) auto
    then have "abs_do (ln_pluginId s) (LaneEnd i) (abs_of s) = abs_of s" using False unfolding abs by (cases cur) auto
    ultimately show ?thesis using assms by (simp add: simulates_def)
  next
    case True
    then obtain e where cur: "cur = [e]" and i: "i = length ds" using l(4) by (cases cur) auto
    have e: "le_id e = i" using old(1) cur i linked_id [of ds] by auto
    have es: "ln_entries s = ds @ e # ws" using l(1) cur by simp
    let ?s1 = "s \<lparr> ln_running := ln_running s - 1 \<rparr>"
    define t where "t = lane_do (LaneEnd i) s"
    have drained: "isDrained ?s1 \<longleftrightarrow> ws = []" using l(6,7) cur by (simp add: isDrained_def)
    have t: "t = lane_log (EntryEnded i) (set_phase i EntrySettled (notifyDrained ?s1))"
      using running True unfolding t_def lane_do.simps lane_end_def l(1) by simp
    have es': "ln_entries t = (ds @ [e \<lparr> le_phase := EntrySettled \<rparr>]) @ [] @ ws" unfolding t by (simp add: lane_marks es i nth_append)
    have "lane_inv t"
      using old l(2,5,6,7) cur linked_phase [of ds e ws] by (intro lane_invI [OF es']) (auto simp: t lane_marks)
    moreover have "abs_of t = abs_do (ln_pluginId s) (LaneEnd i) (abs_of s)"
      using e cur i unfolding abs
      by (subst abs_of_shape [OF es']) (use l(2,5) drained in \<open>auto simp: t lane_marks abs_notify_def abs_idle_def notifyDrained_drains\<close>)
    ultimately show ?thesis unfolding simulates_def t_def [symmetric] by (simp add: t lane_marks)
  qed
qed

lemma simulates_other:
  assumes "lane_inv s" and "x \<in> {LaneClose, LaneReopen, LaneCancel} \<or> (\<exists>w. x = LaneDrain w \<or> x = LaneDrainTimeout w)"
  shows "simulates x s"
proof -
  obtain ds cur ws where l: "ln_entries s = ds @ cur @ ws" "list_all settled ds" "list_all in_progress cur" "length cur \<le> 1"
    "list_all waiting ws" "ln_queued s = int (length ws)" "ln_running s = int (length cur)" using lane_inv_shape [OF assms(1)] .
  have old: "linked (ds @ cur @ ws)" "ln_tail s = (if ds @ cur @ ws = [] then None else Some (length (ds @ cur @ ws) - 1))"
      "list_all (\<lambda>e. le_epoch e \<le> ln_epoch s) (ds @ cur @ ws)"
    using assms(1) by (auto simp: lane_inv_def l(1))
  note unfold = lane_close_def lane_reopen_def cancelQueued_def lane_drain_def drain_timeout_def settle_drain_def
  have es: "ln_entries (lane_do x s) = ds @ cur @ ws" using assms(2) l(1) by (auto simp: unfold)
  have "list_all (\<lambda>e. le_epoch e \<le> ln_epoch (lane_do x s)) (ds @ cur @ ws)"
    using old(3) assms(2) by (auto simp: unfold list_all_iff le_SucI)
  then have "lane_inv (lane_do x s)"
    using old(1,2) l(2-7) assms(2) by (intro lane_invI [OF es]) (auto simp: unfold)
  moreover have fresh: "\<forall>e\<in>set ws. le_epoch e \<noteq> Suc (ln_epoch s)"
  proof
    fix e assume "e \<in> set ws"
    then have "le_epoch e \<le> ln_epoch s" using old(3) by (simp add: list_all_iff)
    then show "le_epoch e \<noteq> Suc (ln_epoch s)" by simp
  qed
  have "abs_of (lane_do x s) = abs_do (ln_pluginId s) x (abs_of s)"
    using assms(2) l(6,7) fresh unfolding abs_of_shape [OF es l(2,3,5)] abs_of_shape [OF l(1-3,5)]
    by (auto simp: unfold abs_idle_def isDrained_def split: list.splits)
  moreover have "ln_pluginId (lane_do x s) = ln_pluginId s" using assms(2) by (auto simp: unfold)
  ultimately show ?thesis by (simp add: simulates_def)
qed

lemma simulates_step: "lane_inv s \<Longrightarrow> simulates x s"
  by (cases x) (simp_all add: simulates_run simulates_start simulates_end simulates_other)

lemma lane_steps_simulate:
  assumes "lane_inv s"
  shows "lane_inv (lane_steps xs s) \<and> ln_pluginId (lane_steps xs s) = ln_pluginId s \<and>
    abs_of (lane_steps xs s) = abs_steps (ln_pluginId s) xs (abs_of s)"
  using assms
proof (induction xs arbitrary: s)
  case (Cons x xs)
  from simulates_step [OF Cons.prems, of x]
  have "lane_inv (lane_do x s)" "ln_pluginId (lane_do x s) = ln_pluginId s" "abs_of (lane_do x s) = abs_do (ln_pluginId s) x (abs_of s)"
    by (simp_all add: simulates_def)
  then show ?case using Cons.IH [of "lane_do x s"] by (simp add: lane_steps_def abs_steps_def)
qed (simp add: lane_steps_def abs_steps_def)

section \<open>What the queue gives\<close>

text \<open>The numbers of the entries that left the queue, in their order.\<close>

fun left_queue :: "lane_event list \<Rightarrow> nat list" where
  "left_queue [] = []"
| "left_queue (EntryStarted i # es) = i # left_queue es"
| "left_queue (EntryClosed i # es) = i # left_queue es"
| "left_queue (EntryAborted i # es) = i # left_queue es"
| "left_queue (EntryEnded i # es) = left_queue es"

lemma left_queue_append [simp]: "left_queue (xs @ ys) = left_queue xs @ left_queue ys"
  by (induction xs rule: left_queue.induct) auto

text \<open>A log in which at most one entry runs at a time; the argument is the one that runs.\<close>

fun one_at_a_time :: "nat option \<Rightarrow> lane_event list \<Rightarrow> bool" where
  "one_at_a_time cur [] \<longleftrightarrow> True"
| "one_at_a_time cur (EntryStarted i # es) \<longleftrightarrow> cur = None \<and> one_at_a_time (Some i) es"
| "one_at_a_time cur (EntryEnded i # es) \<longleftrightarrow> cur = Some i \<and> one_at_a_time None es"
| "one_at_a_time cur (EntryClosed i # es) \<longleftrightarrow> cur = None \<and> one_at_a_time cur es"
| "one_at_a_time cur (EntryAborted i # es) \<longleftrightarrow> cur = None \<and> one_at_a_time cur es"

fun running_after :: "nat option \<Rightarrow> lane_event list \<Rightarrow> nat option" where
  "running_after cur [] = cur"
| "running_after cur (EntryStarted i # es) = running_after (Some i) es"
| "running_after cur (EntryEnded i # es) = running_after None es"
| "running_after cur (EntryClosed i # es) = running_after cur es"
| "running_after cur (EntryAborted i # es) = running_after cur es"

lemma running_after_append [simp]: "running_after c (xs @ ys) = running_after (running_after c xs) ys"
  by (induction c xs rule: running_after.induct) auto

lemma one_at_a_time_append [simp]:
  "one_at_a_time c (xs @ ys) \<longleftrightarrow> one_at_a_time c xs \<and> one_at_a_time (running_after c xs) ys"
  by (induction c xs rule: one_at_a_time.induct) auto

definition abs_inv :: "abs_lane \<Rightarrow> bool" where
  "abs_inv a \<longleftrightarrow>
     one_at_a_time None (al_log a) \<and> running_after None (al_log a) = al_current a \<and>
     left_queue (al_log a) @ map fst (al_waiting a) = [0..<al_next a] \<and>
     (al_waiters a \<noteq> [] \<longrightarrow> \<not> abs_idle a)"

lemma abs_inv_new: "abs_inv abs_new"
  by (simp add: abs_inv_def abs_new_def)

lemma abs_inv_do: "abs_inv a \<Longrightarrow> abs_inv (abs_do p x a)"
proof (cases x)
  case (LaneStart i aborted)
  assume inv: "abs_inv a"
  show ?thesis
  proof (cases "al_current a = None \<and> al_waiting a \<noteq> [] \<and> fst (hd (al_waiting a)) = i")
    case True
    then obtain c rest where "al_current a = None" "al_waiting a = (i, c) # rest" by (cases "al_waiting a") auto
    then show ?thesis using inv LaneStart by (auto simp: abs_inv_def abs_notify_def abs_idle_def)
  next
    case False
    then have "abs_do p (LaneStart i aborted) a = a" by (auto split: option.split list.split)
    then show ?thesis using inv LaneStart by simp
  qed
qed (auto simp: abs_inv_def abs_notify_def abs_idle_def comp_def case_prod_beta)

lemma abs_inv_steps: "abs_inv a \<Longrightarrow> abs_inv (abs_steps p xs a)"
  by (induction xs arbitrary: a) (simp_all add: abs_steps_def abs_inv_do)

section \<open>Properties\<close>

lemma abs_of_new: "abs_of (lane_new p) = abs_new"
  by (simp add: abs_of_def lane_new_def abs_new_def)

lemma lane_run_abs: "abs_of (lane_steps xs (lane_new p)) = abs_steps p xs abs_new"
  using lane_steps_simulate [OF lane_inv_new, of xs p] by (simp add: abs_of_new) (simp add: lane_new_def)

text \<open>
  C28: a chain of promises makes a serial queue. Whatever calls, continuations, ends, closures, cancellations, drains and
  timers come in whatever order, the lane does what a queue does that is given the same steps: it admits under the same
  conditions, only the entry at the head starts and only while none runs, an entry queued before a cancellation is
  dropped when its turn comes and an aborted one likewise, and drains are answered as soon as nothing waits or runs.
  What \<open>state()\<close> tells is whether the gate is open and how many entries wait and run.
\<close>
theorem lane_refines_queue:
  "abs_of (lane_steps xs (lane_new p)) = abs_steps p xs abs_new \<and>
   lane_state (lane_steps xs (lane_new p)) =
     (al_open (abs_steps p xs abs_new), int (length (al_waiting (abs_steps p xs abs_new))),
      if al_current (abs_steps p xs abs_new) = None then 0 else 1)"
proof -
  let ?s = "lane_steps xs (lane_new p)"
  have inv: "lane_inv ?s" using lane_steps_simulate [OF lane_inv_new] by blast
  obtain ds cur ws where l: "ln_entries ?s = ds @ cur @ ws" "list_all settled ds" "list_all in_progress cur" "length cur \<le> 1"
    "list_all waiting ws" "ln_queued ?s = int (length ws)" "ln_running ?s = int (length cur)" using lane_inv_shape [OF inv] .
  have "lane_state ?s = (al_open (abs_of ?s), int (length (al_waiting (abs_of ?s))), if al_current (abs_of ?s) = None then 0 else 1)"
    unfolding abs_of_shape [OF l(1-3,5)] using l(4,6,7) by (cases cur) (simp_all add: lane_state_def)
  then show ?thesis by (simp add: lane_run_abs)
qed

text \<open>
  one entry at a time, first in first out. In the log of any run every start falls between the end of the entry
  before it and its own end, and the entries leave the queue in the order in which they were admitted, none twice; and
  once nothing waits or runs, no drain is left unanswered.
\<close>
theorem lane_serial:
  "one_at_a_time None (ln_events (lane_steps xs (lane_new p))) \<and>
   left_queue (ln_events (lane_steps xs (lane_new p))) @ map le_id (filter waiting (ln_entries (lane_steps xs (lane_new p)))) =
     [0..<length (ln_entries (lane_steps xs (lane_new p)))] \<and>
   (isDrained (lane_steps xs (lane_new p)) \<longrightarrow> ln_drainWaiters (lane_steps xs (lane_new p)) = [])"
proof -
  let ?s = "lane_steps xs (lane_new p)"
  have abs: "abs_inv (abs_of ?s)" unfolding lane_run_abs by (rule abs_inv_steps [OF abs_inv_new])
  have inv: "lane_inv ?s" using lane_steps_simulate [OF lane_inv_new] by blast
  have "isDrained ?s \<longrightarrow> abs_idle (abs_of ?s)"
    using inv by (auto simp: lane_inv_def isDrained_def abs_idle_def abs_of_def find_None_iff filter_empty_conv)
  then show ?thesis using abs by (auto simp: abs_inv_def abs_of_def comp_def)
qed

text \<open>The chain of an admitted entry ends with the plugin of the lane, and repeats no plugin when
  the inherited one does not.\<close>

lemma admitted_chain:
  assumes "lane_run uuid ex am s = (Admitted e, s')"
  shows "\<exists>ps. cc_plugins (le_chain e) = ps @ [ln_pluginId s] \<and> ln_pluginId s \<notin> set ps \<and>
    ps = (case ex of Some ch \<Rightarrow> cc_plugins ch | None \<Rightarrow> (case am of Some ch \<Rightarrow> cc_plugins ch | None \<Rightarrow> []))"
  using assms by (auto simp: lane_run_def Let_def split: if_splits option.splits)

text \<open>Two entries, the second cancelled while the first runs, and a drain.\<close>

lemma lane_example:
  "ln_events (lane_steps [LaneRun ''u'' None None, LaneRun ''v'' None None, LaneStart 1 False, LaneStart 0 False, LaneCancel,
      LaneDrain 5, LaneStart 1 False, LaneEnd 0, LaneStart 1 False] (lane_new ''p'')) = [EntryStarted 0, EntryEnded 0, EntryClosed 1] \<and>
   ln_drained (lane_steps [LaneRun ''u'' None None, LaneRun ''v'' None None, LaneStart 1 False, LaneStart 0 False, LaneCancel,
      LaneDrain 5, LaneStart 1 False, LaneEnd 0, LaneStart 1 False] (lane_new ''p'')) = [(5, True)]"
  by code_simp

end
