(* ===== verification/Command_Invoker.thy ===== *)
theory Command_Invoker
  imports Call_Guards Plugin_Lane Node_Path
begin

text \<open>
  Cross-plugin command calls: \<open>FullCrossPluginInvoker.execute\<close> with its safeguards, and the
  wrapper that \<open>wireCommandSystem\<close> puts around it. A call is split at its two awaits: the part up
  to the activation of the callee, the part up to the invocation of the handler, and the part
  that treats the handler's answer. A synchronous part reads the clock once. The registry, the
  host's answers and the text of \<open>JSON.stringify\<close> are arguments.
\<close>

section \<open>Data\<close>

record public_command =
  pcmd_id :: string
  pcmd_operation :: bool
  pcmd_public :: "bool option"

record indexed_plugin =
  ix_invokesCommands :: "string list option"
  ix_enabled :: bool
  ix_commands :: "public_command list option"

type_synonym registry = "string \<Rightarrow> indexed_plugin option"

text \<open>\<open>JSON.stringify(value ?? null)\<close>: it throws, answers \<open>undefined\<close>, or a text of so many bytes.\<close>

datatype stringified = StringifyThrows | StringifyUndefined | Json nat

record invoke_entry =
  ie_caller :: string
  ie_callee :: string
  ie_commandId :: string
  ie_argsSize :: int
  ie_resultSize :: "int option"
  ie_durMs :: int
  ie_depth :: int
  ie_ok :: bool
  ie_errorCode :: "string option"

record 'v invoker =
  iv_schemas :: "'v schema_cache"
  iv_rateLimiter :: rate_limiter
  iv_throttle :: caller_throttle
  iv_depth :: chain_depth
  iv_audit :: "invoke_entry list"
  iv_argsMaxBytes :: int
  iv_resultMaxBytes :: int

definition DEFAULT_ARGS_MAX_BYTES :: int where
  "DEFAULT_ARGS_MAX_BYTES = 256 * 1024"

definition DEFAULT_RESULT_MAX_BYTES :: int where
  "DEFAULT_RESULT_MAX_BYTES = 256 * 1024"

text \<open>The locals of one call that outlive its awaits.\<close>

record 'v call =
  cl_caller :: string
  cl_callee :: string
  cl_commandId :: string
  cl_args :: 'v
  cl_argsSize :: int
  cl_startTs :: int
  cl_taskId :: string
  cl_depth :: int
  cl_chain :: call_chain

datatype 'v progress =
    CallSettled "(string, 'v) result"
  | Activating "'v call"
  | Invoking "'v call"

definition measureBytes :: "('v \<Rightarrow> stringified) \<Rightarrow> 'v \<Rightarrow> int" where
  "measureBytes stringify v =
     (case stringify v of StringifyThrows \<Rightarrow> 0 | StringifyUndefined \<Rightarrow> 0 | Json n \<Rightarrow> int n)"

definition parseCalleeId :: "string \<Rightarrow> string option" where
  "parseCalleeId commandId =
     (case split_on (CHR ''.'') commandId of
        a # b # c # rest \<Rightarrow> Some (a @ ''.'' @ b)
      | _ \<Rightarrow> None)"

text \<open>A number in a template literal.\<close>

definition show_int :: "int \<Rightarrow> string" where
  "show_int n = (if n < 0 then CHR ''-'' # show_nat (nat (- n)) else show_nat (nat n))"

section \<open>The parts of a call\<close>

definition iv_log :: "invoke_entry \<Rightarrow> 'v invoker \<Rightarrow> 'v invoker" where
  "iv_log e s = s \<lparr> iv_audit := iv_audit s @ [e] \<rparr>"

definition call_entry :: "int \<Rightarrow> 'v call \<Rightarrow> int option \<Rightarrow> string option \<Rightarrow> invoke_entry" where
  "call_entry now c resultSize errorCode =
     \<lparr> ie_caller = cl_caller c, ie_callee = cl_callee c, ie_commandId = cl_commandId c,
       ie_argsSize = cl_argsSize c, ie_resultSize = resultSize, ie_durMs = now - cl_startTs c,
       ie_depth = cl_depth c, ie_ok = (errorCode = None), ie_errorCode = errorCode \<rparr>"

text \<open>The \<open>finally\<close> block of a call that has entered the depth counter.\<close>

definition leave_call :: "'v call \<Rightarrow> 'v invoker \<Rightarrow> 'v invoker" where
  "leave_call c s = s \<lparr> iv_depth := cd_exit (cl_taskId c) (iv_depth s) \<rparr>"

text \<open>\<open>auditFail\<close>, followed by the \<open>finally\<close> block.\<close>

definition auditFail :: "int \<Rightarrow> 'v call \<Rightarrow> string \<Rightarrow> 'v invoker \<Rightarrow> 'v progress \<times> 'v invoker" where
  "auditFail now c errorCode s =
     (CallSettled (Inl errorCode), leave_call c (iv_log (call_entry now c None (Some errorCode)) s))"

definition callerAllows :: "registry \<Rightarrow> 'v call \<Rightarrow> bool" where
  "callerAllows reg c =
     (case reg (cl_caller c) of
        None \<Rightarrow> False
      | Some caller \<Rightarrow> cl_commandId c \<in> set (case ix_invokesCommands caller of None \<Rightarrow> [] | Some l \<Rightarrow> l))"

definition calleeEnabled :: "registry \<Rightarrow> 'v call \<Rightarrow> bool" where
  "calleeEnabled reg c = (case reg (cl_callee c) of None \<Rightarrow> False | Some p \<Rightarrow> ix_enabled p)"

definition findCommand :: "registry \<Rightarrow> 'v call \<Rightarrow> public_command option" where
  "findCommand reg c =
     find (\<lambda>x. pcmd_id x = cl_commandId c)
       (case Option.bind (reg (cl_callee c)) ix_commands of None \<Rightarrow> [] | Some l \<Rightarrow> l)"

text \<open>The checks of the schema: the message of the cache decides the code and the throttle.\<close>

definition schema_step :: "int \<Rightarrow> 'v call \<Rightarrow> 'v invoker \<Rightarrow> (string, unit) result \<times> 'v invoker" where
  "schema_step now c s =
     (case sc_validateArgs (cl_callee c) (cl_commandId c) (cl_args c) (iv_schemas s) of
        Inr _ \<Rightarrow> (Inr (), s)
      | Inl msg \<Rightarrow>
          if take (length ''plugin.command.args_invalid:'') msg = ''plugin.command.args_invalid:''
          then (Inl ''plugin.command.args_invalid'', s \<lparr> iv_throttle := ct_recordInvalid now (cl_caller c) (iv_throttle s) \<rparr>)
          else if msg = ''plugin.command.not_public'' then (Inl ''plugin.command.not_public'', s)
          else (Inl ''plugin.command.args_invalid'', s))"

text \<open>The guards of a call that has entered the depth counter, in the order of the code.\<close>

definition check_call :: "registry \<Rightarrow> int \<Rightarrow> 'v call \<Rightarrow> 'v invoker \<Rightarrow> (string, unit) result \<times> 'v invoker" where
  "check_call reg now c s =
     (if cl_depth c > cd_max (iv_depth s) then (Inl ''plugin.command.chain_too_deep'', s)
      else if \<not> callerAllows reg c then (Inl ''plugin.command.access_denied'', s)
      else if \<not> calleeEnabled reg c then (Inl ''plugin.command.not_available'', s)
      else let cmd = findCommand reg c
      in if (case cmd of None \<Rightarrow> False | Some x \<Rightarrow> pcmd_operation x) then (Inl ''plugin.command.access_denied'', s)
      else if Option.bind cmd pcmd_public \<noteq> Some True then (Inl ''plugin.command.not_public'', s)
      else let (blocked, th) = ct_isBlocked now (cl_caller c) (iv_throttle s);
               s1 = s \<lparr> iv_throttle := th \<rparr>
      in if blocked then (Inl ''plugin.command.caller_throttled'', s1)
      else let (admitted, rl) = rt_consume now (cl_caller c) (cl_callee c) (iv_rateLimiter s1);
               s2 = s1 \<lparr> iv_rateLimiter := rl \<rparr>
      in if \<not> admitted then (Inl ''plugin.command.rate_limited'', s2)
      else if cl_argsSize c > iv_argsMaxBytes s2 then (Inl ''plugin.command.args_too_large'', s2)
      else schema_step now c s2)"

definition taskIdOf :: "string option \<Rightarrow> string \<Rightarrow> int \<Rightarrow> string" where
  "taskIdOf provided callerId startTs =
     (case provided of Some t \<Rightarrow> t | None \<Rightarrow> ''_no_task_'' @ callerId @ ''_'' @ show_int startTs)"

definition callChainOf :: "call_chain option \<Rightarrow> call_chain option \<Rightarrow> string \<Rightarrow> string \<Rightarrow> call_chain" where
  "callChainOf explicit ambient taskId callerId =
     (case explicit of
        Some ch \<Rightarrow> ch
      | None \<Rightarrow> (case ambient of Some ch \<Rightarrow> ch | None \<Rightarrow> \<lparr> cc_id = taskId, cc_plugins = [callerId] \<rparr>))"

text \<open>A call refused before it enters the depth counter.\<close>

definition refuse_call ::
  "int \<Rightarrow> string \<Rightarrow> string \<Rightarrow> string \<Rightarrow> int \<Rightarrow> string \<Rightarrow> string \<Rightarrow> 'v invoker \<Rightarrow> 'v progress \<times> 'v invoker"
where
  "refuse_call now callerId callee commandId argsSize taskId code s =
     (CallSettled (Inl code),
      iv_log \<lparr> ie_caller = callerId, ie_callee = callee, ie_commandId = commandId, ie_argsSize = argsSize,
               ie_resultSize = None, ie_durMs = 0, ie_depth = cd_current taskId (iv_depth s),
               ie_ok = False, ie_errorCode = Some code \<rparr> s)"

text \<open>The call enters the depth counter.\<close>

definition enter_call ::
  "int \<Rightarrow> string \<Rightarrow> string \<Rightarrow> string \<Rightarrow> 'v \<Rightarrow> int \<Rightarrow> string \<Rightarrow> call_chain \<Rightarrow> 'v invoker \<Rightarrow> 'v call \<times> 'v invoker"
where
  "enter_call now callerId callee commandId args argsSize taskId callChain s =
     (let (depthValue, d) = cd_enter taskId (iv_depth s)
      in (\<lparr> cl_caller = callerId, cl_callee = callee, cl_commandId = commandId, cl_args = args,
            cl_argsSize = argsSize, cl_startTs = now, cl_taskId = taskId, cl_depth = depthValue,
            cl_chain = callChain \<rparr>,
          s \<lparr> iv_depth := d \<rparr>))"

text \<open>
  \<open>execute\<close> up to its first await. \<open>provided\<close> is what \<open>taskIdProvider\<close> answers, \<open>explicit\<close> and
  \<open>ambient\<close> the chain handed over and the one of the running lane entry, \<open>active\<close> the answer of
  \<open>host.isActive\<close>.
\<close>

definition execute_call ::
  "('v \<Rightarrow> stringified) \<Rightarrow> registry \<Rightarrow> bool \<Rightarrow> int \<Rightarrow> string option \<Rightarrow> call_chain option \<Rightarrow> string \<Rightarrow> string \<Rightarrow> 'v \<Rightarrow>
   call_chain option \<Rightarrow> 'v invoker \<Rightarrow> 'v progress \<times> 'v invoker"
where
  "execute_call stringify reg active now provided ambient callerId commandId args explicit s =
     (let taskId = taskIdOf provided callerId now;
          argsSize = measureBytes stringify args
      in case parseCalleeId commandId of
           None \<Rightarrow> refuse_call now callerId [] commandId argsSize taskId ''plugin.command.access_denied'' s
         | Some calleePluginId \<Rightarrow>
           (let callChain = callChainOf explicit ambient taskId callerId
            in if calleePluginId \<in> set (cc_plugins callChain)
               then refuse_call now callerId calleePluginId commandId argsSize taskId ''plugin.runtime.reentrant_call'' s
               else let (c, s1) = enter_call now callerId calleePluginId commandId args argsSize taskId callChain s
                    in case check_call reg now c s1 of
                         (Inl code, s2) \<Rightarrow> auditFail now c code s2
                       | (Inr _, s2) \<Rightarrow> (if active then Invoking c else Activating c, s2)))"

text \<open>The answer of \<open>activateWithTimeout\<close>; an error that is no \<open>AppError\<close> counts as a timeout.\<close>

datatype activation_answer = Activated | ActivationTimeout | ActivationAppError string | ActivationOtherError

definition activation_answered :: "int \<Rightarrow> activation_answer \<Rightarrow> 'v call \<Rightarrow> 'v invoker \<Rightarrow> 'v progress \<times> 'v invoker" where
  "activation_answered now answer c s =
     (case answer of
        Activated \<Rightarrow> (Invoking c, s)
      | ActivationTimeout \<Rightarrow> auditFail now c ''plugin.command.activation_timeout'' s
      | ActivationAppError msg \<Rightarrow> auditFail now c msg s
      | ActivationOtherError \<Rightarrow> auditFail now c ''plugin.command.activation_timeout'' s)"

datatype 'v handler_answer = HandlerResult 'v | HandlerAppError string | HandlerOtherError

definition handler_answered ::
  "('v \<Rightarrow> stringified) \<Rightarrow> int \<Rightarrow> 'v handler_answer \<Rightarrow> 'v call \<Rightarrow> 'v invoker \<Rightarrow> 'v progress \<times> 'v invoker"
where
  "handler_answered stringify now answer c s =
     (case answer of
        HandlerAppError msg \<Rightarrow>
          if msg = ''plugin.runtime.reentrant_call'' then (CallSettled (Inl msg), leave_call c s)
          else auditFail now c ''plugin.command.handler_threw'' s
      | HandlerOtherError \<Rightarrow> auditFail now c ''plugin.command.handler_threw'' s
      | HandlerResult v \<Rightarrow>
          (let resultSize = measureBytes stringify v;
               answer = (\<lambda>res code. (CallSettled res, leave_call c (iv_log (call_entry now c (Some resultSize) code) s)))
           in if resultSize > iv_resultMaxBytes s
              then answer (Inl ''plugin.command.result_too_large'') (Some ''plugin.command.result_too_large'')
              else case sc_validateResult (cl_callee c) (cl_commandId c) v (iv_schemas s) of
                     Inl _ \<Rightarrow> answer (Inl ''plugin.command.result_invalid'') (Some ''plugin.command.result_invalid'')
                   | Inr _ \<Rightarrow> answer (Inr v) None))"

section \<open>The wiring\<close>

definition RATE_LIMIT_PER_PAIR :: int where "RATE_LIMIT_PER_PAIR = 10"
definition RATE_LIMIT_WINDOW_MS :: int where "RATE_LIMIT_WINDOW_MS = 1000"
definition THROTTLE_THRESHOLD :: int where "THROTTLE_THRESHOLD = 10"
definition THROTTLE_WINDOW_MS :: int where "THROTTLE_WINDOW_MS = 60000"
definition THROTTLE_BLOCK_MS :: int where "THROTTLE_BLOCK_MS = 5 * 60000"
definition CHAIN_MAX_DEPTH :: int where "CHAIN_MAX_DEPTH = 8"

definition wired_invoker :: "'v invoker" where
  "wired_invoker =
     \<lparr> iv_schemas = sc_new False, iv_rateLimiter = rt_new RATE_LIMIT_PER_PAIR RATE_LIMIT_WINDOW_MS,
       iv_throttle = ct_new THROTTLE_THRESHOLD THROTTLE_WINDOW_MS THROTTLE_BLOCK_MS,
       iv_depth = cd_new (Some CHAIN_MAX_DEPTH), iv_audit = [],
       iv_argsMaxBytes = DEFAULT_ARGS_MAX_BYTES, iv_resultMaxBytes = DEFAULT_RESULT_MAX_BYTES \<rparr>"

definition wiredTaskId :: "string option \<Rightarrow> string \<Rightarrow> int \<Rightarrow> string \<Rightarrow> string" where
  "wiredTaskId provided callerId now rnd =
     (case provided of Some t \<Rightarrow> t | None \<Rightarrow> ''_chain_'' @ callerId @ ''_'' @ show_int now @ ''_'' @ rnd)"

text \<open>
  The \<open>execute\<close> the capability host calls. \<open>rnd\<close> is the random part of a synthetic task id. The
  wrapper takes three arguments, so the chain the caller hands over is not passed on.
\<close>

definition wired_execute ::
  "('v \<Rightarrow> stringified) \<Rightarrow> registry \<Rightarrow> bool \<Rightarrow> int \<Rightarrow> string \<Rightarrow> string option \<Rightarrow> call_chain option \<Rightarrow> string \<Rightarrow> string \<Rightarrow> 'v \<Rightarrow>
   call_chain option \<Rightarrow> 'v invoker \<Rightarrow> 'v progress \<times> 'v invoker"
where
  "wired_execute stringify reg active now rnd provided ambient callerId commandId args explicit s =
     execute_call stringify reg active now (Some (wiredTaskId provided callerId now rnd)) ambient callerId commandId args None s"

definition onPluginRemoved :: "string \<Rightarrow> 'v invoker \<Rightarrow> 'v invoker" where
  "onPluginRemoved pluginId s =
     s \<lparr> iv_schemas := sc_uninstall pluginId (iv_schemas s), iv_throttle := ct_reset pluginId (iv_throttle s) \<rparr>"


section \<open>Runs of many calls\<close>

text \<open>
  The invoker together with the calls that wait for an answer, in the order of their arrival, and
  the outcomes handed back to the callers.
\<close>

record 'v call_system =
  sy_invoker :: "'v invoker"
  sy_open :: "(nat, 'v progress) jmap"
  sy_settled :: "(nat \<times> (string, 'v) result) list"
  sy_next :: nat

record 'v request =
  rq_registry :: registry
  rq_active :: bool
  rq_rnd :: string
  rq_provided :: "string option"
  rq_ambient :: "call_chain option"
  rq_caller :: string
  rq_command :: string
  rq_args :: 'v
  rq_explicit :: "call_chain option"

datatype 'v call_event =
    Execute int "'v request"
  | ActivationAnswer int nat activation_answer
  | HandlerAnswer int nat "'v handler_answer"
  | PluginRemoved string
  | SchemasInstalled string "(string, 'v compiled_pair) jmap"

definition record_progress :: "nat \<Rightarrow> 'v progress \<times> 'v invoker \<Rightarrow> 'v call_system \<Rightarrow> 'v call_system" where
  "record_progress cid r sy =
     (case r of
        (CallSettled res, iv) \<Rightarrow>
          sy \<lparr> sy_invoker := iv, sy_open := jdel (sy_open sy) cid, sy_settled := sy_settled sy @ [(cid, res)] \<rparr>
      | (p, iv) \<Rightarrow> sy \<lparr> sy_invoker := iv, sy_open := jset (sy_open sy) cid p \<rparr>)"

fun call_step :: "('v \<Rightarrow> stringified) \<Rightarrow> 'v call_event \<Rightarrow> 'v call_system \<Rightarrow> 'v call_system" where
  "call_step stringify (Execute now q) sy =
     record_progress (sy_next sy)
       (wired_execute stringify (rq_registry q) (rq_active q) now (rq_rnd q) (rq_provided q) (rq_ambient q)
          (rq_caller q) (rq_command q) (rq_args q) (rq_explicit q) (sy_invoker sy))
       (sy \<lparr> sy_next := Suc (sy_next sy) \<rparr>)"
| "call_step stringify (ActivationAnswer now cid answer) sy =
     (case map_of (sy_open sy) cid of
        Some (Activating c) \<Rightarrow> record_progress cid (activation_answered now answer c (sy_invoker sy)) sy
      | _ \<Rightarrow> sy)"
| "call_step stringify (HandlerAnswer now cid answer) sy =
     (case map_of (sy_open sy) cid of
        Some (Invoking c) \<Rightarrow> record_progress cid (handler_answered stringify now answer c (sy_invoker sy)) sy
      | _ \<Rightarrow> sy)"
| "call_step stringify (PluginRemoved p) sy = sy \<lparr> sy_invoker := onPluginRemoved p (sy_invoker sy) \<rparr>"
| "call_step stringify (SchemasInstalled p m) sy =
     sy \<lparr> sy_invoker := (sy_invoker sy) \<lparr> iv_schemas :=
            (iv_schemas (sy_invoker sy)) \<lparr> sc_byPlugin := jset (sc_byPlugin (iv_schemas (sy_invoker sy))) p m \<rparr> \<rparr> \<rparr>"

fun call_run :: "('v \<Rightarrow> stringified) \<Rightarrow> 'v call_event list \<Rightarrow> 'v call_system \<Rightarrow> 'v call_system" where
  "call_run stringify [] sy = sy"
| "call_run stringify (e # es) sy = call_run stringify es (call_step stringify e sy)"

definition call_system_new :: "'v call_system" where
  "call_system_new = \<lparr> sy_invoker = wired_invoker, sy_open = [], sy_settled = [], sy_next = 0 \<rparr>"

section \<open>Lemmas on the parts\<close>

abbreviation isr :: "('e, 'a) result \<Rightarrow> bool" where
  "isr r \<equiv> \<not> isl r"

lemma jset_fresh: "map_of m k = None \<Longrightarrow> jset m k v = m @ [(k, v)]"
  by (induction m k v rule: jset.induct) (auto split: if_splits)

lemma jdel_mset: "jwf m \<Longrightarrow> map_of m k = Some v \<Longrightarrow> mset m = add_mset (k, v) (mset (jdel m k))"
proof (induction m)
  case (Cons e m)
  show ?case
  proof (cases "fst e = k")
    case True
    then have "jdel m k = m" using Cons.prems by (intro jdel_absent) (auto simp: jwf_def map_of_none_iff)
    then show ?thesis using Cons.prems True by (cases e) (simp add: jdel_def)
  next
    case False
    then show ?thesis using Cons by (cases e) (simp add: jwf_def jdel_def)
  qed
qed simp

lemma jset_mset: "jwf m \<Longrightarrow> map_of m k = Some w \<Longrightarrow> mset (jset m k v) = add_mset (k, v) (mset (jdel m k))"
proof (induction m k v rule: jset.induct)
  case (2 k' v' m k v)
  show ?case
  proof (cases "k' = k")
    case True
    then have "jdel m k = m" using "2.prems" by (intro jdel_absent) (auto simp: jwf_def map_of_none_iff)
    then show ?thesis using True by (simp add: jdel_def)
  next
    case False
    then show ?thesis using 2 by (simp add: jwf_def jdel_def)
  qed
qed simp

fun call_of :: "'v progress \<Rightarrow> 'v call option" where
  "call_of (CallSettled r) = None"
| "call_of (Activating c) = Some c"
| "call_of (Invoking c) = Some c"

lemma iv_log_simps [simp]:
  "iv_depth (iv_log e s) = iv_depth s" "iv_audit (iv_log e s) = iv_audit s @ [e]"
  by (simp_all add: iv_log_def)

lemma leave_call_simps [simp]:
  "iv_depth (leave_call c s) = cd_exit (cl_taskId c) (iv_depth s)" "iv_audit (leave_call c s) = iv_audit s"
  by (simp_all add: leave_call_def)

lemma call_entry_ok [simp]: "ie_ok (call_entry now c r code) \<longleftrightarrow> code = None"
  by (simp add: call_entry_def)

text \<open>The guards leave the depth counter and the audit alone.\<close>

lemma check_call_frame:
  assumes "check_call reg now c s = (r, s')"
  shows "iv_depth s' = iv_depth s \<and> iv_audit s' = iv_audit s"
  using assms
  by (auto simp: check_call_def schema_step_def Let_def split: if_splits prod.splits sum.splits)

text \<open>Which calls pass the guards.\<close>

lemma callerAllows_iff:
  "callerAllows reg c \<longleftrightarrow> (\<exists>p l. reg (cl_caller c) = Some p \<and> ix_invokesCommands p = Some l \<and> cl_commandId c \<in> set l)"
  by (cases "reg (cl_caller c)"; cases "Option.bind (reg (cl_caller c)) ix_invokesCommands")
    (auto simp: callerAllows_def)

lemma calleeEnabled_iff: "calleeEnabled reg c \<longleftrightarrow> (\<exists>q. reg (cl_callee c) = Some q \<and> ix_enabled q)"
  by (auto simp: calleeEnabled_def split: option.splits)

lemma findCommand_iff:
  "findCommand reg c = Some x \<longleftrightarrow>
     (\<exists>q l. reg (cl_callee c) = Some q \<and> ix_commands q = Some l \<and> find (\<lambda>y. pcmd_id y = cl_commandId c) l = Some x)"
  by (cases "reg (cl_callee c)") (auto simp: findCommand_def split: option.splits)

lemma schema_step_ok: "(\<exists>s'. schema_step now c s = (Inr (), s')) \<longleftrightarrow> sc_validateArgs (cl_callee c) (cl_commandId c) (cl_args c) (iv_schemas s) = Inr ()"
  by (auto simp: schema_step_def split: sum.splits)

lemma check_call_passes:
  "(\<exists>s'. check_call reg now c s = (Inr (), s')) \<longleftrightarrow>
     cl_depth c \<le> cd_max (iv_depth s) \<and> callerAllows reg c \<and> calleeEnabled reg c \<and>
     (\<exists>x. findCommand reg c = Some x \<and> \<not> pcmd_operation x \<and> pcmd_public x = Some True) \<and>
     \<not> fst (ct_isBlocked now (cl_caller c) (iv_throttle s)) \<and>
     fst (rt_consume now (cl_caller c) (cl_callee c) (iv_rateLimiter s)) \<and>
     cl_argsSize c \<le> iv_argsMaxBytes s \<and>
     sc_validateArgs (cl_callee c) (cl_commandId c) (cl_args c) (iv_schemas s) = Inr ()"
  by (auto simp: check_call_def Let_def schema_step_ok not_le split: prod.splits option.splits)

lemma enter_call_simps:
  assumes "enter_call now caller callee cmd args n task ch s = (c, s1)"
  shows "cl_caller c = caller" "cl_callee c = callee" "cl_commandId c = cmd" "cl_args c = args" "cl_argsSize c = n"
    "cl_startTs c = now" "cl_taskId c = task" "cl_chain c = ch" "cl_depth c = fst (cd_enter task (iv_depth s))"
    "s1 = s \<lparr> iv_depth := snd (cd_enter task (iv_depth s)) \<rparr>"
  using assms by (auto simp: enter_call_def split: prod.splits)

text \<open>The three ways \<open>execute\<close> leaves its first part.\<close>

lemma execute_call_cases:
  assumes "execute_call stringify reg active now provided ambient caller cmd args explicit s = (p, s')"
  obtains (refused) e code where "p = CallSettled (Inl code)" "s' = iv_log e s" "\<not> ie_ok e"
      "parseCalleeId cmd = None \<or> (\<exists>callee. parseCalleeId cmd = Some callee \<and>
         callee \<in> set (cc_plugins (callChainOf explicit ambient (taskIdOf provided caller now) caller)))"
  | (failed) c code s1 callee where "p = CallSettled (Inl code)" "parseCalleeId cmd = Some callee"
      "enter_call now caller callee cmd args (measureBytes stringify args) (taskIdOf provided caller now)
         (callChainOf explicit ambient (taskIdOf provided caller now) caller) s = (c, s1)"
      "fst (check_call reg now c s1) = Inl code"
      "s' = leave_call c (iv_log (call_entry now c None (Some code)) (snd (check_call reg now c s1)))"
  | (admitted) c s1 callee where "p = (if active then Invoking c else Activating c)" "parseCalleeId cmd = Some callee"
      "enter_call now caller callee cmd args (measureBytes stringify args) (taskIdOf provided caller now)
         (callChainOf explicit ambient (taskIdOf provided caller now) caller) s = (c, s1)"
      "callee \<notin> set (cc_plugins (callChainOf explicit ambient (taskIdOf provided caller now) caller))"
      "check_call reg now c s1 = (Inr (), s')"
proof (cases "parseCalleeId cmd")
  case None
  then show thesis using assms by (intro refused) (auto simp: execute_call_def refuse_call_def)
next
  case (Some callee)
  let ?task = "taskIdOf provided caller now"
  let ?chain = "callChainOf explicit ambient ?task caller"
  obtain c s1 where ec: "enter_call now caller callee cmd args (measureBytes stringify args) ?task ?chain s = (c, s1)"
    by fastforce
  show thesis
  proof (cases "callee \<in> set (cc_plugins ?chain)")
    case True
    then show thesis using assms Some by (intro refused) (auto simp: execute_call_def refuse_call_def)
  next
    case False
    obtain r s2 where ck: "check_call reg now c s1 = (r, s2)" by fastforce
    show thesis
    proof (cases r)
      case (Inl code)
      then show thesis using assms Some False ec ck
        by (intro failed) (auto simp: execute_call_def auditFail_def)
    next
      case (Inr u)
      then show thesis using assms Some False ec ck by (intro admitted) (auto simp: execute_call_def)
    qed
  qed
qed


section \<open>Steps of a run\<close>

definition rethrows :: "'v call_event \<Rightarrow> bool" where
  "rethrows e \<longleftrightarrow> (\<exists>now k. e = HandlerAnswer now k (HandlerAppError ''plugin.runtime.reentrant_call''))"

abbreviation depth_of :: "'v call_system \<Rightarrow> chain_depth" where
  "depth_of sy \<equiv> iv_depth (sy_invoker sy)"

abbreviation audit_of :: "'v call_system \<Rightarrow> invoke_entry list" where
  "audit_of sy \<equiv> iv_audit (sy_invoker sy)"

lemma activation_answered_cases:
  assumes "activation_answered now answer c s = (p, s')"
  obtains "p = Invoking c" "s' = s"
  | e res where "p = CallSettled (Inl res)" "iv_depth s' = cd_exit (cl_taskId c) (iv_depth s)" "iv_audit s' = iv_audit s @ [e]" "\<not> ie_ok e"
  using assms by (cases answer) (auto simp: activation_answered_def auditFail_def)

lemma handler_answered_cases:
  assumes "handler_answered stringify now answer c s = (p, s')"
  obtains (rethrown) "answer = HandlerAppError ''plugin.runtime.reentrant_call''" "p = CallSettled (Inl ''plugin.runtime.reentrant_call'')"
      "iv_depth s' = cd_exit (cl_taskId c) (iv_depth s)" "iv_audit s' = iv_audit s"
  | (answered) e res where "p = CallSettled res" "iv_depth s' = cd_exit (cl_taskId c) (iv_depth s)"
      "iv_audit s' = iv_audit s @ [e]" "ie_ok e \<longleftrightarrow> isr res"
  using assms
  by (cases answer) (auto simp: handler_answered_def auditFail_def Let_def split: if_splits sum.splits)

lemma call_step_cases:
  assumes "\<forall>k\<in>fst ` set (sy_open sy). k < sy_next sy"
  obtains (quiet) "sy_open (call_step stringify e sy) = sy_open sy" "sy_settled (call_step stringify e sy) = sy_settled sy"
      "sy_next (call_step stringify e sy) = sy_next sy" "depth_of (call_step stringify e sy) = depth_of sy"
      "audit_of (call_step stringify e sy) = audit_of sy"
  | (opened) p c where "call_of p = Some c" "sy_open (call_step stringify e sy) = sy_open sy @ [(sy_next sy, p)]"
      "sy_settled (call_step stringify e sy) = sy_settled sy" "sy_next (call_step stringify e sy) = Suc (sy_next sy)"
      "depth_of (call_step stringify e sy) = snd (cd_enter (cl_taskId c) (depth_of sy))"
      "cl_depth c = fst (cd_enter (cl_taskId c) (depth_of sy))" "cl_depth c \<le> cd_max (depth_of sy)"
      "audit_of (call_step stringify e sy) = audit_of sy"
  | (refused) en code t where "sy_open (call_step stringify e sy) = sy_open sy"
      "sy_settled (call_step stringify e sy) = sy_settled sy @ [(sy_next sy, Inl code)]"
      "sy_next (call_step stringify e sy) = Suc (sy_next sy)"
      "depth_of (call_step stringify e sy) = depth_of sy \<or>
       depth_of (call_step stringify e sy) = cd_exit t (snd (cd_enter t (depth_of sy)))"
      "audit_of (call_step stringify e sy) = audit_of sy @ [en]" "\<not> ie_ok en"
  | (advanced) k c where "map_of (sy_open sy) k = Some (Activating c)"
      "sy_open (call_step stringify e sy) = jset (sy_open sy) k (Invoking c)" "sy_settled (call_step stringify e sy) = sy_settled sy"
      "sy_next (call_step stringify e sy) = sy_next sy" "depth_of (call_step stringify e sy) = depth_of sy"
      "audit_of (call_step stringify e sy) = audit_of sy"
  | (closed) k p c res where "map_of (sy_open sy) k = Some p" "call_of p = Some c"
      "sy_open (call_step stringify e sy) = jdel (sy_open sy) k"
      "sy_settled (call_step stringify e sy) = sy_settled sy @ [(k, res)]" "sy_next (call_step stringify e sy) = sy_next sy"
      "depth_of (call_step stringify e sy) = cd_exit (cl_taskId c) (depth_of sy)"
      "audit_of (call_step stringify e sy) = audit_of sy \<and> isl res \<and> rethrows e \<or>
       (\<exists>en. audit_of (call_step stringify e sy) = audit_of sy @ [en] \<and> (ie_ok en \<longleftrightarrow> isr res))"
proof (cases e)
  case (Execute now q)
  have fresh: "map_of (sy_open sy) (sy_next sy) = None" using assms by (auto simp: map_of_none_iff)
  then have del: "jdel (sy_open sy) (sy_next sy) = sy_open sy" by (rule jdel_absent)
  have app: "jset (sy_open sy) (sy_next sy) p = sy_open sy @ [(sy_next sy, p)]" for p
    using fresh by (rule jset_fresh)
  let ?pr = "Some (wiredTaskId (rq_provided q) (rq_caller q) now (rq_rnd q))"
  obtain p s' where r: "execute_call stringify (rq_registry q) (rq_active q) now ?pr (rq_ambient q) (rq_caller q) (rq_command q)
      (rq_args q) None (sy_invoker sy) = (p, s')" by fastforce
  then have st: "call_step stringify e sy = record_progress (sy_next sy) (p, s') (sy \<lparr> sy_next := Suc (sy_next sy) \<rparr>)"
    using Execute by (simp add: wired_execute_def)
  from r show thesis
  proof (cases rule: execute_call_cases)
    case (refused en code)
    then show thesis using st del by (intro that(3) [of code "[]" en]) (simp_all add: record_progress_def)
  next
    case (failed c code s1 callee)
    note c = enter_call_simps [OF failed(3)]
    obtain r2 s2 where ck: "check_call (rq_registry q) now c s1 = (r2, s2)" by fastforce
    from check_call_frame [OF ck] show thesis
      using failed st del c ck
      by (intro that(3) [of code "cl_taskId c" "call_entry now c None (Some code)"]) (simp_all add: record_progress_def)
  next
    case (admitted c s1 callee)
    note c = enter_call_simps [OF admitted(3)]
    have ok: "cl_depth c \<le> cd_max (iv_depth s1)" using admitted(5) check_call_passes [of "rq_registry q" now c s1] by auto
    from check_call_frame [OF admitted(5)] show thesis
      using admitted st app c ok
      by (intro that(2) [of p c]) (simp_all add: record_progress_def)
  qed
next
  case (ActivationAnswer now k answer)
  show thesis
  proof (cases "\<exists>c. map_of (sy_open sy) k = Some (Activating c)")
    case True
    then obtain c where c: "map_of (sy_open sy) k = Some (Activating c)" by blast
    obtain p s' where r: "activation_answered now answer c (sy_invoker sy) = (p, s')" by fastforce
    then have st: "call_step stringify e sy = record_progress k (p, s') sy" using ActivationAnswer c by simp
    from r show thesis
    proof (cases rule: activation_answered_cases)
      case 1
      then show thesis using st c by (intro that(4) [of k c]) (simp_all add: record_progress_def)
    next
      case (2 en res)
      then show thesis using st c by (intro that(5) [of k "Activating c" c "Inl res"]) (simp_all add: record_progress_def)
    qed
  next
    case False
    then have "call_step stringify e sy = sy" using ActivationAnswer by (auto split: option.split progress.split)
    then show thesis using that(1) by simp
  qed
next
  case (HandlerAnswer now k answer)
  show thesis
  proof (cases "\<exists>c. map_of (sy_open sy) k = Some (Invoking c)")
    case True
    then obtain c where c: "map_of (sy_open sy) k = Some (Invoking c)" by blast
    obtain p s' where r: "handler_answered stringify now answer c (sy_invoker sy) = (p, s')" by fastforce
    then have st: "call_step stringify e sy = record_progress k (p, s') sy" using HandlerAnswer c by simp
    from r show thesis
    proof (cases rule: handler_answered_cases)
      case rethrown
      then show thesis using st c HandlerAnswer
        by (intro that(5) [of k "Invoking c" c "Inl ''plugin.runtime.reentrant_call''"]) (simp_all add: record_progress_def rethrows_def)
    next
      case (answered en res)
      then show thesis using st c by (intro that(5) [of k "Invoking c" c res]) (simp_all add: record_progress_def)
    qed
  next
    case False
    then have "call_step stringify e sy = sy" using HandlerAnswer by (auto split: option.split progress.split)
    then show thesis using that(1) by simp
  qed
next
  case (PluginRemoved p)
  then show thesis by (intro that(1)) (simp_all add: onPluginRemoved_def)
next
  case (SchemasInstalled p m)
  then show thesis by (intro that(1)) simp_all
qed

section \<open>The invariant of a run\<close>

fun task_of :: "'v progress \<Rightarrow> string" where
  "task_of (CallSettled r) = []"
| "task_of (Activating c) = cl_taskId c"
| "task_of (Invoking c) = cl_taskId c"

lemma task_of_call: "call_of p = Some c \<Longrightarrow> task_of p = cl_taskId c"
  by (cases p) auto

definition call_inv :: "'v call_system \<Rightarrow> bool" where
  "call_inv sy \<longleftrightarrow>
     jwf (sy_open sy) \<and> (\<forall>k\<in>fst ` set (sy_open sy). k < sy_next sy) \<and>
     cd_max (depth_of sy) = CHAIN_MAX_DEPTH \<and> cd_ok (depth_of sy) \<and>
     cd_bag (depth_of sy) = image_mset (\<lambda>e. task_of (snd e)) (mset (sy_open sy)) \<and>
     (\<forall>t. int (count (cd_bag (depth_of sy)) t) \<le> CHAIN_MAX_DEPTH)"

lemma call_inv_new: "call_inv call_system_new"
  by (auto simp: call_inv_def call_system_new_def wired_invoker_def CHAIN_MAX_DEPTH_def) (simp add: cd_new_def)

lemma call_inv_step:
  assumes "call_inv sy"
  shows "call_inv (call_step stringify e sy)"
proof -
  have inv: "jwf (sy_open sy)" "\<forall>k\<in>fst ` set (sy_open sy). k < sy_next sy" "cd_max (depth_of sy) = CHAIN_MAX_DEPTH"
    "cd_ok (depth_of sy)" "cd_bag (depth_of sy) = image_mset (\<lambda>e. task_of (snd e)) (mset (sy_open sy))"
    "\<And>t. int (count (cd_bag (depth_of sy)) t) \<le> CHAIN_MAX_DEPTH"
    using assms by (auto simp: call_inv_def)
  from inv(2) show ?thesis
  proof (cases rule: call_step_cases [of _ stringify e])
    case quiet
    then show ?thesis using inv by (simp add: call_inv_def)
  next
    case (opened p c)
    let ?d = "snd (cd_enter (cl_taskId c) (depth_of sy))"
    have "cd_ok ?d" "cd_bag ?d = add_mset (cl_taskId c) (cd_bag (depth_of sy))"
      using inv(4) by (simp_all add: cd.ok_enter cd.bag_enter)
    moreover have "int (count (cd_bag (depth_of sy)) (cl_taskId c)) + 1 \<le> CHAIN_MAX_DEPTH"
      using opened(6,7) inv(3,4) by (simp add: cd.depth_enter)
    ultimately show ?thesis
      using opened inv task_of_call [OF opened(1)]
      by (auto simp: call_inv_def jwf_def less_Suc_eq dest: inv(2) [rule_format])
  next
    case (refused en code t)
    have "cd_ok (depth_of (call_step stringify e sy)) \<and> cd_bag (depth_of (call_step stringify e sy)) = cd_bag (depth_of sy) \<and>
        cd_max (depth_of (call_step stringify e sy)) = cd_max (depth_of sy)"
      using refused(4) inv(4) by (auto simp: cd.ok_enter cd.ok_leave cd.leave_enter)
    then show ?thesis using refused inv by (auto simp: call_inv_def less_Suc_eq)
  next
    case (advanced k c)
    have "k < sy_next sy" using inv(2) map_of_SomeD [OF advanced(1)] by force
    then show ?thesis using advanced inv jset_mset [OF inv(1) advanced(1), of "Invoking c"] jdel_mset [OF inv(1) advanced(1)]
      by (auto simp: call_inv_def)
  next
    case (closed k p c res)
    let ?d = "cd_exit (cl_taskId c) (depth_of sy)"
    have b: "cd_ok ?d" "cd_bag ?d = cd_bag (depth_of sy) - {#cl_taskId c#}"
      using inv(4) by (simp_all add: cd.ok_leave cd.bag_leave)
    have "cd_bag ?d = image_mset (\<lambda>e. task_of (snd e)) (mset (jdel (sy_open sy) k))"
      using b(2) inv(5) jdel_mset [OF inv(1) closed(1)] task_of_call [OF closed(2)] by simp
    moreover have "int (count (cd_bag ?d) t) \<le> CHAIN_MAX_DEPTH" for t
      using inv(6) [of t] b(2) by auto
    ultimately show ?thesis using closed inv b by (auto simp: call_inv_def)
  qed
qed

lemma call_inv_run: "call_inv sy \<Longrightarrow> call_inv (call_run stringify es sy)"
  by (induction es arbitrary: sy) (simp_all add: call_inv_step)


section \<open>The audit of a run\<close>

definition audit_inv :: "'v call_system \<Rightarrow> bool" where
  "audit_inv sy \<longleftrightarrow>
     length (filter ie_ok (audit_of sy)) = length (filter (\<lambda>e. isr (snd e)) (sy_settled sy)) \<and>
     length (audit_of sy) \<le> length (sy_settled sy)"

lemma audit_step:
  assumes "call_inv sy" and "audit_inv sy"
  shows "audit_inv (call_step stringify e sy) \<and>
    (\<not> rethrows e \<longrightarrow>
       int (length (audit_of (call_step stringify e sy))) - int (length (audit_of sy)) =
       int (length (sy_settled (call_step stringify e sy))) - int (length (sy_settled sy)))"
proof -
  have "\<forall>k\<in>fst ` set (sy_open sy). k < sy_next sy" using assms(1) by (simp add: call_inv_def)
  then show ?thesis
  proof (cases rule: call_step_cases [of _ stringify e])
    case (closed k p c res)
    then show ?thesis using assms(2) by (cases res) (auto simp: audit_inv_def)
  qed (use assms(2) in \<open>auto simp: audit_inv_def\<close>)
qed

lemma audit_run:
  assumes "call_inv sy" and "audit_inv sy"
  shows "audit_inv (call_run stringify es sy) \<and>
    (list_all (\<lambda>e. \<not> rethrows e) es \<longrightarrow>
       int (length (audit_of (call_run stringify es sy))) - int (length (audit_of sy)) =
       int (length (sy_settled (call_run stringify es sy))) - int (length (sy_settled sy)))"
  using assms
proof (induction es arbitrary: sy)
  case (Cons e es)
  then show ?case
    using Cons.IH [OF call_inv_step [OF Cons.prems(1)], of stringify e] audit_step [OF Cons.prems, of stringify e] by auto
qed simp

section \<open>Properties\<close>

text \<open>
  C39: the depth of a task counts its open calls. In every run of calls, activations, handler
  answers, removals and installations, the counter of a task is the number of its calls that wait
  for an answer, never more than the maximal depth of a chain; when no call is open the table is
  empty again, so no error path leaks a level.
\<close>
theorem calls_balanced:
  "cd_current t (depth_of (call_run stringify es call_system_new)) =
     int (length (filter (\<lambda>e. task_of (snd e) = t) (sy_open (call_run stringify es call_system_new)))) \<and>
   cd_current t (depth_of (call_run stringify es call_system_new)) \<le> CHAIN_MAX_DEPTH \<and>
   (sy_open (call_run stringify es call_system_new) = [] \<longrightarrow>
      cd_depths (depth_of (call_run stringify es call_system_new)) = [])"
proof -
  let ?sy = "call_run stringify es call_system_new"
  have inv: "call_inv ?sy" by (rule call_inv_run [OF call_inv_new])
  then have ok: "cd_ok (depth_of ?sy)" and bag: "cd_bag (depth_of ?sy) = image_mset (\<lambda>e. task_of (snd e)) (mset (sy_open ?sy))"
    by (simp_all add: call_inv_def)
  have "count (image_mset (\<lambda>e. task_of (snd e)) (mset xs)) t = length (filter (\<lambda>e. task_of (snd e) = t) xs)"
    for xs :: "(nat \<times> 'a progress) list"
    by (induction xs) auto
  then have n: "cd_current t (depth_of ?sy) = int (length (filter (\<lambda>e. task_of (snd e) = t) (sy_open ?sy)))"
    by (simp add: cd.count_of_bag [OF ok] bag)
  have "cd_depths (depth_of ?sy) = []" if "sy_open ?sy = []"
  proof (rule map_of_all_None)
    fix u
    have "jget_or 0 (cd_depths (depth_of ?sy)) u = 0" using cd_value [OF ok, of u] bag that by simp
    then show "map_of (cd_depths (depth_of ?sy)) u = None"
      using ok jall_get [of "\<lambda>n. 1 \<le> n" "cd_depths (depth_of ?sy)" u] by (fastforce simp: cd_ok_def jget_or_def split: option.splits)
  qed
  moreover have "int (count (cd_bag (depth_of ?sy)) t) \<le> CHAIN_MAX_DEPTH" using inv unfolding call_inv_def by blast
  ultimately show ?thesis using n cd.count_of_bag [OF ok, of t] by simp
qed

text \<open>
  exactly which calls reach their callee. A call proceeds to the activation or the handler
  just when its id names a plugin outside the call chain, the depth of the task allows one more
  level, the caller declares the command, the callee is enabled and lists it as public and not as
  an operation, the caller is not throttled, the pair is within its rate, and the arguments are
  small enough and valid.
\<close>
theorem admission_exact:
  assumes "task = taskIdOf provided caller now" and "chain = callChainOf explicit ambient task caller"
  shows "(\<exists>c. call_of (fst (execute_call stringify reg active now provided ambient caller cmd args explicit s)) = Some c) \<longleftrightarrow>
    (\<exists>callee p q x. parseCalleeId cmd = Some callee \<and> callee \<notin> set (cc_plugins chain) \<and>
       cd_current task (iv_depth s) < cd_max (iv_depth s) \<and>
       reg caller = Some p \<and> (\<exists>l. ix_invokesCommands p = Some l \<and> cmd \<in> set l) \<and>
       reg callee = Some q \<and> ix_enabled q \<and>
       (\<exists>l. ix_commands q = Some l \<and> find (\<lambda>y. pcmd_id y = cmd) l = Some x) \<and>
       pcmd_public x = Some True \<and> \<not> pcmd_operation x \<and>
       \<not> fst (ct_isBlocked now caller (iv_throttle s)) \<and>
       fst (rt_consume now caller callee (iv_rateLimiter s)) \<and>
       measureBytes stringify args \<le> iv_argsMaxBytes s \<and>
       sc_validateArgs callee cmd args (iv_schemas s) = Inr ())"
proof -
  have d: "fst (cd_enter task (iv_depth s)) \<le> cd_max (iv_depth s) \<longleftrightarrow> cd_current task (iv_depth s) < cd_max (iv_depth s)"
    by (auto simp: cd_enter_def cd_current_def Let_def)
  obtain p s' where r: "execute_call stringify reg active now provided ambient caller cmd args explicit s = (p, s')" by fastforce
  then show ?thesis
  proof (cases rule: execute_call_cases)
    case (refused e code)
    then show ?thesis using r assms by auto
  next
    case (failed c code s1 callee)
    note c = enter_call_simps [OF failed(3)]
    have "\<not> (\<exists>s'. check_call reg now c s1 = (Inr (), s'))" using failed(4) by auto
    then show ?thesis
      unfolding check_call_passes using r failed(1,2) c d assms
      by (auto simp: callerAllows_iff calleeEnabled_iff findCommand_iff)
  next
    case (admitted c s1 callee)
    note c = enter_call_simps [OF admitted(3)]
    have "\<exists>s'. check_call reg now c s1 = (Inr (), s')" using admitted(5) by auto
    then show ?thesis
      unfolding check_call_passes using r admitted(1,2,4) c d assms
      by (auto simp: callerAllows_iff calleeEnabled_iff findCommand_iff)
  qed
qed


text \<open>
  what a caller can get from a handler. A value is handed back just when the handler
  answered with it, it is small enough and it satisfies the schema of the results; every other
  answer becomes one of four fixed codes, so no text of the callee's error reaches the caller.
\<close>
theorem handler_answer_discipline:
  assumes "handler_answered stringify now answer c s = (p, s')"
  shows "(p = CallSettled (Inr v) \<longleftrightarrow>
      answer = HandlerResult v \<and> measureBytes stringify v \<le> iv_resultMaxBytes s \<and>
      sc_validateResult (cl_callee c) (cl_commandId c) v (iv_schemas s) = Inr ()) \<and>
    ((\<exists>w. p = CallSettled (Inr w)) \<or>
     p \<in> (\<lambda>code. CallSettled (Inl code)) `
        {''plugin.command.handler_threw'', ''plugin.runtime.reentrant_call'',
         ''plugin.command.result_too_large'', ''plugin.command.result_invalid''}) \<and>
    iv_depth s' = cd_exit (cl_taskId c) (iv_depth s)"
  using assms
  by (cases answer) (auto simp: handler_answered_def auditFail_def Let_def split: if_splits sum.splits)

text \<open>
  the audit accounts for the outcomes. In every run the audit holds as many successful entries
  as values were handed back to callers, and, unless a handler's lane refused a call as reentrant,
  as many entries as calls were settled.
\<close>
theorem audit_accounts:
  "length (filter ie_ok (audit_of (call_run stringify es call_system_new))) =
     length (filter (\<lambda>e. isr (snd e)) (sy_settled (call_run stringify es call_system_new))) \<and>
   (list_all (\<lambda>e. \<not> rethrows e) es \<longrightarrow>
      length (audit_of (call_run stringify es call_system_new)) =
      length (sy_settled (call_run stringify es call_system_new)))"
proof -
  have "audit_inv (call_system_new :: 'a call_system)"
    "audit_of (call_system_new :: 'a call_system) = []" "sy_settled (call_system_new :: 'a call_system) = []"
    by (simp_all add: audit_inv_def call_system_new_def wired_invoker_def)
  with audit_run [OF call_inv_new this(1), of stringify es] show ?thesis by (auto simp: audit_inv_def)
qed

section \<open>Call chains through the lanes\<close>

text \<open>
  The chains under which handlers run, where the asynchronous context reaches the call: a call from outside runs under
  the chain of its caller, and a handler of an admitted call runs as an entry of the callee's lane, whose chain is the
  one \<open>currentPluginCallChain\<close> answers during the calls it makes. The entry point is the wired one; whatever the
  capability host hands over as a fourth argument is dropped there.
\<close>

inductive runs_under :: "('v \<Rightarrow> stringified) \<Rightarrow> string \<Rightarrow> call_chain \<Rightarrow> bool" for stringify where
  outside: "runs_under stringify p \<lparr> cc_id = i, cc_plugins = [p] \<rparr>"
| nested: "runs_under stringify caller ch \<Longrightarrow>
     call_of (fst (wired_execute stringify reg active now rnd provided (Some ch) caller cmd args explicit s)) = Some c \<Longrightarrow>
     ln_pluginId l = cl_callee c \<Longrightarrow> lane_run uuid (Some (cl_chain c)) am l = (Admitted e, l') \<Longrightarrow>
     runs_under stringify (cl_callee c) (le_chain e)"

lemma admitted_call_chain:
  assumes "call_of (fst (execute_call stringify reg active now provided ambient caller cmd args explicit s)) = Some c"
  shows "cl_chain c = callChainOf explicit ambient (taskIdOf provided caller now) caller \<and>
    cl_callee c \<notin> set (cc_plugins (cl_chain c)) \<and> cl_caller c = caller"
proof -
  obtain p s' where r: "execute_call stringify reg active now provided ambient caller cmd args explicit s = (p, s')" by fastforce
  from r show ?thesis
  proof (cases rule: execute_call_cases)
    case (admitted c' s1 callee)
    then show ?thesis using assms r enter_call_simps [OF admitted(3)] by (auto split: if_splits)
  qed (use assms r in auto)
qed

text \<open>
  Along such chains no plugin comes back: the chain under which a handler runs ends with its plugin and names every
  plugin at most once. The condition is needed, as \<open>wired_misses_reentrancy\<close> shows.
\<close>

lemma carried_chain_never_repeats:
  "runs_under stringify p ch \<Longrightarrow> distinct (cc_plugins ch) \<and> cc_plugins ch \<noteq> [] \<and> last (cc_plugins ch) = p"
proof (induction rule: runs_under.induct)
  case (nested caller ch reg active now rnd provided cmd args explicit s c l uuid am e l')
  have "cl_chain c = ch" "cl_callee c \<notin> set (cc_plugins ch)"
    using admitted_call_chain [OF nested.hyps(2) [unfolded wired_execute_def]] by (auto simp: callChainOf_def)
  then show ?case using admitted_chain [OF nested.hyps(4)] nested.IH nested.hyps(3) by auto
qed simp

section \<open>The chain that the wiring does not pass on\<close>

text \<open>
  The capability host hands the chain of the running handler to the bound invoker, which the
  wiring replaced by a function of three arguments. The chain of a call from a worker is
  therefore only known where the asynchronous context still carries it.
\<close>

lemma wired_ignores_chain:
  "wired_execute stringify reg active now rnd provided ambient caller cmd args explicit s =
   wired_execute stringify reg active now rnd provided ambient caller cmd args None s"
  by (simp add: wired_execute_def)

section \<open>Witnesses\<close>

definition ex_registry :: registry where
  "ex_registry p =
     (if p = ''x.a'' then Some \<lparr> ix_invokesCommands = Some [''x.b.run''], ix_enabled = True, ix_commands = Some [\<lparr> pcmd_id = ''x.a.run'', pcmd_operation = False, pcmd_public = Some True \<rparr>] \<rparr>
      else if p = ''x.b'' then Some \<lparr> ix_invokesCommands = Some [''x.a.run''], ix_enabled = True,
        ix_commands = Some [\<lparr> pcmd_id = ''x.b.run'', pcmd_operation = False, pcmd_public = Some True \<rparr>] \<rparr>
      else None)"

definition ex_pair :: "nat compiled_pair" where
  "ex_pair = \<lparr> cp_args = (\<lambda>v. if v < 5 then Valid else Invalid ''too big''), cp_result = (\<lambda>v. if v < 9 then Valid else Invalid ''no'') \<rparr>"

definition ex_request :: "string \<Rightarrow> nat \<Rightarrow> nat request" where
  "ex_request cmd v = \<lparr> rq_registry = ex_registry, rq_active = False, rq_rnd = ''r'', rq_provided = Some ''t'',
     rq_ambient = None, rq_caller = ''x.a'', rq_command = cmd, rq_args = v, rq_explicit = None \<rparr>"

definition ex_events :: "nat call_event list" where
  "ex_events = [SchemasInstalled ''x.b'' [(''x.b.run'', ex_pair)], Execute 0 (ex_request ''x.b.run'' 3),
     Execute 1 (ex_request ''x.b.run'' 7), Execute 2 (ex_request ''x.b.run'' 2), ActivationAnswer 3 0 Activated,
     HandlerAnswer 4 0 (HandlerResult 8)]"

lemma ex_open: "map (task_of \<circ> snd) (sy_open (call_run Json ex_events call_system_new)) = [''t'']"
  by code_simp

lemma ex_settled: "sy_settled (call_run Json ex_events call_system_new) = [(1, Inl ''plugin.command.args_invalid''), (0, Inr 8)]"
  by code_simp

lemma ex_no_rethrow: "list_all (\<lambda>e. \<not> rethrows e) ex_events"
  by (simp add: ex_events_def rethrows_def)

theorem calls_balanced_witness:
  "cd_current ''t'' (depth_of (call_run Json ex_events call_system_new)) = 1 \<and>
   cd_depths (depth_of (call_run Json (ex_events @ [ActivationAnswer 9 2 ActivationTimeout]) call_system_new)) = []"
proof
  have "map (task_of \<circ> snd) xs = [t] \<Longrightarrow> length (filter (\<lambda>e. task_of (snd e) = t) xs) = 1" for xs :: "(nat \<times> nat progress) list" and t
    by (cases xs) auto
  from this [OF ex_open] show "cd_current ''t'' (depth_of (call_run Json ex_events call_system_new)) = 1"
    using calls_balanced [of "''t''" Json ex_events] by simp
  have "map fst (sy_open (call_run Json (ex_events @ [ActivationAnswer 9 2 ActivationTimeout]) call_system_new)) = []"
    by code_simp
  then show "cd_depths (depth_of (call_run Json (ex_events @ [ActivationAnswer 9 2 ActivationTimeout]) call_system_new)) = []"
    using calls_balanced [of "''t''" Json "ex_events @ [ActivationAnswer 9 2 ActivationTimeout]"] by simp
qed

theorem admission_exact_witness:
  "\<not> (\<exists>c. call_of (fst (execute_call Json ex_registry True 0 (Some ''t'') None ''x.b'' ''x.a.run'' 3
      (Some \<lparr> cc_id = ''i'', cc_plugins = [''x.a'', ''x.b''] \<rparr>) wired_invoker)) = Some c) \<and>
   (\<exists>c. call_of (fst (execute_call Json ex_registry True 0 (Some ''t'') None ''x.b'' ''x.a.run'' 3 None
      (wired_invoker \<lparr> iv_schemas := \<lparr> sc_operationProfile = False, sc_byPlugin = [(''x.a'', [(''x.a.run'', ex_pair)])] \<rparr> \<rparr>))) = Some c)"
  unfolding admission_exact [OF refl refl]
  by (simp add: parseCalleeId_def taskIdOf_def callChainOf_def ex_registry_def wired_invoker_def cd_current_def cd_new_def
      jget_or_def CHAIN_MAX_DEPTH_def ct_isBlocked_def ct_new_def rt_consume_def rt_new_def RATE_LIMIT_PER_PAIR_def
      measureBytes_def DEFAULT_ARGS_MAX_BYTES_def sc_validateArgs_def sc_pair_def ex_pair_def)

theorem handler_answer_discipline_witness:
  "\<exists>s'. handler_answered Json 5 (HandlerAppError ''secret'')
      \<lparr> cl_caller = ''x.a'', cl_callee = ''x.b'', cl_commandId = ''x.b.run'', cl_args = 3, cl_argsSize = 1, cl_startTs = 0,
        cl_taskId = ''t'', cl_depth = 1, cl_chain = \<lparr> cc_id = ''t'', cc_plugins = [''x.a''] \<rparr> \<rparr> wired_invoker =
      (CallSettled (Inl ''plugin.command.handler_threw''), s') \<and> iv_depth s' = cd_new (Some CHAIN_MAX_DEPTH)"
proof -
  let ?c = "\<lparr> cl_caller = ''x.a'', cl_callee = ''x.b'', cl_commandId = ''x.b.run'', cl_args = 3, cl_argsSize = 1, cl_startTs = 0,
        cl_taskId = ''t'', cl_depth = 1, cl_chain = \<lparr> cc_id = ''t'', cc_plugins = [''x.a''] \<rparr> \<rparr> :: nat call"
  obtain p s' where h: "handler_answered Json 5 (HandlerAppError ''secret'') ?c wired_invoker = (p, s')" by fastforce
  then have "p = CallSettled (Inl ''plugin.command.handler_threw'')" by (simp add: handler_answered_def auditFail_def)
  moreover have "iv_depth s' = cd_new (Some CHAIN_MAX_DEPTH)"
    using handler_answer_discipline [OF h, of 0] by (simp add: wired_invoker_def cd_exit_def cd_new_def)
  ultimately show ?thesis using h by blast
qed

theorem audit_accounts_witness:
  "length (audit_of (call_run Json ex_events call_system_new)) = 2 \<and>
   length (filter ie_ok (audit_of (call_run Json ex_events call_system_new))) = 1"
  using audit_accounts [of Json ex_events] ex_no_rethrow by (simp add: ex_settled)

text \<open>
  The call of \<open>x.a\<close> from a handler that runs on behalf of \<open>x.a\<close>: the invoker refuses it as
  reentrant, the wired invoker sends it on.
\<close>

lemma wired_misses_reentrancy:
  defines "s \<equiv> wired_invoker \<lparr> iv_schemas := \<lparr> sc_operationProfile = False, sc_byPlugin = [(''x.a'', [(''x.a.run'', ex_pair)])] \<rparr> \<rparr>"
    and "ch \<equiv> Some \<lparr> cc_id = ''i'', cc_plugins = [''x.a'', ''x.b''] \<rparr>"
  shows "fst (execute_call Json ex_registry True 0 (Some ''t'') None ''x.b'' ''x.a.run'' 3 ch s) =
      CallSettled (Inl ''plugin.runtime.reentrant_call'')"
    and "call_of (fst (wired_execute Json ex_registry True 0 ''r'' (Some ''t'') None ''x.b'' ''x.a.run'' 3 ch s)) \<noteq> None"
  unfolding s_def ch_def by code_simp+

end
