(* ===== verification/Final_Sanitize.thy ===== *)
theory Final_Sanitize
  imports Main
begin

text \<open>
  \<open>sanitizeFinalizeFilename\<close> of \<open>core/fs/finalize-path.ts\<close>. A string is the list of its UTF-16
  units, numbers below 65536, because \<open>slice\<close> and \<open>Buffer.byteLength\<close> act on units.
\<close>

section \<open>UTF-16 and UTF-8\<close>

type_synonym units = "nat list"

definition high_surrogate :: "nat \<Rightarrow> bool" where
  "high_surrogate u \<longleftrightarrow> 55296 \<le> u \<and> u \<le> 56319"

definition low_surrogate :: "nat \<Rightarrow> bool" where
  "low_surrogate u \<longleftrightarrow> 56320 \<le> u \<and> u \<le> 57343"

text \<open>\<open>Buffer.byteLength\<close>: a pair of surrogates has four bytes, a lone one the three of U+FFFD.\<close>

fun byteLength :: "units \<Rightarrow> nat" where
  "byteLength [] = 0"
| "byteLength [u] = (if u < 128 then 1 else if u < 2048 then 2 else 3)"
| "byteLength (u # v # us) =
     (if u < 128 then 1 + byteLength (v # us)
      else if u < 2048 then 2 + byteLength (v # us)
      else if high_surrogate u \<and> low_surrogate v then 4 + byteLength us
      else 3 + byteLength (v # us))"

section \<open>The parts of the sanitizer\<close>

definition MAX_COMPONENT_BYTES :: nat where "MAX_COMPONENT_BYTES = 254"
definition MAX_EXTENSION_BYTES :: nat where "MAX_EXTENSION_BYTES = 24"
definition FALLBACK_NAME :: units where "FALLBACK_NAME = [100, 111, 119, 110, 108, 111, 97, 100]"
definition REPLACEMENT :: nat where "REPLACEMENT = 95"

text \<open>
  The loop of \<open>Array.from\<close> visits code points; every forbidden one is a single unit, and neither
  half of a pair is forbidden, so visiting the units gives the same text.
\<close>

definition isForbiddenFilenameCharacter :: "nat \<Rightarrow> bool" where
  "isForbiddenFilenameCharacter code \<longleftrightarrow> code \<le> 31 \<or> code = 127 \<or> code \<in> {60, 62, 34, 58, 124, 63, 42, 47, 92}"

definition replace_forbidden :: "units \<Rightarrow> units" where
  "replace_forbidden s = map (\<lambda>c. if isForbiddenFilenameCharacter c then REPLACEMENT else c) s"

text \<open>\<open>replace(/[. ]+$/u, '')\<close>\<close>

definition trimmable :: "nat \<Rightarrow> bool" where
  "trimmable c \<longleftrightarrow> c = 46 \<or> c = 32"

definition trim_end :: "units \<Rightarrow> units" where
  "trim_end s = rev (dropWhile trimmable (rev s))"

text \<open>
  \<open>toUpperCase\<close> as far as the comparison with the reserved names goes: beside the letters a to z
  only U+0131 has an image among the letters of these names, and a character whose image has more
  than one letter has none in them.
\<close>

definition upper_unit :: "nat \<Rightarrow> nat" where
  "upper_unit c = (if 97 \<le> c \<and> c \<le> 122 then c - 32 else if c = 305 then 73 else c)"

definition isReservedFilenameStem :: "units \<Rightarrow> bool" where
  "isReservedFilenameStem stem \<longleftrightarrow>
     (let upper = map upper_unit stem
      in upper \<in> {[67, 79, 78], [80, 82, 78], [65, 85, 88], [78, 85, 76], [67, 79, 78, 73, 78, 36], [67, 79, 78, 79, 85, 84, 36]} \<or>
         (length upper = 4 \<and> (take 3 upper = [67, 79, 77] \<or> take 3 upper = [76, 80, 84]) \<and>
          (49 \<le> last upper \<and> last upper \<le> 57 \<or> last upper \<in> {185, 178, 179})))"

definition stem_of :: "units \<Rightarrow> units" where
  "stem_of name = takeWhile (\<lambda>c. c \<noteq> 46) name"

definition dereserveFilename :: "units \<Rightarrow> units" where
  "dereserveFilename name =
     (if \<not> isReservedFilenameStem (stem_of name) then name
      else stem_of name @ [REPLACEMENT] @ dropWhile (\<lambda>c. c \<noteq> 46) name)"

text \<open>\<open>truncateUtf8\<close>: the loop from the whole length downwards.\<close>

fun truncate_loop :: "units \<Rightarrow> nat \<Rightarrow> nat \<Rightarrow> nat" where
  "truncate_loop s maxBytes 0 = 0"
| "truncate_loop s maxBytes (Suc n) =
     (if byteLength (take (Suc n) s) > maxBytes then truncate_loop s maxBytes n else Suc n)"

definition truncateUtf8 :: "units \<Rightarrow> nat \<Rightarrow> units" where
  "truncateUtf8 s maxBytes = take (truncate_loop s maxBytes (length s)) s"

text \<open>What follows the last dot; \<open>lastIndexOf\<close> is the length of what precedes it.\<close>

definition extension_of :: "units \<Rightarrow> units" where
  "extension_of name = rev (takeWhile (\<lambda>c. c \<noteq> 46) (rev name))"

definition before_last_dot :: "units \<Rightarrow> units" where
  "before_last_dot name = take (length name - length (extension_of name) - 1) name"

definition clampFilenameComponent :: "units \<Rightarrow> units" where
  "clampFilenameComponent name =
     (if byteLength name \<le> MAX_COMPONENT_BYTES then name
      else let extension = extension_of name;
               extensionBytes = byteLength extension
           in if 46 \<in> set name \<and> before_last_dot name \<noteq> [] \<and> extensionBytes > 0 \<and> extensionBytes \<le> MAX_EXTENSION_BYTES
              then trim_end (truncateUtf8 (before_last_dot name) (MAX_COMPONENT_BYTES - extensionBytes - 1)) @ 46 # extension
              else trim_end (truncateUtf8 name MAX_COMPONENT_BYTES))"

definition sanitizeFinalizeFilename :: "units \<Rightarrow> units" where
  "sanitizeFinalizeFilename component =
     (let clamped = clampFilenameComponent (dereserveFilename (trim_end (replace_forbidden component)))
      in if clamped = [] then FALLBACK_NAME else clamped)"

section \<open>Lengths\<close>

lemma byteLength_take: "byteLength (take n s) \<le> byteLength s"
proof (induction s arbitrary: n rule: byteLength.induct)
  case (3 u v us)
  show ?case
  proof (cases "n \<le> 1")
    case True
    then show ?thesis by (cases n) auto
  next
    case False
    then obtain m where n: "n = Suc (Suc m)" by (metis One_nat_def Suc_le_D not_less_eq_eq)
    have a: "byteLength (v # take m us) \<le> byteLength (v # us)" if "u < 2048 \<or> \<not> (high_surrogate u \<and> low_surrogate v)"
      using 3 [of "Suc m"] that by auto
    have b: "byteLength (take m us) \<le> byteLength us" if "\<not> u < 2048" "high_surrogate u \<and> low_surrogate v"
      using 3(3) [of m] that by auto
    show ?thesis using a b by (auto simp: n)
  qed
qed (auto simp: take_Cons split: nat.split)

lemma byteLength_join: "\<not> low_surrogate y \<Longrightarrow> byteLength (xs @ y # ys) = byteLength xs + byteLength (y # ys)"
proof (induction xs rule: byteLength.induct)
  case (2 u)
  then show ?case by (auto simp: low_surrogate_def)
next
  case (3 u v us)
  then show ?case by auto
qed simp

lemma byteLength_dot: "byteLength (xs @ 46 # ys) = byteLength xs + 1 + byteLength ys"
  using byteLength_join [of 46 xs ys] by (cases ys) (auto simp: low_surrogate_def)

lemma byteLength_pos: "s \<noteq> [] \<Longrightarrow> 0 < byteLength s"
  by (induction s rule: byteLength.induct) auto

lemma truncate_loop_le: "truncate_loop s m n \<le> n"
  by (induction s m n rule: truncate_loop.induct) auto

lemma truncate_bound: "byteLength (take (truncate_loop s m n) s) \<le> m"
  by (induction s m n rule: truncate_loop.induct) auto

lemma truncateUtf8_bound: "byteLength (truncateUtf8 s m) \<le> m"
  by (simp add: truncateUtf8_def truncate_bound)

lemma set_truncateUtf8: "set (truncateUtf8 s m) \<subseteq> set s"
  by (simp add: truncateUtf8_def set_take_subset)

lemma trim_end_prefix: "\<exists>t. s = trim_end s @ t \<and> list_all trimmable t"
proof -
  have "rev s = takeWhile trimmable (rev s) @ dropWhile trimmable (rev s)" by simp
  then have "s = rev (dropWhile trimmable (rev s)) @ rev (takeWhile trimmable (rev s))"
    by (metis rev_append rev_rev_ident)
  then show ?thesis unfolding trim_end_def
    by (intro exI [of _ "rev (takeWhile trimmable (rev s))"]) (auto simp: list_all_iff dest: set_takeWhileD)
qed

lemma byteLength_trim: "byteLength (trim_end s) \<le> byteLength s"
proof -
  obtain t where "s = trim_end s @ t" using trim_end_prefix [of s] by auto
  then have "trim_end s = take (length (trim_end s)) s" by (metis append_eq_conv_conj)
  then show ?thesis using byteLength_take [of "length (trim_end s)" s] by simp
qed

lemma set_trim_end: "set (trim_end s) \<subseteq> set s"
  by (auto simp: trim_end_def dest: set_dropWhileD)

text \<open>A name that does not end in a dot or a space.\<close>

definition well_ended :: "units \<Rightarrow> bool" where
  "well_ended s \<longleftrightarrow> s = [] \<or> \<not> trimmable (last s)"

lemma well_ended_trim [simp]: "well_ended (trim_end s)"
  using hd_dropWhile [of trimmable "rev s"] by (auto simp: well_ended_def trim_end_def last_rev)

lemma trim_end_id: "well_ended s \<Longrightarrow> trim_end s = s"
  by (cases s rule: rev_cases) (auto simp: well_ended_def trim_end_def)

lemma well_ended_append: "ys \<noteq> [] \<Longrightarrow> well_ended (xs @ ys) = well_ended ys"
  by (simp add: well_ended_def)


section \<open>Each part keeps what the parts before it made\<close>

definition allowed :: "units \<Rightarrow> bool" where
  "allowed s \<longleftrightarrow> list_all (\<lambda>c. \<not> isForbiddenFilenameCharacter c) s"

lemma allowed_mono: "set s \<subseteq> set t \<Longrightarrow> allowed t \<Longrightarrow> allowed s"
  by (auto simp: allowed_def list_all_iff)

lemma allowed_append [simp]: "allowed (s @ t) \<longleftrightarrow> allowed s \<and> allowed t"
  by (simp add: allowed_def)

lemma allowed_replaced: "allowed (replace_forbidden s)"
  by (auto simp: allowed_def replace_forbidden_def list_all_iff isForbiddenFilenameCharacter_def REPLACEMENT_def)

lemma replace_id: "allowed s \<Longrightarrow> replace_forbidden s = s"
  by (simp add: allowed_def replace_forbidden_def list_all_iff map_idI)

lemma stem_rest: "stem_of s @ dropWhile (\<lambda>c. c \<noteq> 46) s = s"
  by (simp add: stem_of_def)

lemma allowed_dereserve: "allowed s \<Longrightarrow> allowed (dereserveFilename s)"
  using stem_rest [of s]
  by (auto simp: dereserveFilename_def allowed_def list_all_iff REPLACEMENT_def isForbiddenFilenameCharacter_def stem_of_def
      dest: set_takeWhileD set_dropWhileD)

lemma well_ended_dereserve: "well_ended s \<Longrightarrow> well_ended (dereserveFilename s)"
proof -
  assume w: "well_ended s"
  show ?thesis
  proof (cases "dropWhile (\<lambda>c. c \<noteq> 46) s = []")
    case True
    then show ?thesis using w by (auto simp: dereserveFilename_def well_ended_def REPLACEMENT_def trimmable_def)
  next
    case False
    then have "well_ended (dropWhile (\<lambda>c. c \<noteq> 46) s)"
      using w well_ended_append [OF False, of "stem_of s"] by (simp add: stem_rest)
    then show ?thesis using w False by (auto simp: dereserveFilename_def well_ended_def)
  qed
qed

lemma dereserve_nonempty: "s \<noteq> [] \<Longrightarrow> dereserveFilename s \<noteq> []"
  by (simp add: dereserveFilename_def)

text \<open>The name around its last dot.\<close>

lemma ext_dot_split:
  assumes "46 \<in> set s"
  shows "s = before_last_dot s @ 46 # extension_of s"
proof -
  let ?t = "takeWhile (\<lambda>c. c \<noteq> 46) (rev s)" and ?d = "dropWhile (\<lambda>c. c \<noteq> 46) (rev s)"
  have "?d \<noteq> []" using assms by (simp add: dropWhile_eq_Nil_conv)
  then obtain d where d: "?d = 46 # d" using hd_dropWhile [of "\<lambda>c. c \<noteq> 46" "rev s"] by (cases ?d) auto
  have "rev s = ?t @ 46 # d" using takeWhile_dropWhile_id [of "\<lambda>c. c \<noteq> 46" "rev s"] d by metis
  then have e: "s = rev d @ 46 # extension_of s" unfolding extension_of_def by (metis append.assoc append_Cons append_Nil rev.simps(2) rev_append rev_rev_ident)
  then have "length s = length d + 1 + length (extension_of s)" by (metis One_nat_def add.assoc add.commute length_Cons length_append length_rev plus_1_eq_Suc)
  then have "before_last_dot s = take (length d) s" by (simp add: before_last_dot_def)
  also have "\<dots> = rev d" using e by (metis append_eq_conv_conj length_rev)
  finally show ?thesis using e by simp
qed

lemma clamp_cases:
  obtains (short) "byteLength s \<le> MAX_COMPONENT_BYTES" "clampFilenameComponent s = s"
  | (kept) stem where "set stem \<subseteq> set s" "clampFilenameComponent s = stem @ 46 # extension_of s" "46 \<in> set s"
      "extension_of s \<noteq> []" "byteLength stem + 1 + byteLength (extension_of s) \<le> MAX_COMPONENT_BYTES" "well_ended stem"
  | (cut) t where "set t \<subseteq> set s" "clampFilenameComponent s = t" "byteLength t \<le> MAX_COMPONENT_BYTES" "well_ended t"
proof (cases "byteLength s \<le> MAX_COMPONENT_BYTES")
  case True
  then show thesis using short by (simp add: clampFilenameComponent_def)
next
  case False
  let ?e = "extension_of s"
  show thesis
  proof (cases "46 \<in> set s \<and> before_last_dot s \<noteq> [] \<and> byteLength ?e > 0 \<and> byteLength ?e \<le> MAX_EXTENSION_BYTES")
    case True
    let ?m = "MAX_COMPONENT_BYTES - byteLength ?e - 1"
    let ?stem = "trim_end (truncateUtf8 (before_last_dot s) ?m)"
    have "byteLength ?stem \<le> ?m" using byteLength_trim truncateUtf8_bound le_trans by blast
    moreover have "byteLength ?e + 1 \<le> MAX_COMPONENT_BYTES" using True by (simp add: MAX_COMPONENT_BYTES_def MAX_EXTENSION_BYTES_def)
    ultimately have "byteLength ?stem + 1 + byteLength ?e \<le> MAX_COMPONENT_BYTES" by linarith
    moreover have "set ?stem \<subseteq> set s"
      using set_trim_end set_truncateUtf8 set_take_subset unfolding before_last_dot_def by (meson order_trans)
    moreover have "?e \<noteq> []" using True by auto
    ultimately show thesis using kept [of ?stem] False True by (simp add: clampFilenameComponent_def Let_def)
  next
    case cutting: False
    let ?t = "trim_end (truncateUtf8 s MAX_COMPONENT_BYTES)"
    have "byteLength ?t \<le> MAX_COMPONENT_BYTES" using byteLength_trim truncateUtf8_bound le_trans by blast
    moreover have "set ?t \<subseteq> set s" using set_trim_end set_truncateUtf8 by (meson order_trans)
    ultimately show thesis using cut [of ?t] False cutting by (simp add: clampFilenameComponent_def Let_def)
  qed
qed

lemma set_extension: "set (extension_of s) \<subseteq> set s"
  by (auto simp: extension_of_def dest: set_takeWhileD)

lemma clamp_keeps:
  assumes "allowed s" and "well_ended s"
  shows "allowed (clampFilenameComponent s) \<and> well_ended (clampFilenameComponent s) \<and>
    byteLength (clampFilenameComponent s) \<le> MAX_COMPONENT_BYTES"
proof (cases s rule: clamp_cases)
  case (kept stem)
  have "well_ended (extension_of s)"
    using ext_dot_split [OF kept(3)] assms(2) well_ended_append kept(4) by (metis append_Cons append_Nil append_assoc append_is_Nil_conv)
  then have "well_ended (clampFilenameComponent s)" using kept(2,4) by (simp add: well_ended_def)
  moreover have "allowed (clampFilenameComponent s)"
    using kept(1,2,3) set_extension [of s] assms(1) by (auto simp: allowed_def list_all_iff)
  ultimately show ?thesis using kept byteLength_dot by simp
next
  case (cut t)
  then show ?thesis using allowed_mono [OF cut(1) assms(1)] by simp
qed (use assms in simp)

section \<open>Properties\<close>

text \<open>
  every name becomes a valid component. Whatever the input, the result is not empty, has no
  control character and no separator or reserved sign, does not end in a dot or a space, and fits
  into 254 bytes of UTF-8.
\<close>
theorem sanitized_component_valid:
  "sanitizeFinalizeFilename s \<noteq> [] \<and> allowed (sanitizeFinalizeFilename s) \<and>
   \<not> trimmable (last (sanitizeFinalizeFilename s)) \<and> byteLength (sanitizeFinalizeFilename s) \<le> MAX_COMPONENT_BYTES"
proof -
  let ?d = "dereserveFilename (trim_end (replace_forbidden s))"
  have "allowed ?d" by (intro allowed_dereserve allowed_mono [OF set_trim_end allowed_replaced])
  moreover have "well_ended ?d" by (intro well_ended_dereserve well_ended_trim)
  ultimately have "allowed (clampFilenameComponent ?d) \<and> well_ended (clampFilenameComponent ?d) \<and>
      byteLength (clampFilenameComponent ?d) \<le> MAX_COMPONENT_BYTES"
    by (rule clamp_keeps)
  then show ?thesis
    by (auto simp: sanitizeFinalizeFilename_def Let_def well_ended_def FALLBACK_NAME_def allowed_def trimmable_def
        isForbiddenFilenameCharacter_def MAX_COMPONENT_BYTES_def)
qed

lemma unreserved: "isReservedFilenameStem s \<Longrightarrow> \<not> isReservedFilenameStem (s @ [95])"
  by (auto simp: isReservedFilenameStem_def Let_def upper_unit_def)

lemma stem_of_append: "46 \<notin> set s \<Longrightarrow> x = [] \<or> hd x = 46 \<Longrightarrow> stem_of (s @ x) = s"
  by (cases x) (auto simp: stem_of_def takeWhile_append takeWhile_eq_all_conv)

lemma dereserved_stem: "\<not> isReservedFilenameStem (stem_of (dereserveFilename s))"
proof (cases "isReservedFilenameStem (stem_of s)")
  case True
  have "46 \<notin> set (stem_of s @ [REPLACEMENT])" by (auto simp: stem_of_def REPLACEMENT_def dest: set_takeWhileD)
  moreover have "dropWhile (\<lambda>c. c \<noteq> 46) s = [] \<or> hd (dropWhile (\<lambda>c. c \<noteq> 46) s) = 46"
    using hd_dropWhile [of "\<lambda>c. c \<noteq> 46" s] by auto
  ultimately have "stem_of (dereserveFilename s) = stem_of s @ [REPLACEMENT]"
    using True stem_of_append [of "stem_of s @ [REPLACEMENT]"] by (simp add: dereserveFilename_def)
  then show ?thesis using unreserved [OF True] by (simp add: REPLACEMENT_def)
qed (simp add: dereserveFilename_def)

text \<open>
  on names that need no clamping the sanitizer is idempotent, and its result is no device name
  of Windows in any of its forms.
\<close>
theorem sanitize_idempotent:
  assumes "byteLength (dereserveFilename (trim_end (replace_forbidden s))) \<le> MAX_COMPONENT_BYTES"
  shows "sanitizeFinalizeFilename (sanitizeFinalizeFilename s) = sanitizeFinalizeFilename s \<and>
    \<not> isReservedFilenameStem (stem_of (sanitizeFinalizeFilename s))"
proof -
  let ?d = "dereserveFilename (trim_end (replace_forbidden s))"
  have r: "sanitizeFinalizeFilename s = (if ?d = [] then FALLBACK_NAME else ?d)"
    using assms by (simp add: sanitizeFinalizeFilename_def clampFilenameComponent_def)
  show ?thesis
  proof (cases "?d = []")
    case True
    have "sanitizeFinalizeFilename FALLBACK_NAME = FALLBACK_NAME \<and> \<not> isReservedFilenameStem (stem_of FALLBACK_NAME)"
      by code_simp
    then show ?thesis using r True by simp
  next
    case False
    have n: "\<not> isReservedFilenameStem (stem_of ?d)" by (rule dereserved_stem)
    have "allowed ?d" by (intro allowed_dereserve allowed_mono [OF set_trim_end allowed_replaced])
    moreover have "well_ended ?d" by (intro well_ended_dereserve well_ended_trim)
    ultimately have "dereserveFilename (trim_end (replace_forbidden ?d)) = ?d"
      using n by (simp add: replace_id trim_end_id dereserveFilename_def [of ?d])
    then have "sanitizeFinalizeFilename ?d = ?d"
      using assms False by (simp add: sanitizeFinalizeFilename_def clampFilenameComponent_def)
    then show ?thesis using r False n by simp
  qed
qed

theorem sanitize_idempotent_witness:
  "sanitizeFinalizeFilename [67, 79, 78, 46, 116, 120, 116, 32] = [67, 79, 78, 95, 46, 116, 120, 116] \<and>
   sanitizeFinalizeFilename (sanitizeFinalizeFilename [67, 79, 78, 46, 116, 120, 116, 32]) =
     sanitizeFinalizeFilename [67, 79, 78, 46, 116, 120, 116, 32]"
proof
  show "sanitizeFinalizeFilename [67, 79, 78, 46, 116, 120, 116, 32] = [67, 79, 78, 95, 46, 116, 120, 116]" by code_simp
  have "byteLength (dereserveFilename (trim_end (replace_forbidden [67, 79, 78, 46, 116, 120, 116, 32]))) \<le> MAX_COMPONENT_BYTES"
    by code_simp
  from sanitize_idempotent [OF this]
  show "sanitizeFinalizeFilename (sanitizeFinalizeFilename [67, 79, 78, 46, 116, 120, 116, 32]) =
     sanitizeFinalizeFilename [67, 79, 78, 46, 116, 120, 116, 32]" by blast
qed

section \<open>Where clamping breaks the promise\<close>

lemma ascii_append: "list_all (\<lambda>c. c < 128) xs \<Longrightarrow> byteLength (xs @ ys) = length xs + byteLength ys"
proof (induction xs)
  case (Cons x xs)
  then show ?case by (cases "xs @ ys") auto
qed simp

lemma ascii_bytes: "list_all (\<lambda>c. c < 128) xs \<Longrightarrow> byteLength xs = length xs"
  using ascii_append [of xs "[]"] by simp

lemma ascii_take: "list_all (\<lambda>c. c < 128) xs \<Longrightarrow> byteLength (take n xs) = min n (length xs)"
  by (subst ascii_bytes) (auto simp: list_all_iff dest: in_set_takeD)

lemma ascii_truncate_loop: "list_all (\<lambda>c. c < 128) xs \<Longrightarrow> n \<le> length xs \<Longrightarrow> truncate_loop xs m n = min m n"
  by (induction n) (auto simp: ascii_take simp del: take_Suc)

lemma ascii_truncate: "list_all (\<lambda>c. c < 128) xs \<Longrightarrow> truncateUtf8 xs m = take m xs"
  by (simp add: truncateUtf8_def ascii_truncate_loop min_def)

lemma reserved_short: "isReservedFilenameStem s \<Longrightarrow> length s \<le> 7"
  by (auto simp: isReservedFilenameStem_def Let_def dest: arg_cong [of _ _ length])

text \<open>
  On names that are clamped idempotence fails: \<open>CON\<close>, 300 spaces and \<open>.txt\<close> are cut to the device
  name \<open>CON.txt\<close>, which a second application turns into \<open>CON_.txt\<close>.
\<close>

lemma clamping_exposes_device_name:
  "sanitizeFinalizeFilename ([67, 79, 78] @ replicate 300 32 @ [46, 116, 120, 116]) = [67, 79, 78, 46, 116, 120, 116]"
  "sanitizeFinalizeFilename [67, 79, 78, 46, 116, 120, 116] = [67, 79, 78, 95, 46, 116, 120, 116]"
  "isReservedFilenameStem (stem_of [67, 79, 78, 46, 116, 120, 116])"
proof -
  let ?stem = "[67, 79, 78] @ replicate 300 32 :: units" and ?n = "[67, 79, 78] @ replicate 300 32 @ [46, 116, 120, 116] :: units"
  have a: "list_all (\<lambda>c. c < 128) ?stem" "list_all (\<lambda>c. c < 128) ?n" by (simp_all add: list_all_iff)
  have "allowed ?n" by (simp add: allowed_def list_all_iff isForbiddenFilenameCharacter_def)
  moreover have "well_ended ?n" by (simp add: well_ended_def trimmable_def)
  ultimately have "trim_end (replace_forbidden ?n) = ?n" by (simp add: replace_id trim_end_id)
  moreover have "stem_of ?n = ?stem" using stem_of_append [of ?stem "[46, 116, 120, 116]"] by simp
  then have "dereserveFilename ?n = ?n" using reserved_short [of ?stem] by (auto simp: dereserveFilename_def)
  moreover have "clampFilenameComponent ?n = [67, 79, 78, 46, 116, 120, 116]"
  proof -
    have e: "extension_of ?n = [116, 120, 116]" by (simp add: extension_of_def)
    have b: "before_last_dot ?n = ?stem" unfolding before_last_dot_def e by simp
    have "byteLength ?n = 307" using ascii_bytes [OF a(2)] by simp
    moreover have "truncateUtf8 ?stem 250 = [67, 79, 78] @ replicate 247 32"
      using ascii_truncate [OF a(1), of 250] by (simp add: take_Cons')
    moreover have "trim_end ([67, 79, 78] @ replicate 247 32) = [67, 79, 78]"
      by (simp add: trim_end_def trimmable_def dropWhile_append)
    ultimately show ?thesis unfolding clampFilenameComponent_def Let_def e b MAX_COMPONENT_BYTES_def MAX_EXTENSION_BYTES_def by simp
  qed
  ultimately show "sanitizeFinalizeFilename ?n = [67, 79, 78, 46, 116, 120, 116]" by (simp add: sanitizeFinalizeFilename_def)
qed code_simp+

text \<open>The cut may fall between the two halves of a surrogate pair: 251 letters and one emoji.\<close>

lemma truncation_splits_pair:
  "truncateUtf8 (replicate 251 97 @ [55356, 57260]) MAX_COMPONENT_BYTES = replicate 251 97 @ [55356]"
  "high_surrogate 55356" "low_surrogate 57260"
proof -
  let ?s = "replicate 251 97 @ [55356, 57260]"
  have b: "byteLength (replicate 251 97 @ ys) = 251 + byteLength ys" for ys
    using ascii_append [of "replicate 251 97" ys] by (simp add: list_all_iff)
  have l: "length ?s = Suc (Suc 251)" by simp
  have "truncate_loop ?s 254 (length ?s) = 252"
    unfolding l truncate_loop.simps by (simp add: b high_surrogate_def low_surrogate_def take_Cons')
  then show "truncateUtf8 ?s MAX_COMPONENT_BYTES = replicate 251 97 @ [55356]"
    by (simp add: truncateUtf8_def MAX_COMPONENT_BYTES_def)
qed (simp_all add: high_surrogate_def low_surrogate_def)

end
