(* ===== verification/Device_Code.thy ===== *)
theory Device_Code
  imports Sliding_Window
begin

text \<open>
  \<open>DeviceCodeService\<close>: pairing of command line clients by a device code. Requests are pending
  until the user decides or their time is over; an approval mints a token, asynchronously, which
  one poll collects. The timers of the runtime are the due times kept with the entries, the mint
  in flight is part of the state, and the calls of the lifecycle hooks are a log.
\<close>

section \<open>Data\<close>

datatype device_status = DcPending | DcApproved | DcDenied | DcExpired

record pairing_request =
  pr_userCode :: string
  pr_clientName :: string
  pr_clientVersion :: string
  pr_deviceId :: string
  pr_status :: device_status
  pr_claimed :: bool
  pr_token :: "string option"
  pr_createdAt :: int
  pr_expiresAt :: int
  pr_timer :: "int option"

text \<open>A mint: its token is not issued yet, or its promise has settled and \<open>approve\<close> has not resumed.\<close>

datatype mint_stage = Minting | MintResolved | MintRejected

datatype lifecycle = PushSettled string bool | PushExpired string

record device_codes =
  dc_pending :: "(string, pairing_request) jmap"
  dc_inFlight :: "(string, mint_stage) jmap"
  dc_requestTimes :: "int list"
  dc_ttlMs :: int
  dc_rateLimitMax :: int
  dc_rateLimitWindowMs :: int
  dc_pushes :: "lifecycle list"

definition DEFAULT_TTL_MS :: int where "DEFAULT_TTL_MS = 5 * 60000"
definition DEFAULT_RATE_MAX :: int where "DEFAULT_RATE_MAX = 10"
definition DEFAULT_RATE_WINDOW_MS :: int where "DEFAULT_RATE_WINDOW_MS = 60000"
definition COLLECT_GRACE_MS :: int where "COLLECT_GRACE_MS = 60000"

definition dc_new :: "int option \<Rightarrow> int option \<Rightarrow> int option \<Rightarrow> device_codes" where
  "dc_new ttl rate window =
     \<lparr> dc_pending = [], dc_inFlight = [], dc_requestTimes = [],
       dc_ttlMs = (case ttl of Some x \<Rightarrow> x | None \<Rightarrow> DEFAULT_TTL_MS),
       dc_rateLimitMax = (case rate of Some x \<Rightarrow> x | None \<Rightarrow> DEFAULT_RATE_MAX),
       dc_rateLimitWindowMs = (case window of Some x \<Rightarrow> x | None \<Rightarrow> DEFAULT_RATE_WINDOW_MS),
       dc_pushes = [] \<rparr>"

text \<open>\<open>DEVICE_HANDLE_RE\<close>\<close>

definition handle_char :: "char \<Rightarrow> bool" where
  "handle_char c \<longleftrightarrow>
     (let k = of_char c :: nat
      in 65 \<le> k \<and> k \<le> 90 \<or> 97 \<le> k \<and> k \<le> 122 \<or> 48 \<le> k \<and> k \<le> 57 \<or> k = 95 \<or> k = 45)"

definition DEVICE_HANDLE_RE :: "string \<Rightarrow> bool" where
  "DEVICE_HANDLE_RE s \<longleftrightarrow> 16 \<le> length s \<and> length s \<le> 64 \<and> list_all handle_char s"

definition USER_CODE_ALPHABET :: string where
  "USER_CODE_ALPHABET = ''ABCDEFGHJKLMNPQRSTUVWXYZ23456789''"

section \<open>Operations\<close>

definition put_entry :: "string \<Rightarrow> pairing_request \<Rightarrow> device_codes \<Rightarrow> device_codes" where
  "put_entry rid e s = s \<lparr> dc_pending := jset (dc_pending s) rid e \<rparr>"

definition push :: "lifecycle \<Rightarrow> device_codes \<Rightarrow> device_codes" where
  "push x s = s \<lparr> dc_pushes := dc_pushes s @ [x] \<rparr>"

definition expireEntry :: "string \<Rightarrow> pairing_request \<Rightarrow> device_codes \<Rightarrow> device_codes" where
  "expireEntry rid e s =
     (if pr_status e \<noteq> DcPending then s
      else push (PushExpired rid) (put_entry rid (e \<lparr> pr_timer := None, pr_status := DcExpired \<rparr>) s))"

definition effectiveStatus :: "int \<Rightarrow> string \<Rightarrow> pairing_request \<Rightarrow> device_codes \<Rightarrow> device_status \<times> device_codes" where
  "effectiveStatus now rid e s =
     (if pr_status e = DcPending \<and> \<not> pr_claimed e \<and> now > pr_expiresAt e
      then (DcExpired, expireEntry rid e s)
      else (pr_status e, s))"

definition swept :: "int \<Rightarrow> (string, mint_stage) jmap \<Rightarrow> string \<times> pairing_request \<Rightarrow> bool" where
  "swept t inFlight x \<longleftrightarrow>
     t > pr_expiresAt (snd x) \<and> \<not> jhas inFlight (fst x) \<and>
     \<not> (pr_claimed (snd x) \<and> t \<le> pr_expiresAt (snd x) + COLLECT_GRACE_MS)"

definition pruneExpired :: "int \<Rightarrow> device_codes \<Rightarrow> device_codes" where
  "pruneExpired t s = s \<lparr> dc_pending := filter (\<lambda>x. \<not> swept t (dc_inFlight s) x) (dc_pending s) \<rparr>"

definition enforceRateLimit :: "int \<Rightarrow> device_codes \<Rightarrow> bool \<times> device_codes" where
  "enforceRateLimit t s =
     (let times = filter (\<lambda>ts. ts > t - dc_rateLimitWindowMs s) (dc_requestTimes s)
      in if int (length times) \<ge> dc_rateLimitMax s then (False, s \<lparr> dc_requestTimes := times \<rparr>)
         else (True, s \<lparr> dc_requestTimes := times @ [t] \<rparr>))"

text \<open>\<open>picks\<close> are the eight numbers of \<open>randomInt\<close>.\<close>

definition makeUserCode :: "nat list \<Rightarrow> string" where
  "makeUserCode picks =
     map (\<lambda>i. USER_CODE_ALPHABET ! i) (take 4 picks) @ ''-'' @ map (\<lambda>i. USER_CODE_ALPHABET ! i) (take 4 (drop 4 picks))"

definition resolveDeviceId :: "string \<Rightarrow> string option \<Rightarrow> string" where
  "resolveDeviceId minted deviceId =
     (case deviceId of Some d \<Rightarrow> if d \<noteq> [] \<and> DEVICE_HANDLE_RE d then d else minted | None \<Rightarrow> minted)"

record random_parts =
  rp_requestId :: string
  rp_picks :: "nat list"
  rp_deviceId :: string

text \<open>\<open>request\<close>; \<open>None\<close> is the error \<open>RateLimited\<close>.\<close>

definition dc_request ::
  "int \<Rightarrow> random_parts \<Rightarrow> string \<Rightarrow> string \<Rightarrow> string option \<Rightarrow> device_codes \<Rightarrow> (string \<times> string \<times> int) option \<times> device_codes"
where
  "dc_request now rnd clientName clientVersion deviceId s =
     (case enforceRateLimit now (pruneExpired now s) of
        (False, s1) \<Rightarrow> (None, s1)
      | (True, s1) \<Rightarrow>
          (let rid = rp_requestId rnd;
               userCode = makeUserCode (rp_picks rnd);
               e = \<lparr> pr_userCode = userCode, pr_clientName = clientName, pr_clientVersion = clientVersion,
                     pr_deviceId = resolveDeviceId (rp_deviceId rnd) deviceId, pr_status = DcPending,
                     pr_claimed = False, pr_token = None, pr_createdAt = now, pr_expiresAt = now + dc_ttlMs s1,
                     pr_timer = Some (now + dc_ttlMs s1) \<rparr>
           in (Some (rid, userCode, pr_expiresAt e), put_entry rid e s1)))"

text \<open>The timer of an entry goes off.\<close>

definition handleExpiry :: "string \<Rightarrow> device_codes \<Rightarrow> device_codes" where
  "handleExpiry rid s =
     (case map_of (dc_pending s) rid of None \<Rightarrow> s | Some e \<Rightarrow> expireEntry rid e s)"

definition dc_fire :: "int \<Rightarrow> string \<Rightarrow> device_codes \<Rightarrow> device_codes" where
  "dc_fire now rid s =
     (case map_of (dc_pending s) rid of
        None \<Rightarrow> s
      | Some e \<Rightarrow>
          (case pr_timer e of
             None \<Rightarrow> s
           | Some due \<Rightarrow>
               if now < due then s
               else handleExpiry rid (put_entry rid (e \<lparr> pr_timer := None \<rparr>) s)))"

definition dc_poll :: "int \<Rightarrow> string \<Rightarrow> device_codes \<Rightarrow> (device_status \<times> string option) \<times> device_codes" where
  "dc_poll now rid s =
     (case map_of (dc_pending s) rid of
        None \<Rightarrow> ((DcExpired, None), s)
      | Some e \<Rightarrow>
          (case effectiveStatus now rid e s of
             (status, s1) \<Rightarrow>
               (case pr_token e of
                  Some token \<Rightarrow>
                    if status = DcApproved \<and> token \<noteq> [] then ((status, Some token), s1 \<lparr> dc_pending := jdel (dc_pending s1) rid \<rparr>)
                    else ((status, None), s1)
                | None \<Rightarrow> ((status, None), s1))))"

text \<open>\<open>approve\<close> up to its await: it joins a mint in flight, is refused, or starts a mint.\<close>

datatype approve_answer = ApproveJoined | ApproveUnavailable | ApproveStarted

definition dc_approve :: "int \<Rightarrow> string \<Rightarrow> device_codes \<Rightarrow> approve_answer \<times> device_codes" where
  "dc_approve now rid s =
     (if jhas (dc_inFlight s) rid then (ApproveJoined, s)
      else case map_of (dc_pending s) rid of
             None \<Rightarrow> (ApproveUnavailable, s)
           | Some e \<Rightarrow>
               (case effectiveStatus now rid e s of
                  (status, s1) \<Rightarrow>
                    if status \<noteq> DcPending then (ApproveUnavailable, s1)
                    else (ApproveStarted,
                          (put_entry rid (e \<lparr> pr_timer := None, pr_claimed := True \<rparr>) s1)
                            \<lparr> dc_inFlight := jset (dc_inFlight s1) rid Minting \<rparr>)))"

text \<open>\<open>mint\<close> resumes: the token is issued, or the issue was rejected.\<close>

definition dc_minted :: "string \<Rightarrow> string option \<Rightarrow> device_codes \<Rightarrow> device_codes" where
  "dc_minted rid issued s =
     (if map_of (dc_inFlight s) rid \<noteq> Some Minting then s
      else case issued of
             None \<Rightarrow> s \<lparr> dc_inFlight := jset (dc_inFlight s) rid MintRejected \<rparr>
           | Some token \<Rightarrow>
               (let s1 = s \<lparr> dc_inFlight := jset (dc_inFlight s) rid MintResolved \<rparr>
                in case map_of (dc_pending s1) rid of
                     None \<Rightarrow> s1
                   | Some e \<Rightarrow> put_entry rid (e \<lparr> pr_status := DcApproved, pr_token := Some token \<rparr>) s1))"

text \<open>\<open>approve\<close> resumes after its await.\<close>

definition dc_resumed :: "int \<Rightarrow> string \<Rightarrow> device_codes \<Rightarrow> device_codes" where
  "dc_resumed now rid s =
     (case map_of (dc_inFlight s) rid of
        Some MintResolved \<Rightarrow> push (PushSettled rid True) (s \<lparr> dc_inFlight := jdel (dc_inFlight s) rid \<rparr>)
      | Some MintRejected \<Rightarrow>
          (let s1 = s \<lparr> dc_inFlight := jdel (dc_inFlight s) rid \<rparr>
           in case map_of (dc_pending s) rid of
                None \<Rightarrow> s1
              | Some e \<Rightarrow>
                  if pr_status e = DcPending
                  then put_entry rid (e \<lparr> pr_claimed := False, pr_timer := Some (now + max 0 (pr_expiresAt e - now)) \<rparr>) s1
                  else s1)
      | _ \<Rightarrow> s)"

definition dc_deny :: "int \<Rightarrow> string \<Rightarrow> device_codes \<Rightarrow> bool \<times> device_codes" where
  "dc_deny now rid s =
     (if jhas (dc_inFlight s) rid then (False, s)
      else case map_of (dc_pending s) rid of
             None \<Rightarrow> (False, s)
           | Some e \<Rightarrow>
               (case effectiveStatus now rid e s of
                  (status, s1) \<Rightarrow>
                    if status \<noteq> DcPending then (False, s1)
                    else (True, push (PushSettled rid False) (put_entry rid (e \<lparr> pr_status := DcDenied, pr_timer := None \<rparr>) s1))))"

definition dc_getPending :: "int \<Rightarrow> string \<Rightarrow> device_codes \<Rightarrow> (string \<times> string \<times> string \<times> string) option \<times> device_codes" where
  "dc_getPending now rid s =
     (case map_of (dc_pending s) rid of
        None \<Rightarrow> (None, s)
      | Some e \<Rightarrow>
          (case effectiveStatus now rid e s of
             (status, s1) \<Rightarrow>
               ((if status \<noteq> DcPending then None
                 else Some (rid, pr_userCode e, pr_clientName e, pr_clientVersion e)), s1)))"

fun list_loop :: "int \<Rightarrow> (string \<times> pairing_request) list \<Rightarrow> device_codes \<Rightarrow> (string \<times> pairing_request) list \<times> device_codes" where
  "list_loop now [] s = ([], s)"
| "list_loop now ((rid, e) # es) s =
     (case effectiveStatus now rid e s of
        (status, s1) \<Rightarrow>
          (case list_loop now es s1 of
             (out, s2) \<Rightarrow> (if status \<noteq> DcPending then out else (rid, e) # out, s2)))"

definition dc_listPending :: "int \<Rightarrow> device_codes \<Rightarrow> (string \<times> pairing_request) list \<times> device_codes" where
  "dc_listPending now s = list_loop now (dc_pending s) s"

fun dispose_loop :: "(string \<times> pairing_request) list \<Rightarrow> device_codes \<Rightarrow> device_codes" where
  "dispose_loop [] s = s"
| "dispose_loop ((rid, e) # es) s =
     dispose_loop es (expireEntry rid (e \<lparr> pr_timer := None \<rparr>) (put_entry rid (e \<lparr> pr_timer := None \<rparr>) s))"

definition dc_dispose :: "device_codes \<Rightarrow> device_codes" where
  "dc_dispose s = dispose_loop (dc_pending s) s"

section \<open>Runs\<close>

datatype dc_event =
    DcRequest int random_parts string string "string option"
  | DcFire int string
  | DcPoll int string
  | DcApprove int string
  | DcMinted int string "string option"
  | DcResumed int string
  | DcDeny int string
  | DcGet int string
  | DcList int
  | DcDispose int

text \<open>The tokens a step hands out.\<close>

fun dc_do :: "dc_event \<Rightarrow> device_codes \<Rightarrow> (string \<times> string) list \<times> device_codes" where
  "dc_do (DcRequest now rnd name ver dev) s = ([], snd (dc_request now rnd name ver dev s))"
| "dc_do (DcFire now rid) s = ([], dc_fire now rid s)"
| "dc_do (DcPoll now rid) s =
     (case dc_poll now rid s of
        ((_, Some token), s1) \<Rightarrow> ([(rid, token)], s1)
      | ((_, None), s1) \<Rightarrow> ([], s1))"
| "dc_do (DcApprove now rid) s = ([], snd (dc_approve now rid s))"
| "dc_do (DcMinted now rid issued) s = ([], dc_minted rid issued s)"
| "dc_do (DcResumed now rid) s = ([], dc_resumed now rid s)"
| "dc_do (DcDeny now rid) s = ([], snd (dc_deny now rid s))"
| "dc_do (DcGet now rid) s = ([], snd (dc_getPending now rid s))"
| "dc_do (DcList now) s = ([], snd (dc_listPending now s))"
| "dc_do (DcDispose now) s = ([], dc_dispose s)"

fun dc_run :: "dc_event list \<Rightarrow> device_codes \<Rightarrow> (string \<times> string) list \<times> device_codes" where
  "dc_run [] s = ([], s)"
| "dc_run (e # es) s =
     (case dc_do e s of (out, s1) \<Rightarrow> (case dc_run es s1 of (outs, s2) \<Rightarrow> (out @ outs, s2)))"

fun requested_id :: "dc_event \<Rightarrow> string option" where
  "requested_id (DcRequest now rnd name ver dev) = Some (rp_requestId rnd)"
| "requested_id _ = None"

fun disposes :: "dc_event \<Rightarrow> bool" where
  "disposes (DcDispose now) = True"
| "disposes _ = False"

definition requested_ids :: "dc_event list \<Rightarrow> string list" where
  "requested_ids es = List.map_filter requested_id es"


section \<open>What one request sees of an operation\<close>

text \<open>The part of the state that belongs to one request.\<close>

fun push_id :: "lifecycle \<Rightarrow> string" where
  "push_id (PushSettled rid ok) = rid"
| "push_id (PushExpired rid) = rid"

definition pushes_of :: "string \<Rightarrow> device_codes \<Rightarrow> nat" where
  "pushes_of rid s = length (filter (\<lambda>x. push_id x = rid) (dc_pushes s))"

lemma put_entry_simps [simp]:
  "dc_pending (put_entry r e s) = jset (dc_pending s) r e" "dc_inFlight (put_entry r e s) = dc_inFlight s"
  "pushes_of rid (put_entry r e s) = pushes_of rid s" "dc_ttlMs (put_entry r e s) = dc_ttlMs s"
  "dc_requestTimes (put_entry r e s) = dc_requestTimes s"
  "dc_rateLimitMax (put_entry r e s) = dc_rateLimitMax s" "dc_rateLimitWindowMs (put_entry r e s) = dc_rateLimitWindowMs s"
  by (simp_all add: put_entry_def pushes_of_def)

lemma push_simps [simp]:
  "dc_pending (push x s) = dc_pending s" "dc_inFlight (push x s) = dc_inFlight s"
  "pushes_of rid (push x s) = pushes_of rid s + (if push_id x = rid then 1 else 0)" "dc_ttlMs (push x s) = dc_ttlMs s"
  "dc_requestTimes (push x s) = dc_requestTimes s"
  "dc_rateLimitMax (push x s) = dc_rateLimitMax s" "dc_rateLimitWindowMs (push x s) = dc_rateLimitWindowMs s"
  by (simp_all add: push_def pushes_of_def)

lemma pushes_of_cong [simp]:
  "pushes_of rid (s \<lparr> dc_pending := a \<rparr>) = pushes_of rid s" "pushes_of rid (s \<lparr> dc_inFlight := b \<rparr>) = pushes_of rid s"
  "pushes_of rid (s \<lparr> dc_requestTimes := c \<rparr>) = pushes_of rid s"
  by (simp_all add: pushes_of_def)

lemma enforceRateLimit_simps [simp]:
  "dc_pending (snd (enforceRateLimit t s)) = dc_pending s" "dc_inFlight (snd (enforceRateLimit t s)) = dc_inFlight s"
  "pushes_of rid (snd (enforceRateLimit t s)) = pushes_of rid s" "dc_ttlMs (snd (enforceRateLimit t s)) = dc_ttlMs s"
  "dc_rateLimitMax (snd (enforceRateLimit t s)) = dc_rateLimitMax s"
  "dc_rateLimitWindowMs (snd (enforceRateLimit t s)) = dc_rateLimitWindowMs s"
  by (simp_all add: enforceRateLimit_def Let_def)

text \<open>The invariant of one request, and the state before its id is used.\<close>

definition request_ok :: "string \<Rightarrow> device_codes \<Rightarrow> bool" where
  "request_ok rid s \<longleftrightarrow>
     (let fl = map_of (dc_inFlight s) rid; n = pushes_of rid s
      in case map_of (dc_pending s) rid of
           None \<Rightarrow> n \<le> 1 \<and> (fl = None \<or> fl = Some MintResolved \<and> n = 0)
         | Some e \<Rightarrow>
             (case pr_status e of
                DcPending \<Rightarrow> n = 0 \<and> (pr_claimed e \<longleftrightarrow> fl \<noteq> None) \<and> fl \<noteq> Some MintResolved \<and> pr_token e = None \<and>
                  (pr_timer e = None \<longleftrightarrow> pr_claimed e)
              | DcApproved \<Rightarrow> pr_claimed e \<and> pr_timer e = None \<and> pr_token e \<noteq> None \<and> (fl = Some MintResolved \<and> n = 0 \<or> fl = None \<and> n = 1)
              | _ \<Rightarrow> n = 1 \<and> fl = None \<and> pr_token e = None \<and> pr_timer e = None))"

definition unused :: "string \<Rightarrow> device_codes \<Rightarrow> bool" where
  "unused rid s \<longleftrightarrow> map_of (dc_pending s) rid = None \<and> map_of (dc_inFlight s) rid = None \<and> pushes_of rid s = 0"

text \<open>Operations on one request leave every other one alone.\<close>

definition same_request :: "string \<Rightarrow> device_codes \<Rightarrow> device_codes \<Rightarrow> bool" where
  "same_request rid s s' \<longleftrightarrow>
     map_of (dc_pending s') rid = map_of (dc_pending s) rid \<and> map_of (dc_inFlight s') rid = map_of (dc_inFlight s) rid \<and>
     pushes_of rid s' = pushes_of rid s"

lemma same_request_ok: "same_request rid s s' \<Longrightarrow> request_ok rid s' = request_ok rid s"
  by (simp add: same_request_def request_ok_def)

lemma same_request_unused: "same_request rid s s' \<Longrightarrow> unused rid s' = unused rid s"
  by (simp add: same_request_def unused_def)

lemma same_refl [simp]: "same_request rid s s"
  by (simp add: same_request_def)

lemma effectiveStatus_same: "r \<noteq> rid \<Longrightarrow> same_request rid s (snd (effectiveStatus now r e s))"
  by (simp add: same_request_def effectiveStatus_def expireEntry_def)

lemma operations_same:
  assumes "r \<noteq> rid"
  shows "same_request rid s (dc_fire now r s)" "same_request rid s (snd (dc_poll now r s))"
    "same_request rid s (snd (dc_approve now r s))" "same_request rid s (dc_minted r issued s)"
    "same_request rid s (dc_resumed now r s)" "same_request rid s (snd (dc_deny now r s))"
    "same_request rid s (snd (dc_getPending now r s))"
  using assms
  by (auto simp: same_request_def dc_fire_def handleExpiry_def dc_poll_def dc_approve_def dc_minted_def dc_resumed_def dc_deny_def
      dc_getPending_def effectiveStatus_def expireEntry_def Let_def split: option.splits mint_stage.splits if_splits)


lemma unused_ok: "unused rid s \<Longrightarrow> request_ok rid s"
  by (simp add: unused_def request_ok_def)

lemma request_ok_effective:
  assumes "request_ok rid s" and "map_of (dc_pending s) rid = Some e"
  shows "request_ok rid (snd (effectiveStatus now rid e s))"
  using assms by (auto simp: request_ok_def effectiveStatus_def expireEntry_def Let_def split: device_status.splits)

lemma request_ok_fire: "request_ok rid s \<Longrightarrow> request_ok rid (dc_fire now rid s)"
  by (auto simp: request_ok_def dc_fire_def handleExpiry_def expireEntry_def Let_def
      split: option.splits device_status.splits)

lemma request_ok_poll: "request_ok rid s \<Longrightarrow> request_ok rid (snd (dc_poll now rid s))"
  by (auto simp: request_ok_def dc_poll_def effectiveStatus_def expireEntry_def Let_def
      split: option.splits device_status.splits if_splits)

lemma request_ok_approve: "request_ok rid s \<Longrightarrow> request_ok rid (snd (dc_approve now rid s))"
  by (auto simp: request_ok_def dc_approve_def effectiveStatus_def expireEntry_def Let_def
      split: option.splits device_status.splits if_splits)

lemma request_ok_minted: "request_ok rid s \<Longrightarrow> request_ok rid (dc_minted rid issued s)"
  by (auto simp: request_ok_def dc_minted_def Let_def split: option.splits device_status.splits if_splits)

lemma request_ok_resumed: "request_ok rid s \<Longrightarrow> request_ok rid (dc_resumed now rid s)"
  by (auto simp: request_ok_def dc_resumed_def Let_def split: option.splits device_status.splits mint_stage.splits if_splits)

lemma request_ok_deny: "request_ok rid s \<Longrightarrow> request_ok rid (snd (dc_deny now rid s))"
  by (auto simp: request_ok_def dc_deny_def effectiveStatus_def expireEntry_def Let_def
      split: option.splits device_status.splits if_splits)

lemma request_ok_get: "request_ok rid s \<Longrightarrow> request_ok rid (snd (dc_getPending now rid s))"
  by (auto simp: dc_getPending_def case_prod_beta intro: request_ok_effective split: option.split)

lemma list_loop_induct:
  assumes "\<And>s r e. P s \<Longrightarrow> map_of (dc_pending s) r = Some e \<Longrightarrow> P (snd (effectiveStatus now r e s))"
  shows "P s \<Longrightarrow> distinct (map fst xs) \<Longrightarrow> \<forall>(r, e)\<in>set xs. map_of (dc_pending s) r = Some e \<Longrightarrow> P (snd (list_loop now xs s))"
proof (induction xs arbitrary: s)
  case (Cons x xs)
  obtain r e where x: "x = (r, e)" by fastforce
  let ?s1 = "snd (effectiveStatus now r e s)"
  have "P ?s1" using assms Cons.prems x by auto
  moreover have "\<forall>(r', e')\<in>set xs. map_of (dc_pending ?s1) r' = Some e'"
  proof clarify
    fix r' e' assume i: "(r', e') \<in> set xs"
    then have "r \<noteq> r'" using Cons.prems(2) x by force
    then show "map_of (dc_pending ?s1) r' = Some e'"
      using effectiveStatus_same [of r r' s now e] i Cons.prems(3) by (auto simp: same_request_def)
  qed
  ultimately have "P (snd (list_loop now xs ?s1))" using Cons.IH Cons.prems(2) by simp
  then show ?case by (simp add: x case_prod_beta)
qed simp

lemma jwf_effective: "jwf (dc_pending s) \<Longrightarrow> jwf (dc_pending (snd (effectiveStatus now r e s)))"
  by (simp add: effectiveStatus_def expireEntry_def)

lemma listPending_induct:
  assumes "jwf (dc_pending s)" and "\<And>s r e. P s \<Longrightarrow> map_of (dc_pending s) r = Some e \<Longrightarrow> P (snd (effectiveStatus now r e s))"
    and "P s"
  shows "P (snd (dc_listPending now s))"
  unfolding dc_listPending_def
  by (rule list_loop_induct) (use assms in \<open>auto simp: jwf_def\<close>)

lemma request_ok_list:
  assumes "jwf (dc_pending s)" and "request_ok rid s"
  shows "request_ok rid (snd (dc_listPending now s))"
proof (rule listPending_induct [OF assms(1)])
  fix s r e assume "request_ok rid s" "map_of (dc_pending s) r = Some e"
  then show "request_ok rid (snd (effectiveStatus now r e s))"
    using request_ok_effective effectiveStatus_same [of r rid s now e] same_request_ok by (cases "r = rid") auto
qed (rule assms(2))

lemma prune_view:
  assumes "jwf (dc_pending s)"
  shows "map_of (dc_pending (pruneExpired t s)) rid =
    (case map_of (dc_pending s) rid of None \<Rightarrow> None | Some e \<Rightarrow> if swept t (dc_inFlight s) (rid, e) then None else Some e)"
proof (cases "map_of (dc_pending s) rid")
  case None
  then have "map_of (dc_pending (pruneExpired t s)) rid = None" by (auto simp: pruneExpired_def map_of_eq_None_iff)
  then show ?thesis using None by simp
next
  case (Some e)
  have "map_of (dc_pending (pruneExpired t s)) rid = Some v \<longleftrightarrow> v = e \<and> \<not> swept t (dc_inFlight s) (rid, e)" for v
    using map_of_filter_Some [OF assms, of "\<lambda>x. \<not> swept t (dc_inFlight s) x" rid v] Some by (auto simp: pruneExpired_def)
  then show ?thesis using Some by (cases "map_of (dc_pending (pruneExpired t s)) rid") auto
qed

lemma prune_simps [simp]:
  "dc_inFlight (pruneExpired t s) = dc_inFlight s" "pushes_of rid (pruneExpired t s) = pushes_of rid s"
  "dc_ttlMs (pruneExpired t s) = dc_ttlMs s" "dc_requestTimes (pruneExpired t s) = dc_requestTimes s"
  "dc_rateLimitMax (pruneExpired t s) = dc_rateLimitMax s" "dc_rateLimitWindowMs (pruneExpired t s) = dc_rateLimitWindowMs s"
  by (simp_all add: pruneExpired_def)

lemma request_ok_prune:
  assumes "jwf (dc_pending s)" and "request_ok rid s"
  shows "request_ok rid (pruneExpired t s)"
  using assms(2) prune_view [OF assms(1), of t rid]
  by (auto simp: request_ok_def swept_def Let_def split: option.splits device_status.splits if_splits)

lemma request_view:
  assumes "r = rp_requestId rnd"
  shows "(\<exists>e. dc_pending (snd (dc_request now rnd name ver dev s)) = jset (dc_pending (pruneExpired now s)) r e \<and>
            pr_status e = DcPending \<and> \<not> pr_claimed e \<and> pr_token e = None \<and> pr_timer e \<noteq> None) \<or>
         dc_pending (snd (dc_request now rnd name ver dev s)) = dc_pending (pruneExpired now s)"
    and "dc_inFlight (snd (dc_request now rnd name ver dev s)) = dc_inFlight s"
    and "pushes_of rid (snd (dc_request now rnd name ver dev s)) = pushes_of rid s"
  using assms by (cases "enforceRateLimit now (pruneExpired now s)" rule: prod.exhaust;
      use enforceRateLimit_simps [where t = now and s = "pruneExpired now s"] in
        \<open>auto simp: dc_request_def Let_def split: bool.split\<close>)+


lemma jwf_do:
  assumes "jwf (dc_pending s)" and "\<not> disposes e"
  shows "jwf (dc_pending (snd (dc_do e s)))"
proof (cases e)
  case (DcRequest now rnd name ver dev)
  then show ?thesis
    using request_view(1) [OF refl, where now = now and rnd = rnd and name = name and ver = ver and dev = dev and s = s] assms(1) by (auto simp: pruneExpired_def)
next
  case (DcList now)
  then show ?thesis using listPending_induct [of s "\<lambda>s. jwf (dc_pending s)" now] assms(1) by (auto intro: jwf_effective)
qed (use assms in \<open>auto simp: dc_fire_def handleExpiry_def dc_poll_def dc_approve_def dc_minted_def dc_resumed_def dc_deny_def
      dc_getPending_def effectiveStatus_def expireEntry_def Let_def split: option.splits mint_stage.splits\<close>)

lemma unused_request:
  assumes "jwf (dc_pending s)" and "unused rid s" and "rp_requestId rnd \<noteq> rid"
  shows "unused rid (snd (dc_request now rnd name ver dev s))"
proof -
  have "map_of (dc_pending (pruneExpired now s)) rid = None" using prune_view [OF assms(1)] assms(2) by (simp add: unused_def)
  then show ?thesis
    using assms request_view [OF refl, where now = now and rnd = rnd and name = name and ver = ver and dev = dev and s = s] by (auto simp: unused_def)
qed

lemma unused_do:
  assumes "jwf (dc_pending s)" and "unused rid s" and "requested_id e \<noteq> Some rid" and "\<not> disposes e"
  shows "unused rid (snd (dc_do e s)) \<and> rid \<notin> fst ` set (fst (dc_do e s))"
proof -
  have own: "unused rid (dc_fire now rid s)" "dc_poll now rid s = ((DcExpired, None), s)" "unused rid (snd (dc_approve now rid s))"
    "unused rid (dc_minted rid issued s)" "unused rid (dc_resumed now rid s)" "unused rid (snd (dc_deny now rid s))"
    "unused rid (snd (dc_getPending now rid s))" for now issued
    using assms(2) by (simp_all add: unused_def dc_fire_def dc_poll_def dc_approve_def dc_minted_def dc_resumed_def dc_deny_def dc_getPending_def)
  note other = operations_same [THEN same_request_unused]
  show ?thesis
  proof (cases e)
    case (DcRequest now rnd name ver dev)
    then show ?thesis using unused_request [OF assms(1,2)] assms(3) by simp
  next
    case (DcPoll now r)
    then show ?thesis using own(2) other(2) [of r rid now s] assms(2) by (cases "r = rid") (auto split: prod.splits option.splits)
  next
    case (DcList now)
    have "unused rid (snd (dc_listPending now s))"
    proof (rule listPending_induct [OF assms(1)])
      fix s r e assume a: "unused rid s" "map_of (dc_pending s) r = Some e"
      then have "r \<noteq> rid" by (auto simp: unused_def)
      then show "unused rid (snd (effectiveStatus now r e s))"
        using effectiveStatus_same [of r rid s now e] same_request_unused a(1) by blast
    qed (rule assms(2))
    then show ?thesis using DcList by simp
  next
    case (DcFire now r)
    then show ?thesis using own(1) other(1) [of r rid now s] assms(2) by (cases "r = rid") auto
  next
    case (DcApprove now r)
    then show ?thesis using own(3) other(3) [of r rid now s] assms(2) by (cases "r = rid") auto
  next
    case (DcMinted now r issued)
    then show ?thesis using own(4) other(4) [of r rid issued s] assms(2) by (cases "r = rid") auto
  next
    case (DcResumed now r)
    then show ?thesis using own(5) other(5) [of r rid now s] assms(2) by (cases "r = rid") auto
  next
    case (DcDeny now r)
    then show ?thesis using own(6) other(6) [of r rid now s] assms(2) by (cases "r = rid") auto
  next
    case (DcGet now r)
    then show ?thesis using own(7) other(7) [of r rid now s] assms(2) by (cases "r = rid") auto
  qed (use assms(4) in simp)
qed

text \<open>Every operation keeps the invariant of every request.\<close>

lemma request_ok_do:
  assumes "jwf (dc_pending s)" and "request_ok rid s" and "requested_id e = Some rid \<Longrightarrow> unused rid s" and "\<not> disposes e"
  shows "request_ok rid (snd (dc_do e s))"
proof -
  note other = operations_same [THEN same_request_ok]
  show ?thesis
  proof (cases e)
    case (DcRequest now rnd name ver dev)
    have p: "request_ok rid (pruneExpired now s)" by (rule request_ok_prune [OF assms(1,2)])
    note v = request_view [OF refl, where now = now and rnd = rnd and name = name and ver = ver and dev = dev and s = s]
    show ?thesis
    proof (cases "rp_requestId rnd = rid")
      case True
      then have u: "unused rid s" using assms(3) DcRequest by simp
      then have "map_of (dc_pending (pruneExpired now s)) rid = None" using prune_view [OF assms(1)] by (simp add: unused_def)
      then show ?thesis using v u True DcRequest by (auto simp: request_ok_def unused_def Let_def)
    next
      case False
      then have "same_request rid (pruneExpired now s) (snd (dc_request now rnd name ver dev s))"
        using v by (auto simp: same_request_def)
      then show ?thesis using same_request_ok p DcRequest by simp
    qed
  next
    case (DcPoll now r)
    have "snd (dc_do e s) = snd (dc_poll now r s)" using DcPoll by (auto split: prod.splits option.splits)
    then show ?thesis using request_ok_poll [OF assms(2)] other(2) [of r rid now s] assms(2) by (cases "r = rid") auto
  next
    case (DcList now)
    then show ?thesis using request_ok_list [OF assms(1,2)] by simp
  next
    case (DcFire now r)
    then show ?thesis using request_ok_fire [OF assms(2)] other(1) [of r rid now s] assms(2) by (cases "r = rid") auto
  next
    case (DcApprove now r)
    then show ?thesis using request_ok_approve [OF assms(2)] other(3) [of r rid now s] assms(2) by (cases "r = rid") auto
  next
    case (DcMinted now r issued)
    then show ?thesis using request_ok_minted [OF assms(2)] other(4) [of r rid issued s] assms(2) by (cases "r = rid") auto
  next
    case (DcResumed now r)
    then show ?thesis using request_ok_resumed [OF assms(2)] other(5) [of r rid now s] assms(2) by (cases "r = rid") auto
  next
    case (DcDeny now r)
    then show ?thesis using request_ok_deny [OF assms(2)] other(6) [of r rid now s] assms(2) by (cases "r = rid") auto
  next
    case (DcGet now r)
    then show ?thesis using request_ok_get [OF assms(2)] other(7) [of r rid now s] assms(2) by (cases "r = rid") auto
  qed (use assms(4) in simp)
qed

lemma requested_ids_Cons [simp]:
  "requested_ids (e # es) = (case requested_id e of None \<Rightarrow> requested_ids es | Some r \<Rightarrow> r # requested_ids es)"
  by (simp add: requested_ids_def List.map_filter_def split: option.split)

lemma requested_ids_Nil [simp]: "requested_ids [] = []"
  by (simp add: requested_ids_def List.map_filter_def)

lemma request_ok_run:
  assumes "jwf (dc_pending s)" and "request_ok rid s" and "rid \<in> set (requested_ids es) \<Longrightarrow> unused rid s"
    and "distinct (requested_ids es)" and "list_all (\<lambda>e. \<not> disposes e) es"
  shows "request_ok rid (snd (dc_run es s))"
  using assms
proof (induction es arbitrary: s)
  case (Cons e es)
  let ?s = "snd (dc_do e s)"
  have nd: "\<not> disposes e" using Cons.prems(5) by auto
  have "request_ok rid ?s" by (rule request_ok_do [OF Cons.prems(1,2) _ nd]) (use Cons.prems(3) in auto)
  moreover have "unused rid ?s" if "rid \<in> set (requested_ids es)"
  proof -
    have "requested_id e \<noteq> Some rid" using Cons.prems(4) that by auto
    moreover have "unused rid s" using Cons.prems(3) that by (auto split: option.splits)
    ultimately show ?thesis using unused_do [OF Cons.prems(1)] nd by blast
  qed
  moreover have "distinct (requested_ids es)" using Cons.prems(4) by (auto split: option.splits)
  ultimately have "request_ok rid (snd (dc_run es ?s))"
    using Cons.IH [OF jwf_do [OF Cons.prems(1) nd]] Cons.prems(5) by simp
  then show ?case by (simp add: case_prod_beta)
qed simp


section \<open>The keys of the table\<close>

abbreviation ids_of :: "device_codes \<Rightarrow> string set" where
  "ids_of s \<equiv> fst ` set (dc_pending s)"

lemma ids_effective: "r \<in> ids_of s \<Longrightarrow> ids_of (snd (effectiveStatus now r e s)) = ids_of s"
  by (auto simp: effectiveStatus_def expireEntry_def)

lemma ids_list: "fst ` set xs \<subseteq> ids_of s \<Longrightarrow> ids_of (snd (list_loop now xs s)) = ids_of s"
proof (induction xs arbitrary: s)
  case (Cons x xs)
  then show ?case using ids_effective [of "fst x" s now "snd x"] by (cases x) (simp add: case_prod_beta)
qed simp

lemma ids_dispose: "fst ` set xs \<subseteq> ids_of s \<Longrightarrow> ids_of (dispose_loop xs s) = ids_of s"
proof (induction xs arbitrary: s)
  case (Cons x xs)
  obtain r e where x: "x = (r, e)" by fastforce
  let ?s = "expireEntry r (e \<lparr> pr_timer := None \<rparr>) (put_entry r (e \<lparr> pr_timer := None \<rparr>) s)"
  have "ids_of ?s = ids_of s" using Cons.prems x by (auto simp: expireEntry_def)
  then show ?case using Cons x by simp
qed simp

lemma in_keys: "map_of m k = Some v \<Longrightarrow> k \<in> fst ` set m"
  by (force dest: map_of_SomeD)

lemma ids_do: "ids_of (snd (dc_do e s)) \<subseteq> ids_of s \<union> set_option (requested_id e)"
proof (cases e)
  case (DcRequest now rnd name ver dev)
  then show ?thesis
    using request_view(1) [OF refl, where now = now and rnd = rnd and name = name and ver = ver and dev = dev and s = s]
    set_jset_subset [of "dc_pending (pruneExpired now s)" "rp_requestId rnd"] DcRequest
    by (fastforce simp: pruneExpired_def)
next
  case (DcList now)
  then show ?thesis using ids_list [of "dc_pending s" s now] by (simp add: dc_listPending_def)
next
  case (DcDispose now)
  then show ?thesis using ids_dispose [of "dc_pending s" s] by (simp add: dc_dispose_def)
qed (auto simp: dc_fire_def handleExpiry_def dc_poll_def dc_approve_def dc_minted_def dc_resumed_def dc_deny_def
      dc_getPending_def effectiveStatus_def expireEntry_def Let_def in_keys
      split: option.splits mint_stage.splits if_splits)

lemma delivery_cases:
  obtains (no) "fst (dc_do e s) = []"
  | (yes) rid t where "fst (dc_do e s) = [(rid, t)]" "rid \<in> ids_of s" "rid \<notin> ids_of (snd (dc_do e s))" "requested_id e = None"
proof (cases e)
  case (DcPoll now r)
  show thesis
  proof (cases "snd (fst (dc_poll now r s))")
    case None
    then have "fst (dc_do e s) = []" using DcPoll by (auto split: prod.split option.split)
    then show thesis by (rule no)
  next
    case (Some t)
    then obtain st s1 where r: "dc_poll now r s = ((st, Some t), s1)" by (cases "dc_poll now r s") auto
    then have "r \<in> ids_of s \<and> r \<notin> ids_of s1"
      by (auto simp: dc_poll_def effectiveStatus_def expireEntry_def in_keys jdel_def split: option.splits if_splits)
    then show thesis using yes [of r t] DcPoll r by simp
  qed
qed (use no in simp_all)

lemma deliveries_bound:
  "distinct (requested_ids es) \<Longrightarrow>
   length (filter (\<lambda>x. fst x = rid) (fst (dc_run es s))) \<le>
     (if rid \<in> ids_of s \<or> rid \<in> set (requested_ids es) then 1 else 0)"
  if "rid \<in> ids_of s \<longrightarrow> rid \<notin> set (requested_ids es)"
  using that
proof (induction es arbitrary: s)
  case (Cons e es)
  let ?s = "snd (dc_do e s)"
  have d: "distinct (requested_ids es)" using Cons.prems(1) by (auto split: option.splits)
  have k: "rid \<in> ids_of ?s \<longrightarrow> rid \<notin> set (requested_ids es)"
    using ids_do [of e s] Cons.prems by (auto split: option.splits)
  have run: "fst (dc_run (e # es) s) = fst (dc_do e s) @ fst (dc_run es ?s)" by (simp add: case_prod_beta)
  note ih = Cons.IH [OF d k]
  show ?case
  proof (cases e s rule: delivery_cases)
    case no
    then show ?thesis using ih run ids_do [of e s] by (auto split: if_splits option.splits)
  next
    case (yes r t)
    show ?thesis
    proof (cases "r = rid")
      case True
      then have "rid \<notin> set (requested_ids es)" using yes Cons.prems(2) by simp
      then show ?thesis using ih run yes True by simp
    next
      case False
      then show ?thesis using ih run yes ids_do [of e s] by (auto split: if_splits)
    qed
  qed
qed simp


section \<open>The rate limit\<close>

fun dc_time :: "dc_event \<Rightarrow> int" where
  "dc_time (DcRequest now rnd name ver dev) = now"
| "dc_time (DcFire now r) = now"
| "dc_time (DcPoll now r) = now"
| "dc_time (DcApprove now r) = now"
| "dc_time (DcMinted now r issued) = now"
| "dc_time (DcResumed now r) = now"
| "dc_time (DcDeny now r) = now"
| "dc_time (DcGet now r) = now"
| "dc_time (DcList now) = now"
| "dc_time (DcDispose now) = now"

fun dc_admits :: "dc_event \<Rightarrow> device_codes \<Rightarrow> bool" where
  "dc_admits (DcRequest now rnd name ver dev) s \<longleftrightarrow> fst (dc_request now rnd name ver dev s) \<noteq> None"
| "dc_admits _ s \<longleftrightarrow> False"

definition limits_kept :: "device_codes \<Rightarrow> device_codes \<Rightarrow> bool" where
  "limits_kept s s' \<longleftrightarrow>
     dc_requestTimes s' = dc_requestTimes s \<and> dc_rateLimitMax s' = dc_rateLimitMax s \<and>
     dc_rateLimitWindowMs s' = dc_rateLimitWindowMs s"

lemma limits_effective: "limits_kept s (snd (effectiveStatus now r e s))"
  by (simp add: limits_kept_def effectiveStatus_def expireEntry_def)

lemma limits_list: "limits_kept s (snd (list_loop now xs s))"
proof (induction xs arbitrary: s)
  case (Cons x xs)
  then show ?case using limits_effective [of s now "fst x" "snd x"] by (cases x) (simp add: case_prod_beta limits_kept_def)
qed (simp add: limits_kept_def)

lemma limits_dispose: "limits_kept s (dispose_loop xs s)"
proof (induction xs arbitrary: s)
  case (Cons x xs)
  obtain r e where x: "x = (r, e)" by fastforce
  have "limits_kept s (expireEntry r (e \<lparr> pr_timer := None \<rparr>) (put_entry r (e \<lparr> pr_timer := None \<rparr>) s))"
    by (simp add: limits_kept_def expireEntry_def)
  then show ?case using Cons x by (simp add: limits_kept_def)
qed (simp add: limits_kept_def)

lemma limits_other: "\<not> (\<exists>now rnd name ver dev. e = DcRequest now rnd name ver dev) \<Longrightarrow> limits_kept s (snd (dc_do e s))"
  using limits_list limits_dispose
  by (cases e) (auto simp: limits_kept_def dc_fire_def handleExpiry_def dc_poll_def dc_approve_def dc_minted_def dc_resumed_def
      dc_deny_def dc_getPending_def dc_listPending_def dc_dispose_def effectiveStatus_def expireEntry_def Let_def
      split: option.splits mint_stage.splits)

lemma request_times:
  "dc_requestTimes (snd (dc_request now rnd name ver dev s)) =
     recent (now - dc_rateLimitWindowMs s) (dc_requestTimes s) @ (if fst (dc_request now rnd name ver dev s) \<noteq> None then [now] else [])"
  "fst (dc_request now rnd name ver dev s) \<noteq> None \<longleftrightarrow>
     int (length (recent (now - dc_rateLimitWindowMs s) (dc_requestTimes s))) < dc_rateLimitMax s"
  "dc_rateLimitMax (snd (dc_request now rnd name ver dev s)) = dc_rateLimitMax s"
  "dc_rateLimitWindowMs (snd (dc_request now rnd name ver dev s)) = dc_rateLimitWindowMs s"
  by (simp_all add: dc_request_def enforceRateLimit_def Let_def recent_def not_le)

interpretation dcw: sliding_window "\<lambda>e s. snd (dc_do e s)" dc_admits dc_time dc_requestTimes
    "\<lambda>t s. dc_rateLimitMax s = limit \<and> dc_rateLimitWindowMs s = width" limit width
proof
  fix t :: int and s :: device_codes and e :: dc_event
  assume i: "dc_rateLimitMax s = limit \<and> dc_rateLimitWindowMs s = width"
  show "dc_rateLimitMax (snd (dc_do e s)) = limit \<and> dc_rateLimitWindowMs (snd (dc_do e s)) = width"
    using i limits_other [of e s] by (cases e) (auto simp: limits_kept_def request_times)
  show "recent (dc_time e - width) (dc_requestTimes (snd (dc_do e s))) =
      recent (dc_time e - width) (dc_requestTimes s) @ recent (dc_time e - width) [dc_time e]" if "dc_admits e s"
    using that i by (cases e) (auto simp: request_times recent_recent)
  show "int (length (recent (dc_time e - width) (dc_requestTimes s))) < limit" if "dc_admits e s"
  proof (cases e)
    case (DcRequest now rnd name ver dev)
    then show ?thesis using that i request_times(2) [of now rnd name ver dev s] by simp
  qed (use that in simp_all)
  show "recent (dc_time e - width) (dc_requestTimes (snd (dc_do e s))) = recent (dc_time e - width) (dc_requestTimes s)"
    if "\<not> dc_admits e s"
  proof (cases e)
    case (DcRequest now rnd name ver dev)
    then show ?thesis using that i by (simp add: request_times recent_recent)
  qed (use limits_other [of e s] in \<open>auto simp: limits_kept_def\<close>)
qed

section \<open>An approved token waits\<close>

definition held :: "string \<Rightarrow> string \<Rightarrow> int \<Rightarrow> device_codes \<Rightarrow> bool" where
  "held rid t x s \<longleftrightarrow>
     (\<exists>e. map_of (dc_pending s) rid = Some e \<and> pr_status e = DcApproved \<and> pr_token e = Some t \<and> pr_claimed e \<and> pr_expiresAt e = x) \<and>
     map_of (dc_inFlight s) rid \<noteq> Some Minting"

fun calm :: "string \<Rightarrow> int \<Rightarrow> dc_event \<Rightarrow> bool" where
  "calm rid x (DcRequest now rnd name ver dev) \<longleftrightarrow> now \<le> x + COLLECT_GRACE_MS \<and> rp_requestId rnd \<noteq> rid"
| "calm rid x (DcPoll now r) \<longleftrightarrow> r \<noteq> rid"
| "calm rid x _ \<longleftrightarrow> True"

lemma held_same: "same_request rid s s' \<Longrightarrow> held rid t x s \<Longrightarrow> held rid t x s'"
  by (auto simp: same_request_def held_def)

lemma held_dispose:
  assumes "held rid t x s" and "distinct (map fst xs)" and "\<forall>(r, e)\<in>set xs. map_of (dc_pending s) r = Some e"
  shows "held rid t x (dispose_loop xs s)"
  using assms
proof (induction xs arbitrary: s)
  case (Cons y xs)
  obtain r e where y: "y = (r, e)" by fastforce
  let ?s = "expireEntry r (e \<lparr> pr_timer := None \<rparr>) (put_entry r (e \<lparr> pr_timer := None \<rparr>) s)"
  have "held rid t x ?s" using Cons.prems(1,3) y by (auto simp: held_def expireEntry_def)
  moreover have "\<forall>(r', e')\<in>set xs. map_of (dc_pending ?s) r' = Some e'"
    using Cons.prems(2,3) y by (force simp: expireEntry_def)
  ultimately show ?case using Cons.IH Cons.prems(2) y by simp
qed simp

lemma held_do:
  assumes "jwf (dc_pending s)" and "held rid t x s" and "calm rid x e"
  shows "held rid t x (snd (dc_do e s))"
proof -
  have own: "held rid t x (dc_fire now rid s)" "held rid t x (snd (dc_approve now rid s))" "held rid t x (dc_minted rid issued s)"
    "held rid t x (dc_resumed now rid s)" "held rid t x (snd (dc_deny now rid s))" "held rid t x (snd (dc_getPending now rid s))"
    for now issued
    using assms(2)
    by (auto simp: held_def dc_fire_def handleExpiry_def expireEntry_def dc_approve_def dc_minted_def dc_resumed_def dc_deny_def
        dc_getPending_def effectiveStatus_def Let_def split: option.split mint_stage.split)
  show ?thesis
  proof (cases e)
    case (DcRequest now rnd name ver dev)
    then have "rp_requestId rnd \<noteq> rid" "now \<le> x + COLLECT_GRACE_MS" using assms(3) by simp_all
    then show ?thesis
      using request_view [OF refl, where now = now and rnd = rnd and name = name and ver = ver and dev = dev and s = s]
        assms(2) prune_view [OF assms(1), of now rid] DcRequest
      by (auto simp: held_def swept_def)
  next
    case (DcPoll now r)
    then show ?thesis using held_same [OF operations_same(2) [of r rid s now]] assms by (auto split: prod.splits option.splits)
  next
    case (DcList now)
    have "held rid t x (snd (dc_listPending now s))"
    proof (rule listPending_induct [OF assms(1)])
      fix s r e assume a: "held rid t x s" "map_of (dc_pending s) r = Some e"
      then show "held rid t x (snd (effectiveStatus now r e s))"
        by (auto simp: held_def effectiveStatus_def expireEntry_def)
    qed (rule assms(2))
    then show ?thesis using DcList by simp
  next
    case (DcDispose now)
    then show ?thesis using held_dispose [OF assms(2), of "dc_pending s"] assms(1) by (auto simp: dc_dispose_def jwf_def)
  next
    case (DcFire now r)
    then show ?thesis using own(1) held_same [OF operations_same(1)] assms(2) by (cases "r = rid") auto
  next
    case (DcApprove now r)
    then show ?thesis using own(2) held_same [OF operations_same(3)] assms(2) by (cases "r = rid") auto
  next
    case (DcMinted now r issued)
    then show ?thesis using own(3) held_same [OF operations_same(4)] assms(2) by (cases "r = rid") auto
  next
    case (DcResumed now r)
    then show ?thesis using own(4) held_same [OF operations_same(5)] assms(2) by (cases "r = rid") auto
  next
    case (DcDeny now r)
    then show ?thesis using own(5) held_same [OF operations_same(6)] assms(2) by (cases "r = rid") auto
  next
    case (DcGet now r)
    then show ?thesis using own(6) held_same [OF operations_same(7)] assms(2) by (cases "r = rid") auto
  qed
qed


lemma jwf_dispose: "jwf (dc_pending s) \<Longrightarrow> jwf (dc_pending (dispose_loop xs s))"
proof (induction xs arbitrary: s)
  case (Cons x xs)
  then show ?case by (cases x) (simp add: expireEntry_def)
qed simp

lemma jwf_do_all: "jwf (dc_pending s) \<Longrightarrow> jwf (dc_pending (snd (dc_do e s)))"
  using jwf_do [of s e] jwf_dispose [of s "dc_pending s"] by (cases e) (simp_all add: dc_dispose_def)

lemma held_run:
  assumes "jwf (dc_pending s)" and "held rid t x s" and "list_all (calm rid x) es"
  shows "held rid t x (snd (dc_run es s))"
  using assms
proof (induction es arbitrary: s)
  case (Cons e es)
  then show ?case using Cons.IH [OF jwf_do_all [OF Cons.prems(1)] held_do [OF Cons.prems(1,2)]] by (simp add: case_prod_beta)
qed simp

lemma jwf_run: "jwf (dc_pending s) \<Longrightarrow> jwf (dc_pending (snd (dc_run es s)))"
proof (induction es arbitrary: s)
  case (Cons e es)
  then show ?case using Cons.IH [OF jwf_do_all [OF Cons.prems]] by (simp add: case_prod_beta)
qed simp

lemma dc_new_simps [simp]:
  "dc_pending (dc_new ttl rate window) = []" "dc_inFlight (dc_new ttl rate window) = []"
  "pushes_of rid (dc_new ttl rate window) = 0"
  by (simp_all add: dc_new_def pushes_of_def)

section \<open>Properties\<close>

text \<open>
  C40: an approved token is handed out at most once. In every run in which the random request ids
  differ, however polls, approvals, mints, sweeps and shutdowns interleave, one request delivers
  at most one token, so a leaked request id cannot collect it again.
\<close>
theorem token_delivered_once:
  assumes "distinct (requested_ids es)"
  shows "length (filter (\<lambda>x. fst x = rid) (fst (dc_run es (dc_new ttl rate window)))) \<le> 1"
  using deliveries_bound [OF _ assms, of rid "dc_new ttl rate window"] by (auto split: if_splits)

text \<open>
  one lifecycle push for each request. In every run without a shutdown a request is reported
  at most once, as allowed, denied or expired; while it is pending nothing is reported, and once
  an entry is denied, expired or approved and resumed it has been reported.
\<close>
theorem lifecycle_pushed_once:
  assumes "distinct (requested_ids es)" and "list_all (\<lambda>e. \<not> disposes e) es"
  shows "pushes_of rid (snd (dc_run es (dc_new ttl rate window))) \<le> 1 \<and>
    (\<forall>e. map_of (dc_pending (snd (dc_run es (dc_new ttl rate window)))) rid = Some e \<longrightarrow>
       map_of (dc_inFlight (snd (dc_run es (dc_new ttl rate window)))) rid = None \<longrightarrow>
       (pushes_of rid (snd (dc_run es (dc_new ttl rate window))) = 0 \<longleftrightarrow> pr_status e = DcPending) \<and>
       (pr_timer e = None \<longleftrightarrow> pr_status e \<noteq> DcPending))"
proof -
  have "request_ok rid (snd (dc_run es (dc_new ttl rate window)))"
    by (rule request_ok_run [OF _ _ _ assms]) (simp_all add: unused_def request_ok_def)
  then show ?thesis by (auto simp: request_ok_def Let_def split: option.splits device_status.splits)
qed

text \<open>
  an approved token waits to be collected. From the moment the token is issued until the end
  of the pickup grace, no sweep, denial, second approval, listing or shutdown takes it away: the
  first poll of the request receives it.
\<close>
theorem approved_token_waits:
  assumes "map_of (dc_inFlight (snd (dc_run es0 (dc_new ttl rate window)))) rid = Some Minting"
    and "map_of (dc_pending (snd (dc_run es0 (dc_new ttl rate window)))) rid = Some e" and "pr_claimed e" and "t \<noteq> []"
    and "list_all (calm rid (pr_expiresAt e)) es"
  shows "fst (dc_do (DcPoll now rid) (snd (dc_run es (dc_minted rid (Some t) (snd (dc_run es0 (dc_new ttl rate window))))))) = [(rid, t)]"
proof -
  let ?s = "snd (dc_run es0 (dc_new ttl rate window))"
  have j: "jwf (dc_pending ?s)" by (rule jwf_run) simp
  have "held rid t (pr_expiresAt e) (dc_minted rid (Some t) ?s)"
    using assms(1-3) by (simp add: held_def dc_minted_def)
  moreover have "jwf (dc_pending (dc_minted rid (Some t) ?s))"
    using jwf_do_all [OF j, of "DcMinted 0 rid (Some t)"] by simp
  ultimately have "held rid t (pr_expiresAt e) (snd (dc_run es (dc_minted rid (Some t) ?s)))"
    using held_run assms(5) by blast
  then show ?thesis using assms(4) by (auto simp: held_def dc_poll_def effectiveStatus_def)
qed

text \<open>
  rate limit. In any window of the configured width at most \<open>rateLimitMax\<close> requests are
  accepted, whatever else happens.
\<close>
theorem device_request_rate:
  assumes "sorted (map dc_time es)" and "0 \<le> rate"
  shows "int (length (filter (\<lambda>x. u - width < x \<and> x \<le> u)
           (hits (\<lambda>e s. snd (dc_do e s)) dc_admits dc_time es (dc_new ttl (Some rate) (Some width))))) \<le> rate"
proof (cases es)
  case (Cons e es')
  show ?thesis
    by (rule dcw.window_bound [where t = "dc_time e" and limit = rate and width = width])
      (use assms Cons in \<open>auto simp: dc_new_def\<close>)
qed (use assms in simp)

section \<open>The push that a sweep swallows\<close>

text \<open>
  The sweep of \<open>request\<close> drops an abandoned request whose timer has not gone off yet together
  with its timer: the request leaves \<open>pending\<close> and nothing is pushed.
\<close>

definition ex_rnd :: "string \<Rightarrow> random_parts" where
  "ex_rnd r = \<lparr> rp_requestId = r, rp_picks = [0, 1, 2, 3, 4, 5, 6, 7], rp_deviceId = ''minted'' \<rparr>"

lemma sweep_swallows_push:
  "map_of (dc_pending (snd (dc_run [DcRequest 0 (ex_rnd ''a'') ''cli'' ''1'' None, DcRequest 300001 (ex_rnd ''b'') ''cli'' ''1'' None,
      DcFire 300002 ''a''] (dc_new None None None)))) ''a'' = None"
  "pushes_of ''a'' (snd (dc_run [DcRequest 0 (ex_rnd ''a'') ''cli'' ''1'' None, DcRequest 300001 (ex_rnd ''b'') ''cli'' ''1'' None,
      DcFire 300002 ''a''] (dc_new None None None))) = 0"
  by code_simp+

section \<open>Witnesses\<close>

definition ex_approval :: "dc_event list" where
  "ex_approval = [DcRequest 0 (ex_rnd ''a'') ''cli'' ''1'' None, DcApprove 10 ''a'']"

theorem token_delivered_once_witness:
  "fst (dc_run (ex_approval @ [DcMinted 20 ''a'' (Some ''tok''), DcPoll 21 ''a'', DcResumed 21 ''a'', DcPoll 22 ''a'']) (dc_new None None None)) =
     [(''a'', ''tok'')] \<and>
   length (filter (\<lambda>x. fst x = ''a'') (fst (dc_run (ex_approval @ [DcMinted 20 ''a'' (Some ''tok''), DcPoll 21 ''a'', DcResumed 21 ''a'', DcPoll 22 ''a''])
     (dc_new None None None)))) \<le> 1"
proof
  show "fst (dc_run (ex_approval @ [DcMinted 20 ''a'' (Some ''tok''), DcPoll 21 ''a'', DcResumed 21 ''a'', DcPoll 22 ''a'']) (dc_new None None None)) =
     [(''a'', ''tok'')]" by code_simp
qed (rule token_delivered_once, simp add: ex_approval_def)

theorem lifecycle_pushed_once_witness:
  "pushes_of ''a'' (snd (dc_run (ex_approval @ [DcMinted 20 ''a'' (Some ''tok''), DcResumed 21 ''a'', DcDeny 22 ''a'']) (dc_new None None None))) \<le> 1 \<and>
   pushes_of ''a'' (snd (dc_run (ex_approval @ [DcMinted 20 ''a'' (Some ''tok''), DcResumed 21 ''a'', DcDeny 22 ''a'']) (dc_new None None None))) = 1"
proof
  show "pushes_of ''a'' (snd (dc_run (ex_approval @ [DcMinted 20 ''a'' (Some ''tok''), DcResumed 21 ''a'', DcDeny 22 ''a'']) (dc_new None None None))) \<le> 1"
    by (rule conjunct1 [OF lifecycle_pushed_once]) (simp_all add: ex_approval_def)
  show "pushes_of ''a'' (snd (dc_run (ex_approval @ [DcMinted 20 ''a'' (Some ''tok''), DcResumed 21 ''a'', DcDeny 22 ''a'']) (dc_new None None None))) = 1"
    by code_simp
qed

theorem approved_token_waits_witness:
  "fst (dc_do (DcPoll 360000 ''a'') (snd (dc_run [DcResumed 21 ''a'', DcDeny 22 ''a'', DcRequest 360000 (ex_rnd ''b'') ''cli'' ''1'' None]
     (dc_minted ''a'' (Some ''tok'') (snd (dc_run ex_approval (dc_new None None None))))))) = [(''a'', ''tok'')]"
proof -
  have 1: "map_of (dc_inFlight (snd (dc_run ex_approval (dc_new None None None)))) ''a'' = Some Minting" by code_simp
  obtain e where 2: "map_of (dc_pending (snd (dc_run ex_approval (dc_new None None None)))) ''a'' = Some e" "pr_claimed e" "pr_expiresAt e = 300000"
  proof -
    have "map_option (\<lambda>e. (pr_claimed e, pr_expiresAt e)) (map_of (dc_pending (snd (dc_run ex_approval (dc_new None None None)))) ''a'') = Some (True, 300000)"
      by code_simp
    then show thesis using that by auto
  qed
  show ?thesis
    by (rule approved_token_waits [OF 1 2(1,2)]) (simp_all add: 2(3) COLLECT_GRACE_MS_def ex_rnd_def)
qed

theorem device_request_rate_witness:
  "int (length (filter (\<lambda>x. 2 - 1000 < x \<and> x \<le> 2)
     (hits (\<lambda>e s. snd (dc_do e s)) dc_admits dc_time
        [DcRequest 0 (ex_rnd ''a'') ''cli'' ''1'' None, DcPoll 1 ''a'', DcRequest 2 (ex_rnd ''b'') ''cli'' ''1'' None]
        (dc_new None (Some 1) (Some 1000))))) \<le> 1"
  by (rule device_request_rate) simp_all

end
