(* ===== verification/Ticket_Verify.thy ===== *)
theory Ticket_Verify
  imports Transcript
begin

text \<open>
  Verification of a native-messaging ticket, \<open>core/bridge/mbp1/ticket-verify.ts\<close>. HMAC, HKDF and
  the Ed25519 operations of the noble libraries are a record of parameters; the wire object is
  what \<open>JSON.parse\<close> left of it, field by field.
\<close>

section \<open>Data\<close>

record ticket_crypto =
  cr_hmac :: "byte list \<Rightarrow> byte list \<Rightarrow> byte list"
  cr_hkdf32 :: "byte list \<Rightarrow> byte list \<Rightarrow> byte list \<Rightarrow> byte list"
  cr_point_ok :: "byte list \<Rightarrow> bool"
  cr_ed25519_verify :: "byte list \<Rightarrow> byte list \<Rightarrow> byte list \<Rightarrow> bool"

text \<open>A JSON value as far as the schema looks: integers, strings and everything else.\<close>

datatype json_field = JInt int | JStr string | JOther

text \<open>\<open>None\<close> is a value that is no object.\<close>

type_synonym ticket_json = "(string, json_field) jmap option"

datatype ticket_abort =
    AbortSchema | AbortMacMismatch | AbortFormatMismatch | AbortBindingKeyInvalid | AbortBindingKeyMismatch
  | AbortCallerIdMismatch | AbortBrowserMismatch | AbortReplayed | AbortExpTooFar

datatype ticket_downgrade = UnknownGeneration | TicketExpired

datatype ticket_verdict =
    TicketAbort ticket_abort
  | TicketDowngrade ticket_downgrade "byte list"
  | TicketAttested string "byte list"

type_synonym replay_cache = "(string, int) jmap"

record ticket_context =
  tc_localToken :: string
  tc_serverGeneration :: string
  tc_nowMs :: int
  tc_helloBrowser :: string
  tc_helloClaimedExtensionId :: string
  tc_helloTicketBindingKey :: "byte list option"

definition TICKET_VERSION :: int where "TICKET_VERSION = 1"
definition TICKET_PURPOSE :: string where "TICKET_PURPOSE = ''mbp1-attestation''"
definition TICKET_PROTOCOL_VERSION :: int where "TICKET_PROTOCOL_VERSION = 1"
definition TICKET_KEY_SALT :: "byte list" where "TICKET_KEY_SALT = utf8ToBytes ''MBP1/nm-ticket/v1''"
definition TICKET_KEY_INFO :: "byte list" where "TICKET_KEY_INFO = utf8ToBytes ''mac''"
definition PROOF_LABEL :: "byte list" where "PROOF_LABEL = utf8ToBytes ''MBP1/ticket-proof/v1''"
definition POINT_LENGTH :: nat where "POINT_LENGTH = 32"
definition SIGNATURE_LENGTH :: nat where "SIGNATURE_LENGTH = 64"
definition MAX_REMAINING_LIFETIME_MS :: int where "MAX_REMAINING_LIFETIME_MS = 60000"
definition MAX_EXP_SECONDS :: int where "MAX_EXP_SECONDS = (2 ^ 53 - 1) div 1000"

section \<open>Keys, MAC input and proofs\<close>

definition deriveTicketKey :: "ticket_crypto \<Rightarrow> string \<Rightarrow> byte list" where
  "deriveTicketKey cr localToken = cr_hkdf32 cr (utf8ToBytes localToken) TICKET_KEY_SALT TICKET_KEY_INFO"

definition ticketMacInput :: "ticket_wire \<Rightarrow> byte list checked" where
  "ticketMacInput t = concat_checked
     [enc_str TICKET_PURPOSE, encU32BE (tw_v t), encU32BE (tw_protocolVersion t), enc_str (tw_serverGeneration t),
      enc_str (tw_browser t), enc_str (tw_callerId t), encU64BE (tw_exp t), enc_bytes (tw_bindingPub t)]"

definition validateBindingPub :: "ticket_crypto \<Rightarrow> byte list \<Rightarrow> bool" where
  "validateBindingPub cr bytes \<longleftrightarrow> length bytes = POINT_LENGTH \<and> cr_point_ok cr bytes"

definition verifyTicketProofStrict :: "ticket_crypto \<Rightarrow> byte list \<Rightarrow> byte list \<Rightarrow> byte list \<Rightarrow> bool" where
  "verifyTicketProofStrict cr bindingPub tt sig \<longleftrightarrow>
     length sig = SIGNATURE_LENGTH \<and> cr_ed25519_verify cr sig (PROOF_LABEL @ tt) bindingPub"

section \<open>The replay cache\<close>

definition replay_has :: "string \<Rightarrow> replay_cache \<Rightarrow> bool" where
  "replay_has macB64 c \<longleftrightarrow> jhas c macB64"

definition replay_add :: "string \<Rightarrow> int \<Rightarrow> int \<Rightarrow> replay_cache \<Rightarrow> replay_cache" where
  "replay_add macB64 expMs nowMs c = jset c macB64 (min expMs (nowMs + MAX_REMAINING_LIFETIME_MS))"

definition replay_prune :: "int \<Rightarrow> replay_cache \<Rightarrow> replay_cache" where
  "replay_prune nowMs c = filter (\<lambda>e. \<not> snd e \<le> nowMs) c"

section \<open>Parsing\<close>

definition ticket_keys :: "string list" where
  "ticket_keys = [''v'', ''purpose'', ''protocolVersion'', ''serverGeneration'', ''browser'', ''callerId'', ''exp'',
     ''bindingPub'', ''mac'']"

definition int_field :: "int \<Rightarrow> string \<Rightarrow> (string, json_field) jmap \<Rightarrow> int option" where
  "int_field bound k m =
     (case map_of m k of Some (JInt n) \<Rightarrow> if 0 \<le> n \<and> n \<le> bound then Some n else None | _ \<Rightarrow> None)"

definition str_field :: "string \<Rightarrow> (string, json_field) jmap \<Rightarrow> string option" where
  "str_field k m = (case map_of m k of Some (JStr s) \<Rightarrow> Some s | _ \<Rightarrow> None)"

record ticket_strings =
  ts_v :: int
  ts_purpose :: string
  ts_protocolVersion :: int
  ts_serverGeneration :: string
  ts_browser :: string
  ts_callerId :: string
  ts_exp :: int
  ts_bindingPub :: string
  ts_mac :: string

text \<open>\<open>ticketWireSchema\<close>: the nine fields with their ranges, and no other one.\<close>

definition ticketWireSchema :: "ticket_json \<Rightarrow> ticket_strings option" where
  "ticketWireSchema wire =
     (case wire of
        None \<Rightarrow> None
      | Some m \<Rightarrow>
          (case (int_field 4294967295 ''v'' m, str_field ''purpose'' m, int_field 4294967295 ''protocolVersion'' m,
                 str_field ''serverGeneration'' m, str_field ''browser'' m, str_field ''callerId'' m,
                 int_field MAX_EXP_SECONDS ''exp'' m, str_field ''bindingPub'' m, str_field ''mac'' m) of
             (Some v, Some p, Some pv, Some g, Some b, Some c, Some e, Some k, Some a) \<Rightarrow>
               if fst ` set m \<subseteq> set ticket_keys
               then Some \<lparr> ts_v = v, ts_purpose = p, ts_protocolVersion = pv, ts_serverGeneration = g, ts_browser = b,
                           ts_callerId = c, ts_exp = e, ts_bindingPub = k, ts_mac = a \<rparr>
               else None
           | _ \<Rightarrow> None))"

text \<open>The bytes of the two base64url fields and the MAC input; every exception is \<open>null\<close>.\<close>

definition parseTicketWire :: "ticket_json \<Rightarrow> (ticket_wire \<times> byte list) option" where
  "parseTicketWire wire =
     (case ticketWireSchema wire of
        None \<Rightarrow> None
      | Some s \<Rightarrow>
          (case fromBase64Url (ts_bindingPub s) of
             Inl _ \<Rightarrow> None
           | Inr pub \<Rightarrow>
             (case fromBase64Url (ts_mac s) of
                Inl _ \<Rightarrow> None
              | Inr mac \<Rightarrow>
                  (let t = \<lparr> tw_v = ts_v s, tw_purpose = ts_purpose s, tw_protocolVersion = ts_protocolVersion s,
                             tw_serverGeneration = ts_serverGeneration s, tw_browser = ts_browser s,
                             tw_callerId = ts_callerId s, tw_exp = ts_exp s, tw_bindingPub = pub, tw_mac = mac \<rparr>
                   in case ticketMacInput t of Inl _ \<Rightarrow> None | Inr i \<Rightarrow> Some (t, i)))))"

section \<open>The verdict\<close>

definition verifyNmTicket :: "ticket_crypto \<Rightarrow> ticket_json \<Rightarrow> ticket_context \<Rightarrow> replay_cache \<Rightarrow> ticket_verdict \<times> replay_cache" where
  "verifyNmTicket cr wire ctx replay =
     (case parseTicketWire wire of
        None \<Rightarrow> (TicketAbort AbortSchema, replay)
      | Some (t, macInput) \<Rightarrow>
          if tw_mac t \<noteq> cr_hmac cr (deriveTicketKey cr (tc_localToken ctx)) macInput
          then (TicketAbort AbortMacMismatch, replay)
          else if tw_v t \<noteq> TICKET_VERSION \<or> tw_purpose t \<noteq> TICKET_PURPOSE \<or> tw_protocolVersion t \<noteq> TICKET_PROTOCOL_VERSION
          then (TicketAbort AbortFormatMismatch, replay)
          else if \<not> validateBindingPub cr (tw_bindingPub t) then (TicketAbort AbortBindingKeyInvalid, replay)
          else if tc_helloTicketBindingKey ctx \<noteq> Some (tw_bindingPub t) then (TicketAbort AbortBindingKeyMismatch, replay)
          else if tw_callerId t \<noteq> tc_helloClaimedExtensionId ctx then (TicketAbort AbortCallerIdMismatch, replay)
          else if tw_browser t \<noteq> tc_helloBrowser ctx then (TicketAbort AbortBrowserMismatch, replay)
          else let expMs = tw_exp t * 1000;
                   macKey = toBase64Url (tw_mac t);
                   c1 = replay_prune (tc_nowMs ctx) replay
               in if replay_has macKey c1 then (TicketAbort AbortReplayed, c1)
               else let c2 = replay_add macKey expMs (tc_nowMs ctx) c1
               in (if expMs > tc_nowMs ctx + MAX_REMAINING_LIFETIME_MS then TicketAbort AbortExpTooFar
                   else if tw_serverGeneration t \<noteq> tc_serverGeneration ctx then TicketDowngrade UnknownGeneration (tw_bindingPub t)
                   else if expMs \<le> tc_nowMs ctx then TicketDowngrade TicketExpired (tw_bindingPub t)
                   else TicketAttested (tw_callerId t) (tw_bindingPub t), c2))"

section \<open>Lemmas\<close>

text \<open>The rows before the replay check, in one condition.\<close>

definition rows_passed :: "ticket_crypto \<Rightarrow> ticket_context \<Rightarrow> ticket_wire \<Rightarrow> byte list \<Rightarrow> bool" where
  "rows_passed cr ctx t i \<longleftrightarrow>
     tw_mac t = cr_hmac cr (deriveTicketKey cr (tc_localToken ctx)) i \<and>
     tw_v t = TICKET_VERSION \<and> tw_purpose t = TICKET_PURPOSE \<and> tw_protocolVersion t = TICKET_PROTOCOL_VERSION \<and>
     validateBindingPub cr (tw_bindingPub t) \<and> tc_helloTicketBindingKey ctx = Some (tw_bindingPub t) \<and>
     tw_callerId t = tc_helloClaimedExtensionId ctx \<and> tw_browser t = tc_helloBrowser ctx"

lemma verify_unfold:
  "parseTicketWire wire = Some (t, i) \<Longrightarrow> rows_passed cr ctx t i \<Longrightarrow>
   verifyNmTicket cr wire ctx replay =
     (let c1 = replay_prune (tc_nowMs ctx) replay
      in if replay_has (toBase64Url (tw_mac t)) c1 then (TicketAbort AbortReplayed, c1)
         else (if tw_exp t * 1000 > tc_nowMs ctx + MAX_REMAINING_LIFETIME_MS then TicketAbort AbortExpTooFar
               else if tw_serverGeneration t \<noteq> tc_serverGeneration ctx then TicketDowngrade UnknownGeneration (tw_bindingPub t)
               else if tw_exp t * 1000 \<le> tc_nowMs ctx then TicketDowngrade TicketExpired (tw_bindingPub t)
               else TicketAttested (tw_callerId t) (tw_bindingPub t),
               replay_add (toBase64Url (tw_mac t)) (tw_exp t * 1000) (tc_nowMs ctx) c1))"
  by (simp add: verifyNmTicket_def rows_passed_def Let_def)

lemma verify_early:
  assumes "\<not> (\<exists>t i. parseTicketWire wire = Some (t, i) \<and> rows_passed cr ctx t i)"
  shows "\<exists>r. verifyNmTicket cr wire ctx replay = (TicketAbort r, replay) \<and> r \<noteq> AbortReplayed \<and> r \<noteq> AbortExpTooFar"
  using assms by (auto simp: verifyNmTicket_def rows_passed_def split: option.split)

lemma verify_cases:
  obtains (early) r where "verifyNmTicket cr wire ctx replay = (TicketAbort r, replay)"
  | (replayed) t i where "parseTicketWire wire = Some (t, i)" "rows_passed cr ctx t i"
      "verifyNmTicket cr wire ctx replay = (TicketAbort AbortReplayed, replay_prune (tc_nowMs ctx) replay)"
      "replay_has (toBase64Url (tw_mac t)) (replay_prune (tc_nowMs ctx) replay)"
  | (consumed) t i v where "parseTicketWire wire = Some (t, i)" "rows_passed cr ctx t i"
      "\<not> replay_has (toBase64Url (tw_mac t)) (replay_prune (tc_nowMs ctx) replay)"
      "verifyNmTicket cr wire ctx replay =
         (v, replay_add (toBase64Url (tw_mac t)) (tw_exp t * 1000) (tc_nowMs ctx) (replay_prune (tc_nowMs ctx) replay))"
proof (cases "\<exists>t i. parseTicketWire wire = Some (t, i) \<and> rows_passed cr ctx t i")
  case True
  then obtain t i where "parseTicketWire wire = Some (t, i)" "rows_passed cr ctx t i" by blast
  then show thesis using verify_unfold [of wire t i cr ctx replay] replayed consumed
    by (cases "replay_has (toBase64Url (tw_mac t)) (replay_prune (tc_nowMs ctx) replay)") (auto simp: Let_def)
next
  case False
  then show thesis using verify_early early by blast
qed

text \<open>A MAC remembered up to \<open>x\<close> stays remembered until then.\<close>

definition remembered :: "string \<Rightarrow> int \<Rightarrow> replay_cache \<Rightarrow> bool" where
  "remembered k x c \<longleftrightarrow> map_of c k = Some x"

lemma remembered_prune: "jwf c \<Longrightarrow> remembered k x c \<Longrightarrow> t < x \<Longrightarrow> remembered k x (replay_prune t c)"
  by (simp add: remembered_def replay_prune_def map_of_filter_Some)

lemma jwf_prune [simp]: "jwf c \<Longrightarrow> jwf (replay_prune t c)"
  by (simp add: replay_prune_def)

lemma jwf_verify: "jwf c \<Longrightarrow> jwf (snd (verifyNmTicket cr wire ctx c))"
  by (cases cr wire ctx c rule: verify_cases) (simp_all add: replay_add_def)

lemma remembered_verify:
  assumes "jwf c" and "remembered k x c" and "tc_nowMs ctx < x"
  shows "remembered k x (snd (verifyNmTicket cr wire ctx c))"
  using remembered_prune [OF assms]
  by (cases cr wire ctx c rule: verify_cases) (use assms(2) in \<open>auto simp: remembered_def replay_add_def replay_has_def\<close>)

fun verify_run :: "ticket_crypto \<Rightarrow> (ticket_json \<times> ticket_context) list \<Rightarrow> replay_cache \<Rightarrow> replay_cache" where
  "verify_run cr [] c = c"
| "verify_run cr ((wire, ctx) # es) c = verify_run cr es (snd (verifyNmTicket cr wire ctx c))"

lemma jwf_verify_run: "jwf c \<Longrightarrow> jwf (verify_run cr es c)"
  by (induction cr es c rule: verify_run.induct) (simp_all add: jwf_verify)

lemma remembered_run:
  "jwf c \<Longrightarrow> remembered k x c \<Longrightarrow> list_all (\<lambda>e. tc_nowMs (snd e) < x) es \<Longrightarrow> remembered k x (verify_run cr es c)"
  by (induction cr es c rule: verify_run.induct) (auto simp: jwf_verify remembered_verify)

lemma attested_iff:
  "fst (verifyNmTicket cr wire ctx replay) = TicketAttested caller pub \<longleftrightarrow>
     (\<exists>t i. parseTicketWire wire = Some (t, i) \<and> rows_passed cr ctx t i \<and> caller = tw_callerId t \<and> pub = tw_bindingPub t \<and>
        \<not> replay_has (toBase64Url (tw_mac t)) (replay_prune (tc_nowMs ctx) replay) \<and>
        tw_serverGeneration t = tc_serverGeneration ctx \<and>
        tc_nowMs ctx < tw_exp t * 1000 \<and> tw_exp t * 1000 \<le> tc_nowMs ctx + MAX_REMAINING_LIFETIME_MS)"
proof (cases "\<exists>t i. parseTicketWire wire = Some (t, i) \<and> rows_passed cr ctx t i")
  case True
  then obtain t i where "parseTicketWire wire = Some (t, i)" "rows_passed cr ctx t i" by blast
  then show ?thesis using verify_unfold [of wire t i cr ctx replay] by (auto simp: Let_def)
next
  case False
  then show ?thesis using verify_early [OF False, of replay] by auto
qed

lemma verify_run_append [simp]: "verify_run cr (es @ es') c = verify_run cr es' (verify_run cr es c)"
  by (induction cr es c rule: verify_run.induct) simp_all

lemma jall_prune: "jall P c \<Longrightarrow> jall P (replay_prune t c)"
  by (simp add: replay_prune_def jall_filter)

text \<open>No entry outlives the last clock by more than the lifetime bound.\<close>

lemma replay_bound_verify:
  "jall (\<lambda>x. x \<le> b + MAX_REMAINING_LIFETIME_MS) c \<Longrightarrow> tc_nowMs ctx \<le> b \<Longrightarrow>
   jall (\<lambda>x. x \<le> b + MAX_REMAINING_LIFETIME_MS) (snd (verifyNmTicket cr wire ctx c))"
  by (cases cr wire ctx c rule: verify_cases) (simp_all add: jall_prune replay_add_def jall_jset)

lemma replay_bound_run:
  "jall (\<lambda>x. x \<le> b + MAX_REMAINING_LIFETIME_MS) c \<Longrightarrow> list_all (\<lambda>e. tc_nowMs (snd e) \<le> b) es \<Longrightarrow>
   jall (\<lambda>x. x \<le> b + MAX_REMAINING_LIFETIME_MS) (verify_run cr es c)"
  by (induction cr es c rule: verify_run.induct) (auto intro: replay_bound_verify)

text \<open>A small deployment to run the definitions on.\<close>

definition toy_crypto :: ticket_crypto where
  "toy_crypto = \<lparr> cr_hmac = (\<lambda>k m. [0]), cr_hkdf32 = (\<lambda>k s i. k), cr_point_ok = (\<lambda>p. True),
     cr_ed25519_verify = (\<lambda>s m p. True) \<rparr>"

definition toy_wire :: "int \<Rightarrow> ticket_json" where
  "toy_wire e = Some [(''v'', JInt 1), (''purpose'', JStr ''mbp1-attestation''), (''protocolVersion'', JInt 1),
     (''serverGeneration'', JStr ''g''), (''browser'', JStr ''chrome''), (''callerId'', JStr ''ext''), (''exp'', JInt e),
     (''bindingPub'', JStr ''AAAAAAAAAAAAAAAAAAAAAAAAAAAAAAAAAAAAAAAAAAA''), (''mac'', JStr ''AA'')]"

definition toy_ticket :: "int \<Rightarrow> ticket_wire" where
  "toy_ticket e = \<lparr> tw_v = 1, tw_purpose = ''mbp1-attestation'', tw_protocolVersion = 1, tw_serverGeneration = ''g'',
     tw_browser = ''chrome'', tw_callerId = ''ext'', tw_exp = e, tw_bindingPub = replicate 32 0, tw_mac = [0] \<rparr>"

definition toy_context :: "int \<Rightarrow> ticket_context" where
  "toy_context now = \<lparr> tc_localToken = ''t'', tc_serverGeneration = ''g'', tc_nowMs = now, tc_helloBrowser = ''chrome'',
     tc_helloClaimedExtensionId = ''ext'', tc_helloTicketBindingKey = Some (replicate 32 0) \<rparr>"

lemma toy_attested:
  "fst (verifyNmTicket toy_crypto (toy_wire 30) (toy_context 0) []) = TicketAttested ''ext'' (replicate 32 0)"
  by code_simp

text \<open>
  \<open>TicketReplayCache.add\<close> clamps the retention and says that a ticket beyond the lifetime bound can
  never be honoured. It can: refused at time 0 with 120 seconds to live, it is forgotten after 60
  seconds and attested at second 61.
\<close>

lemma refused_ticket_honoured_later:
  "fst (verifyNmTicket toy_crypto (toy_wire 120) (toy_context 0) []) = TicketAbort AbortExpTooFar"
  "fst (verifyNmTicket toy_crypto (toy_wire 120) (toy_context 61000)
     (verify_run toy_crypto [(toy_wire 120, toy_context 0)] [])) = TicketAttested ''ext'' (replicate 32 0)"
  by code_simp+

text \<open>
  A presentation uses a MAC up when it passes the rows before the replay check and finds the MAC unused: from then
  on, the MAC is remembered until the expiry of the ticket, and for 60 seconds at most, whatever the later rows say.
\<close>

definition uses_up ::
  "ticket_crypto \<Rightarrow> (ticket_json \<times> ticket_context) list \<Rightarrow> ticket_json \<Rightarrow> ticket_context \<Rightarrow> string \<Rightarrow> int \<Rightarrow> bool" where
  "uses_up cr earlier wire ctx k till \<longleftrightarrow>
     (\<exists>t i. parseTicketWire wire = Some (t, i) \<and> rows_passed cr ctx t i \<and> k = toBase64Url (tw_mac t) \<and>
        till = min (tw_exp t * 1000) (tc_nowMs ctx + 60000) \<and>
        \<not> replay_has k (replay_prune (tc_nowMs ctx) (verify_run cr earlier [])))"

lemma prune_prune: "t \<le> b \<Longrightarrow> replay_prune b (replay_prune t c) = replay_prune b c"
  by (auto simp: replay_prune_def intro!: filter_cong)

lemma uses_up_remembers:
  assumes "uses_up cr earlier wire ctx k till"
  shows "remembered k till (verify_run cr (earlier @ [(wire, ctx)]) [])"
proof -
  obtain t i where t: "parseTicketWire wire = Some (t, i)" "rows_passed cr ctx t i" "k = toBase64Url (tw_mac t)"
      "till = min (tw_exp t * 1000) (tc_nowMs ctx + 60000)"
      "\<not> replay_has k (replay_prune (tc_nowMs ctx) (verify_run cr earlier []))"
    using assms unfolding uses_up_def by blast
  then show ?thesis
    using verify_unfold [OF t(1,2), of "verify_run cr earlier []"]
    by (simp add: Let_def remembered_def replay_add_def MAX_REMAINING_LIFETIME_MS_def)
qed

lemma remembered_used:
  assumes "list_all (\<lambda>e. tc_nowMs (snd e) \<le> b) es" and "remembered k x (replay_prune b (verify_run cr es []))"
  shows "\<exists>earlier wire ctx later. es = earlier @ (wire, ctx) # later \<and> uses_up cr earlier wire ctx k x \<and> b < x"
  using assms
proof (induction es rule: rev_induct)
  case Nil
  then show ?case by (simp add: remembered_def replay_prune_def)
next
  case (snoc e es)
  obtain wire ctx where e: "e = (wire, ctx)" by (cases e)
  let ?c = "verify_run cr es []"
  have jwf: "jwf ?c" by (simp add: jwf_verify_run)
  have older: ?case if "remembered k x (replay_prune b ?c)"
    using snoc.IH [OF _ that] snoc.prems(1) by fastforce
  have le: "tc_nowMs ctx \<le> b" using snoc.prems(1) e by simp
  have now: "remembered k x (replay_prune b (snd (verifyNmTicket cr wire ctx ?c)))" using snoc.prems(2) e by simp
  show ?case
  proof (cases cr wire ctx ?c rule: verify_cases)
    case (early r)
    then show ?thesis using now older by simp
  next
    case (replayed t i)
    then show ?thesis using now older prune_prune [OF le] by simp
  next
    case (consumed t i v)
    let ?k = "toBase64Url (tw_mac t)" and ?x = "min (tw_exp t * 1000) (tc_nowMs ctx + 60000)"
    have added: "snd (verifyNmTicket cr wire ctx ?c) = jset (replay_prune (tc_nowMs ctx) ?c) ?k ?x"
      using consumed(4) by (simp add: replay_add_def MAX_REMAINING_LIFETIME_MS_def)
    have wf: "jwf (snd (verifyNmTicket cr wire ctx ?c))" using jwf by (rule jwf_verify)
    have mem: "map_of (snd (verifyNmTicket cr wire ctx ?c)) k = Some x \<and> b < x"
      using now wf by (simp add: remembered_def replay_prune_def map_of_filter_Some)
    show ?thesis
    proof (cases "k = ?k")
      case True
      then have "x = ?x" using mem added by simp
      then have "uses_up cr es wire ctx k x" using consumed(1-3) True unfolding uses_up_def by blast
      then show ?thesis using mem e by blast
    next
      case False
      then have "map_of (replay_prune (tc_nowMs ctx) ?c) k = Some x" using mem added by simp
      then have "remembered k x (replay_prune b (replay_prune (tc_nowMs ctx) ?c))"
        using remembered_prune [of "replay_prune (tc_nowMs ctx) ?c" k x b] jwf mem by (simp add: remembered_def)
      then show ?thesis using older prune_prune [OF le] by simp
    qed
  qed
qed

lemma unused_iff:
  assumes "list_all (\<lambda>e. tc_nowMs (snd e) \<le> b) es"
  shows "map_of (replay_prune b (verify_run cr es [])) k = None \<longleftrightarrow>
    (\<forall>earlier wire ctx later till. es = earlier @ (wire, ctx) # later \<longrightarrow> uses_up cr earlier wire ctx k till \<longrightarrow> till \<le> b)"
proof
  assume free: "map_of (replay_prune b (verify_run cr es [])) k = None"
  show "\<forall>earlier wire ctx later till. es = earlier @ (wire, ctx) # later \<longrightarrow> uses_up cr earlier wire ctx k till \<longrightarrow> till \<le> b"
  proof (intro allI impI)
    fix earlier wire ctx later till
    assume es: "es = earlier @ (wire, ctx) # later" and used: "uses_up cr earlier wire ctx k till"
    show "till \<le> b"
    proof (rule ccontr)
      assume "\<not> till \<le> b"
      moreover have "list_all (\<lambda>e. tc_nowMs (snd e) < till) later"
        unfolding list_all_iff
      proof
        fix e assume "e \<in> set later"
        then have "tc_nowMs (snd e) \<le> b" using assms es by (simp add: list_all_iff)
        then show "tc_nowMs (snd e) < till" using \<open>\<not> till \<le> b\<close> by linarith
      qed
      ultimately have "remembered k till (replay_prune b (verify_run cr es []))"
        using remembered_run [OF _ uses_up_remembers [OF used], of later]
        by (simp add: es jwf_verify_run remembered_prune jwf_verify)
      then show False using free by (simp add: remembered_def)
    qed
  qed
next
  assume unused: "\<forall>earlier wire ctx later till. es = earlier @ (wire, ctx) # later \<longrightarrow> uses_up cr earlier wire ctx k till \<longrightarrow> till \<le> b"
  show "map_of (replay_prune b (verify_run cr es [])) k = None"
  proof (rule ccontr)
    assume "map_of (replay_prune b (verify_run cr es [])) k \<noteq> None"
    then obtain x where "remembered k x (replay_prune b (verify_run cr es []))" by (auto simp: remembered_def)
    from remembered_used [OF assms this] show False using unused by force
  qed
qed

section \<open>Properties\<close>

text \<open>
  C24: the only way to an attested identity, after any history of presentations under a clock that does not go
  back: a wire that parses, a MAC under the key of the local token, the one version, purpose and protocol version, a
  valid binding key equal to the one of the hello, the hello's caller and browser, the live generation, an expiry in
  the next 60 seconds, and a MAC that no earlier presentation has used up for the present time, which it does until
  the expiry of its ticket and for 60 seconds at most. All of these suffice; so a MAC that was used up by a ticket
  refused as too far from its expiry counts as unused again after 60 seconds, as the lemma
  \<open>refused_ticket_honoured_later\<close> shows.
\<close>
theorem attested_exact:
  assumes "list_all (\<lambda>e. tc_nowMs (snd e) \<le> tc_nowMs ctx) history"
  shows "fst (verifyNmTicket cr wire ctx (verify_run cr history [])) = TicketAttested caller pub \<longleftrightarrow>
     (\<exists>t i. parseTicketWire wire = Some (t, i) \<and>
        tw_mac t = cr_hmac cr (deriveTicketKey cr (tc_localToken ctx)) i \<and>
        tw_v t = 1 \<and> tw_purpose t = ''mbp1-attestation'' \<and> tw_protocolVersion t = 1 \<and>
        length (tw_bindingPub t) = 32 \<and> cr_point_ok cr (tw_bindingPub t) \<and>
        tc_helloTicketBindingKey ctx = Some (tw_bindingPub t) \<and>
        tw_callerId t = tc_helloClaimedExtensionId ctx \<and> tw_browser t = tc_helloBrowser ctx \<and>
        (\<forall>earlier wire0 ctx0 later till. history = earlier @ (wire0, ctx0) # later \<longrightarrow>
           uses_up cr earlier wire0 ctx0 (toBase64Url (tw_mac t)) till \<longrightarrow> till \<le> tc_nowMs ctx) \<and>
        tw_serverGeneration t = tc_serverGeneration ctx \<and>
        tc_nowMs ctx < tw_exp t * 1000 \<and> tw_exp t * 1000 \<le> tc_nowMs ctx + 60000 \<and>
        caller = tw_callerId t \<and> pub = tw_bindingPub t)"
  unfolding attested_iff unused_iff [OF assms, of cr, symmetric] rows_passed_def validateBindingPub_def POINT_LENGTH_def
    TICKET_VERSION_def TICKET_PURPOSE_def TICKET_PROTOCOL_VERSION_def MAX_REMAINING_LIFETIME_MS_def replay_has_def
  by (auto simp only: not_not)

lemma attested_exact_witness:
  "\<exists>t i. parseTicketWire (toy_wire 120) = Some (t, i) \<and> tc_helloTicketBindingKey (toy_context 61000) = Some (tw_bindingPub t) \<and>
     (\<forall>earlier wire0 ctx0 later till. [(toy_wire 120, toy_context 0)] = earlier @ (wire0, ctx0) # later \<longrightarrow>
        uses_up toy_crypto earlier wire0 ctx0 (toBase64Url (tw_mac t)) till \<longrightarrow> till \<le> 61000)"
proof -
  have "list_all (\<lambda>e. tc_nowMs (snd e) \<le> tc_nowMs (toy_context 61000)) [(toy_wire 120, toy_context 0)]"
    by (simp add: toy_context_def)
  from attested_exact [OF this, THEN iffD1, OF refused_ticket_honoured_later(2)]
  show ?thesis by (auto simp: toy_context_def)
qed

text \<open>
  C25: a ticket is honoured once. After it has been attested, in whatever history, no later presentation of the
  same ticket is attested again, whatever is verified in between, as long as the clock does not go back.
\<close>
theorem ticket_one_shot:
  assumes "fst (verifyNmTicket cr wire ctx (verify_run cr before [])) = TicketAttested caller pub"
    and "parseTicketWire wire' = parseTicketWire wire"
    and "list_all (\<lambda>e. tc_nowMs (snd e) \<le> tc_nowMs ctx') between"
  shows "fst (verifyNmTicket cr wire' ctx' (verify_run cr (before @ (wire, ctx) # between) [])) \<noteq> TicketAttested caller' pub'"
proof
  let ?c = "verify_run cr before []"
  assume again: "fst (verifyNmTicket cr wire' ctx' (verify_run cr (before @ (wire, ctx) # between) [])) = TicketAttested caller' pub'"
  obtain t i where t: "parseTicketWire wire = Some (t, i)" "rows_passed cr ctx t i"
      "\<not> replay_has (toBase64Url (tw_mac t)) (replay_prune (tc_nowMs ctx) ?c)"
      "tw_exp t * 1000 \<le> tc_nowMs ctx + MAX_REMAINING_LIFETIME_MS"
    using assms(1) unfolding attested_iff by blast
  from again obtain live: "tc_nowMs ctx' < tw_exp t * 1000"
      and unseen: "\<not> replay_has (toBase64Url (tw_mac t))
        (replay_prune (tc_nowMs ctx') (verify_run cr (before @ (wire, ctx) # between) []))"
    unfolding attested_iff using assms(2) t(1) by auto
  have "remembered (toBase64Url (tw_mac t)) (tw_exp t * 1000) (snd (verifyNmTicket cr wire ctx ?c))"
    using verify_unfold [OF t(1,2), of ?c] t(3,4) by (simp add: Let_def remembered_def replay_add_def min_def)
  then have "remembered (toBase64Url (tw_mac t)) (tw_exp t * 1000) (verify_run cr between (snd (verifyNmTicket cr wire ctx ?c)))"
    by (rule remembered_run [rotated]) (use assms(3) live in \<open>auto simp: list_all_iff jwf_verify jwf_verify_run\<close>)
  then have "remembered (toBase64Url (tw_mac t)) (tw_exp t * 1000)
      (replay_prune (tc_nowMs ctx') (verify_run cr (before @ (wire, ctx) # between) []))"
    using live by (simp add: remembered_prune jwf_verify jwf_verify_run)
  then show False using unseen by (simp add: remembered_def replay_has_def)
qed

theorem ticket_one_shot_witness:
  "fst (verifyNmTicket toy_crypto (toy_wire 30) (toy_context 20000)
     (verify_run toy_crypto ([] @ (toy_wire 30, toy_context 0) # [(None, toy_context 10000)]) []))
   \<noteq> TicketAttested ''ext'' (replicate 32 0)"
proof (rule ticket_one_shot)
  show "fst (verifyNmTicket toy_crypto (toy_wire 30) (toy_context 0) (verify_run toy_crypto [] [])) =
      TicketAttested ''ext'' (replicate 32 0)"
    using toy_attested by simp
qed (simp_all add: toy_context_def)

text \<open>
  the replay cache cannot be pinned: whatever the tickets claim as their expiry, once the lifetime bound has
  passed since the last verification, pruning leaves no entry.
\<close>
theorem replay_cache_empties:
  assumes "list_all (\<lambda>e. tc_nowMs (snd e) \<le> b) es"
  shows "replay_prune (b + MAX_REMAINING_LIFETIME_MS) (verify_run cr es []) = []"
  using replay_bound_run [OF _ assms, of "[]" cr]
  by (auto simp: jall_def replay_prune_def filter_empty_conv list_all_iff)

theorem replay_cache_empties_witness:
  "replay_prune (0 + MAX_REMAINING_LIFETIME_MS) (verify_run toy_crypto [(toy_wire 120, toy_context 0)] []) = []"
  by (rule replay_cache_empties) (simp add: toy_context_def)

end
