(* ===== verification/Extension_Identity.thy ===== *)
theory Extension_Identity
  imports Prelude Node_Path
begin

text \<open>
  The identity of a browser extension, \<open>core/bridge/extension-identity-resolver.ts\<close>: what of the
  transport's \<open>Origin\<close> is accepted as evidence, and which trust level it earns. The runtime's WHATWG
  parser \<open>new URL\<close> is the parameter \<open>new_url\<close>; nothing is assumed of it.
\<close>

section \<open>Browsers and origins\<close>

text \<open>A browser is its name; \<open>BrowserSchema\<close> names the three that exist.\<close>

definition BrowserSchema :: "string list" where
  "BrowserSchema = [''chromium'', ''firefox'', ''safari'']"

definition isBridgeBrowser :: "string \<Rightarrow> bool" where
  "isBridgeBrowser b \<longleftrightarrow> b \<in> set BrowserSchema"

definition EXTENSION_ORIGIN_SCHEMES :: "string \<Rightarrow> string" where
  "EXTENSION_ORIGIN_SCHEMES b =
     (if b = ''chromium'' then ''chrome-extension'' else if b = ''firefox'' then ''moz-extension''
      else ''safari-web-extension'')"

definition lower_hex :: "char \<Rightarrow> bool" where
  "lower_hex c \<longleftrightarrow> c \<in> set ''0123456789abcdef''"

text \<open>Groups of lowercase hexadecimal digits of the given lengths, with dashes between them.\<close>

fun hex_groups :: "nat list \<Rightarrow> string \<Rightarrow> bool" where
  "hex_groups [] s \<longleftrightarrow> s = []"
| "hex_groups [n] s \<longleftrightarrow> length s = n \<and> list_all lower_hex s"
| "hex_groups (n # ns) s \<longleftrightarrow>
     length s > n \<and> list_all lower_hex (take n s) \<and> s ! n = CHR ''-'' \<and> hex_groups ns (drop (n + 1) s)"

definition safari_prefix :: string where "safari_prefix = ''safari-web-extension://''"

definition isSafariExtensionOrigin :: "string \<Rightarrow> bool" where
  "isSafariExtensionOrigin origin \<longleftrightarrow>
     take (length safari_prefix) origin = safari_prefix \<and>
     hex_groups [8, 4, 4, 4, 12] (drop (length safari_prefix) origin)"

record url =
  url_protocol :: string
  url_hostname :: string
  url_host :: string
  url_port :: string
  url_username :: string
  url_password :: string
  url_pathname :: string
  url_search :: string
  url_hash :: string

text \<open>\<open>None\<close>: the constructor threw.\<close>

type_synonym url_parser = "string \<Rightarrow> url option"

section \<open>Normalization\<close>

record official_entry =
  oe_browser :: string
  oe_id :: string

record identity_input =
  ii_browser :: string
  ii_verifiedOrigin :: string
  ii_claimedExtensionId :: string

record normalized_identity =
  ni_browser :: string
  ni_originHost :: string
  ni_verifiedExtensionId :: "string option"

definition containsUnsafeOriginSyntax :: "string \<Rightarrow> bool" where
  "containsUnsafeOriginSyntax v \<longleftrightarrow>
     (\<exists>c \<in> set v. c = CHR 0x5C \<or> c = CHR ''%'' \<or> c = CHR '' '' \<or> (of_char c :: nat) \<le> 31 \<or> 127 \<le> (of_char c :: nat))"

text \<open>\<open>None\<close> is the frozen failure object.\<close>

definition normalizeExtensionIdentity :: "url_parser \<Rightarrow> identity_input \<Rightarrow> normalized_identity option" where
  "normalizeExtensionIdentity new_url i =
     (let scheme = EXTENSION_ORIGIN_SCHEMES (ii_browser i) @ '':'';
          pre = scheme @ ''//'';
          origin = ii_verifiedOrigin i
      in if \<not> isBridgeBrowser (ii_browser i) then None
         else if ii_browser i = ''safari'' \<and> \<not> isSafariExtensionOrigin origin then None
         else if length origin = 0 \<or> take (length pre) origin \<noteq> pre \<or> containsUnsafeOriginSyntax origin then None
         else case new_url origin of
                None \<Rightarrow> None
              | Some p \<Rightarrow>
                  if url_protocol p \<noteq> scheme \<or> length (url_hostname p) = 0 \<or> url_port p \<noteq> [] \<or> url_username p \<noteq> [] \<or>
                     url_password p \<noteq> [] \<or> url_pathname p \<noteq> [] \<or> url_search p \<noteq> [] \<or> url_hash p \<noteq> [] then None
                  else if origin \<noteq> pre @ url_hostname p then None
                  else if ii_browser i = ''chromium'' \<and> url_hostname p \<noteq> ii_claimedExtensionId i then None
                  else Some \<lparr> ni_browser = ii_browser i, ni_originHost = url_hostname p,
                         ni_verifiedExtensionId = (if ii_browser i = ''chromium'' then Some (url_hostname p) else None) \<rparr>)"

section \<open>Resolution\<close>

datatype attestation = NoAttestation | VerifiedNmTicket string

datatype evidence = EvVerifiedOrigin | EvVerifiedNmTicket | EvNone

datatype identity_tri_state = IdOfficial | IdAttestedNonOfficial | IdUnverified

record identity_resolution =
  ir_identity :: identity_tri_state
  ir_evidence :: evidence
  ir_provenExtensionId :: "string option"

definition validProvenId :: "string \<Rightarrow> bool" where
  "validProvenId v \<longleftrightarrow> v \<noteq> [] \<and> list_all (\<lambda>c. 33 \<le> (of_char c :: nat) \<and> (of_char c :: nat) \<le> 126) v"

definition resolveNormalizedExtensionIdentity ::
  "normalized_identity \<Rightarrow> attestation \<Rightarrow> (string \<Rightarrow> string \<Rightarrow> bool) \<Rightarrow> identity_resolution option" where
  "resolveNormalizedExtensionIdentity n att isOfficialId =
     (let chromium = (ni_browser n = ''chromium'');
          tier = (\<lambda>i. if isOfficialId (ni_browser n) i then IdOfficial else IdAttestedNonOfficial)
      in if \<not> isBridgeBrowser (ni_browser n) \<or> ni_originHost n = [] \<or>
            (chromium \<and> (ni_verifiedExtensionId n = Some [] \<or> ni_verifiedExtensionId n \<noteq> Some (ni_originHost n))) \<or>
            (\<not> chromium \<and> ni_verifiedExtensionId n \<noteq> None) then None
         else case att of
                VerifiedNmTicket callerId \<Rightarrow>
                  if \<not> validProvenId callerId \<or> (chromium \<and> Some callerId \<noteq> ni_verifiedExtensionId n) then None
                  else Some \<lparr> ir_identity = tier callerId, ir_evidence = EvVerifiedNmTicket, ir_provenExtensionId = Some callerId \<rparr>
              | NoAttestation \<Rightarrow>
                  if \<not> chromium
                  then Some \<lparr> ir_identity = IdUnverified, ir_evidence = EvNone, ir_provenExtensionId = None \<rparr>
                  else Some \<lparr> ir_identity = tier (ni_originHost n), ir_evidence = EvVerifiedOrigin,
                         ir_provenExtensionId = ni_verifiedExtensionId n \<rparr>)"

text \<open>The entries compiled into the application, \<open>native-messaging-extensions.json\<close>.\<close>

definition BUILTIN_OFFICIAL_EXTENSION_ENTRIES :: "official_entry list" where
  "BUILTIN_OFFICIAL_EXTENSION_ENTRIES =
     map (\<lambda>i. \<lparr> oe_browser = ''chromium'', oe_id = i \<rparr>)
       [''lggbokfckofcgjndaboioakcmincinpo'', ''efcflljngohddnmfmebiamigoikmdfbf''] @
     [\<lparr> oe_browser = ''firefox'', oe_id = ''motrix-extension@motrix.app'' \<rparr>,
      \<lparr> oe_browser = ''safari'', oe_id = ''app.motrix.safari.extension'' \<rparr>]"

text \<open>\<open>keyOf\<close> is injective, so the map is keyed by the entry itself.\<close>

definition deduplicateEntries :: "official_entry list \<Rightarrow> official_entry list" where
  "deduplicateEntries entries =
     map snd (foldl (\<lambda>m e. if \<not> isBridgeBrowser (oe_browser e) \<or> oe_id e = [] then m else jset m e e) [] entries)"

datatype identity_environment = Production | NonProduction

record identity_resolver =
  xr_developmentEntries :: "official_entry list"
  xr_officialEntries :: "official_entry list"

definition createExtensionIdentityResolver :: "identity_environment \<Rightarrow> official_entry list \<Rightarrow> identity_resolver" where
  "createExtensionIdentityResolver env dev =
     (let developmentEntries = (if env = NonProduction then deduplicateEntries dev else [])
      in \<lparr> xr_developmentEntries = developmentEntries,
           xr_officialEntries = deduplicateEntries (BUILTIN_OFFICIAL_EXTENSION_ENTRIES @ developmentEntries) \<rparr>)"

definition isOfficialId :: "identity_resolver \<Rightarrow> string \<Rightarrow> string \<Rightarrow> bool" where
  "isOfficialId r b i \<longleftrightarrow> \<lparr> oe_browser = b, oe_id = i \<rparr> \<in> set (xr_officialEntries r)"

definition xr_resolve :: "identity_resolver \<Rightarrow> normalized_identity \<Rightarrow> attestation \<Rightarrow> identity_resolution option" where
  "xr_resolve r n att = resolveNormalizedExtensionIdentity n att (isOfficialId r)"

text \<open>\<open>String.prototype.trim\<close>.\<close>

definition js_space :: "char \<Rightarrow> bool" where
  "js_space c \<longleftrightarrow> (9 \<le> (of_char c :: nat) \<and> (of_char c :: nat) \<le> 13) \<or> (of_char c :: nat) = 32 \<or> (of_char c :: nat) = 160"

definition js_trim :: "string \<Rightarrow> string" where
  "js_trim s = rev (dropWhile js_space (rev (dropWhile js_space s)))"

definition parse_dev_entry :: "string \<Rightarrow> official_entry option" where
  "parse_dev_entry part =
     (let trimmed = js_trim part;
          browser = js_trim (takeWhile (\<lambda>c. c \<noteq> CHR '':'') trimmed);
          i = js_trim (tl (dropWhile (\<lambda>c. c \<noteq> CHR '':'') trimmed))
      in if trimmed = [] \<or> CHR '':'' \<notin> set trimmed \<or> hd trimmed = CHR '':'' \<or> i = [] \<or> \<not> isBridgeBrowser browser then None
         else Some \<lparr> oe_browser = browser, oe_id = i \<rparr>)"

definition parseDevTrustedExtensions :: "string option \<Rightarrow> official_entry list" where
  "parseDevTrustedExtensions raw =
     (case raw of None \<Rightarrow> [] | Some r \<Rightarrow> if r = [] then [] else List.map_filter parse_dev_entry (split_on CHR '','' r))"

section \<open>Lemmas\<close>

lemma normalize_SomeD:
  assumes "normalizeExtensionIdentity new_url i = Some n"
  shows "ni_browser n = ii_browser i" "isBridgeBrowser (ni_browser n)" "ni_originHost n \<noteq> []"
    "ii_verifiedOrigin i = EXTENSION_ORIGIN_SCHEMES (ni_browser n) @ ''://'' @ ni_originHost n"
    "\<not> containsUnsafeOriginSyntax (ii_verifiedOrigin i)"
    "ni_browser n = ''safari'' \<Longrightarrow> isSafariExtensionOrigin (ii_verifiedOrigin i)"
    "ni_verifiedExtensionId n = (if ni_browser n = ''chromium'' then Some (ii_claimedExtensionId i) else None)"
    "ni_browser n = ''chromium'' \<Longrightarrow> ni_originHost n = ii_claimedExtensionId i"
  using assms
  by (auto simp: normalizeExtensionIdentity_def Let_def split: if_splits option.splits)

lemma set_deduplicate:
  "set (deduplicateEntries es) = {e \<in> set es. isBridgeBrowser (oe_browser e) \<and> oe_id e \<noteq> []}"
proof -
  let ?f = "\<lambda>m e. if \<not> isBridgeBrowser (oe_browser e) \<or> oe_id e = [] then m else jset m e e"
  have same: "\<forall>x \<in> set m. fst x = snd x \<Longrightarrow> snd ` set m = fst ` set m" for m :: "(official_entry, official_entry) jmap"
    by (rule image_cong) auto
  have keeps: "\<forall>x \<in> set m. fst x = snd x \<Longrightarrow> \<forall>x \<in> set (jset m e e). fst x = snd x" for m and e :: official_entry
    using set_jset_subset [of m e e] by auto
  have diag: "snd ` set (jset m e e) = insert e (snd ` set m)" if "\<forall>x \<in> set m. fst x = snd x" for m and e :: official_entry
    using same [OF keeps [OF that, of e]] same [OF that] by (simp only: fst_set_jset)
  have "(\<forall>x \<in> set m. fst x = snd x) \<Longrightarrow>
      (\<forall>x \<in> set (foldl ?f m es). fst x = snd x) \<and>
      snd ` set (foldl ?f m es) = snd ` set m \<union> {e \<in> set es. isBridgeBrowser (oe_browser e) \<and> oe_id e \<noteq> []}" for m
  proof (induction es arbitrary: m)
    case (Cons e es)
    have "\<forall>x \<in> set (?f m e). fst x = snd x" using Cons.prems keeps [of m e] by auto
    from Cons.IH [OF this] show ?case using diag [OF Cons.prems, of e] by auto
  qed simp
  from this [of "[]"] show ?thesis by (simp add: deduplicateEntries_def)
qed

section \<open>Properties\<close>

text \<open>
  an accepted identity is the exact origin. Two transports that normalize to the same browser and host
  presented byte for byte the same origin, which is the scheme of the browser and the host and nothing else;
  whatever the parser makes of aliases, ports, credentials or paths.
\<close>
theorem normalized_identity_exact:
  assumes "normalizeExtensionIdentity new_url i = Some n" and "normalizeExtensionIdentity new_url j = Some m"
  shows "ii_verifiedOrigin i = EXTENSION_ORIGIN_SCHEMES (ii_browser i) @ ''://'' @ ni_originHost n \<and>
    (ni_browser n = ni_browser m \<and> ni_originHost n = ni_originHost m \<longleftrightarrow> ii_verifiedOrigin i = ii_verifiedOrigin j \<and> ii_browser i = ii_browser j)"
  using normalize_SomeD [OF assms(1)] normalize_SomeD [OF assms(2)] by auto

text \<open>
  C15: the official tier is earned. A resolution is official only for an id of the allowlist, in production one that
  was compiled in, and only when the id is proven: it is the caller of a verified ticket, or the host of a Chromium
  origin that the browser derived. A claim of the hello never is.
\<close>
theorem official_is_earned:
  assumes "normalizeExtensionIdentity new_url i = Some n"
    and "xr_resolve (createExtensionIdentityResolver env dev) n att = Some r" and "ir_identity r = IdOfficial"
  shows "\<exists>x. ir_provenExtensionId r = Some x \<and>
      (\<lparr> oe_browser = ii_browser i, oe_id = x \<rparr> \<in> set BUILTIN_OFFICIAL_EXTENSION_ENTRIES \<or>
       env = NonProduction \<and> \<lparr> oe_browser = ii_browser i, oe_id = x \<rparr> \<in> set dev) \<and>
      (att = VerifiedNmTicket x \<or>
       att = NoAttestation \<and> ii_browser i = ''chromium'' \<and> ii_verifiedOrigin i = ''chrome-extension://'' @ x)"
  using assms(2,3) normalize_SomeD [OF assms(1)]
  by (auto simp: xr_resolve_def resolveNormalizedExtensionIdentity_def isOfficialId_def createExtensionIdentityResolver_def
      Let_def set_deduplicate EXTENSION_ORIGIN_SCHEMES_def split: attestation.splits if_splits)

text \<open>A parser that answers on the origin of the first compiled-in extension.\<close>

definition toy_url :: url_parser where
  "toy_url s = Some \<lparr> url_protocol = ''chrome-extension:'', url_hostname = ''lggbokfckofcgjndaboioakcmincinpo'',
     url_host = ''lggbokfckofcgjndaboioakcmincinpo'', url_port = [], url_username = [], url_password = [], url_pathname = [],
     url_search = [], url_hash = [] \<rparr>"

definition toy_identity :: identity_input where
  "toy_identity = \<lparr> ii_browser = ''chromium'', ii_verifiedOrigin = ''chrome-extension://lggbokfckofcgjndaboioakcmincinpo'',
     ii_claimedExtensionId = ''lggbokfckofcgjndaboioakcmincinpo'' \<rparr>"

definition toy_normalized :: normalized_identity where
  "toy_normalized = \<lparr> ni_browser = ''chromium'', ni_originHost = ''lggbokfckofcgjndaboioakcmincinpo'',
     ni_verifiedExtensionId = Some ''lggbokfckofcgjndaboioakcmincinpo'' \<rparr>"

lemma toy_normalizes: "normalizeExtensionIdentity toy_url toy_identity = Some toy_normalized"
  by code_simp

theorem normalized_identity_exact_witness:
  "ii_verifiedOrigin toy_identity = EXTENSION_ORIGIN_SCHEMES (ii_browser toy_identity) @ ''://'' @ ni_originHost toy_normalized"
  using normalized_identity_exact [OF toy_normalizes toy_normalizes] by blast

theorem official_is_earned_witness:
  "\<exists>x. ir_provenExtensionId \<lparr> ir_identity = IdOfficial, ir_evidence = EvVerifiedOrigin,
         ir_provenExtensionId = Some ''lggbokfckofcgjndaboioakcmincinpo'' \<rparr> = Some x \<and>
     ii_verifiedOrigin toy_identity = ''chrome-extension://'' @ x"
proof -
  have "xr_resolve (createExtensionIdentityResolver Production []) toy_normalized NoAttestation =
      Some \<lparr> ir_identity = IdOfficial, ir_evidence = EvVerifiedOrigin,
        ir_provenExtensionId = Some ''lggbokfckofcgjndaboioakcmincinpo'' \<rparr>"
    by code_simp
  from official_is_earned [OF toy_normalizes this] show ?thesis by auto
qed

end
