(* ===== verification/Credential_Store.thy ===== *)
theory Credential_Store
  imports Extension_Identity "HOL-Library.Multiset"
begin

text \<open>
  The durable store of pairing credentials, \<open>core/bridge/credential-store.ts\<close>. Mutations run one at a
  time on the queue of the store, so each is one step; what the file system, the clock, the random source
  and an awaited callback answer is part of the step, and so is a crash before or after the rename that
  publishes a document. Reads happen between steps.
\<close>

section \<open>Credentials\<close>

record credential_principal =
  cp_browser :: string
  cp_verifiedOrigin :: string
  cp_clientInstallationId :: string
  cp_safariInstallationKey :: "string option"

datatype credential_state = CredProvisional | CredCommitted

record stored_credential =
  sc_credentialId :: string
  sc_mutualKeyB64 :: string
  sc_principal :: credential_principal
  sc_predecessorId :: "string option"
  sc_state :: credential_state
  sc_identity :: identity_tri_state
  sc_createdAt :: int
  sc_committedAt :: "int option"
  sc_authorizationEpoch :: "string option"

datatype credential_error =
    CredInvalidWitness | CredNotCommitted | CredNotAbsent | CredEpochConflict | CredInvalidInput | CredCapacityExceeded
  | CredStorageRejected | CredSafariChanged | CredNoLiveProvisional | CredStaleRotation
  | CredCallbackRejected | CredIoRejected | CredCrashed | CredNotRunning

definition PROVISIONAL_TTL_MS :: int where "PROVISIONAL_TTL_MS = 10 * 60 * 1000"
definition MAX_STORED_CREDENTIALS :: nat where "MAX_STORED_CREDENTIALS = 16384"
definition MAX_CREDENTIAL_ID_LENGTH :: nat where "MAX_CREDENTIAL_ID_LENGTH = 128"
definition MAX_MUTUAL_KEY_LENGTH :: nat where "MAX_MUTUAL_KEY_LENGTH = 256"
definition MAX_VERIFIED_ORIGIN_LENGTH :: nat where "MAX_VERIFIED_ORIGIN_LENGTH = 512"
definition MAX_INSTALLATION_ID_LENGTH :: nat where "MAX_INSTALLATION_ID_LENGTH = 256"
definition MAX_EXTENSION_ID_LENGTH :: nat where "MAX_EXTENSION_ID_LENGTH = 256"
definition MAX_SAFE_INTEGER :: int where "MAX_SAFE_INTEGER = 2 ^ 53 - 1"

definition UUID_V4_PATTERN :: "string \<Rightarrow> bool" where
  "UUID_V4_PATTERN s \<longleftrightarrow> hex_groups [8, 4, 4, 4, 12] s \<and> s ! 14 = CHR ''4'' \<and> s ! 19 \<in> set ''89ab''"

definition safari_key_pattern :: "string \<Rightarrow> bool" where
  "safari_key_pattern s \<longleftrightarrow> length s = 43 \<and>
     list_all (\<lambda>c. c \<in> set ''ABCDEFGHIJKLMNOPQRSTUVWXYZabcdefghijklmnopqrstuvwxyz0123456789_-'') (butlast s) \<and>
     last s \<in> set ''AEIMQUYcgkosw048''"

definition bounded_string :: "nat \<Rightarrow> string \<Rightarrow> bool" where
  "bounded_string n s \<longleftrightarrow> 1 \<le> length s \<and> length s \<le> n"

definition safe_natural :: "int \<Rightarrow> bool" where
  "safe_natural n \<longleftrightarrow> 0 \<le> n \<and> n \<le> MAX_SAFE_INTEGER"

definition CredentialPrincipalSchema :: "credential_principal \<Rightarrow> bool" where
  "CredentialPrincipalSchema p \<longleftrightarrow>
     isBridgeBrowser (cp_browser p) \<and> bounded_string MAX_VERIFIED_ORIGIN_LENGTH (cp_verifiedOrigin p) \<and>
     bounded_string MAX_INSTALLATION_ID_LENGTH (cp_clientInstallationId p) \<and>
     (case cp_safariInstallationKey p of None \<Rightarrow> True | Some k \<Rightarrow> safari_key_pattern k \<and> cp_browser p = ''safari'')"

text \<open>The schema of a record; version 2 demands the epoch, the legacy one forbids it.\<close>

definition StoredCredentialSchema :: "bool \<Rightarrow> stored_credential \<Rightarrow> bool" where
  "StoredCredentialSchema legacy c \<longleftrightarrow>
     bounded_string MAX_CREDENTIAL_ID_LENGTH (sc_credentialId c) \<and> bounded_string MAX_MUTUAL_KEY_LENGTH (sc_mutualKeyB64 c) \<and>
     CredentialPrincipalSchema (sc_principal c) \<and>
     (case sc_predecessorId c of None \<Rightarrow> True | Some i \<Rightarrow> bounded_string MAX_CREDENTIAL_ID_LENGTH i) \<and>
     safe_natural (sc_createdAt c) \<and> (case sc_committedAt c of None \<Rightarrow> True | Some t \<Rightarrow> safe_natural t) \<and>
     (case sc_authorizationEpoch c of None \<Rightarrow> legacy | Some e \<Rightarrow> \<not> legacy \<and> UUID_V4_PATTERN e)"

definition validCredentialState :: "stored_credential \<Rightarrow> bool" where
  "validCredentialState c \<longleftrightarrow>
     (if sc_state c = CredCommitted
      then (case sc_committedAt c of None \<Rightarrow> False | Some t \<Rightarrow> t \<ge> sc_createdAt c)
      else sc_committedAt c = None)"

text \<open>\<open>JSON.stringify\<close> of three strings is injective: the key is the triple.\<close>

type_synonym principal_key = "string \<times> string \<times> string"

definition principalKey :: "credential_principal \<Rightarrow> principal_key" where
  "principalKey p = (cp_browser p, cp_verifiedOrigin p, cp_clientInstallationId p)"

definition isExpiredAt :: "stored_credential \<Rightarrow> int \<Rightarrow> bool" where
  "isExpiredAt c now \<longleftrightarrow> sc_state c = CredProvisional \<and> now - sc_createdAt c \<ge> PROVISIONAL_TTL_MS"

definition committedOrder :: "stored_credential \<Rightarrow> int" where
  "committedOrder c = (case sc_committedAt c of Some t \<Rightarrow> t | None \<Rightarrow> sc_createdAt c)"

definition validCredentialId :: "string \<Rightarrow> bool" where
  "validCredentialId v \<longleftrightarrow> length v > 0 \<and> length v \<le> MAX_CREDENTIAL_ID_LENGTH"

definition readClock :: "int \<Rightarrow> (credential_error, int) result" where
  "readClock value = (if \<not> safe_natural value then Inl CredInvalidInput else Inr value)"

section \<open>Transport identities\<close>

text \<open>A transport identity is a browser and an extension id.\<close>

type_synonym transport_identity = "string \<times> string"

definition transportIdentityForPrincipal :: "url_parser \<Rightarrow> credential_principal \<Rightarrow> transport_identity option" where
  "transportIdentityForPrincipal new_url p =
     (case new_url (cp_verifiedOrigin p) of
        None \<Rightarrow> None
      | Some parsed \<Rightarrow>
          (case normalizeExtensionIdentity new_url
             \<lparr> ii_browser = cp_browser p, ii_verifiedOrigin = cp_verifiedOrigin p, ii_claimedExtensionId = url_hostname parsed \<rparr> of
             None \<Rightarrow> None
           | Some n \<Rightarrow>
               if length (ni_originHost n) > MAX_EXTENSION_ID_LENGTH \<or> ni_originHost n \<noteq> toLowerCase (ni_originHost n)
               then None else Some (ni_browser n, ni_originHost n)))"

definition normalizeTransportIdentity :: "url_parser \<Rightarrow> string \<Rightarrow> string \<Rightarrow> transport_identity option" where
  "normalizeTransportIdentity new_url browser extensionId =
     (if \<not> isBridgeBrowser browser \<or> length extensionId = 0 \<or> length extensionId > MAX_EXTENSION_ID_LENGTH \<or>
         extensionId \<noteq> toLowerCase extensionId then None
      else case normalizeExtensionIdentity new_url
             \<lparr> ii_browser = browser, ii_verifiedOrigin = EXTENSION_ORIGIN_SCHEMES browser @ ''://'' @ extensionId,
               ii_claimedExtensionId = extensionId \<rparr> of
             None \<Rightarrow> None
           | Some n \<Rightarrow> if ni_originHost n \<noteq> extensionId then None else Some (browser, extensionId))"

definition principalMatchesExtensionIdentity :: "url_parser \<Rightarrow> credential_principal \<Rightarrow> string \<Rightarrow> string \<Rightarrow> bool" where
  "principalMatchesExtensionIdentity new_url p browser extensionId \<longleftrightarrow>
     cp_browser p = browser \<and>
     (case new_url (cp_verifiedOrigin p) of
        None \<Rightarrow> False
      | Some origin \<Rightarrow> url_protocol origin = EXTENSION_ORIGIN_SCHEMES browser @ '':'' \<and> url_host origin = toLowerCase extensionId)"

definition parseCredentialPrincipal :: "url_parser \<Rightarrow> credential_principal \<Rightarrow> (credential_error, credential_principal) result" where
  "parseCredentialPrincipal new_url p =
     (if \<not> CredentialPrincipalSchema p \<or> transportIdentityForPrincipal new_url p = None then Inl CredInvalidInput else Inr p)"

text \<open>The epochs of the credentials of one transport identity, as the set that the code builds.\<close>

definition epochs_of :: "stored_credential list \<Rightarrow> string jsetof" where
  "epochs_of cs = sadds [] (List.map_filter sc_authorizationEpoch cs)"

definition authorizationEpochForPrincipal ::
  "url_parser \<Rightarrow> credential_principal \<Rightarrow> stored_credential list \<Rightarrow> (credential_error, string option) result" where
  "authorizationEpochForPrincipal new_url p cs =
     (case transportIdentityForPrincipal new_url p of
        None \<Rightarrow> Inl CredNotCommitted
      | Some key \<Rightarrow>
          let epochs = epochs_of (filter (\<lambda>c. transportIdentityForPrincipal new_url (sc_principal c) = Some key) cs)
          in if length epochs > 1 then Inl CredEpochConflict
             else Inr (case epochs of [] \<Rightarrow> None | e # _ \<Rightarrow> Some e))"

section \<open>Lists of credentials\<close>

definition find_id :: "string \<Rightarrow> stored_credential list \<Rightarrow> stored_credential option" where
  "find_id i cs = find (\<lambda>c. sc_credentialId c = i) cs"

definition has_key :: "principal_key \<Rightarrow> stored_credential \<Rightarrow> bool" where
  "has_key key c \<longleftrightarrow> principalKey (sc_principal c) = key"

definition committedForKey :: "principal_key \<Rightarrow> stored_credential list \<Rightarrow> stored_credential option" where
  "committedForKey key cs = find (\<lambda>c. sc_state c = CredCommitted \<and> has_key key c) cs"

definition committedIdFor :: "principal_key \<Rightarrow> stored_credential list \<Rightarrow> string option" where
  "committedIdFor key cs = map_option sc_credentialId (committedForKey key cs)"

definition applyPromote :: "stored_credential list \<Rightarrow> stored_credential \<Rightarrow> int \<Rightarrow> stored_credential list" where
  "applyPromote cs target now =
     filter (\<lambda>c. \<not> has_key (principalKey (sc_principal target)) c) cs @
     [target \<lparr> sc_state := CredCommitted,
               sc_committedAt := Some (case sc_committedAt target of Some t \<Rightarrow> t | None \<Rightarrow> now),
               sc_predecessorId := None \<rparr>]"

text \<open>The object the store hands out is a frozen copy: a value. The clock reading is a valid one.\<close>

definition findForAuth :: "int \<Rightarrow> string \<Rightarrow> stored_credential list \<Rightarrow> stored_credential option" where
  "findForAuth now credentialId cs =
     (if \<not> validCredentialId credentialId then None
      else case find_id credentialId cs of
             None \<Rightarrow> None
           | Some found \<Rightarrow>
               if sc_state found = CredCommitted then Some found
               else if isExpiredAt found now then None
               else if committedIdFor (principalKey (sc_principal found)) cs = sc_predecessorId found then Some found else None)"

definition committedFor :: "credential_principal \<Rightarrow> stored_credential list \<Rightarrow> stored_credential option" where
  "committedFor p cs = (if \<not> CredentialPrincipalSchema p then None else committedForKey (principalKey p) cs)"

definition listCommitted :: "stored_credential list \<Rightarrow> stored_credential list" where
  "listCommitted cs = filter (\<lambda>c. sc_state c = CredCommitted) cs"

section \<open>Documents and their reconciliation\<close>

record credential_document =
  cd_legacy :: bool
  cd_credentials :: "stored_credential list"
  cd_pendingPromote :: "string option"

text \<open>The file: absent, unreadable or no document at all, or a document whose records are to be checked.\<close>

datatype credential_file = NoFile | DamagedFile | DocumentFile credential_document

definition readDocument :: "credential_file \<Rightarrow> (credential_error, credential_document) result" where
  "readDocument f =
     (case f of
        NoFile \<Rightarrow> Inr \<lparr> cd_legacy = False, cd_credentials = [], cd_pendingPromote = None \<rparr>
      | DamagedFile \<Rightarrow> Inl CredStorageRejected
      | DocumentFile d \<Rightarrow>
          if length (cd_credentials d) > MAX_STORED_CREDENTIALS \<or> cd_pendingPromote d = Some [] \<or>
             \<not> list_all (\<lambda>c. StoredCredentialSchema (cd_legacy d) c \<and> validCredentialState c) (cd_credentials d)
          then Inl CredStorageRejected else Inr d)"

text \<open>
  The newest committed credential of every principal. The code compares objects by identity, so an entry
  is the position of its credential in the list.
\<close>

fun newest_loop :: "(nat \<times> stored_credential) list \<Rightarrow> (principal_key, nat \<times> stored_credential) jmap \<Rightarrow>
    (principal_key, nat \<times> stored_credential) jmap" where
  "newest_loop [] newest = newest"
| "newest_loop ((i, c) # cs) newest =
     (let key = principalKey (sc_principal c) in
      if sc_state c \<noteq> CredCommitted then newest_loop cs newest
      else case map_of newest key of
             None \<Rightarrow> newest_loop cs (jset newest key (i, c))
           | Some (j, seen) \<Rightarrow>
               newest_loop cs (if committedOrder c \<ge> committedOrder seen then jset newest key (i, c) else newest))"

definition converged_list :: "stored_credential list \<Rightarrow> int \<Rightarrow> stored_credential list" where
  "converged_list cs now =
     (let ics = enumerate 0 cs;
          newest = newest_loop ics []
      in map snd (filter (\<lambda>(i, c). if sc_state c = CredCommitted
                                   then map_option fst (map_of newest (principalKey (sc_principal c))) = Some i
                                   else \<not> isExpiredAt c now) ics))"

text \<open>The groups of one transport identity; \<open>None\<close> when a credential has no identity.\<close>

fun group_loop :: "url_parser \<Rightarrow> stored_credential list \<Rightarrow> (transport_identity, stored_credential list) jmap \<Rightarrow>
    (transport_identity, stored_credential list) jmap option" where
  "group_loop new_url [] groups = Some groups"
| "group_loop new_url (c # cs) groups =
     (case transportIdentityForPrincipal new_url (sc_principal c) of
        None \<Rightarrow> None
      | Some key \<Rightarrow> group_loop new_url cs (jset groups key (jget_or [] groups key @ [c])))"

fun migrate_loop :: "(nat \<Rightarrow> string) \<Rightarrow> nat \<Rightarrow> stored_credential list list \<Rightarrow> (credential_error, stored_credential list) result" where
  "migrate_loop fresh n [] = Inr []"
| "migrate_loop fresh n (g # gs) =
     (if length (epochs_of g) > 1 then Inl CredEpochConflict
      else let epoch = (case epochs_of g of [] \<Rightarrow> fresh n | e # _ \<Rightarrow> e)
           in case migrate_loop fresh (Suc n) gs of
                Inl e \<Rightarrow> Inl e
              | Inr rest \<Rightarrow> Inr (map (\<lambda>c. c \<lparr> sc_authorizationEpoch := Some epoch \<rparr>) g @ rest))"

text \<open>\<open>fresh\<close> is the random source of new epochs; the flag tells whether the result is to be written back.\<close>

definition reconcile ::
  "url_parser \<Rightarrow> (nat \<Rightarrow> string) \<Rightarrow> credential_document \<Rightarrow> int \<Rightarrow> (credential_error, stored_credential list \<times> bool) result" where
  "reconcile new_url fresh d now =
     (let cs = (case cd_pendingPromote d of
                  None \<Rightarrow> cd_credentials d
                | Some i \<Rightarrow> (case find_id i (cd_credentials d) of
                               None \<Rightarrow> cd_credentials d | Some target \<Rightarrow> applyPromote (cd_credentials d) target now));
          converged = converged_list cs now
      in case group_loop new_url converged [] of
           None \<Rightarrow> Inl CredStorageRejected
         | Some groups \<Rightarrow>
             (case migrate_loop fresh 0 (map snd groups) of
                Inl e \<Rightarrow> Inl e
              | Inr migrated \<Rightarrow>
                  Inr (migrated,
                    cd_pendingPromote d \<noteq> None \<or> cd_legacy d \<or> length converged \<noteq> length cs \<or>
                    map sc_authorizationEpoch (concat (map snd groups)) \<noteq> map sc_authorizationEpoch migrated)))"

section \<open>The store\<close>

text \<open>\<open>None\<close> in memory: no process holds the store.\<close>

record credential_store =
  ks_memory :: "stored_credential list option"
  ks_disk :: credential_file

datatype write_outcome = WriteLands | WriteFails | SyncFails | CrashBeforeRename | CrashAfterRename

definition document_of :: "stored_credential list \<Rightarrow> credential_file" where
  "document_of cs = DocumentFile \<lparr> cd_legacy = False, cd_credentials = cs, cd_pendingPromote = None \<rparr>"

definition writable :: "stored_credential list \<Rightarrow> bool" where
  "writable cs \<longleftrightarrow> list_all (\<lambda>c. sc_authorizationEpoch c \<noteq> None \<and> validCredentialState c) cs"

text \<open>\<open>writeDocument\<close>, the swap of the array in memory and the sync of the directory.\<close>

definition persist ::
  "write_outcome \<Rightarrow> stored_credential list \<Rightarrow> credential_store \<Rightarrow> (credential_error, unit) result \<times> credential_store" where
  "persist out next s =
     (if \<not> writable next then (Inl CredStorageRejected, s)
      else case out of
             WriteLands \<Rightarrow> (Inr (), \<lparr> ks_memory = Some next, ks_disk = document_of next \<rparr>)
           | WriteFails \<Rightarrow> (Inl CredIoRejected, s)
           | SyncFails \<Rightarrow> (Inl CredIoRejected, \<lparr> ks_memory = Some next, ks_disk = document_of next \<rparr>)
           | CrashBeforeRename \<Rightarrow> (Inl CredCrashed, s \<lparr> ks_memory := None \<rparr>)
           | CrashAfterRename \<Rightarrow> (Inl CredCrashed, \<lparr> ks_memory = None, ks_disk = document_of next \<rparr>))"

text \<open>\<open>load\<close>: the store is handed out only when a needed write-back is durable.\<close>

definition ks_load ::
  "url_parser \<Rightarrow> (nat \<Rightarrow> string) \<Rightarrow> int \<Rightarrow> write_outcome \<Rightarrow> credential_store \<Rightarrow> (credential_error, unit) result \<times> credential_store" where
  "ks_load new_url fresh clock out s =
     (case readDocument (ks_disk s) of
        Inl e \<Rightarrow> (Inl e, s \<lparr> ks_memory := None \<rparr>)
      | Inr d \<Rightarrow>
          (case readClock clock of
             Inl e \<Rightarrow> (Inl e, s \<lparr> ks_memory := None \<rparr>)
           | Inr now \<Rightarrow>
               (case reconcile new_url fresh d now of
                  Inl e \<Rightarrow> (Inl e, s \<lparr> ks_memory := None \<rparr>)
                | Inr (cs, changed) \<Rightarrow>
                    if \<not> changed then (Inr (), s \<lparr> ks_memory := Some cs \<rparr>)
                    else (case persist out cs s of
                            (Inr _, s') \<Rightarrow> (Inr (), s')
                          | (Inl e, s') \<Rightarrow> (Inl e, s' \<lparr> ks_memory := None \<rparr>)))))"

text \<open>An optional callback that is awaited inside the queue.\<close>

datatype callback = NoCallback | CallbackResolves | CallbackRejects

type_synonym 'a store_result = "(credential_error, 'a) result \<times> credential_store"

definition after_persist :: "'a \<Rightarrow> (credential_error, unit) result \<times> credential_store \<Rightarrow> 'a store_result" where
  "after_persist v r = (case r of (Inr _, s) \<Rightarrow> (Inr v, s) | (Inl e, s) \<Rightarrow> (Inl e, s))"

text \<open>The random parts of a fresh credential: id, key and, when it is needed, epoch.\<close>

record credential_seed =
  sd_id :: string
  sd_key :: string
  sd_epoch :: string

definition offer_slot :: "principal_key \<Rightarrow> string option \<Rightarrow> int \<Rightarrow> stored_credential list \<Rightarrow> stored_credential option" where
  "offer_slot key predecessorId now cs =
     find (\<lambda>c. sc_state c = CredProvisional \<and> has_key key c \<and> sc_predecessorId c = predecessorId \<and> \<not> isExpiredAt c now) cs"

definition fresh_credential ::
  "credential_principal \<Rightarrow> identity_tri_state \<Rightarrow> string option \<Rightarrow> credential_seed \<Rightarrow> string option \<Rightarrow> int \<Rightarrow> stored_credential" where
  "fresh_credential p identity predecessorId seed epoch now =
     \<lparr> sc_credentialId = sd_id seed, sc_mutualKeyB64 = sd_key seed, sc_principal = p, sc_predecessorId = predecessorId,
       sc_state = CredProvisional, sc_identity = identity, sc_createdAt = now, sc_committedAt = None,
       sc_authorizationEpoch = Some (case epoch of Some e \<Rightarrow> e | None \<Rightarrow> sd_epoch seed) \<rparr>"

definition offerProvisional ::
  "url_parser \<Rightarrow> credential_principal \<Rightarrow> identity_tri_state \<Rightarrow> int \<Rightarrow> credential_seed \<Rightarrow> callback \<Rightarrow> write_outcome \<Rightarrow>
   stored_credential list \<Rightarrow> credential_store \<Rightarrow> (string \<times> string) store_result" where
  "offerProvisional new_url requested identity clock seed beforeOffer out cs s =
     (case parseCredentialPrincipal new_url requested of
        Inl e \<Rightarrow> (Inl e, s)
      | Inr p \<Rightarrow>
        (case readClock clock of
           Inl e \<Rightarrow> (Inl e, s)
         | Inr now \<Rightarrow>
           (let key = principalKey p;
                predecessorId = committedIdFor key cs
            in case offer_slot key predecessorId now cs of
                 Some slot \<Rightarrow>
                   if cp_safariInstallationKey (sc_principal slot) \<noteq> cp_safariInstallationKey p then (Inl CredInvalidInput, s)
                   else if beforeOffer \<noteq> NoCallback \<and> sc_authorizationEpoch slot = None then (Inl CredInvalidInput, s)
                   else if beforeOffer = CallbackRejects then (Inl CredCallbackRejected, s)
                   else (Inr (sc_credentialId slot, sc_mutualKeyB64 slot), s)
               | None \<Rightarrow>
                   let retained = filter (\<lambda>c. sc_state c \<noteq> CredProvisional \<or> \<not> has_key key c) cs
                   in if length retained \<ge> MAX_STORED_CREDENTIALS then (Inl CredCapacityExceeded, s)
                      else case authorizationEpochForPrincipal new_url p cs of
                             Inl e \<Rightarrow> (Inl e, s)
                           | Inr epoch \<Rightarrow>
                               if beforeOffer = CallbackRejects then (Inl CredCallbackRejected, s)
                               else after_persist (sd_id seed, sd_key seed)
                                      (persist out (retained @ [fresh_credential p identity predecessorId seed epoch now]) s))))"

definition bindSafariInstallation ::
  "url_parser \<Rightarrow> stored_credential \<Rightarrow> string \<Rightarrow> int \<Rightarrow> write_outcome \<Rightarrow> stored_credential list \<Rightarrow> credential_store \<Rightarrow> unit store_result" where
  "bindSafariInstallation new_url expected publicKey clock out cs s =
     (case find_id (sc_credentialId expected) cs of
        None \<Rightarrow> (Inl CredSafariChanged, s)
      | Some current \<Rightarrow>
          let p = sc_principal current in
          if cp_browser p \<noteq> ''safari'' \<or> sc_mutualKeyB64 current \<noteq> sc_mutualKeyB64 expected \<or>
             sc_authorizationEpoch current \<noteq> sc_authorizationEpoch expected \<or>
             principalKey p \<noteq> principalKey (sc_principal expected) \<or>
             (cp_safariInstallationKey p \<noteq> None \<and> cp_safariInstallationKey p \<noteq> Some publicKey) then (Inl CredSafariChanged, s)
          else case readClock clock of
                 Inl e \<Rightarrow> (Inl e, s)
               | Inr now \<Rightarrow>
                   if isExpiredAt current now then (Inl CredSafariChanged, s)
                   else case parseCredentialPrincipal new_url (p \<lparr> cp_safariInstallationKey := Some publicKey \<rparr>) of
                          Inl e \<Rightarrow> (Inl e, s)
                        | Inr renewed \<Rightarrow>
                            if cp_safariInstallationKey p = Some publicKey then (Inr (), s)
                            else persist out (map (\<lambda>c. if c = current then c \<lparr> sc_principal := renewed \<rparr> else c) cs) s)"

definition promoteDurably :: "string \<Rightarrow> int \<Rightarrow> write_outcome \<Rightarrow> stored_credential list \<Rightarrow> credential_store \<Rightarrow> unit store_result" where
  "promoteDurably credentialId clock out cs s =
     (case readClock clock of
        Inl e \<Rightarrow> (Inl e, s)
      | Inr now \<Rightarrow>
          (case find_id credentialId cs of
             None \<Rightarrow> (Inl CredNoLiveProvisional, s)
           | Some target \<Rightarrow>
               if sc_state target \<noteq> CredProvisional \<or> isExpiredAt target now \<or> now < sc_createdAt target
               then (Inl CredNoLiveProvisional, s)
               else if committedIdFor (principalKey (sc_principal target)) cs \<noteq> sc_predecessorId target
               then (Inl CredStaleRotation, s)
               else persist out (applyPromote cs target now) s))"

definition promoteOnReconnect :: "string \<Rightarrow> int \<Rightarrow> write_outcome \<Rightarrow> stored_credential list \<Rightarrow> credential_store \<Rightarrow> unit store_result" where
  "promoteOnReconnect credentialId clock out cs s =
     (if \<not> validCredentialId credentialId then (Inl CredInvalidInput, s) else promoteDurably credentialId clock out cs s)"

definition commitFromPair ::
  "string \<Rightarrow> callback \<Rightarrow> int \<Rightarrow> write_outcome \<Rightarrow> stored_credential list \<Rightarrow> credential_store \<Rightarrow> unit store_result" where
  "commitFromPair credentialId beforeCommit clock out cs s =
     (if \<not> validCredentialId credentialId then (Inl CredInvalidInput, s)
      else if beforeCommit = CallbackRejects then (Inl CredCallbackRejected, s)
      else promoteDurably credentialId clock out cs s)"

text \<open>A removal writes only when it removes something.\<close>

definition persist_filtered ::
  "(stored_credential \<Rightarrow> bool) \<Rightarrow> write_outcome \<Rightarrow> stored_credential list \<Rightarrow> credential_store \<Rightarrow> nat store_result" where
  "persist_filtered keep out cs s =
     (let next = filter keep cs in
      if length next = length cs then (Inr 0, s) else after_persist (length cs - length next) (persist out next s))"

definition ks_revoke :: "string \<Rightarrow> write_outcome \<Rightarrow> stored_credential list \<Rightarrow> credential_store \<Rightarrow> nat store_result" where
  "ks_revoke credentialId out cs s =
     (if \<not> validCredentialId credentialId then (Inl CredInvalidInput, s)
      else persist_filtered (\<lambda>c. sc_credentialId c \<noteq> credentialId \<and>
             \<not> (sc_state c = CredProvisional \<and> sc_predecessorId c = Some credentialId)) out cs s)"

definition revokeExtensionIdentity ::
  "url_parser \<Rightarrow> string \<Rightarrow> string \<Rightarrow> write_outcome \<Rightarrow> stored_credential list \<Rightarrow> credential_store \<Rightarrow> nat store_result" where
  "revokeExtensionIdentity new_url browser extensionId out cs s =
     (case normalizeTransportIdentity new_url browser extensionId of
        None \<Rightarrow> (Inl CredInvalidInput, s)
      | Some (b, i) \<Rightarrow> persist_filtered (\<lambda>c. \<not> principalMatchesExtensionIdentity new_url (sc_principal c) b i) out cs s)"

definition sweepExpiredProvisionals :: "int \<Rightarrow> write_outcome \<Rightarrow> stored_credential list \<Rightarrow> credential_store \<Rightarrow> nat store_result" where
  "sweepExpiredProvisionals clock out cs s =
     (case readClock clock of
        Inl e \<Rightarrow> (Inl e, s)
      | Inr now \<Rightarrow> persist_filtered (\<lambda>c. \<not> isExpiredAt c now) out cs s)"

section \<open>Witnesses\<close>

text \<open>A witness with the claim that the store keeps for it: the credential and its epoch.\<close>

record committed_witness =
  cw_transport :: transport_identity
  cw_verifiedOrigin :: string
  cw_identityTrust :: identity_tri_state
  cw_createdAt :: int
  cw_committedAt :: int
  cw_credentialId :: string
  cw_authorizationEpoch :: string

definition issueWitness :: "url_parser \<Rightarrow> stored_credential \<Rightarrow> (credential_error, committed_witness) result" where
  "issueWitness new_url c =
     (case (sc_committedAt c, sc_authorizationEpoch c) of
        (Some t, Some e) \<Rightarrow>
          if sc_state c \<noteq> CredCommitted then Inl CredNotCommitted
          else (case transportIdentityForPrincipal new_url (sc_principal c) of
                  None \<Rightarrow> Inl CredNotCommitted
                | Some transport \<Rightarrow>
                    Inr \<lparr> cw_transport = transport, cw_verifiedOrigin = cp_verifiedOrigin (sc_principal c),
                          cw_identityTrust = sc_identity c, cw_createdAt = sc_createdAt c, cw_committedAt = t,
                          cw_credentialId = sc_credentialId c, cw_authorizationEpoch = e \<rparr>)
      | _ \<Rightarrow> Inl CredNotCommitted)"

definition issueCommittedExtensionWitness ::
  "url_parser \<Rightarrow> string \<Rightarrow> stored_credential list \<Rightarrow> (credential_error, committed_witness) result" where
  "issueCommittedExtensionWitness new_url credentialId cs =
     (if \<not> validCredentialId credentialId then Inl CredInvalidInput
      else case find (\<lambda>c. sc_credentialId c = credentialId \<and> sc_state c = CredCommitted) cs of
             None \<Rightarrow> Inl CredNotCommitted | Some c \<Rightarrow> issueWitness new_url c)"

text \<open>The check that precedes the operation of a claim.\<close>

definition witness_live :: "committed_witness \<Rightarrow> stored_credential list \<Rightarrow> (credential_error, unit) result" where
  "witness_live w cs =
     (case find (\<lambda>c. sc_credentialId c = cw_credentialId w \<and> sc_state c = CredCommitted \<and>
                     sc_authorizationEpoch c = Some (cw_authorizationEpoch w)) cs of
        None \<Rightarrow> Inl CredNotCommitted | Some _ \<Rightarrow> Inr ())"

definition assertExtensionIdentityAbsent ::
  "url_parser \<Rightarrow> transport_identity \<Rightarrow> stored_credential list \<Rightarrow> (credential_error, unit) result" where
  "assertExtensionIdentityAbsent new_url t cs =
     (if \<exists>c \<in> set cs. principalMatchesExtensionIdentity new_url (sc_principal c) (fst t) (snd t)
      then Inl CredNotAbsent else Inr ())"

definition issueExtensionIdentityAbsenceWitness ::
  "url_parser \<Rightarrow> string \<Rightarrow> string \<Rightarrow> stored_credential list \<Rightarrow> (credential_error, transport_identity) result" where
  "issueExtensionIdentityAbsenceWitness new_url browser extensionId cs =
     (case normalizeTransportIdentity new_url browser extensionId of
        None \<Rightarrow> Inl CredInvalidInput
      | Some t \<Rightarrow> (case assertExtensionIdentityAbsent new_url t cs of Inl e \<Rightarrow> Inl e | Inr _ \<Rightarrow> Inr t))"

fun one_epoch_loop :: "url_parser \<Rightarrow> stored_credential list \<Rightarrow> (transport_identity, string) jmap \<Rightarrow> (credential_error, unit) result" where
  "one_epoch_loop new_url [] byIdentity = Inr ()"
| "one_epoch_loop new_url (c # cs) byIdentity =
     (if sc_state c \<noteq> CredCommitted then one_epoch_loop new_url cs byIdentity
      else case (transportIdentityForPrincipal new_url (sc_principal c), sc_authorizationEpoch c) of
             (Some key, Some epoch) \<Rightarrow>
               if map_of byIdentity key \<noteq> None \<and> map_of byIdentity key \<noteq> Some epoch then Inl CredEpochConflict
               else one_epoch_loop new_url cs (jset byIdentity key epoch)
           | _ \<Rightarrow> Inl CredEpochConflict)"

definition assertOneEpochPerTransportIdentity :: "url_parser \<Rightarrow> stored_credential list \<Rightarrow> (credential_error, unit) result" where
  "assertOneEpochPerTransportIdentity new_url cs = one_epoch_loop new_url cs []"

section \<open>The life of a store\<close>

datatype store_event =
    KsLoad "nat \<Rightarrow> string" int write_outcome
  | KsOffer credential_principal identity_tri_state int credential_seed callback write_outcome
  | KsBind stored_credential string int write_outcome
  | KsPromote string int write_outcome
  | KsCommit string callback int write_outcome
  | KsRevoke string write_outcome
  | KsRevokeIdentity string string write_outcome
  | KsSweep int write_outcome
  | KsCrash

fun ks_apply :: "url_parser \<Rightarrow> store_event \<Rightarrow> credential_store \<Rightarrow> credential_store" where
  "ks_apply u (KsLoad fresh clock out) s = snd (ks_load u fresh clock out s)"
| "ks_apply u KsCrash s = s \<lparr> ks_memory := None \<rparr>"
| "ks_apply u (KsOffer p identity clock seed cb out) s =
     (case ks_memory s of None \<Rightarrow> s | Some cs \<Rightarrow> snd (offerProvisional u p identity clock seed cb out cs s))"
| "ks_apply u (KsBind expected k clock out) s =
     (case ks_memory s of None \<Rightarrow> s | Some cs \<Rightarrow> snd (bindSafariInstallation u expected k clock out cs s))"
| "ks_apply u (KsPromote i clock out) s =
     (case ks_memory s of None \<Rightarrow> s | Some cs \<Rightarrow> snd (promoteOnReconnect i clock out cs s))"
| "ks_apply u (KsCommit i cb clock out) s =
     (case ks_memory s of None \<Rightarrow> s | Some cs \<Rightarrow> snd (commitFromPair i cb clock out cs s))"
| "ks_apply u (KsRevoke i out) s =
     (case ks_memory s of None \<Rightarrow> s | Some cs \<Rightarrow> snd (ks_revoke i out cs s))"
| "ks_apply u (KsRevokeIdentity b i out) s =
     (case ks_memory s of None \<Rightarrow> s | Some cs \<Rightarrow> snd (revokeExtensionIdentity u b i out cs s))"
| "ks_apply u (KsSweep clock out) s =
     (case ks_memory s of None \<Rightarrow> s | Some cs \<Rightarrow> snd (sweepExpiredProvisionals clock out cs s))"

definition disk_list :: "credential_store \<Rightarrow> stored_credential list" where
  "disk_list s = (case ks_disk s of DocumentFile d \<Rightarrow> cd_credentials d | _ \<Rightarrow> [])"

text \<open>What is assumed of \<open>randomUUID\<close> and \<open>randomBytes\<close>: the shape of their results, and an unused id.\<close>

fun seed_ok :: "store_event \<Rightarrow> credential_store \<Rightarrow> bool" where
  "seed_ok (KsOffer p identity clock seed cb out) s \<longleftrightarrow>
     sd_id seed \<notin> sc_credentialId ` set (disk_list s) \<and> bounded_string MAX_CREDENTIAL_ID_LENGTH (sd_id seed) \<and>
     bounded_string MAX_MUTUAL_KEY_LENGTH (sd_key seed) \<and> UUID_V4_PATTERN (sd_epoch seed)"
| "seed_ok e s \<longleftrightarrow> True"

definition ks_start :: credential_store where
  "ks_start = \<lparr> ks_memory = None, ks_disk = NoFile \<rparr>"

inductive ks_reach :: "url_parser \<Rightarrow> credential_store \<Rightarrow> bool" for u where
  start: "ks_reach u ks_start"
| step: "ks_reach u s \<Longrightarrow> seed_ok e s \<Longrightarrow> ks_reach u (ks_apply u e s)"

end
