(* ===== verification/Reconnect_Session.thy ===== *)
theory Reconnect_Session
  imports Envelope Ticket_Verify Credential_Store
begin

text \<open>
  The reconnect handshake of a paired extension: \<open>core/bridge/mbp1/reconnect-session.ts\<close>, with the
  transcript and MACs of \<open>reconnect-mac.ts\<close> and the Safari resume binding of
  \<open>safari-installation.ts\<close>. A handler runs up to its next \<open>await\<close> in one step; what it needs
  afterwards is the pending part of the state, and the outcome of the awaited call is an event. The
  credential store, the clock and the replay cache that all sessions share are the environment of a step.
\<close>

section \<open>Frames\<close>

datatype pair_error_code =
    PE_unsupportedVersion | PE_busy | PE_rateLimited | PE_codeMismatch | PE_expired | PE_denied | PE_aborted
  | PE_authFailed | PE_protocolViolation | PE_pairingFailed

primrec pair_error_name :: "pair_error_code \<Rightarrow> string" where
  "pair_error_name PE_unsupportedVersion = ''unsupportedVersion''"
| "pair_error_name PE_busy = ''busy''"
| "pair_error_name PE_rateLimited = ''rateLimited''"
| "pair_error_name PE_codeMismatch = ''codeMismatch''"
| "pair_error_name PE_expired = ''expired''"
| "pair_error_name PE_denied = ''denied''"
| "pair_error_name PE_aborted = ''aborted''"
| "pair_error_name PE_authFailed = ''authFailed''"
| "pair_error_name PE_protocolViolation = ''protocolViolation''"
| "pair_error_name PE_pairingFailed = ''pairingFailed''"

definition MBP1_PROTOCOL_VERSION :: int where "MBP1_PROTOCOL_VERSION = 1"
definition MAX_PRE_AUTH_FRAME_BYTES :: int where "MAX_PRE_AUTH_FRAME_BYTES = 16 * 1024"
definition KEY_BYTES :: nat where "KEY_BYTES = 32"
definition NONCE_BYTES :: nat where "NONCE_BYTES = 32"
definition MAC_BYTES :: nat where "MAC_BYTES = 32"
definition SIGNATURE_BYTES :: nat where "SIGNATURE_BYTES = 64"

definition isAscii :: "string \<Rightarrow> bool" where
  "isAscii s \<longleftrightarrow> list_all (\<lambda>c. of_char c \<le> (127 :: nat)) s"

definition base64UrlBytes :: "nat \<Rightarrow> string \<Rightarrow> bool" where
  "base64UrlBytes n s = (case fromBase64Url s of Inl _ \<Rightarrow> False | Inr b \<Rightarrow> length b = n)"

text \<open>\<open>sf_nmTicket\<close>: absent, or a JSON value.\<close>

record safari_resume =
  sf_installationKey :: string
  sf_proof :: string
  sf_nmTicket :: "ticket_json option"

record reconnect_response =
  rr_safariResume :: "safari_resume option"
  rr_credentialId :: string
  rr_C :: string
  rr_mac :: string

text \<open>
  What a text frame is to the handler: no JSON, an object without a string \<open>type\<close>, another type, a
  response whose fields are missing, superfluous or not strings, or a response with its fields.
\<close>

datatype reconnect_text = NotJson | NoType | OtherType | MalformedResponse | ResponseText reconnect_response

definition reconnectResponseFrameSchema :: "reconnect_response \<Rightarrow> bool" where
  "reconnectResponseFrameSchema r \<longleftrightarrow>
     (case rr_safariResume r of None \<Rightarrow> True
      | Some f \<Rightarrow> base64UrlBytes KEY_BYTES (sf_installationKey f) \<and> base64UrlBytes SIGNATURE_BYTES (sf_proof f)) \<and>
     isAscii (rr_credentialId r) \<and> base64UrlBytes NONCE_BYTES (rr_C r) \<and> base64UrlBytes MAC_BYTES (rr_mac r)"

definition nmTicketWireSchema :: "ticket_json \<Rightarrow> ticket_strings option" where
  "nmTicketWireSchema wire =
     (case ticketWireSchema wire of
        None \<Rightarrow> None
      | Some t \<Rightarrow> if isAscii (ts_purpose t) \<and> isAscii (ts_serverGeneration t) \<and> isAscii (ts_browser t) \<and>
                    isAscii (ts_callerId t) then Some t else None)"

text \<open>The bytes of a field the schema has accepted.\<close>

definition b64_bytes :: "string \<Rightarrow> byte list" where
  "b64_bytes s = (case fromBase64Url s of Inl _ \<Rightarrow> [] | Inr b \<Rightarrow> b)"

section \<open>Transcript, MACs and keys\<close>

record reconnect_crypto = ticket_crypto +
  cr_sha256 :: "byte list \<Rightarrow> byte list"

definition RT_LABEL :: string where "RT_LABEL = ''MBP1/reconnect/v1''"
definition MAC_CLIENT_LABEL :: "byte list" where "MAC_CLIENT_LABEL = utf8ToBytes ''MBP1-R/c''"
definition MAC_SERVER_LABEL :: "byte list" where "MAC_SERVER_LABEL = utf8ToBytes ''MBP1-R/s''"
definition TRAFFIC_INFO_C2S :: "byte list" where "TRAFFIC_INFO_C2S = utf8ToBytes ''MBP1-traffic-c2s''"
definition TRAFFIC_INFO_S2C :: "byte list" where "TRAFFIC_INFO_S2C = utf8ToBytes ''MBP1-traffic-s2c''"

definition buildRT :: "int \<Rightarrow> string \<Rightarrow> string \<Rightarrow> string \<Rightarrow> string \<Rightarrow> byte list checked" where
  "buildRT protocolVersion credentialId browser verifiedOrigin instanceId = concat_checked
     [enc_str RT_LABEL, encU32BE protocolVersion, enc_str credentialId, enc_str browser, enc_str verifiedOrigin,
      enc_str instanceId]"

definition reconnectMacClient :: "('a ticket_crypto_scheme) \<Rightarrow> byte list \<Rightarrow> byte list \<Rightarrow> byte list \<Rightarrow> byte list \<Rightarrow> byte list" where
  "reconnectMacClient cr mutualKey s c rt = cr_hmac cr mutualKey (MAC_CLIENT_LABEL @ s @ c @ rt)"

definition reconnectMacServer :: "('a ticket_crypto_scheme) \<Rightarrow> byte list \<Rightarrow> byte list \<Rightarrow> byte list \<Rightarrow> byte list \<Rightarrow> byte list" where
  "reconnectMacServer cr mutualKey s c rt = cr_hmac cr mutualKey (MAC_SERVER_LABEL @ s @ c @ rt)"

text \<open>The pair \<open>kC2S\<close>, \<open>kS2C\<close>.\<close>

definition reconnectTrafficKeys :: "('a ticket_crypto_scheme) \<Rightarrow> byte list \<Rightarrow> byte list \<Rightarrow> byte list \<Rightarrow> byte list \<times> byte list" where
  "reconnectTrafficKeys cr mutualKey s c =
     (cr_hkdf32 cr mutualKey (s @ c) TRAFFIC_INFO_C2S, cr_hkdf32 cr mutualKey (s @ c) TRAFFIC_INFO_S2C)"

text \<open>\<open>None\<close>: the schema, the decoder or the encoder threw.\<close>

definition resume_digest :: "reconnect_crypto \<Rightarrow> ticket_json option \<Rightarrow> byte list option" where
  "resume_digest cr nmTicket =
     (case nmTicket of
        None \<Rightarrow> Some []
      | Some wire \<Rightarrow>
          (case nmTicketWireSchema wire of
             None \<Rightarrow> None
           | Some s \<Rightarrow>
               (case (fromBase64Url (ts_bindingPub s), fromBase64Url (ts_mac s)) of
                  (Inr pub, Inr mac) \<Rightarrow>
                    (case ticketDigest (cr_sha256 cr)
                       \<lparr> tw_v = ts_v s, tw_purpose = ts_purpose s, tw_protocolVersion = ts_protocolVersion s,
                         tw_serverGeneration = ts_serverGeneration s, tw_browser = ts_browser s,
                         tw_callerId = ts_callerId s, tw_exp = ts_exp s, tw_bindingPub = pub, tw_mac = mac \<rparr> of
                       Inl _ \<Rightarrow> None | Inr d \<Rightarrow> Some d)
                | _ \<Rightarrow> None)))"

definition bindSafariResume :: "reconnect_crypto \<Rightarrow> byte list \<Rightarrow> string \<Rightarrow> ticket_json option \<Rightarrow> byte list option" where
  "bindSafariResume cr rt publicKey nmTicket =
     (case resume_digest cr nmTicket of
        None \<Rightarrow> None
      | Some digest \<Rightarrow>
          (case fromBase64Url publicKey of
             Inl _ \<Rightarrow> None
           | Inr pub \<Rightarrow>
               (case concat_checked [Inr rt, enc_str ''MBP1/safari-resume/v1'', enc_bytes pub, enc_bytes digest] of
                  Inl _ \<Rightarrow> None | Inr b \<Rightarrow> Some b)))"

definition verifySafariResume ::
  "reconnect_crypto \<Rightarrow> string \<Rightarrow> string \<Rightarrow> byte list \<Rightarrow> byte list \<Rightarrow> byte list \<Rightarrow> bool" where
  "verifySafariResume cr publicKey sig64 s c rt =
     (case (fromBase64Url publicKey, fromBase64Url sig64,
            concat_checked [enc_str ''MBP1/safari-resume-proof/v1'', Inr s, Inr c, Inr rt]) of
        (Inr pub, Inr sig, Inr msg) \<Rightarrow>
          validateBindingPub (ticket_crypto.truncate cr) pub \<and> cr_ed25519_verify cr sig msg pub
      | _ \<Rightarrow> False)"

section \<open>The session\<close>

record reconnect_deps =
  rd_verifiedOrigin :: string
  rd_browser :: string
  rd_instanceId :: string
  rd_safariTicketContext :: "(string \<times> string) option"
  rd_authorizes :: bool
  rd_bindsSafari :: bool

text \<open>The clock, \<open>findForAuth\<close> and the shared replay cache at the time of a step.\<close>

record reconnect_env =
  re_now :: int
  re_findForAuth :: "string \<Rightarrow> stored_credential option"
  re_replay :: replay_cache

datatype reconnect_state = RS_awaitingResponse | RS_processing | RS_authenticated | RS_closed

text \<open>The locals a suspended handler keeps: key, \<open>C\<close>, \<open>RT\<close> and the resume of the response.\<close>

record reconnect_locals =
  rl_key :: "byte list"
  rl_c :: "byte list"
  rl_rt :: "byte list"
  rl_resume :: "safari_resume option"

datatype reconnect_pending =
    Authorizing reconnect_locals stored_credential
  | Promoting reconnect_locals stored_credential
  | BindingSafari reconnect_locals stored_credential

record reconnect_session =
  rs_state :: reconnect_state
  rs_challengeS :: "byte list option"
  rs_deadlineAt :: int
  rs_pending :: "reconnect_pending option"

datatype reconnect_frame =
    ReconnectChallenge int string
  | ReconnectAccept string
  | PairErrorFrame pair_error_code

datatype reconnect_effect =
    SendText reconnect_frame
  | CloseSocket string
  | AuthorizeCredential stored_credential
  | PromoteOnReconnect string
  | BindSafariInstallation stored_credential string
  | ReplayUpdated replay_cache
  | OnAuthenticated endpoint endpoint stored_credential

datatype reconnect_event =
    HandleText reconnect_text int
  | Authorized bool
  | Promoted bool
  | Bound bool
  | Dispose

type_synonym reconnect_result = "reconnect_session \<times> reconnect_effect list"

definition RECONNECT_DEADLINE_MS :: int where "RECONNECT_DEADLINE_MS = 10000"
definition DUMMY_MUTUAL_KEY :: "byte list" where "DUMMY_MUTUAL_KEY = replicate 32 0"

definition rs_terminate :: "string \<Rightarrow> reconnect_session \<Rightarrow> reconnect_result" where
  "rs_terminate reason s =
     (if rs_state s = RS_closed then (s, [])
      else (s \<lparr> rs_state := RS_closed, rs_challengeS := None \<rparr>, [CloseSocket reason]))"

definition rs_fail :: "pair_error_code \<Rightarrow> reconnect_session \<Rightarrow> reconnect_result" where
  "rs_fail code s =
     (let (s', es) = rs_terminate (pair_error_name code) s in (s', SendText (PairErrorFrame code) # es))"

definition rs_violation :: "reconnect_session \<Rightarrow> reconnect_result" where
  "rs_violation s = rs_fail PE_protocolViolation s"

definition rs_dispose :: "reconnect_session \<Rightarrow> reconnect_session" where
  "rs_dispose s =
     (if rs_state s = RS_closed then s else s \<lparr> rs_state := RS_closed, rs_challengeS := None \<rparr>)"

definition rs_new :: reconnect_session where
  "rs_new = \<lparr> rs_state = RS_awaitingResponse, rs_challengeS = None, rs_deadlineAt = 0, rs_pending = None \<rparr>"

text \<open>\<open>start\<close>, with the bytes of the random source.\<close>

definition rs_start :: "int \<Rightarrow> byte list \<Rightarrow> reconnect_session \<Rightarrow> reconnect_result" where
  "rs_start now random s =
     (let s1 = s \<lparr> rs_challengeS := Some random, rs_deadlineAt := now + RECONNECT_DEADLINE_MS \<rparr>
      in if base64UrlBytes NONCE_BYTES (toBase64Url random)
         then (s1, [SendText (ReconnectChallenge MBP1_PROTOCOL_VERSION (toBase64Url random))])
         else rs_terminate ''reconnectChallengeInvalid'' s1)"

definition matchesLivePrincipal :: "reconnect_deps \<Rightarrow> stored_credential \<Rightarrow> bool" where
  "matchesLivePrincipal d cred \<longleftrightarrow>
     cp_browser (sc_principal cred) = rd_browser d \<and> cp_verifiedOrigin (sc_principal cred) = rd_verifiedOrigin d"

definition verifyClientMac :: "reconnect_crypto \<Rightarrow> byte list \<Rightarrow> byte list \<Rightarrow> byte list \<Rightarrow> byte list \<Rightarrow> byte list \<Rightarrow> bool" where
  "verifyClientMac cr mutualKey s c rt presented \<longleftrightarrow> reconnectMacClient cr mutualKey s c rt = presented"

definition SAFARI_EXTENSION_ID :: string where "SAFARI_EXTENSION_ID = ''app.motrix.safari.extension''"

text \<open>The \<open>try\<close> block: transcript and key, \<open>None\<close> when something in it threw.\<close>

definition rt_and_key ::
  "reconnect_deps \<Rightarrow> reconnect_crypto \<Rightarrow> reconnect_response \<Rightarrow> stored_credential option \<Rightarrow> (byte list \<times> byte list) option" where
  "rt_and_key d cr r cred =
     (case buildRT MBP1_PROTOCOL_VERSION (rr_credentialId r) (rd_browser d) (rd_verifiedOrigin d) (rd_instanceId d) of
        Inl _ \<Rightarrow> None
      | Inr rt0 \<Rightarrow>
          (case (case rr_safariResume r of
                   None \<Rightarrow> Some rt0
                 | Some f \<Rightarrow> bindSafariResume cr rt0 (sf_installationKey f) (sf_nmTicket f)) of
             None \<Rightarrow> None
           | Some rt \<Rightarrow>
               (case cred of
                  None \<Rightarrow> Some (rt, DUMMY_MUTUAL_KEY)
                | Some cd \<Rightarrow>
                    (case fromBase64Url (sc_mutualKeyB64 cd) of Inl _ \<Rightarrow> None | Inr k \<Rightarrow> Some (rt, k)))))"

text \<open>Whether a known credential belongs to the live principal, and the ticket check's effect on the cache.\<close>

definition principalMatches ::
  "reconnect_deps \<Rightarrow> reconnect_crypto \<Rightarrow> reconnect_env \<Rightarrow> byte list \<Rightarrow> byte list \<Rightarrow> byte list \<Rightarrow> bool \<Rightarrow>
   safari_resume option \<Rightarrow> stored_credential \<Rightarrow> bool \<times> reconnect_effect list" where
  "principalMatches d cr env s c rt macOk resume cred =
     (let p = sc_principal cred in
      case resume of
        None \<Rightarrow> (matchesLivePrincipal d cred \<and> cp_safariInstallationKey p = None, [])
      | Some f \<Rightarrow>
          if \<not> (macOk \<and> rd_browser d = ''safari'' \<and> cp_browser p = ''safari'' \<and>
                 verifySafariResume cr (sf_installationKey f) (sf_proof f) s c rt)
          then (False, [])
          else case cp_safariInstallationKey p of
                 Some bound \<Rightarrow> (bound = sf_installationKey f, [])
               | None \<Rightarrow>
                   if cp_verifiedOrigin p = rd_verifiedOrigin d then (True, [])
                   else case (sf_nmTicket f, rd_safariTicketContext d) of
                          (Some wire, Some (localToken, serverGeneration)) \<Rightarrow>
                            if sc_identity cred \<noteq> IdOfficial then (False, [])
                            else let (verdict, replay) = verifyNmTicket (ticket_crypto.truncate cr) wire
                                   \<lparr> tc_localToken = localToken, tc_serverGeneration = serverGeneration,
                                     tc_nowMs = re_now env, tc_helloBrowser = ''safari'',
                                     tc_helloClaimedExtensionId = SAFARI_EXTENSION_ID,
                                     tc_helloTicketBindingKey = Some (b64_bytes (sf_installationKey f)) \<rparr>
                                   (re_replay env)
                                 in ((case verdict of TicketAttested caller _ \<Rightarrow> caller = SAFARI_EXTENSION_ID | _ \<Rightarrow> False),
                                     [ReplayUpdated replay])
                        | _ \<Rightarrow> (False, []))"

text \<open>The end of the handler, from the last deadline check on.\<close>

definition finishReconnect ::
  "reconnect_crypto \<Rightarrow> reconnect_env \<Rightarrow> reconnect_locals \<Rightarrow> stored_credential \<Rightarrow> reconnect_session \<Rightarrow> reconnect_result" where
  "finishReconnect cr env l authenticated s =
     (if re_now env \<ge> rs_deadlineAt s then rs_fail PE_authFailed s
      else case rs_challengeS s of
             None \<Rightarrow> (s, [])
           | Some ch \<Rightarrow>
               let mac = toBase64Url (reconnectMacServer cr (rl_key l) ch (rl_c l) (rl_rt l));
                   (kC2S, kS2C) = reconnectTrafficKeys cr (rl_key l) ch (rl_c l)
               in if \<not> base64UrlBytes MAC_BYTES mac then rs_terminate ''reconnectAcceptInvalid'' s
                  else (s \<lparr> rs_state := RS_authenticated, rs_challengeS := None \<rparr>,
                        [SendText (ReconnectAccept mac),
                         OnAuthenticated (ep_new kS2C DIR_S2C 0 0) (ep_new kC2S DIR_C2S 0 0) authenticated]))"

definition bindOrFinish ::
  "reconnect_deps \<Rightarrow> reconnect_crypto \<Rightarrow> reconnect_env \<Rightarrow> reconnect_locals \<Rightarrow> stored_credential \<Rightarrow> reconnect_session \<Rightarrow>
   reconnect_result" where
  "bindOrFinish d cr env l authenticated s =
     (case rl_resume l of
        None \<Rightarrow> finishReconnect cr env l authenticated s
      | Some f \<Rightarrow>
          if \<not> rd_bindsSafari d then rs_fail PE_authFailed s
          else (s \<lparr> rs_pending := Some (BindingSafari l authenticated) \<rparr>,
                [BindSafariInstallation authenticated (sf_installationKey f)]))"

definition promoteOrBind ::
  "reconnect_deps \<Rightarrow> reconnect_crypto \<Rightarrow> reconnect_env \<Rightarrow> reconnect_locals \<Rightarrow> stored_credential \<Rightarrow> reconnect_session \<Rightarrow>
   reconnect_result" where
  "promoteOrBind d cr env l cred s =
     (if sc_state cred = CredProvisional
      then (s \<lparr> rs_pending := Some (Promoting l cred) \<rparr>, [PromoteOnReconnect (sc_credentialId cred)])
      else bindOrFinish d cr env l cred s)"

definition onReconnectResponse ::
  "reconnect_deps \<Rightarrow> reconnect_crypto \<Rightarrow> reconnect_env \<Rightarrow> reconnect_response option \<Rightarrow> reconnect_session \<Rightarrow> reconnect_result" where
  "onReconnectResponse d cr env body s =
     (case (rs_state s, rs_challengeS s) of
        (RS_awaitingResponse, Some ch) \<Rightarrow>
          if re_now env \<ge> rs_deadlineAt s then rs_fail PE_authFailed s
          else (case body of
                  None \<Rightarrow> rs_violation s
                | Some r \<Rightarrow>
                    if \<not> reconnectResponseFrameSchema r then rs_violation s
                    else
                     (let s1 = s \<lparr> rs_state := RS_processing \<rparr>;
                          c = b64_bytes (rr_C r);
                          credential = re_findForAuth env (rr_credentialId r)
                      in case rt_and_key d cr r credential of
                           None \<Rightarrow> rs_fail PE_authFailed s1
                         | Some (rt, key) \<Rightarrow>
                             let macOk = verifyClientMac cr key ch c rt (b64_bytes (rr_mac r));
                                 (ok, es) = (case credential of
                                     None \<Rightarrow> (False, [])
                                   | Some cred \<Rightarrow> principalMatches d cr env ch c rt macOk (rr_safariResume r) cred)
                             in case credential of
                                  None \<Rightarrow> rs_fail PE_authFailed s1
                                | Some cred \<Rightarrow>
                                    if \<not> macOk \<or> \<not> ok
                                    then (let (s2, es2) = rs_fail PE_authFailed s1 in (s2, es @ es2))
                                    else
                                      let l = \<lparr> rl_key = key, rl_c = c, rl_rt = rt, rl_resume = rr_safariResume r \<rparr>;
                                          (s2, es2) =
                                            (if rd_authorizes d
                                             then (s1 \<lparr> rs_pending := Some (Authorizing l cred) \<rparr>, [AuthorizeCredential cred])
                                             else promoteOrBind d cr env l cred s1)
                                      in (s2, es @ es2)))
      | _ \<Rightarrow> rs_violation s)"

definition rs_handleText ::
  "reconnect_deps \<Rightarrow> reconnect_crypto \<Rightarrow> reconnect_env \<Rightarrow> reconnect_text \<Rightarrow> int \<Rightarrow> reconnect_session \<Rightarrow> reconnect_result" where
  "rs_handleText d cr env raw byteLength s =
     (if rs_state s = RS_closed \<or> rs_state s = RS_authenticated then (s, [])
      else if byteLength > MAX_PRE_AUTH_FRAME_BYTES then rs_violation s
      else case raw of
             MalformedResponse \<Rightarrow> onReconnectResponse d cr env None s
           | ResponseText r \<Rightarrow> onReconnectResponse d cr env (Some r) s
           | _ \<Rightarrow> rs_violation s)"

text \<open>The continuations after the three awaits.\<close>

definition afterAuthorize ::
  "reconnect_deps \<Rightarrow> reconnect_crypto \<Rightarrow> reconnect_env \<Rightarrow> bool \<Rightarrow> reconnect_locals \<Rightarrow> stored_credential \<Rightarrow> reconnect_session \<Rightarrow>
   reconnect_result" where
  "afterAuthorize d cr env ok l cred s =
     (if \<not> ok then rs_fail PE_authFailed s
      else if rs_state s \<noteq> RS_processing then (s, [])
      else case re_findForAuth env (sc_credentialId cred) of
             None \<Rightarrow> rs_fail PE_authFailed s
           | Some current \<Rightarrow>
               if sc_mutualKeyB64 current \<noteq> sc_mutualKeyB64 cred \<or>
                  sc_authorizationEpoch current \<noteq> sc_authorizationEpoch cred \<or>
                  sc_principal current \<noteq> sc_principal cred \<or> re_now env \<ge> rs_deadlineAt s
               then rs_fail PE_authFailed s
               else promoteOrBind d cr env l cred s)"

definition afterPromote ::
  "reconnect_deps \<Rightarrow> reconnect_crypto \<Rightarrow> reconnect_env \<Rightarrow> bool \<Rightarrow> reconnect_locals \<Rightarrow> stored_credential \<Rightarrow> reconnect_session \<Rightarrow>
   reconnect_result" where
  "afterPromote d cr env ok l cred s =
     (if \<not> ok then rs_terminate ''reconnectPromoteFailed'' s
      else if rs_state s \<noteq> RS_processing then (s, [])
      else case re_findForAuth env (sc_credentialId cred) of
             None \<Rightarrow> rs_terminate ''reconnectPromotedCredentialMissing'' s
           | Some promoted \<Rightarrow>
               if sc_principal promoted \<noteq> sc_principal cred \<or> sc_mutualKeyB64 promoted \<noteq> sc_mutualKeyB64 cred
               then rs_fail PE_authFailed s
               else bindOrFinish d cr env l promoted s)"

definition afterBind ::
  "reconnect_crypto \<Rightarrow> reconnect_env \<Rightarrow> bool \<Rightarrow> reconnect_locals \<Rightarrow> stored_credential \<Rightarrow> reconnect_session \<Rightarrow> reconnect_result" where
  "afterBind cr env ok l authenticated s =
     (if \<not> ok then rs_fail PE_authFailed s
      else if rs_state s \<noteq> RS_processing then (s, [])
      else case re_findForAuth env (sc_credentialId authenticated) of
             None \<Rightarrow> rs_fail PE_authFailed s
           | Some current \<Rightarrow>
               if cp_safariInstallationKey (sc_principal current) \<noteq> map_option sf_installationKey (rl_resume l) \<or>
                  sc_mutualKeyB64 current \<noteq> sc_mutualKeyB64 authenticated \<or>
                  sc_authorizationEpoch current \<noteq> sc_authorizationEpoch authenticated
               then rs_fail PE_authFailed s
               else finishReconnect cr env l current s)"

text \<open>An outcome arrives only where a call is in flight.\<close>

definition rs_step ::
  "reconnect_deps \<Rightarrow> reconnect_crypto \<Rightarrow> reconnect_env \<Rightarrow> reconnect_event \<Rightarrow> reconnect_session \<Rightarrow> reconnect_result" where
  "rs_step d cr env e s =
     (let s0 = s \<lparr> rs_pending := None \<rparr> in
      case (e, rs_pending s) of
        (HandleText raw n, _) \<Rightarrow> rs_handleText d cr env raw n s
      | (Dispose, _) \<Rightarrow> (rs_dispose s, [])
      | (Authorized ok, Some (Authorizing l cred)) \<Rightarrow> afterAuthorize d cr env ok l cred s0
      | (Promoted ok, Some (Promoting l cred)) \<Rightarrow> afterPromote d cr env ok l cred s0
      | (Bound ok, Some (BindingSafari l cred)) \<Rightarrow> afterBind cr env ok l cred s0
      | _ \<Rightarrow> (s, []))"

text \<open>A session over its history, oldest step first: the state and all effects.\<close>

type_synonym reconnect_history = "(reconnect_env \<times> reconnect_event) list"

fun rs_run :: "reconnect_deps \<Rightarrow> reconnect_crypto \<Rightarrow> reconnect_history \<Rightarrow> reconnect_result \<Rightarrow> reconnect_result" where
  "rs_run d cr [] r = r"
| "rs_run d cr ((env, e) # h) r = rs_run d cr h (let (s', es) = rs_step d cr env e (fst r) in (s', snd r @ es))"

section \<open>Why an accept is sent\<close>

text \<open>
  A response proves a credential: it is well-formed, its MAC is the one of the credential's key over the
  challenge of this session and a transcript of the live connection, and the credential belongs to the live
  principal or, for Safari, to the installation key that signed the challenge.
\<close>

definition proves_credential ::
  "reconnect_deps \<Rightarrow> reconnect_crypto \<Rightarrow> byte list \<Rightarrow> reconnect_response \<Rightarrow> stored_credential \<Rightarrow> bool" where
  "proves_credential d cr ch r cred \<longleftrightarrow>
     reconnectResponseFrameSchema r \<and>
     (case rt_and_key d cr r (Some cred) of
        None \<Rightarrow> False
      | Some (rt, key) \<Rightarrow>
          b64_bytes (rr_mac r) = reconnectMacClient cr key ch (b64_bytes (rr_C r)) rt \<and>
          (case rr_safariResume r of
             None \<Rightarrow> matchesLivePrincipal d cred \<and> cp_safariInstallationKey (sc_principal cred) = None
           | Some f \<Rightarrow> rd_browser d = ''safari'' \<and> cp_browser (sc_principal cred) = ''safari'' \<and>
               verifySafariResume cr (sf_installationKey f) (sf_proof f) ch (b64_bytes (rr_C r)) rt))"

definition vouched ::
  "reconnect_deps \<Rightarrow> reconnect_crypto \<Rightarrow> byte list \<Rightarrow> int \<Rightarrow> reconnect_history \<Rightarrow> stored_credential \<Rightarrow> bool" where
  "vouched d cr ch dl h cred \<longleftrightarrow>
     (\<exists>env n r. (env, HandleText (ResponseText r) n) \<in> set h \<and> re_now env < dl \<and>
        re_findForAuth env (rr_credentialId r) = Some cred \<and> proves_credential d cr ch r cred)"

definition admitted_credential ::
  "reconnect_deps \<Rightarrow> reconnect_crypto \<Rightarrow> byte list \<Rightarrow> int \<Rightarrow> reconnect_history \<Rightarrow> reconnect_effect list \<Rightarrow> stored_credential \<Rightarrow> bool" where
  "admitted_credential d cr ch dl h es cred \<longleftrightarrow>
     (\<exists>c0. vouched d cr ch dl h c0 \<and> sc_mutualKeyB64 cred = sc_mutualKeyB64 c0 \<and>
        (sc_state c0 = CredProvisional \<longrightarrow>
           PromoteOnReconnect (sc_credentialId c0) \<in> set es \<and> (\<exists>env. (env, Promoted True) \<in> set h)))"

fun pending_ok ::
  "reconnect_deps \<Rightarrow> reconnect_crypto \<Rightarrow> byte list \<Rightarrow> int \<Rightarrow> reconnect_history \<Rightarrow> reconnect_effect list \<Rightarrow>
   reconnect_pending option \<Rightarrow> bool" where
  "pending_ok d cr ch dl h es None \<longleftrightarrow> True"
| "pending_ok d cr ch dl h es (Some (Authorizing l c)) \<longleftrightarrow> vouched d cr ch dl h c"
| "pending_ok d cr ch dl h es (Some (Promoting l c)) \<longleftrightarrow>
     vouched d cr ch dl h c \<and> PromoteOnReconnect (sc_credentialId c) \<in> set es"
| "pending_ok d cr ch dl h es (Some (BindingSafari l c)) \<longleftrightarrow> admitted_credential d cr ch dl h es c"

definition has_accepted :: "reconnect_effect list \<Rightarrow> bool" where
  "has_accepted es \<longleftrightarrow> (\<exists>a b c. OnAuthenticated a b c \<in> set es)"

text \<open>The invariant of a session with challenge \<open>ch\<close> and deadline \<open>dl\<close> after history \<open>h\<close>.\<close>

definition rs_inv ::
  "reconnect_deps \<Rightarrow> reconnect_crypto \<Rightarrow> byte list \<Rightarrow> int \<Rightarrow> reconnect_history \<Rightarrow> reconnect_result \<Rightarrow> bool" where
  "rs_inv d cr ch dl h r \<longleftrightarrow>
     rs_deadlineAt (fst r) = dl \<and>
     (rs_challengeS (fst r) = None \<or> rs_challengeS (fst r) = Some ch) \<and>
     (rs_state (fst r) = RS_awaitingResponse \<longrightarrow> rs_pending (fst r) = None) \<and>
     pending_ok d cr ch dl h (snd r) (rs_pending (fst r)) \<and>
     (has_accepted (snd r) \<longrightarrow> rs_pending (fst r) = None \<and> rs_state (fst r) \<in> {RS_authenticated, RS_closed})"

text \<open>
  The result of the rest of a handler that started with the effects \<open>es\<close> behind it: the invariant, and
  an accept only in time and for an admitted credential.
\<close>

definition rs_good ::
  "reconnect_deps \<Rightarrow> reconnect_crypto \<Rightarrow> byte list \<Rightarrow> int \<Rightarrow> reconnect_history \<Rightarrow> int \<Rightarrow> reconnect_effect list \<Rightarrow>
   reconnect_result \<Rightarrow> bool" where
  "rs_good d cr ch dl h now es r \<longleftrightarrow>
     rs_inv d cr ch dl h (fst r, es @ snd r) \<and>
     (\<forall>a b c. OnAuthenticated a b c \<in> set (snd r) \<longrightarrow> now < dl \<and> admitted_credential d cr ch dl h es c)"

lemma vouched_mono: "vouched d cr ch dl h c \<Longrightarrow> set h \<subseteq> set h' \<Longrightarrow> vouched d cr ch dl h' c"
  by (auto simp: vouched_def)

lemma admitted_mono:
  "admitted_credential d cr ch dl h es c \<Longrightarrow> set h \<subseteq> set h' \<Longrightarrow> set es \<subseteq> set es' \<Longrightarrow>
   admitted_credential d cr ch dl h' es' c"
  unfolding admitted_credential_def using vouched_mono by blast

lemma pending_ok_mono:
  "pending_ok d cr ch dl h es p \<Longrightarrow> set h \<subseteq> set h' \<Longrightarrow> set es \<subseteq> set es' \<Longrightarrow> pending_ok d cr ch dl h' es' p"
  by (cases "(d, cr, ch, dl, h, es, p)" rule: pending_ok.cases) (auto intro: vouched_mono admitted_mono)

lemma has_accepted_append [simp]: "has_accepted (es @ es') \<longleftrightarrow> has_accepted es \<or> has_accepted es'"
  by (auto simp: has_accepted_def)

text \<open>A session a handler is still at work in: no call in flight, nothing accepted.\<close>

definition rs_live :: "byte list \<Rightarrow> int \<Rightarrow> reconnect_effect list \<Rightarrow> reconnect_session \<Rightarrow> bool" where
  "rs_live ch dl es s \<longleftrightarrow>
     rs_deadlineAt s = dl \<and> (rs_challengeS s = None \<or> rs_challengeS s = Some ch) \<and> rs_pending s = None \<and> \<not> has_accepted es"

lemmas rs_good_defs = rs_good_def rs_inv_def rs_live_def

lemma good_terminate:
  "rs_live ch dl es s \<Longrightarrow> rs_good d cr ch dl h now es (rs_terminate reason s)"
  by (auto simp: rs_good_defs rs_terminate_def has_accepted_def)

lemma good_fail: "rs_live ch dl es s \<Longrightarrow> rs_good d cr ch dl h now es (rs_fail code s)"
  by (auto simp: rs_good_defs rs_fail_def rs_terminate_def has_accepted_def)

lemma good_idle: "rs_live ch dl es s \<Longrightarrow> rs_good d cr ch dl h now es (s, [])"
  by (auto simp: rs_good_defs)

lemma good_accept:
  assumes "rs_live ch dl es s" and "admitted_credential d cr ch dl h es c" and "now < dl"
  shows "rs_good d cr ch dl h now es
     (s \<lparr> rs_state := RS_authenticated, rs_challengeS := None \<rparr>, [SendText f, OnAuthenticated a b c])"
  using assms by (auto simp: rs_good_defs intro: admitted_mono)

lemma good_finish:
  assumes "rs_live ch dl es s" and "admitted_credential d cr ch dl h es c"
  shows "rs_good d cr ch dl h (re_now env) es (finishReconnect cr env l c s)"
proof -
  have dl: "rs_deadlineAt s = dl" using assms(1) by (simp add: rs_live_def)
  show ?thesis
    using good_fail [OF assms(1)] good_idle [OF assms(1)] good_terminate [OF assms(1)] good_accept [OF assms]
    by (simp add: finishReconnect_def Let_def case_prod_beta dl split: option.split)
qed

lemma good_bindOrFinish:
  assumes "rs_live ch dl es s" "rs_state s = RS_processing" and "admitted_credential d cr ch dl h es c"
  shows "rs_good d cr ch dl h (re_now env) es (bindOrFinish d cr env l c s)"
  using assms good_finish [OF assms(1,3)] good_fail [OF assms(1)]
  by (auto simp: bindOrFinish_def rs_good_defs has_accepted_def intro: admitted_mono split: option.split)

lemma good_promoteOrBind:
  assumes "rs_live ch dl es s" "rs_state s = RS_processing" and "vouched d cr ch dl h c"
  shows "rs_good d cr ch dl h (re_now env) es (promoteOrBind d cr env l c s)"
proof (cases "sc_state c = CredProvisional")
  case True
  then show ?thesis using assms by (auto simp: promoteOrBind_def rs_good_defs has_accepted_def)
next
  case False
  then have "admitted_credential d cr ch dl h es c" using assms(3) by (auto simp: admitted_credential_def)
  then show ?thesis using good_bindOrFinish assms False by (simp add: promoteOrBind_def)
qed

lemma good_afterAuthorize:
  assumes "rs_live ch dl es s" "rs_state s \<noteq> RS_awaitingResponse" and "vouched d cr ch dl h c"
  shows "rs_good d cr ch dl h (re_now env) es (afterAuthorize d cr env ok l c s)"
  using assms good_fail [OF assms(1)] good_idle [OF assms(1)] good_promoteOrBind
  by (auto simp: afterAuthorize_def split: option.split)

lemma good_afterPromote:
  assumes "rs_live ch dl es s" "rs_state s \<noteq> RS_awaitingResponse" and "vouched d cr ch dl h c"
    and "PromoteOnReconnect (sc_credentialId c) \<in> set es" and "(env', Promoted ok) \<in> set h"
  shows "rs_good d cr ch dl h (re_now env) es (afterPromote d cr env ok l c s)"
proof -
  have "admitted_credential d cr ch dl h es c'" if "ok" "sc_mutualKeyB64 c' = sc_mutualKeyB64 c" for c'
    using assms(3-5) that unfolding admitted_credential_def by auto
  then show ?thesis
    using assms good_fail [OF assms(1)] good_terminate [OF assms(1)] good_idle [OF assms(1)] good_bindOrFinish
    by (auto simp: afterPromote_def split: option.split)
qed

lemma good_afterBind:
  assumes "rs_live ch dl es s" "rs_state s \<noteq> RS_awaitingResponse" and "admitted_credential d cr ch dl h es c"
  shows "rs_good d cr ch dl h (re_now env) es (afterBind cr env ok l c s)"
proof -
  have "admitted_credential d cr ch dl h es c'" if "sc_mutualKeyB64 c' = sc_mutualKeyB64 c" for c'
    using assms(3) that unfolding admitted_credential_def by auto
  then show ?thesis
    using assms good_fail [OF assms(1)] good_idle [OF assms(1)] good_finish
    by (auto simp: afterBind_def split: option.split)
qed

lemma principalMatches_effects:
  "set (snd (principalMatches d cr env s c rt m resume cred)) \<subseteq> range ReplayUpdated"
  by (auto simp: principalMatches_def Let_def case_prod_beta split: option.split)

lemma replay_quiet: "set es1 \<subseteq> range ReplayUpdated \<Longrightarrow> \<not> has_accepted es1"
  by (auto simp: has_accepted_def)

lemma admitted_prefix:
  "set es1 \<subseteq> range ReplayUpdated \<Longrightarrow> admitted_credential d cr ch dl h (es @ es1) c \<Longrightarrow> admitted_credential d cr ch dl h es c"
  by (auto simp: admitted_credential_def)

lemma good_prefix:
  "rs_good d cr ch dl h now (es @ es1) r \<Longrightarrow> set es1 \<subseteq> range ReplayUpdated \<Longrightarrow>
   rs_good d cr ch dl h now es (fst r, es1 @ snd r)"
  by (auto simp: rs_good_def rs_inv_def replay_quiet intro: admitted_prefix)

lemma principalMatches_proves:
  assumes "fst (principalMatches d cr env ch (b64_bytes (rr_C r)) rt True (rr_safariResume r) cred)"
    and "reconnectResponseFrameSchema r" and "rt_and_key d cr r (Some cred) = Some (rt, key)"
    and "verifyClientMac cr key ch (b64_bytes (rr_C r)) rt (b64_bytes (rr_mac r))"
  shows "proves_credential d cr ch r cred"
  using assms
  by (auto simp: proves_credential_def principalMatches_def verifyClientMac_def Let_def split: option.splits if_splits)

lemma good_onReconnectResponse:
  assumes s: "rs_live ch dl es s" and mem: "\<And>r. body = Some r \<Longrightarrow> (env, HandleText (ResponseText r) n) \<in> set h"
  shows "rs_good d cr ch dl h (re_now env) es (onReconnectResponse d cr env body s)"
proof (cases "rs_state s = RS_awaitingResponse \<and> rs_challengeS s \<noteq> None \<and> re_now env < rs_deadlineAt s \<and>
      (\<exists>r. body = Some r \<and> reconnectResponseFrameSchema r)")
  case False
  then show ?thesis using good_fail [OF s]
    by (auto simp: onReconnectResponse_def rs_violation_def split: reconnect_state.split option.split)
next
  case True
  then obtain r where st: "rs_state s = RS_awaitingResponse" "rs_challengeS s = Some ch" "re_now env < dl"
      and r: "body = Some r" "reconnectResponseFrameSchema r"
    using s by (auto simp: rs_live_def)
  define s1 where "s1 = s \<lparr> rs_state := RS_processing \<rparr>"
  have s1: "rs_live ch dl es s1" "rs_state s1 = RS_processing" "rs_deadlineAt s = dl"
    using s by (auto simp: rs_live_def s1_def)
  show ?thesis
  proof (cases "re_findForAuth env (rr_credentialId r)")
    case None
    then show ?thesis using st r good_fail [OF s1(1)] s1(3)
      by (auto simp: onReconnectResponse_def Let_def s1_def [symmetric] split: option.split)
  next
    case (Some cred)
    show ?thesis
    proof (cases "rt_and_key d cr r (Some cred)")
      case None
      then show ?thesis using st r good_fail [OF s1(1)] s1(3) Some
        by (auto simp: onReconnectResponse_def Let_def s1_def [symmetric])
    next
      case k: (Some rk)
      obtain rt key where rk: "rk = (rt, key)" by (cases rk)
      define m where "m = verifyClientMac cr key ch (b64_bytes (rr_C r)) rt (b64_bytes (rr_mac r))"
      define pm where "pm = principalMatches d cr env ch (b64_bytes (rr_C r)) rt m (rr_safariResume r) cred"
      have live: "rs_live ch dl (es @ snd pm) s1"
        using s1(1) replay_quiet [OF principalMatches_effects] by (auto simp: rs_live_def pm_def)
      note pre = good_prefix [OF _ principalMatches_effects [of d cr env ch "b64_bytes (rr_C r)" rt m "rr_safariResume r" cred],
          folded pm_def]
      let ?l = "\<lparr> rl_key = key, rl_c = b64_bytes (rr_C r), rl_rt = rt, rl_resume = rr_safariResume r \<rparr>"
      have eq: "onReconnectResponse d cr env body s =
          (if \<not> m \<or> \<not> fst pm then (fst (rs_fail PE_authFailed s1), snd pm @ snd (rs_fail PE_authFailed s1))
           else if rd_authorizes d then (s1 \<lparr> rs_pending := Some (Authorizing ?l cred) \<rparr>, snd pm @ [AuthorizeCredential cred])
           else (fst (promoteOrBind d cr env ?l cred s1), snd pm @ snd (promoteOrBind d cr env ?l cred s1)))"
        using st r s1(3) Some k rk
        by (simp add: onReconnectResponse_def Let_def s1_def m_def pm_def case_prod_beta)
      show ?thesis
      proof (cases "m \<and> fst pm")
        case False
        then show ?thesis using pre [OF good_fail [OF live]] by (simp add: eq)
      next
        case True
        then have "proves_credential d cr ch r cred"
          using principalMatches_proves [of d cr env ch r rt cred key] r(2) k rk by (auto simp: pm_def m_def)
        then have v: "vouched d cr ch dl h cred"
          using mem [OF r(1)] st(3) Some by (auto simp: vouched_def)
        have a: "rs_good d cr ch dl h (re_now env) (es @ snd pm) (s1 \<lparr> rs_pending := Some (Authorizing ?l cred) \<rparr>, [AuthorizeCredential cred])"
          using live v s1(2) by (auto simp: rs_good_defs has_accepted_def)
        show ?thesis using True pre [OF a] pre [OF good_promoteOrBind [OF live s1(2) v]] by (simp add: eq)
      qed
    qed
  qed
qed

text \<open>Every step keeps the invariant, and accepts only an admitted credential in time.\<close>

lemma inv_live: "rs_inv d cr ch dl h (s, es) \<Longrightarrow> rs_state s \<notin> {RS_closed, RS_authenticated} \<or> rs_pending s \<noteq> None \<Longrightarrow>
    rs_live ch dl es (s \<lparr> rs_pending := None \<rparr>)"
  by (auto simp: rs_inv_def rs_live_def)

lemma inv_mono: "rs_inv d cr ch dl h r \<Longrightarrow> rs_inv d cr ch dl (h @ h') r"
  by (auto simp: rs_inv_def intro: pending_ok_mono)

lemma inv_violation: "rs_inv d cr ch dl h (s, es) \<Longrightarrow> rs_good d cr ch dl h now es (rs_violation s)"
  by (auto simp: rs_good_def rs_inv_def rs_violation_def rs_fail_def rs_terminate_def has_accepted_def
      intro: pending_ok_mono)

lemma good_step:
  assumes "rs_inv d cr ch dl h (s, es)"
  shows "rs_good d cr ch dl (h @ [(env, e)]) (re_now env) es (rs_step d cr env e s)"
proof -
  let ?h = "h @ [(env, e)]"
  have inv: "rs_inv d cr ch dl ?h (s, es)" using assms by (rule inv_mono)
  have stay: "rs_good d cr ch dl ?h (re_now env) es (s, [])" using inv by (simp add: rs_good_def)
  have wait: "rs_pending s \<noteq> None \<Longrightarrow> rs_state s \<noteq> RS_awaitingResponse" using inv by (auto simp: rs_inv_def)
  show ?thesis
  proof (cases e)
    case (HandleText raw n)
    have refuse: "rs_good d cr ch dl ?h (re_now env) es (rs_violation s)" using inv by (rule inv_violation)
    show ?thesis
    proof (cases "rs_state s = RS_awaitingResponse")
      case True
      then have live: "rs_live ch dl es s" using inv by (auto simp: rs_inv_def rs_live_def)
      have "rs_good d cr ch dl ?h (re_now env) es (onReconnectResponse d cr env body s)"
        if "\<And>r. body = Some r \<Longrightarrow> raw = ResponseText r" for body
        by (rule good_onReconnectResponse [OF live, of body env n]) (use that HandleText in auto)
      then show ?thesis using HandleText True refuse
        by (auto simp: rs_step_def rs_handleText_def split: reconnect_text.split)
    next
      case False
      then show ?thesis using HandleText stay refuse
        by (cases "rs_state s") (auto simp: rs_step_def rs_handleText_def onReconnectResponse_def split: reconnect_text.split)
    qed
  next
    case Dispose
    then show ?thesis using inv by (auto simp: rs_step_def rs_dispose_def rs_good_def rs_inv_def)
  next
    case (Authorized ok)
    then show ?thesis using stay wait inv good_afterAuthorize [OF inv_live [OF inv]]
      by (auto simp: rs_step_def Let_def rs_inv_def split: option.split reconnect_pending.split)
  next
    case (Promoted ok)
    then show ?thesis using stay wait inv good_afterPromote [OF inv_live [OF inv], where ok = ok and env = env and env' = env and h = ?h]
      by (auto simp: rs_step_def Let_def rs_inv_def split: option.split reconnect_pending.split)
  next
    case (Bound ok)
    then show ?thesis using stay wait inv good_afterBind [OF inv_live [OF inv]]
      by (auto simp: rs_step_def Let_def rs_inv_def split: option.split reconnect_pending.split)
  qed
qed

lemma inv_run:
  assumes "rs_inv d cr ch dl h0 r"
  shows "rs_inv d cr ch dl (h0 @ h) (rs_run d cr h r)"
  using assms
proof (induction h arbitrary: h0 r)
  case (Cons x h)
  obtain env e where x: "x = (env, e)" by (cases x)
  have "rs_inv d cr ch dl (h0 @ [(env, e)])
      (fst (rs_step d cr env e (fst r)), snd r @ snd (rs_step d cr env e (fst r)))"
    using good_step [of d cr ch dl h0 "fst r" "snd r" env e] Cons.prems by (simp add: rs_good_def)
  from Cons.IH [OF this] show ?case by (simp add: x case_prod_beta Let_def)
qed simp

lemma inv_start: "rs_inv d cr ch (now + RECONNECT_DEADLINE_MS) [] (rs_start now ch rs_new)"
  by (auto simp: rs_inv_def rs_start_def rs_new_def rs_terminate_def has_accepted_def Let_def)

lemmas inv_from_start = inv_run [OF inv_start, simplified]

text \<open>A deployment to run sessions on.\<close>

definition toy_rc :: reconnect_crypto where
  "toy_rc = \<lparr> cr_hmac = (\<lambda>k m. replicate 32 0), cr_hkdf32 = (\<lambda>k s i. k), cr_point_ok = (\<lambda>p. True),
     cr_ed25519_verify = (\<lambda>s m p. True), cr_sha256 = (\<lambda>b. b) \<rparr>"

definition toy_deps :: reconnect_deps where
  "toy_deps = \<lparr> rd_verifiedOrigin = ''o'', rd_browser = ''chrome'', rd_instanceId = ''i'', rd_safariTicketContext = None,
     rd_authorizes = True, rd_bindsSafari = True \<rparr>"

definition toy_credential :: "credential_state \<Rightarrow> stored_credential" where
  "toy_credential st = \<lparr> sc_credentialId = ''id'', sc_mutualKeyB64 = ''AA'',
     sc_principal = \<lparr> cp_browser = ''chrome'', cp_verifiedOrigin = ''o'', cp_clientInstallationId = ''c'',
       cp_safariInstallationKey = None \<rparr>,
     sc_predecessorId = None, sc_state = st, sc_identity = IdUnverified, sc_createdAt = 0, sc_committedAt = None,
     sc_authorizationEpoch = None \<rparr>"

definition toy_env :: "int \<Rightarrow> credential_state option \<Rightarrow> reconnect_env" where
  "toy_env now st = \<lparr> re_now = now, re_findForAuth = (\<lambda>i. if i = ''id'' then map_option toy_credential st else None),
     re_replay = [] \<rparr>"

definition toy_response :: reconnect_response where
  "toy_response = \<lparr> rr_safariResume = None, rr_credentialId = ''id'',
     rr_C = ''AAAAAAAAAAAAAAAAAAAAAAAAAAAAAAAAAAAAAAAAAAA'', rr_mac = ''AAAAAAAAAAAAAAAAAAAAAAAAAAAAAAAAAAAAAAAAAAA'' \<rparr>"

definition toy_open :: reconnect_result where
  "toy_open = rs_start 0 (replicate 32 0) rs_new"

definition toy_history :: reconnect_history where
  "toy_history = [(toy_env 1 (Some CredProvisional), HandleText (ResponseText toy_response) 100),
     (toy_env 2 (Some CredProvisional), Authorized True)]"

lemma toy_promotes:
  "snd (rs_run toy_deps toy_rc toy_history toy_open) =
     [SendText (ReconnectChallenge 1 ''AAAAAAAAAAAAAAAAAAAAAAAAAAAAAAAAAAAAAAAAAAA''),
      AuthorizeCredential (toy_credential CredProvisional), PromoteOnReconnect ''id'']"
  by code_simp

lemma toy_accepts:
  "snd (rs_step toy_deps toy_rc (toy_env 3 (Some CredCommitted)) (Promoted True) (fst (rs_run toy_deps toy_rc toy_history toy_open))) =
     [SendText (ReconnectAccept ''AAAAAAAAAAAAAAAAAAAAAAAAAAAAAAAAAAAAAAAAAAA''),
      OnAuthenticated (ep_new [0] DIR_S2C 0 0) (ep_new [0] DIR_C2S 0 0) (toy_credential CredCommitted)]"
  by code_simp

text \<open>
  \<open>dispose\<close> is documented to end the session without writing to the socket. When the account check that
  is in flight at that moment rejects, the handler still sends its \<open>authFailed\<close> frame.
\<close>

lemma disposed_session_still_writes:
  "snd (rs_run toy_deps toy_rc
      [(toy_env 1 (Some CredCommitted), HandleText (ResponseText toy_response) 100),
       (toy_env 2 (Some CredCommitted), Dispose),
       (toy_env 3 (Some CredCommitted), Authorized False)] toy_open) =
     [SendText (ReconnectChallenge 1 ''AAAAAAAAAAAAAAAAAAAAAAAAAAAAAAAAAAAAAAAAAAA''),
      AuthorizeCredential (toy_credential CredCommitted), SendText (PairErrorFrame PE_authFailed)]"
  by code_simp

section \<open>Properties\<close>

lemma accept_sound:
  assumes "OnAuthenticated a b cred \<in> set (snd (rs_step d cr env e (fst (rs_run d cr h (rs_start t0 ch rs_new)))))"
  shows "re_now env < t0 + RECONNECT_DEADLINE_MS \<and>
     admitted_credential d cr ch (t0 + RECONNECT_DEADLINE_MS) (h @ [(env, e)])
       (snd (rs_run d cr h (rs_start t0 ch rs_new))) cred"
  using good_step [of d cr ch "t0 + RECONNECT_DEADLINE_MS" h "fst (rs_run d cr h (rs_start t0 ch rs_new))"
      "snd (rs_run d cr h (rs_start t0 ch rs_new))" env e] assms inv_from_start [of d cr ch t0 h]
  by (auto simp: rs_good_def)

text \<open>
  C3: authentication. Whatever frames, outcomes and ends a session sees, it hands over a channel only before its
  ten seconds are over, and only for a credential whose key some earlier response, itself in time, has proved:
  the response is well-formed, its MAC is that of the stored key over this session's challenge and the live
  connection, and it names a credential of the live principal or carries a Safari signature. When that
  credential was only provisional, the store had been asked to promote it and had reported the promotion done.
\<close>
theorem reconnect_authentication:
  assumes "OnAuthenticated a b cred \<in> set (snd (rs_step d cr env e (fst (rs_run d cr h (rs_start t0 ch rs_new)))))"
  shows "re_now env < t0 + 10000 \<and>
    (\<exists>env0 n r c0. (env0, HandleText (ResponseText r) n) \<in> set (h @ [(env, e)]) \<and> re_now env0 < t0 + 10000 \<and>
       re_findForAuth env0 (rr_credentialId r) = Some c0 \<and> proves_credential d cr ch r c0 \<and>
       sc_mutualKeyB64 cred = sc_mutualKeyB64 c0 \<and>
       (sc_state c0 = CredProvisional \<longrightarrow>
          PromoteOnReconnect (sc_credentialId c0) \<in> set (snd (rs_run d cr h (rs_start t0 ch rs_new))) \<and>
          (\<exists>env1. (env1, Promoted True) \<in> set (h @ [(env, e)]))))"
  using accept_sound [OF assms] unfolding admitted_credential_def vouched_def RECONNECT_DEADLINE_MS_def by blast

theorem reconnect_authentication_witness:
  "\<exists>env0 n r c0. (env0, HandleText (ResponseText r) n) \<in>
         set (toy_history @ [(toy_env 3 (Some CredCommitted), Promoted True)]) \<and> re_now env0 < 0 + 10000 \<and>
       re_findForAuth env0 (rr_credentialId r) = Some c0 \<and>
       proves_credential toy_deps toy_rc (replicate 32 0) r c0 \<and>
       sc_mutualKeyB64 (toy_credential CredCommitted) = sc_mutualKeyB64 c0"
proof -
  have "OnAuthenticated (ep_new [0] DIR_S2C 0 0) (ep_new [0] DIR_C2S 0 0) (toy_credential CredCommitted) \<in>
      set (snd (rs_step toy_deps toy_rc (toy_env 3 (Some CredCommitted)) (Promoted True)
        (fst (rs_run toy_deps toy_rc toy_history (rs_start 0 (replicate 32 0) rs_new)))))"
    using toy_accepts unfolding toy_open_def by simp
  from reconnect_authentication [OF this] show ?thesis by blast
qed

text \<open>
  an accept is the last word: once the channel is handed over, no frame, outcome or end makes the session send,
  close or call anything, so there is at most one accept.
\<close>
theorem reconnect_accept_is_final:
  assumes "OnAuthenticated a b cred \<in> set (snd (rs_run d cr h (rs_start t0 ch rs_new)))"
  shows "snd (rs_step d cr env e (fst (rs_run d cr h (rs_start t0 ch rs_new)))) = []"
proof -
  have "has_accepted (snd (rs_run d cr h (rs_start t0 ch rs_new)))" using assms by (auto simp: has_accepted_def)
  then have "rs_pending (fst (rs_run d cr h (rs_start t0 ch rs_new))) = None \<and>
      rs_state (fst (rs_run d cr h (rs_start t0 ch rs_new))) \<in> {RS_authenticated, RS_closed}"
    using inv_from_start [of d cr ch t0 h] by (simp add: rs_inv_def)
  then show ?thesis by (cases e) (auto simp: rs_step_def rs_handleText_def)
qed

theorem reconnect_accept_is_final_witness:
  "snd (rs_step toy_deps toy_rc (toy_env 5 None) (HandleText NotJson 3)
     (fst (rs_run toy_deps toy_rc (toy_history @ [(toy_env 3 (Some CredCommitted), Promoted True)])
       (rs_start 0 (replicate 32 0) rs_new)))) = []"
  by (rule reconnect_accept_is_final
        [where a = "ep_new [0] DIR_S2C 0 0" and b = "ep_new [0] DIR_C2S 0 0" and cred = "toy_credential CredCommitted"])
    code_simp

text \<open>
  no oracle for credential ids: to a well-formed response in time whose MAC does not verify under the key of the
  credential it names, the session answers in exactly the way it answers when no such credential exists, and ends
  in the same state.
\<close>
theorem reconnect_failure_uniform:
  assumes "rs_challengeS s = Some ch" and "reconnectResponseFrameSchema r" and "rr_safariResume r = None"
    and "re_findForAuth env (rr_credentialId r) = Some cred"
    and "\<And>rt key. rt_and_key d cr r (Some cred) = Some (rt, key) \<Longrightarrow>
          reconnectMacClient cr key ch (b64_bytes (rr_C r)) rt \<noteq> b64_bytes (rr_mac r)"
  shows "rs_step d cr env (HandleText (ResponseText r) n) s =
     rs_step d cr (env \<lparr> re_findForAuth := (\<lambda>_. None) \<rparr>) (HandleText (ResponseText r) n) s"
proof -
  have "snd (principalMatches d cr env ch c rt m None cred) = []" for c rt m
    by (simp add: principalMatches_def)
  then have "onReconnectResponse d cr env (Some r) s = onReconnectResponse d cr (env \<lparr> re_findForAuth := (\<lambda>_. None) \<rparr>) (Some r) s"
    using assms
    by (auto simp: onReconnectResponse_def Let_def case_prod_beta verifyClientMac_def split: option.split reconnect_state.split)
  then show ?thesis by (simp add: rs_step_def rs_handleText_def)
qed

theorem reconnect_failure_uniform_witness:
  "rs_step toy_deps toy_rc (toy_env 1 (Some CredCommitted))
       (HandleText (ResponseText (toy_response \<lparr> rr_mac := ''BAAAAAAAAAAAAAAAAAAAAAAAAAAAAAAAAAAAAAAAAAA'' \<rparr>)) 100) (fst toy_open) =
     rs_step toy_deps toy_rc (toy_env 1 (Some CredCommitted) \<lparr> re_findForAuth := (\<lambda>_. None) \<rparr>)
       (HandleText (ResponseText (toy_response \<lparr> rr_mac := ''BAAAAAAAAAAAAAAAAAAAAAAAAAAAAAAAAAAAAAAAAAA'' \<rparr>)) 100) (fst toy_open)"
proof (rule reconnect_failure_uniform [where ch = "replicate 32 0" and cred = "toy_credential CredCommitted"])
  show "rs_challengeS (fst toy_open) = Some (replicate 32 0)" by code_simp
  show "reconnectResponseFrameSchema (toy_response \<lparr> rr_mac := ''BAAAAAAAAAAAAAAAAAAAAAAAAAAAAAAAAAAAAAAAAAA'' \<rparr>)"
    by code_simp
next
  fix rt key
  have "b64_bytes ''BAAAAAAAAAAAAAAAAAAAAAAAAAAAAAAAAAAAAAAAAAA'' \<noteq> replicate 32 0" by code_simp
  then show "reconnectMacClient toy_rc key (replicate 32 0)
      (b64_bytes (rr_C (toy_response \<lparr> rr_mac := ''BAAAAAAAAAAAAAAAAAAAAAAAAAAAAAAAAAAAAAAAAAA'' \<rparr>))) rt \<noteq>
      b64_bytes (rr_mac (toy_response \<lparr> rr_mac := ''BAAAAAAAAAAAAAAAAAAAAAAAAAAAAAAAAAAAAAAAAAA'' \<rparr>))"
    by (simp add: reconnectMacClient_def toy_rc_def)
qed (simp_all add: toy_response_def toy_env_def)

end
