(* ===== verification/Credential_Life.thy ===== *)
theory Credential_Life
  imports Credential_Store
begin

text \<open>
  What the credential store promises over its life: the invariant of its lists through operations, failing
  writes, crashes and reloads, and the properties that follow from it.
\<close>

section \<open>What a good list of credentials is\<close>

definition transport_of :: "url_parser \<Rightarrow> stored_credential \<Rightarrow> transport_identity option" where
  "transport_of u c = transportIdentityForPrincipal u (sc_principal c)"

definition fits :: "url_parser \<Rightarrow> stored_credential \<Rightarrow> bool" where
  "fits u c \<longleftrightarrow> StoredCredentialSchema False c \<and> validCredentialState c \<and> transport_of u c \<noteq> None"

definition compatible :: "url_parser \<Rightarrow> stored_credential \<Rightarrow> stored_credential \<Rightarrow> bool" where
  "compatible u c c' \<longleftrightarrow>
     (transport_of u c = transport_of u c' \<longrightarrow> sc_authorizationEpoch c = sc_authorizationEpoch c') \<and>
     (principalKey (sc_principal c) = principalKey (sc_principal c') \<and> sc_state c = sc_state c' \<longrightarrow>
        sc_credentialId c = sc_credentialId c')"

definition ks_ok :: "url_parser \<Rightarrow> stored_credential list \<Rightarrow> bool" where
  "ks_ok u cs \<longleftrightarrow>
     length cs \<le> MAX_STORED_CREDENTIALS \<and> distinct (map sc_credentialId cs) \<and>
     (\<forall>c \<in> set cs. fits u c) \<and> (\<forall>c \<in> set cs. \<forall>c' \<in> set cs. compatible u c c')"

lemma ks_okD:
  assumes "ks_ok u cs"
  shows "length cs \<le> MAX_STORED_CREDENTIALS" "distinct (map sc_credentialId cs)"
    "c \<in> set cs \<Longrightarrow> fits u c" "c \<in> set cs \<Longrightarrow> c' \<in> set cs \<Longrightarrow> compatible u c c'"
  using assms by (auto simp: ks_ok_def)

lemma ks_ok_Nil: "ks_ok u []"
  by (simp add: ks_ok_def)

lemma ks_ok_perm: "ks_ok u cs \<Longrightarrow> mset cs' = mset cs \<Longrightarrow> ks_ok u cs'"
proof -
  assume ok: "ks_ok u cs" and m: "mset cs' = mset cs"
  have "length cs' = length cs" "set cs' = set cs" using m by (auto dest: mset_eq_length mset_eq_setD)
  moreover have "mset (map sc_credentialId cs') = mset (map sc_credentialId cs)" using m by simp
  then have "distinct (map sc_credentialId cs') \<longleftrightarrow> distinct (map sc_credentialId cs)" by (rule mset_eq_imp_distinct_iff)
  ultimately show ?thesis using ok by (simp add: ks_ok_def)
qed

lemma ks_ok_filter: "ks_ok u cs \<Longrightarrow> ks_ok u (filter P cs)"
  unfolding ks_ok_def using order_trans [OF length_filter_le] by (auto simp: distinct_map_filter)

lemma compatible_sym: "compatible u c c' \<Longrightarrow> compatible u c' c"
  by (auto simp: compatible_def)

lemma ks_ok_snoc:
  assumes "ks_ok u cs" and "length cs < MAX_STORED_CREDENTIALS" and "fits u c"
    and "\<And>c'. c' \<in> set cs \<Longrightarrow> sc_credentialId c' \<noteq> sc_credentialId c \<and> compatible u c c'"
  shows "ks_ok u (cs @ [c])"
proof -
  have "compatible u c c" by (simp add: compatible_def)
  moreover have "\<forall>c' \<in> set cs. compatible u c c' \<and> compatible u c' c" using assms(4) compatible_sym by blast
  moreover have "sc_credentialId c \<notin> sc_credentialId ` set cs" using assms(4) by force
  ultimately show ?thesis using assms(1-3) by (simp add: ks_ok_def)
qed

lemma ks_ok_id: "ks_ok u cs \<Longrightarrow> c \<in> set cs \<Longrightarrow> find_id (sc_credentialId c) cs = Some c"
  by (induction cs) (auto simp: ks_ok_def find_id_def)

lemma find_id_SomeD: "find_id i cs = Some c \<Longrightarrow> c \<in> set cs \<and> sc_credentialId c = i"
  by (auto simp: find_id_def find_Some_iff)

lemma ks_ok_unique:
  "ks_ok u cs \<Longrightarrow> c \<in> set cs \<Longrightarrow> c' \<in> set cs \<Longrightarrow> sc_credentialId c = sc_credentialId c' \<Longrightarrow> c = c'"
  by (metis ks_ok_id option.inject)

lemma ks_ok_key_unique:
  "ks_ok u cs \<Longrightarrow> c \<in> set cs \<Longrightarrow> c' \<in> set cs \<Longrightarrow> sc_state c = sc_state c' \<Longrightarrow>
   principalKey (sc_principal c) = principalKey (sc_principal c') \<Longrightarrow> c = c'"
  using ks_ok_unique ks_okD(4) by (metis compatible_def)

lemma fits_epoch: "fits u c \<Longrightarrow> sc_authorizationEpoch c \<noteq> None"
  by (auto simp: fits_def StoredCredentialSchema_def split: option.splits)

lemma ks_ok_writable: "ks_ok u cs \<Longrightarrow> writable cs"
  using fits_epoch [of u] unfolding ks_ok_def writable_def list_all_iff by (metis fits_def)

section \<open>Every operation keeps the list good\<close>

lemma transport_cong:
  "cp_browser p = cp_browser q \<Longrightarrow> cp_verifiedOrigin p = cp_verifiedOrigin q \<Longrightarrow>
   transportIdentityForPrincipal u p = transportIdentityForPrincipal u q"
  by (simp add: transportIdentityForPrincipal_def cong: option.case_cong)

text \<open>A promotion that the checks have let through.\<close>

lemma ks_ok_promote:
  assumes ok: "ks_ok u cs" and t: "target \<in> set cs" "sc_state target = CredProvisional"
    and now: "safe_natural now" "sc_createdAt target \<le> now"
  shows "ks_ok u (applyPromote cs target now)"
proof -
  let ?key = "principalKey (sc_principal target)" and ?rest = "filter (\<lambda>c. \<not> has_key (principalKey (sc_principal target)) c) cs"
  let ?new = "target \<lparr> sc_state := CredCommitted, sc_committedAt := Some now, sc_predecessorId := None \<rparr>"
  have fits: "fits u target" using ks_okD(3) [OF ok t(1)] .
  then have c: "sc_committedAt target = None" using t(2) by (simp add: fits_def validCredentialState_def)
  have len: "length ?rest < length cs"
    using t(1) by (intro length_filter_less [of target]) (auto simp: has_key_def)
  have "fits u ?new"
    using fits now by (simp add: fits_def StoredCredentialSchema_def validCredentialState_def transport_of_def)
  moreover have "sc_credentialId c' \<noteq> sc_credentialId ?new \<and> compatible u ?new c'" if "c' \<in> set ?rest" for c'
  proof -
    have c': "c' \<in> set cs" "\<not> has_key ?key c'" using that by auto
    have "sc_credentialId c' \<noteq> sc_credentialId target" using ks_ok_unique [OF ok c'(1) t(1)] c'(2) by (auto simp: has_key_def)
    moreover have "compatible u target c'" using ks_okD(4) [OF ok t(1) c'(1)] .
    ultimately show ?thesis using c'(2) by (simp add: compatible_def transport_of_def has_key_def)
  qed
  ultimately have "ks_ok u (?rest @ [?new])"
    using len ks_okD(1) [OF ok] by (intro ks_ok_snoc ks_ok_filter ok) auto
  then show ?thesis by (simp add: applyPromote_def c)
qed

text \<open>Replacing one credential by a version of itself with another safari key.\<close>

lemma ks_ok_replace:
  assumes ok: "ks_ok u cs" and cur: "current \<in> set cs"
    and p: "CredentialPrincipalSchema p'" "principalKey p' = principalKey (sc_principal current)"
  shows "ks_ok u (map (\<lambda>c. if c = current then c \<lparr> sc_principal := p' \<rparr> else c) cs)"
proof -
  let ?f = "\<lambda>c. if c = current then c \<lparr> sc_principal := p' \<rparr> else c"
  have same: "transport_of u (?f c) = transport_of u c" "principalKey (sc_principal (?f c)) = principalKey (sc_principal c)"
      "sc_credentialId (?f c) = sc_credentialId c" "sc_state (?f c) = sc_state c"
      "sc_authorizationEpoch (?f c) = sc_authorizationEpoch c" for c
    using p(2) transport_cong [of p' "sc_principal current" u] by (auto simp: transport_of_def principalKey_def)
  have "fits u (?f c)" if "c \<in> set cs" for c
    using ks_okD(3) [OF ok that] p(1) same(1) [of c]
    by (auto simp: fits_def StoredCredentialSchema_def validCredentialState_def split: if_splits option.splits)
  moreover have "compatible u (?f c) (?f c')" if "c \<in> set cs" "c' \<in> set cs" for c c'
    using ks_okD(4) [OF ok that] unfolding compatible_def same .
  moreover have "map sc_credentialId (map ?f cs) = map sc_credentialId cs" by simp
  ultimately show ?thesis using ok unfolding ks_ok_def by (metis (no_types, lifting) imageE length_map list.set_map)
qed

section \<open>Loading a good document\<close>

lemma newest_keep:
  "\<forall>(i, c) \<in> set ics. sc_state c = CredCommitted \<longrightarrow> principalKey (sc_principal c) \<noteq> k \<Longrightarrow>
   map_of (newest_loop ics m) k = map_of m k"
  by (induction ics m rule: newest_loop.induct) (auto simp: Let_def split: option.splits)

lemma newest_hit:
  assumes "(i, c) \<in> set ics" and "sc_state c = CredCommitted" and "distinct ics"
    and "\<forall>(j, d) \<in> set ics. sc_state d = CredCommitted \<and> principalKey (sc_principal d) = principalKey (sc_principal c) \<longrightarrow> (j, d) = (i, c)"
    and "map_of m (principalKey (sc_principal c)) = None"
  shows "map_of (newest_loop ics m) (principalKey (sc_principal c)) = Some (i, c)"
  using assms
proof (induction ics m rule: newest_loop.induct)
  case (2 j d cs newest)
  let ?k = "principalKey (sc_principal c)"
  show ?case
  proof (cases "(j, d) = (i, c)")
    case True
    have "\<forall>(i', c') \<in> set cs. sc_state c' = CredCommitted \<longrightarrow> principalKey (sc_principal c') \<noteq> ?k"
      using 2 True by auto
    then show ?thesis using True 2 newest_keep [of cs ?k] by (simp add: Let_def)
  next
    case False
    then have d: "sc_state d = CredCommitted \<Longrightarrow> principalKey (sc_principal d) \<noteq> ?k" and c: "(i, c) \<in> set cs" using 2 by auto
    show ?thesis
    proof (cases "sc_state d = CredCommitted")
      case True
      then show ?thesis using 2 d c by (auto simp: Let_def split: option.split)
    next
      case False
      then show ?thesis using 2 c by (simp add: Let_def)
    qed
  qed
qed simp

lemma map_snd_filter_enumerate:
  "(\<And>i c. (i, c) \<in> set (enumerate n cs) \<Longrightarrow> P (i, c) \<longleftrightarrow> Q c) \<Longrightarrow> map snd (filter P (enumerate n cs)) = filter Q cs"
  by (induction cs arbitrary: n) auto

lemma converged_ok:
  assumes "ks_ok u cs"
  shows "converged_list cs now = filter (\<lambda>c. \<not> isExpiredAt c now) cs"
proof -
  have hit: "map_of (newest_loop (enumerate 0 cs) []) (principalKey (sc_principal c)) = Some (i, c)"
    if ic: "(i, c) \<in> set (enumerate 0 cs)" "sc_state c = CredCommitted" for i c
  proof (rule newest_hit [OF ic])
    have c: "c \<in> set cs" "i < length cs" "c = cs ! i" using ic(1) by (auto simp: in_set_enumerate_eq)
    have ix: "a = b" if "a < length cs" "b < length cs" "cs ! a = cs ! b" for a b
      using that assms by (metis distinct_map ks_okD(2) nth_eq_iff_index_eq)
    show "\<forall>(j, d) \<in> set (enumerate 0 cs). sc_state d = CredCommitted \<and>
        principalKey (sc_principal d) = principalKey (sc_principal c) \<longrightarrow> (j, d) = (i, c)"
      using ks_ok_key_unique [OF assms c(1)] c ic(2) ix by (fastforce simp: in_set_enumerate_eq)
  qed simp_all
  show ?thesis unfolding converged_list_def Let_def
    by (rule map_snd_filter_enumerate) (use hit in \<open>auto simp: isExpiredAt_def\<close>)
qed

text \<open>Grouping permutes.\<close>

lemma mset_group_add:
  "jwf m \<Longrightarrow> mset (concat (map snd (jset m k (jget_or [] m k @ [c])))) = add_mset c (mset (concat (map snd m)))"
proof (induction m)
  case (Cons x m)
  obtain k' v where x: "x = (k', v)" by (cases x)
  show ?case
  proof (cases "k' = k")
    case True
    then show ?thesis by (simp add: x jget_or_def)
  next
    case False
    have "jget_or [] (x # m) k = jget_or [] m k" using False by (simp add: x jget_or_def)
    then show ?thesis using Cons False by (simp add: x jwf_def)
  qed
qed (simp add: jget_or_def)

definition groups_ok :: "url_parser \<Rightarrow> (transport_identity, stored_credential list) jmap \<Rightarrow> bool" where
  "groups_ok u m \<longleftrightarrow> jwf m \<and> (\<forall>(k, g) \<in> set m. g \<noteq> [] \<and> (\<forall>c \<in> set g. transport_of u c = Some k))"

lemma groups_ok_add:
  assumes "groups_ok u m" and "transport_of u c = Some k"
  shows "groups_ok u (jset m k (jget_or [] m k @ [c]))"
proof -
  have "\<forall>d \<in> set (jget_or [] m k). transport_of u d = Some k"
    using assms(1) by (cases "map_of m k") (auto simp: groups_ok_def jget_or_def dest!: map_of_SomeD)
  then show ?thesis using assms set_jset_subset [of m k "jget_or [] m k @ [c]"]
    by (fastforce simp: groups_ok_def)
qed

lemma group_loop_ok:
  "groups_ok u m \<Longrightarrow> (\<forall>c \<in> set cs. transport_of u c \<noteq> None) \<Longrightarrow>
   \<exists>m'. group_loop u cs m = Some m' \<and> groups_ok u m' \<and> mset (concat (map snd m')) = mset cs + mset (concat (map snd m))"
proof (induction u cs m rule: group_loop.induct)
  case (2 u c cs m)
  then obtain k where k: "transportIdentityForPrincipal u (sc_principal c) = Some k" by (auto simp: transport_of_def)
  have j: "jwf m" using 2 by (simp add: groups_ok_def)
  show ?case using 2(1) [OF k groups_ok_add [OF 2(2)]] 2(3) k by (auto simp: transport_of_def mset_group_add [OF j])
qed simp

lemma sadds_same: "set xs \<subseteq> {e} \<Longrightarrow> sadds [e] xs = [e]"
  by (induction xs) (auto simp: sadd_def)

lemma map_filter_same: "\<forall>c \<in> set g. sc_authorizationEpoch c = Some e \<Longrightarrow> set (List.map_filter sc_authorizationEpoch g) \<subseteq> {e}"
  by (induction g) (auto simp: List.map_filter_simps)

lemma epochs_of_same: "g \<noteq> [] \<Longrightarrow> \<forall>c \<in> set g. sc_authorizationEpoch c = Some e \<Longrightarrow> epochs_of g = [e]"
  using map_filter_same [of "tl g" e] by (cases g) (auto simp: epochs_of_def sadd_def List.map_filter_simps intro!: sadds_same)

lemma migrate_ok:
  "\<forall>g \<in> set gs. g \<noteq> [] \<and> (\<exists>e. \<forall>c \<in> set g. sc_authorizationEpoch c = Some e) \<Longrightarrow> migrate_loop fresh n gs = Inr (concat gs)"
proof (induction fresh n gs rule: migrate_loop.induct)
  case (2 fresh n g gs)
  then obtain e where e: "g \<noteq> []" "\<forall>c \<in> set g. sc_authorizationEpoch c = Some e" by auto
  have "map (\<lambda>c. c \<lparr> sc_authorizationEpoch := Some e \<rparr>) g = g"
    using e(2) by (intro map_idI) (metis stored_credential.surjective stored_credential.update_convs(9))
  then show ?case using 2 epochs_of_same [OF e] by simp
qed simp

text \<open>A good document loads, and loses nothing but expired offers.\<close>

lemma reconcile_ok:
  assumes ok: "ks_ok u cs"
  shows "\<exists>cs'. reconcile u fresh \<lparr> cd_legacy = False, cd_credentials = cs, cd_pendingPromote = None \<rparr> now =
       Inr (cs', \<exists>c \<in> set cs. isExpiredAt c now) \<and> mset cs' = mset (filter (\<lambda>c. \<not> isExpiredAt c now) cs)"
proof -
  let ?live = "filter (\<lambda>c. \<not> isExpiredAt c now) cs"
  have live: "ks_ok u ?live" using ok by (rule ks_ok_filter)
  have "\<forall>c \<in> set ?live. transport_of u c \<noteq> None" using ks_okD(3) [OF live] by (auto simp: fits_def)
  then obtain m where m: "group_loop u ?live [] = Some m" "groups_ok u m" "mset (concat (map snd m)) = mset ?live"
    using group_loop_ok [of u "[]" ?live] by (auto simp: groups_ok_def)
  have "g \<noteq> [] \<and> (\<exists>e. \<forall>c \<in> set g. sc_authorizationEpoch c = Some e)" if "g \<in> set (map snd m)" for g
  proof -
    obtain k where g: "(k, g) \<in> set m" "g \<noteq> []" "\<forall>c \<in> set g. transport_of u c = Some k"
    proof -
      obtain k where k: "(k, g) \<in> set m" using \<open>g \<in> set (map snd m)\<close> by auto
      then have "case (k, g) of (k, g) \<Rightarrow> g \<noteq> [] \<and> (\<forall>c \<in> set g. transport_of u c = Some k)"
        using m(2) unfolding groups_ok_def by blast
      with k show thesis by (intro that) auto
    qed
    have "set g \<subseteq> set (concat (map snd m))" using g(1) by (simp only: set_concat set_map) force
    then have sub: "set g \<subseteq> set ?live" using mset_eq_setD [OF m(3)] by simp
    have "hd g \<in> set g" using g(2) by simp
    moreover from this have "sc_authorizationEpoch (hd g) \<noteq> None" using sub ks_okD(3) [OF live, of "hd g"] fits_epoch by blast
    ultimately obtain c0 e where c0: "c0 \<in> set g" "sc_authorizationEpoch c0 = Some e" by blast
    have "sc_authorizationEpoch c = Some e" if "c \<in> set g" for c
      using ks_okD(4) [OF live, of c c0] that c0 sub g(3) by (auto simp: compatible_def)
    then show ?thesis using g(2) by blast
  qed
  then have mig: "migrate_loop fresh 0 (map snd m) = Inr (concat (map snd m))" by (intro migrate_ok) auto
  have "length ?live \<noteq> length cs \<longleftrightarrow> (\<exists>c \<in> set cs. isExpiredAt c now)"
    by (metis (no_types, lifting) filter_True length_filter_less less_irrefl_nat)
  then show ?thesis using m(1,3) mig by (auto simp: reconcile_def converged_ok [OF ok] Let_def)
qed

section \<open>What a step does to the list\<close>

definition retained_for :: "principal_key \<Rightarrow> stored_credential list \<Rightarrow> stored_credential list" where
  "retained_for key cs = filter (\<lambda>c. sc_state c \<noteq> CredProvisional \<or> \<not> has_key key c) cs"

definition not_revoked :: "string \<Rightarrow> stored_credential \<Rightarrow> bool" where
  "not_revoked i c \<longleftrightarrow> sc_credentialId c \<noteq> i \<and> \<not> (sc_state c = CredProvisional \<and> sc_predecessorId c = Some i)"

text \<open>The lists a step may try to write, with what its checks have established.\<close>

inductive list_change :: "url_parser \<Rightarrow> store_event \<Rightarrow> stored_credential list \<Rightarrow> stored_credential list \<Rightarrow> bool" for u where
  offer: "CredentialPrincipalSchema p \<Longrightarrow> transportIdentityForPrincipal u p \<noteq> None \<Longrightarrow> safe_natural now \<Longrightarrow>
    length (retained_for (principalKey p) cs) < MAX_STORED_CREDENTIALS \<Longrightarrow> authorizationEpochForPrincipal u p cs = Inr epoch \<Longrightarrow>
    list_change u (KsOffer p idn now seed cb out) cs
      (retained_for (principalKey p) cs @ [fresh_credential p idn (committedIdFor (principalKey p) cs) seed epoch now])"
| bind: "current \<in> set cs \<Longrightarrow> CredentialPrincipalSchema p' \<Longrightarrow> principalKey p' = principalKey (sc_principal current) \<Longrightarrow>
    list_change u (KsBind expected k clock out) cs (map (\<lambda>c. if c = current then c \<lparr> sc_principal := p' \<rparr> else c) cs)"
| promote: "find_id i cs = Some target \<Longrightarrow> sc_state target = CredProvisional \<Longrightarrow> safe_natural now \<Longrightarrow> sc_createdAt target \<le> now \<Longrightarrow>
    committedIdFor (principalKey (sc_principal target)) cs = sc_predecessorId target \<Longrightarrow>
    e = KsPromote i now out \<or> e = KsCommit i cb now out \<Longrightarrow> list_change u e cs (applyPromote cs target now)"
| revoke: "list_change u (KsRevoke i out) cs (filter (not_revoked i) cs)"
| revoke_identity: "normalizeTransportIdentity u b i = Some t \<Longrightarrow>
    list_change u (KsRevokeIdentity b i out) cs (filter (\<lambda>c. \<not> principalMatchesExtensionIdentity u (sc_principal c) (fst t) (snd t)) cs)"
| sweep: "list_change u (KsSweep now out) cs (filter (\<lambda>c. \<not> isExpiredAt c now) cs)"

lemma snd_after_persist [simp]: "snd (after_persist v r) = snd r"
  by (simp add: after_persist_def split: prod.split sum.split)

lemma snd_persist_filtered:
  "snd (persist_filtered P out cs s) = s \<or> snd (persist_filtered P out cs s) = snd (persist out (filter P cs) s)"
  by (simp add: persist_filtered_def Let_def)

lemma promoteDurably_shape:
  "snd (promoteDurably i clock out cs s) = s \<or>
   (\<exists>target. find_id i cs = Some target \<and> sc_state target = CredProvisional \<and> safe_natural clock \<and> sc_createdAt target \<le> clock \<and>
      committedIdFor (principalKey (sc_principal target)) cs = sc_predecessorId target \<and>
      snd (promoteDurably i clock out cs s) = snd (persist out (applyPromote cs target clock) s))"
  by (auto simp: promoteDurably_def readClock_def split: option.split)

lemma offer_shape:
  "snd (offerProvisional u p idn clock seed cb out cs s) = s \<or>
   (\<exists>epoch. CredentialPrincipalSchema p \<and> transportIdentityForPrincipal u p \<noteq> None \<and> safe_natural clock \<and>
      length (retained_for (principalKey p) cs) < MAX_STORED_CREDENTIALS \<and> authorizationEpochForPrincipal u p cs = Inr epoch \<and>
      snd (offerProvisional u p idn clock seed cb out cs s) =
        snd (persist out (retained_for (principalKey p) cs @
          [fresh_credential p idn (committedIdFor (principalKey p) cs) seed epoch clock]) s))"
proof (cases "CredentialPrincipalSchema p \<and> transportIdentityForPrincipal u p \<noteq> None \<and> safe_natural clock")
  case False
  then show ?thesis by (auto simp: offerProvisional_def parseCredentialPrincipal_def readClock_def)
next
  case True
  then show ?thesis
    by (cases "offer_slot (principalKey p) (committedIdFor (principalKey p) cs) clock cs"; cases "authorizationEpochForPrincipal u p cs")
      (simp_all add: offerProvisional_def parseCredentialPrincipal_def readClock_def Let_def retained_for_def)
qed

lemma bind_shape:
  "snd (bindSafariInstallation u expected k clock out cs s) = s \<or>
   (\<exists>current p'. current \<in> set cs \<and> CredentialPrincipalSchema p' \<and> principalKey p' = principalKey (sc_principal current) \<and>
      snd (bindSafariInstallation u expected k clock out cs s) =
        snd (persist out (map (\<lambda>c. if c = current then c \<lparr> sc_principal := p' \<rparr> else c) cs) s))"
proof (cases "find_id (sc_credentialId expected) cs")
  case None
  then show ?thesis by (simp add: bindSafariInstallation_def)
next
  case (Some current)
  let ?p' = "sc_principal current \<lparr> cp_safariInstallationKey := Some k \<rparr>"
  have "current \<in> set cs" "principalKey ?p' = principalKey (sc_principal current)"
    using find_id_SomeD [OF Some] by (auto simp: principalKey_def)
  moreover have "snd (bindSafariInstallation u expected k clock out cs s) = s \<or> CredentialPrincipalSchema ?p' \<and>
      snd (bindSafariInstallation u expected k clock out cs s) =
        snd (persist out (map (\<lambda>c. if c = current then c \<lparr> sc_principal := ?p' \<rparr> else c) cs) s)"
    by (simp add: bindSafariInstallation_def Some Let_def readClock_def parseCredentialPrincipal_def)
  ultimately show ?thesis by blast
qed

lemma promoted_apply:
  assumes "s' = s \<or> s' = snd (promoteDurably i clock out cs s)" and "e = KsPromote i clock out \<or> e = KsCommit i cb clock out"
  obtains (unchanged) "s' = s" | (written) nxt where "s' = snd (persist out nxt s)" "list_change u e cs nxt"
  using promoteDurably_shape [of i clock out cs s]
proof (elim disjE exE conjE)
  fix target
  assume w: "find_id i cs = Some target" "sc_state target = CredProvisional" "safe_natural clock" "sc_createdAt target \<le> clock"
      "committedIdFor (principalKey (sc_principal target)) cs = sc_predecessorId target"
    and eq: "snd (promoteDurably i clock out cs s) = snd (persist out (applyPromote cs target clock) s)"
  show thesis using assms(1) unchanged written list_change.promote [OF w assms(2)] eq by auto
qed (use assms(1) unchanged in auto)

lemma apply_cases:
  assumes "ks_memory s = Some cs" and "e \<noteq> KsCrash" and "\<And>f t w. e \<noteq> KsLoad f t w"
  obtains (unchanged) "ks_apply u e s = s"
  | (written) out nxt where "ks_apply u e s = snd (persist out nxt s)" "list_change u e cs nxt"
proof (cases e)
  case (KsOffer p idn clock seed cb out)
  then have app: "ks_apply u e s = snd (offerProvisional u p idn clock seed cb out cs s)" using assms(1) by simp
  from offer_shape [of u p idn clock seed cb out cs s] show thesis
  proof (elim disjE exE conjE)
    fix epoch
    assume w: "CredentialPrincipalSchema p" "transportIdentityForPrincipal u p \<noteq> None" "safe_natural clock"
      "length (retained_for (principalKey p) cs) < MAX_STORED_CREDENTIALS" "authorizationEpochForPrincipal u p cs = Inr epoch"
      and eq: "snd (offerProvisional u p idn clock seed cb out cs s) =
        snd (persist out (retained_for (principalKey p) cs @
          [fresh_credential p idn (committedIdFor (principalKey p) cs) seed epoch clock]) s)"
    show thesis using list_change.offer [OF w, of idn seed cb out] by (intro written [OF app [unfolded eq]]) (simp add: KsOffer)
  qed (use app unchanged in simp)
next
  case (KsBind expected k clock out)
  then have app: "ks_apply u e s = snd (bindSafariInstallation u expected k clock out cs s)" using assms(1) by simp
  from bind_shape [of u expected k clock out cs s] show thesis
  proof (elim disjE exE conjE)
    fix current p'
    assume w: "current \<in> set cs" "CredentialPrincipalSchema p'" "principalKey p' = principalKey (sc_principal current)"
      and eq: "snd (bindSafariInstallation u expected k clock out cs s) =
        snd (persist out (map (\<lambda>c. if c = current then c \<lparr> sc_principal := p' \<rparr> else c) cs) s)"
    show thesis using list_change.bind [OF w] by (intro written [OF app [unfolded eq]]) (simp add: KsBind)
  qed (use app unchanged in simp)
next
  case (KsPromote i clock out)
  then have app: "ks_apply u e s = s \<or> ks_apply u e s = snd (promoteDurably i clock out cs s)"
    using assms(1) by (simp add: promoteOnReconnect_def)
  show thesis by (rule promoted_apply [OF app, where e = e and u = u and cb = NoCallback]) (use KsPromote unchanged written in auto)
next
  case (KsCommit i cb clock out)
  then have app: "ks_apply u e s = s \<or> ks_apply u e s = snd (promoteDurably i clock out cs s)"
    using assms(1) by (simp add: commitFromPair_def)
  show thesis by (rule promoted_apply [OF app, where e = e and u = u and cb = cb]) (use KsCommit unchanged written in auto)
next
  case (KsRevoke i out)
  then have "ks_apply u e s = s \<or> ks_apply u e s = snd (persist out (filter (not_revoked i) cs) s)"
    using snd_persist_filtered [of "not_revoked i" out cs s] assms(1)
    by (simp add: ks_revoke_def not_revoked_def [abs_def])
  then show thesis using KsRevoke unchanged written list_change.revoke by metis
next
  case (KsRevokeIdentity b i out)
  show thesis
  proof (cases "normalizeTransportIdentity u b i")
    case None
    then show thesis using KsRevokeIdentity assms(1) unchanged by (simp add: revokeExtensionIdentity_def)
  next
    case (Some t)
    then have "ks_apply u e s = s \<or> ks_apply u e s =
        snd (persist out (filter (\<lambda>c. \<not> principalMatchesExtensionIdentity u (sc_principal c) (fst t) (snd t)) cs) s)"
      using snd_persist_filtered [of "\<lambda>c. \<not> principalMatchesExtensionIdentity u (sc_principal c) (fst t) (snd t)" out cs s] assms(1)
        KsRevokeIdentity by (simp add: revokeExtensionIdentity_def case_prod_beta)
    then show thesis using KsRevokeIdentity unchanged written list_change.revoke_identity [OF Some] by metis
  qed
next
  case (KsSweep clock out)
  then have "ks_apply u e s = s \<or> ks_apply u e s = snd (persist out (filter (\<lambda>c. \<not> isExpiredAt c clock) cs) s)"
    using snd_persist_filtered [of "\<lambda>c. \<not> isExpiredAt c clock" out cs s] assms(1)
    by (auto simp: sweepExpiredProvisionals_def readClock_def)
  then show thesis using KsSweep unchanged written list_change.sweep by metis
qed (use assms(2,3) in auto)

section \<open>The invariant\<close>

definition ks_inv :: "url_parser \<Rightarrow> credential_store \<Rightarrow> bool" where
  "ks_inv u s \<longleftrightarrow>
     (ks_disk s = NoFile \<or> ks_disk s = document_of (disk_list s)) \<and> ks_ok u (disk_list s) \<and>
     (\<forall>m. ks_memory s = Some m \<longrightarrow> mset m = mset (disk_list s))"

lemma inv_persist:
  "ks_inv u s \<Longrightarrow> ks_ok u nxt \<Longrightarrow> ks_inv u (snd (persist out nxt s))"
  by (cases out) (auto simp: persist_def ks_inv_def disk_list_def document_of_def)

lemma authorization_epoch:
  assumes ok: "ks_ok u cs" and e: "authorizationEpochForPrincipal u p cs = Inr epoch" "transportIdentityForPrincipal u p = Some k"
    and c: "c \<in> set cs" "transport_of u c = Some k"
  shows "sc_authorizationEpoch c = epoch"
proof -
  let ?g = "filter (\<lambda>c. transportIdentityForPrincipal u (sc_principal c) = Some k) cs"
  obtain e' where e': "sc_authorizationEpoch c = Some e'" using ks_okD(3) [OF ok c(1)] fits_epoch by blast
  have "sc_authorizationEpoch d = Some e'" if "d \<in> set ?g" for d
    using ks_okD(4) [OF ok c(1), of d] that c(2) e' by (auto simp: compatible_def transport_of_def)
  moreover have "c \<in> set ?g" using c by (simp add: transport_of_def)
  ultimately have "epochs_of ?g = [e']" by (intro epochs_of_same) (auto simp: filter_empty_conv)
  then show ?thesis using e e' by (simp add: authorizationEpochForPrincipal_def Let_def)
qed

lemma authorization_epoch_source:
  assumes "authorizationEpochForPrincipal u p cs = Inr (Some e)"
  shows "\<exists>c \<in> set cs. sc_authorizationEpoch c = Some e"
proof -
  obtain k where k: "transportIdentityForPrincipal u p = Some k"
    using assms by (cases "transportIdentityForPrincipal u p") (auto simp: authorizationEpochForPrincipal_def)
  let ?g = "filter (\<lambda>c. transportIdentityForPrincipal u (sc_principal c) = Some k) cs"
  have sub: "set (List.map_filter sc_authorizationEpoch xs) \<subseteq> {e. \<exists>c \<in> set xs. sc_authorizationEpoch c = Some e}" for xs
    by (induction xs) (auto simp: List.map_filter_simps split: option.splits)
  have "e \<in> set (epochs_of ?g)"
    using assms k by (auto simp: authorizationEpochForPrincipal_def Let_def split: if_splits list.splits)
  then show ?thesis using sub [of ?g] by (auto simp: epochs_of_def)
qed

lemma committedIdFor_bounded: "ks_ok u cs \<Longrightarrow> committedIdFor k cs = Some i \<Longrightarrow> bounded_string MAX_CREDENTIAL_ID_LENGTH i"
  using ks_okD(3) by (fastforce simp: committedIdFor_def committedForKey_def find_Some_iff fits_def StoredCredentialSchema_def)

lemma ks_ok_offer:
  assumes ok: "ks_ok u cs" and p: "CredentialPrincipalSchema p" "transportIdentityForPrincipal u p \<noteq> None" "safe_natural now"
    and len: "length (retained_for (principalKey p) cs) < MAX_STORED_CREDENTIALS" and e: "authorizationEpochForPrincipal u p cs = Inr epoch"
    and seed: "sd_id seed \<notin> sc_credentialId ` set cs" "bounded_string MAX_CREDENTIAL_ID_LENGTH (sd_id seed)"
      "bounded_string MAX_MUTUAL_KEY_LENGTH (sd_key seed)" "UUID_V4_PATTERN (sd_epoch seed)"
  shows "ks_ok u (retained_for (principalKey p) cs @ [fresh_credential p idn (committedIdFor (principalKey p) cs) seed epoch now])"
proof -
  let ?c = "fresh_credential p idn (committedIdFor (principalKey p) cs) seed epoch now"
  obtain k where k: "transportIdentityForPrincipal u p = Some k" using p(2) by blast
  have tk: "transport_of u ?c = Some k" using k by (simp add: transport_of_def fresh_credential_def)
  have uuid: "UUID_V4_PATTERN x" if x: "epoch = Some x" for x
  proof -
    obtain c where "c \<in> set cs" "sc_authorizationEpoch c = Some x" using authorization_epoch_source e x by blast
    then show ?thesis using ks_okD(3) [OF ok, of c] by (simp add: fits_def StoredCredentialSchema_def)
  qed
  have "fits u ?c"
    using p seed tk uuid committedIdFor_bounded [OF ok]
    by (auto simp: fits_def StoredCredentialSchema_def validCredentialState_def fresh_credential_def split: option.split)
  moreover have "sc_credentialId c' \<noteq> sc_credentialId ?c \<and> compatible u ?c c'" if c': "c' \<in> set (retained_for (principalKey p) cs)" for c'
  proof -
    have c: "c' \<in> set cs" "sc_state c' \<noteq> CredProvisional \<or> principalKey (sc_principal c') \<noteq> principalKey p"
      using c' by (auto simp: retained_for_def has_key_def)
    have "sc_authorizationEpoch ?c = sc_authorizationEpoch c'" if "transport_of u ?c = transport_of u c'"
    proof -
      have "sc_authorizationEpoch c' = epoch" using authorization_epoch [OF ok e k c(1)] that tk by simp
      moreover have "sc_authorizationEpoch c' \<noteq> None" using ks_okD(3) [OF ok c(1)] fits_epoch by blast
      ultimately show ?thesis by (auto simp: fresh_credential_def)
    qed
    moreover have "sc_credentialId c' \<noteq> sd_id seed" using c(1) seed(1) by force
    ultimately show ?thesis using c(2) by (auto simp: compatible_def fresh_credential_def)
  qed
  ultimately show ?thesis using len ok by (intro ks_ok_snoc) (auto simp: retained_for_def ks_ok_filter)
qed

lemma change_ok:
  assumes "list_change u e cs nxt" and "ks_ok u cs" and "seed_ok e s" and "set cs = set (disk_list s)"
  shows "ks_ok u nxt"
  using assms
proof (induction rule: list_change.induct)
  case (offer p now cs epoch idn seed cb out)
  then show ?case by (intro ks_ok_offer) simp_all
next
  case (promote i cs target now e out cb)
  then show ?case using find_id_SomeD by (intro ks_ok_promote) auto
qed (simp_all add: ks_ok_filter ks_ok_replace)

lemma inv_memory:
  assumes "ks_inv u s" and "ks_memory s = Some cs"
  shows "ks_ok u cs" "set cs = set (disk_list s)" "mset cs = mset (disk_list s)"
  using assms ks_ok_perm by (auto simp: ks_inv_def dest: mset_eq_setD)

lemma inv_document:
  assumes "ks_inv u s"
  shows "readDocument (ks_disk s) = Inr \<lparr> cd_legacy = False, cd_credentials = disk_list s, cd_pendingPromote = None \<rparr>"
proof -
  have ok: "ks_ok u (disk_list s)" using assms by (simp add: ks_inv_def)
  consider "ks_disk s = NoFile" | "ks_disk s = document_of (disk_list s)" using assms by (auto simp: ks_inv_def)
  then show ?thesis
  proof cases
    case 1
    then show ?thesis by (simp add: readDocument_def disk_list_def)
  next
    case 2
    have "list_all (\<lambda>c. StoredCredentialSchema False c \<and> validCredentialState c) (disk_list s)"
      using ks_okD(3) [OF ok] by (simp add: list_all_iff fits_def)
    then show ?thesis by (subst 2) (simp add: readDocument_def document_of_def ks_okD(1) [OF ok] linorder_not_less)
  qed
qed

text \<open>What a load of a consistent file comes to.\<close>

lemma load_shape:
  assumes inv: "ks_inv u s"
  obtains (refused) e where "ks_load u fresh clock out s = (Inl e, s \<lparr> ks_memory := None \<rparr>)" "\<not> safe_natural clock"
  | (ready) cs where "safe_natural clock" "ks_load u fresh clock out s = (Inr (), s \<lparr> ks_memory := Some cs \<rparr>)"
      "mset cs = mset (disk_list s)" "mset cs = mset (filter (\<lambda>c. \<not> isExpiredAt c clock) (disk_list s))"
  | (rewritten) cs where "safe_natural clock" "ks_ok u cs" "mset cs = mset (filter (\<lambda>c. \<not> isExpiredAt c clock) (disk_list s))"
      "ks_load u fresh clock out s = (case persist out cs s of (Inr _, s') \<Rightarrow> (Inr (), s') | (Inl e, s') \<Rightarrow> (Inl e, s' \<lparr> ks_memory := None \<rparr>))"
proof (cases "safe_natural clock")
  case False
  then show thesis using refused by (simp add: ks_load_def inv_document [OF inv] readClock_def)
next
  case True
  have ok: "ks_ok u (disk_list s)" using inv by (simp add: ks_inv_def)
  obtain cs where r: "reconcile u fresh \<lparr> cd_legacy = False, cd_credentials = disk_list s, cd_pendingPromote = None \<rparr> clock =
       Inr (cs, \<exists>c \<in> set (disk_list s). isExpiredAt c clock)" and m: "mset cs = mset (filter (\<lambda>c. \<not> isExpiredAt c clock) (disk_list s))"
    using reconcile_ok [OF ok] by blast
  have eq: "ks_load u fresh clock out s =
      (if \<not> (\<exists>c \<in> set (disk_list s). isExpiredAt c clock) then (Inr (), s \<lparr> ks_memory := Some cs \<rparr>)
       else case persist out cs s of (Inr _, s') \<Rightarrow> (Inr (), s') | (Inl e, s') \<Rightarrow> (Inl e, s' \<lparr> ks_memory := None \<rparr>))"
    using True r by (simp add: ks_load_def inv_document [OF inv] readClock_def)
  show thesis
  proof (cases "\<exists>c \<in> set (disk_list s). isExpiredAt c clock")
    case True
    then show thesis using rewritten [of cs] eq m \<open>safe_natural clock\<close> ks_ok_perm [OF ks_ok_filter [OF ok] m] by simp
  next
    case False
    then have "filter (\<lambda>c. \<not> isExpiredAt c clock) (disk_list s) = disk_list s" by (simp add: filter_True)
    then show thesis using ready [of cs] eq m False \<open>safe_natural clock\<close> by simp
  qed
qed

lemma inv_forget: "ks_inv u s \<Longrightarrow> ks_inv u (s \<lparr> ks_memory := None \<rparr>)"
  by (simp add: ks_inv_def disk_list_def)

lemma inv_load:
  assumes inv: "ks_inv u s"
  shows "ks_inv u (snd (ks_load u fresh clock out s))"
proof (rule load_shape [OF inv, where fresh = fresh and clock = clock and out = out])
  fix cs
  assume "ks_ok u cs" and eq: "ks_load u fresh clock out s =
      (case persist out cs s of (Inr _, s') \<Rightarrow> (Inr (), s') | (Inl e, s') \<Rightarrow> (Inl e, s' \<lparr> ks_memory := None \<rparr>))"
  then have "ks_inv u (snd (persist out cs s))" using inv_persist inv by blast
  then show ?thesis using eq inv_forget by (auto split: prod.splits sum.splits)
next
  fix cs
  assume "ks_load u fresh clock out s = (Inr (), s \<lparr> ks_memory := Some cs \<rparr>)" "mset cs = mset (disk_list s)"
  then show ?thesis using inv by (simp add: ks_inv_def disk_list_def)
qed (use inv inv_forget in auto)

lemma inv_apply:
  assumes "ks_inv u s" and "seed_ok e s"
  shows "ks_inv u (ks_apply u e s)"
proof (cases "ks_memory s")
  case None
  then show ?thesis using assms inv_load inv_forget by (cases e) simp_all
next
  case (Some cs)
  show ?thesis
  proof (cases "e = KsCrash \<or> (\<exists>f t w. e = KsLoad f t w)")
    case True
    then show ?thesis using assms inv_load inv_forget by auto
  next
    case False
    then have "e \<noteq> KsCrash" "\<And>f t w. e \<noteq> KsLoad f t w" by auto
    then show ?thesis
    proof (rule apply_cases [OF Some, where u = u])
      assume "ks_apply u e s = s"
      then show ?thesis using assms by simp
    next
      fix out nxt
      assume w: "ks_apply u e s = snd (persist out nxt s)" "list_change u e cs nxt"
      show ?thesis using w(1) inv_persist [OF assms(1)] change_ok [OF w(2) _ assms(2)] inv_memory [OF assms(1) Some] by simp
    qed
  qed
qed

lemma reach_inv: "ks_reach u s \<Longrightarrow> ks_inv u s"
proof (induction rule: ks_reach.induct)
  case start
  then show ?case by (simp add: ks_inv_def ks_start_def disk_list_def ks_ok_Nil)
qed (rule inv_apply)

section \<open>What survives a step\<close>

lemma disk_persist: "disk_list (snd (persist out nxt s)) = disk_list s \<or> disk_list (snd (persist out nxt s)) = nxt"
  by (cases out) (simp_all add: persist_def disk_list_def document_of_def)

lemma disk_apply:
  assumes inv: "ks_inv u s"
  obtains (same) "set (disk_list (ks_apply u e s)) = set (disk_list s)"
  | (changed) cs nxt where "ks_ok u cs" "set cs = set (disk_list s)" "list_change u e cs nxt" "disk_list (ks_apply u e s) = nxt"
  | (loaded) f clock w where "e = KsLoad f clock w"
      "set (disk_list (ks_apply u e s)) = {c \<in> set (disk_list s). \<not> isExpiredAt c clock}"
proof (cases "\<exists>f t w. e = KsLoad f t w")
  case True
  then obtain f t w where e: "e = KsLoad f t w" by blast
  show thesis
  proof (rule load_shape [OF inv, where fresh = f and clock = t and out = w])
    fix cs
    assume m: "mset cs = mset (filter (\<lambda>c. \<not> isExpiredAt c t) (disk_list s))" and
      eq: "ks_load u f t w s = (case persist w cs s of (Inr _, s') \<Rightarrow> (Inr (), s') | (Inl e, s') \<Rightarrow> (Inl e, s' \<lparr> ks_memory := None \<rparr>))"
    have "disk_list (ks_apply u e s) = disk_list (snd (persist w cs s))"
      by (simp add: e eq disk_list_def split: prod.split sum.split)
    moreover have "set cs = {c \<in> set (disk_list s). \<not> isExpiredAt c t}" using mset_eq_setD [OF m] by simp
    ultimately show thesis using disk_persist [of w cs s] same loaded [OF e] by metis
  qed (use same in \<open>auto simp: e disk_list_def\<close>)
next
  case False
  show thesis
  proof (cases "ks_memory s")
    case None
    then have "ks_disk (ks_apply u e s) = ks_disk s" using False by (cases e) auto
    then show thesis by (intro same) (simp add: disk_list_def)
  next
    case (Some cs)
    show thesis
    proof (cases "e = KsCrash")
      case True
      then show thesis using same by (simp add: disk_list_def)
    next
      case nocrash: False
      show thesis
      proof (rule apply_cases [OF Some nocrash, where u = u])
        fix out nxt
        assume "ks_apply u e s = snd (persist out nxt s)" "list_change u e cs nxt"
        then show thesis using disk_persist [of out nxt s] same changed [OF inv_memory(1,2) [OF inv Some]] by auto
      qed (use False same in auto)
    qed
  qed
qed

fun revoking :: "store_event \<Rightarrow> bool" where
  "revoking (KsRevoke i out) = True"
| "revoking (KsRevokeIdentity b i out) = True"
| "revoking e = False"

lemma change_keeps_committed:
  assumes "list_change u e cs nxt" and "\<not> revoking e" and "c \<in> set cs" and "sc_state c = CredCommitted"
  shows "\<exists>c' \<in> set nxt. sc_state c' = CredCommitted \<and> principalKey (sc_principal c') = principalKey (sc_principal c)"
  using assms
proof (induction rule: list_change.induct)
  case (bind current cs p' expected k clock out)
  let ?f = "\<lambda>c. if c = current then c \<lparr> sc_principal := p' \<rparr> else c"
  have "?f c \<in> set (map ?f cs)" using bind.prems by auto
  moreover have "sc_state (?f c) = CredCommitted \<and> principalKey (sc_principal (?f c)) = principalKey (sc_principal c)"
    using bind by auto
  ultimately show ?case by blast
next
  case (promote i cs target now e out cb)
  then show ?case
    by (cases "has_key (principalKey (sc_principal target)) c") (auto simp: applyPromote_def has_key_def)
qed (auto simp: retained_for_def isExpiredAt_def)

fun offered_id :: "store_event \<Rightarrow> string option" where
  "offered_id (KsOffer p idn clock seed cb out) = Some (sd_id seed)"
| "offered_id e = None"

lemma change_ids:
  "list_change u e cs nxt \<Longrightarrow> sc_credentialId ` set nxt \<subseteq> sc_credentialId ` set cs \<union> set_option (offered_id e)"
proof (induction rule: list_change.induct)
  case (promote i cs target now e out cb)
  then show ?case using find_id_SomeD [of i cs target] by (auto simp: applyPromote_def)
qed (auto simp: retained_for_def fresh_credential_def)

fun ks_run :: "url_parser \<Rightarrow> store_event list \<Rightarrow> credential_store \<Rightarrow> credential_store" where
  "ks_run u [] s = s"
| "ks_run u (e # es) s = ks_run u es (ks_apply u e s)"

fun seeds_ok :: "url_parser \<Rightarrow> store_event list \<Rightarrow> credential_store \<Rightarrow> bool" where
  "seeds_ok u [] s \<longleftrightarrow> True"
| "seeds_ok u (e # es) s \<longleftrightarrow> seed_ok e s \<and> seeds_ok u es (ks_apply u e s)"

lemma absent_credential_run:
  "ks_inv u s \<Longrightarrow> seeds_ok u es s \<Longrightarrow> \<forall>e \<in> set es. offered_id e \<noteq> Some x \<Longrightarrow> x \<notin> sc_credentialId ` set (disk_list s) \<Longrightarrow>
   ks_inv u (ks_run u es s) \<and> x \<notin> sc_credentialId ` set (disk_list (ks_run u es s))"
proof (induction u es s rule: ks_run.induct)
  case (2 u e es s)
  have "x \<notin> sc_credentialId ` set (disk_list (ks_apply u e s))"
  proof (rule disk_apply [OF 2(2), of e])
    fix cs nxt
    assume "set cs = set (disk_list s)" "list_change u e cs nxt" "disk_list (ks_apply u e s) = nxt"
    then show ?thesis using change_ids [of u e cs nxt] 2(4,5) by auto
  qed (use 2(5) in auto)
  then show ?case using 2 inv_apply [OF 2(2), of e] by simp
qed simp

lemma findForAuth_absent: "i \<notin> sc_credentialId ` set cs \<Longrightarrow> findForAuth now i cs = None"
  using find_id_SomeD [of i cs] by (auto simp: findForAuth_def split: option.split)

lemma filtered_result:
  assumes "fst (persist_filtered P out cs s) = Inr n" and "ks_memory s = Some cs" and "ks_inv u s"
  shows "\<forall>c \<in> set (disk_list (snd (persist_filtered P out cs s))). P c"
proof (cases "length (filter P cs) = length cs")
  case True
  then have "filter P cs = cs" by (metis filter_True length_filter_less less_irrefl_nat)
  then show ?thesis using True inv_memory(2) [OF assms(3,2)] by (auto simp: persist_filtered_def filter_id_conv)
next
  case False
  then show ?thesis using assms(1)
    by (cases out) (auto simp: persist_filtered_def Let_def after_persist_def persist_def disk_list_def document_of_def split: if_splits)
qed

lemma one_epoch_loop_ok:
  "\<forall>c \<in> set cs. fits u c \<Longrightarrow> \<forall>c \<in> set cs. \<forall>c' \<in> set cs. compatible u c c' \<Longrightarrow>
   \<forall>c \<in> set cs. \<forall>k e. transport_of u c = Some k \<and> map_of m k = Some e \<longrightarrow> sc_authorizationEpoch c = Some e \<Longrightarrow>
   one_epoch_loop u cs m = Inr ()"
proof (induction cs arbitrary: m)
  case (Cons c cs)
  obtain k e where k: "transportIdentityForPrincipal u (sc_principal c) = Some k" "sc_authorizationEpoch c = Some e"
    using Cons.prems(1) fits_epoch [of u c] by (auto simp: fits_def transport_of_def)
  have same: "sc_authorizationEpoch d = Some e" if "d \<in> set cs" "transport_of u d = Some k" for d
  proof -
    have "compatible u c d" using Cons.prems(2) that(1) by simp
    then show ?thesis using that(2) k by (simp add: compatible_def transport_of_def)
  qed
  have rest: "one_epoch_loop u cs (jset m k e) = Inr ()"
    by (rule Cons.IH) (use Cons.prems same in auto)
  have head: "map_of m k = None \<or> map_of m k = Some e"
    using Cons.prems(3) k by (cases k; cases "map_of m k") (auto simp: transport_of_def)
  have skip: "one_epoch_loop u cs m = Inr ()" by (rule Cons.IH) (use Cons.prems in auto)
  show ?case using rest head skip k by auto
qed simp

section \<open>A store to run\<close>

text \<open>A parser that takes everything after the scheme of Chromium as the host.\<close>

definition toy_ext_url :: url_parser where
  "toy_ext_url v = Some \<lparr> url_protocol = ''chrome-extension:'', url_hostname = drop 19 v, url_host = drop 19 v, url_port = [],
     url_username = [], url_password = [], url_pathname = [], url_search = [], url_hash = [] \<rparr>"

definition toy_principal :: credential_principal where
  "toy_principal = \<lparr> cp_browser = ''chromium'', cp_verifiedOrigin = ''chrome-extension://abc'', cp_clientInstallationId = ''i'',
     cp_safariInstallationKey = None \<rparr>"

definition toy_seed :: "string \<Rightarrow> credential_seed" where
  "toy_seed i = \<lparr> sd_id = i, sd_key = ''AA'', sd_epoch = ''00000000-0000-4000-8000-000000000000'' \<rparr>"

definition toy_offer :: "string \<Rightarrow> int \<Rightarrow> store_event" where
  "toy_offer i t = KsOffer toy_principal IdUnverified t (toy_seed i) NoCallback WriteLands"

definition toy_life :: "store_event list" where
  "toy_life = [KsLoad (\<lambda>_. []) 0 WriteLands, toy_offer ''A'' 1, KsPromote ''A'' 2 WriteLands, toy_offer ''B'' 3]"

lemma reach_run: "ks_reach u s \<Longrightarrow> seeds_ok u es s \<Longrightarrow> ks_reach u (ks_run u es s)"
  by (induction u es s rule: ks_run.induct) (auto intro: ks_reach.step)

lemma toy_life_seeds: "seeds_ok toy_ext_url toy_life ks_start"
  by code_simp

definition toy_list :: "stored_credential list" where
  "toy_list =
     [\<lparr> sc_credentialId = ''A'', sc_mutualKeyB64 = ''AA'', sc_principal = toy_principal, sc_predecessorId = None,
        sc_state = CredCommitted, sc_identity = IdUnverified, sc_createdAt = 1, sc_committedAt = Some 2,
        sc_authorizationEpoch = Some ''00000000-0000-4000-8000-000000000000'' \<rparr>,
      \<lparr> sc_credentialId = ''B'', sc_mutualKeyB64 = ''AA'', sc_principal = toy_principal, sc_predecessorId = Some ''A'',
        sc_state = CredProvisional, sc_identity = IdUnverified, sc_createdAt = 3, sc_committedAt = None,
        sc_authorizationEpoch = Some ''00000000-0000-4000-8000-000000000000'' \<rparr>]"

definition toy_store :: credential_store where
  "toy_store = \<lparr> ks_memory = Some toy_list, ks_disk = document_of toy_list \<rparr>"

lemma toy_run: "ks_run toy_ext_url toy_life ks_start = toy_store"
  by code_simp

lemma toy_store_reach: "ks_reach toy_ext_url toy_store"
  using reach_run [OF ks_reach.start toy_life_seeds] by (simp add: toy_run)

lemma toy_store_eq: "ks_memory toy_store = Some toy_list" "disk_list toy_store = toy_list"
  by (simp_all add: toy_store_def disk_list_def document_of_def)

section \<open>Properties\<close>

text \<open>
  C5: consistency. In every state the store can reach, through any mix of operations, failing writes, failing
  callbacks, crashes on either side of the rename and reloads, the file and the memory hold the same credentials;
  ids are unique; a principal has at most one committed and one provisional credential; all credentials of one
  transport identity carry the same epoch, so the snapshot's epoch check never fails.
\<close>
theorem store_consistent:
  assumes "ks_reach u s"
  shows "(\<forall>m. ks_memory s = Some m \<longrightarrow> mset m = mset (disk_list s) \<and> assertOneEpochPerTransportIdentity u m = Inr ()) \<and>
    distinct (map sc_credentialId (disk_list s)) \<and> length (disk_list s) \<le> MAX_STORED_CREDENTIALS \<and>
    (\<forall>c \<in> set (disk_list s). \<forall>c' \<in> set (disk_list s).
       (principalKey (sc_principal c) = principalKey (sc_principal c') \<and> sc_state c = sc_state c' \<longrightarrow> c = c') \<and>
       (transport_of u c = transport_of u c' \<longrightarrow> sc_authorizationEpoch c = sc_authorizationEpoch c'))"
proof -
  have inv: "ks_inv u s" using assms by (rule reach_inv)
  then have ok: "ks_ok u (disk_list s)" by (simp add: ks_inv_def)
  have "assertOneEpochPerTransportIdentity u m = Inr ()" if "ks_memory s = Some m" for m
    using ks_okD(3,4) [OF inv_memory(1) [OF inv that]] unfolding assertOneEpochPerTransportIdentity_def
    by (intro one_epoch_loop_ok) simp_all
  then have mem: "\<forall>m. ks_memory s = Some m \<longrightarrow> mset m = mset (disk_list s) \<and> assertOneEpochPerTransportIdentity u m = Inr ()"
    using inv_memory(3) [OF inv] by blast
  have pair: "(principalKey (sc_principal c) = principalKey (sc_principal c') \<and> sc_state c = sc_state c' \<longrightarrow> c = c') \<and>
      (transport_of u c = transport_of u c' \<longrightarrow> sc_authorizationEpoch c = sc_authorizationEpoch c')"
    if "c \<in> set (disk_list s)" "c' \<in> set (disk_list s)" for c c'
    using ks_ok_key_unique [OF ok that] ks_okD(4) [OF ok that] unfolding compatible_def by blast
  show ?thesis by (intro conjI ballI) (use mem pair ks_okD(1,2) [OF ok] in blast)+
qed

theorem store_consistent_witness:
  "mset toy_list = mset (disk_list toy_store) \<and> assertOneEpochPerTransportIdentity toy_ext_url toy_list = Inr ()"
  using store_consistent [OF toy_store_reach] toy_store_eq(1) by blast

text \<open>
  C4: never both, never neither. A principal with a committed credential on disk has exactly one after every step
  other than a revocation: after rotations that succeed, fail, lose the race or crash before or after the rename,
  after offers, sweeps and reloads.
\<close>
theorem committed_never_lost:
  assumes "ks_reach u s" and "seed_ok e s" and "\<not> revoking e" and "c \<in> set (disk_list s)" and "sc_state c = CredCommitted"
  shows "\<exists>!c'. c' \<in> set (disk_list (ks_apply u e s)) \<and> sc_state c' = CredCommitted \<and>
    principalKey (sc_principal c') = principalKey (sc_principal c)"
proof -
  have inv: "ks_inv u s" using assms(1) by (rule reach_inv)
  have "\<exists>c'. c' \<in> set (disk_list (ks_apply u e s)) \<and> sc_state c' = CredCommitted \<and>
      principalKey (sc_principal c') = principalKey (sc_principal c)"
  proof (rule disk_apply [OF inv, of e])
    fix cs nxt
    assume "set cs = set (disk_list s)" "list_change u e cs nxt" "disk_list (ks_apply u e s) = nxt"
    then show ?thesis using change_keeps_committed [of u e cs nxt c] assms(3-5) by auto
  qed (use assms(4,5) in \<open>auto simp: isExpiredAt_def\<close>)
  moreover have "ks_ok u (disk_list (ks_apply u e s))" using inv_apply [OF inv assms(2)] by (simp add: ks_inv_def)
  from ks_ok_key_unique [OF this] have "c1 = c2"
    if "c1 \<in> set (disk_list (ks_apply u e s))" "c2 \<in> set (disk_list (ks_apply u e s))" "sc_state c1 = sc_state c2"
      "principalKey (sc_principal c1) = principalKey (sc_principal c2)" for c1 c2
    using that by blast
  ultimately show ?thesis by (intro ex_ex1I) auto
qed

theorem committed_never_lost_witness:
  "\<exists>!c'. c' \<in> set (disk_list (ks_apply toy_ext_url (KsPromote ''B'' 4 CrashAfterRename) toy_store)) \<and>
    sc_state c' = CredCommitted \<and> principalKey (sc_principal c') = principalKey (sc_principal (hd toy_list))"
  by (rule committed_never_lost [OF toy_store_reach]) (simp_all add: toy_store_eq toy_list_def)

text \<open>
  C13: a revocation is final. Once a revocation of an id has been confirmed, neither that credential nor the provisional
  successor it was to be rotated into can authenticate again, at any later time, through any operations, failures,
  crashes and reloads, unless the random source repeats the id.
\<close>
theorem revoked_stays_revoked:
  assumes "ks_reach u s" and "ks_memory s = Some cs" and "ks_revoke i out cs s = (Inr n, s1)"
    and "x = i \<or> (\<exists>c \<in> set cs. sc_credentialId c = x \<and> sc_state c = CredProvisional \<and> sc_predecessorId c = Some i)"
    and "seeds_ok u es s1" and "\<forall>e \<in> set es. offered_id e \<noteq> Some x"
    and "ks_memory (ks_run u es s1) = Some m"
  shows "findForAuth now x m = None"
proof -
  have inv: "ks_inv u s" using assms(1) by (rule reach_inv)
  have r: "persist_filtered (not_revoked i) out cs s = (Inr n, s1)"
    using assms(3) by (simp add: ks_revoke_def not_revoked_def [abs_def] split: if_splits)
  have s1: "s1 = ks_apply u (KsRevoke i out) s" using assms(2,3) by simp
  have inv1: "ks_inv u s1" unfolding s1 by (rule inv_apply [OF inv]) simp
  have left: "\<forall>c \<in> set (disk_list s1). not_revoked i c" using filtered_result [of "not_revoked i" out cs s n] r assms(2) inv by simp
  have "disk_list s1 = disk_list s \<or> disk_list s1 = filter (not_revoked i) cs"
    using r disk_persist [of out "filter (not_revoked i) cs" s] snd_persist_filtered [of "not_revoked i" out cs s] by (metis snd_conv)
  then have sub: "set (disk_list s1) \<subseteq> set cs" using inv_memory(2) [OF inv assms(2)] by (elim disjE) simp_all
  have "x \<notin> sc_credentialId ` set (disk_list s1)"
  proof
    assume "x \<in> sc_credentialId ` set (disk_list s1)"
    then obtain c where c: "c \<in> set (disk_list s1)" "sc_credentialId c = x" by auto
    then have "x \<noteq> i" using left by (auto simp: not_revoked_def)
    then obtain d where d: "d \<in> set cs" "sc_credentialId d = x" "sc_state d = CredProvisional" "sc_predecessorId d = Some i"
      using assms(4) by auto
    have "c = d" using ks_ok_unique [OF inv_memory(1) [OF inv assms(2)]] c d(1,2) sub by auto
    then show False using left c(1) d by (auto simp: not_revoked_def)
  qed
  from absent_credential_run [OF inv1 assms(5,6) this] show ?thesis
    using inv_memory(2) [OF _ assms(7)] by (intro findForAuth_absent) auto
qed

definition toy_third :: stored_credential where
  "toy_third = \<lparr> sc_credentialId = ''C'', sc_mutualKeyB64 = ''AA'', sc_principal = toy_principal, sc_predecessorId = None,
     sc_state = CredProvisional, sc_identity = IdUnverified, sc_createdAt = 7, sc_committedAt = None,
     sc_authorizationEpoch = Some ''00000000-0000-4000-8000-000000000000'' \<rparr>"

definition toy_revoked :: credential_store where
  "toy_revoked = \<lparr> ks_memory = Some [], ks_disk = document_of [] \<rparr>"

lemma toy_revokes: "ks_revoke ''A'' WriteLands toy_list toy_store = (Inr 2, toy_revoked)"
  by code_simp

lemma toy_after_revocation:
  "seeds_ok toy_ext_url [toy_offer ''C'' 7] toy_revoked"
  "ks_memory (ks_run toy_ext_url [toy_offer ''C'' 7] toy_revoked) = Some [toy_third]"
  by code_simp+

theorem revoked_stays_revoked_witness:
  "findForAuth 9 ''B'' [toy_third] = None"
  by (rule revoked_stays_revoked [OF toy_store_reach toy_store_eq(1) toy_revokes _ toy_after_revocation(1) _ toy_after_revocation(2)])
    (simp_all add: toy_list_def toy_offer_def toy_seed_def)

text \<open>
  an accept is backed. Whatever provisional credential the store lets authenticate, it also promotes when the write
  lands (and the clock has not gone back behind its creation), and the same key is found committed right after.
\<close>
theorem authenticable_promotable:
  assumes "ks_reach u s" and "ks_memory s = Some cs" and "findForAuth now i cs = Some c" and "sc_state c = CredProvisional"
    and "safe_natural now" and "sc_createdAt c \<le> now"
  shows "\<exists>cs' c'. promoteOnReconnect i now WriteLands cs s = (Inr (), \<lparr> ks_memory = Some cs', ks_disk = document_of cs' \<rparr>) \<and>
    findForAuth now i cs' = Some c' \<and> sc_state c' = CredCommitted \<and>
    sc_mutualKeyB64 c' = sc_mutualKeyB64 c \<and> sc_principal c' = sc_principal c"
proof -
  have ok: "ks_ok u cs" using inv_memory(1) [OF reach_inv [OF assms(1)] assms(2)] .
  have c: "validCredentialId i" "find_id i cs = Some c" "\<not> isExpiredAt c now"
      "committedIdFor (principalKey (sc_principal c)) cs = sc_predecessorId c"
    using assms(3,4) by (auto simp: findForAuth_def split: option.splits if_splits)
  note mem = find_id_SomeD [OF c(2)]
  let ?cs' = "applyPromote cs c now"
  have ok': "ks_ok u ?cs'" using ok mem assms(4-6) by (intro ks_ok_promote) auto
  have "promoteOnReconnect i now WriteLands cs s = (Inr (), \<lparr> ks_memory = Some ?cs', ks_disk = document_of ?cs' \<rparr>)"
    using c assms(4-6) ks_ok_writable [OF ok'] by (simp add: promoteOnReconnect_def promoteDurably_def readClock_def persist_def)
  moreover have "find_id i ?cs' = Some (last ?cs')"
    using ks_ok_id [OF ok', of "last ?cs'"] mem by (simp add: applyPromote_def)
  then have "findForAuth now i ?cs' = Some (last ?cs')" using c(1) by (simp add: findForAuth_def applyPromote_def)
  ultimately show ?thesis by (intro exI [of _ ?cs'] exI [of _ "last ?cs'"]) (simp add: applyPromote_def)
qed

theorem authenticable_promotable_witness:
  "\<exists>cs' c'. promoteOnReconnect ''B'' 5 WriteLands toy_list toy_store =
       (Inr (), \<lparr> ks_memory = Some cs', ks_disk = document_of cs' \<rparr>) \<and>
    findForAuth 5 ''B'' cs' = Some c' \<and> sc_state c' = CredCommitted \<and>
    sc_mutualKeyB64 c' = sc_mutualKeyB64 (last toy_list) \<and> sc_principal c' = sc_principal (last toy_list)"
proof (rule authenticable_promotable [OF toy_store_reach toy_store_eq(1)])
  show "findForAuth 5 ''B'' toy_list = Some (last toy_list)" by code_simp
qed (simp_all add: toy_list_def safe_natural_def MAX_SAFE_INTEGER_def)

text \<open>
  C14: the store comes back. From every reachable state a crash and a load with a sound clock and a landing write
  succeed, and bring back exactly the credentials on disk that are no expired offers; in particular every committed
  one. No sequence of operations writes a document that the next start refuses.
\<close>
theorem store_comes_back:
  assumes "ks_reach u s" and "safe_natural now"
  shows "\<exists>m. ks_memory (ks_apply u (KsLoad fresh now WriteLands) (ks_apply u KsCrash s)) = Some m \<and>
    set m = {c \<in> set (disk_list s). \<not> isExpiredAt c now}"
proof -
  let ?s = "s \<lparr> ks_memory := None \<rparr>"
  have inv: "ks_inv u ?s" using reach_inv [OF assms(1)] by (rule inv_forget)
  have live: "set cs = {c \<in> set (disk_list s). \<not> isExpiredAt c now}"
    if "mset cs = mset (filter (\<lambda>c. \<not> isExpiredAt c now) (disk_list ?s))" for cs
    using mset_eq_setD [OF that] by (simp add: disk_list_def)
  show ?thesis
  proof (rule load_shape [OF inv, where fresh = fresh and clock = now and out = WriteLands])
    fix cs
    assume "ks_ok u cs" "mset cs = mset (filter (\<lambda>c. \<not> isExpiredAt c now) (disk_list ?s))"
      "ks_load u fresh now WriteLands ?s =
        (case persist WriteLands cs ?s of (Inr _, s') \<Rightarrow> (Inr (), s') | (Inl e, s') \<Rightarrow> (Inl e, s' \<lparr> ks_memory := None \<rparr>))"
    then show ?thesis using ks_ok_writable [of u cs] live [of cs] by (simp add: persist_def)
  next
    fix cs
    assume "mset cs = mset (filter (\<lambda>c. \<not> isExpiredAt c now) (disk_list ?s))"
      "ks_load u fresh now WriteLands ?s = (Inr (), ?s \<lparr> ks_memory := Some cs \<rparr>)"
    then show ?thesis using live [of cs] by simp
  qed (use assms(2) in simp)
qed

theorem store_comes_back_witness:
  "\<exists>m. ks_memory (ks_apply toy_ext_url (KsLoad (\<lambda>_. []) 700000 WriteLands) (ks_apply toy_ext_url KsCrash toy_store)) = Some m \<and>
    set m = {c \<in> set (disk_list toy_store). \<not> isExpiredAt c 700000}"
  by (rule store_comes_back [OF toy_store_reach]) (simp add: safe_natural_def MAX_SAFE_INTEGER_def)

text \<open>
  revoking an extension is complete. After a confirmed revocation of a transport identity, no credential of that
  identity is left on disk, whatever its installation id and state; all that is assumed of the URL parser is that
  without a port the host is the hostname.
\<close>
theorem revoke_identity_complete:
  assumes "ks_reach u s" and "ks_memory s = Some cs" and "revokeExtensionIdentity u b i out cs s = (Inr n, s1)"
    and "\<And>v p. u v = Some p \<Longrightarrow> url_port p = [] \<Longrightarrow> url_host p = url_hostname p"
  shows "\<forall>c \<in> set (disk_list s1). transport_of u c \<noteq> Some (b, i)"
proof
  fix c
  assume c: "c \<in> set (disk_list s1)"
  have t: "normalizeTransportIdentity u b i = Some (b, i)" "i = toLowerCase i"
    using assms(3) by (auto simp: revokeExtensionIdentity_def normalizeTransportIdentity_def split: option.splits if_splits)
  then have gone: "\<not> principalMatchesExtensionIdentity u (sc_principal c) b i"
    using filtered_result [of "\<lambda>c. \<not> principalMatchesExtensionIdentity u (sc_principal c) b i" out cs s n] assms(2,3) c
      reach_inv [OF assms(1)] by (simp add: revokeExtensionIdentity_def)
  show "transport_of u c \<noteq> Some (b, i)"
  proof
    assume "transport_of u c = Some (b, i)"
    then obtain p where p: "u (cp_verifiedOrigin (sc_principal c)) = Some p" "cp_browser (sc_principal c) = b"
        "url_protocol p = EXTENSION_ORIGIN_SCHEMES b @ '':''" "url_port p = []" "url_hostname p = i"
      by (auto simp: transport_of_def transportIdentityForPrincipal_def normalizeExtensionIdentity_def Let_def
          split: option.splits if_splits)
    then show False using gone assms(4) [OF p(1,4)] t(2) by (simp add: principalMatchesExtensionIdentity_def)
  qed
qed

theorem revoke_identity_complete_witness:
  "\<forall>c \<in> set (disk_list toy_revoked). transport_of toy_ext_url c \<noteq> Some (''chromium'', ''abc'')"
proof (rule revoke_identity_complete [OF toy_store_reach toy_store_eq(1)])
  show "revokeExtensionIdentity toy_ext_url ''chromium'' ''abc'' WriteLands toy_list toy_store = (Inr 2, toy_revoked)"
    by code_simp
qed (auto simp: toy_ext_url_def)

end
