(* ===== verification/Frame_Pump.thy ===== *)
theory Frame_Pump
  imports Prelude
begin

text \<open>
  The pump that feeds the frames of a socket to a handshake session one at a time and gives the unread tail
  back to the socket: \<open>createPreAuthFramePump\<close> of \<open>core/bridge/web-socket-bridge-server.ts\<close>. The drain loop
  is cut at its \<open>await\<close>: a step runs up to the next call of \<open>consume\<close>, and the settlement of its promise is an
  event.
\<close>

section \<open>Definitions\<close>

record 'f pump =
  pm_pending :: "'f list"
  pm_running :: bool
  pm_handedOver :: bool

datatype 'f pump_effect = Consume 'f | EmitMessage 'f | CloseInternalError

definition pump_new :: "'f pump" where
  "pump_new = \<lparr> pm_pending = [], pm_running = False, pm_handedOver = False \<rparr>"

text \<open>After the loop: the \<open>finally\<close> block, and the tail on the socket.\<close>

definition drain_rest :: "'f pump \<Rightarrow> 'f pump \<times> 'f pump_effect list" where
  "drain_rest p =
     (let p1 = p \<lparr> pm_running := False \<rparr>
      in if pm_handedOver p1 \<and> pm_pending p1 \<noteq> [] then (p1 \<lparr> pm_pending := [] \<rparr>, map EmitMessage (pm_pending p1))
         else (p1, []))"

text \<open>The head of the loop.\<close>

definition drain_loop :: "'f pump \<Rightarrow> 'f pump \<times> 'f pump_effect list" where
  "drain_loop p =
     (if pm_handedOver p then drain_rest p
      else case pm_pending p of
             [] \<Rightarrow> drain_rest p
           | f # rest \<Rightarrow> (p \<lparr> pm_pending := rest \<rparr>, [Consume f]))"

definition pump_drain :: "'f pump \<Rightarrow> 'f pump \<times> 'f pump_effect list" where
  "pump_drain p = (if pm_running p then (p, []) else drain_loop (p \<lparr> pm_running := True \<rparr>))"

definition pump_push :: "'f \<Rightarrow> 'f pump \<Rightarrow> 'f pump \<times> 'f pump_effect list" where
  "pump_push f p = pump_drain (p \<lparr> pm_pending := pm_pending p @ [f] \<rparr>)"

definition pump_handOver :: "'f pump \<Rightarrow> 'f pump" where
  "pump_handOver p = p \<lparr> pm_handedOver := True \<rparr>"

text \<open>The promise of \<open>consume\<close> settles; without a call in flight there is nothing to settle.\<close>

definition pump_settled :: "bool \<Rightarrow> 'f pump \<Rightarrow> 'f pump \<times> 'f pump_effect list" where
  "pump_settled ok p =
     (if \<not> pm_running p then (p, [])
      else if ok then drain_loop p
      else let (p1, es) = drain_rest (p \<lparr> pm_pending := [] \<rparr>) in (p1, CloseInternalError # es))"

datatype 'f pump_event = PumpPush 'f | PumpSettled bool | PumpHandOver

primrec pump_step :: "'f pump_event \<Rightarrow> 'f pump \<Rightarrow> 'f pump \<times> 'f pump_effect list" where
  "pump_step (PumpPush f) p = pump_push f p"
| "pump_step (PumpSettled ok) p = pump_settled ok p"
| "pump_step PumpHandOver p = (pump_handOver p, [])"

fun pump_run :: "'f pump_event list \<Rightarrow> 'f pump \<times> 'f pump_effect list \<Rightarrow> 'f pump \<times> 'f pump_effect list" where
  "pump_run [] r = r"
| "pump_run (e # h) r = pump_run h (let (p', es) = pump_step e (fst r) in (p', snd r @ es))"

section \<open>No frame is lost\<close>

fun consumed :: "'f pump_effect list \<Rightarrow> 'f list" where
  "consumed [] = []"
| "consumed (Consume f # es) = f # consumed es"
| "consumed (_ # es) = consumed es"

fun emitted :: "'f pump_effect list \<Rightarrow> 'f list" where
  "emitted [] = []"
| "emitted (EmitMessage f # es) = f # emitted es"
| "emitted (_ # es) = emitted es"

fun pushed :: "'f pump_event list \<Rightarrow> 'f list" where
  "pushed [] = []"
| "pushed (PumpPush f # h) = f # pushed h"
| "pushed (_ # h) = pushed h"

lemma consumed_append [simp]: "consumed (es @ es') = consumed es @ consumed es'"
  by (induction es rule: consumed.induct) auto

lemma emitted_append [simp]: "emitted (es @ es') = emitted es @ emitted es'"
  by (induction es rule: emitted.induct) auto

lemma consumed_emits [simp]: "consumed (map EmitMessage fs) = []"
  by (induction fs) auto

lemma emitted_emits [simp]: "emitted (map EmitMessage fs) = fs"
  by (induction fs) auto

lemma pushed_append [simp]: "pushed (h @ h') = pushed h @ pushed h'"
  by (induction h rule: pushed.induct) auto

definition pump_inv :: "'f list \<Rightarrow> 'f pump \<times> 'f pump_effect list \<Rightarrow> bool" where
  "pump_inv fs r \<longleftrightarrow>
     consumed (snd r) @ emitted (snd r) @ pm_pending (fst r) = fs \<and>
     (\<not> pm_running (fst r) \<longrightarrow> pm_pending (fst r) = []) \<and>
     (emitted (snd r) \<noteq> [] \<longrightarrow> pm_handedOver (fst r))"

lemmas pump_defs = drain_rest_def drain_loop_def pump_drain_def pump_push_def pump_handOver_def pump_settled_def Let_def

lemma pump_inv_step:
  assumes "pump_inv fs r" and "e \<noteq> PumpSettled False"
  shows "pump_inv (fs @ pushed [e]) (let (p', es) = pump_step e (fst r) in (p', snd r @ es))"
proof (cases e)
  case (PumpSettled ok)
  then have ok by (cases ok) (use assms(2) in auto)
  then show ?thesis using assms(1) PumpSettled
    by (cases "emitted (snd r)") (auto simp: pump_inv_def pump_defs split: list.split)
qed (use assms(1) in \<open>cases "emitted (snd r)"; auto simp: pump_inv_def pump_defs split: list.split\<close>)+

lemma pump_inv_run:
  "pump_inv fs r \<Longrightarrow> PumpSettled False \<notin> set h \<Longrightarrow> pump_inv (fs @ pushed h) (pump_run h r)"
proof (induction h arbitrary: fs r)
  case (Cons e h)
  have "pump_inv ((fs @ pushed [e]) @ pushed h) (pump_run h (let (p', es) = pump_step e (fst r) in (p', snd r @ es)))"
    using Cons.prems by (intro Cons.IH pump_inv_step) auto
  then show ?case using pushed_append [of "[e]" h] by simp
qed simp

text \<open>
  C31: the pump delivers every frame exactly once and in order. As long as no handler rejects, the frames given
  to the session, followed by those given back to the socket and those still queued, are the frames that
  arrived; nothing waits while the pump is idle, and nothing is given back before the handover.
\<close>
theorem pump_conserves_frames:
  assumes "PumpSettled False \<notin> set h" and "pump_run h (pump_new, []) = (p, es)"
  shows "consumed es @ emitted es @ pm_pending p = pushed h \<and> (pm_running p \<or> pm_pending p = []) \<and>
     (emitted es = [] \<or> pm_handedOver p)"
proof -
  have "pump_inv [] (pump_new, [])" by (simp add: pump_inv_def pump_new_def)
  from pump_inv_run [OF this assms(1)] show ?thesis using assms(2) by (auto simp: pump_inv_def)
qed

lemma pump_conserves_frames_witness:
  "consumed [Consume (1 :: nat), EmitMessage 2, EmitMessage 3] @ emitted [Consume (1 :: nat), EmitMessage 2, EmitMessage 3] =
     pushed [PumpPush 1, PumpPush 2, PumpPush 3, PumpHandOver, PumpSettled True]"
proof -
  have "pump_run [PumpPush 1, PumpPush 2, PumpPush 3, PumpHandOver, PumpSettled True] (pump_new, []) =
      (\<lparr> pm_pending = [], pm_running = False, pm_handedOver = True \<rparr>, [Consume (1 :: nat), EmitMessage 2, EmitMessage 3])"
    by (simp add: pump_defs pump_new_def)
  from pump_conserves_frames [OF _ this] show ?thesis by simp
qed

end
