(* ===== verification/Spake2.thy ===== *)
theory Spake2
  imports Ticket_Verify
begin

text \<open>
  The password-authenticated key exchange of first pairing: \<open>core/bridge/mbp1/spake2-core.ts\<close>, the pairing
  code of \<open>pairing-code.ts\<close> and the password scalar of \<open>scrypt-w.ts\<close>. The group operations of the noble
  library, SHA-256, HMAC, HKDF and scrypt are parameters. A scalar is an \<open>int\<close>, as a \<open>bigint\<close> is unbounded.
\<close>

section \<open>Groups\<close>

text \<open>
  \<open>GroupPoint\<close> and \<open>Spake2Group\<close>: \<open>sg_fromBytes\<close> is \<open>None\<close> where the library throws. The multiplication
  is applied to scalars in \<open>[1, order)\<close>, on which the library's does not throw.
\<close>

record 'p spake2_group =
  sg_fromBytes :: "byte list \<Rightarrow> 'p option"
  sg_BASE :: 'p
  sg_order :: int
  sg_cofactor :: int
  sg_M :: 'p
  sg_N :: 'p
  sg_add :: "'p \<Rightarrow> 'p \<Rightarrow> 'p"
  sg_subtract :: "'p \<Rightarrow> 'p \<Rightarrow> 'p"
  sg_multiply :: "'p \<Rightarrow> int \<Rightarrow> 'p"
  sg_multiplyUnsafe :: "'p \<Rightarrow> int \<Rightarrow> 'p"
  sg_is0 :: "'p \<Rightarrow> bool"
  sg_encodePoint :: "'p \<Rightarrow> byte list"

text \<open>\<open>ed25519.Point\<close> of the library, with its hexadecimal decoder, and the group made of it.\<close>

record 'p point_library =
  pl_fromBytes :: "byte list \<Rightarrow> 'p option"
  pl_fromHex :: "string \<Rightarrow> 'p"
  pl_BASE :: 'p
  pl_ORDER :: int
  pl_add :: "'p \<Rightarrow> 'p \<Rightarrow> 'p"
  pl_subtract :: "'p \<Rightarrow> 'p \<Rightarrow> 'p"
  pl_multiply :: "'p \<Rightarrow> int \<Rightarrow> 'p"
  pl_multiplyUnsafe :: "'p \<Rightarrow> int \<Rightarrow> 'p"
  pl_is0 :: "'p \<Rightarrow> bool"
  pl_toBytes :: "'p \<Rightarrow> byte list"

definition EDWARDS25519_GROUP :: "'p point_library \<Rightarrow> 'p spake2_group" where
  "EDWARDS25519_GROUP P =
     \<lparr> sg_fromBytes = pl_fromBytes P, sg_BASE = pl_BASE P, sg_order = pl_ORDER P, sg_cofactor = 8,
       sg_M = pl_fromHex P ''d048032c6ea0b6d697ddc2e86bda85a33adac920f1bf18e1b0c6d166a5cecdaf'',
       sg_N = pl_fromHex P ''d3bfb518f44f3430f29d0c92af503865a1ed3281dc69b35dd868ba85f886c4ab'',
       sg_add = pl_add P, sg_subtract = pl_subtract P, sg_multiply = pl_multiply P,
       sg_multiplyUnsafe = pl_multiplyUnsafe P, sg_is0 = pl_is0 P, sg_encodePoint = pl_toBytes P \<rparr>"

datatype spake2_error = Violation string | IdentityKError | PairingFailedError | LocalError string

type_synonym 'a spake = "(spake2_error, 'a) result"

primrec of_checked :: "'a checked \<Rightarrow> 'a spake" where
  "of_checked (Inl e) = (case e of ProtocolViolationError m \<Rightarrow> Inl (Violation m))"
| "of_checked (Inr a) = Inr a"

section \<open>Scalars and shares\<close>

definition SCALAR_BYTES :: nat where "SCALAR_BYTES = 32"

text \<open>
  \<open>drawScalar\<close>. The random source is a stream of draws, of which \<open>i\<close> have been made; \<open>None\<close> is a loop that
  never ends.
\<close>

partial_function (option) drawScalar :: "int \<Rightarrow> (nat \<Rightarrow> byte list) \<Rightarrow> nat \<Rightarrow> int spake option" where
  "drawScalar order rng i =
     (if length (rng i) \<noteq> SCALAR_BYTES
      then Some (Inl (Violation ''drawScalar requires exactly 32 bytes of entropy per draw''))
      else let candidate = os2ip (rng i)
           in if candidate \<noteq> 0 \<and> candidate < order then Some (Inr candidate) else drawScalar order rng (Suc i))"

definition computePublicA :: "'p spake2_group \<Rightarrow> int \<Rightarrow> int \<Rightarrow> byte list" where
  "computePublicA g w x = sg_encodePoint g (sg_add g (sg_multiply g (sg_M g) w) (sg_multiply g (sg_BASE g) x))"

definition computePublicB :: "'p spake2_group \<Rightarrow> int \<Rightarrow> int \<Rightarrow> byte list" where
  "computePublicB g w y = sg_encodePoint g (sg_add g (sg_multiply g (sg_N g) w) (sg_multiply g (sg_BASE g) y))"

definition decodePoint :: "'p spake2_group \<Rightarrow> byte list \<Rightarrow> string \<Rightarrow> 'p spake" where
  "decodePoint g bytes field =
     (case sg_fromBytes g bytes of
        None \<Rightarrow> Inl (Violation (field @ '' is not a canonical encoding of a curve point''))
      | Some p \<Rightarrow> Inr p)"

definition sharedSecret :: "'p spake2_group \<Rightarrow> int \<Rightarrow> 'p \<Rightarrow> 'p \<Rightarrow> int \<Rightarrow> byte list spake" where
  "sharedSecret g scalar peerShare msk w =
     (let d = sg_subtract g peerShare (sg_multiply g msk w);
          k = sg_multiplyUnsafe g (sg_multiply g d scalar) (sg_cofactor g)
      in if sg_is0 g k then Inl IdentityKError else Inr (sg_encodePoint g k))"

definition sharedFromA :: "'p spake2_group \<Rightarrow> int \<Rightarrow> int \<Rightarrow> byte list \<Rightarrow> byte list spake" where
  "sharedFromA g w x pB =
     (case decodePoint g pB ''pB'' of Inl e \<Rightarrow> Inl e | Inr p \<Rightarrow> sharedSecret g x p (sg_N g) w)"

definition sharedFromB :: "'p spake2_group \<Rightarrow> int \<Rightarrow> int \<Rightarrow> byte list \<Rightarrow> byte list spake" where
  "sharedFromB g w y pA =
     (case decodePoint g pA ''pA'' of Inl e \<Rightarrow> Inl e | Inr p \<Rightarrow> sharedSecret g y p (sg_M g) w)"

section \<open>Transcript and key schedule\<close>

text \<open>The loop of \<open>i2ospScalar\<close>: \<open>k\<close> bytes are still to be written, from the last one down.\<close>

fun i2osp_loop :: "nat \<Rightarrow> int \<Rightarrow> byte list \<Rightarrow> byte list \<times> int" where
  "i2osp_loop 0 remaining out = (out, remaining)"
| "i2osp_loop (Suc k) remaining out = i2osp_loop k (drop_bit 8 remaining) (word_of_int (and remaining 255) # out)"

definition i2ospScalar :: "int \<Rightarrow> byte list spake" where
  "i2ospScalar w =
     (if w < 0 then Inl (LocalError ''w must be non-negative'')
      else let (out, remaining) = i2osp_loop SCALAR_BYTES w []
           in if remaining \<noteq> 0 then Inl (LocalError ''w does not fit in 32 bytes'') else Inr out)"

definition buildTT ::
  "byte list \<Rightarrow> byte list \<Rightarrow> byte list \<Rightarrow> byte list \<Rightarrow> byte list \<Rightarrow> int \<Rightarrow> byte list spake" where
  "buildTT aIdentity bIdentity pA pB K w =
     (case of_checked (concat_checked [enc_bytes aIdentity, enc_bytes bIdentity, enc_bytes pA, enc_bytes pB, enc_bytes K]) of
        Inl e \<Rightarrow> Inl e
      | Inr front \<Rightarrow>
          (case i2ospScalar w of
             Inl e \<Rightarrow> Inl e
           | Inr wb \<Rightarrow> (case of_checked (enc_bytes wb) of Inl e \<Rightarrow> Inl e | Inr b \<Rightarrow> Inr (front @ b))))"

definition CONFIRMATION_KEYS_LABEL :: "byte list" where "CONFIRMATION_KEYS_LABEL = utf8ToBytes ''ConfirmationKeys''"
definition PAIR_TRAFFIC_SALT :: "byte list" where "PAIR_TRAFFIC_SALT = utf8ToBytes ''MBP1/pair/v1''"
definition PAIR_TRAFFIC_INFO_C2S :: "byte list" where "PAIR_TRAFFIC_INFO_C2S = utf8ToBytes ''MBP1-pair-traffic-c2s''"
definition PAIR_TRAFFIC_INFO_S2C :: "byte list" where "PAIR_TRAFFIC_INFO_S2C = utf8ToBytes ''MBP1-pair-traffic-s2c''"

record key_schedule =
  ks_Ke :: "byte list"
  ks_Ka :: "byte list"
  ks_KcA :: "byte list"
  ks_KcB :: "byte list"

definition keySchedule ::
  "('a ticket_crypto_scheme) \<Rightarrow> (byte list \<Rightarrow> byte list) \<Rightarrow> byte list \<Rightarrow> byte list \<Rightarrow> key_schedule" where
  "keySchedule cr sha256 tt aad =
     (let digest = sha256 tt;
          Ka = drop 16 digest;
          confirmation = cr_hkdf32 cr Ka [] (CONFIRMATION_KEYS_LABEL @ aad)
      in \<lparr> ks_Ke = take 16 digest, ks_Ka = Ka, ks_KcA = take 16 confirmation, ks_KcB = drop 16 confirmation \<rparr>)"

text \<open>The pair \<open>cA\<close>, \<open>cB\<close>, and the pair \<open>kC2S\<close>, \<open>kS2C\<close>.\<close>

definition confirmationMacs :: "('a ticket_crypto_scheme) \<Rightarrow> byte list \<Rightarrow> byte list \<Rightarrow> byte list \<Rightarrow> byte list \<times> byte list" where
  "confirmationMacs cr kcA kcB tt = (cr_hmac cr kcA tt, cr_hmac cr kcB tt)"

definition pairTrafficKeys :: "('a ticket_crypto_scheme) \<Rightarrow> byte list \<Rightarrow> byte list \<times> byte list" where
  "pairTrafficKeys cr ke =
     (cr_hkdf32 cr ke PAIR_TRAFFIC_SALT PAIR_TRAFFIC_INFO_C2S, cr_hkdf32 cr ke PAIR_TRAFFIC_SALT PAIR_TRAFFIC_INFO_S2C)"

section \<open>The password scalar\<close>

text \<open>\<open>scrypt\<close> takes password and salt; its cost parameters are fixed in the source.\<close>

definition deriveW :: "(byte list \<Rightarrow> byte list \<Rightarrow> byte list) \<Rightarrow> string \<Rightarrow> string \<Rightarrow> int \<Rightarrow> int spake" where
  "deriveW scrypt codeNormalized pairNonce order =
     (case of_checked (assertAscii codeNormalized ''codeNormalized'') of
        Inl e \<Rightarrow> Inl e
      | Inr _ \<Rightarrow>
          (case of_checked (assertAscii pairNonce ''pairNonce'') of
             Inl e \<Rightarrow> Inl e
           | Inr _ \<Rightarrow>
               (let h = scrypt (utf8ToBytes codeNormalized) (utf8ToBytes ''MBP1/w/v1'' @ utf8ToBytes pairNonce);
                    w = os2ip h mod order
                in if w = 0 then Inl PairingFailedError else Inr w)))"

section \<open>Pairing codes\<close>

definition CROCKFORD_ALPHABET :: string where "CROCKFORD_ALPHABET = ''0123456789ABCDEFGHJKMNPQRSTVWXYZ''"

definition generatePairingCode :: "byte list \<Rightarrow> string checked" where
  "generatePairingCode random5 =
     (if length random5 \<noteq> 5
      then Inl (ProtocolViolationError ''generatePairingCode requires exactly 5 bytes of entropy'')
      else let bits = os2ip random5
           in Inr (map (\<lambda>group. CROCKFORD_ALPHABET ! nat (and (drop_bit (group * 5) bits) 31)) (rev [0..<8])))"

definition formatPairingCode :: "string \<Rightarrow> string" where
  "formatPairingCode code = take 4 code @ ''-'' @ take 4 (drop 4 code)"

text \<open>
  \<open>toUpperCase\<close> on the code units up to 255: letters, the accented letters of the upper half, and the sharp s,
  which becomes two letters. The upper case of the units 181 and 255 lies beyond 255 and is no symbol; they
  are left alone, which is no symbol either.
\<close>

definition js_upper :: "char \<Rightarrow> string" where
  "js_upper c =
     (let n = of_char c :: nat
      in if n = 223 then ''SS''
         else if (97 \<le> n \<and> n \<le> 122) \<or> (224 \<le> n \<and> n \<le> 254 \<and> n \<noteq> 247) then [char_of (n - 32)] else [c])"

definition js_replace :: "char \<Rightarrow> char \<Rightarrow> string \<Rightarrow> string" where
  "js_replace a b s = map (\<lambda>c. if c = a then b else c) s"

definition normalizePairingCode :: "string \<Rightarrow> string option" where
  "normalizePairingCode input =
     (let normalized = js_replace CHR ''L'' CHR ''1'' (js_replace CHR ''I'' CHR ''1'' (js_replace CHR ''O'' CHR ''0''
            (concat (map js_upper (filter (\<lambda>c. c \<noteq> CHR ''-'' \<and> c \<noteq> CHR '' '') input)))))
      in if length normalized \<noteq> 8 then None
         else if \<not> list_all (\<lambda>symbol. symbol \<in> set CROCKFORD_ALPHABET) normalized then None
         else Some normalized)"

section \<open>Drawing a scalar\<close>

definition acceptable :: "int \<Rightarrow> byte list \<Rightarrow> bool" where
  "acceptable order b \<longleftrightarrow> length b = SCALAR_BYTES \<and> os2ip b \<noteq> 0 \<and> os2ip b < order"

lemma os2ip_nonneg: "0 \<le> os2ip b"
  by (induction b rule: rev_induct) (simp_all add: os2ip_snoc os2ip_eq)

lemma drawScalar_skips:
  assumes "acceptable order (rng (i + n))"
    and "\<And>m. m < n \<Longrightarrow> length (rng (i + m)) = SCALAR_BYTES \<and> \<not> acceptable order (rng (i + m))"
  shows "drawScalar order rng i = Some (Inr (os2ip (rng (i + n))))"
  using assms
proof (induction n arbitrary: i)
  case 0
  then show ?case by (simp add: drawScalar.simps acceptable_def Let_def)
next
  case (Suc n)
  have "drawScalar order rng i = drawScalar order rng (Suc i)"
    using Suc.prems(2) [of 0] by (subst drawScalar.simps) (auto simp: acceptable_def Let_def)
  moreover have "drawScalar order rng (Suc i) = Some (Inr (os2ip (rng (Suc i + n))))"
  proof (rule Suc.IH)
    show "acceptable order (rng (Suc i + n))" using Suc.prems(1) by simp
    show "length (rng (Suc i + m)) = SCALAR_BYTES \<and> \<not> acceptable order (rng (Suc i + m))" if "m < n" for m
      using Suc.prems(2) [of "Suc m"] that by simp
  qed
  ultimately show ?case by simp
qed

text \<open>
  C29: drawing a scalar ends as soon as the random source delivers one in range. For a source that always gives
  32 bytes and at some point gives a value of \<open>[1, order)\<close>, the loop returns, and its result is the first such
  value: nothing is reduced modulo the order, so no value of the range is favoured.
\<close>
theorem draw_scalar_terminates:
  assumes "\<forall>i. length (rng i) = SCALAR_BYTES" and "acceptable order (rng k)"
  shows "\<exists>n \<le> k. drawScalar order rng 0 = Some (Inr (os2ip (rng n))) \<and>
     1 \<le> os2ip (rng n) \<and> os2ip (rng n) < order \<and> (\<forall>m < n. \<not> acceptable order (rng m))"
proof -
  define n where "n = (LEAST n. acceptable order (rng n))"
  have n: "acceptable order (rng n)" unfolding n_def using assms(2) by (rule LeastI)
  have least: "\<not> acceptable order (rng m)" if "m < n" for m using that not_less_Least unfolding n_def by blast
  have "drawScalar order rng 0 = Some (Inr (os2ip (rng (0 + n))))"
    using assms(1) n least by (intro drawScalar_skips) auto
  moreover have "n \<le> k" unfolding n_def using assms(2) by (rule Least_le)
  moreover have "1 \<le> os2ip (rng n)" "os2ip (rng n) < order"
    using n os2ip_nonneg [of "rng n"] by (auto simp: acceptable_def)
  ultimately show ?thesis using least by auto
qed

lemma draw_scalar_terminates_witness:
  "\<exists>n \<le> (1 :: nat). drawScalar 5 (\<lambda>i. replicate 31 0 @ [if i = 0 then 7 else 3]) 0 =
     Some (Inr (os2ip (replicate 31 0 @ [if n = 0 then 7 else 3])))"
proof -
  have "acceptable 5 (replicate 31 0 @ [3])" by code_simp
  then show ?thesis
    using draw_scalar_terminates [of "\<lambda>i. replicate 31 0 @ [if i = 0 then 7 else 3]" 5 1]
    by (auto simp: SCALAR_BYTES_def)
qed

section \<open>Both sides agree\<close>

text \<open>
  What the exchange relies on: decoding inverts encoding, subtracting the mask undoes adding it, and the two
  secret scalars commute.
\<close>

definition group_laws :: "'p spake2_group \<Rightarrow> bool" where
  "group_laws g \<longleftrightarrow>
     (\<forall>p. sg_fromBytes g (sg_encodePoint g p) = Some p) \<and>
     (\<forall>p q. sg_subtract g (sg_add g p q) p = q) \<and>
     (\<forall>p a b. a \<in> {1..<sg_order g} \<longrightarrow> b \<in> {1..<sg_order g} \<longrightarrow>
        sg_multiply g (sg_multiply g p a) b = sg_multiply g (sg_multiply g p b) a)"

lemma shared_computed:
  assumes "group_laws g"
  shows "sharedFromA g w x (computePublicB g w y) = sharedSecret g x (sg_add g (sg_multiply g (sg_N g) w) (sg_multiply g (sg_BASE g) y)) (sg_N g) w"
    and "sharedFromB g w y (computePublicA g w x) = sharedSecret g y (sg_add g (sg_multiply g (sg_M g) w) (sg_multiply g (sg_BASE g) x)) (sg_M g) w"
  using assms
  by (simp_all add: group_laws_def sharedFromA_def sharedFromB_def computePublicA_def computePublicB_def decodePoint_def)

lemma shared_agree:
  assumes "group_laws g" and "x \<in> {1..<sg_order g}" and "y \<in> {1..<sg_order g}"
  shows "sharedFromA g w x (computePublicB g w y) = sharedFromB g w y (computePublicA g w x)"
proof -
  have "sg_multiply g (sg_multiply g (sg_BASE g) y) x = sg_multiply g (sg_multiply g (sg_BASE g) x) y"
    using assms by (simp add: group_laws_def)
  moreover have "\<And>p q. sg_subtract g (sg_add g p q) p = q" using assms(1) by (simp add: group_laws_def)
  ultimately show ?thesis by (simp add: shared_computed [OF assms(1)] sharedSecret_def)
qed

text \<open>A group to compute in: the residues modulo 256, a residue being its own encoding.\<close>

definition toy_group :: "byte spake2_group" where
  "toy_group =
     \<lparr> sg_fromBytes = (\<lambda>b. case b of [p] \<Rightarrow> Some p | _ \<Rightarrow> None), sg_BASE = 1, sg_order = 256, sg_cofactor = 8,
       sg_M = 3, sg_N = 5, sg_add = (+), sg_subtract = (-), sg_multiply = (\<lambda>p n. p * word_of_int n),
       sg_multiplyUnsafe = (\<lambda>p n. p * word_of_int n), sg_is0 = (\<lambda>p. p = 0), sg_encodePoint = (\<lambda>p. [p]) \<rparr>"

lemma toy_group_laws: "group_laws toy_group"
  by (simp add: group_laws_def toy_group_def mult_ac)

text \<open>
  C11: the two ends of a pairing compute the same secret. Whatever the password scalar and the two secret
  scalars are, the shared secret the extension derives from the server's share is the one the server derives
  from the extension's, and when one side meets the identity element the other does as well.
\<close>
theorem spake2_agreement:
  assumes "group_laws g" and "x \<in> {1..<sg_order g}" and "y \<in> {1..<sg_order g}"
  shows "sharedFromA g w x (computePublicB g w y) = sharedFromB g w y (computePublicA g w x)"
  using assms by (rule shared_agree)

lemma spake2_agreement_witness:
  "sharedFromA toy_group 9 2 (computePublicB toy_group 9 7) = Inr [112] \<and>
   sharedFromA toy_group 9 2 (computePublicB toy_group 9 7) = sharedFromB toy_group 9 7 (computePublicA toy_group 9 2)"
proof -
  have "sharedFromA toy_group 9 2 (computePublicB toy_group 9 7) = Inr [112]" by code_simp
  moreover have "sg_order toy_group = 256" by (simp add: toy_group_def)
  ultimately show ?thesis using spake2_agreement [OF toy_group_laws, of 2 7 9] by simp
qed

section \<open>The transcript holds the scalar\<close>

lemma i2osp_loop_eq: "0 \<le> r \<Longrightarrow> i2osp_loop k r out = (be_bytes k r @ out, r div 256 ^ k)"
proof (induction k arbitrary: r out)
  case 0
  then show ?case by (simp add: be_bytes_def)
next
  case (Suc k)
  have "and r 255 = r mod 256" using take_bit_eq_mask [of 8 r] by (simp add: take_bit_eq_mod mask_eq_exp_minus_1)
  moreover have "drop_bit 8 r = r div 256" by (simp add: drop_bit_eq_div)
  ultimately show ?case
    using Suc.IH [of "r div 256" "word_of_int (r mod 256) # out"] Suc.prems
    by (simp add: be_bytes_def zdiv_zmult2_eq)
qed

lemma i2ospScalar_Inr: "i2ospScalar w = Inr b \<Longrightarrow> length b = 32 \<and> os2ip b = w"
  by (auto simp: i2ospScalar_def i2osp_loop_eq SCALAR_BYTES_def Let_def os2ip_be_bytes div_eq_0_iff
      zdiv_eq_0_iff split: if_splits prod.splits)

lemma i2ospScalar_small: "0 \<le> w \<Longrightarrow> w < 256 ^ 32 \<Longrightarrow> i2ospScalar w = Inr (be_bytes 32 w)"
  by (simp add: i2ospScalar_def i2osp_loop_eq SCALAR_BYTES_def)

lemma deriveW_range: "deriveW scrypt code nonce order = Inr w \<Longrightarrow> 0 < order \<Longrightarrow> w \<in> {1..<order}"
proof -
  assume w: "deriveW scrypt code nonce order = Inr w" and "0 < order"
  then have "w = os2ip (scrypt (utf8ToBytes code) (utf8ToBytes ''MBP1/w/v1'' @ utf8ToBytes nonce)) mod order" "w \<noteq> 0"
    by (auto simp: deriveW_def Let_def split: sum.splits if_splits)
  moreover have "0 \<le> k mod order" "k mod order < order" for k using \<open>0 < order\<close> by simp_all
  ultimately show ?thesis using atLeastLessThan_iff by (metis int_one_le_iff_zero_less order_less_le)
qed

section \<open>Codes\<close>

lemma os2ip_less: "os2ip b < 256 ^ length b"
proof (induction b rule: rev_induct)
  case (snoc x xs)
  have "uint x < 256" using uint_lt2p [of x] by simp
  then show ?case using snoc by (simp add: os2ip_snoc)
qed (simp add: os2ip_eq)

lemma os2ip_inj: "length a = length b \<Longrightarrow> os2ip a = os2ip b \<Longrightarrow> a = b"
proof (induction a arbitrary: b rule: rev_induct)
  case (snoc x xs)
  obtain y ys where b: "b = ys @ [y]" using snoc.prems(1) by (cases b rule: rev_cases) auto
  have less: "uint x < 256" "uint y < 256" using uint_lt2p [of x] uint_lt2p [of y] by simp_all
  have eq: "os2ip xs * 256 + uint x = os2ip ys * 256 + uint y" using snoc.prems(2) b by (simp add: os2ip_snoc)
  have "os2ip xs = (os2ip xs * 256 + uint x) div 256" "os2ip ys = (os2ip ys * 256 + uint y) div 256"
    using less by simp_all
  then have "os2ip xs = os2ip ys" using eq by simp
  moreover from this have "x = y" using eq by (simp add: word_uint_eq_iff)
  ultimately show ?case using snoc.IH [of ys] snoc.prems(1) b by simp
qed simp

definition code_group :: "int \<Rightarrow> nat \<Rightarrow> int" where
  "code_group bits i = and (drop_bit (i * 5) bits) 31"

lemma code_group_take: "code_group bits i = take_bit 5 (drop_bit (i * 5) bits)"
  by (simp add: code_group_def take_bit_eq_mask mask_eq_exp_minus_1)

lemma code_group_less: "nat (code_group bits i) < 32"
  using take_bit_int_less_exp [of 5 "drop_bit (i * 5) bits"] by (simp add: code_group_take)

lemma groups_determine:
  assumes "\<And>i. i < 8 \<Longrightarrow> code_group a i = code_group b i" and "0 \<le> a" "a < 2 ^ 40" "0 \<le> b" "b < 2 ^ 40"
  shows "a = b"
proof -
  have "take_bit 40 a = take_bit 40 b"
  proof (rule bit_eqI)
    fix n
    show "bit (take_bit 40 a) n \<longleftrightarrow> bit (take_bit 40 b) n"
    proof (cases "n < 40")
      case True
      then have "bit (code_group a (n div 5)) (n mod 5) = bit (code_group b (n div 5)) (n mod 5)"
        using assms(1) [of "n div 5"] by simp
      then show ?thesis using True by (simp add: code_group_take bit_take_bit_iff bit_drop_bit_eq mult.commute)
    qed (simp add: bit_take_bit_iff)
  qed
  then show ?thesis using assms by (simp add: take_bit_int_eq_self)
qed

lemma crockford_symbols:
  "\<forall>c \<in> set CROCKFORD_ALPHABET. js_upper c = [c] \<and> c \<noteq> CHR ''-'' \<and> c \<noteq> CHR '' '' \<and> c \<noteq> CHR ''O'' \<and> c \<noteq> CHR ''I'' \<and> c \<noteq> CHR ''L''"
  by code_simp

lemma crockford_distinct: "distinct CROCKFORD_ALPHABET" "length CROCKFORD_ALPHABET = 32"
  by code_simp+

lemma generate_Inr:
  assumes "generatePairingCode r = Inr c"
  shows "length r = 5" "c = map (\<lambda>i. CROCKFORD_ALPHABET ! nat (code_group (os2ip r) i)) (rev [0..<8])"
  using assms by (auto simp: generatePairingCode_def code_group_def Let_def split: if_splits)

lemma generated_symbols: "generatePairingCode r = Inr c \<Longrightarrow> set c \<subseteq> set CROCKFORD_ALPHABET \<and> length c = 8"
  using code_group_less by (auto dest!: generate_Inr(2) simp: crockford_distinct intro!: nth_mem)

lemma generate_inj:
  assumes "generatePairingCode r = Inr c" "generatePairingCode r' = Inr c"
  shows "r = r'"
proof (rule os2ip_inj)
  show "length r = length r'" using generate_Inr(1) [OF assms(1)] generate_Inr(1) [OF assms(2)] by simp
  have "code_group (os2ip r) i = code_group (os2ip r') i" if "i < 8" for i
  proof -
    have "CROCKFORD_ALPHABET ! nat (code_group (os2ip r) i) = CROCKFORD_ALPHABET ! nat (code_group (os2ip r') i)"
      using generate_Inr(2) [OF assms(1)] generate_Inr(2) [OF assms(2)] that by (auto simp: map_eq_conv)
    then have "nat (code_group (os2ip r) i) = nat (code_group (os2ip r') i)"
      using crockford_distinct code_group_less by (simp add: nth_eq_iff_index_eq)
    then show ?thesis by (simp add: code_group_take eq_nat_nat_iff)
  qed
  moreover have "os2ip r < 2 ^ 40" "os2ip r' < 2 ^ 40"
    using os2ip_less [of r] os2ip_less [of r'] generate_Inr(1) [OF assms(1)] generate_Inr(1) [OF assms(2)] by simp_all
  ultimately show "os2ip r = os2ip r'" using groups_determine os2ip_nonneg by blast
qed

lemma replace_absent: "a \<notin> set s \<Longrightarrow> js_replace a b s = s"
  by (induction s) (auto simp: js_replace_def)

lemma upper_symbols: "set s \<subseteq> set CROCKFORD_ALPHABET \<Longrightarrow> concat (map js_upper s) = s"
  using crockford_symbols by (induction s) auto

lemma normalize_symbols:
  assumes "set c \<subseteq> set CROCKFORD_ALPHABET" and "length c = 8" and "filter (\<lambda>c. c \<noteq> CHR ''-'' \<and> c \<noteq> CHR '' '') s = c"
  shows "normalizePairingCode s = Some c"
proof -
  have "CHR ''O'' \<notin> set c" "CHR ''I'' \<notin> set c" "CHR ''L'' \<notin> set c" using assms(1) crockford_symbols by blast+
  moreover have "list_all (\<lambda>symbol. symbol \<in> set CROCKFORD_ALPHABET) c" using assms(1) by (auto simp: list_all_iff)
  ultimately show ?thesis
    using assms by (simp add: normalizePairingCode_def upper_symbols replace_absent)
qed

lemma filter_formatted:
  assumes "set c \<subseteq> set CROCKFORD_ALPHABET" and "length c = 8"
  shows "filter (\<lambda>c. c \<noteq> CHR ''-'' \<and> c \<noteq> CHR '' '') (formatPairingCode c) = c"
proof -
  have "filter (\<lambda>c. c \<noteq> CHR ''-'' \<and> c \<noteq> CHR '' '') xs = xs" if "set xs \<subseteq> set c" for xs
    using that assms(1) crockford_symbols by (intro filter_True) blast
  then have "filter (\<lambda>c. c \<noteq> CHR ''-'' \<and> c \<noteq> CHR '' '') (formatPairingCode c) = take 4 c @ take 4 (drop 4 c)"
    by (simp add: formatPairingCode_def set_take_subset order_trans [OF set_take_subset set_drop_subset])
  then show ?thesis using assms(2) by (simp add: append_take_drop_id flip: take_add)
qed

text \<open>
  C32: a pairing code survives being shown and typed. Every generated code has eight symbols of the alphabet,
  reading back what the dialog displays gives the code itself, and the five random bytes it was made of are the
  only ones that give it, so all forty bits of them count.
\<close>
theorem pairing_code_roundtrip:
  assumes "generatePairingCode r = Inr c"
  shows "length c = 8 \<and> set c \<subseteq> set CROCKFORD_ALPHABET \<and> normalizePairingCode (formatPairingCode c) = Some c \<and>
     {r'. generatePairingCode r' = Inr c} = {r}"
proof -
  have c: "set c \<subseteq> set CROCKFORD_ALPHABET" "length c = 8" using generated_symbols [OF assms] by simp_all
  have "{r'. generatePairingCode r' = Inr c} = {r}" using generate_inj [OF assms] assms by blast
  then show ?thesis using c normalize_symbols [OF c filter_formatted [OF c]] by blast
qed

lemma pairing_code_roundtrip_witness:
  "normalizePairingCode ''0123-4567'' = Some ''01234567'' \<and>
   {r. generatePairingCode r = Inr ''01234567''} = {[0, 68, 50, 20, 199]}"
proof -
  have "generatePairingCode [0, 68, 50, 20, 199] = Inr ''01234567''" by code_simp
  from pairing_code_roundtrip [OF this] show ?thesis by (simp add: formatPairingCode_def)
qed

end
