(* ===== verification/Pair_Session.thy ===== *)
theory Pair_Session
  imports Reconnect_Session Spake2
begin

text \<open>
  The first pairing of an extension, \<open>core/bridge/mbp1/pair-session.ts\<close>: from \<open>pairHello\<close> through the
  SPAKE2 run to \<open>credentialCommitted\<close>. A handler runs up to its next \<open>await\<close> in one step; a flag of the state
  says which call is in flight, and its outcome is an event. The clock, the random source, admission, the
  prompt and the socket are the environment of a step, the cryptographic libraries a parameter.
\<close>

section \<open>Frames\<close>

definition POINT_BYTES :: nat where "POINT_BYTES = 32"

text \<open>The binding key travels in base64url, a ticket is any JSON value.\<close>

record pair_hello =
  ph_protocolVersion :: int
  ph_browser :: string
  ph_claimedExtensionId :: string
  ph_clientInstallationId :: string
  ph_safariInstallationKey :: "string option"
  ph_nmTicket :: "ticket_json option"
  ph_ticketBindingKey :: "string option"

definition pairHelloFrameSchema :: "pair_hello \<Rightarrow> bool" where
  "pairHelloFrameSchema f \<longleftrightarrow>
     0 \<le> ph_protocolVersion f \<and> ph_protocolVersion f \<le> 4294967295 \<and> ph_browser f \<in> set BrowserSchema \<and>
     isAscii (ph_claimedExtensionId f) \<and> isAscii (ph_clientInstallationId f) \<and>
     (case ph_safariInstallationKey f of None \<Rightarrow> True | Some k \<Rightarrow> base64UrlBytes KEY_BYTES k) \<and>
     (case ph_ticketBindingKey f of None \<Rightarrow> True | Some k \<Rightarrow> base64UrlBytes KEY_BYTES k) \<and>
     (ph_nmTicket f = None) = (ph_ticketBindingKey f = None) \<and>
     (ph_safariInstallationKey f = None \<or> ph_browser f = ''safari'')"

record confirm_a =
  ca_cA :: string
  ca_ticketProof :: "string option"

definition confirmAFrameSchema :: "confirm_a \<Rightarrow> bool" where
  "confirmAFrameSchema f \<longleftrightarrow>
     base64UrlBytes MAC_BYTES (ca_cA f) \<and>
     (case ca_ticketProof f of None \<Rightarrow> True | Some p \<Rightarrow> base64UrlBytes SIGNATURE_BYTES p)"

definition pakeAFrameSchema :: "string \<Rightarrow> bool" where "pakeAFrameSchema pA = base64UrlBytes POINT_BYTES pA"
definition pakeBFrameSchema :: "string \<Rightarrow> bool" where "pakeBFrameSchema pB = base64UrlBytes POINT_BYTES pB"
definition confirmBFrameSchema :: "string \<Rightarrow> bool" where "confirmBFrameSchema cB = base64UrlBytes MAC_BYTES cB"

definition pairAcceptFrameSchema :: "int \<Rightarrow> string \<Rightarrow> bool" where
  "pairAcceptFrameSchema protocolVersion instanceId \<longleftrightarrow>
     0 \<le> protocolVersion \<and> protocolVersion \<le> 4294967295 \<and> isAscii instanceId"

definition credentialOfferFrameSchema :: "string \<Rightarrow> string \<Rightarrow> bool" where
  "credentialOfferFrameSchema credentialId mutualKey \<longleftrightarrow> isAscii credentialId \<and> base64UrlBytes KEY_BYTES mutualKey"

definition pairErrorFrameSchema :: "int option \<Rightarrow> bool" where
  "pairErrorFrameSchema attemptsRemaining \<longleftrightarrow> (case attemptsRemaining of None \<Rightarrow> True | Some n \<Rightarrow> 0 \<le> n)"

text \<open>
  What a text frame is to the session: no JSON, an object without a string \<open>type\<close>, another type, or one of the
  three types, \<open>None\<close> when fields are missing, superfluous or of the wrong type.
\<close>

datatype pair_text =
    PtNotJson | PtNoType | PtOtherType
  | PtHello "pair_hello option" | PtPakeA "string option" | PtConfirmA "confirm_a option"

text \<open>What a decrypted frame is: no JSON, no acknowledgement, or one of a credential.\<close>

datatype ack_text = AckNotJson | AckMalformed | AckText string

text \<open>\<open>JSON.stringify\<close> of an object whose values are ASCII strings.\<close>

definition json_escape :: "char \<Rightarrow> string" where
  "json_escape c =
     (let n = of_char c :: nat;
          hex = (\<lambda>k. ''0123456789abcdef'' ! k)
      in if n = 34 then [CHR 0x5C, CHR 0x22] else if n = 92 then [CHR 0x5C, CHR 0x5C]
         else if n = 8 then [CHR 0x5C, CHR ''b''] else if n = 9 then [CHR 0x5C, CHR ''t'']
         else if n = 10 then [CHR 0x5C, CHR ''n''] else if n = 12 then [CHR 0x5C, CHR ''f'']
         else if n = 13 then [CHR 0x5C, CHR ''r'']
         else if n < 32 then [CHR 0x5C, CHR ''u'', CHR ''0'', CHR ''0'', hex (n div 16), hex (n mod 16)] else [c])"

definition json_string :: "string \<Rightarrow> string" where
  "json_string s = CHR 0x22 # concat (map json_escape s) @ [CHR 0x22]"

fun json_members :: "(string \<times> string) list \<Rightarrow> string" where
  "json_members [] = []"
| "json_members [(k, v)] = json_string k @ '':'' @ json_string v"
| "json_members ((k, v) # m) = json_string k @ '':'' @ json_string v @ '','' @ json_members m"

definition json_object :: "(string \<times> string) list \<Rightarrow> string" where
  "json_object m = ''{'' @ json_members m @ ''}''"

section \<open>The session\<close>

record 'p pair_crypto = reconnect_crypto +
  cr_group :: "'p spake2_group"
  cr_scrypt :: "byte list \<Rightarrow> byte list \<Rightarrow> byte list"
  cr_gcm_enc :: gcm_enc
  cr_gcm_dec :: gcm_dec
  cr_parseAck :: "byte list \<Rightarrow> ack_text"

record pair_deps =
  pd_nonceValid :: bool
  pd_pairNonce :: string
  pd_verifiedOrigin :: string
  pd_browser :: string
  pd_instanceId :: string
  pd_serverGeneration :: string
  pd_localToken :: string
  pd_isOfficialId :: "string \<Rightarrow> string \<Rightarrow> bool"
  pd_new_url :: url_parser

datatype pair_admission = PairAdmitted | PairBusy | PairRateLimited

datatype enqueue_outcome = EnqueueThrows | EnqueueRefused | Enqueued

datatype session_outcome = SessionPaired | SessionAborted

datatype settle_outcome = SettleOk | SettleUnavailable | SettleThrows

datatype terminal_outcome = TermPaired | TermDenied | TermExpired | TermAborted

text \<open>
  What the world answers during a step: the clock, the verdict of \<open>admit\<close>, the shared replay cache, the five
  bytes of the code, the draws of a scalar, \<open>queueDialog\<close>, \<open>settle\<close> and whether \<open>sendBinary\<close> throws.
\<close>

record pair_env =
  pe_now :: int
  pe_admit :: pair_admission
  pe_replay :: replay_cache
  pe_random5 :: "byte list"
  pe_draws :: "nat \<Rightarrow> byte list"
  pe_queue :: enqueue_outcome
  pe_settle :: "session_outcome \<Rightarrow> settle_outcome"
  pe_sendThrows :: bool

datatype pair_state =
    PS_awaitingHello | PS_awaitingPakeA | PS_awaitingConfirmA | PS_channelActive | PS_offerSent | PS_acked
  | PS_committed | PS_closed

record pake_run =
  pr_tt :: "byte list"
  pr_ke :: "byte list"
  pr_expectedCA :: "byte list"
  pr_cB :: "byte list"

record hello_context =
  hc_clientInstallationId :: string
  hc_safariInstallationKey :: "string option"
  hc_aId :: "byte list"
  hc_aad :: "byte list"
  hc_identity :: identity_tri_state
  hc_ticketBindingPub :: "byte list option"

text \<open>The last four fields: the subscription to \<open>prompt.terminal\<close>, and the three calls that are awaited.\<close>

record pair_session =
  sn_state :: pair_state
  sn_hello :: "hello_context option"
  sn_prompt :: bool
  sn_codeNormalized :: "string option"
  sn_codeExpiresAt :: int
  sn_w :: "int option"
  sn_run :: "pake_run option"
  sn_channel :: "(endpoint \<times> endpoint) option"
  sn_offeredCredentialId :: "string option"
  sn_confirmed :: bool
  sn_attempts :: nat
  sn_admitted :: bool
  sn_released :: bool
  sn_listening :: bool
  sn_publishing :: bool
  sn_offering :: bool
  sn_committing :: "string option"

record pair_dialog =
  pg_browser :: string
  pg_claimedExtensionId :: string
  pg_identity :: identity_tri_state
  pg_code :: string
  pg_pairingNonce :: string
  pg_verifiedOrigin :: string

datatype pair_frame =
    PairAccept int string
  | PakeB string
  | ConfirmB string
  | PairError pair_error_code "int option"

datatype pair_effect =
    PairText pair_frame
  | PairBinary "byte list"
  | PairClose string
  | PairAdmit pair_admission
  | PairRelease
  | PairReplay replay_cache
  | PairQueueDialog pair_dialog
  | PairSettle session_outcome
  | PairOfferProvisional credential_principal identity_tri_state
  | PairCommit string
  | PairAuthenticated endpoint endpoint string

datatype pair_event =
    PairFrameText pair_text int
  | PairFrameBinary "byte list"
  | PairPublished bool
  | PairOffered "(string \<times> string) option"
  | PairCommitted bool
  | PairPromptTerminal terminal_outcome
  | PairPromptBroken
  | PairDispose

type_synonym pair_result = "pair_session \<times> pair_effect list"

definition MAX_ATTEMPTS :: nat where "MAX_ATTEMPTS = 3"
definition CODE_LIFETIME_MS :: int where "CODE_LIFETIME_MS = 120000"

definition sn_new :: pair_session where
  "sn_new =
     \<lparr> sn_state = PS_awaitingHello, sn_hello = None, sn_prompt = False, sn_codeNormalized = None, sn_codeExpiresAt = 0,
       sn_w = None, sn_run = None, sn_channel = None, sn_offeredCredentialId = None, sn_confirmed = False,
       sn_attempts = 0, sn_admitted = False, sn_released = False, sn_listening = False, sn_publishing = False,
       sn_offering = False, sn_committing = None \<rparr>"

text \<open>Another effect before those of the rest of a handler.\<close>

definition prepend :: "pair_effect list \<Rightarrow> pair_result \<Rightarrow> pair_result" where
  "prepend es r = (fst r, es @ snd r)"

section \<open>Ending a session\<close>

definition discardRunState :: "pair_session \<Rightarrow> pair_session" where
  "discardRunState s = s \<lparr> sn_run := None, sn_w := None, sn_codeNormalized := None, sn_channel := None \<rparr>"

definition settlePrompt :: "pair_env \<Rightarrow> session_outcome \<Rightarrow> pair_session \<Rightarrow> settle_outcome \<times> pair_result" where
  "settlePrompt env outcome s =
     (if \<not> sn_prompt s then (SettleUnavailable, (s, []))
      else (pe_settle env outcome,
            (if pe_settle env outcome = SettleOk then s \<lparr> sn_prompt := False \<rparr> else s, [PairSettle outcome])))"

definition releasePendingSlot :: "pair_session \<Rightarrow> pair_result" where
  "releasePendingSlot s =
     (if \<not> sn_admitted s \<or> sn_released s then (s, []) else (s \<lparr> sn_released := True \<rparr>, [PairRelease]))"

text \<open>
  \<open>terminate\<close> catches what \<open>settle\<close> throws; the slot is released and the socket closed in any case. \<open>dispose\<close> has
  the \<open>finally\<close> without the \<open>catch\<close>: the slot is released, and then the exception leaves the call; the flag says
  that it did.
\<close>

definition sn_terminate :: "pair_env \<Rightarrow> string \<Rightarrow> pair_session \<Rightarrow> pair_result" where
  "sn_terminate env reason s =
     (if sn_state s = PS_closed then (s, [])
      else let (_, s1, es1) = settlePrompt env SessionAborted (discardRunState (s \<lparr> sn_state := PS_closed \<rparr>));
               (s2, es2) = releasePendingSlot s1
           in (s2, es1 @ es2 @ [PairClose reason]))"

definition sn_dispose :: "pair_env \<Rightarrow> pair_session \<Rightarrow> bool \<times> pair_result" where
  "sn_dispose env s =
     (if sn_state s = PS_closed then (False, (s, []))
      else let (settled, s1, es1) = settlePrompt env SessionAborted (discardRunState (s \<lparr> sn_state := PS_closed \<rparr>));
               (s2, es2) = releasePendingSlot s1
           in (settled = SettleThrows, (s2, es1 @ es2)))"

definition sendPairError :: "pair_env \<Rightarrow> pair_error_code \<Rightarrow> int option \<Rightarrow> pair_session \<Rightarrow> bool \<times> pair_result" where
  "sendPairError env code remaining s =
     (if \<not> pairErrorFrameSchema remaining then (False, sn_terminate env ''pairErrorFrameInvalid'' s)
      else (True, (s, [PairText (PairError code remaining)])))"

definition sn_fail :: "pair_env \<Rightarrow> pair_error_code \<Rightarrow> pair_session \<Rightarrow> pair_result" where
  "sn_fail env code s =
     (let (ok, s1, es1) = sendPairError env code None s
      in if \<not> ok then (s1, es1) else prepend es1 (sn_terminate env (pair_error_name code) s1))"

definition sn_violation :: "pair_env \<Rightarrow> pair_session \<Rightarrow> pair_result" where
  "sn_violation env s = sn_fail env PE_protocolViolation s"

definition sn_expire :: "pair_env \<Rightarrow> pair_session \<Rightarrow> pair_result" where
  "sn_expire env s = sn_fail env PE_expired s"

definition codeExpired :: "pair_env \<Rightarrow> pair_session \<Rightarrow> bool" where
  "codeExpired env s \<longleftrightarrow> pe_now env \<ge> sn_codeExpiresAt s"

definition failRun :: "pair_env \<Rightarrow> pair_session \<Rightarrow> pair_result" where
  "failRun env s0 =
     (let s = s0 \<lparr> sn_run := None \<rparr>
      in if sn_attempts s \<ge> MAX_ATTEMPTS then sn_fail env PE_rateLimited s
         else let (ok, s1, es1) = sendPairError env PE_codeMismatch (Some (int MAX_ATTEMPTS - int (sn_attempts s))) s
              in if \<not> ok then (s1, es1) else (s1 \<lparr> sn_state := PS_awaitingPakeA \<rparr>, es1))"

definition onPromptTerminal :: "pair_env \<Rightarrow> terminal_outcome \<Rightarrow> pair_session \<Rightarrow> pair_result" where
  "onPromptTerminal env outcome s =
     (if sn_confirmed s \<or> sn_state s = PS_closed \<or> sn_state s = PS_committed then (s, [])
      else case outcome of
             TermPaired \<Rightarrow> sn_fail env PE_pairingFailed s
           | TermExpired \<Rightarrow> sn_fail env PE_expired s
           | TermDenied \<Rightarrow> sn_fail env PE_denied s
           | TermAborted \<Rightarrow> sn_fail env PE_aborted s)"

definition onPromptContractFailure :: "pair_env \<Rightarrow> pair_session \<Rightarrow> pair_result" where
  "onPromptContractFailure env s =
     (if sn_confirmed s \<or> sn_state s = PS_closed \<or> sn_state s = PS_committed then (s, [])
      else sn_fail env PE_pairingFailed s)"

section \<open>Hello\<close>

record resolved_hello =
  rh_identity :: identity_tri_state
  rh_bindingPub :: "byte list option"
  rh_digest :: "byte list option"

text \<open>\<open>digestOf\<close>: every exception is \<open>null\<close>.\<close>

definition digestOf :: "(byte list \<Rightarrow> byte list) \<Rightarrow> ticket_json \<Rightarrow> byte list option" where
  "digestOf sha256 wire =
     (case nmTicketWireSchema wire of
        None \<Rightarrow> None
      | Some t \<Rightarrow>
          (case (fromBase64Url (ts_bindingPub t), fromBase64Url (ts_mac t)) of
             (Inr pub, Inr mac) \<Rightarrow>
               (case ticketDigest sha256
                  \<lparr> tw_v = ts_v t, tw_purpose = ts_purpose t, tw_protocolVersion = ts_protocolVersion t,
                    tw_serverGeneration = ts_serverGeneration t, tw_browser = ts_browser t,
                    tw_callerId = ts_callerId t, tw_exp = ts_exp t, tw_bindingPub = pub, tw_mac = mac \<rparr> of
                  Inl _ \<Rightarrow> None | Inr d \<Rightarrow> Some d)
           | _ \<Rightarrow> None))"

definition helloBindingKey :: "pair_hello \<Rightarrow> byte list option" where
  "helloBindingKey f =
     (case ph_ticketBindingKey f of
        None \<Rightarrow> None
      | Some k \<Rightarrow> (case fromBase64Url k of Inl _ \<Rightarrow> None | Inr b \<Rightarrow> Some b))"

text \<open>The identity, or \<open>None\<close> and the session already ended.\<close>

definition resolveIdentity ::
  "pair_deps \<Rightarrow> ('p, 'a) pair_crypto_scheme \<Rightarrow> pair_env \<Rightarrow> pair_hello \<Rightarrow> normalized_identity \<Rightarrow> pair_session \<Rightarrow>
   resolved_hello option \<times> pair_result" where
  "resolveIdentity d cr env f normalized s =
     (case ph_nmTicket f of
        None \<Rightarrow>
          (case resolveNormalizedExtensionIdentity normalized NoAttestation (pd_isOfficialId d) of
             None \<Rightarrow> (None, sn_violation env s)
           | Some r \<Rightarrow> (Some \<lparr> rh_identity = ir_identity r, rh_bindingPub = None, rh_digest = None \<rparr>, (s, [])))
      | Some wire \<Rightarrow>
          (let (verdict, replay) = verifyNmTicket (ticket_crypto.truncate cr) wire
                 \<lparr> tc_localToken = pd_localToken d, tc_serverGeneration = pd_serverGeneration d, tc_nowMs = pe_now env,
                   tc_helloBrowser = ph_browser f, tc_helloClaimedExtensionId = ph_claimedExtensionId f,
                   tc_helloTicketBindingKey = helloBindingKey f \<rparr> (pe_replay env);
               es = [PairReplay replay]
           in case verdict of
                TicketAbort _ \<Rightarrow> (None, prepend es (sn_violation env s))
              | TicketDowngrade _ pub \<Rightarrow>
                  (case digestOf (cr_sha256 cr) wire of
                     None \<Rightarrow> (None, prepend es (sn_fail env PE_pairingFailed s))
                   | Some digest \<Rightarrow>
                       (case resolveNormalizedExtensionIdentity normalized NoAttestation (pd_isOfficialId d) of
                          None \<Rightarrow> (None, prepend es (sn_violation env s))
                        | Some r \<Rightarrow> (Some \<lparr> rh_identity = ir_identity r, rh_bindingPub = Some pub, rh_digest = Some digest \<rparr>, (s, es))))
              | TicketAttested caller pub \<Rightarrow>
                  (case digestOf (cr_sha256 cr) wire of
                     None \<Rightarrow> (None, prepend es (sn_fail env PE_pairingFailed s))
                   | Some digest \<Rightarrow>
                       (case resolveNormalizedExtensionIdentity normalized (VerifiedNmTicket caller) (pd_isOfficialId d) of
                          None \<Rightarrow> (None, prepend es (sn_violation env s))
                        | Some r \<Rightarrow> (Some \<lparr> rh_identity = ir_identity r, rh_bindingPub = Some pub, rh_digest = Some digest \<rparr>, (s, es))))))"

text \<open>The \<open>try\<close> block: the code, the associated data and the client's identity; \<open>None\<close> when one of them threw.\<close>

definition code_and_binding ::
  "pair_deps \<Rightarrow> pair_env \<Rightarrow> pair_hello \<Rightarrow> resolved_hello \<Rightarrow> (string \<times> byte list \<times> byte list) option" where
  "code_and_binding d env f rh =
     (case (generatePairingCode (pe_random5 env),
            buildAad MBP1_PROTOCOL_VERSION (pd_pairNonce d) (map_option b64_bytes (ph_ticketBindingKey f)) (rh_digest rh),
            buildAId \<lparr> ci_browser = ph_browser f, ci_verifiedOrigin = pd_verifiedOrigin d,
              ci_claimedExtensionId = ph_claimedExtensionId f, ci_clientInstallationId = ph_clientInstallationId f,
              ci_safariInstallationKey = ph_safariInstallationKey f \<rparr>) of
        (Inr code, Inr aad, Inr aId) \<Rightarrow> Some (code, aad, aId)
      | _ \<Rightarrow> None)"

text \<open>From the resolved identity up to the wait for the publication of the prompt.\<close>

definition openPrompt ::
  "pair_deps \<Rightarrow> pair_env \<Rightarrow> pair_hello \<Rightarrow> resolved_hello \<Rightarrow> pair_session \<Rightarrow> pair_result" where
  "openPrompt d env f rh s =
     (case code_and_binding d env f rh of
        None \<Rightarrow> sn_fail env PE_pairingFailed s
      | Some (code, aad, aId) \<Rightarrow>
          let s1 = s \<lparr> sn_hello := Some \<lparr> hc_clientInstallationId = ph_clientInstallationId f,
                         hc_safariInstallationKey = ph_safariInstallationKey f, hc_aId = aId, hc_aad = aad,
                         hc_identity = rh_identity rh, hc_ticketBindingPub = rh_bindingPub rh \<rparr>,
                       sn_codeNormalized := Some code, sn_codeExpiresAt := pe_now env + CODE_LIFETIME_MS \<rparr>;
              dialog = \<lparr> pg_browser = ph_browser f, pg_claimedExtensionId = ph_claimedExtensionId f,
                         pg_identity = rh_identity rh, pg_code = formatPairingCode code,
                         pg_pairingNonce = pd_pairNonce d, pg_verifiedOrigin = pd_verifiedOrigin d \<rparr>
          in if \<not> pairAcceptFrameSchema MBP1_PROTOCOL_VERSION (pd_instanceId d)
             then sn_terminate env ''pairAcceptInvalid'' s1
             else prepend [PairQueueDialog dialog]
                    (case pe_queue env of
                       Enqueued \<Rightarrow> (s1 \<lparr> sn_prompt := True, sn_listening := True, sn_publishing := True \<rparr>, [])
                     | _ \<Rightarrow> sn_fail env PE_pairingFailed s1))"

text \<open>From admission on.\<close>

definition admitHello ::
  "pair_deps \<Rightarrow> ('p, 'a) pair_crypto_scheme \<Rightarrow> pair_env \<Rightarrow> pair_hello \<Rightarrow> normalized_identity \<Rightarrow> pair_session \<Rightarrow> pair_result" where
  "admitHello d cr env f normalized s =
     prepend [PairAdmit (pe_admit env)]
       (case pe_admit env of
          PairBusy \<Rightarrow> sn_fail env PE_busy s
        | PairRateLimited \<Rightarrow> sn_fail env PE_rateLimited s
        | PairAdmitted \<Rightarrow>
            (case resolveIdentity d cr env f normalized (s \<lparr> sn_admitted := True \<rparr>) of
               (None, r) \<Rightarrow> r
             | (Some rh, (s1, es)) \<Rightarrow> prepend es (openPrompt d env f rh s1)))"

definition onPairHello ::
  "pair_deps \<Rightarrow> ('p, 'a) pair_crypto_scheme \<Rightarrow> pair_env \<Rightarrow> pair_hello option \<Rightarrow> pair_session \<Rightarrow> pair_result" where
  "onPairHello d cr env body s =
     (if sn_state s \<noteq> PS_awaitingHello then sn_violation env s
      else case body of
             None \<Rightarrow> sn_violation env s
           | Some f \<Rightarrow>
               if \<not> pairHelloFrameSchema f then sn_violation env s
               else if ph_protocolVersion f \<noteq> MBP1_PROTOCOL_VERSION then sn_fail env PE_unsupportedVersion s
               else if ph_browser f \<noteq> pd_browser d then sn_violation env s
               else case normalizeExtensionIdentity (pd_new_url d)
                      \<lparr> ii_browser = pd_browser d, ii_verifiedOrigin = pd_verifiedOrigin d,
                        ii_claimedExtensionId = ph_claimedExtensionId f \<rparr> of
                      None \<Rightarrow> sn_violation env s
                    | Some normalized \<Rightarrow>
                        if (case ph_safariInstallationKey f of None \<Rightarrow> False
                            | Some k \<Rightarrow> \<not> validateBindingPub (ticket_crypto.truncate cr) (b64_bytes k))
                        then sn_violation env s
                        else admitHello d cr env f normalized s)"

definition afterPublished :: "pair_deps \<Rightarrow> pair_env \<Rightarrow> bool \<Rightarrow> pair_session \<Rightarrow> pair_result" where
  "afterPublished d env delivered s =
     (if sn_state s = PS_closed then (s, [])
      else if \<not> delivered then sn_fail env PE_pairingFailed s
      else if codeExpired env s then sn_expire env s
      else (s \<lparr> sn_state := PS_awaitingPakeA \<rparr>, [PairText (PairAccept MBP1_PROTOCOL_VERSION (pd_instanceId d))]))"

section \<open>The SPAKE2 run\<close>

definition deriveWOnce :: "pair_deps \<Rightarrow> ('p, 'a) pair_crypto_scheme \<Rightarrow> pair_session \<Rightarrow> int spake" where
  "deriveWOnce d cr s =
     (case sn_w s of
        Some w \<Rightarrow> Inr w
      | None \<Rightarrow>
          (case sn_codeNormalized s of
             None \<Rightarrow> Inl (LocalError ''no live pairing code'')
           | Some code \<Rightarrow> deriveW (cr_scrypt cr) code (pd_pairNonce d) (sg_order (cr_group cr))))"

text \<open>The run of shares \<open>pA\<close>, \<open>pB\<close> and secret \<open>k\<close>.\<close>

definition make_run ::
  "pair_deps \<Rightarrow> ('p, 'a) pair_crypto_scheme \<Rightarrow> hello_context \<Rightarrow> int \<Rightarrow> byte list \<Rightarrow> byte list \<Rightarrow> byte list \<Rightarrow> pake_run spake" where
  "make_run d cr hello w pA pB k =
     (case of_checked (buildBId (pd_instanceId d)) of
        Inl e \<Rightarrow> Inl e
      | Inr bId \<Rightarrow>
          (case buildTT (hc_aId hello) bId pA pB k w of
             Inl e \<Rightarrow> Inl e
           | Inr tt \<Rightarrow>
               let keys = keySchedule cr (cr_sha256 cr) tt (hc_aad hello);
                   (cA, cB) = confirmationMacs cr (ks_KcA keys) (ks_KcB keys) tt
               in Inr \<lparr> pr_tt = tt, pr_ke = ks_Ke keys, pr_expectedCA = cA, pr_cB = cB \<rparr>))"

text \<open>
  The two inner results that are not answered: the loop of \<open>drawScalar\<close> does not end, or the transcript
  encoding throws out of the handler. Nothing further is sent or stored then.
\<close>

definition onPakeA ::
  "pair_deps \<Rightarrow> ('p, 'a) pair_crypto_scheme \<Rightarrow> pair_env \<Rightarrow> string option \<Rightarrow> pair_session \<Rightarrow> pair_result" where
  "onPakeA d cr env body s =
     (case sn_hello s of
        None \<Rightarrow> sn_violation env s
      | Some hello \<Rightarrow>
          if sn_state s \<noteq> PS_awaitingPakeA then sn_violation env s
          else if codeExpired env s then sn_expire env s
          else
            let s1 = s \<lparr> sn_attempts := sn_attempts s + 1 \<rparr>
            in case body of
                 None \<Rightarrow> sn_violation env s1
               | Some pA64 \<Rightarrow>
                   if \<not> pakeAFrameSchema pA64 then sn_violation env s1
                   else case deriveWOnce d cr s1 of
                          Inl _ \<Rightarrow> sn_fail env PE_pairingFailed s1
                        | Inr w \<Rightarrow>
                            let s2 = s1 \<lparr> sn_w := Some w \<rparr>
                            in case drawScalar (sg_order (cr_group cr)) (pe_draws env) 0 of
                                 None \<Rightarrow> (s2, [])
                               | Some (Inl _) \<Rightarrow> sn_fail env PE_pairingFailed s2
                               | Some (Inr y) \<Rightarrow>
                                   let pA = b64_bytes pA64;
                                       pB = computePublicB (cr_group cr) w y
                                   in case sharedFromB (cr_group cr) w y pA of
                                        Inl IdentityKError \<Rightarrow> failRun env s2
                                      | Inl _ \<Rightarrow> sn_violation env s2
                                      | Inr k \<Rightarrow>
                                          (case make_run d cr hello w pA pB k of
                                             Inl _ \<Rightarrow> (s2, [])
                                           | Inr run \<Rightarrow>
                                               let s3 = s2 \<lparr> sn_run := Some run \<rparr>
                                               in if \<not> pakeBFrameSchema (toBase64Url pB)
                                                  then sn_terminate env ''pakeBInvalid'' s3
                                                  else (s3 \<lparr> sn_state := PS_awaitingConfirmA \<rparr>,
                                                        [PairText (PakeB (toBase64Url pB))])))"

text \<open>\<open>issueCredential\<close> up to its \<open>await\<close>.\<close>

definition issueCredential :: "pair_deps \<Rightarrow> pair_session \<Rightarrow> pair_result" where
  "issueCredential d s =
     (case sn_hello s of
        None \<Rightarrow> (s, [])
      | Some hello \<Rightarrow>
          (s \<lparr> sn_offering := True \<rparr>,
           [PairOfferProvisional
              \<lparr> cp_browser = pd_browser d, cp_verifiedOrigin = pd_verifiedOrigin d,
                cp_clientInstallationId = hc_clientInstallationId hello,
                cp_safariInstallationKey = hc_safariInstallationKey hello \<rparr> (hc_identity hello)]))"

text \<open>From the settled prompt on.\<close>

definition confirmRun :: "pair_deps \<Rightarrow> ('p, 'a) pair_crypto_scheme \<Rightarrow> pake_run \<Rightarrow> pair_session \<Rightarrow> pair_result" where
  "confirmRun d cr run s =
     (let (kC2S, kS2C) = pairTrafficKeys cr (pr_ke run);
          s1 = s \<lparr> sn_confirmed := True, sn_channel := Some (ep_new kS2C DIR_S2C 0 0, ep_new kC2S DIR_C2S 0 0),
                   sn_state := PS_channelActive, sn_run := None, sn_w := None, sn_codeNormalized := None \<rparr>;
          (s2, es) = releasePendingSlot s1
      in prepend (PairText (ConfirmB (toBase64Url (pr_cB run))) # es) (issueCredential d s2))"

definition onConfirmA ::
  "pair_deps \<Rightarrow> ('p, 'a) pair_crypto_scheme \<Rightarrow> pair_env \<Rightarrow> confirm_a option \<Rightarrow> pair_session \<Rightarrow> pair_result" where
  "onConfirmA d cr env body s =
     (case (sn_run s, sn_hello s) of
        (Some run, Some hello) \<Rightarrow>
          if sn_state s \<noteq> PS_awaitingConfirmA then sn_violation env s
          else if codeExpired env s then sn_expire env s
          else (case body of
                  None \<Rightarrow> sn_violation env s
                | Some f \<Rightarrow>
                    if \<not> confirmAFrameSchema f then sn_violation env s
                    else if (hc_ticketBindingPub hello \<noteq> None) \<noteq> (ca_ticketProof f \<noteq> None) then sn_violation env s
                    else
                      let macOk = (b64_bytes (ca_cA f) = pr_expectedCA run);
                          proofOk = (case (hc_ticketBindingPub hello, ca_ticketProof f) of
                              (Some pub, Some proof) \<Rightarrow>
                                verifyTicketProofStrict (ticket_crypto.truncate cr) pub (pr_tt run) (b64_bytes proof)
                            | _ \<Rightarrow> True)
                      in if \<not> macOk \<or> \<not> proofOk then failRun env s
                         else if \<not> confirmBFrameSchema (toBase64Url (pr_cB run)) then sn_terminate env ''confirmBInvalid'' s
                         else let (settled, s1, es) = settlePrompt env SessionPaired s
                              in prepend es
                                   (case settled of
                                      SettleThrows \<Rightarrow> sn_fail env PE_pairingFailed s1
                                    | SettleUnavailable \<Rightarrow> (s1, [])
                                    | SettleOk \<Rightarrow> confirmRun d cr run s1))
      | _ \<Rightarrow> sn_violation env s)"

section \<open>The credential\<close>

definition sendSealed ::
  "('p, 'a) pair_crypto_scheme \<Rightarrow> pair_env \<Rightarrow> string \<Rightarrow> pair_session \<Rightarrow> bool \<times> pair_result" where
  "sendSealed cr env frame s =
     (case sn_channel s of
        None \<Rightarrow> (False, (s, []))
      | Some (sealer, opener) \<Rightarrow>
          (case seal (cr_gcm_enc cr) sealer (utf8ToBytes frame) of
             Inl _ \<Rightarrow> (False, sn_terminate env ''envelopeSealFailed'' s)
           | Inr (bytes, sealer') \<Rightarrow>
               let s1 = s \<lparr> sn_channel := Some (sealer', opener) \<rparr>
               in if pe_sendThrows env then (False, sn_terminate env ''envelopeSealFailed'' s1)
                  else (True, (s1, [PairBinary bytes]))))"

definition afterOffered ::
  "('p, 'a) pair_crypto_scheme \<Rightarrow> pair_env \<Rightarrow> (string \<times> string) option \<Rightarrow> pair_session \<Rightarrow> pair_result" where
  "afterOffered cr env offer s =
     (case offer of
        None \<Rightarrow> sn_terminate env ''credentialPersistFailed'' s
      | Some (credentialId, mutualKeyB64) \<Rightarrow>
          if sn_state s \<noteq> PS_channelActive \<or> sn_channel s = None then (s, [])
          else if \<not> credentialOfferFrameSchema credentialId mutualKeyB64 then sn_terminate env ''credentialOfferInvalid'' s
          else snd (sendSealed cr env
                 (json_object [(''type'', ''credentialOffer''), (''credentialId'', credentialId), (''mutualKey'', mutualKeyB64)])
                 (s \<lparr> sn_offeredCredentialId := Some credentialId, sn_state := PS_offerSent \<rparr>)))"

definition sn_handleBinary :: "('p, 'a) pair_crypto_scheme \<Rightarrow> pair_env \<Rightarrow> byte list \<Rightarrow> pair_session \<Rightarrow> pair_result" where
  "sn_handleBinary cr env frame s =
     (if sn_state s = PS_closed \<or> sn_state s = PS_committed then (s, [])
      else case sn_channel s of
             None \<Rightarrow> sn_terminate env ''unexpectedBinaryFrame'' s
           | Some (sealer, opener) \<Rightarrow>
               if sn_state s \<noteq> PS_offerSent then sn_terminate env ''unexpectedBinaryFrame'' s
               else case open_frame (cr_gcm_dec cr) opener frame of
                      Inl _ \<Rightarrow> sn_terminate env ''envelopeViolation'' s
                    | Inr (plaintext, opener') \<Rightarrow>
                        let s1 = s \<lparr> sn_channel := Some (sealer, opener') \<rparr>
                        in case cr_parseAck cr plaintext of
                             AckText credentialId \<Rightarrow>
                               if \<not> isAscii credentialId \<or> Some credentialId \<noteq> sn_offeredCredentialId s1
                               then sn_terminate env ''protocolViolation'' s1
                               else (s1 \<lparr> sn_state := PS_acked, sn_committing := Some credentialId \<rparr>, [PairCommit credentialId])
                           | _ \<Rightarrow> sn_terminate env ''protocolViolation'' s1)"

definition afterCommitted ::
  "('p, 'a) pair_crypto_scheme \<Rightarrow> pair_env \<Rightarrow> bool \<Rightarrow> string \<Rightarrow> pair_session \<Rightarrow> pair_result" where
  "afterCommitted cr env ok credentialId s =
     (if \<not> ok then sn_terminate env ''credentialCommitFailed'' s
      else if sn_state s \<noteq> PS_acked \<or> sn_channel s = None then (s, [])
      else case sendSealed cr env (json_object [(''type'', ''credentialCommitted'')]) s of
             (False, r) \<Rightarrow> r
           | (True, (s1, es)) \<Rightarrow>
               (case sn_channel s1 of
                  None \<Rightarrow> (s1, es)
                | Some (sealer, opener) \<Rightarrow>
                    (s1 \<lparr> sn_state := PS_committed \<rparr>, es @ [PairAuthenticated sealer opener credentialId])))"

section \<open>Steps\<close>

definition sn_handleText ::
  "pair_deps \<Rightarrow> ('p, 'a) pair_crypto_scheme \<Rightarrow> pair_env \<Rightarrow> pair_text \<Rightarrow> int \<Rightarrow> pair_session \<Rightarrow> pair_result" where
  "sn_handleText d cr env raw byteLength s =
     (if sn_state s = PS_closed \<or> sn_state s = PS_committed then (s, [])
      else if \<not> pd_nonceValid d then sn_fail env PE_expired s
      else if sn_channel s \<noteq> None then sn_terminate env ''textAfterChannelActivation'' s
      else if byteLength > MAX_PRE_AUTH_FRAME_BYTES then sn_violation env s
      else case raw of
             PtHello body \<Rightarrow> onPairHello d cr env body s
           | PtPakeA body \<Rightarrow> onPakeA d cr env body s
           | PtConfirmA body \<Rightarrow> onConfirmA d cr env body s
           | _ \<Rightarrow> sn_violation env s)"

text \<open>
  An outcome arrives only where a call is in flight, and a terminal outcome once per prompt. What \<open>dispose\<close>
  throws is a matter of its caller.
\<close>

definition sn_step ::
  "pair_deps \<Rightarrow> ('p, 'a) pair_crypto_scheme \<Rightarrow> pair_env \<Rightarrow> pair_event \<Rightarrow> pair_session \<Rightarrow> pair_result" where
  "sn_step d cr env e s =
     (case e of
        PairFrameText raw n \<Rightarrow> sn_handleText d cr env raw n s
      | PairFrameBinary frame \<Rightarrow> sn_handleBinary cr env frame s
      | PairPublished delivered \<Rightarrow>
          if sn_publishing s then afterPublished d env delivered (s \<lparr> sn_publishing := False \<rparr>) else (s, [])
      | PairOffered offer \<Rightarrow>
          if sn_offering s then afterOffered cr env offer (s \<lparr> sn_offering := False \<rparr>) else (s, [])
      | PairCommitted ok \<Rightarrow>
          (case sn_committing s of
             Some credentialId \<Rightarrow> afterCommitted cr env ok credentialId (s \<lparr> sn_committing := None \<rparr>)
           | None \<Rightarrow> (s, []))
      | PairPromptTerminal outcome \<Rightarrow>
          if sn_listening s then onPromptTerminal env outcome (s \<lparr> sn_listening := False \<rparr>) else (s, [])
      | PairPromptBroken \<Rightarrow>
          if sn_listening s then onPromptContractFailure env (s \<lparr> sn_listening := False \<rparr>) else (s, [])
      | PairDispose \<Rightarrow> snd (sn_dispose env s))"

definition sn_suspended :: "pair_session \<Rightarrow> bool" where
  "sn_suspended s \<longleftrightarrow> sn_publishing s \<or> sn_offering s \<or> sn_committing s \<noteq> None"

end
