(* ===== verification/Pair_Invariant.thy ===== *)
theory Pair_Invariant
  imports Pair_Session
begin

text \<open>
  The invariant of a pairing session over its history: admission slots, phases and attempts, and why a
  credential is handed out; first the endings of a session and the hello keep it.
\<close>

section \<open>Histories\<close>

type_synonym pair_history = "(pair_env \<times> pair_event) list"

fun is_frame :: "pair_event \<Rightarrow> bool" where
  "is_frame (PairFrameText raw n) \<longleftrightarrow> True"
| "is_frame (PairFrameBinary f) \<longleftrightarrow> True"
| "is_frame _ \<longleftrightarrow> False"

text \<open>
  The frame pump delivers a frame only when no handler is suspended; \<open>sn_serial\<close> says that of a history.
\<close>

fun sn_serial :: "pair_deps \<Rightarrow> ('p, 'a) pair_crypto_scheme \<Rightarrow> pair_history \<Rightarrow> pair_session \<Rightarrow> bool" where
  "sn_serial d cr [] s \<longleftrightarrow> True"
| "sn_serial d cr ((env, e) # h) s \<longleftrightarrow>
     (\<not> is_frame e \<or> \<not> sn_suspended s) \<and> sn_serial d cr h (fst (sn_step d cr env e s))"

fun sn_run_from :: "pair_deps \<Rightarrow> ('p, 'a) pair_crypto_scheme \<Rightarrow> pair_history \<Rightarrow> pair_result \<Rightarrow> pair_result" where
  "sn_run_from d cr [] r = r"
| "sn_run_from d cr ((env, e) # h) r = sn_run_from d cr h (prepend (snd r) (sn_step d cr env e (fst r)))"

section \<open>The invariant\<close>

text \<open>The pending slot: taken and given back at most once, and given back by the end.\<close>

definition slot_ok :: "pair_session \<Rightarrow> pair_effect list \<Rightarrow> bool" where
  "slot_ok s es \<longleftrightarrow>
     count_list es PairRelease = (if sn_released s then 1 else 0) \<and>
     count_list es (PairAdmit PairAdmitted) = (if sn_admitted s then 1 else 0) \<and>
     (sn_released s \<longrightarrow> sn_admitted s) \<and>
     (sn_admitted s \<and> (sn_state s = PS_closed \<or> sn_confirmed s) \<longrightarrow> sn_released s)"

fun is_pakeB :: "pair_effect \<Rightarrow> bool" where
  "is_pakeB (PairText (PakeB b)) \<longleftrightarrow> True"
| "is_pakeB _ \<longleftrightarrow> False"

definition runs_answered :: "pair_effect list \<Rightarrow> nat" where
  "runs_answered es = length (filter is_pakeB es)"

text \<open>
  The phases: what is set in which state. A run is there exactly while its confirmation is awaited, the scalar at
  most while runs can happen, the code exactly from the queued dialog to the end of the runs, and a channel
  exactly from the confirmation on.
\<close>

definition phase_ok :: "pair_session \<Rightarrow> pair_effect list \<Rightarrow> bool" where
  "phase_ok s es \<longleftrightarrow>
     (sn_publishing s \<longrightarrow> sn_state s \<in> {PS_awaitingHello, PS_closed}) \<and>
     (sn_state s = PS_awaitingHello \<longrightarrow> sn_admitted s = sn_publishing s \<and> sn_attempts s = 0) \<and>
     (\<not> sn_admitted s \<longrightarrow> sn_state s \<in> {PS_awaitingHello, PS_closed} \<and> sn_hello s = None) \<and>
     (sn_run s \<noteq> None) = (sn_state s = PS_awaitingConfirmA) \<and>
     (sn_w s \<noteq> None \<longrightarrow> sn_state s \<in> {PS_awaitingPakeA, PS_awaitingConfirmA}) \<and>
     (sn_state s = PS_awaitingConfirmA \<longrightarrow> sn_w s \<noteq> None) \<and>
     (sn_codeNormalized s \<noteq> None) =
       (sn_state s = PS_awaitingHello \<and> sn_publishing s \<or> sn_state s \<in> {PS_awaitingPakeA, PS_awaitingConfirmA}) \<and>
     (sn_state s = PS_awaitingHello \<and> sn_publishing s \<or>
      sn_state s \<in> {PS_awaitingPakeA, PS_awaitingConfirmA, PS_channelActive, PS_offerSent, PS_acked, PS_committed} \<longrightarrow>
        sn_hello s \<noteq> None) \<and>
     (sn_channel s \<noteq> None) = (sn_state s \<in> {PS_channelActive, PS_offerSent, PS_acked, PS_committed}) \<and>
     runs_answered es \<le> sn_attempts s \<and> runs_answered es \<le> MAX_ATTEMPTS \<and>
     (sn_state s = PS_awaitingPakeA \<longrightarrow> runs_answered es < MAX_ATTEMPTS) \<and>
     (sn_state s \<in> {PS_awaitingHello, PS_awaitingPakeA, PS_awaitingConfirmA} \<longrightarrow> \<not> sn_confirmed s) \<and>
     (sn_state s \<in> {PS_channelActive, PS_offerSent, PS_acked, PS_committed} \<longrightarrow> sn_confirmed s) \<and>
     (sn_offering s \<longrightarrow> sn_state s \<in> {PS_channelActive, PS_closed} \<and> sn_confirmed s) \<and>
     (sn_committing s \<noteq> None \<longrightarrow> sn_state s \<in> {PS_acked, PS_closed})"

text \<open>
  A hello is the origin of a context and a code when a received hello frame names the installation, the code is
  drawn in its step, the identity and the associated data are built from its fields, and the ticket key is there
  exactly when it brought a ticket, and then is the key it announced. The code is shown when a dialog with it was
  queued for that hello. A run is a run of a code when its transcript and keys come from the code's scalar; a
  confirmation proves the code of a run when it carries the run's MAC and, where the hello brought a ticket, a
  valid proof of the ticket's key over the transcript.
\<close>

definition hello_of ::
  "pair_deps \<Rightarrow> ('p, 'a) pair_crypto_scheme \<Rightarrow> pair_env \<Rightarrow> pair_hello \<Rightarrow> string \<Rightarrow> hello_context \<Rightarrow> bool" where
  "hello_of d cr env f c hello \<longleftrightarrow>
     pairHelloFrameSchema f \<and> ph_protocolVersion f = MBP1_PROTOCOL_VERSION \<and> ph_browser f = pd_browser d \<and>
     pe_admit env = PairAdmitted \<and>
     generatePairingCode (pe_random5 env) = Inr c \<and>
     hc_clientInstallationId hello = ph_clientInstallationId f \<and>
     hc_safariInstallationKey hello = ph_safariInstallationKey f \<and>
     buildAId \<lparr> ci_browser = ph_browser f, ci_verifiedOrigin = pd_verifiedOrigin d,
       ci_claimedExtensionId = ph_claimedExtensionId f, ci_clientInstallationId = ph_clientInstallationId f,
       ci_safariInstallationKey = ph_safariInstallationKey f \<rparr> = Inr (hc_aId hello) \<and>
     buildAad MBP1_PROTOCOL_VERSION (pd_pairNonce d) (map_option b64_bytes (ph_ticketBindingKey f))
       (case ph_nmTicket f of None \<Rightarrow> None | Some wire \<Rightarrow> digestOf (cr_sha256 cr) wire) = Inr (hc_aad hello) \<and>
     (case ph_nmTicket f of
        None \<Rightarrow> hc_ticketBindingPub hello = None
      | Some wire \<Rightarrow> helloBindingKey f \<noteq> None \<and> hc_ticketBindingPub hello = helloBindingKey f)"

definition hello_shown ::
  "pair_deps \<Rightarrow> ('p, 'a) pair_crypto_scheme \<Rightarrow> pair_history \<Rightarrow> pair_effect list \<Rightarrow> string \<Rightarrow> hello_context \<Rightarrow> bool" where
  "hello_shown d cr h es c hello \<longleftrightarrow>
     (\<exists>env f n dialog. (env, PairFrameText (PtHello (Some f)) n) \<in> set h \<and> hello_of d cr env f c hello \<and>
        PairQueueDialog dialog \<in> set es \<and> pg_code dialog = formatPairingCode c \<and>
        pg_claimedExtensionId dialog = ph_claimedExtensionId f \<and> pg_identity dialog = hc_identity hello \<and>
        pg_verifiedOrigin dialog = pd_verifiedOrigin d)"

definition run_of_code ::
  "pair_deps \<Rightarrow> ('p, 'a) pair_crypto_scheme \<Rightarrow> string \<Rightarrow> hello_context \<Rightarrow> pake_run \<Rightarrow> bool" where
  "run_of_code d cr c hello run \<longleftrightarrow>
     (\<exists>w y pA k. deriveW (cr_scrypt cr) c (pd_pairNonce d) (sg_order (cr_group cr)) = Inr w \<and>
        sharedFromB (cr_group cr) w y pA = Inr k \<and>
        make_run d cr hello w pA (computePublicB (cr_group cr) w y) k = Inr run)"

definition confirms :: "('p, 'a) pair_crypto_scheme \<Rightarrow> hello_context \<Rightarrow> pake_run \<Rightarrow> confirm_a \<Rightarrow> bool" where
  "confirms cr hello run f \<longleftrightarrow>
     confirmAFrameSchema f \<and> b64_bytes (ca_cA f) = pr_expectedCA run \<and>
     (case hc_ticketBindingPub hello of
        None \<Rightarrow> ca_ticketProof f = None
      | Some pub \<Rightarrow> \<exists>proof. ca_ticketProof f = Some proof \<and>
          verifyTicketProofStrict (ticket_crypto.truncate cr) pub (pr_tt run) (b64_bytes proof))"

definition code_proved ::
  "pair_deps \<Rightarrow> ('p, 'a) pair_crypto_scheme \<Rightarrow> pair_history \<Rightarrow> pair_effect list \<Rightarrow> pake_run \<Rightarrow> bool" where
  "code_proved d cr h es run \<longleftrightarrow>
     (\<exists>c hello env f n. hello_shown d cr h es c hello \<and> run_of_code d cr c hello run \<and> confirms cr hello run f \<and>
        (env, PairFrameText (PtConfirmA (Some f)) n) \<in> set h \<and> PairSettle SessionPaired \<in> set es \<and>
        pe_settle env SessionPaired = SettleOk)"

definition offered_durably :: "pair_history \<Rightarrow> string \<Rightarrow> bool" where
  "offered_durably h cid \<longleftrightarrow> (\<exists>env key. (env, PairOffered (Some (cid, key))) \<in> set h)"

text \<open>
  The channel of a run has its two traffic keys, and a credential was acknowledged on it when a received frame
  hello_shown, under the key of the peer's direction, to an acknowledgement of it.
\<close>

definition keys_of :: "('p, 'a) pair_crypto_scheme \<Rightarrow> pake_run \<Rightarrow> endpoint \<Rightarrow> endpoint \<Rightarrow> bool" where
  "keys_of cr run sealer opener \<longleftrightarrow>
     ep_key sealer = snd (pairTrafficKeys cr (pr_ke run)) \<and> ep_key opener = fst (pairTrafficKeys cr (pr_ke run))"

definition acknowledged :: "('p, 'a) pair_crypto_scheme \<Rightarrow> pair_history \<Rightarrow> pake_run \<Rightarrow> string \<Rightarrow> bool" where
  "acknowledged cr h run cid \<longleftrightarrow>
     (\<exists>env frame opener opener' plaintext. (env, PairFrameBinary frame) \<in> set h \<and>
        ep_key opener = fst (pairTrafficKeys cr (pr_ke run)) \<and>
        open_frame (cr_gcm_dec cr) opener frame = Inr (plaintext, opener') \<and> cr_parseAck cr plaintext = AckText cid)"

text \<open>
  Why a credential may be used: the peer knew the shown code, the credential was stored, acknowledged on the
  channel of that run and committed, and the channel that is handed out is the one of that run.
\<close>

definition paired_properly ::
  "pair_deps \<Rightarrow> ('p, 'a) pair_crypto_scheme \<Rightarrow> pair_history \<Rightarrow> pair_effect list \<Rightarrow> endpoint \<Rightarrow> endpoint \<Rightarrow> string \<Rightarrow> bool" where
  "paired_properly d cr h es a b cid \<longleftrightarrow>
     (\<exists>run. code_proved d cr h es run \<and> keys_of cr run a b \<and> acknowledged cr h run cid) \<and>
     offered_durably h cid \<and> PairCommit cid \<in> set es \<and> (\<exists>env. (env, PairCommitted True) \<in> set h)"

text \<open>What is known of a channel: its run, and that a commit in flight was acknowledged on it.\<close>

definition channel_ok ::
  "pair_deps \<Rightarrow> ('p, 'a) pair_crypto_scheme \<Rightarrow> pair_history \<Rightarrow> pair_effect list \<Rightarrow> string option \<Rightarrow>
   (endpoint \<times> endpoint) option \<Rightarrow> bool" where
  "channel_ok d cr h es committing ch \<longleftrightarrow>
     (case ch of None \<Rightarrow> True
      | Some (a, b) \<Rightarrow> \<exists>run. code_proved d cr h es run \<and> keys_of cr run a b \<and>
          (\<forall>cid. committing = Some cid \<longrightarrow> acknowledged cr h run cid))"

definition proof_ok ::
  "pair_deps \<Rightarrow> ('p, 'a) pair_crypto_scheme \<Rightarrow> pair_history \<Rightarrow> pair_session \<Rightarrow> pair_effect list \<Rightarrow> bool" where
  "proof_ok d cr h s es \<longleftrightarrow>
     (\<forall>c. sn_codeNormalized s = Some c \<longrightarrow> (\<exists>hello. sn_hello s = Some hello \<and> hello_shown d cr h es c hello)) \<and>
     (\<forall>w. sn_w s = Some w \<longrightarrow>
        (\<exists>c hello. sn_hello s = Some hello \<and> hello_shown d cr h es c hello \<and>
           deriveW (cr_scrypt cr) c (pd_pairNonce d) (sg_order (cr_group cr)) = Inr w)) \<and>
     (\<forall>run. sn_run s = Some run \<longrightarrow>
        (\<exists>c hello. sn_hello s = Some hello \<and> hello_shown d cr h es c hello \<and> run_of_code d cr c hello run)) \<and>
     channel_ok d cr h es (sn_committing s) (sn_channel s) \<and>
     (\<forall>cid. sn_offeredCredentialId s = Some cid \<longrightarrow> sn_confirmed s \<and> offered_durably h cid) \<and>
     (\<forall>cid. sn_committing s = Some cid \<longrightarrow> sn_offeredCredentialId s = Some cid \<and> PairCommit cid \<in> set es) \<and>
     (\<forall>a b cid. PairAuthenticated a b cid \<in> set es \<longrightarrow> paired_properly d cr h es a b cid)"

definition sn_inv ::
  "pair_deps \<Rightarrow> ('p, 'a) pair_crypto_scheme \<Rightarrow> pair_history \<Rightarrow> pair_result \<Rightarrow> bool" where
  "sn_inv d cr h r \<longleftrightarrow> slot_ok (fst r) (snd r) \<and> phase_ok (fst r) (snd r) \<and> proof_ok d cr h (fst r) (snd r)"

lemma sn_inv_new: "sn_inv d cr h (sn_new, [])"
  by (simp add: sn_inv_def slot_ok_def phase_ok_def proof_ok_def channel_ok_def sn_new_def runs_answered_def MAX_ATTEMPTS_def)

section \<open>More history, more effects\<close>

lemma runs_answered_append [simp]: "runs_answered (es @ es') = runs_answered es + runs_answered es'"
  by (simp add: runs_answered_def)

lemma hello_shown_mono:
  "hello_shown d cr h es c hello \<Longrightarrow> set h \<subseteq> set h' \<Longrightarrow> set es \<subseteq> set es' \<Longrightarrow> hello_shown d cr h' es' c hello"
  unfolding hello_shown_def by blast

lemma code_proved_mono:
  "code_proved d cr h es run \<Longrightarrow> set h \<subseteq> set h' \<Longrightarrow> set es \<subseteq> set es' \<Longrightarrow> code_proved d cr h' es' run"
  unfolding code_proved_def using hello_shown_mono by (metis subsetD)

lemma acknowledged_mono: "acknowledged cr h run cid \<Longrightarrow> set h \<subseteq> set h' \<Longrightarrow> acknowledged cr h' run cid"
  unfolding acknowledged_def by blast

lemma channel_ok_mono:
  "channel_ok d cr h es co ch \<Longrightarrow> set h \<subseteq> set h' \<Longrightarrow> set es \<subseteq> set es' \<Longrightarrow> channel_ok d cr h' es' co ch"
proof (cases ch)
  case (Some ab)
  then show "channel_ok d cr h es co ch \<Longrightarrow> set h \<subseteq> set h' \<Longrightarrow> set es \<subseteq> set es' \<Longrightarrow> channel_ok d cr h' es' co ch"
    unfolding channel_ok_def by (cases ab) (simp, meson code_proved_mono acknowledged_mono)
qed (simp add: channel_ok_def)

lemma paired_properly_mono:
  "paired_properly d cr h es a b cid \<Longrightarrow> set h \<subseteq> set h' \<Longrightarrow> set es \<subseteq> set es' \<Longrightarrow> paired_properly d cr h' es' a b cid"
  unfolding paired_properly_def offered_durably_def using code_proved_mono acknowledged_mono by blast

lemma proof_ok_grow:
  assumes "proof_ok d cr h s es" and "set h \<subseteq> set h'" and "set es \<subseteq> set es'"
    and "\<And>a b cid. PairAuthenticated a b cid \<in> set es' \<Longrightarrow>
      PairAuthenticated a b cid \<in> set es \<or> paired_properly d cr h' es' a b cid"
  shows "proof_ok d cr h' s es'"
proof -
  have shown: "\<And>c hello. hello_shown d cr h es c hello \<Longrightarrow> hello_shown d cr h' es' c hello"
    using hello_shown_mono assms(2,3) by blast
  have chan: "channel_ok d cr h es co ch \<Longrightarrow> channel_ok d cr h' es' co ch" for co ch
    using channel_ok_mono assms(2,3) by blast
  have offered: "\<And>cid. offered_durably h cid \<Longrightarrow> offered_durably h' cid"
    using assms(2) by (auto simp: offered_durably_def)
  have paired: "\<And>a b cid. paired_properly d cr h es a b cid \<Longrightarrow> paired_properly d cr h' es' a b cid"
    using paired_properly_mono assms(2,3) by blast
  note pf = assms(1) [unfolded proof_ok_def]
  show ?thesis
    unfolding proof_ok_def
  proof (intro conjI)
    show "channel_ok d cr h' es' (sn_committing s) (sn_channel s)" using pf chan by blast
    show "\<forall>cid. sn_committing s = Some cid \<longrightarrow> sn_offeredCredentialId s = Some cid \<and> PairCommit cid \<in> set es'"
      using pf assms(3) by blast
    show "\<forall>a b cid. PairAuthenticated a b cid \<in> set es' \<longrightarrow> paired_properly d cr h' es' a b cid"
      using pf assms(4) paired by blast
  qed (use pf shown offered in blast)+
qed

lemma proof_ok_mono:
  assumes "proof_ok d cr h s es" and "set h \<subseteq> set h'" and "set es \<subseteq> set es'"
    and "\<And>a b cid. PairAuthenticated a b cid \<in> set es' \<Longrightarrow> PairAuthenticated a b cid \<in> set es"
  shows "proof_ok d cr h' s es'"
  using assms by (intro proof_ok_grow [OF assms(1-3)]) blast

lemma sn_inv_history: "sn_inv d cr h r \<Longrightarrow> set h \<subseteq> set h' \<Longrightarrow> sn_inv d cr h' r"
  unfolding sn_inv_def using proof_ok_mono by blast

text \<open>What holds in the middle of a handler, whatever phase it is about to enter.\<close>

definition live_inv ::
  "pair_deps \<Rightarrow> ('p, 'a) pair_crypto_scheme \<Rightarrow> pair_history \<Rightarrow> pair_effect list \<Rightarrow> pair_session \<Rightarrow> bool" where
  "live_inv d cr h es s \<longleftrightarrow>
     sn_state s \<noteq> PS_closed \<and>
     count_list es PairRelease = (if sn_released s then 1 else 0) \<and>
     count_list es (PairAdmit PairAdmitted) = (if sn_admitted s then 1 else 0) \<and>
     (sn_released s \<longrightarrow> sn_admitted s) \<and> (sn_admitted s \<and> sn_confirmed s \<longrightarrow> sn_released s) \<and>
     (\<not> sn_admitted s \<longrightarrow> sn_hello s = None) \<and> (sn_offering s \<longrightarrow> sn_confirmed s) \<and>
     runs_answered es \<le> sn_attempts s \<and> runs_answered es \<le> MAX_ATTEMPTS \<and>
     proof_ok d cr h (discardRunState s) es"

lemma proof_ok_discard: "proof_ok d cr h s es \<Longrightarrow> proof_ok d cr h (discardRunState s) es"
  unfolding proof_ok_def channel_ok_def by (simp add: discardRunState_def)

lemma proof_of_inv: "sn_inv d cr h (s, es) \<Longrightarrow> proof_ok d cr h s es"
  by (simp add: sn_inv_def)

lemma live_of_inv: "sn_inv d cr h (s, es) \<Longrightarrow> sn_state s \<noteq> PS_closed \<Longrightarrow> live_inv d cr h es s"
  using proof_ok_discard [OF proof_of_inv]
  unfolding sn_inv_def slot_ok_def phase_ok_def live_inv_def fst_conv snd_conv
  by (elim conjE, intro conjI; blast)

text \<open>Effects that the invariant does not speak of.\<close>

fun benign :: "pair_effect \<Rightarrow> bool" where
  "benign PairRelease \<longleftrightarrow> False"
| "benign (PairAdmit a) \<longleftrightarrow> a \<noteq> PairAdmitted"
| "benign (PairText (PakeB b)) \<longleftrightarrow> False"
| "benign (PairAuthenticated a b c) \<longleftrightarrow> False"
| "benign _ \<longleftrightarrow> True"

lemma benign_counts:
  assumes "list_all benign es"
  shows "count_list es PairRelease = 0" "count_list es (PairAdmit PairAdmitted) = 0" "runs_answered es = 0"
    "PairAuthenticated a b c \<notin> set es"
proof -
  have "runs_answered es = 0" using assms
    unfolding runs_answered_def by (induction es) (auto elim!: is_pakeB.elims)
  moreover have "PairRelease \<notin> set es" "PairAdmit PairAdmitted \<notin> set es" "PairAuthenticated a b c \<notin> set es"
    using assms by (fastforce simp: list_all_iff)+
  ultimately show "count_list es PairRelease = 0" "count_list es (PairAdmit PairAdmitted) = 0" "runs_answered es = 0"
    "PairAuthenticated a b c \<notin> set es" by (simp_all add: count_list_0_iff)
qed

lemma proof_ok_benign: "proof_ok d cr h s es \<Longrightarrow> list_all benign es' \<Longrightarrow> proof_ok d cr h s (es @ es')"
  by (erule proof_ok_mono) (auto dest: benign_counts(4))

lemma live_benign: "live_inv d cr h es s \<Longrightarrow> list_all benign es' \<Longrightarrow> live_inv d cr h (es @ es') s"
  by (simp add: live_inv_def benign_counts proof_ok_benign)

section \<open>Endings keep the invariant\<close>

definition sn_good ::
  "pair_deps \<Rightarrow> ('p, 'a) pair_crypto_scheme \<Rightarrow> pair_history \<Rightarrow> pair_effect list \<Rightarrow> pair_result \<Rightarrow> bool" where
  "sn_good d cr h es r \<longleftrightarrow> sn_inv d cr h (fst r, es @ snd r)"

lemma good_prepend: "sn_good d cr h es (prepend es' r) = sn_good d cr h (es @ es') r"
  by (simp add: sn_good_def prepend_def)

lemma settle_eq:
  "snd (settlePrompt env outcome s) =
     (s \<lparr> sn_prompt := sn_prompt s \<and> pe_settle env outcome \<noteq> SettleOk \<rparr>, if sn_prompt s then [PairSettle outcome] else [])"
  by (cases "sn_prompt s"; cases "pe_settle env outcome = SettleOk") (auto simp: settlePrompt_def)

lemma release_eq:
  "releasePendingSlot s =
     (s \<lparr> sn_released := sn_released s \<or> sn_admitted s \<rparr>, if sn_admitted s \<and> \<not> sn_released s then [PairRelease] else [])"
  by (cases "sn_admitted s"; cases "sn_released s") (auto simp: releasePendingSlot_def)

definition closed_of :: "pair_env \<Rightarrow> pair_session \<Rightarrow> pair_session" where
  "closed_of env s = discardRunState (s \<lparr> sn_state := PS_closed \<rparr>)
     \<lparr> sn_prompt := sn_prompt s \<and> pe_settle env SessionAborted \<noteq> SettleOk, sn_released := sn_released s \<or> sn_admitted s \<rparr>"

definition closing_effects :: "pair_session \<Rightarrow> pair_effect list" where
  "closing_effects s =
     (if sn_prompt s then [PairSettle SessionAborted] else []) @ (if sn_admitted s \<and> \<not> sn_released s then [PairRelease] else [])"

lemma terminate_eq:
  "sn_state s \<noteq> PS_closed \<Longrightarrow> sn_terminate env reason s = (closed_of env s, closing_effects s @ [PairClose reason])"
  unfolding sn_terminate_def case_prod_beta settle_eq release_eq closed_of_def closing_effects_def Let_def
  by (simp add: discardRunState_def)

text \<open>A prompt that is still held throws out of \<open>dispose\<close> when its \<open>settle\<close> throws.\<close>

lemma dispose_eq:
  "sn_state s \<noteq> PS_closed \<Longrightarrow>
   sn_dispose env s = (sn_prompt s \<and> pe_settle env SessionAborted = SettleThrows, (closed_of env s, closing_effects s))"
  unfolding sn_dispose_def case_prod_beta settle_eq release_eq closed_of_def closing_effects_def Let_def
  by (simp add: discardRunState_def settlePrompt_def)

lemma dispose_closed: "sn_state s = PS_closed \<Longrightarrow> sn_dispose env s = (False, (s, []))"
  by (simp add: sn_dispose_def)

lemma fail_eq:
  "sn_state s \<noteq> PS_closed \<Longrightarrow>
   sn_fail env code s =
     (closed_of env s, PairText (PairError code None) # closing_effects s @ [PairClose (pair_error_name code)])"
  by (simp add: sn_fail_def sendPairError_def pairErrorFrameSchema_def terminate_eq prepend_def)

lemma closed_of_simps [simp]:
  "sn_state (closed_of env s) = PS_closed" "sn_hello (closed_of env s) = sn_hello s"
  "sn_codeNormalized (closed_of env s) = None" "sn_w (closed_of env s) = None" "sn_run (closed_of env s) = None"
  "sn_channel (closed_of env s) = None" "sn_offeredCredentialId (closed_of env s) = sn_offeredCredentialId s"
  "sn_confirmed (closed_of env s) = sn_confirmed s" "sn_attempts (closed_of env s) = sn_attempts s"
  "sn_admitted (closed_of env s) = sn_admitted s" "sn_released (closed_of env s) = (sn_released s \<or> sn_admitted s)"
  "sn_listening (closed_of env s) = sn_listening s" "sn_publishing (closed_of env s) = sn_publishing s"
  "sn_offering (closed_of env s) = sn_offering s" "sn_committing (closed_of env s) = sn_committing s"
  by (simp_all add: closed_of_def discardRunState_def)

lemma closing_counts:
  "count_list (closing_effects s) PairRelease = (if sn_admitted s \<and> \<not> sn_released s then 1 else 0)"
  "count_list (closing_effects s) (PairAdmit PairAdmitted) = 0" "runs_answered (closing_effects s) = 0"
  "PairAuthenticated a b c \<notin> set (closing_effects s)"
  by (simp_all add: closing_effects_def runs_answered_def)

lemma proof_ok_closed:
  "proof_ok d cr h (discardRunState s) es \<Longrightarrow> proof_ok d cr h (closed_of env s) es"
  unfolding proof_ok_def channel_ok_def by (simp add: discardRunState_def)

lemma closed_inv:
  assumes "live_inv d cr h es s" and "list_all benign es'" and "list_all benign es''"
  shows "sn_inv d cr h (closed_of env s, es @ es' @ closing_effects s @ es'')"
proof -
  note live = assms(1) [unfolded live_inv_def]
  note b' = benign_counts [OF assms(2)] and b'' = benign_counts [OF assms(3)]
  have "slot_ok (closed_of env s) (es @ es' @ closing_effects s @ es'')"
    using live by (auto simp: slot_ok_def b' b'' closing_counts)
  moreover have "phase_ok (closed_of env s) (es @ es' @ closing_effects s @ es'')"
    using live by (simp add: phase_ok_def b' b'' closing_counts)
  moreover have "proof_ok d cr h (closed_of env s) (es @ es' @ closing_effects s @ es'')"
    using live b'(4) b''(4) closing_counts(4) by (intro proof_ok_mono [OF proof_ok_closed]) auto
  ultimately show ?thesis by (simp add: sn_inv_def)
qed

lemma sn_good_terminate: "live_inv d cr h es s \<Longrightarrow> sn_good d cr h es (sn_terminate env reason s)"
  using closed_inv [of d cr h es s "[]" "[PairClose reason]" env]
  by (simp add: sn_good_def terminate_eq live_inv_def)

lemma sn_good_fail: "live_inv d cr h es s \<Longrightarrow> sn_good d cr h es (sn_fail env code s)"
  using closed_inv [of d cr h es s "[PairText (PairError code None)]" "[PairClose (pair_error_name code)]" env]
  by (simp add: sn_good_def fail_eq live_inv_def)

lemma good_violation: "live_inv d cr h es s \<Longrightarrow> sn_good d cr h es (sn_violation env s)"
  by (simp add: sn_violation_def sn_good_fail)

lemma good_expire: "live_inv d cr h es s \<Longrightarrow> sn_good d cr h es (sn_expire env s)"
  by (simp add: sn_expire_def sn_good_fail)

lemmas good_endings = sn_good_terminate sn_good_fail good_violation good_expire

lemma good_dispose:
  assumes "sn_inv d cr h (s, es)"
  shows "sn_good d cr h es (snd (sn_dispose env s))"
  using assms closed_inv [OF live_of_inv [OF assms], of "[]" "[]" env]
  by (cases "sn_state s = PS_closed") (simp_all add: sn_good_def dispose_closed dispose_eq)

section \<open>The handlers keep the invariant\<close>

text \<open>The part of the conversation in which runs happen.\<close>

definition handshaking :: "pair_session \<Rightarrow> bool" where
  "handshaking s \<longleftrightarrow> sn_admitted s \<and> \<not> sn_publishing s \<and> \<not> sn_confirmed s \<and> sn_channel s = None \<and> \<not> sn_offering s \<and>
     sn_committing s = None \<and> sn_hello s \<noteq> None \<and> sn_codeNormalized s \<noteq> None"

lemma phaseD:
  assumes "phase_ok s es"
  shows "sn_publishing s \<Longrightarrow> sn_state s \<in> {PS_awaitingHello, PS_closed}"
    and "\<not> sn_admitted s \<Longrightarrow> sn_state s \<in> {PS_awaitingHello, PS_closed}"
    and "sn_state s \<in> {PS_channelActive, PS_offerSent, PS_acked, PS_committed} \<Longrightarrow> sn_confirmed s"
    and "sn_offering s \<Longrightarrow> sn_state s \<in> {PS_channelActive, PS_closed}"
    and "sn_committing s \<noteq> None \<Longrightarrow> sn_state s \<in> {PS_acked, PS_closed}"
    and "sn_state s \<in> {PS_awaitingHello, PS_awaitingPakeA, PS_awaitingConfirmA} \<Longrightarrow> \<not> sn_confirmed s"
    and "sn_state s \<in> {PS_awaitingHello, PS_awaitingPakeA, PS_awaitingConfirmA, PS_closed} \<Longrightarrow> sn_channel s = None"
    and "sn_state s \<in> {PS_channelActive, PS_offerSent, PS_acked, PS_committed} \<Longrightarrow>
      sn_channel s \<noteq> None \<and> sn_run s = None \<and> sn_w s = None \<and> sn_codeNormalized s = None \<and> sn_hello s \<noteq> None"
    and "sn_state s \<in> {PS_awaitingPakeA, PS_awaitingConfirmA} \<Longrightarrow> sn_hello s \<noteq> None \<and> sn_codeNormalized s \<noteq> None"
    and "sn_state s = PS_awaitingPakeA \<Longrightarrow> sn_run s = None"
proof -
  note phase = assms [unfolded phase_ok_def]
  show "sn_publishing s \<Longrightarrow> sn_state s \<in> {PS_awaitingHello, PS_closed}"
    "\<not> sn_admitted s \<Longrightarrow> sn_state s \<in> {PS_awaitingHello, PS_closed}"
    "sn_state s \<in> {PS_channelActive, PS_offerSent, PS_acked, PS_committed} \<Longrightarrow> sn_confirmed s"
    "sn_offering s \<Longrightarrow> sn_state s \<in> {PS_channelActive, PS_closed}"
    "sn_committing s \<noteq> None \<Longrightarrow> sn_state s \<in> {PS_acked, PS_closed}"
    "sn_state s \<in> {PS_awaitingHello, PS_awaitingPakeA, PS_awaitingConfirmA} \<Longrightarrow> \<not> sn_confirmed s"
    using phase by blast+
  have run: "(sn_run s \<noteq> None) = (sn_state s = PS_awaitingConfirmA)"
    and chan: "(sn_channel s \<noteq> None) = (sn_state s \<in> {PS_channelActive, PS_offerSent, PS_acked, PS_committed})"
    and w: "sn_w s \<noteq> None \<longrightarrow> sn_state s \<in> {PS_awaitingPakeA, PS_awaitingConfirmA}"
    and code: "(sn_codeNormalized s \<noteq> None) =
       (sn_state s = PS_awaitingHello \<and> sn_publishing s \<or> sn_state s \<in> {PS_awaitingPakeA, PS_awaitingConfirmA})"
    and hello: "sn_state s \<in> {PS_awaitingPakeA, PS_awaitingConfirmA, PS_channelActive, PS_offerSent, PS_acked, PS_committed} \<longrightarrow>
        sn_hello s \<noteq> None"
    using phase by blast+
  show "sn_channel s = None" if "sn_state s \<in> {PS_awaitingHello, PS_awaitingPakeA, PS_awaitingConfirmA, PS_closed}"
    using chan that by (cases "sn_channel s") auto
  show "sn_channel s \<noteq> None \<and> sn_run s = None \<and> sn_w s = None \<and> sn_codeNormalized s = None \<and> sn_hello s \<noteq> None"
    if "sn_state s \<in> {PS_channelActive, PS_offerSent, PS_acked, PS_committed}"
  proof (intro conjI)
    show "sn_channel s \<noteq> None" using chan that by blast
    show "sn_run s = None" using run that by auto
    show "sn_w s = None" using w that by auto
    show "sn_codeNormalized s = None" using code that by auto
    show "sn_hello s \<noteq> None" using hello that by auto
  qed
  show "sn_hello s \<noteq> None \<and> sn_codeNormalized s \<noteq> None" if "sn_state s \<in> {PS_awaitingPakeA, PS_awaitingConfirmA}"
    using hello code that by blast
  show "sn_run s = None" if "sn_state s = PS_awaitingPakeA" using run that by auto
qed

lemma handshaking_of_inv:
  assumes "sn_inv d cr h (s, es)" and "sn_state s \<in> {PS_awaitingPakeA, PS_awaitingConfirmA}"
  shows "handshaking s"
proof -
  have "phase_ok s es" using assms(1) by (simp add: sn_inv_def)
  note phase = phaseD [OF this]
  have "sn_admitted s" by (cases "sn_admitted s") (use phase(2) assms(2) in auto)
  moreover have "\<not> sn_publishing s" using phase(1) assms(2) by auto
  moreover have "\<not> sn_confirmed s" using phase(6) assms(2) by auto
  moreover have "sn_channel s = None" using phase(7) assms(2) by auto
  moreover have "\<not> sn_offering s" using phase(4) assms(2) by auto
  moreover have "sn_committing s = None" by (cases "sn_committing s") (use phase(5) assms(2) in auto)
  moreover have "sn_hello s \<noteq> None \<and> sn_codeNormalized s \<noteq> None" using phase(9) assms(2) by blast
  ultimately show ?thesis unfolding handshaking_def by blast
qed

lemma proof_ok_state [simp]:
  "proof_ok d cr h (s \<lparr> sn_state := st \<rparr>) es = proof_ok d cr h s es"
  "proof_ok d cr h (s \<lparr> sn_attempts := n \<rparr>) es = proof_ok d cr h s es"
  "proof_ok d cr h (s \<lparr> sn_publishing := p \<rparr>) es = proof_ok d cr h s es"
  "proof_ok d cr h (s \<lparr> sn_listening := l \<rparr>) es = proof_ok d cr h s es"
  "proof_ok d cr h (s \<lparr> sn_prompt := q \<rparr>) es = proof_ok d cr h s es"
  "proof_ok d cr h (s \<lparr> sn_offering := q \<rparr>) es = proof_ok d cr h s es"
  "proof_ok d cr h (s \<lparr> sn_admitted := q \<rparr>) es = proof_ok d cr h s es"
  "proof_ok d cr h (s \<lparr> sn_codeExpiresAt := t \<rparr>) es = proof_ok d cr h s es"
  by (simp_all add: proof_ok_def)

text \<open>A handler that leaves a session in the middle of the conversation.\<close>

lemma good_stay:
  assumes "live_inv d cr h es s" and "proof_ok d cr h s es" and "list_all benign es'"
    and "phase_ok (s \<lparr> sn_state := st \<rparr>) es" and "st \<noteq> PS_closed"
  shows "sn_good d cr h es (s \<lparr> sn_state := st \<rparr>, es')"
proof -
  note live = assms(1) [unfolded live_inv_def] and b = benign_counts [OF assms(3)]
  have "slot_ok (s \<lparr> sn_state := st \<rparr>) (es @ es')" using live assms(5) by (simp add: slot_ok_def b)
  moreover have "phase_ok (s \<lparr> sn_state := st \<rparr>) (es @ es')" using assms(4) unfolding phase_ok_def by (simp add: b)
  moreover have "proof_ok d cr h (s \<lparr> sn_state := st \<rparr>) (es @ es')"
    using proof_ok_benign [OF assms(2,3)] by simp
  ultimately show ?thesis by (simp add: sn_good_def sn_inv_def)
qed

lemma proof_ok_no_run: "proof_ok d cr h s es \<Longrightarrow> proof_ok d cr h (s \<lparr> sn_run := None \<rparr>) es"
  unfolding proof_ok_def by simp

lemma live_no_run: "live_inv d cr h es s \<Longrightarrow> live_inv d cr h es (s \<lparr> sn_run := None \<rparr>)"
  unfolding live_inv_def by (simp add: discardRunState_def)

lemma good_failRun:
  assumes "live_inv d cr h es s" and "proof_ok d cr h s es" and "handshaking s"
  shows "sn_good d cr h es (failRun env s)"
proof (cases "sn_attempts s \<ge> MAX_ATTEMPTS")
  case True
  then show ?thesis using sn_good_fail [OF live_no_run [OF assms(1)]] by (simp add: failRun_def)
next
  case False
  let ?s = "s \<lparr> sn_run := None \<rparr>" and ?e = "PairText (PairError PE_codeMismatch (Some (int MAX_ATTEMPTS - int (sn_attempts s))))"
  have "failRun env s = (?s \<lparr> sn_state := PS_awaitingPakeA \<rparr>, [?e])"
    using False by (simp add: failRun_def sendPairError_def pairErrorFrameSchema_def)
  moreover have "sn_good d cr h es (?s \<lparr> sn_state := PS_awaitingPakeA \<rparr>, [?e])"
  proof (rule good_stay [OF live_no_run [OF assms(1)] proof_ok_no_run [OF assms(2)]])
    show "phase_ok (?s \<lparr> sn_state := PS_awaitingPakeA \<rparr>) es"
      using assms False by (simp add: phase_ok_def handshaking_def live_inv_def)
  qed simp_all
  ultimately show ?thesis by simp
qed

text \<open>What the resolution of a hello yields: the ticket's digest, and its key when it brought one.\<close>

definition resolved_from :: "('p, 'a) pair_crypto_scheme \<Rightarrow> pair_hello \<Rightarrow> resolved_hello \<Rightarrow> bool" where
  "resolved_from cr f rh \<longleftrightarrow>
     (case ph_nmTicket f of
        None \<Rightarrow> rh_digest rh = None \<and> rh_bindingPub rh = None
      | Some wire \<Rightarrow> rh_digest rh = digestOf (cr_sha256 cr) wire \<and> helloBindingKey f \<noteq> None \<and>
          rh_bindingPub rh = helloBindingKey f)"

lemma resolved_ticket:
  "resolved_from cr f \<lparr> rh_identity = i, rh_bindingPub = Some pub, rh_digest = Some digest \<rparr>"
  if "ph_nmTicket f = Some wire" "digestOf (cr_sha256 cr) wire = Some digest" "helloBindingKey f = Some pub"
  using that by (simp add: resolved_from_def)

lemma ticket_key_announced:
  assumes "verifyNmTicket tc wire ctx replay = (verdict, replay')"
    and "verdict = TicketDowngrade r pub \<or> verdict = TicketAttested c pub"
  shows "tc_helloTicketBindingKey ctx = Some pub"
  using assms by (auto simp: verifyNmTicket_def Let_def split: option.splits prod.splits if_splits)

lemma resolve_shape:
  "(\<exists>rh es. resolveIdentity d cr env f n s = (Some rh, (s, es)) \<and> list_all benign es \<and> resolved_from cr f rh) \<or>
   (\<exists>es code. resolveIdentity d cr env f n s = (None, prepend es (sn_fail env code s)) \<and> list_all benign es)"
proof (cases "ph_nmTicket f")
  case None
  have "prepend [] r = r" for r :: pair_result by (simp add: prepend_def)
  then have "sn_violation env s = prepend [] (sn_fail env PE_protocolViolation s)" by (simp add: sn_violation_def)
  then show ?thesis using None
    by (cases "resolveNormalizedExtensionIdentity n NoAttestation (pd_isOfficialId d)")
      (fastforce simp: resolveIdentity_def resolved_from_def)+
next
  case (Some wire)
  define ctx where "ctx = \<lparr> tc_localToken = pd_localToken d, tc_serverGeneration = pd_serverGeneration d,
      tc_nowMs = pe_now env, tc_helloBrowser = ph_browser f, tc_helloClaimedExtensionId = ph_claimedExtensionId f,
      tc_helloTicketBindingKey = helloBindingKey f \<rparr>"
  obtain verdict replay where v: "verifyNmTicket (ticket_crypto.truncate cr) wire ctx (pe_replay env) = (verdict, replay)"
    by fastforce
  have pub: "helloBindingKey f = Some pub" if "verdict = TicketDowngrade r pub \<or> verdict = TicketAttested c pub" for r c pub
    using ticket_key_announced [OF v that] by (simp add: ctx_def)
  have ended: ?thesis if "resolveIdentity d cr env f n s = (None, prepend [PairReplay replay] (sn_fail env code s))" for code
    using that by (intro disjI2) (rule exI [where x = "[PairReplay replay]"], rule exI [where x = code], simp)
  have went: ?thesis if "resolveIdentity d cr env f n s = (Some rh, (s, [PairReplay replay]))" "resolved_from cr f rh" for rh
    using that by (intro disjI1) (rule exI [where x = rh], rule exI [where x = "[PairReplay replay]"], simp)
  note step = resolveIdentity_def Some option.case Let_def v [unfolded ctx_def] prod.case sn_violation_def
  show ?thesis
  proof (cases verdict)
    case (TicketAbort r)
    show ?thesis by (rule ended) (simp add: step TicketAbort)
  next
    case (TicketDowngrade r p)
    show ?thesis
    proof (cases "digestOf (cr_sha256 cr) wire")
      case None
      show ?thesis by (rule ended) (simp add: step TicketDowngrade None)
    next
      case dig: (Some digest)
      show ?thesis
      proof (cases "resolveNormalizedExtensionIdentity n NoAttestation (pd_isOfficialId d)")
        case None
        show ?thesis by (rule ended) (simp add: step TicketDowngrade dig None)
      next
        case (Some i)
        show ?thesis
          by (rule went [OF _ resolved_ticket [OF \<open>ph_nmTicket f = Some wire\<close> dig pub]])
            (simp_all add: step TicketDowngrade dig Some)
      qed
    qed
  next
    case (TicketAttested c p)
    show ?thesis
    proof (cases "digestOf (cr_sha256 cr) wire")
      case None
      show ?thesis by (rule ended) (simp add: step TicketAttested None)
    next
      case dig: (Some digest)
      show ?thesis
      proof (cases "resolveNormalizedExtensionIdentity n (VerifiedNmTicket c) (pd_isOfficialId d)")
        case None
        show ?thesis by (rule ended) (simp add: step TicketAttested dig None)
      next
        case (Some i)
        show ?thesis
          by (rule went [OF _ resolved_ticket [OF \<open>ph_nmTicket f = Some wire\<close> dig pub]])
            (simp_all add: step TicketAttested dig Some)
      qed
    qed
  qed
qed

lemma hello_of_binding:
  assumes "code_and_binding d env f rh = Some (code, aad, aId)" and "resolved_from cr f rh"
    and "pairHelloFrameSchema f" "ph_protocolVersion f = MBP1_PROTOCOL_VERSION" "ph_browser f = pd_browser d"
    and "pe_admit env = PairAdmitted"
  shows "hello_of d cr env f code \<lparr> hc_clientInstallationId = ph_clientInstallationId f,
     hc_safariInstallationKey = ph_safariInstallationKey f, hc_aId = aId, hc_aad = aad,
     hc_identity = rh_identity rh, hc_ticketBindingPub = rh_bindingPub rh \<rparr>"
  using assms unfolding hello_of_def
  by (auto simp: code_and_binding_def resolved_from_def split: sum.splits option.splits)

section \<open>Hello\<close>

lemma good_hello_opened:
  assumes "live_inv d cr h es s" and "sn_admitted s" "\<not> sn_confirmed s" "sn_channel s = None" "sn_state s = PS_awaitingHello"
    "sn_attempts s = 0" "sn_w s = None" "sn_run s = None" "sn_committing s = None" "sn_offeredCredentialId s = None"
    and hello: "(env, PairFrameText (PtHello (Some f)) n) \<in> set h" "resolved_from cr f rh" "pairHelloFrameSchema f"
      "ph_protocolVersion f = MBP1_PROTOCOL_VERSION" "ph_browser f = pd_browser d" "pe_admit env = PairAdmitted"
  shows "sn_good d cr h es (openPrompt d env f rh s)"
proof (cases "code_and_binding d env f rh")
  case None
  then show ?thesis using sn_good_fail [OF assms(1)] by (simp add: openPrompt_def)
next
  case (Some t)
  obtain code aad aId where t: "t = (code, aad, aId)" by (cases t)
  define hc where "hc = \<lparr> hc_clientInstallationId = ph_clientInstallationId f,
        hc_safariInstallationKey = ph_safariInstallationKey f, hc_aId = aId, hc_aad = aad,
        hc_identity = rh_identity rh, hc_ticketBindingPub = rh_bindingPub rh \<rparr>"
  have from_hello: "hello_of d cr env f code hc"
    unfolding hc_def by (rule hello_of_binding [OF Some [unfolded t] hello(2-6)])
  define s1 where "s1 = s \<lparr> sn_hello := Some hc,
      sn_codeNormalized := Some code, sn_codeExpiresAt := pe_now env + CODE_LIFETIME_MS \<rparr>"
  define dialog where "dialog = \<lparr> pg_browser = ph_browser f, pg_claimedExtensionId = ph_claimedExtensionId f,
      pg_identity = rh_identity rh, pg_code = formatPairingCode code,
      pg_pairingNonce = pd_pairNonce d, pg_verifiedOrigin = pd_verifiedOrigin d \<rparr>"
  have step: "openPrompt d env f rh s =
      (if \<not> pairAcceptFrameSchema MBP1_PROTOCOL_VERSION (pd_instanceId d) then sn_terminate env ''pairAcceptInvalid'' s1
       else prepend [PairQueueDialog dialog]
              (case pe_queue env of
                 Enqueued \<Rightarrow> (s1 \<lparr> sn_prompt := True, sn_listening := True, sn_publishing := True \<rparr>, [])
               | _ \<Rightarrow> sn_fail env PE_pairingFailed s1))"
    unfolding openPrompt_def Some t option.case prod.case s1_def dialog_def hc_def Let_def by (rule refl)
  have live: "live_inv d cr h es s1" using assms(1,2) by (simp add: live_inv_def s1_def discardRunState_def proof_ok_def channel_ok_def)
  have queued: "sn_good d cr h (es @ [PairQueueDialog dialog])
      ((s1 \<lparr> sn_prompt := True, sn_listening := True, sn_publishing := True \<rparr>) \<lparr> sn_state := PS_awaitingHello \<rparr>, [])"
  proof (rule good_stay)
    let ?s = "s1 \<lparr> sn_prompt := True, sn_listening := True, sn_publishing := True \<rparr>"
    have "live_inv d cr h (es @ [PairQueueDialog dialog]) s1" using live by (rule live_benign) simp
    then show "live_inv d cr h (es @ [PairQueueDialog dialog]) ?s" by (simp add: live_inv_def discardRunState_def proof_ok_def channel_ok_def)
    have pf: "proof_ok d cr h (discardRunState s1) (es @ [PairQueueDialog dialog])"
      using \<open>live_inv d cr h (es @ [PairQueueDialog dialog]) s1\<close> by (simp add: live_inv_def)
    have "hello_shown d cr h (es @ [PairQueueDialog dialog]) code hc"
      unfolding hello_shown_def using hello(1) from_hello
      by (intro exI [where x = env] exI [where x = f] exI [where x = n] exI [where x = dialog])
        (simp add: dialog_def hc_def)
    then show "proof_ok d cr h ?s (es @ [PairQueueDialog dialog])"
      using pf assms(4,7,8) by (simp add: proof_ok_def channel_ok_def discardRunState_def s1_def)
    show "phase_ok (?s \<lparr> sn_state := PS_awaitingHello \<rparr>) (es @ [PairQueueDialog dialog])"
      using assms live by (simp add: phase_ok_def s1_def live_inv_def runs_answered_def)
  qed simp_all
  have "sn_state s1 = PS_awaitingHello" using assms(5) by (simp add: s1_def)
  then have "(s1 \<lparr> sn_prompt := True, sn_listening := True, sn_publishing := True \<rparr>) \<lparr> sn_state := PS_awaitingHello \<rparr> =
      s1 \<lparr> sn_prompt := True, sn_listening := True, sn_publishing := True \<rparr>" by simp
  then show ?thesis
    using sn_good_terminate [OF live] queued sn_good_fail [OF live_benign [OF live]]
    by (cases "pe_queue env") (simp_all add: step good_prepend)
qed

lemma good_admit:
  assumes "sn_inv d cr h (s, es)" and "sn_state s = PS_awaitingHello" and "\<not> sn_publishing s"
    and hello: "(env, PairFrameText (PtHello (Some f)) k) \<in> set h" "pairHelloFrameSchema f"
      "ph_protocolVersion f = MBP1_PROTOCOL_VERSION" "ph_browser f = pd_browser d"
  shows "sn_good d cr h es (admitHello d cr env f n s)"
proof -
  have live: "live_inv d cr h es s" using assms(1,2) by (intro live_of_inv) simp_all
  have phase: "phase_ok s es" and pf: "proof_ok d cr h s es" using assms(1) by (simp_all add: sn_inv_def)
  have fresh: "\<not> sn_admitted s" "\<not> sn_confirmed s" "sn_channel s = None" "sn_attempts s = 0" "sn_w s = None"
      "sn_run s = None" "sn_committing s = None" "sn_offeredCredentialId s = None" "\<not> sn_released s"
  proof -
    show "\<not> sn_admitted s" "\<not> sn_confirmed s" "sn_attempts s = 0" "sn_w s = None" "sn_run s = None"
      "sn_committing s = None" using phase assms(2,3) by (simp_all add: phase_ok_def)
    show "sn_channel s = None" using phaseD(7) [OF phase] assms(2) by simp
    have "\<not> sn_admitted s" "\<not> sn_confirmed s" using phase assms(2,3) by (simp_all add: phase_ok_def)
    then show "\<not> sn_released s" "sn_offeredCredentialId s = None"
      using live pf unfolding live_inv_def proof_ok_def by (blast, cases "sn_offeredCredentialId s") simp_all
  qed
  have adm: "live_inv d cr h (es @ [PairAdmit PairAdmitted]) (s \<lparr> sn_admitted := True \<rparr>)"
  proof -
    have "proof_ok d cr h (discardRunState s) (es @ [PairAdmit PairAdmitted])"
      using proof_ok_discard [OF pf] by (rule proof_ok_mono) auto
    then have "proof_ok d cr h (discardRunState (s \<lparr> sn_admitted := True \<rparr>)) (es @ [PairAdmit PairAdmitted])"
      by (simp add: proof_ok_def discardRunState_def)
    then show ?thesis using live fresh by (simp add: live_inv_def runs_answered_def)
  qed
  have go: "pe_admit env = PairAdmitted \<Longrightarrow> sn_good d cr h (es @ [PairAdmit PairAdmitted])
      (case resolveIdentity d cr env f n (s \<lparr> sn_admitted := True \<rparr>) of (None, r) \<Rightarrow> r | (Some rh, (s1, es1)) \<Rightarrow> prepend es1 (openPrompt d env f rh s1))"
    using resolve_shape [of d cr env f n "s \<lparr> sn_admitted := True \<rparr>"]
  proof (elim disjE exE conjE)
    fix rh es1
    assume 1: "resolveIdentity d cr env f n (s \<lparr> sn_admitted := True \<rparr>) = (Some rh, (s \<lparr> sn_admitted := True \<rparr>, es1))" "list_all benign es1"
      "resolved_from cr f rh" and adm': "pe_admit env = PairAdmitted"
    have "sn_good d cr h ((es @ [PairAdmit PairAdmitted]) @ es1) (openPrompt d env f rh (s \<lparr> sn_admitted := True \<rparr>))"
      by (rule good_hello_opened [OF live_benign [OF adm 1(2)], where n = k]) (simp_all add: fresh assms(2) hello [simplified] 1(3) adm')
    then show ?thesis by (simp add: 1(1) good_prepend)
  next
    fix es1 code
    assume 1: "resolveIdentity d cr env f n (s \<lparr> sn_admitted := True \<rparr>) =
        (None, prepend es1 (sn_fail env code (s \<lparr> sn_admitted := True \<rparr>)))" "list_all benign es1"
    show ?thesis using sn_good_fail [OF live_benign [OF adm 1(2)]] by (simp add: 1(1) good_prepend)
  qed
  have refused: "sn_good d cr h (es @ [PairAdmit a]) (sn_fail env code s)" if "a \<noteq> PairAdmitted" for a code
    using that by (intro sn_good_fail live_benign [OF live]) simp
  show ?thesis
  proof (cases "pe_admit env")
    case PairAdmitted
    show ?thesis unfolding admitHello_def PairAdmitted pair_admission.case good_prepend by (rule go [OF PairAdmitted])
  qed (simp_all add: admitHello_def good_prepend refused)
qed

lemma good_hello:
  assumes "sn_inv d cr h (s, es)" and "sn_state s \<noteq> PS_closed" and "\<not> sn_publishing s"
    and "(env, PairFrameText (PtHello body) k) \<in> set h"
  shows "sn_good d cr h es (onPairHello d cr env body s)"
proof (cases "\<exists>f. body = Some f \<and> sn_state s = PS_awaitingHello \<and> pairHelloFrameSchema f \<and>
    ph_protocolVersion f = MBP1_PROTOCOL_VERSION \<and> ph_browser f = pd_browser d")
  case True
  then obtain f where f: "body = Some f" "sn_state s = PS_awaitingHello" "pairHelloFrameSchema f"
    "ph_protocolVersion f = MBP1_PROTOCOL_VERSION" "ph_browser f = pd_browser d" by blast
  have "sn_good d cr h es (admitHello d cr env f x s)" for x
    by (rule good_admit [OF assms(1) f(2) assms(3)]) (use assms(4) f in simp_all)
  then show ?thesis using good_violation [OF live_of_inv [OF assms(1,2)]] f
    by (simp add: onPairHello_def split: option.split)
next
  case False
  then show ?thesis using good_endings [OF live_of_inv [OF assms(1,2)]]
    unfolding onPairHello_def by (auto split: option.split)
qed

lemma good_published:
  assumes "sn_inv d cr h (s, es)" and "sn_publishing s"
  shows "sn_good d cr h es (afterPublished d env delivered (s \<lparr> sn_publishing := False \<rparr>))"
proof (cases "sn_state s = PS_closed")
  case True
  have "slot_ok (s \<lparr> sn_publishing := False \<rparr>) es" "phase_ok (s \<lparr> sn_publishing := False \<rparr>) es"
      "proof_ok d cr h (s \<lparr> sn_publishing := False \<rparr>) es"
    using assms(1) True by (simp_all add: sn_inv_def slot_ok_def phase_ok_def)
  then show ?thesis using True by (simp add: afterPublished_def sn_good_def sn_inv_def)
next
  case False
  let ?s = "s \<lparr> sn_publishing := False \<rparr>"
  have phase: "phase_ok s es" using assms(1) by (simp add: sn_inv_def)
  have pf: "proof_ok d cr h ?s es" using proof_of_inv [OF assms(1)] by simp
  have live: "live_inv d cr h es ?s"
    using live_of_inv [OF assms(1) False] proof_ok_discard [OF pf] by (simp add: live_inv_def)
  have "sn_state s = PS_awaitingHello" using phase assms(2) False by (simp add: phase_ok_def)
  then have "phase_ok (?s \<lparr> sn_state := PS_awaitingPakeA \<rparr>) es"
    using phase assms(2) by (auto simp: phase_ok_def MAX_ATTEMPTS_def)
  then have "sn_good d cr h es (?s \<lparr> sn_state := PS_awaitingPakeA \<rparr>, [PairText (PairAccept MBP1_PROTOCOL_VERSION (pd_instanceId d))])"
    by (intro good_stay [OF live pf]) simp_all
  then show ?thesis using False sn_good_fail [OF live] good_expire [OF live] by (simp add: afterPublished_def)
qed

lemma inv_listening: "sn_inv d cr h (s \<lparr> sn_listening := l \<rparr>, es) = sn_inv d cr h (s, es)"
  by (simp add: sn_inv_def slot_ok_def phase_ok_def)

lemma good_prompt:
  assumes "sn_inv d cr h (s, es)"
  shows "sn_good d cr h es (onPromptTerminal env outcome (s \<lparr> sn_listening := False \<rparr>))"
    and "sn_good d cr h es (onPromptContractFailure env (s \<lparr> sn_listening := False \<rparr>))"
proof -
  have inv: "sn_inv d cr h (s \<lparr> sn_listening := False \<rparr>, es)" using assms by (simp add: inv_listening)
  have idle: "sn_good d cr h es (s \<lparr> sn_listening := False \<rparr>, [])" using inv by (simp add: sn_good_def)
  have fail: "sn_state s \<noteq> PS_closed \<Longrightarrow> sn_good d cr h es (sn_fail env code (s \<lparr> sn_listening := False \<rparr>))" for code
    using sn_good_fail [OF live_of_inv [OF inv]] by simp
  show "sn_good d cr h es (onPromptTerminal env outcome (s \<lparr> sn_listening := False \<rparr>))"
    using idle fail by (cases outcome) (simp_all add: onPromptTerminal_def)
  show "sn_good d cr h es (onPromptContractFailure env (s \<lparr> sn_listening := False \<rparr>))"
    using idle fail by (simp add: onPromptContractFailure_def)
qed

section \<open>Runs\<close>

lemma live_counted: "live_inv d cr h es s \<Longrightarrow> live_inv d cr h es (s \<lparr> sn_attempts := sn_attempts s + 1 \<rparr>)"
  unfolding live_inv_def by (simp add: discardRunState_def proof_ok_def)

lemma live_w: "live_inv d cr h es s \<Longrightarrow> live_inv d cr h es (s \<lparr> sn_w := w \<rparr>)"
  unfolding live_inv_def by (simp add: discardRunState_def)

lemma live_set_run: "live_inv d cr h es s \<Longrightarrow> live_inv d cr h es (s \<lparr> sn_run := r \<rparr>)"
  unfolding live_inv_def by (simp add: discardRunState_def)

end
