(* ===== verification/Pair_Example.thy ===== *)
theory Pair_Example
  imports Pair_Invariant
begin

text \<open>
  A pairing that runs to its end, step by step: the concrete sessions on which the properties of the pair
  session are instantiated.
\<close>

section \<open>A deployment\<close>

text \<open>A deployment to run a pairing on: residues modulo 256 in encodings of 32 bytes, and constant MACs.\<close>

definition wide_group :: "byte spake2_group" where
  "wide_group =
     \<lparr> sg_fromBytes = (\<lambda>b. if length b = 32 then Some (last b) else None), sg_BASE = 1, sg_order = 256,
       sg_cofactor = 8, sg_M = 3, sg_N = 5, sg_add = (+), sg_subtract = (-), sg_multiply = (\<lambda>p n. p * word_of_int n),
       sg_multiplyUnsafe = (\<lambda>p n. p * word_of_int n), sg_is0 = (\<lambda>p. p = 0), sg_encodePoint = (\<lambda>p. replicate 31 0 @ [p]) \<rparr>"

definition toy_pc :: "(byte) pair_crypto" where
  "toy_pc = \<lparr> cr_hmac = (\<lambda>k m. replicate 32 0), cr_hkdf32 = (\<lambda>k s i. k), cr_point_ok = (\<lambda>p. True),
     cr_ed25519_verify = (\<lambda>s m p. True), cr_sha256 = (\<lambda>b. []), cr_group = wide_group, cr_scrypt = (\<lambda>p s. [9]),
     cr_gcm_enc = (\<lambda>k n a pt. (pt, replicate 16 0)), cr_gcm_dec = (\<lambda>k n a ct tag. Some ct),
     cr_parseAck = (\<lambda>p. AckText ''id'') \<rparr>"

definition toy_pd :: pair_deps where
  "toy_pd = \<lparr> pd_nonceValid = True, pd_pairNonce = ''n'', pd_verifiedOrigin = ''chrome-extension://lggbokfckofcgjndaboioakcmincinpo'',
     pd_browser = ''chromium'', pd_instanceId = ''i'', pd_serverGeneration = ''g'', pd_localToken = ''t'',
     pd_isOfficialId = (\<lambda>b i. True), pd_new_url = toy_url \<rparr>"

definition toy_pe :: "int \<Rightarrow> pair_env" where
  "toy_pe now = \<lparr> pe_now = now, pe_admit = PairAdmitted, pe_replay = [], pe_random5 = [0, 68, 50, 20, 199],
     pe_draws = (\<lambda>i. replicate 31 0 @ [7]), pe_queue = Enqueued, pe_settle = (\<lambda>t. SettleOk), pe_sendThrows = False \<rparr>"

definition toy_hello :: pair_hello where
  "toy_hello = \<lparr> ph_protocolVersion = 1, ph_browser = ''chromium'', ph_claimedExtensionId = ''lggbokfckofcgjndaboioakcmincinpo'',
     ph_clientInstallationId = ''c'', ph_safariInstallationKey = None, ph_nmTicket = None, ph_ticketBindingKey = None \<rparr>"

definition zeros43 :: string where "zeros43 = ''AAAAAAAAAAAAAAAAAAAAAAAAAAAAAAAAAAAAAAAAAAA''"

section \<open>The steps\<close>

definition toy_hc :: hello_context where
  "toy_hc = \<lparr> hc_clientInstallationId = ''c'', hc_safariInstallationKey = None,
     hc_aId = (case buildAId \<lparr> ci_browser = ''chromium'', ci_verifiedOrigin = pd_verifiedOrigin toy_pd,
         ci_claimedExtensionId = ''lggbokfckofcgjndaboioakcmincinpo'', ci_clientInstallationId = ''c'',
         ci_safariInstallationKey = None \<rparr> of Inr b \<Rightarrow> b | Inl _ \<Rightarrow> []),
     hc_aad = (case buildAad 1 ''n'' None None of Inr b \<Rightarrow> b | Inl _ \<Rightarrow> []),
     hc_identity = IdOfficial, hc_ticketBindingPub = None \<rparr>"

definition toy_dialog :: pair_dialog where
  "toy_dialog = \<lparr> pg_browser = ''chromium'', pg_claimedExtensionId = ''lggbokfckofcgjndaboioakcmincinpo'',
     pg_identity = IdOfficial, pg_code = ''0123-4567'', pg_pairingNonce = ''n'',
     pg_verifiedOrigin = ''chrome-extension://lggbokfckofcgjndaboioakcmincinpo'' \<rparr>"

definition toy_s1 :: pair_session where
  "toy_s1 = sn_new \<lparr> sn_admitted := True, sn_hello := Some toy_hc, sn_codeNormalized := Some ''01234567'',
     sn_codeExpiresAt := 120000, sn_prompt := True, sn_listening := True, sn_publishing := True \<rparr>"

definition toy_s2 :: pair_session where
  "toy_s2 = toy_s1 \<lparr> sn_publishing := False, sn_state := PS_awaitingPakeA \<rparr>"

definition toy_pake_run :: pake_run where
  "toy_pake_run = (case make_run toy_pd toy_pc toy_hc 9 (replicate 31 0 @ [29]) (replicate 31 0 @ [52]) (replicate 31 0 @ [112])
     of Inr r \<Rightarrow> r | Inl _ \<Rightarrow> \<lparr> pr_tt = [], pr_ke = [], pr_expectedCA = [], pr_cB = [] \<rparr>)"

definition toy_s3 :: pair_session where
  "toy_s3 = toy_s2 \<lparr> sn_attempts := 1, sn_w := Some 9, sn_run := Some toy_pake_run, sn_state := PS_awaitingConfirmA \<rparr>"

definition toy_s4 :: pair_session where
  "toy_s4 = toy_s3 \<lparr> sn_prompt := False, sn_confirmed := True, sn_channel := Some (ep_new [] DIR_S2C 0 0, ep_new [] DIR_C2S 0 0),
     sn_state := PS_channelActive, sn_run := None, sn_w := None, sn_codeNormalized := None, sn_released := True,
     sn_offering := True \<rparr>"

lemma toy_hello_checks:
  "pairHelloFrameSchema toy_hello" "normalizeExtensionIdentity toy_url toy_identity = Some toy_normalized"
  "generatePairingCode [0, 68, 50, 20, 199] = Inr ''01234567''"
  by code_simp+

lemma toy_binding:
  "code_and_binding toy_pd (toy_pe 0) toy_hello \<lparr> rh_identity = IdOfficial, rh_bindingPub = None, rh_digest = None \<rparr> =
     Some (''01234567'', hc_aad toy_hc, hc_aId toy_hc)"
  by code_simp

lemma toy_resolved:
  "resolveNormalizedExtensionIdentity toy_normalized NoAttestation (\<lambda>b i. True) =
     Some \<lparr> ir_identity = IdOfficial, ir_evidence = EvVerifiedOrigin,
       ir_provenExtensionId = Some ''lggbokfckofcgjndaboioakcmincinpo'' \<rparr>"
  by code_simp

lemma toy_step_hello:
  "sn_step toy_pd toy_pc (toy_pe 0) (PairFrameText (PtHello (Some toy_hello)) 100) sn_new =
     (toy_s1, [PairAdmit PairAdmitted, PairQueueDialog toy_dialog])"
proof -
  have input: "\<lparr> ii_browser = ''chromium'', ii_verifiedOrigin = ''chrome-extension://lggbokfckofcgjndaboioakcmincinpo'',
      ii_claimedExtensionId = ''lggbokfckofcgjndaboioakcmincinpo'' \<rparr> = toy_identity"
    by (simp add: toy_identity_def)
  have ctx: "hc_clientInstallationId toy_hc = ''c''" "hc_safariInstallationKey toy_hc = None"
      "hc_identity toy_hc = IdOfficial" "hc_ticketBindingPub toy_hc = None"
    by (simp_all add: toy_hc_def)
  have hello: "ph_nmTicket toy_hello = None" "ph_protocolVersion toy_hello = 1" "ph_browser toy_hello = ''chromium''"
      "ph_claimedExtensionId toy_hello = ''lggbokfckofcgjndaboioakcmincinpo''" "ph_safariInstallationKey toy_hello = None"
      "ph_clientInstallationId toy_hello = ''c''"
    by (simp_all add: toy_hello_def)
  have deps: "pd_nonceValid toy_pd" "pd_browser toy_pd = ''chromium''" "pd_new_url toy_pd = toy_url" "pd_pairNonce toy_pd = ''n''"
      "pd_verifiedOrigin toy_pd = ''chrome-extension://lggbokfckofcgjndaboioakcmincinpo''" "pd_isOfficialId toy_pd = (\<lambda>b i. True)"
      "pairAcceptFrameSchema 1 (pd_instanceId toy_pd)"
    by (simp_all add: toy_pd_def pairAcceptFrameSchema_def MBP1_PROTOCOL_VERSION_def isAscii_def)
  have env: "pe_admit (toy_pe t) = PairAdmitted" "pe_queue (toy_pe t) = Enqueued" "pe_now (toy_pe t) = t" for t
    by (simp_all add: toy_pe_def)
  have same: "\<lparr> hc_clientInstallationId = ''c'', hc_safariInstallationKey = None, hc_aId = hc_aId toy_hc,
      hc_aad = hc_aad toy_hc, hc_identity = IdOfficial, hc_ticketBindingPub = None \<rparr> = toy_hc"
    by (rule hello_context.equality) (simp_all add: ctx)
  show ?thesis
    by (simp add: sn_step_def sn_handleText_def onPairHello_def admitHello_def resolveIdentity_def openPrompt_def prepend_def
        Let_def hello deps env input toy_hello_checks toy_resolved toy_binding same toy_s1_def toy_dialog_def
        sn_new_def MAX_PRE_AUTH_FRAME_BYTES_def CODE_LIFETIME_MS_def formatPairingCode_def MBP1_PROTOCOL_VERSION_def)
qed

lemma toy_step_published:
  "sn_step toy_pd toy_pc (toy_pe 1) (PairPublished True) toy_s1 = (toy_s2, [PairText (PairAccept 1 ''i'')])"
  by (simp add: sn_step_def afterPublished_def toy_s2_def toy_s1_def sn_new_def codeExpired_def toy_pe_def toy_pd_def
      MBP1_PROTOCOL_VERSION_def)

definition toy_share :: string where "toy_share = toBase64Url (computePublicA wide_group 9 2)"

lemma toy_pake_checks:
  "pakeAFrameSchema toy_share" "b64_bytes toy_share = replicate 31 0 @ [29]"
  "deriveW (\<lambda>p s. [9]) ''01234567'' ''n'' 256 = Inr 9"
  "computePublicB wide_group 9 7 = replicate 31 0 @ [52]"
  "pakeBFrameSchema (toBase64Url (replicate 31 0 @ [52]))"
  "sharedFromB wide_group 9 7 (replicate 31 0 @ [29]) = Inr (replicate 31 0 @ [112])"
  by code_simp+

lemma toy_draw: "drawScalar 256 (\<lambda>i. replicate 31 0 @ [7]) 0 = Some (Inr 7)"
proof -
  have "acceptable 256 (replicate 31 0 @ [7])" "os2ip (replicate 31 0 @ [7]) = 7" by code_simp+
  then show ?thesis using drawScalar_skips [of 256 "\<lambda>i. replicate 31 0 @ [7]" 0 0] by simp
qed

lemma toy_run_fields:
  "make_run d toy_pc hello w pA pB k = Inr r \<Longrightarrow> pr_expectedCA r = replicate 32 0 \<and> pr_cB r = replicate 32 0 \<and> pr_ke r = []"
  by (auto simp: make_run_def keySchedule_def confirmationMacs_def Let_def toy_pc_def split: sum.splits)

lemma toy_run_made:
  "make_run toy_pd toy_pc toy_hc 9 (replicate 31 0 @ [29]) (replicate 31 0 @ [52]) (replicate 31 0 @ [112]) = Inr toy_pake_run"
  "pr_expectedCA toy_pake_run = replicate 32 0" "pr_cB toy_pake_run = replicate 32 0" "pr_ke toy_pake_run = []"
proof -
  let ?r = "make_run toy_pd toy_pc toy_hc 9 (replicate 31 0 @ [29]) (replicate 31 0 @ [52]) (replicate 31 0 @ [112])"
  have "case ?r of Inr _ \<Rightarrow> True | Inl _ \<Rightarrow> False" by code_simp
  then show made: "?r = Inr toy_pake_run" by (simp add: toy_pake_run_def split: sum.splits)
  show "pr_expectedCA toy_pake_run = replicate 32 0" "pr_cB toy_pake_run = replicate 32 0" "pr_ke toy_pake_run = []"
    using toy_run_fields [OF made] by simp_all
qed

lemma toy_step_pakeA:
  "sn_step toy_pd toy_pc (toy_pe 2) (PairFrameText (PtPakeA (Some toy_share)) 100) toy_s2 =
     (toy_s3, [PairText (PakeB (toBase64Url (replicate 31 0 @ [52])))])"
proof -
  have crypto: "cr_group toy_pc = wide_group" "sg_order wide_group = 256" "cr_scrypt toy_pc = (\<lambda>p s. [9])"
    by (simp_all add: toy_pc_def wide_group_def)
  have deps: "pd_nonceValid toy_pd" "pd_pairNonce toy_pd = ''n''" by (simp_all add: toy_pd_def)
  have env: "pe_draws (toy_pe t) = (\<lambda>i. replicate 31 0 @ [7])" "pe_now (toy_pe t) = t" for t by (simp_all add: toy_pe_def)
  have s2: "sn_state toy_s2 = PS_awaitingPakeA" "sn_channel toy_s2 = None" "sn_hello toy_s2 = Some toy_hc"
      "sn_codeExpiresAt toy_s2 = 120000" "sn_attempts toy_s2 = 0" "sn_w toy_s2 = None" "sn_codeNormalized toy_s2 = Some ''01234567''"
    by (simp_all add: toy_s2_def toy_s1_def sn_new_def)
  show ?thesis
    by (simp add: sn_step_def sn_handleText_def onPakeA_def Let_def deriveWOnce_def codeExpired_def s2 env deps crypto
        toy_pake_checks toy_draw toy_run_made(1) toy_s3_def MAX_PRE_AUTH_FRAME_BYTES_def)
qed

definition toy_confirm :: confirm_a where "toy_confirm = \<lparr> ca_cA = zeros43, ca_ticketProof = None \<rparr>"

lemma toy_confirm_checks:
  "confirmAFrameSchema toy_confirm" "b64_bytes (ca_cA toy_confirm) = replicate 32 0" "ca_ticketProof toy_confirm = None"
  "confirmBFrameSchema (toBase64Url (replicate 32 0))"
  by code_simp+

lemma toy_step_confirm:
  "\<exists>p. sn_step toy_pd toy_pc (toy_pe 3) (PairFrameText (PtConfirmA (Some toy_confirm)) 100) toy_s3 =
     (toy_s4, [PairSettle SessionPaired, PairText (ConfirmB (toBase64Url (replicate 32 0))), PairRelease,
               PairOfferProvisional p IdOfficial])"
proof -
  have env: "pe_settle (toy_pe t) = (\<lambda>t. SettleOk)" "pe_now (toy_pe t) = t" for t by (simp_all add: toy_pe_def)
  have hc: "hc_ticketBindingPub toy_hc = None" "hc_identity toy_hc = IdOfficial" by (simp_all add: toy_hc_def)
  have keys: "pairTrafficKeys toy_pc [] = ([], [])" by (simp add: pairTrafficKeys_def toy_pc_def)
  have s3: "sn_state toy_s3 = PS_awaitingConfirmA" "sn_channel toy_s3 = None" "sn_hello toy_s3 = Some toy_hc"
      "sn_codeExpiresAt toy_s3 = 120000" "sn_run toy_s3 = Some toy_pake_run" "sn_prompt toy_s3" "sn_admitted toy_s3"
      "\<not> sn_released toy_s3" "sn_attempts toy_s3 < 3"
    by (simp_all add: toy_s3_def toy_s2_def toy_s1_def sn_new_def)
  have deps: "pd_nonceValid toy_pd" by (simp add: toy_pd_def)
  show ?thesis
    by (simp add: sn_step_def sn_handleText_def onConfirmA_def Let_def codeExpired_def s3 env deps hc toy_confirm_checks
        toy_run_made settlePrompt_def prepend_def confirmRun_def releasePendingSlot_def issueCredential_def keys
        toy_s4_def MAX_PRE_AUTH_FRAME_BYTES_def)
qed

section \<open>The sealed part\<close>

lemma toy_gcm: "gcm_ok (cr_gcm_enc toy_pc) (cr_gcm_dec toy_pc)"
  by (simp add: gcm_ok_def toy_pc_def)

lemma toy_seals:
  assumes "length pt \<le> 1000" and "ep_seq e \<le> 5" and "ep_blockCount e \<le> 500"
  shows "\<exists>frame. seal (cr_gcm_enc toy_pc) e pt = Inr (frame, ep_advance e (blockCountFor (length pt)))"
  by (rule seal_accepts)
    (use assms in \<open>simp_all add: MAX_ENVELOPE_PLAINTEXT_BYTES_def MAX_ENVELOPE_FRAMES_def MAX_ENVELOPE_BLOCKS_def
       blockCountFor_def BLOCK_SIZE_def\<close>)

text \<open>A frame the client could send, and the session that sent its offer.\<close>

definition toy_offered :: "endpoint \<Rightarrow> pair_session" where
  "toy_offered sealer = toy_s4 \<lparr> sn_offering := False, sn_offeredCredentialId := Some ''id'', sn_state := PS_offerSent,
     sn_channel := Some (sealer, ep_new [] DIR_C2S 0 0) \<rparr>"

lemma toy_step_offered:
  "\<exists>frame n. sn_step toy_pd toy_pc (toy_pe 4) (PairOffered (Some (''id'', zeros43))) toy_s4 =
     (toy_offered (ep_advance (ep_new [] DIR_S2C 0 0) n), [PairBinary frame]) \<and> n \<le> 100"
proof -
  let ?pt = "utf8ToBytes (json_object [(''type'', ''credentialOffer''), (''credentialId'', ''id''), (''mutualKey'', zeros43)])"
  have len: "length ?pt \<le> 1000" by code_simp
  obtain frame where f: "seal (cr_gcm_enc toy_pc) (ep_new [] DIR_S2C 0 0) ?pt =
      Inr (frame, ep_advance (ep_new [] DIR_S2C 0 0) (blockCountFor (length ?pt)))"
    using toy_seals [OF len, of "ep_new [] DIR_S2C 0 0"] by (auto simp: ep_new_def)
  have n: "blockCountFor (length ?pt) \<le> 100" using len by (simp add: blockCountFor_def BLOCK_SIZE_def)
  have schema: "credentialOfferFrameSchema ''id'' zeros43" by code_simp
  have s4: "sn_offering toy_s4" "sn_state toy_s4 = PS_channelActive"
      "sn_channel toy_s4 = Some (ep_new [] DIR_S2C 0 0, ep_new [] DIR_C2S 0 0)"
    by (simp_all add: toy_s4_def)
  have env: "\<not> pe_sendThrows (toy_pe t)" for t by (simp add: toy_pe_def)
  have "sn_step toy_pd toy_pc (toy_pe 4) (PairOffered (Some (''id'', zeros43))) toy_s4 =
      (toy_offered (ep_advance (ep_new [] DIR_S2C 0 0) (blockCountFor (length ?pt))), [PairBinary frame])"
    by (simp add: sn_step_def afterOffered_def s4 schema sendSealed_def f env Let_def toy_offered_def)
  then show ?thesis using n by blast
qed

lemma toy_offered_fields:
  "sn_state (toy_offered e) = PS_offerSent" "sn_channel (toy_offered e) = Some (e, ep_new [] DIR_C2S 0 0)"
  "sn_offeredCredentialId (toy_offered e) = Some ''id''" "sn_committing (toy_offered e) = None"
  by (simp_all add: toy_offered_def toy_s4_def toy_s3_def toy_s2_def toy_s1_def sn_new_def)

lemma toy_step_ack:
  "\<exists>frame opener. sn_step toy_pd toy_pc (toy_pe 5) (PairFrameBinary frame) (toy_offered e) =
     (toy_offered e \<lparr> sn_channel := Some (e, opener), sn_state := PS_acked, sn_committing := Some ''id'' \<rparr>, [PairCommit ''id''])"
proof -
  obtain frame where f: "seal (cr_gcm_enc toy_pc) (ep_new [] DIR_C2S 0 0) [1] =
      Inr (frame, ep_advance (ep_new [] DIR_C2S 0 0) (blockCountFor 1))"
    using toy_seals [of "[1]" "ep_new [] DIR_C2S 0 0"] by (auto simp: ep_new_def)
  have o: "open_frame (cr_gcm_dec toy_pc) (ep_new [] DIR_C2S 0 0) frame = Inr ([1], ep_advance (ep_new [] DIR_C2S 0 0) (blockCountFor 1))"
    by (rule open_seal [OF toy_gcm f])
  have ack: "cr_parseAck toy_pc b = AckText ''id''" for b by (simp add: toy_pc_def)
  have "isAscii ''id''" by code_simp
  then show ?thesis
    by (intro exI [where x = frame] exI [where x = "ep_advance (ep_new [] DIR_C2S 0 0) (blockCountFor 1)"])
      (simp add: sn_step_def sn_handleBinary_def toy_offered_fields o ack Let_def)
qed

lemma toy_step_committed:
  assumes "n \<le> 100"
  shows "\<exists>s frame x y. sn_step toy_pd toy_pc (toy_pe 6) (PairCommitted True)
      (toy_offered (ep_advance (ep_new [] DIR_S2C 0 0) n) \<lparr> sn_channel := Some (ep_advance (ep_new [] DIR_S2C 0 0) n, opener),
         sn_state := PS_acked, sn_committing := Some ''id'' \<rparr>) =
     (s, [PairBinary frame, PairAuthenticated x y ''id'']) \<and> sn_state s = PS_committed"
proof -
  let ?pt = "utf8ToBytes (json_object [(''type'', ''credentialCommitted'')])" and ?e = "ep_advance (ep_new [] DIR_S2C 0 0) n"
  have len: "length ?pt \<le> 1000" by code_simp
  obtain frame where f: "seal (cr_gcm_enc toy_pc) ?e ?pt = Inr (frame, ep_advance ?e (blockCountFor (length ?pt)))"
    using toy_seals [OF len, of ?e] assms by (auto simp: ep_new_def ep_advance_def)
  have env: "\<not> pe_sendThrows (toy_pe t)" for t by (simp add: toy_pe_def)
  show ?thesis by (simp add: sn_step_def afterCommitted_def sendSealed_def f env Let_def)
qed

text \<open>The whole conversation, up to the authenticated channel.\<close>

lemma toy_pairing_completes:
  "\<exists>frame s es x y.
     (let h = [(toy_pe 0, PairFrameText (PtHello (Some toy_hello)) 100), (toy_pe 1, PairPublished True),
               (toy_pe 2, PairFrameText (PtPakeA (Some toy_share)) 100),
               (toy_pe 3, PairFrameText (PtConfirmA (Some toy_confirm)) 100),
               (toy_pe 4, PairOffered (Some (''id'', zeros43))), (toy_pe 5, PairFrameBinary frame), (toy_pe 6, PairCommitted True)]
      in sn_serial toy_pd toy_pc h sn_new \<and> sn_run_from toy_pd toy_pc h (sn_new, []) = (s, es)) \<and>
     PairAuthenticated x y ''id'' \<in> set es \<and> sn_state s = PS_committed"
proof -
  obtain p where 4: "sn_step toy_pd toy_pc (toy_pe 3) (PairFrameText (PtConfirmA (Some toy_confirm)) 100) toy_s3 =
     (toy_s4, [PairSettle SessionPaired, PairText (ConfirmB (toBase64Url (replicate 32 0))), PairRelease,
               PairOfferProvisional p IdOfficial])" using toy_step_confirm by blast
  obtain f1 n where 5: "sn_step toy_pd toy_pc (toy_pe 4) (PairOffered (Some (''id'', zeros43))) toy_s4 =
     (toy_offered (ep_advance (ep_new [] DIR_S2C 0 0) n), [PairBinary f1])" "n \<le> 100" using toy_step_offered by blast
  obtain f2 opener where 6: "sn_step toy_pd toy_pc (toy_pe 5) (PairFrameBinary f2) (toy_offered (ep_advance (ep_new [] DIR_S2C 0 0) n)) =
     (toy_offered (ep_advance (ep_new [] DIR_S2C 0 0) n) \<lparr> sn_channel := Some (ep_advance (ep_new [] DIR_S2C 0 0) n, opener),
        sn_state := PS_acked, sn_committing := Some ''id'' \<rparr>, [PairCommit ''id''])" using toy_step_ack by blast
  obtain s f3 x y where 7: "sn_step toy_pd toy_pc (toy_pe 6) (PairCommitted True)
      (toy_offered (ep_advance (ep_new [] DIR_S2C 0 0) n) \<lparr> sn_channel := Some (ep_advance (ep_new [] DIR_S2C 0 0) n, opener),
         sn_state := PS_acked, sn_committing := Some ''id'' \<rparr>) =
     (s, [PairBinary f3, PairAuthenticated x y ''id''])" "sn_state s = PS_committed"
    using toy_step_committed [OF 5(2)] by blast
  have free: "\<not> sn_suspended sn_new" "\<not> sn_suspended toy_s2" "\<not> sn_suspended toy_s3" "\<not> sn_suspended (toy_offered e)" for e
    by (simp_all add: sn_suspended_def toy_offered_def toy_s4_def toy_s3_def toy_s2_def toy_s1_def sn_new_def)
  note steps = toy_step_hello toy_step_published toy_step_pakeA 4 5(1) 6 7(1)
  show ?thesis
    by (intro exI [where x = f2]) (simp add: Let_def steps free prepend_def 7(2))
qed

lemma toy_pairing_confirmed:
  "\<exists>h s es. sn_serial toy_pd toy_pc h sn_new \<and> sn_run_from toy_pd toy_pc h (sn_new, []) = (s, es) \<and>
     sn_state s = PS_channelActive \<and> runs_answered es = 1 \<and> sn_confirmed s \<and> count_list es (PairAdmit PairAdmitted) = 1"
proof -
  let ?h = "[(toy_pe 0, PairFrameText (PtHello (Some toy_hello)) 100), (toy_pe 1, PairPublished True),
             (toy_pe 2, PairFrameText (PtPakeA (Some toy_share)) 100), (toy_pe 3, PairFrameText (PtConfirmA (Some toy_confirm)) 100)]"
  obtain p where 4: "sn_step toy_pd toy_pc (toy_pe 3) (PairFrameText (PtConfirmA (Some toy_confirm)) 100) toy_s3 =
     (toy_s4, [PairSettle SessionPaired, PairText (ConfirmB (toBase64Url (replicate 32 0))), PairRelease,
               PairOfferProvisional p IdOfficial])" using toy_step_confirm by blast
  have free: "\<not> sn_suspended sn_new" "\<not> sn_suspended toy_s2" "\<not> sn_suspended toy_s3"
    by (simp_all add: sn_suspended_def toy_s3_def toy_s2_def toy_s1_def sn_new_def)
  have s4: "sn_state toy_s4 = PS_channelActive" "sn_confirmed toy_s4" by (simp_all add: toy_s4_def)
  note steps = toy_step_hello toy_step_published toy_step_pakeA 4
  show ?thesis
    by (rule exI [where x = ?h]) (simp add: steps free prepend_def s4 runs_answered_def)
qed

end
