(* ===== verification/Pair_Safety.thy ===== *)
theory Pair_Safety
  imports Pair_Example
begin

text \<open>
  The remaining handlers keep the invariant of \<open>Pair_Invariant\<close>, and what it gives: slots, attempts and the
  reason a credential is handed out.
\<close>

section \<open>Shares\<close>

text \<open>A handler that answers with a share, or not at all.\<close>

lemma good_answered:
  assumes "live_inv d cr h es s" and "proof_ok d cr h s es" and "handshaking s"
    and "runs_answered es < sn_attempts s" and "runs_answered es < MAX_ATTEMPTS" and "sn_run s \<noteq> None" and "sn_w s \<noteq> None"
  shows "sn_good d cr h es (s \<lparr> sn_state := PS_awaitingConfirmA \<rparr>, [PairText (PakeB b)])"
proof -
  note live = assms(1) [unfolded live_inv_def]
  have "slot_ok (s \<lparr> sn_state := PS_awaitingConfirmA \<rparr>) (es @ [PairText (PakeB b)])"
    using live by (simp add: slot_ok_def)
  moreover have "runs_answered (es @ [PairText (PakeB b)]) = runs_answered es + 1" by (simp add: runs_answered_def)
  then have "phase_ok (s \<lparr> sn_state := PS_awaitingConfirmA \<rparr>) (es @ [PairText (PakeB b)])"
    using assms(3-7) unfolding phase_ok_def handshaking_def by auto
  moreover have "proof_ok d cr h (s \<lparr> sn_state := PS_awaitingConfirmA \<rparr>) (es @ [PairText (PakeB b)])"
    by (rule proof_ok_mono [of d cr h _ es]) (auto simp: assms(2))
  ultimately show ?thesis by (simp add: sn_good_def sn_inv_def)
qed

lemma good_silent:
  assumes "live_inv d cr h es s" and "proof_ok d cr h s es" and "handshaking s"
    and "sn_state s = PS_awaitingPakeA" and "runs_answered es < MAX_ATTEMPTS" and "sn_run s = None"
  shows "sn_good d cr h es (s, [])"
proof -
  have "sn_good d cr h es (s \<lparr> sn_state := PS_awaitingPakeA \<rparr>, [])"
  proof (rule good_stay [OF assms(1,2)])
    show "phase_ok (s \<lparr> sn_state := PS_awaitingPakeA \<rparr>) es"
      using assms(1,3,5,6) by (simp add: phase_ok_def handshaking_def live_inv_def)
  qed simp_all
  moreover have "s \<lparr> sn_state := PS_awaitingPakeA \<rparr> = s" unfolding assms(4) [symmetric] by simp
  ultimately show ?thesis by simp
qed

lemma proof_ok_set_w:
  "proof_ok d cr h s es \<Longrightarrow>
   (\<exists>c hello. sn_hello s = Some hello \<and> hello_shown d cr h es c hello \<and>
      deriveW (cr_scrypt cr) c (pd_pairNonce d) (sg_order (cr_group cr)) = Inr w) \<Longrightarrow>
   proof_ok d cr h (s \<lparr> sn_w := Some w \<rparr>) es"
  unfolding proof_ok_def by simp

lemma proof_ok_set_run:
  "proof_ok d cr h s es \<Longrightarrow>
   (\<exists>c hello. sn_hello s = Some hello \<and> hello_shown d cr h es c hello \<and> run_of_code d cr c hello run) \<Longrightarrow>
   proof_ok d cr h (s \<lparr> sn_run := Some run \<rparr>) es"
  unfolding proof_ok_def by simp

lemma derive_of_code:
  assumes "proof_ok d cr h s es" and "deriveWOnce d cr s = Inr w"
  shows "\<exists>c hello. sn_hello s = Some hello \<and> hello_shown d cr h es c hello \<and>
    deriveW (cr_scrypt cr) c (pd_pairNonce d) (sg_order (cr_group cr)) = Inr w"
  using assms by (auto simp: deriveWOnce_def proof_ok_def split: option.splits)

lemma good_pakeA:
  assumes "sn_inv d cr h (s, es)" and "sn_state s \<noteq> PS_closed"
  shows "sn_good d cr h es (onPakeA d cr env body s)"
proof (cases "sn_state s = PS_awaitingPakeA")
  case False
  then show ?thesis
    using good_violation [OF live_of_inv [OF assms]] by (simp add: onPakeA_def split: option.split)
next
  case True
  let ?s1 = "s \<lparr> sn_attempts := sn_attempts s + 1 \<rparr>"
  have live: "live_inv d cr h es s" using assms by (rule live_of_inv)
  have live1: "live_inv d cr h es ?s1" using live by (rule live_counted)
  have live2: "live_inv d cr h es (?s1 \<lparr> sn_w := w \<rparr>)" for w using live1 by (rule live_w)
  have live3: "live_inv d cr h es (?s1 \<lparr> sn_w := w, sn_run := r \<rparr>)" for w r using live2 by (rule live_set_run)
  have hs: "handshaking s" using handshaking_of_inv [OF assms(1)] True by simp
  have pf: "proof_ok d cr h s es" using assms(1) by (rule proof_of_inv)
  have few: "runs_answered es \<le> sn_attempts s" "runs_answered es < MAX_ATTEMPTS"
    using assms(1) True by (simp_all add: sn_inv_def phase_ok_def)
  have pf1: "proof_ok d cr h ?s1 es" using pf by simp
  have pf2: "proof_ok d cr h (?s1 \<lparr> sn_w := Some w \<rparr>) es" if "deriveWOnce d cr ?s1 = Inr w" for w
    using pf1 derive_of_code [OF pf1 that] by (rule proof_ok_set_w)
  have no_run: "sn_run (?s1 \<lparr> sn_w := w \<rparr>) = None" for w
    using assms(1) phaseD(10) [OF _ True, of es] by (simp add: sn_inv_def)
  have pf3: "proof_ok d cr h (?s1 \<lparr> sn_w := Some w, sn_run := Some run \<rparr>) es"
    if w: "deriveWOnce d cr ?s1 = Inr w" and hello: "sn_hello s = Some hello" and k: "sharedFromB (cr_group cr) w y pA = Inr k"
      and run: "make_run d cr hello w pA (computePublicB (cr_group cr) w y) k = Inr run" for w hello y pA k run
  proof (rule proof_ok_set_run [OF pf2 [OF w]])
    obtain c where c: "hello_shown d cr h es c hello" "deriveW (cr_scrypt cr) c (pd_pairNonce d) (sg_order (cr_group cr)) = Inr w"
      using derive_of_code [OF pf1 w] hello by auto
    then have "run_of_code d cr c hello run" unfolding run_of_code_def using k run by blast
    then show "\<exists>c hello. sn_hello (?s1 \<lparr> sn_w := Some w \<rparr>) = Some hello \<and> hello_shown d cr h es c hello \<and>
        run_of_code d cr c hello run"
      using c(1) hello by auto
  qed
  have hs': "handshaking (?s1 \<lparr> sn_w := w \<rparr>)" "handshaking (?s1 \<lparr> sn_w := w, sn_run := r \<rparr>)" for w r
    using hs by (simp_all add: handshaking_def)
  have st: "sn_state (?s1 \<lparr> sn_w := w \<rparr>) = PS_awaitingPakeA" for w using True by simp
  have less: "runs_answered es < sn_attempts (?s1 \<lparr> sn_w := w, sn_run := r \<rparr>)" for w r using few(1) by simp
  show ?thesis
  proof (cases "sn_hello s")
    case None
    then show ?thesis using good_violation [OF live] by (simp add: onPakeA_def)
  next
    case hello: (Some hello)
    show ?thesis
  proof (cases "deriveWOnce d cr ?s1")
    case (Inr w)
    let ?s2 = "?s1 \<lparr> sn_w := Some w \<rparr>"
    have rest: "sn_good d cr h es
      (case drawScalar (sg_order (cr_group cr)) (pe_draws env) 0 of
         None \<Rightarrow> (?s2, [])
       | Some (Inl _) \<Rightarrow> sn_fail env PE_pairingFailed ?s2
       | Some (Inr y) \<Rightarrow>
           (case sharedFromB (cr_group cr) w y pA of
              Inl IdentityKError \<Rightarrow> failRun env ?s2
            | Inl _ \<Rightarrow> sn_violation env ?s2
            | Inr k \<Rightarrow>
                (case make_run d cr hello w pA (computePublicB (cr_group cr) w y) k of
                   Inl _ \<Rightarrow> (?s2, [])
                 | Inr run \<Rightarrow>
                     if \<not> pakeBFrameSchema (toBase64Url (computePublicB (cr_group cr) w y))
                     then sn_terminate env ''pakeBInvalid'' (?s2 \<lparr> sn_run := Some run \<rparr>)
                     else (?s2 \<lparr> sn_run := Some run, sn_state := PS_awaitingConfirmA \<rparr>,
                           [PairText (PakeB (toBase64Url (computePublicB (cr_group cr) w y)))]))))" for pA
      using good_endings [OF live2 [of "Some w"]] good_endings [OF live3]
        good_silent [OF live2 pf2 [OF Inr] hs'(1) st few(2) no_run] good_failRun [OF live2 pf2 [OF Inr] hs'(1)]
        good_answered [OF live3 pf3 [OF Inr hello] hs'(2) less few(2)]
      by (simp split: option.split sum.split spake2_error.split)
    show ?thesis
      using good_endings [OF live] good_endings [OF live1] rest
      unfolding onPakeA_def Let_def hello option.case True Inr sum.case
      by (simp split: option.split)
    qed (use True hello good_endings [OF live] good_endings [OF live1] in \<open>simp add: onPakeA_def Let_def split: option.split\<close>)
  qed
qed

section \<open>Confirmation\<close>

lemma inv_benign: "sn_inv d cr h (s, es) \<Longrightarrow> list_all benign es' \<Longrightarrow> sn_inv d cr h (s, es @ es')"
  by (simp add: sn_inv_def slot_ok_def phase_ok_def benign_counts proof_ok_benign)

lemma confirmRun_eq:
  assumes "sn_hello s = Some hello" and "sn_admitted s"
  shows "confirmRun d cr run s =
     (s \<lparr> sn_confirmed := True,
          sn_channel := Some (ep_new (snd (pairTrafficKeys cr (pr_ke run))) DIR_S2C 0 0,
                              ep_new (fst (pairTrafficKeys cr (pr_ke run))) DIR_C2S 0 0), sn_state := PS_channelActive, sn_run := None, sn_w := None,
          sn_codeNormalized := None, sn_released := True, sn_offering := True \<rparr>,
      PairText (ConfirmB (toBase64Url (pr_cB run))) # (if sn_released s then [] else [PairRelease]) @
      [PairOfferProvisional
         \<lparr> cp_browser = pd_browser d, cp_verifiedOrigin = pd_verifiedOrigin d,
           cp_clientInstallationId = hc_clientInstallationId hello,
           cp_safariInstallationKey = hc_safariInstallationKey hello \<rparr> (hc_identity hello)])"
  using assms by (simp add: confirmRun_def release_eq issueCredential_def prepend_def case_prod_beta Let_def)

lemma good_confirmRun:
  assumes "live_inv d cr h es s" and "proof_ok d cr h s es" and "handshaking s" and "sn_hello s = Some hello"
    and "code_proved d cr h es run"
  shows "sn_good d cr h es (confirmRun d cr run s)"
proof -
  have adm: "sn_admitted s" and comm: "sn_committing s = None" and pub: "\<not> sn_publishing s"
    using assms(3) by (simp_all add: handshaking_def)
  note live = assms(1) [unfolded live_inv_def]
  define a where "a = ep_new (snd (pairTrafficKeys cr (pr_ke run))) DIR_S2C 0 0"
  define b where "b = ep_new (fst (pairTrafficKeys cr (pr_ke run))) DIR_C2S 0 0"
  have keys: "keys_of cr run a b" by (simp add: keys_of_def a_def b_def ep_new_def)
  obtain t p where eq: "confirmRun d cr run s =
     (s \<lparr> sn_confirmed := True, sn_channel := Some (a, b), sn_state := PS_channelActive, sn_run := None, sn_w := None,
          sn_codeNormalized := None, sn_released := True, sn_offering := True \<rparr>,
      PairText (ConfirmB t) # (if sn_released s then [] else [PairRelease]) @
      [PairOfferProvisional p (hc_identity hello)])" (is "_ = (?s, ?es)")
    using confirmRun_eq [OF assms(4) adm] unfolding a_def b_def by blast
  have counts: "count_list ?es PairRelease = (if sn_released s then 0 else 1)" "count_list ?es (PairAdmit PairAdmitted) = 0"
      "runs_answered ?es = 0" "\<And>a b x. PairAuthenticated a b x \<notin> set ?es"
    by (auto simp: runs_answered_def)
  have slot: "slot_ok ?s (es @ ?es)" unfolding slot_ok_def count_list_append counts using live adm by simp
  have phase: "phase_ok ?s (es @ ?es)" unfolding phase_ok_def runs_answered_append counts using live adm comm pub assms(4) by simp
  have "channel_ok d cr h es (sn_committing ?s) (sn_channel ?s)" using assms(5) keys comm by (auto simp: channel_ok_def)
  then have "proof_ok d cr h ?s es" using assms(2) unfolding proof_ok_def by auto
  then have "proof_ok d cr h ?s (es @ ?es)" by (rule proof_ok_mono) (use counts(4) in auto)
  then show ?thesis using slot phase unfolding sn_good_def sn_inv_def eq fst_conv snd_conv by blast
qed

lemma good_confirmA:
  assumes "sn_inv d cr h (s, es)" and "sn_state s \<noteq> PS_closed"
    and "\<And>f. body = Some f \<Longrightarrow> (env, PairFrameText (PtConfirmA (Some f)) n) \<in> set h"
  shows "sn_good d cr h es (onConfirmA d cr env body s)"
proof (cases "sn_state s = PS_awaitingConfirmA")
  case False
  then show ?thesis
    using good_violation [OF live_of_inv [OF assms(1,2)]] by (simp add: onConfirmA_def split: option.split)
next
  case True
  have live: "live_inv d cr h es s" using assms(1,2) by (rule live_of_inv)
  have hs: "handshaking s" using handshaking_of_inv [OF assms(1)] True by simp
  have pf: "proof_ok d cr h s es" using assms(1) by (rule proof_of_inv)
  note endings = good_endings [OF live] good_failRun [OF live pf hs]
  show ?thesis
  proof (cases "sn_run s = None \<or> sn_hello s = None \<or> body = None")
    case True
    then show ?thesis using endings unfolding onConfirmA_def by (auto split: option.split)
  next
    case False
    then obtain run hello f where some: "sn_run s = Some run" "sn_hello s = Some hello" "body = Some f" by auto
    let ?proofOk = "case (hc_ticketBindingPub hello, ca_ticketProof f) of
        (Some pub, Some proof) \<Rightarrow> verifyTicketProofStrict (ticket_crypto.truncate cr) pub (pr_tt run) (b64_bytes proof)
      | _ \<Rightarrow> True"
    have confirmed: "sn_good d cr h es
        (let (settled, s1, es1) = settlePrompt env SessionPaired s
         in prepend es1 (case settled of SettleThrows \<Rightarrow> sn_fail env PE_pairingFailed s1
             | SettleUnavailable \<Rightarrow> (s1, []) | SettleOk \<Rightarrow> confirmRun d cr run s1))"
      if ok: "confirmAFrameSchema f" "(hc_ticketBindingPub hello \<noteq> None) = (ca_ticketProof f \<noteq> None)"
        "b64_bytes (ca_cA f) = pr_expectedCA run" ?proofOk
    proof -
      let ?es = "[PairSettle SessionPaired]"
      have idle: "sn_good d cr h es (s, [])" using assms(1) by (simp add: sn_good_def)
      have live': "live_inv d cr h (es @ ?es) s" using live by (rule live_benign) simp
      have pf': "proof_ok d cr h s (es @ ?es)" using pf by (rule proof_ok_benign) simp
      have asked: "sn_good d cr h (es @ ?es) (s, [])"
        using inv_benign [OF assms(1), of ?es] by (simp add: sn_good_def)
      have "sn_good d cr h (es @ ?es) (confirmRun d cr run (s \<lparr> sn_prompt := False \<rparr>))" if "pe_settle env SessionPaired = SettleOk"
      proof (rule good_confirmRun)
        show "live_inv d cr h (es @ ?es) (s \<lparr> sn_prompt := False \<rparr>)"
          using live' unfolding live_inv_def by (simp add: discardRunState_def proof_ok_def)
        show "handshaking (s \<lparr> sn_prompt := False \<rparr>)" using hs by (simp add: handshaking_def)
        obtain c where c: "hello_shown d cr h (es @ ?es) c hello" "run_of_code d cr c hello run"
          using pf' some(1,2) unfolding proof_ok_def by auto
        have "confirms cr hello run f"
          using ok by (auto simp: confirms_def split: option.splits)
        then show "code_proved d cr h (es @ ?es) run"
          unfolding code_proved_def using c assms(3) [OF some(3)] that by (metis in_set_conv_decomp)
      qed (use pf' some in simp_all)
      then show ?thesis
        using idle asked sn_good_fail [OF live'] good_prepend
        by (cases "pe_settle env SessionPaired")
          (simp_all add: settlePrompt_def Let_def prepend_def sn_good_def)
    qed
    show ?thesis
      using endings confirmed some True
      unfolding onConfirmA_def by (simp add: Let_def)
  qed
qed

section \<open>The credential\<close>

text \<open>The part after the confirmation: what stays as it is while frames are sealed.\<close>

definition confirmed_live ::
  "pair_deps \<Rightarrow> ('p, 'a) pair_crypto_scheme \<Rightarrow> pair_history \<Rightarrow> pair_effect list \<Rightarrow> pair_session \<Rightarrow> bool" where
  "confirmed_live d cr h es s \<longleftrightarrow>
     live_inv d cr h es s \<and> proof_ok d cr h s es \<and> sn_confirmed s \<and> sn_admitted s \<and> sn_released s \<and>
     \<not> sn_publishing s \<and> \<not> sn_offering s \<and> sn_committing s = None \<and>
     sn_run s = None \<and> sn_w s = None \<and> sn_codeNormalized s = None \<and> sn_hello s \<noteq> None \<and> sn_channel s \<noteq> None"

lemma good_confirmed:
  assumes "confirmed_live d cr h es s" and "sn_state s \<in> {PS_channelActive, PS_offerSent, PS_acked, PS_committed}"
    and "list_all benign es'"
  shows "sn_good d cr h es (s, es')"
proof -
  have live: "live_inv d cr h es s" and pf: "proof_ok d cr h s es" using assms(1) by (simp_all add: confirmed_live_def)
  have "phase_ok (s \<lparr> sn_state := sn_state s \<rparr>) es"
    using assms(1,2) by (auto simp: phase_ok_def confirmed_live_def live_inv_def)
  moreover have "sn_state s \<noteq> PS_closed" using live by (simp add: live_inv_def)
  ultimately show ?thesis using good_stay [OF live pf assms(3), of "sn_state s"] by simp
qed

lemma confirmed_liveD: "confirmed_live d cr h es s \<Longrightarrow> live_inv d cr h es s"
  by (simp add: confirmed_live_def)

text \<open>Sealing and opening advance the counters of an endpoint and keep its key.\<close>

lemma seal_key: "seal e a pt = Inr (frame, a') \<Longrightarrow> ep_key a' = ep_key a"
  by (auto simp: seal_def Let_def split: if_splits sum.splits prod.splits protocol_violation.splits)

lemma open_key: "open_frame e b frame = Inr (pt, b') \<Longrightarrow> ep_key b' = ep_key b"
  by (auto simp: open_frame_def Let_def split: if_splits sum.splits prod.splits option.splits)

definition same_keys :: "(endpoint \<times> endpoint) option \<Rightarrow> (endpoint \<times> endpoint) option \<Rightarrow> bool" where
  "same_keys ch ch' \<longleftrightarrow>
     (\<exists>a b a' b'. ch = Some (a, b) \<and> ch' = Some (a', b') \<and> ep_key a' = ep_key a \<and> ep_key b' = ep_key b)"

lemma channel_ok_same: "channel_ok d cr h es co ch \<Longrightarrow> same_keys ch ch' \<Longrightarrow> channel_ok d cr h es co ch'"
  by (auto simp: channel_ok_def same_keys_def keys_of_def)

lemma channel_ok_idle: "channel_ok d cr h es co ch \<Longrightarrow> channel_ok d cr h es None ch"
  by (auto simp: channel_ok_def split: option.splits)

lemma channel_acknowledged:
  assumes "channel_ok d cr h es co (Some (a, b))" and "(env, PairFrameBinary frame) \<in> set h"
    and "open_frame (cr_gcm_dec cr) b frame = Inr (plaintext, b')" and "cr_parseAck cr plaintext = AckText cid"
  shows "channel_ok d cr h es (Some cid) (Some (a, b'))"
proof -
  obtain run where run: "code_proved d cr h es run" "keys_of cr run a b" using assms(1) by (auto simp: channel_ok_def)
  have "keys_of cr run a b'" using run(2) open_key [OF assms(3)] by (simp add: keys_of_def)
  moreover have "acknowledged cr h run cid"
    unfolding acknowledged_def using assms(2-4) run(2) unfolding keys_of_def by blast
  ultimately show ?thesis using run(1) by (auto simp: channel_ok_def)
qed

lemma live_channel: "live_inv d cr h es s \<Longrightarrow> live_inv d cr h es (s \<lparr> sn_channel := c \<rparr>)"
  unfolding live_inv_def by (simp add: discardRunState_def)

lemma confirmed_channel:
  assumes "confirmed_live d cr h es s" and "same_keys (sn_channel s) c"
  shows "confirmed_live d cr h es (s \<lparr> sn_channel := c \<rparr>)"
proof -
  have "channel_ok d cr h es (sn_committing s) c"
    using assms channel_ok_same unfolding confirmed_live_def proof_ok_def by blast
  then have "proof_ok d cr h (s \<lparr> sn_channel := c \<rparr>) es"
    using assms(1) unfolding confirmed_live_def proof_ok_def by simp
  moreover have "c \<noteq> None" using assms(2) by (auto simp: same_keys_def)
  moreover have "live_inv d cr h es (s \<lparr> sn_channel := c \<rparr>)"
    using assms(1) live_channel unfolding confirmed_live_def by blast
  ultimately show ?thesis using assms(1) unfolding confirmed_live_def by simp
qed

lemma sealed_shape:
  obtains (no_channel) "sendSealed cr env frame s = (False, (s, []))" "sn_channel s = None"
  | (refused) c where "sendSealed cr env frame s = (False, sn_terminate env ''envelopeSealFailed'' (s \<lparr> sn_channel := c \<rparr>))"
      "sn_channel s \<noteq> None"
  | (sent) c bytes where "sendSealed cr env frame s = (True, (s \<lparr> sn_channel := Some c \<rparr>, [PairBinary bytes]))"
      "sn_channel s \<noteq> None" "same_keys (sn_channel s) (Some c)"
proof (cases "sn_channel s")
  case None
  then show thesis using no_channel by (simp add: sendSealed_def)
next
  case (Some c)
  obtain sealer opener where c: "c = (sealer, opener)" by (cases c)
  show thesis
  proof (cases "seal (cr_gcm_enc cr) sealer (utf8ToBytes frame)")
    case (Inl e)
    have same: "s \<lparr> sn_channel := sn_channel s \<rparr> = s" by simp
    show thesis using refused [of "sn_channel s", unfolded same] Inl Some c by (simp add: sendSealed_def)
  next
    case (Inr r)
    obtain bytes sealer' where r: "r = (bytes, sealer')" by (cases r)
    have "same_keys (sn_channel s) (Some (sealer', opener))"
      using seal_key [OF Inr [unfolded r]] Some c by (simp add: same_keys_def)
    with r show thesis
      using refused [of "Some (sealer', opener)"] sent [of "(sealer', opener)" bytes] Inr Some c
      by (cases "pe_sendThrows env") (simp_all add: sendSealed_def Let_def)
  qed
qed

lemma confirmed_of_inv:
  assumes "sn_inv d cr h (s, es)" and "sn_state s \<in> {PS_channelActive, PS_offerSent, PS_acked}"
  shows "confirmed_live d cr h es (s \<lparr> sn_offering := False, sn_committing := None \<rparr>)"
proof -
  have "sn_state s \<noteq> PS_closed" using assms(2) by auto
  from live_of_inv [OF assms(1) this] have live: "live_inv d cr h es s" .
  have phase: "phase_ok s es" and pf: "proof_ok d cr h s es" using assms(1) by (simp_all add: sn_inv_def)
  have "sn_confirmed s" using phaseD(3) [OF phase] assms(2) by auto
  moreover have "sn_admitted s" by (cases "sn_admitted s") (use phaseD(2) [OF phase] assms(2) in auto)
  moreover have "\<not> sn_publishing s" using phaseD(1) [OF phase] assms(2) by auto
  moreover have "sn_released s" using live calculation by (simp add: live_inv_def)
  moreover have idle: "channel_ok d cr h es None (sn_channel s)"
    using pf unfolding proof_ok_def by (intro channel_ok_idle) blast
  then have pf': "proof_ok d cr h (s \<lparr> sn_offering := False, sn_committing := None \<rparr>) es"
    using pf unfolding proof_ok_def by simp
  moreover from proof_ok_discard [OF pf'] have "live_inv d cr h es (s \<lparr> sn_offering := False, sn_committing := None \<rparr>)"
    using live unfolding live_inv_def by simp
  moreover have "sn_channel s \<noteq> None \<and> sn_run s = None \<and> sn_w s = None \<and> sn_codeNormalized s = None \<and> sn_hello s \<noteq> None"
    using phaseD(8) [OF phase] assms(2) by blast
  ultimately show ?thesis by (simp add: confirmed_live_def)
qed

text \<open>An outcome that finds the session closed or elsewhere changes only the flag.\<close>

lemma inv_flag_off:
  "sn_inv d cr h (s, es) \<Longrightarrow> sn_inv d cr h (s \<lparr> sn_offering := False \<rparr>, es)"
  "sn_inv d cr h (s, es) \<Longrightarrow> sn_inv d cr h (s \<lparr> sn_committing := None \<rparr>, es)"
proof -
  assume inv: "sn_inv d cr h (s, es)"
  show "sn_inv d cr h (s \<lparr> sn_offering := False \<rparr>, es)"
    using inv by (simp add: sn_inv_def slot_ok_def phase_ok_def)
  have pf: "proof_ok d cr h s es" using inv by (rule proof_of_inv)
  then have "channel_ok d cr h es None (sn_channel s)"
    unfolding proof_ok_def by (intro channel_ok_idle) blast
  then have "proof_ok d cr h (s \<lparr> sn_committing := None \<rparr>) es" using pf unfolding proof_ok_def by simp
  then show "sn_inv d cr h (s \<lparr> sn_committing := None \<rparr>, es)"
    using inv by (simp add: sn_inv_def slot_ok_def phase_ok_def)
qed

lemma good_offered:
  assumes "sn_inv d cr h (s, es)" and "sn_offering s" and "(env, PairOffered offer) \<in> set h"
  shows "sn_good d cr h es (afterOffered cr env offer (s \<lparr> sn_offering := False \<rparr>))"
proof -
  let ?s = "s \<lparr> sn_offering := False \<rparr>"
  have inv: "sn_inv d cr h (?s, es)" using assms(1) by (rule inv_flag_off)
  have idle: "sn_good d cr h es (?s, [])" using inv by (simp add: sn_good_def)
  have ended: "sn_good d cr h es (sn_terminate env reason ?s)" for reason
    using idle sn_good_terminate [OF live_of_inv [OF inv]] by (cases "sn_state s = PS_closed") (simp_all add: sn_terminate_def)
  have sent: "sn_good d cr h es (snd (sendSealed cr env frame (?s \<lparr> sn_offeredCredentialId := Some cid, sn_state := PS_offerSent \<rparr>)))"
    if "sn_state s = PS_channelActive" "offer = Some (cid, key)" for frame cid key
  proof -
    let ?o = "?s \<lparr> sn_offeredCredentialId := Some cid, sn_state := PS_offerSent \<rparr>"
    have comm: "sn_committing s = None" using assms(1) that(1) by (simp add: sn_inv_def phase_ok_def)
    have eq: "s \<lparr> sn_offering := False, sn_committing := None \<rparr> = ?s" using comm by (cases s) simp
    have base: "confirmed_live d cr h es ?s" using confirmed_of_inv [OF assms(1)] that(1) eq by simp
    have dur: "offered_durably h cid" using assms(3) that(2) by (auto simp: offered_durably_def)
    have "sn_confirmed s" "proof_ok d cr h ?s es" using base by (simp_all add: confirmed_live_def)
    then have po: "proof_ok d cr h ?o es" using dur comm unfolding proof_ok_def by simp
    with proof_ok_discard [OF this] have conf: "confirmed_live d cr h es ?o"
      using base by (simp add: confirmed_live_def live_inv_def)
    show ?thesis
    proof (cases rule: sealed_shape [of cr env frame ?o])
      case no_channel
      then show ?thesis using good_confirmed [OF conf, where es' = "[]"] by simp
    next
      case (refused c)
      then show ?thesis using sn_good_terminate [OF live_channel [OF confirmed_liveD [OF conf], of c]] by simp
    next
      case (sent c bytes)
      then show ?thesis using good_confirmed [OF confirmed_channel [OF conf sent(3)], where es' = "[PairBinary bytes]"] by simp
    qed
  qed
  show ?thesis
    using idle ended sent unfolding afterOffered_def by (auto split: option.split)
qed

lemma good_binary:
  assumes inv: "sn_inv d cr h (s, es)" and received: "(env, PairFrameBinary frame) \<in> set h"
  shows "sn_good d cr h es (sn_handleBinary cr env frame s)"
proof (cases "sn_state s = PS_closed \<or> sn_state s = PS_committed")
  case True
  then show ?thesis using inv by (auto simp: sn_handleBinary_def sn_good_def)
next
  case False
  have live: "live_inv d cr h es s" using inv False by (intro live_of_inv) simp_all
  show ?thesis
  proof (cases "sn_state s = PS_offerSent \<and> sn_channel s \<noteq> None")
    case True
    then obtain sealer opener where chan: "sn_channel s = Some (sealer, opener)" by auto
    have phase: "phase_ok s es" and pf: "proof_ok d cr h s es" using inv by (simp_all add: sn_inv_def)
    have off: "sn_offering s = False" "sn_committing s = None"
      by (cases "sn_offering s"; use phaseD(4) [OF phase] True in simp)
        (cases "sn_committing s"; use phaseD(5) [OF phase] True in auto)
    have eq: "s \<lparr> sn_offering := False, sn_committing := None \<rparr> = s" using off by (cases s) simp
    have base: "confirmed_live d cr h es s" using confirmed_of_inv [OF inv] True by (simp add: eq)
    show ?thesis
    proof (cases "open_frame (cr_gcm_dec cr) opener frame")
      case (Inl e)
      then show ?thesis using True chan sn_good_terminate [OF live] by (simp add: sn_handleBinary_def)
    next
      case (Inr r)
      obtain plaintext opener' where r: "r = (plaintext, opener')" by (cases r)
      let ?s = "s \<lparr> sn_channel := Some (sealer, opener') \<rparr>"
      have conf: "confirmed_live d cr h es ?s"
        using base by (rule confirmed_channel) (use open_key [OF Inr [unfolded r]] chan in \<open>simp add: same_keys_def\<close>)
      have ack: "sn_good d cr h es (?s \<lparr> sn_state := PS_acked, sn_committing := Some cid \<rparr>, [PairCommit cid])"
        if "Some cid = sn_offeredCredentialId s" "cr_parseAck cr plaintext = AckText cid" for cid
      proof -
        note c = conf [unfolded confirmed_live_def live_inv_def]
        let ?a = "?s \<lparr> sn_state := PS_acked, sn_committing := Some cid \<rparr>"
        have benign: "proof_ok d cr h s (es @ [PairCommit cid])" using pf by (intro proof_ok_benign) simp_all
        then have "channel_ok d cr h (es @ [PairCommit cid]) (sn_committing s) (Some (sealer, opener))"
          using chan unfolding proof_ok_def by simp
        from channel_acknowledged [OF this received Inr [unfolded r] that(2)]
        have "proof_ok d cr h ?a (es @ [PairCommit cid])"
          using benign that(1) [symmetric] unfolding proof_ok_def by simp
        moreover have "slot_ok ?a (es @ [PairCommit cid])" using c by (simp add: slot_ok_def)
        moreover have "phase_ok ?a (es @ [PairCommit cid])" using c by (auto simp: phase_ok_def runs_answered_def)
        ultimately show ?thesis by (simp add: sn_good_def sn_inv_def)
      qed
      have ended: "sn_good d cr h es (sn_terminate env reason ?s)" for reason
        using sn_good_terminate [OF confirmed_liveD [OF conf]] .
      have step: "sn_handleBinary cr env frame s =
          (case cr_parseAck cr plaintext of
             AckText cid \<Rightarrow>
               if \<not> isAscii cid \<or> Some cid \<noteq> sn_offeredCredentialId s then sn_terminate env ''protocolViolation'' ?s
               else (?s \<lparr> sn_state := PS_acked, sn_committing := Some cid \<rparr>, [PairCommit cid])
           | _ \<Rightarrow> sn_terminate env ''protocolViolation'' ?s)"
        using True chan Inr r by (simp add: sn_handleBinary_def Let_def split: ack_text.split)
      show ?thesis unfolding step using ended ack by (simp split: ack_text.split)
    qed
  qed (use False sn_good_terminate [OF live] in \<open>auto simp: sn_handleBinary_def split: option.split\<close>)
qed

lemma good_authenticated:
  assumes "confirmed_live d cr h es s" and "sn_state s = PS_committed" and "paired_properly d cr h es x y cid"
  shows "sn_good d cr h es (s, [PairBinary b, PairAuthenticated x y cid])"
proof -
  let ?es = "[PairBinary b, PairAuthenticated x y cid]"
  note c = assms(1) [unfolded confirmed_live_def live_inv_def]
  have pf: "proof_ok d cr h s es" using c by blast
  have paired: "paired_properly d cr h (es @ ?es) x y cid"
    using assms(3) by (rule paired_properly_mono) auto
  have "proof_ok d cr h s (es @ ?es)"
  proof (rule proof_ok_grow [OF pf])
    show "PairAuthenticated a b i \<in> set es \<or> paired_properly d cr h (es @ ?es) a b i"
      if "PairAuthenticated a b i \<in> set (es @ ?es)" for a b i
    proof (cases "PairAuthenticated a b i \<in> set es")
      case False
      then have "a = x" "b = y" "i = cid" using that by simp_all
      then show ?thesis using paired by blast
    qed blast
  qed auto
  moreover have "slot_ok s (es @ ?es)" using c by (simp add: slot_ok_def)
  moreover have "phase_ok s (es @ ?es)" using c assms(2) by (auto simp: phase_ok_def runs_answered_def)
  ultimately show ?thesis by (simp add: sn_good_def sn_inv_def)
qed

lemma good_committed:
  assumes "sn_inv d cr h (s, es)" and "sn_committing s = Some cid" and "(env, PairCommitted ok) \<in> set h"
  shows "sn_good d cr h es (afterCommitted cr env ok cid (s \<lparr> sn_committing := None \<rparr>))"
proof -
  let ?s = "s \<lparr> sn_committing := None \<rparr>"
  have inv: "sn_inv d cr h (?s, es)" using assms(1) by (rule inv_flag_off)
  have idle: "sn_good d cr h es (?s, [])" using inv by (simp add: sn_good_def)
  have ended: "sn_good d cr h es (sn_terminate env reason ?s)" for reason
    using idle sn_good_terminate [OF live_of_inv [OF inv]] by (cases "sn_state s = PS_closed") (simp_all add: sn_terminate_def)
  show ?thesis
  proof (cases "ok \<and> sn_state s = PS_acked \<and> sn_channel s \<noteq> None")
    case True
    have phase: "phase_ok s es" and pf: "proof_ok d cr h s es" using assms(1) by (simp_all add: sn_inv_def)
    have off: "sn_offering s = False" by (cases "sn_offering s") (use phaseD(4) [OF phase] True in simp_all)
    have eq: "s \<lparr> sn_offering := False, sn_committing := None \<rparr> = ?s" using off by (cases s) simp
    have conf: "confirmed_live d cr h es ?s" using confirmed_of_inv [OF assms(1)] True by (simp add: eq)
    have proper: "paired_properly d cr h es x y cid" if "same_keys (sn_channel s) (Some (x, y))" for x y
    proof -
      have offered: "sn_offeredCredentialId s = Some cid" "PairCommit cid \<in> set es"
        using pf assms(2) by (simp_all add: proof_ok_def)
      then have "sn_confirmed s" "offered_durably h cid" using pf by (simp_all add: proof_ok_def)
      moreover have "channel_ok d cr h es (Some cid) (Some (x, y))"
      proof (rule channel_ok_same [OF _ that])
        show "channel_ok d cr h es (Some cid) (sn_channel s)" using pf assms(2) unfolding proof_ok_def by simp
      qed
      then have "\<exists>run. code_proved d cr h es run \<and> keys_of cr run x y \<and> acknowledged cr h run cid"
        by (simp add: channel_ok_def)
      moreover have "(env, PairCommitted True) \<in> set h" using assms(3) True by simp
      ultimately show ?thesis using offered(2) unfolding paired_properly_def by blast
    qed
    let ?frame = "json_object [(''type'', ''credentialCommitted'')]"
    have step: "afterCommitted cr env ok cid ?s =
        (case sendSealed cr env ?frame ?s of
           (False, r) \<Rightarrow> r
         | (True, (s1, es1)) \<Rightarrow>
             (case sn_channel s1 of None \<Rightarrow> (s1, es1)
              | Some (sealer, opener) \<Rightarrow> (s1 \<lparr> sn_state := PS_committed \<rparr>, es1 @ [PairAuthenticated sealer opener cid])))"
      by (cases "sn_channel s") (use True in \<open>simp_all add: afterCommitted_def\<close>)
    show ?thesis
    proof (cases rule: sealed_shape [of cr env ?frame ?s])
      case no_channel
      then show ?thesis using True by simp
    next
      case (refused c)
      then show ?thesis using sn_good_terminate [OF live_channel [OF confirmed_liveD [OF conf], of c]] by (simp add: step)
    next
      case (sent c bytes)
      obtain x y where c: "c = (x, y)" by (cases c)
      have "confirmed_live d cr h es (?s \<lparr> sn_channel := Some c, sn_state := PS_committed \<rparr>)"
        using confirmed_channel [OF conf sent(3)]
        unfolding confirmed_live_def live_inv_def by (simp add: discardRunState_def proof_ok_def channel_ok_def)
      from good_authenticated [OF this _ proper [of x y]] show ?thesis using sent c by (simp add: step)
    qed
  qed (use idle ended in \<open>auto simp: afterCommitted_def\<close>)
qed

section \<open>Steps and runs\<close>

lemma good_text:
  assumes "sn_inv d cr h (s, es)" and "\<not> sn_suspended s" and "(env, PairFrameText raw n) \<in> set h"
  shows "sn_good d cr h es (sn_handleText d cr env raw n s)"
proof (cases "sn_state s = PS_closed \<or> sn_state s = PS_committed")
  case True
  then show ?thesis using assms(1) by (auto simp: sn_handleText_def sn_good_def)
next
  case False
  then have open_: "sn_state s \<noteq> PS_closed" by simp
  have "\<not> sn_publishing s" using assms(2) by (simp add: sn_suspended_def)
  note handlers = good_endings [OF live_of_inv [OF assms(1) open_]] good_pakeA [OF assms(1) open_]
  have hello: "sn_good d cr h es (onPairHello d cr env body s)" if "raw = PtHello body" for body
    by (rule good_hello [OF assms(1) open_ \<open>\<not> sn_publishing s\<close>, where k = n]) (use assms(3) that in simp)
  have confirm: "sn_good d cr h es (onConfirmA d cr env body s)" if "raw = PtConfirmA body" for body
    by (rule good_confirmA [OF assms(1) open_, where n = n]) (use assms(3) that in simp)
  show ?thesis
    unfolding sn_handleText_def
    by (cases raw; cases "pd_nonceValid d"; cases "sn_channel s = None") (simp_all add: False handlers confirm hello)
qed

lemma sn_good_step:
  assumes "sn_inv d cr h (s, es)" and "(env, e) \<in> set h" and "\<not> is_frame e \<or> \<not> sn_suspended s"
  shows "sn_good d cr h es (sn_step d cr env e s)"
proof -
  have idle: "sn_good d cr h es (s, [])" using assms(1) by (simp add: sn_good_def)
  show ?thesis
  proof (cases e)
    case (PairFrameText raw n)
    then show ?thesis using good_text [OF assms(1)] assms(2,3) by (simp add: sn_step_def)
  next
    case (PairFrameBinary frame)
    then show ?thesis using good_binary [OF assms(1)] assms(2) by (simp add: sn_step_def)
  next
    case (PairPublished delivered)
    then show ?thesis using good_published [OF assms(1)] idle by (simp add: sn_step_def)
  next
    case (PairOffered offer)
    then show ?thesis using good_offered [OF assms(1)] assms(2) idle by (simp add: sn_step_def)
  next
    case (PairCommitted ok)
    then show ?thesis using good_committed [OF assms(1)] assms(2) idle by (simp add: sn_step_def split: option.split)
  next
    case (PairPromptTerminal outcome)
    then show ?thesis using good_prompt [OF assms(1)] idle by (simp add: sn_step_def)
  next
    case PairPromptBroken
    then show ?thesis using good_prompt [OF assms(1)] idle by (simp add: sn_step_def)
  next
    case PairDispose
    then show ?thesis using good_dispose [OF assms(1)] by (simp add: sn_step_def)
  qed
qed

lemma sn_inv_run:
  assumes "sn_inv d cr h0 r" and "sn_serial d cr h (fst r)" and "set h \<subseteq> set h0"
  shows "sn_inv d cr h0 (sn_run_from d cr h r)"
  using assms
proof (induction h arbitrary: r)
  case (Cons x h)
  obtain env e where x: "x = (env, e)" by (cases x)
  obtain s es where r: "r = (s, es)" by (cases r)
  have "sn_good d cr h0 es (sn_step d cr env e s)"
    using Cons.prems by (intro sn_good_step) (auto simp: x r)
  then have "sn_inv d cr h0 (prepend es (sn_step d cr env e s))" by (simp add: sn_good_def prepend_def)
  moreover have "sn_serial d cr h (fst (prepend es (sn_step d cr env e s)))"
    using Cons.prems(2) by (simp add: x r prepend_def)
  ultimately show ?case using Cons.IH Cons.prems(3) by (simp add: x r)
qed simp

lemma inv_reachable:
  "sn_serial d cr h sn_new \<Longrightarrow> sn_run_from d cr h (sn_new, []) = (s, es) \<Longrightarrow> sn_inv d cr h (s, es)"
  using sn_inv_run [of d cr h "(sn_new, [])" h] by (simp add: sn_inv_new)

section \<open>What every session guarantees\<close>

text \<open>
  C2: a credential is handed out only to a peer that knew the code. When a session announces an authenticated
  channel for a credential, a hello of the peer was admitted and a dialog with a code drawn for it was queued; a
  confirmation frame carried the MAC of a SPAKE2 run made from the scalar of that code and the identity of that
  hello, and a ticket proof exactly when that hello brought a ticket, valid for the key the hello announced over the
  same transcript; the prompt accepted; the credential was offered by the store; a frame of the peer opened under
  the traffic key of that run to an acknowledgement of exactly this credential; its commit was asked for and
  succeeded; and the channel handed over has the two traffic keys of that run. Whatever the peer, the prompt and
  the store do, there is no other way.
\<close>
theorem pairing_authentication:
  assumes "sn_serial d cr h sn_new" and "sn_run_from d cr h (sn_new, []) = (s, es)"
    and "PairAuthenticated sealer opener cid \<in> set es"
  shows "\<exists>env0 hf n0 code hello dialog run env f n env1 key env2 frame opener1 opener2 plaintext env3.
     (env0, PairFrameText (PtHello (Some hf)) n0) \<in> set h \<and> hello_of d cr env0 hf code hello \<and>
     PairQueueDialog dialog \<in> set es \<and> pg_code dialog = formatPairingCode code \<and>
     pg_claimedExtensionId dialog = ph_claimedExtensionId hf \<and> pg_verifiedOrigin dialog = pd_verifiedOrigin d \<and>
     run_of_code d cr code hello run \<and>
     (env, PairFrameText (PtConfirmA (Some f)) n) \<in> set h \<and> confirms cr hello run f \<and>
     (ca_ticketProof f \<noteq> None) = (ph_nmTicket hf \<noteq> None) \<and>
     PairSettle SessionPaired \<in> set es \<and> pe_settle env SessionPaired = SettleOk \<and>
     (env1, PairOffered (Some (cid, key))) \<in> set h \<and>
     (env2, PairFrameBinary frame) \<in> set h \<and> ep_key opener1 = fst (pairTrafficKeys cr (pr_ke run)) \<and>
     open_frame (cr_gcm_dec cr) opener1 frame = Inr (plaintext, opener2) \<and> cr_parseAck cr plaintext = AckText cid \<and>
     PairCommit cid \<in> set es \<and> (env3, PairCommitted True) \<in> set h \<and>
     ep_key sealer = snd (pairTrafficKeys cr (pr_ke run)) \<and> ep_key opener = fst (pairTrafficKeys cr (pr_ke run))"
proof -
  have "proof_ok d cr h s es" using inv_reachable [OF assms(1,2)] by (rule proof_of_inv)
  then have "paired_properly d cr h es sealer opener cid" using assms(3) unfolding proof_ok_def by blast
  then obtain run c hello env f n where run: "keys_of cr run sealer opener" "acknowledged cr h run cid"
      "hello_shown d cr h es c hello" "run_of_code d cr c hello run" "confirms cr hello run f"
      "(env, PairFrameText (PtConfirmA (Some f)) n) \<in> set h" "PairSettle SessionPaired \<in> set es"
      "pe_settle env SessionPaired = SettleOk"
    and rest: "offered_durably h cid" "PairCommit cid \<in> set es" "\<exists>env. (env, PairCommitted True) \<in> set h"
    unfolding paired_properly_def code_proved_def by blast
  obtain env0 hf n0 dialog where hello: "(env0, PairFrameText (PtHello (Some hf)) n0) \<in> set h"
      "hello_of d cr env0 hf c hello" "PairQueueDialog dialog \<in> set es" "pg_code dialog = formatPairingCode c"
      "pg_claimedExtensionId dialog = ph_claimedExtensionId hf" "pg_verifiedOrigin dialog = pd_verifiedOrigin d"
    using run(3) unfolding hello_shown_def by blast
  have "(ca_ticketProof f \<noteq> None) = (ph_nmTicket hf \<noteq> None)"
    using hello(2) run(5) by (auto simp: hello_of_def confirms_def split: option.splits)
  then show ?thesis
    using run hello rest unfolding acknowledged_def offered_durably_def keys_of_def by blast
qed

lemma pairing_authentication_witness:
  "\<exists>h s es sealer opener dialog env frame. sn_run_from toy_pd toy_pc h (sn_new, []) = (s, es) \<and>
     PairAuthenticated sealer opener ''id'' \<in> set es \<and> PairQueueDialog dialog \<in> set es \<and>
     (env, PairFrameBinary frame) \<in> set h \<and> PairCommit ''id'' \<in> set es"
proof -
  obtain h s es x y where "sn_serial toy_pd toy_pc h sn_new" "sn_run_from toy_pd toy_pc h (sn_new, []) = (s, es)"
      "PairAuthenticated x y ''id'' \<in> set es"
    using toy_pairing_completes unfolding Let_def by blast
  with pairing_authentication [OF this] show ?thesis by blast
qed

text \<open>
  C6: the pending slot of the flood control is taken and given back at most once. Every release belongs to an
  admission of this very session, and a session that has ended or confirmed the code holds no slot any more.
\<close>
theorem pairing_slot_once:
  assumes "sn_serial d cr h sn_new" and "sn_run_from d cr h (sn_new, []) = (s, es)"
  shows "count_list es (PairAdmit PairAdmitted) \<le> 1 \<and> count_list es PairRelease \<le> count_list es (PairAdmit PairAdmitted) \<and>
     (sn_state s = PS_closed \<or> sn_confirmed s \<longrightarrow> count_list es PairRelease = count_list es (PairAdmit PairAdmitted))"
proof -
  have "slot_ok s es" using inv_reachable [OF assms] by (simp add: sn_inv_def)
  then show ?thesis unfolding slot_ok_def by (cases "sn_admitted s"; cases "sn_released s") auto
qed

lemma pairing_slot_once_witness:
  "\<exists>h s es. sn_run_from toy_pd toy_pc h (sn_new, []) = (s, es) \<and> count_list es PairRelease = 1"
proof -
  obtain h s es where h: "sn_serial toy_pd toy_pc h sn_new" "sn_run_from toy_pd toy_pc h (sn_new, []) = (s, es)"
      "sn_state s = PS_channelActive" "runs_answered es = 1" "sn_confirmed s" "count_list es (PairAdmit PairAdmitted) = 1"
    using toy_pairing_confirmed by blast
  with pairing_slot_once [OF h(1,2)] show ?thesis by auto
qed

text \<open>
  C7: at most three guesses. However often a peer sends a share, the session answers at most \<open>MAX_ATTEMPTS\<close> of
  them, and it counts every answered run as an attempt, so closing the socket in the middle of a run wins none
  back.
\<close>
theorem pairing_attempts_bounded:
  assumes "sn_serial d cr h sn_new" and "sn_run_from d cr h (sn_new, []) = (s, es)"
  shows "runs_answered es \<le> MAX_ATTEMPTS \<and> runs_answered es \<le> sn_attempts s"
proof -
  have "phase_ok s es" using inv_reachable [OF assms] by (simp add: sn_inv_def)
  then show ?thesis by (simp add: phase_ok_def)
qed

lemma pairing_attempts_bounded_witness:
  "\<exists>h s es. sn_run_from toy_pd toy_pc h (sn_new, []) = (s, es) \<and> runs_answered es = 1 \<and> runs_answered es \<le> MAX_ATTEMPTS"
proof -
  obtain h s es where h: "sn_serial toy_pd toy_pc h sn_new" "sn_run_from toy_pd toy_pc h (sn_new, []) = (s, es)"
      "sn_state s = PS_channelActive" "runs_answered es = 1" "sn_confirmed s" "count_list es (PairAdmit PairAdmitted) = 1"
    using toy_pairing_confirmed by blast
  show ?thesis using h(2,4) pairing_attempts_bounded [OF h(1,2)] by blast
qed

text \<open>
  C33: the fields of a session fit its state. In every reachable session a run is stored exactly while its
  confirmation is awaited, the scalar at most while runs can happen, the code exactly from its publication to the
  end of the runs, and a channel exactly from the confirmation to the end of the session; the context
  of the hello is there in between; and an offer or a commit in flight finds the session where it left it or closed.
\<close>
theorem pairing_state_typed:
  assumes "sn_serial d cr h sn_new" and "sn_run_from d cr h (sn_new, []) = (s, es)"
  shows "phase_ok s es"
  using inv_reachable [OF assms] by (simp add: sn_inv_def)

lemma pairing_state_typed_witness:
  "\<exists>h s es. sn_run_from toy_pd toy_pc h (sn_new, []) = (s, es) \<and> sn_state s = PS_channelActive \<and> phase_ok s es"
proof -
  obtain h s es where h: "sn_serial toy_pd toy_pc h sn_new" "sn_run_from toy_pd toy_pc h (sn_new, []) = (s, es)"
      "sn_state s = PS_channelActive" "runs_answered es = 1" "sn_confirmed s" "count_list es (PairAdmit PairAdmitted) = 1"
    using toy_pairing_confirmed by blast
  with pairing_state_typed [OF h(1,2)] show ?thesis by auto
qed

end
