(* ===== verification/Pair_Honest.thy ===== *)
theory Pair_Honest
  imports Pair_Example
begin

text \<open>
  What a pairing session answers: an honest extension with the right code is confirmed, and every wrong guess is
  answered alike, whichever check it failed.
\<close>

section \<open>Honest extensions\<close>

lemma drawScalar_range:
  assumes "drawScalar order rng i = Some r"
  shows "case r of Inr y \<Rightarrow> y \<in> {1..<order} | Inl _ \<Rightarrow> True"
proof (rule drawScalar.raw_induct [where P = "\<lambda>order rng i r. case r of Inr y \<Rightarrow> y \<in> {1..<order} | Inl _ \<Rightarrow> True", OF _ assms])
  fix f order rng i r
  assume IH: "\<And>order rng i r. f order rng i = Some r \<Longrightarrow> case r of Inr y \<Rightarrow> y \<in> {1..<order} | Inl _ \<Rightarrow> True"
    and step: "(if length (rng i) \<noteq> SCALAR_BYTES
       then Some (Inl (Violation ''drawScalar requires exactly 32 bytes of entropy per draw''))
       else let candidate = os2ip (rng i)
            in if candidate \<noteq> 0 \<and> candidate < order then Some (Inr candidate) else f order rng (Suc i)) = Some r"
  show "case r of Inr y \<Rightarrow> y \<in> {1..<order} | Inl _ \<Rightarrow> True"
    using step IH [of order rng "Suc i" r] os2ip_nonneg [of "rng i"] by (auto simp: Let_def split: if_splits)
qed

lemma deriveWOnce_attempts [simp]: "deriveWOnce d cr (s \<lparr> sn_attempts := n \<rparr>) = deriveWOnce d cr s"
  by (simp add: deriveWOnce_def cong: option.case_cong)

lemma base64_own: "base64UrlBytes n (toBase64Url b) \<longleftrightarrow> length b = n" "b64_bytes (toBase64Url b) = b"
  by (simp_all add: base64UrlBytes_def b64_bytes_def from_to_base64url)

text \<open>
  C10: an extension that was given the code is let in. It draws any scalar, sends its share, derives the secret from
  the server's share and sends the MAC of its own run; if no ticket is involved and the code has not expired, the
  session answers with its share and, after the prompt has accepted, with its own MAC, both computed from the same
  secret, and opens a channel keyed by the common run.
\<close>
theorem honest_pairing_confirms:
  assumes "group_laws (cr_group cr)" and "x \<in> {1..<sg_order (cr_group cr)}"
    and "drawScalar (sg_order (cr_group cr)) (pe_draws env1) 0 = Some (Inr y)"
    and "deriveWOnce d cr s = Inr w"
    and "pA = computePublicA (cr_group cr) w x" and "pB = computePublicB (cr_group cr) w y"
    and "sharedFromA (cr_group cr) w x pB = Inr k" and "make_run d cr hello w pA pB k = Inr run"
    and "length pA = POINT_BYTES" "length pB = POINT_BYTES" "length (pr_expectedCA run) = MAC_BYTES" "length (pr_cB run) = MAC_BYTES"
    and "sn_state s = PS_awaitingPakeA" "sn_hello s = Some hello" "hc_ticketBindingPub hello = None" "sn_channel s = None"
      "sn_prompt s" "pd_nonceValid d"
    and "pe_now env1 < sn_codeExpiresAt s" "pe_now env2 < sn_codeExpiresAt s" "pe_settle env2 SessionPaired = SettleOk"
    and "n1 \<le> MAX_PRE_AUTH_FRAME_BYTES" "n2 \<le> MAX_PRE_AUTH_FRAME_BYTES"
  shows "\<exists>s' rest. sn_run_from d cr
      [(env1, PairFrameText (PtPakeA (Some (toBase64Url pA))) n1),
       (env2, PairFrameText (PtConfirmA (Some \<lparr> ca_cA = toBase64Url (pr_expectedCA run), ca_ticketProof = None \<rparr>)) n2)] (s, []) =
      (s', [PairText (PakeB (toBase64Url pB)), PairSettle SessionPaired, PairText (ConfirmB (toBase64Url (pr_cB run)))] @ rest) \<and>
     sn_state s' = PS_channelActive \<and>
     sn_channel s' = Some (ep_new (snd (pairTrafficKeys cr (pr_ke run))) DIR_S2C 0 0, ep_new (fst (pairTrafficKeys cr (pr_ke run))) DIR_C2S 0 0)"
proof -
  have y: "y \<in> {1..<sg_order (cr_group cr)}" using drawScalar_range [OF assms(3)] by simp
  have k: "sharedFromB (cr_group cr) w y pA = Inr k"
    using shared_agree [OF assms(1,2) y, of w] assms(5,6,7) by simp
  have w: "deriveWOnce d cr (s \<lparr> sn_attempts := Suc (sn_attempts s) \<rparr>) = Inr w" using assms(4) by simp
  define s1 where "s1 = s \<lparr> sn_attempts := Suc (sn_attempts s), sn_w := Some w, sn_run := Some run, sn_state := PS_awaitingConfirmA \<rparr>"
  have 1: "sn_step d cr env1 (PairFrameText (PtPakeA (Some (toBase64Url pA))) n1) s = (s1, [PairText (PakeB (toBase64Url pB))])"
    using assms(3,6,8-10,13,14,16,18,19,22) k w
    by (simp add: sn_step_def sn_handleText_def onPakeA_def Let_def codeExpired_def pakeAFrameSchema_def pakeBFrameSchema_def
        base64_own s1_def)
  have 2: "sn_step d cr env2 (PairFrameText (PtConfirmA (Some \<lparr> ca_cA = toBase64Url (pr_expectedCA run), ca_ticketProof = None \<rparr>)) n2) s1 =
      prepend [PairSettle SessionPaired] (confirmRun d cr run (s1 \<lparr> sn_prompt := False \<rparr>))"
    using assms(11,12,14-18,20,21,23)
    by (simp add: sn_step_def sn_handleText_def onConfirmA_def Let_def codeExpired_def confirmAFrameSchema_def confirmBFrameSchema_def
        base64_own s1_def settlePrompt_def)
  have 3: "\<exists>s' rest. confirmRun d cr run (s1 \<lparr> sn_prompt := False \<rparr>) = (s', PairText (ConfirmB (toBase64Url (pr_cB run))) # rest) \<and>
      sn_state s' = PS_channelActive \<and>
      sn_channel s' = Some (ep_new (snd (pairTrafficKeys cr (pr_ke run))) DIR_S2C 0 0, ep_new (fst (pairTrafficKeys cr (pr_ke run))) DIR_C2S 0 0)"
    using assms(14)
    by (simp add: confirmRun_def release_eq issueCredential_def prepend_def case_prod_beta Let_def s1_def)
  then obtain s' rest where "confirmRun d cr run (s1 \<lparr> sn_prompt := False \<rparr>) = (s', PairText (ConfirmB (toBase64Url (pr_cB run))) # rest)"
      "sn_state s' = PS_channelActive"
      "sn_channel s' = Some (ep_new (snd (pairTrafficKeys cr (pr_ke run))) DIR_S2C 0 0, ep_new (fst (pairTrafficKeys cr (pr_ke run))) DIR_C2S 0 0)"
    by blast
  then show ?thesis by (intro exI [where x = s'] exI [where x = rest]) (simp add: 1 2 prepend_def)
qed

lemma wide_group_laws: "group_laws wide_group"
  by (simp add: group_laws_def wide_group_def mult_ac)

lemma honest_pairing_confirms_witness:
  "\<exists>s' rest. sn_run_from toy_pd toy_pc
      [(toy_pe 2, PairFrameText (PtPakeA (Some toy_share)) 100),
       (toy_pe 3, PairFrameText (PtConfirmA (Some \<lparr> ca_cA = toBase64Url (replicate 32 0), ca_ticketProof = None \<rparr>)) 100)] (toy_s2, []) =
      (s', [PairText (PakeB (toBase64Url (replicate 31 0 @ [52]))), PairSettle SessionPaired,
            PairText (ConfirmB (toBase64Url (replicate 32 0)))] @ rest) \<and> sn_state s' = PS_channelActive"
proof -
  have crypto: "cr_group toy_pc = wide_group" "sg_order wide_group = 256" "cr_scrypt toy_pc = (\<lambda>p s. [9])"
    by (simp_all add: toy_pc_def wide_group_def)
  have env: "pe_draws (toy_pe t) = (\<lambda>i. replicate 31 0 @ [7])" "pe_now (toy_pe t) = t" "pe_settle (toy_pe t) SessionPaired = SettleOk" for t
    by (simp_all add: toy_pe_def)
  have s2: "sn_state toy_s2 = PS_awaitingPakeA" "sn_channel toy_s2 = None" "sn_hello toy_s2 = Some toy_hc" "sn_prompt toy_s2"
      "sn_codeExpiresAt toy_s2 = 120000" "sn_w toy_s2 = None" "sn_codeNormalized toy_s2 = Some ''01234567''"
    by (simp_all add: toy_s2_def toy_s1_def sn_new_def)
  have ticketless: "hc_ticketBindingPub toy_hc = None" by (simp add: toy_hc_def)
  have deps: "pd_nonceValid toy_pd" "pd_pairNonce toy_pd = ''n''" by (simp_all add: toy_pd_def)
  have pA: "computePublicA wide_group 9 2 = replicate 31 0 @ [29]" "sharedFromA wide_group 9 2 (replicate 31 0 @ [52]) = Inr (replicate 31 0 @ [112])"
    by code_simp+
  have "\<exists>s' rest. sn_run_from toy_pd toy_pc
      [(toy_pe 2, PairFrameText (PtPakeA (Some (toBase64Url (replicate 31 0 @ [29])))) 100),
       (toy_pe 3, PairFrameText (PtConfirmA (Some \<lparr> ca_cA = toBase64Url (pr_expectedCA toy_pake_run), ca_ticketProof = None \<rparr>)) 100)] (toy_s2, []) =
      (s', [PairText (PakeB (toBase64Url (replicate 31 0 @ [52]))), PairSettle SessionPaired, PairText (ConfirmB (toBase64Url (pr_cB toy_pake_run)))] @ rest) \<and>
     sn_state s' = PS_channelActive \<and>
     sn_channel s' = Some (ep_new (snd (pairTrafficKeys toy_pc (pr_ke toy_pake_run))) DIR_S2C 0 0, ep_new (fst (pairTrafficKeys toy_pc (pr_ke toy_pake_run))) DIR_C2S 0 0)"
    by (rule honest_pairing_confirms [where x = 2 and y = 7 and w = 9 and k = "replicate 31 0 @ [112]" and hello = toy_hc])
      (simp_all add: crypto wide_group_laws env toy_draw s2 pA toy_pake_checks toy_run_made deriveWOnce_def
        POINT_BYTES_def MAC_BYTES_def MAX_PRE_AUTH_FRAME_BYTES_def ticketless deps)
  then show ?thesis by (simp only: toy_run_made toy_share_def pA crypto) blast
qed

section \<open>Wrong guesses\<close>

text \<open>
  C12: all wrong guesses look alike. Whether the MAC is wrong, the ticket proof is invalid or both, a well-formed
  confirmation that fails is answered with the number of attempts left and nothing else, or, after the last
  attempt, with the same closing; the answer is a function of the attempts alone.
\<close>
theorem wrong_guess_uniform:
  assumes "sn_state s = PS_awaitingConfirmA" "sn_run s = Some run" "sn_hello s = Some hello" "sn_channel s = None" "pd_nonceValid d"
    and "pe_now env < sn_codeExpiresAt s" "n \<le> MAX_PRE_AUTH_FRAME_BYTES"
    and "confirmAFrameSchema f" "(hc_ticketBindingPub hello \<noteq> None) = (ca_ticketProof f \<noteq> None)" "\<not> confirms cr hello run f"
  shows "snd (sn_step d cr env (PairFrameText (PtConfirmA (Some f)) n) s) =
     (if sn_attempts s < MAX_ATTEMPTS
      then [PairText (PairError PE_codeMismatch (Some (int MAX_ATTEMPTS - int (sn_attempts s))))]
      else PairText (PairError PE_rateLimited None) # closing_effects s @ [PairClose ''rateLimited''])"
proof -
  let ?proofOk = "case (hc_ticketBindingPub hello, ca_ticketProof f) of
      (Some pub, Some proof) \<Rightarrow> verifyTicketProofStrict (ticket_crypto.truncate cr) pub (pr_tt run) (b64_bytes proof) | _ \<Rightarrow> True"
  have "\<not> (b64_bytes (ca_cA f) = pr_expectedCA run \<and> ?proofOk)"
    using assms(8-10) by (auto simp: confirms_def split: option.splits)
  then have "sn_step d cr env (PairFrameText (PtConfirmA (Some f)) n) s = failRun env s"
    using assms(1-9) by (simp add: sn_step_def sn_handleText_def onConfirmA_def Let_def codeExpired_def)
  moreover have "closing_effects (s \<lparr> sn_run := None \<rparr>) = closing_effects s" by (simp add: closing_effects_def)
  ultimately show ?thesis
    using assms(1) by (simp add: failRun_def sendPairError_def pairErrorFrameSchema_def fail_eq)
qed

lemma wrong_guess_uniform_witness:
  "snd (sn_step toy_pd toy_pc (toy_pe 3) (PairFrameText (PtConfirmA (Some
      \<lparr> ca_cA = toBase64Url (replicate 31 0 @ [1]), ca_ticketProof = None \<rparr>)) 100) toy_s3) =
     [PairText (PairError PE_codeMismatch (Some 2))]"
proof -
  have s3: "sn_state toy_s3 = PS_awaitingConfirmA" "sn_channel toy_s3 = None" "sn_hello toy_s3 = Some toy_hc"
      "sn_codeExpiresAt toy_s3 = 120000" "sn_run toy_s3 = Some toy_pake_run" "sn_attempts toy_s3 = 1"
    by (simp_all add: toy_s3_def toy_s2_def toy_s1_def sn_new_def)
  have neq: "replicate 31 0 @ [1] \<noteq> (replicate 32 0 :: byte list)" by code_simp
  have "snd (sn_step toy_pd toy_pc (toy_pe 3) (PairFrameText (PtConfirmA (Some
      \<lparr> ca_cA = toBase64Url (replicate 31 0 @ [1]), ca_ticketProof = None \<rparr>)) 100) toy_s3) =
     (if sn_attempts toy_s3 < MAX_ATTEMPTS
      then [PairText (PairError PE_codeMismatch (Some (int MAX_ATTEMPTS - int (sn_attempts toy_s3))))]
      else PairText (PairError PE_rateLimited None) # closing_effects toy_s3 @ [PairClose ''rateLimited''])"
    by (rule wrong_guess_uniform [where run = toy_pake_run and hello = toy_hc])
      (use neq in \<open>simp_all add: s3 toy_pd_def toy_pe_def MAX_PRE_AUTH_FRAME_BYTES_def confirmAFrameSchema_def base64_own MAC_BYTES_def
         toy_hc_def confirms_def toy_run_made\<close>)
  then show ?thesis by (simp add: s3 MAX_ATTEMPTS_def)
qed

text \<open>A share that makes the secret the identity element is answered like a wrong MAC of the same attempt.\<close>

lemma identity_like_wrong_guess:
  assumes "sn_state s = PS_awaitingPakeA" "sn_hello s = Some hello" "sn_channel s = None" "pd_nonceValid d"
    and "pe_now env < sn_codeExpiresAt s" "n \<le> MAX_PRE_AUTH_FRAME_BYTES" and "pakeAFrameSchema pA"
    and "deriveWOnce d cr s = Inr w" and "drawScalar (sg_order (cr_group cr)) (pe_draws env) 0 = Some (Inr y)"
    and "sharedFromB (cr_group cr) w y (b64_bytes pA) = Inl IdentityKError" and "sn_attempts s + 1 < MAX_ATTEMPTS"
  shows "snd (sn_step d cr env (PairFrameText (PtPakeA (Some pA)) n) s) =
     [PairText (PairError PE_codeMismatch (Some (int MAX_ATTEMPTS - int (sn_attempts s + 1))))]"
proof -
  have "deriveWOnce d cr (s \<lparr> sn_attempts := Suc (sn_attempts s) \<rparr>) = Inr w" using assms(8) by simp
  then show ?thesis
    using assms by (simp add: sn_step_def sn_handleText_def onPakeA_def Let_def codeExpired_def failRun_def sendPairError_def
        pairErrorFrameSchema_def)
qed

end
