(* ===== verification/Pair_Wiring.thy ===== *)
theory Pair_Wiring
  imports Pair_Safety Pair_Example Frame_Pump Pair_Flood
begin

text \<open>
  A pairing socket of the bridge server: the session of \<open>Pair_Session\<close> behind the frame pump, with the entry of
  the pre-authentication table and the outcome that is reported to the flood control
  (\<open>handleMbp1PairUpgrade\<close>, \<open>recordPairOutcome\<close> and \<open>expirePairPreAuth\<close> of
  \<open>core/bridge/web-socket-bridge-server.ts\<close>).
\<close>

section \<open>The socket\<close>

text \<open>\<open>pw_settled\<close>: the entry has left the table; the queue of the pump holds the frames of the socket.\<close>

record pair_wire =
  pw_session :: pair_session
  pw_pump :: "pair_event pump"
  pw_settled :: bool
  pw_queuedDialog :: bool
  pw_confirmed :: bool
  pw_outcomeRecorded :: bool

datatype wire_event =
    WireFrame pair_event
  | WireHandlerDone bool
  | WireOutcome pair_event
  | WireClosed
  | WireTimeout
  | WireRevoked

datatype wire_effect =
    WireSession pair_effect
  | WireReEmit pair_event
  | WireInternalClose
  | WireSocketClose
  | WireRecord pair_outcome

definition wire_new :: pair_wire where
  "wire_new = \<lparr> pw_session = sn_new, pw_pump = pump_new, pw_settled = False, pw_queuedDialog = False, pw_confirmed = False,
     pw_outcomeRecorded = False \<rparr>"

definition recordPairOutcome :: "pair_wire \<Rightarrow> pair_wire \<times> wire_effect list" where
  "recordPairOutcome w =
     (if pw_outcomeRecorded w then (w, [])
      else (w \<lparr> pw_outcomeRecorded := True \<rparr>,
            [WireRecord \<lparr> queuedDialog = pw_queuedDialog w, consumedAttempt = sn_attempts (pw_session w) > 0,
                          confirmed = pw_confirmed w \<rparr>]))"

fun is_authenticated :: "pair_effect \<Rightarrow> bool" where
  "is_authenticated (PairAuthenticated a b c) \<longleftrightarrow> True"
| "is_authenticated _ \<longleftrightarrow> False"

text \<open>
  One step of the session, with the subscriptions of the server: the dialog counts once its publication was
  delivered, and \<open>onAuthenticated\<close> hands the socket over in the same tick.
\<close>

definition wire_session ::
  "pair_deps \<Rightarrow> ('p, 'a) pair_crypto_scheme \<Rightarrow> pair_env \<Rightarrow> pair_event \<Rightarrow> pair_wire \<Rightarrow> pair_wire \<times> wire_effect list" where
  "wire_session d cr env e w =
     (let (s', es) = sn_step d cr env e (pw_session w);
          w1 = w \<lparr> pw_session := s',
                   pw_queuedDialog := pw_queuedDialog w \<or> (e = PairPublished True \<and> sn_publishing (pw_session w)) \<rparr>
      in if list_ex is_authenticated es
         then let (w2, rs) = recordPairOutcome
                    (w1 \<lparr> pw_pump := pump_handOver (pw_pump w1), pw_settled := True, pw_confirmed := True \<rparr>)
              in (w2, map WireSession es @ rs)
         else (w1, map WireSession es))"

text \<open>What the pump does with its frames.\<close>

fun wire_feed ::
  "pair_deps \<Rightarrow> ('p, 'a) pair_crypto_scheme \<Rightarrow> pair_env \<Rightarrow> pair_event pump_effect list \<Rightarrow> pair_wire \<Rightarrow>
   pair_wire \<times> wire_effect list" where
  "wire_feed d cr env [] w = (w, [])"
| "wire_feed d cr env (Consume e # ps) w =
     (let (w1, es1) = wire_session d cr env e w; (w2, es2) = wire_feed d cr env ps w1 in (w2, es1 @ es2))"
| "wire_feed d cr env (EmitMessage e # ps) w =
     (let (w2, es2) = wire_feed d cr env ps w in (w2, WireReEmit e # es2))"
| "wire_feed d cr env (CloseInternalError # ps) w =
     (let (w2, es2) = wire_feed d cr env ps w in (w2, WireInternalClose # es2))"

definition wire_pump ::
  "pair_deps \<Rightarrow> ('p, 'a) pair_crypto_scheme \<Rightarrow> pair_env \<Rightarrow> pair_event pump \<times> pair_event pump_effect list \<Rightarrow> pair_wire \<Rightarrow>
   pair_wire \<times> wire_effect list" where
  "wire_pump d cr env r w = wire_feed d cr env (snd r) (w \<lparr> pw_pump := fst r \<rparr>)"

text \<open>
  \<open>session.dispose\<close> as the server calls it: the flag says that it threw, after the session has ended and given
  back its slot.
\<close>

definition wire_dispose ::
  "pair_deps \<Rightarrow> ('p, 'a) pair_crypto_scheme \<Rightarrow> pair_env \<Rightarrow> pair_wire \<Rightarrow> bool \<times> pair_wire \<times> wire_effect list" where
  "wire_dispose d cr env w = (fst (sn_dispose env (pw_session w)), wire_session d cr env PairDispose w)"

text \<open>
  The deadline of the table has passed, and the table has dropped the entry. A \<open>dispose\<close> that throws skips the
  outcome; the socket is closed in the \<open>finally\<close>.
\<close>

definition expirePairPreAuth ::
  "pair_deps \<Rightarrow> ('p, 'a) pair_crypto_scheme \<Rightarrow> pair_env \<Rightarrow> pair_wire \<Rightarrow> pair_wire \<times> wire_effect list" where
  "expirePairPreAuth d cr env w =
     (let (threw, w1, es) = wire_dispose d cr env w
      in if threw then (w1, es @ [WireSocketClose])
         else let (w2, rs) = recordPairOutcome w1 in (w2, es @ rs @ [WireSocketClose]))"

text \<open>
  The handler of the socket's \<open>close\<close>: no \<open>try\<close> around \<open>dispose\<close>, so an exception leaves the handler before the
  outcome is recorded.
\<close>

definition wire_closed ::
  "pair_deps \<Rightarrow> ('p, 'a) pair_crypto_scheme \<Rightarrow> pair_env \<Rightarrow> pair_wire \<Rightarrow> pair_wire \<times> wire_effect list" where
  "wire_closed d cr env w =
     (let (threw, w1, es) = wire_dispose d cr env (w \<lparr> pw_pump := pump_handOver (pw_pump w), pw_settled := True \<rparr>)
      in if threw then (w1, es) else let (w2, rs) = recordPairOutcome w1 in (w2, es @ rs))"

text \<open>A revoke of the extension: the entry is taken from the table, and every call has a \<open>try\<close> of its own.\<close>

definition cancelPreAuth ::
  "pair_deps \<Rightarrow> ('p, 'a) pair_crypto_scheme \<Rightarrow> pair_env \<Rightarrow> pair_wire \<Rightarrow> pair_wire \<times> wire_effect list" where
  "cancelPreAuth d cr env w =
     (let (threw, w1, es) = wire_dispose d cr env w;
          (w2, rs) = recordPairOutcome w1
      in (w2, es @ rs @ [WireSocketClose]))"

text \<open>
  After the handover the server has no listener for messages on the socket. The promise of a handler settles when
  no call of it is in flight. The outcomes of calls and the end of the prompt reach the session directly.
\<close>

definition wire_step ::
  "pair_deps \<Rightarrow> ('p, 'a) pair_crypto_scheme \<Rightarrow> pair_env \<Rightarrow> wire_event \<Rightarrow> pair_wire \<Rightarrow> pair_wire \<times> wire_effect list" where
  "wire_step d cr env e w =
     (case e of
        WireFrame f \<Rightarrow>
          if \<not> is_frame f \<or> pm_handedOver (pw_pump w) then (w, [])
          else wire_pump d cr env (pump_push f (pw_pump w)) w
      | WireHandlerDone ok \<Rightarrow>
          if sn_suspended (pw_session w) then (w, [])
          else wire_pump d cr env (pump_settled ok (pw_pump w)) w
      | WireOutcome o1 \<Rightarrow> if is_frame o1 then (w, []) else wire_session d cr env o1 w
      | WireClosed \<Rightarrow> wire_closed d cr env w
      | WireTimeout \<Rightarrow>
          if pw_settled w then (w, []) else expirePairPreAuth d cr env (w \<lparr> pw_settled := True \<rparr>)
      | WireRevoked \<Rightarrow>
          if pw_settled w then (w, []) else cancelPreAuth d cr env (w \<lparr> pw_settled := True \<rparr>))"

type_synonym wire_history = "(pair_env \<times> wire_event) list"

fun wire_run ::
  "pair_deps \<Rightarrow> ('p, 'a) pair_crypto_scheme \<Rightarrow> wire_history \<Rightarrow> pair_wire \<times> wire_effect list \<Rightarrow> pair_wire \<times> wire_effect list" where
  "wire_run d cr [] r = r"
| "wire_run d cr ((env, e) # h) r =
     wire_run d cr h (let (w, es) = wire_step d cr env e (fst r) in (w, snd r @ es))"

fun session_effects :: "wire_effect list \<Rightarrow> pair_effect list" where
  "session_effects [] = []"
| "session_effects (WireSession e # es) = e # session_effects es"
| "session_effects (_ # es) = session_effects es"

fun recorded_outcomes :: "wire_effect list \<Rightarrow> pair_outcome list" where
  "recorded_outcomes [] = []"
| "recorded_outcomes (WireRecord r # es) = r # recorded_outcomes es"
| "recorded_outcomes (_ # es) = recorded_outcomes es"

lemma recorded_append [simp]: "recorded_outcomes (es @ es') = recorded_outcomes es @ recorded_outcomes es'"
  by (induction es rule: recorded_outcomes.induct) auto

lemma recorded_map [simp]: "recorded_outcomes (map WireSession es) = []"
  by (induction es) auto

lemma session_effects_append [simp]: "session_effects (es @ es') = session_effects es @ session_effects es'"
  by (induction es rule: session_effects.induct) auto

lemma session_effects_map [simp]: "session_effects (map WireSession es) = es"
  by (induction es) auto

lemma record_effects: "session_effects (snd (recordPairOutcome w)) = []" "pw_session (fst (recordPairOutcome w)) = pw_session w"
  "pw_pump (fst (recordPairOutcome w)) = pw_pump w"
  by (simp_all add: recordPairOutcome_def)

section \<open>Outcomes do not suspend a session\<close>

lemma suspended_closed_of [simp]: "sn_suspended (closed_of env s) = sn_suspended s"
  by (simp add: sn_suspended_def)

lemma suspended_terminate [simp]: "sn_suspended (fst (sn_terminate env r s)) = sn_suspended s"
proof (cases "sn_state s = PS_closed")
  case True
  then show ?thesis by (simp add: sn_terminate_def)
next
  case False
  then show ?thesis by (simp add: terminate_eq)
qed

lemma suspended_fail [simp]: "sn_suspended (fst (sn_fail env c s)) = sn_suspended s"
  by (simp add: sn_fail_def sendPairError_def pairErrorFrameSchema_def prepend_def)

lemma suspended_expire [simp]: "sn_suspended (fst (sn_expire env s)) = sn_suspended s"
  by (simp add: sn_expire_def)

lemma suspended_dispose [simp]: "sn_suspended (fst (snd (sn_dispose env s))) = sn_suspended s"
  by (cases "sn_state s = PS_closed") (simp_all add: dispose_closed dispose_eq)

lemma suspended_channel [simp]: "sn_suspended (s \<lparr> sn_channel := c \<rparr>) = sn_suspended s"
  by (simp add: sn_suspended_def)

lemma sealed_suspends [simp]: "sn_suspended (fst (snd (sendSealed cr env f s))) = sn_suspended s"
  by (cases rule: sealed_shape [of cr env f s]) simp_all

lemma suspended_offs [simp]:
  "sn_suspended (s \<lparr> sn_listening := l \<rparr>) = sn_suspended s"
  "sn_suspended (s \<lparr> sn_state := st \<rparr>) = sn_suspended s" "sn_suspended (s \<lparr> sn_offeredCredentialId := i \<rparr>) = sn_suspended s"
  by (simp_all add: sn_suspended_def)

lemma outcome_keeps_free:
  assumes "\<not> is_frame e" and "\<not> sn_suspended s"
  shows "\<not> sn_suspended (fst (sn_step d cr env e s))"
proof (cases e)
  case (PairPromptTerminal outcome)
  then show ?thesis using assms(2) by (cases outcome) (simp_all add: sn_step_def onPromptTerminal_def)
next
  case PairPromptBroken
  then show ?thesis using assms(2) by (simp add: sn_step_def onPromptContractFailure_def)
next
  case (PairPublished ok)
  then show ?thesis using assms(2) by (simp add: sn_step_def sn_suspended_def)
next
  case (PairOffered ok)
  then show ?thesis using assms(2) by (simp add: sn_step_def sn_suspended_def)
next
  case (PairCommitted ok)
  then show ?thesis using assms(2) by (simp add: sn_step_def sn_suspended_def)
next
  case PairDispose
  then show ?thesis using assms(2) by (simp add: sn_step_def)
qed (use assms in simp_all)

section \<open>The server runs the session serially\<close>

lemma serial_append:
  "sn_serial d cr (h @ [(env, e)]) s \<longleftrightarrow>
     sn_serial d cr h s \<and> (\<not> is_frame e \<or> \<not> sn_suspended (fst (sn_run_from d cr h (s, es))))"
proof (induction h arbitrary: s es)
  case Nil
  then show ?case by simp
next
  case (Cons a h)
  obtain env' e' where a: "a = (env', e')" by (cases a)
  show ?case using Cons.IH [of "fst (sn_step d cr env' e' s)" "es @ snd (sn_step d cr env' e' s)"] by (simp add: a prepend_def)
qed

lemma run_append:
  "sn_run_from d cr (h @ [(env, e)]) r =
     (let q = sn_run_from d cr h r in prepend (snd q) (sn_step d cr env e (fst q)))"
proof (induction h arbitrary: r)
  case Nil
  then show ?case by simp
next
  case (Cons a h)
  obtain env' e' where a: "a = (env', e')" by (cases a)
  show ?case using Cons.IH [of "prepend (snd r) (sn_step d cr env' e' (fst r))"] by (simp add: a)
qed

definition explains :: "pair_deps \<Rightarrow> ('p, 'a) pair_crypto_scheme \<Rightarrow> pair_history \<Rightarrow> pair_session \<Rightarrow> pair_effect list \<Rightarrow> bool" where
  "explains d cr h s es \<longleftrightarrow> sn_serial d cr h sn_new \<and> sn_run_from d cr h (sn_new, []) = (s, es)"

lemma explains_step:
  assumes "explains d cr h s es" and "\<not> is_frame e \<or> \<not> sn_suspended s"
  shows "explains d cr (h @ [(env, e)]) (fst (sn_step d cr env e s)) (es @ snd (sn_step d cr env e s))"
  using assms unfolding explains_def by (simp add: serial_append [where es = "[]"] run_append prepend_def)

lemma wire_session_facts:
  "pw_session (fst (wire_session d cr env e w)) = fst (sn_step d cr env e (pw_session w))"
  "session_effects (snd (wire_session d cr env e w)) = snd (sn_step d cr env e (pw_session w))"
  "pm_running (pw_pump (fst (wire_session d cr env e w))) = pm_running (pw_pump w)"
  by (simp_all add: wire_session_def case_prod_beta Let_def record_effects pump_handOver_def)

definition wire_ok :: "pair_deps \<Rightarrow> ('p, 'a) pair_crypto_scheme \<Rightarrow> pair_wire \<Rightarrow> pair_effect list \<Rightarrow> bool" where
  "wire_ok d cr w es \<longleftrightarrow> (\<exists>h. explains d cr h (pw_session w) es) \<and> (\<not> pm_running (pw_pump w) \<longrightarrow> \<not> sn_suspended (pw_session w))"

lemma wire_ok_new: "wire_ok d cr wire_new []"
proof -
  have "explains d cr [] sn_new []" by (simp add: explains_def)
  then show ?thesis unfolding wire_ok_def wire_new_def by (auto simp: sn_suspended_def sn_new_def)
qed

lemma wire_ok_outcome:
  assumes "wire_ok d cr w es" and "\<not> is_frame e"
  shows "wire_ok d cr (fst (wire_session d cr env e w)) (es @ session_effects (snd (wire_session d cr env e w)))"
  using assms explains_step outcome_keeps_free unfolding wire_ok_def wire_session_facts by metis

lemma wire_ok_frame:
  assumes "wire_ok d cr w es" and "\<not> sn_suspended (pw_session w)" and "pm_running (pw_pump w)"
  shows "wire_ok d cr (fst (wire_session d cr env e w)) (es @ session_effects (snd (wire_session d cr env e w)))"
  using assms explains_step unfolding wire_ok_def wire_session_facts by metis

text \<open>What a pump step hands out: one frame, and then the pump runs, or no frame at all.\<close>

definition one_frame :: "'f pump \<times> 'f pump_effect list \<Rightarrow> bool" where
  "one_frame r \<longleftrightarrow> consumed (snd r) = [] \<or> (\<exists>e. snd r = [Consume e] \<and> pm_running (fst r))"

lemma one_frame_rest: "one_frame (drain_rest p)"
  by (simp add: one_frame_def drain_rest_def Let_def consumed_emits)

lemma one_frame_loop: "pm_running p \<Longrightarrow> one_frame (drain_loop p)"
  using one_frame_rest [of p] by (auto simp: drain_loop_def one_frame_def split: list.split)

lemma one_frame_push: "one_frame (pump_push f p)"
  using one_frame_loop [of "p \<lparr> pm_pending := pm_pending p @ [f], pm_running := True \<rparr>"]
  by (auto simp: pump_push_def pump_drain_def one_frame_def)

lemma one_frame_settled: "one_frame (pump_settled ok p)"
proof (cases "pm_running p \<and> \<not> ok")
  case True
  then show ?thesis using one_frame_rest [of "p \<lparr> pm_pending := [] \<rparr>"]
    by (simp add: pump_settled_def one_frame_def drain_rest_def Let_def consumed_emits)
next
  case False
  then show ?thesis using one_frame_loop [of p] by (auto simp: pump_settled_def one_frame_def)
qed

lemma feed_quiet:
  assumes "consumed ps = []"
  shows "fst (wire_feed d cr env ps w) = w \<and> session_effects (snd (wire_feed d cr env ps w)) = [] \<and>
    recorded_outcomes (snd (wire_feed d cr env ps w)) = []"
  using assms
proof (induction ps)
  case (Cons p ps)
  then show ?case by (cases p) (simp_all add: case_prod_beta Let_def)
qed simp

lemma wire_ok_pump:
  assumes ok: "wire_ok d cr w es" and free: "\<not> sn_suspended (pw_session w)" and "one_frame r"
  shows "wire_ok d cr (fst (wire_pump d cr env r w)) (es @ session_effects (snd (wire_pump d cr env r w)))"
  using assms(3) unfolding one_frame_def
proof (elim disjE exE conjE)
  assume "consumed (snd r) = []"
  then show ?thesis using ok free feed_quiet [of "snd r" d cr env "w \<lparr> pw_pump := fst r \<rparr>"]
    by (simp add: wire_pump_def wire_ok_def)
next
  fix e assume r: "snd r = [Consume e]" "pm_running (fst r)"
  have "wire_ok d cr (w \<lparr> pw_pump := fst r \<rparr>) es" using ok r(2) by (simp add: wire_ok_def)
  from wire_ok_frame [OF this] show ?thesis using free r by (simp add: wire_pump_def case_prod_beta Let_def)
qed

lemma wire_ok_push:
  assumes "wire_ok d cr w es"
  shows "wire_ok d cr (fst (wire_pump d cr env (pump_push f (pw_pump w)) w))
    (es @ session_effects (snd (wire_pump d cr env (pump_push f (pw_pump w)) w)))"
proof (cases "pm_running (pw_pump w)")
  case True
  then show ?thesis using assms by (simp add: pump_push_def pump_drain_def wire_pump_def wire_ok_def)
next
  case False
  then show ?thesis using wire_ok_pump [OF assms _ one_frame_push] assms by (simp add: wire_ok_def)
qed

lemma wire_ok_cong:
  assumes "wire_ok d cr w es" and "pw_session w' = pw_session w" and "pm_running (pw_pump w') = pm_running (pw_pump w)"
  shows "wire_ok d cr w' es"
  using assms by (simp add: wire_ok_def)

text \<open>The three ends of the server: the session is disposed of, and an outcome recorded unless that threw.\<close>

definition wire_end ::
  "pair_deps \<Rightarrow> ('p, 'a) pair_crypto_scheme \<Rightarrow> pair_env \<Rightarrow> bool \<Rightarrow> pair_wire \<Rightarrow> pair_wire \<times> wire_effect list" where
  "wire_end d cr env recorded w =
     (let (w1, es) = wire_session d cr env PairDispose w; (w2, rs) = recordPairOutcome w1
      in if recorded then (w2, es @ rs) else (w1, es))"

lemma closed_end:
  "wire_closed d cr env w = wire_end d cr env (\<not> fst (sn_dispose env (pw_session w)))
     (w \<lparr> pw_pump := pump_handOver (pw_pump w), pw_settled := True \<rparr>)"
  by (simp add: wire_closed_def wire_dispose_def wire_end_def case_prod_beta Let_def)

lemma expired_end:
  "expirePairPreAuth d cr env w =
     (let (w', es) = wire_end d cr env (\<not> fst (sn_dispose env (pw_session w))) w in (w', es @ [WireSocketClose]))"
  by (simp add: expirePairPreAuth_def wire_dispose_def wire_end_def case_prod_beta Let_def)

lemma cancelled_end:
  "cancelPreAuth d cr env w = (let (w', es) = wire_end d cr env True w in (w', es @ [WireSocketClose]))"
  by (simp add: cancelPreAuth_def wire_dispose_def wire_end_def case_prod_beta Let_def)

lemmas wire_ends = closed_end expired_end cancelled_end

lemma wire_ok_end:
  assumes "wire_ok d cr w es" and "pw_session w' = pw_session w" and "pm_running (pw_pump w') = pm_running (pw_pump w)"
  shows "wire_ok d cr (fst (wire_end d cr env recorded w')) (es @ session_effects (snd (wire_end d cr env recorded w')))"
proof -
  have ok: "wire_ok d cr (fst (wire_session d cr env PairDispose w')) (es @ session_effects (snd (wire_session d cr env PairDispose w')))"
    by (rule wire_ok_outcome [OF wire_ok_cong [OF assms]]) simp
  have "wire_ok d cr (fst (recordPairOutcome (fst (wire_session d cr env PairDispose w'))))
      (es @ session_effects (snd (wire_session d cr env PairDispose w')))"
    by (rule wire_ok_cong [OF ok]) (simp_all add: record_effects)
  with ok show ?thesis by (cases recorded) (simp_all add: wire_end_def case_prod_beta Let_def record_effects)
qed

lemma wire_ok_step:
  assumes "wire_ok d cr w es"
  shows "wire_ok d cr (fst (wire_step d cr env e w)) (es @ session_effects (snd (wire_step d cr env e w)))"
proof (cases e)
  case (WireFrame f)
  then show ?thesis using assms wire_ok_push [OF assms] by (simp add: wire_step_def)
next
  case (WireHandlerDone ok)
  then show ?thesis using assms wire_ok_pump [OF assms _ one_frame_settled] by (simp add: wire_step_def)
next
  case (WireOutcome f)
  then show ?thesis using assms wire_ok_outcome [OF assms] by (simp add: wire_step_def)
next
  case WireClosed
  then show ?thesis using wire_ok_end [OF assms, where w' = "w \<lparr> pw_pump := pump_handOver (pw_pump w), pw_settled := True \<rparr>"]
    by (simp add: wire_step_def wire_ends pump_handOver_def)
next
  case WireTimeout
  then show ?thesis using assms wire_ok_end [OF assms, where w' = "w \<lparr> pw_settled := True \<rparr>"]
    by (simp add: wire_step_def wire_ends case_prod_beta Let_def)
next
  case WireRevoked
  then show ?thesis using assms wire_ok_end [OF assms, where w' = "w \<lparr> pw_settled := True \<rparr>"]
    by (simp add: wire_step_def wire_ends case_prod_beta Let_def)
qed

lemma wire_ok_run:
  "wire_ok d cr w (session_effects es) \<Longrightarrow>
   wire_ok d cr (fst (wire_run d cr h (w, es))) (session_effects (snd (wire_run d cr h (w, es))))"
proof (induction h arbitrary: w es)
  case (Cons a h)
  obtain env e where a: "a = (env, e)" by (cases a)
  show ?case using Cons.IH [of "fst (wire_step d cr env e w)" "es @ snd (wire_step d cr env e w)"]
    wire_ok_step [OF Cons.prems, of env e] by (simp add: a case_prod_beta Let_def)
qed simp

lemma wire_ok_inv: "wire_ok d cr w es \<Longrightarrow> \<exists>h. sn_inv d cr h (pw_session w, es)"
  using inv_reachable unfolding wire_ok_def explains_def by blast

section \<open>Only a commit hands the socket over\<close>

abbreviation hands_over :: "pair_effect list \<Rightarrow> bool" where "hands_over es \<equiv> list_ex is_authenticated es"

lemma hands_over_iff: "hands_over es \<longleftrightarrow> (\<exists>a b c. PairAuthenticated a b c \<in> set es)"
proof (induction es)
  case (Cons x es)
  show ?case by (cases x) (auto simp: Cons)
qed simp

lemma inv_other_history:
  assumes "sn_inv d cr h (s, es)" and "\<not> hands_over es"
  shows "sn_inv d cr ((env, e) # filter (\<lambda>x. snd x \<noteq> PairCommitted True) h) (s, es)"
proof -
  have "proof_ok d cr h s es" using assms(1) by (simp add: sn_inv_def)
  moreover have shown: "hello_shown d cr ((env, e) # filter (\<lambda>x. snd x \<noteq> PairCommitted True) h) es c hello"
    if "hello_shown d cr h es c hello" for c hello
    using that unfolding hello_shown_def by fastforce
  moreover have "channel_ok d cr ((env, e) # filter (\<lambda>x. snd x \<noteq> PairCommitted True) h) es co ch"
    if was: "channel_ok d cr h es co ch" for co ch
  proof (cases ch)
    case (Some ab)
    obtain a b where ab: "ab = (a, b)" by (cases ab)
    obtain run where run: "code_proved d cr h es run" "keys_of cr run a b" "\<forall>cid. co = Some cid \<longrightarrow> acknowledged cr h run cid"
      using was Some ab by (auto simp: channel_ok_def)
    have "code_proved d cr ((env, e) # filter (\<lambda>x. snd x \<noteq> PairCommitted True) h) es run"
      using run(1) shown unfolding code_proved_def by fastforce
    moreover have "acknowledged cr ((env, e) # filter (\<lambda>x. snd x \<noteq> PairCommitted True) h) run cid"
      if ack: "acknowledged cr h run cid" for cid using ack unfolding acknowledged_def by fastforce
    ultimately show ?thesis using run(2,3) Some ab by (auto simp: channel_ok_def)
  qed (simp add: channel_ok_def)
  moreover have "offered_durably ((env, e) # filter (\<lambda>x. snd x \<noteq> PairCommitted True) h) cid" if "offered_durably h cid" for cid
    using that unfolding offered_durably_def by fastforce
  ultimately have "proof_ok d cr ((env, e) # filter (\<lambda>x. snd x \<noteq> PairCommitted True) h) s es"
    using assms(2) unfolding proof_ok_def hands_over_iff by blast
  then show ?thesis using assms(1) by (simp add: sn_inv_def)
qed

lemma silent_step:
  assumes "sn_inv d cr h (s, es)" and "\<not> hands_over es" and "e \<noteq> PairCommitted True" and "\<not> is_frame e \<or> \<not> sn_suspended s"
  shows "\<not> hands_over (snd (sn_step d cr env e s))"
proof
  let ?h = "(env, e) # filter (\<lambda>x. snd x \<noteq> PairCommitted True) h"
  assume over: "hands_over (snd (sn_step d cr env e s))"
  have "sn_good d cr ?h es (sn_step d cr env e s)"
    by (rule sn_good_step [OF inv_other_history [OF assms(1,2)]]) (use assms(4) in simp_all)
  then have "proof_ok d cr ?h (fst (sn_step d cr env e s)) (es @ snd (sn_step d cr env e s))"
    by (simp add: sn_good_def sn_inv_def)
  then obtain a b cid where "paired_properly d cr ?h (es @ snd (sn_step d cr env e s)) a b cid"
    using over unfolding proof_ok_def hands_over_iff by (metis UnI2 set_append)
  then show False using assms(3) by (auto simp: paired_properly_def)
qed

lemma not_over_ends:
  "\<not> hands_over (snd (sn_terminate env r s))" 
proof (cases "sn_state s = PS_closed")
  case True
  then show ?thesis by (simp add: sn_terminate_def)
next
  case False
  then show ?thesis by (simp add: terminate_eq closing_effects_def)
qed

lemma commit_step:
  assumes "hands_over (snd (sn_step d cr env (PairCommitted True) s))"
  shows "sn_state (fst (sn_step d cr env (PairCommitted True) s)) = PS_committed"
proof (cases "sn_committing s")
  case None
  then show ?thesis using assms by (simp add: sn_step_def)
next
  case (Some cid)
  let ?s = "s \<lparr> sn_committing := None \<rparr>"
  have step: "sn_step d cr env (PairCommitted True) s = afterCommitted cr env True cid ?s" using Some by (simp add: sn_step_def)
  have sealing: "sn_state s = PS_acked" "sn_channel s \<noteq> None"
    using assms unfolding step by (auto simp: afterCommitted_def split: if_splits)
  show ?thesis
  proof (cases rule: sealed_shape [of cr env "json_object [(''type'', ''credentialCommitted'')]" ?s])
    case (refused c)
    then show ?thesis using assms not_over_ends sealing unfolding step by (simp add: afterCommitted_def)
  next
    case (sent c bytes)
    then show ?thesis using sealing unfolding step by (simp add: afterCommitted_def split: prod.split)
  qed (use sealing in simp)
qed

definition ended :: "pair_session \<Rightarrow> bool" where
  "ended s \<longleftrightarrow> sn_state s = PS_closed \<or> sn_state s = PS_committed"

definition stays_ended :: "pair_session \<Rightarrow> pair_result \<Rightarrow> bool" where
  "stays_ended s r \<longleftrightarrow> ended (fst r) \<and> sn_attempts (fst r) = sn_attempts s \<and> \<not> hands_over (snd r)"

lemma terminate_stays: "ended s \<Longrightarrow> stays_ended s (sn_terminate env r s)"
proof (cases "sn_state s = PS_closed")
  case True
  then show ?thesis by (simp add: sn_terminate_def stays_ended_def ended_def)
next
  case False
  then show ?thesis by (simp add: terminate_eq closing_effects_def stays_ended_def ended_def)
qed

lemma idle_stays: "ended s \<Longrightarrow> sn_state s' = sn_state s \<Longrightarrow> sn_attempts s' = sn_attempts s \<Longrightarrow> stays_ended s (s', [])"
  by (simp add: stays_ended_def ended_def)

lemma ended_step:
  assumes inv: "sn_inv d cr h (s, es)" and end_: "ended s"
  shows "stays_ended s (sn_step d cr env e s)"
proof -
  have phase: "sn_publishing s \<longrightarrow> sn_state s \<in> {PS_awaitingHello, PS_closed}"
    "sn_offering s \<longrightarrow> sn_state s \<in> {PS_channelActive, PS_closed}" "sn_committing s \<noteq> None \<longrightarrow> sn_state s \<in> {PS_acked, PS_closed}"
    using inv by (simp_all add: sn_inv_def phase_ok_def)
  have idle: "stays_ended s (s, [])" using end_ by (simp add: idle_stays)
  have closed: "sn_state s = PS_closed" if "sn_publishing s \<or> sn_offering s \<or> sn_committing s \<noteq> None"
    using that phase end_ by (auto simp: ended_def)
  show ?thesis
  proof (cases e)
    case (PairFrameText raw n)
    then show ?thesis using idle end_ by (simp add: sn_step_def sn_handleText_def ended_def)
  next
    case (PairFrameBinary frame)
    then show ?thesis using idle end_ by (simp add: sn_step_def sn_handleBinary_def ended_def)
  next
    case (PairPublished delivered)
    then show ?thesis using idle closed idle_stays [OF end_] by (simp add: sn_step_def afterPublished_def)
  next
    case (PairOffered offer)
    then show ?thesis using idle closed idle_stays [OF end_]
      by (cases offer) (auto simp: sn_step_def afterOffered_def sn_terminate_def)
  next
    case (PairCommitted ok)
    then show ?thesis using idle closed idle_stays [OF end_]
      by (cases "sn_committing s") (simp_all add: sn_step_def afterCommitted_def sn_terminate_def)
  next
    case (PairPromptTerminal outcome)
    then show ?thesis using idle end_ idle_stays [OF end_] by (simp add: sn_step_def onPromptTerminal_def ended_def)
  next
    case PairPromptBroken
    then show ?thesis using idle end_ idle_stays [OF end_] by (simp add: sn_step_def onPromptContractFailure_def ended_def)
  next
    case PairDispose
    then show ?thesis using idle end_ 
      by (cases "sn_state s = PS_closed")
        (simp_all add: sn_step_def dispose_closed dispose_eq stays_ended_def ended_def closing_effects_def)
  qed
qed

section \<open>The outcome is charged\<close>

definition outcome_fits :: "nat \<Rightarrow> bool \<Rightarrow> wire_effect list \<Rightarrow> bool" where
  "outcome_fits n c es \<longleftrightarrow> (\<exists>r. recorded_outcomes es = [r] \<and> consumedAttempt r = (n > 0) \<and> confirmed r = c)"

lemma outcome_fits_more: "recorded_outcomes es' = [] \<Longrightarrow> outcome_fits n c (es @ es') = outcome_fits n c es"
  by (simp add: outcome_fits_def)

definition charge_ok :: "pair_deps \<Rightarrow> ('p, 'a) pair_crypto_scheme \<Rightarrow> pair_wire \<Rightarrow> wire_effect list \<Rightarrow> bool" where
  "charge_ok d cr w es \<longleftrightarrow>
     wire_ok d cr w (session_effects es) \<and> pw_confirmed w = hands_over (session_effects es) \<and>
     (pw_confirmed w \<longrightarrow> pw_outcomeRecorded w) \<and>
     (if pw_outcomeRecorded w then ended (pw_session w) \<and> outcome_fits (sn_attempts (pw_session w)) (hands_over (session_effects es)) es
      else recorded_outcomes es = [])"

lemma charge_ok_new: "charge_ok d cr wire_new []"
  using wire_ok_new [of d cr] by (simp add: charge_ok_def wire_new_def)

lemma charge_ok_cong:
  assumes "charge_ok d cr w es" and "pw_session w' = pw_session w" and "pm_running (pw_pump w') = pm_running (pw_pump w)"
    and "pw_confirmed w' = pw_confirmed w" and "pw_outcomeRecorded w' = pw_outcomeRecorded w"
  shows "charge_ok d cr w' es"
  using assms wire_ok_cong [of d cr w "session_effects es" w'] by (simp add: charge_ok_def)

lemma charge_ok_record:
  assumes "charge_ok d cr w es" and "ended (pw_session w)"
  shows "charge_ok d cr (fst (recordPairOutcome w)) (es @ snd (recordPairOutcome w))"
proof (cases "pw_outcomeRecorded w")
  case True
  then show ?thesis using assms by (simp add: recordPairOutcome_def)
next
  case False
  have "wire_ok d cr (fst (recordPairOutcome w)) (session_effects es)"
    by (rule wire_ok_cong [of d cr w]) (use assms in \<open>simp_all add: charge_ok_def record_effects\<close>)
  then show ?thesis using assms False by (simp add: charge_ok_def recordPairOutcome_def outcome_fits_def)
qed

lemma wire_session_quiet:
  assumes "\<not> hands_over (snd (sn_step d cr env e (pw_session w)))"
  shows "wire_session d cr env e w =
    (w \<lparr> pw_session := fst (sn_step d cr env e (pw_session w)),
         pw_queuedDialog := pw_queuedDialog w \<or> (e = PairPublished True \<and> sn_publishing (pw_session w)) \<rparr>,
     map WireSession (snd (sn_step d cr env e (pw_session w))))"
  using assms by (simp add: wire_session_def case_prod_beta Let_def)

lemma charge_ok_session:
  assumes ok: "charge_ok d cr w es"
    and after: "wire_ok d cr (fst (wire_session d cr env e w)) (session_effects es @ session_effects (snd (wire_session d cr env e w)))"
    and free: "\<not> is_frame e \<or> \<not> sn_suspended (pw_session w)"
  shows "charge_ok d cr (fst (wire_session d cr env e w)) (es @ snd (wire_session d cr env e w))"
proof -
  obtain h where inv: "sn_inv d cr h (pw_session w, session_effects es)"
    using ok wire_ok_inv unfolding charge_ok_def by blast
  let ?r = "sn_step d cr env e (pw_session w)"
  show ?thesis
  proof (cases "pw_outcomeRecorded w")
    case True
    then have "stays_ended (pw_session w) ?r" using ok by (intro ended_step [OF inv]) (simp add: charge_ok_def)
    then have "ended (fst ?r)" "sn_attempts (fst ?r) = sn_attempts (pw_session w)" "\<not> hands_over (snd ?r)"
      by (simp_all add: stays_ended_def)
    moreover from this(3) have eq: "wire_session d cr env e w =
      (w \<lparr> pw_session := fst ?r, pw_queuedDialog := pw_queuedDialog w \<or> (e = PairPublished True \<and> sn_publishing (pw_session w)) \<rparr>,
       map WireSession (snd ?r))" by (rule wire_session_quiet)
    ultimately show ?thesis using ok after True unfolding eq by (simp add: charge_ok_def outcome_fits_more)
  next
    case False
    then have not_yet: "\<not> pw_confirmed w" "\<not> hands_over (session_effects es)" "recorded_outcomes es = []"
      using ok by (auto simp: charge_ok_def)
    show ?thesis
    proof (cases "hands_over (snd ?r)")
      case True
      then have "e = PairCommitted True" using silent_step [OF inv not_yet(2) _ free] by blast
      with True have "ended (fst ?r)" using commit_step [of d cr env "pw_session w"] by (simp add: ended_def)
      with True not_yet False after show ?thesis
        by (simp add: charge_ok_def wire_session_def case_prod_beta Let_def recordPairOutcome_def outcome_fits_def)
    next
      case quiet: False
      show ?thesis using ok after False not_yet quiet unfolding wire_session_quiet [OF quiet] by (simp add: charge_ok_def outcome_fits_more)
    qed
  qed
qed

lemma charge_ok_outcome:
  assumes "charge_ok d cr w es" and "\<not> is_frame e"
  shows "charge_ok d cr (fst (wire_session d cr env e w)) (es @ snd (wire_session d cr env e w))"
  using assms wire_ok_outcome [of d cr w "session_effects es" e env]
  by (intro charge_ok_session) (simp_all add: charge_ok_def)

lemma charge_ok_pump:
  assumes ok: "charge_ok d cr w es" and free: "\<not> sn_suspended (pw_session w)" and "one_frame r"
  shows "charge_ok d cr (fst (wire_pump d cr env r w)) (es @ snd (wire_pump d cr env r w))"
  using assms(3) unfolding one_frame_def
proof (elim disjE exE conjE)
  assume "consumed (snd r) = []"
  moreover have "wire_ok d cr (fst (wire_pump d cr env r w)) (session_effects es @ session_effects (snd (wire_pump d cr env r w)))"
    using ok by (intro wire_ok_pump free assms(3)) (simp add: charge_ok_def)
  ultimately show ?thesis using ok feed_quiet [of "snd r" d cr env "w \<lparr> pw_pump := fst r \<rparr>"]
    by (simp add: wire_pump_def charge_ok_def outcome_fits_more)
next
  fix e assume r: "snd r = [Consume e]" "pm_running (fst r)"
  let ?w = "w \<lparr> pw_pump := fst r \<rparr>"
  have ok': "wire_ok d cr ?w (session_effects es)" using ok r(2) by (simp add: charge_ok_def wire_ok_def)
  have "charge_ok d cr ?w es" using ok ok' by (simp add: charge_ok_def)
  from charge_ok_session [OF this] wire_ok_frame [OF ok'] show ?thesis
    using free r by (simp add: wire_pump_def case_prod_beta Let_def)
qed

lemma charge_ok_push:
  assumes "charge_ok d cr w es"
  shows "charge_ok d cr (fst (wire_pump d cr env (pump_push f (pw_pump w)) w)) (es @ snd (wire_pump d cr env (pump_push f (pw_pump w)) w))"
proof (cases "pm_running (pw_pump w)")
  case True
  have "charge_ok d cr (w \<lparr> pw_pump := pw_pump w \<lparr> pm_pending := pm_pending (pw_pump w) @ [f] \<rparr> \<rparr>) es"
    by (rule charge_ok_cong [OF assms]) simp_all
  then show ?thesis using True by (simp add: pump_push_def pump_drain_def wire_pump_def)
next
  case False
  then have "\<not> sn_suspended (pw_session w)" using assms by (simp add: charge_ok_def wire_ok_def)
  then show ?thesis by (rule charge_ok_pump [OF assms _ one_frame_push])
qed

lemma dispose_ends: "ended (pw_session (fst (wire_session d cr env PairDispose w)))"
  by (cases "sn_state (pw_session w) = PS_closed")
    (simp_all add: wire_session_facts sn_step_def dispose_closed dispose_eq ended_def)

lemma charge_ok_end:
  assumes "charge_ok d cr w es" and "pw_session w' = pw_session w" and "pm_running (pw_pump w') = pm_running (pw_pump w)"
    and "pw_confirmed w' = pw_confirmed w" and "pw_outcomeRecorded w' = pw_outcomeRecorded w"
  shows "charge_ok d cr (fst (wire_end d cr env recorded w')) (es @ snd (wire_end d cr env recorded w'))"
proof -
  obtain w1 es1 where 1: "wire_session d cr env PairDispose w' = (w1, es1)" by fastforce
  have ok: "charge_ok d cr w1 (es @ es1)"
    using charge_ok_outcome [OF charge_ok_cong [OF assms(1-5)], of PairDispose env] 1 by simp
  from charge_ok_record [OF this] ok show ?thesis
    using dispose_ends [of d cr env w'] 1 by (cases recorded) (simp_all add: wire_end_def case_prod_beta Let_def)
qed

lemma charge_ok_close:
  "charge_ok d cr w es \<Longrightarrow> charge_ok d cr w (es @ [WireSocketClose])"
  by (simp add: charge_ok_def outcome_fits_more)

lemma charge_ok_step:
  assumes "charge_ok d cr w es"
  shows "charge_ok d cr (fst (wire_step d cr env e w)) (es @ snd (wire_step d cr env e w))"
proof (cases e)
  case (WireFrame f)
  then show ?thesis using assms charge_ok_push [OF assms] by (simp add: wire_step_def)
next
  case (WireHandlerDone ok)
  then show ?thesis using assms charge_ok_pump [OF assms _ one_frame_settled] by (simp add: wire_step_def)
next
  case (WireOutcome f)
  then show ?thesis using assms charge_ok_outcome [OF assms] by (simp add: wire_step_def)
next
  case WireClosed
  then show ?thesis using charge_ok_end [OF assms, where w' = "w \<lparr> pw_pump := pump_handOver (pw_pump w), pw_settled := True \<rparr>"]
    by (simp add: wire_step_def wire_ends pump_handOver_def)
next
  case WireTimeout
  then show ?thesis using assms charge_ok_close [OF charge_ok_end [OF assms, where w' = "w \<lparr> pw_settled := True \<rparr>"]]
    by (simp add: wire_step_def wire_ends case_prod_beta Let_def)
next
  case WireRevoked
  then show ?thesis using assms charge_ok_close [OF charge_ok_end [OF assms, where w' = "w \<lparr> pw_settled := True \<rparr>"]]
    by (simp add: wire_step_def wire_ends case_prod_beta Let_def)
qed

lemma charge_ok_run:
  "charge_ok d cr w es \<Longrightarrow> charge_ok d cr (fst (wire_run d cr h (w, es))) (snd (wire_run d cr h (w, es)))"
proof (induction h arbitrary: w es)
  case (Cons a h)
  obtain env e where a: "a = (env, e)" by (cases a)
  show ?case using Cons.IH [OF charge_ok_step [OF Cons.prems, of env e]] by (simp add: a case_prod_beta Let_def)
qed simp

lemma recorded_step: "pw_outcomeRecorded w \<Longrightarrow> pw_outcomeRecorded (fst (wire_step d cr env e w))"
proof -
  have rec_: "pw_outcomeRecorded (fst (recordPairOutcome w'))" for w' by (simp add: recordPairOutcome_def)
  have session: "pw_outcomeRecorded (fst (wire_session d cr env e' w'))" if "pw_outcomeRecorded w'" for e' w'
    using that by (simp add: wire_session_def case_prod_beta Let_def rec_)
  have feed: "pw_outcomeRecorded (fst (wire_feed d cr env ps w'))" if "pw_outcomeRecorded w'" for ps w'
    using that
  proof (induction ps arbitrary: w')
    case (Cons p ps)
    then show ?case by (cases p) (simp_all add: case_prod_beta Let_def session)
  qed simp
  have end_: "pw_outcomeRecorded (fst (wire_end d cr env b w'))" if "pw_outcomeRecorded w'" for b w'
    using that by (simp add: wire_end_def case_prod_beta Let_def rec_ session)
  assume "pw_outcomeRecorded w"
  then show ?thesis
    by (cases e) (simp_all add: wire_step_def wire_ends wire_pump_def case_prod_beta Let_def session feed end_)
qed

lemma closed_records:
  assumes "pe_settle env SessionAborted \<noteq> SettleThrows"
  shows "pw_outcomeRecorded (fst (wire_step d cr env WireClosed w))"
proof -
  have "\<not> fst (sn_dispose env (pw_session w))"
    using assms by (cases "sn_state (pw_session w) = PS_closed") (simp_all add: dispose_closed dispose_eq)
  then show ?thesis by (simp add: wire_step_def wire_ends wire_end_def case_prod_beta Let_def recordPairOutcome_def)
qed

lemma recorded_run: "pw_outcomeRecorded (fst r) \<Longrightarrow> pw_outcomeRecorded (fst (wire_run d cr h r))"
proof (induction h arbitrary: r)
  case (Cons a h)
  obtain env e where a: "a = (env, e)" by (cases a)
  show ?case using Cons.IH [of "(fst (wire_step d cr env e (fst r)), snd r @ snd (wire_step d cr env e (fst r)))"]
    recorded_step [OF Cons.prems, of d cr env e] by (simp add: a case_prod_beta Let_def)
qed simp

lemma closed_run:
  assumes "pe_settle env SessionAborted \<noteq> SettleThrows"
  shows "(env, WireClosed) \<in> set h \<Longrightarrow> pw_outcomeRecorded (fst (wire_run d cr h r))"
proof (induction h arbitrary: r)
  case (Cons a h)
  obtain env' e where a: "a = (env', e)" by (cases a)
  show ?case
  proof (cases "a = (env, WireClosed)")
    case True
    then show ?thesis by (simp add: case_prod_beta Let_def recorded_run closed_records [OF assms])
  next
    case False
    then show ?thesis using Cons a by (auto simp: Let_def case_prod_beta)
  qed
qed simp

section \<open>Properties\<close>

text \<open>
  C9: the server runs a pairing session the way the session is specified. Whatever arrives on the socket and
  however the awaited calls settle, the session behind the frame pump has gone through some history of events in
  which no frame reaches a handler while another waits, and has done nothing but what that history makes it do.
  So all that is shown of serial sessions holds of the sessions of the server.
\<close>
theorem wire_serializes:
  "\<exists>g. sn_serial d cr g sn_new \<and>
     sn_run_from d cr g (sn_new, []) =
       (pw_session (fst (wire_run d cr h (wire_new, []))), session_effects (snd (wire_run d cr h (wire_new, []))))"
  using wire_ok_run [of d cr wire_new "[]" h] wire_ok_new [of d cr] unfolding wire_ok_def explains_def by simp

text \<open>
  C8: a guess is charged, and once. When the socket of a pairing has closed and settling the prompt did not throw
  there, exactly one outcome was reported to the flood control; it is a confirmed one exactly when the socket was
  handed over to an authenticated session; and if the session answered a run and was not confirmed, the outcome
  raises the failure counter, even when the peer closes the socket in the middle of a run, or the deadline of the
  handshake passes or the credential is revoked before. What a throw there does is the lemma
  \<open>throw_dodges_the_counter\<close>.
\<close>
theorem guesses_are_charged:
  assumes "wire_run d cr h (wire_new, []) = (w, es)" and "(env, WireClosed) \<in> set h"
    and "pe_settle env SessionAborted \<noteq> SettleThrows"
  shows "\<exists>r. recorded_outcomes es = [r] \<and> confirmed r = hands_over (session_effects es) \<and>
    (runs_answered (session_effects es) > 0 \<and> \<not> confirmed r \<longrightarrow>
       (\<forall>t s. fc_failureCount (fc_recordOutcome t r s) = fc_failureCount (fc_resetIfStale t s) + 1))"
proof -
  have ok: "charge_ok d cr w es" using charge_ok_run [OF charge_ok_new, of d cr h] assms(1) by simp
  moreover have "pw_outcomeRecorded w" using closed_run [OF assms(3,2), of d cr "(wire_new, [])"] assms(1) by simp
  ultimately obtain r where r: "recorded_outcomes es = [r]" "consumedAttempt r = (sn_attempts (pw_session w) > 0)"
      "confirmed r = hands_over (session_effects es)"
    by (auto simp: charge_ok_def outcome_fits_def)
  obtain g where "sn_inv d cr g (pw_session w, session_effects es)" using ok wire_ok_inv unfolding charge_ok_def by blast
  then have "runs_answered (session_effects es) \<le> sn_attempts (pw_session w)" by (simp add: sn_inv_def phase_ok_def)
  with r show ?thesis by (auto simp: fc_recordOutcome_def Let_def)
qed

text \<open>A guess that is sent before the dialog is published waits in the pump; then the peer closes the socket.\<close>

definition toy_wire_guess :: wire_history where
  "toy_wire_guess = [(toy_pe 0, WireFrame (PairFrameText (PtHello (Some toy_hello)) 100)),
     (toy_pe 0, WireFrame (PairFrameText (PtPakeA (Some toy_share)) 100)), (toy_pe 1, WireOutcome (PairPublished True)),
     (toy_pe 2, WireHandlerDone True)]"

lemma toy_wire_guessed:
  "\<exists>w es. wire_run toy_pd toy_pc toy_wire_guess (wire_new, []) = (w, es) \<and> pw_session w = toy_s3 \<and>
     \<not> pw_outcomeRecorded w \<and> recorded_outcomes es = [] \<and> \<not> hands_over (session_effects es) \<and>
     runs_answered (session_effects es) = 1"
proof -
  have flags: "\<not> sn_suspended toy_s2" "sn_publishing toy_s1"
    by (simp_all add: toy_s1_def toy_s2_def sn_new_def sn_suspended_def)
  note run = wire_new_def pump_new_def wire_step_def wire_pump_def pump_push_def pump_drain_def drain_loop_def
    pump_settled_def wire_session_def toy_step_hello toy_step_published toy_step_pakeA flags Let_def
  define w1 where "w1 = wire_new \<lparr> pw_session := toy_s1, pw_pump := pump_new \<lparr> pm_running := True \<rparr> \<rparr>"
  define w2 where "w2 = w1 \<lparr> pw_pump := pw_pump w1 \<lparr> pm_pending := [PairFrameText (PtPakeA (Some toy_share)) 100] \<rparr> \<rparr>"
  define w3 where "w3 = w2 \<lparr> pw_session := toy_s2, pw_queuedDialog := True \<rparr>"
  define w4 where "w4 = w3 \<lparr> pw_session := toy_s3, pw_pump := pw_pump w1 \<rparr>"
  have 1: "wire_step toy_pd toy_pc (toy_pe 0) (WireFrame (PairFrameText (PtHello (Some toy_hello)) 100)) wire_new =
    (w1, [WireSession (PairAdmit PairAdmitted), WireSession (PairQueueDialog toy_dialog)])"
    by (simp add: run w1_def)
  have 2: "wire_step toy_pd toy_pc (toy_pe 0) (WireFrame (PairFrameText (PtPakeA (Some toy_share)) 100)) w1 = (w2, [])"
    by (simp add: run w1_def w2_def)
  have 3: "wire_step toy_pd toy_pc (toy_pe 1) (WireOutcome (PairPublished True)) w2 = (w3, [WireSession (PairText (PairAccept 1 ''i''))])"
    by (simp add: run w1_def w2_def w3_def)
  have 4: "wire_step toy_pd toy_pc (toy_pe 2) (WireHandlerDone True) w3 =
    (w4, [WireSession (PairText (PakeB (toBase64Url (replicate 31 0 @ [52]))))])"
    by (simp add: run w1_def w2_def w3_def w4_def)
  have "\<not> pw_outcomeRecorded w4" "pw_session w4 = toy_s3"
    by (simp_all add: w4_def w3_def w2_def w1_def wire_new_def)
  then show ?thesis by (simp add: toy_wire_guess_def 1 2 3 4 runs_answered_def)
qed

lemma wire_run_append: "wire_run d cr (g @ h) r = wire_run d cr h (wire_run d cr g r)"
  by (induction d cr g r rule: wire_run.induct) simp_all

lemma toy_s3_open: "sn_state toy_s3 \<noteq> PS_closed" "sn_prompt toy_s3"
  by (simp_all add: toy_s3_def toy_s2_def toy_s1_def)

lemma guesses_are_charged_witness:
  "\<exists>w es r. wire_run toy_pd toy_pc (toy_wire_guess @ [(toy_pe 3, WireClosed)]) (wire_new, []) = (w, es) \<and>
     recorded_outcomes es = [r] \<and> runs_answered (session_effects es) = 1 \<and> \<not> confirmed r \<and>
     fc_failureCount (fc_recordOutcome 0 r (fc_new None)) = 1"
proof -
  obtain w4 es4 where guess: "wire_run toy_pd toy_pc toy_wire_guess (wire_new, []) = (w4, es4)" "pw_session w4 = toy_s3"
    "\<not> hands_over (session_effects es4)" "runs_answered (session_effects es4) = 1" using toy_wire_guessed by blast
  have over: "\<not> hands_over (closing_effects toy_s3)" by (simp add: closing_effects_def)
  have settles: "pe_settle (toy_pe 3) SessionAborted \<noteq> SettleThrows" by (simp add: toy_pe_def)
  obtain w es where w: "wire_run toy_pd toy_pc (toy_wire_guess @ [(toy_pe 3, WireClosed)]) (wire_new, []) = (w, es)" by fastforce
  have "session_effects es = session_effects es4 @ closing_effects toy_s3"
    using w guess(1,2) toy_s3_open settles
    by (auto simp: wire_run_append wire_step_def wire_ends wire_end_def wire_session_facts record_effects sn_step_def
        dispose_eq case_prod_beta Let_def)
  then have es: "\<not> hands_over (session_effects es)" "runs_answered (session_effects es) = 1"
    using guess(3,4) over closing_counts(3) [of toy_s3] by simp_all
  have "(toy_pe 3, WireClosed) \<in> set (toy_wire_guess @ [(toy_pe 3, WireClosed)])" by simp
  from guesses_are_charged [OF w this settles] show ?thesis using w es
    by (auto simp: fc_resetIfStale_def fc_new_def)
qed

text \<open>
  The same guess, and a prompt that throws as it is settled on the close: \<open>dispose\<close> gives the slot back and then
  throws out of the handler, so no outcome is reported and the guess is not counted.
\<close>

lemma throw_dodges_the_counter:
  "\<exists>w es. wire_run toy_pd toy_pc (toy_wire_guess @ [((toy_pe 3) \<lparr> pe_settle := \<lambda>x. SettleThrows \<rparr>, WireClosed)]) (wire_new, []) =
     (w, es) \<and> sn_state (pw_session w) = PS_closed \<and> runs_answered (session_effects es) = 1 \<and> recorded_outcomes es = []"
proof -
  obtain w4 es4 where guess: "wire_run toy_pd toy_pc toy_wire_guess (wire_new, []) = (w4, es4)" "pw_session w4 = toy_s3"
    "recorded_outcomes es4 = []" "runs_answered (session_effects es4) = 1" using toy_wire_guessed by blast
  have over: "\<not> hands_over (closing_effects toy_s3)" by (simp add: closing_effects_def)
  show ?thesis
    using guess toy_s3_open over closing_counts(3) [of toy_s3]
    by (simp add: wire_run_append wire_step_def wire_closed_def wire_dispose_def wire_session_def sn_step_def dispose_eq
        case_prod_beta Let_def)
qed

end
