(* ===== verification/Bt_Admission.thy ===== *)
theory Bt_Admission
  imports Finalize_Path Task_Lifecycle Extension_Identity "HOL-Library.Sublist"
begin

text \<open>
  Who may write where, and who may own which torrent: \<open>core/task/bt-duplicate-policy.ts\<close> and the path
  identities of \<open>core/task/output-path-identity.ts\<close>. Admissions to output directories and to info hashes are
  locks whose waiters wait for earlier ones; an operation is split at its awaits, and everything that happens
  between them is an event. \<open>normalizeBtih\<close> of \<open>@motrix/torrent\<close>, \<open>realpathSync\<close> and Unicode
  normalization are parameters.
\<close>

section \<open>The identity of a path\<close>

text \<open>
  What the functions ask of the host: the working directory, \<open>realpathSync\<close> with \<open>None\<close> where it throws,
  whether the platform is one of the two whose volumes commonly ignore case, and \<open>normalize('NFD')\<close> followed
  by \<open>toLowerCase\<close>.
\<close>

record path_host =
  ph_cwd :: string
  ph_realpath :: "string \<Rightarrow> string option"
  ph_ignoresCase :: bool
  ph_nfdLower :: "string \<Rightarrow> string"

definition outputNameIdentity_host :: "path_host \<Rightarrow> string \<Rightarrow> string" where
  "outputNameIdentity_host h v = (if ph_ignoresCase h then ph_nfdLower h v else v)"

text \<open>
  \<open>path.dirname\<close>: what is before the last separator that follows no other and precedes a name. The separator at
  the start of the path is never the end of the result, except as the root.
\<close>

definition path_dirname :: "string \<Rightarrow> string" where
  "path_dirname p =
     (if p = [] then ''.''
      else let stem = take 1 p @ strip_trailing (drop 1 p);
               rest = rev (dropWhile (\<lambda>c. c \<noteq> CHR ''/'') (rev (drop 1 stem)))
           in if rest = [] then (if hd p = CHR ''/'' then ''/'' else ''.'')
              else if length rest = 1 \<and> hd p = CHR ''/'' then ''//''
              else take (length rest) p)"

lemma strip_trailing_last: "strip_trailing p = [] \<or> last (strip_trailing p) \<noteq> CHR ''/''"
  using hd_dropWhile [of "\<lambda>c. c = CHR ''/''" "rev p"] by (auto simp: strip_trailing_def last_rev)

lemma length_strip: "length (strip_trailing p) \<le> length p"
  using length_dropWhile_le [of "\<lambda>c. c = CHR ''/''" "rev p"] by (simp add: strip_trailing_def)

lemma cut_shorter:
  assumes "s = [] \<or> last s \<noteq> c" and "rev (dropWhile (\<lambda>x. x \<noteq> c) (rev s)) \<noteq> []"
  shows "length (rev (dropWhile (\<lambda>x. x \<noteq> c) (rev s))) < length s"
proof -
  have "s \<noteq> []" using assms(2) by auto
  then obtain x xs where "rev s = x # xs" "x \<noteq> c" using assms(1) by (cases "rev s") (auto simp: last_rev [symmetric])
  then show ?thesis using length_dropWhile_le [of "\<lambda>x. x \<noteq> c" xs] by (metis (mono_tags) dropWhile.simps(2) le_imp_less_Suc length_Cons length_rev)
qed

lemma dirname_shorter:
  assumes "path_dirname p \<noteq> p" and "p \<noteq> ''.''" and "path_dirname p \<noteq> ''.''"
  shows "length (path_dirname p) < length p"
proof (cases p)
  case (Cons c q)
  let ?rest = "rev (dropWhile (\<lambda>c. c \<noteq> CHR ''/'') (rev (strip_trailing q)))"
  have "length ?rest < length (strip_trailing q)" if "?rest \<noteq> []"
    by (rule cut_shorter [OF strip_trailing_last that])
  then have rest: "length ?rest < length q" if "?rest \<noteq> []" using that length_strip [of q] by fastforce
  show ?thesis
    using assms rest Cons by (cases q) (auto simp: path_dirname_def Let_def split: if_splits)
qed (use assms in \<open>simp add: path_dirname_def\<close>)

function outputPathIdentity_loop :: "path_host \<Rightarrow> string \<Rightarrow> string \<Rightarrow> string list \<Rightarrow> string" where
  "outputPathIdentity_loop h v ancestor parts =
     (case ph_realpath h ancestor of
        Some target \<Rightarrow> outputNameIdentity_host h (path_join (target # parts))
      | None \<Rightarrow>
          if path_dirname ancestor = ancestor then outputNameIdentity_host h (path_resolve (ph_cwd h) v)
          else outputPathIdentity_loop h v (path_dirname ancestor) (path_basename ancestor # parts))"
  by pat_completeness auto
termination
proof (relation "measure (\<lambda>(h, v, a, parts). if a = ''.'' then 0 else Suc (length a))")
  fix h v a parts
  assume "path_dirname a \<noteq> a"
  moreover have "path_dirname ''.'' = ''.''" by code_simp
  ultimately show "((h, v, path_dirname a, path_basename a # parts), (h, v, a, parts))
      \<in> measure (\<lambda>(h, v, a, parts). if a = ''.'' then 0 else Suc (length a))"
    using dirname_shorter [of a] by auto
qed simp

definition outputPathIdentity :: "path_host \<Rightarrow> string \<Rightarrow> string" where
  "outputPathIdentity h v = outputPathIdentity_loop h v (path_resolve (ph_cwd h) v) []"

definition canonicalBtPath :: "path_host \<Rightarrow> string \<Rightarrow> string" where
  "canonicalBtPath h v = outputPathIdentity h v"

definition within_directory :: "string \<Rightarrow> string \<Rightarrow> bool" where
  "within_directory dir candidate \<longleftrightarrow>
     (let relative = path_relative dir candidate
      in relative = [] \<or> (relative \<noteq> ''..'' \<and> take 3 relative \<noteq> ''../'' \<and> \<not> isAbsolute relative))"

definition directoriesOverlap :: "string \<Rightarrow> string \<Rightarrow> bool" where
  "directoriesOverlap a b \<longleftrightarrow> within_directory a b \<or> within_directory b a"

section \<open>Waiting for earlier ones\<close>

text \<open>
  The contract of both locks below: tickets are numbered in the order they were drawn, a ticket waits for a set of
  earlier ones, one that runs waits for none that is alive, and of two that clash the later has something alive to
  wait for.
\<close>

locale backward_waits =
  fixes ok :: "'s \<Rightarrow> bool" and alive :: "'s \<Rightarrow> nat set" and running :: "'s \<Rightarrow> nat set"
    and waits :: "'s \<Rightarrow> nat \<Rightarrow> nat set" and clash :: "'s \<Rightarrow> nat \<Rightarrow> nat \<Rightarrow> bool"
  assumes alive_finite: "ok s \<Longrightarrow> finite (alive s)"
    and running_alive: "ok s \<Longrightarrow> running s \<subseteq> alive s"
    and waits_backward: "ok s \<Longrightarrow> i \<in> alive s \<Longrightarrow> p \<in> waits s i \<Longrightarrow> p < i"
    and running_free: "ok s \<Longrightarrow> i \<in> running s \<Longrightarrow> waits s i \<inter> alive s = {}"
    and clash_waits: "ok s \<Longrightarrow> i \<in> alive s \<Longrightarrow> j \<in> alive s \<Longrightarrow> i < j \<Longrightarrow> clash s i j \<Longrightarrow> waits s j \<inter> alive s \<noteq> {}"
    and clash_sym: "clash s i j \<Longrightarrow> clash s j i"
begin

lemma first_come: "ok s \<Longrightarrow> i \<in> alive s \<Longrightarrow> i < j \<Longrightarrow> clash s i j \<Longrightarrow> j \<notin> running s"
  using clash_waits running_alive running_free by blast

lemma exclusion: "ok s \<Longrightarrow> i \<in> running s \<Longrightarrow> j \<in> running s \<Longrightarrow> i \<noteq> j \<Longrightarrow> \<not> clash s i j"
  using first_come [of s i j] first_come [of s j i] running_alive [of s] clash_sym [of s i j] by (metis nat_neq_iff subsetD)

lemma lock_progress:
  assumes "ok s" and "alive s \<noteq> {}"
  shows "\<exists>i\<in>alive s. waits s i \<inter> alive s = {}"
proof -
  let ?i = "Min (alive s)"
  have i: "?i \<in> alive s" using assms alive_finite by simp
  moreover have "waits s ?i \<inter> alive s = {}"
    using waits_backward [OF assms(1) i] alive_finite [OF assms(1)] by (metis Min_le disjoint_iff not_less)
  ultimately show ?thesis by blast
qed

end

section \<open>Admission to output directories\<close>

text \<open>
  An entry of \<open>outputAdmissions\<close> with the rest of the call that made it: its number, the entries whose promises it
  awaits, and whether \<open>operation()\<close> is running. The promise of an entry settles when the entry is deleted.
\<close>

record output_admission =
  oa_id :: nat
  oa_roots :: "string list"
  oa_predecessors :: "nat list"
  oa_running :: bool

record output_admissions =
  os_entries :: "output_admission list"
  os_created :: nat

definition os_new :: output_admissions where
  "os_new = \<lparr> os_entries = [], os_created = 0 \<rparr>"

text \<open>The part of \<open>withBtOutputAdmissions\<close> before its first await; the host is asked now.\<close>

definition enterOutputAdmission :: "path_host \<Rightarrow> string list \<Rightarrow> output_admissions \<Rightarrow> output_admissions" where
  "enterOutputAdmission h saveDirs s =
     (let roots = sadds [] (map (canonicalBtPath h) saveDirs);
          predecessors = filter (\<lambda>e. list_ex (\<lambda>root. list_ex (\<lambda>other. directoriesOverlap root other) (oa_roots e)) roots)
            (os_entries s)
      in s \<lparr> os_entries := os_entries s @
               [\<lparr> oa_id = os_created s, oa_roots = roots, oa_predecessors = map oa_id predecessors, oa_running = False \<rparr>],
             os_created := os_created s + 1 \<rparr>)"

definition os_ids :: "output_admissions \<Rightarrow> nat list" where
  "os_ids s = map oa_id (os_entries s)"

text \<open>
  \<open>await Promise.all(...)\<close> returns once every predecessor is gone, then the operation starts; when it returns or
  throws, the \<open>finally\<close> block deletes the entry.
\<close>

datatype output_event = OutEnter path_host "string list" | OutAwaited nat | OutSettled nat

fun os_step :: "output_event \<Rightarrow> output_admissions \<Rightarrow> output_admissions" where
  "os_step (OutEnter h dirs) s = enterOutputAdmission h dirs s"
| "os_step (OutAwaited i) s =
     s \<lparr> os_entries := map (\<lambda>e. if oa_id e = i \<and> (\<forall>p \<in> set (oa_predecessors e). p \<notin> set (os_ids s))
                               then e \<lparr> oa_running := True \<rparr> else e) (os_entries s) \<rparr>"
| "os_step (OutSettled i) s = s \<lparr> os_entries := filter (\<lambda>e. \<not> (oa_id e = i \<and> oa_running e)) (os_entries s) \<rparr>"

definition os_run :: "output_event list \<Rightarrow> output_admissions \<Rightarrow> output_admissions" where
  "os_run es s = foldl (\<lambda>s e. os_step e s) s es"

section \<open>Admission of an info hash\<close>

text \<open>
  A call of \<open>acquireBtAdmission\<close> whose promise is not yet resolved: the promise it awaits, and whether it has
  returned the function that releases it.
\<close>

record hash_call =
  ha_id :: nat
  ha_key :: string
  ha_previous :: "nat option"
  ha_held :: bool

record hash_admissions =
  hs_tails :: "(string, nat) jmap"
  hs_calls :: "hash_call list"
  hs_created :: nat

definition hs_new :: hash_admissions where
  "hs_new = \<lparr> hs_tails = [], hs_calls = [], hs_created = 0 \<rparr>"

definition acquireBtAdmission :: "string \<Rightarrow> hash_admissions \<Rightarrow> hash_admissions" where
  "acquireBtAdmission key s =
     s \<lparr> hs_tails := jset (hs_tails s) key (hs_created s),
         hs_calls := hs_calls s @
           [\<lparr> ha_id = hs_created s, ha_key = key, ha_previous = map_of (hs_tails s) key, ha_held = False \<rparr>],
         hs_created := hs_created s + 1 \<rparr>"

definition normalizeBtInfoHash :: "(string \<Rightarrow> string option) \<Rightarrow> string \<Rightarrow> string option" where
  "normalizeBtInfoHash normalizeBtih v = normalizeBtih (js_trim v)"

definition acquireBtInfoHashAdmission :: "(string \<Rightarrow> string option) \<Rightarrow> string \<Rightarrow> hash_admissions \<Rightarrow> hash_admissions" where
  "acquireBtInfoHashAdmission normalizeBtih infoHash s =
     acquireBtAdmission (''hash:'' @ (case normalizeBtInfoHash normalizeBtih infoHash of Some k \<Rightarrow> k | None \<Rightarrow> latinLowerCase infoHash)) s"

definition hs_ids :: "hash_admissions \<Rightarrow> nat list" where
  "hs_ids s = map ha_id (hs_calls s)"

text \<open>The function that is returned; after the first call it does nothing.\<close>

definition releaseBtAdmission :: "nat \<Rightarrow> hash_admissions \<Rightarrow> hash_admissions" where
  "releaseBtAdmission i s =
     (case find (\<lambda>c. ha_id c = i \<and> ha_held c) (hs_calls s) of
        None \<Rightarrow> s
      | Some c \<Rightarrow> s \<lparr> hs_calls := filter (\<lambda>c. ha_id c \<noteq> i) (hs_calls s),
                      hs_tails := (if map_of (hs_tails s) (ha_key c) = Some i then jdel (hs_tails s) (ha_key c) else hs_tails s) \<rparr>)"

datatype hash_event = HashAcquire string | HashAwaited nat | HashRelease nat

fun hs_step :: "(string \<Rightarrow> string option) \<Rightarrow> hash_event \<Rightarrow> hash_admissions \<Rightarrow> hash_admissions" where
  "hs_step nb (HashAcquire infoHash) s = acquireBtInfoHashAdmission nb infoHash s"
| "hs_step nb (HashAwaited i) s =
     s \<lparr> hs_calls := map (\<lambda>c. if ha_id c = i \<and> (case ha_previous c of None \<Rightarrow> True | Some p \<Rightarrow> p \<notin> set (hs_ids s))
                             then c \<lparr> ha_held := True \<rparr> else c) (hs_calls s) \<rparr>"
| "hs_step nb (HashRelease i) s = releaseBtAdmission i s"

definition hs_run :: "(string \<Rightarrow> string option) \<Rightarrow> hash_event list \<Rightarrow> hash_admissions \<Rightarrow> hash_admissions" where
  "hs_run nb es s = foldl (\<lambda>s e. hs_step nb e s) s es"

section \<open>Overlapping directories\<close>

lemma within_iff: "within_directory f t \<longleftrightarrow> prefix (abs_segments f) (abs_segments t)"
proof -
  obtain a b where ab: "strip_common (abs_segments f) (abs_segments t) = (a, b)" by fastforce
  obtain c where c: "abs_segments f = c @ a" "abs_segments t = c @ b" "a = [] \<or> b = [] \<or> hd a \<noteq> hd b"
    using strip_common_spec [OF ab] by blast
  have rel: "path_relative f t = intersperse_c (CHR ''/'') (replicate (length a) ''..'' @ b)"
    by (simp add: path_relative_def ab)
  show ?thesis
  proof (cases a)
    case Nil
    have "\<forall>s\<in>set b. seg_ok s" using abs_segments_ok [of t] c(2) by auto
    then have "b = [] \<or> \<not> (intersperse_c (CHR ''/'') b = [] \<or> intersperse_c (CHR ''/'') b = ''..'' \<or>
        take 3 (intersperse_c (CHR ''/'') b) = ''../'' \<or> isAbsolute (intersperse_c (CHR ''/'') b))"
      using relative_inside by blast
    then show ?thesis using Nil c by (auto simp: within_directory_def rel Let_def)
  next
    case (Cons x xs)
    have "\<not> prefix (abs_segments f) (abs_segments t)" using c Cons by (cases b) auto
    moreover have "\<not> within_directory f t"
      using Cons by (cases "replicate (length xs) ''..'' @ b") (simp_all add: within_directory_def rel Let_def)
    ultimately show ?thesis by simp
  qed
qed

lemma overlap_iff:
  "directoriesOverlap a b \<longleftrightarrow> prefix (abs_segments a) (abs_segments b) \<or> prefix (abs_segments b) (abs_segments a)"
  by (simp add: directoriesOverlap_def within_iff)

lemma overlap_sym: "directoriesOverlap a b = directoriesOverlap b a"
  by (auto simp: directoriesOverlap_def)

section \<open>The directory lock\<close>

definition roots_overlap :: "output_admission \<Rightarrow> output_admission \<Rightarrow> bool" where
  "roots_overlap a b \<longleftrightarrow> (\<exists>r \<in> set (oa_roots a). \<exists>r' \<in> set (oa_roots b). directoriesOverlap r r')"

lemma roots_overlap_sym: "roots_overlap a b \<Longrightarrow> roots_overlap b a"
  using overlap_sym unfolding roots_overlap_def by blast

definition entry_ok :: "output_admissions \<Rightarrow> output_admission \<Rightarrow> bool" where
  "entry_ok s e \<longleftrightarrow> oa_id e < os_created s \<and> (\<forall>p \<in> set (oa_predecessors e). p < oa_id e) \<and>
     (oa_running e \<longrightarrow> set (oa_predecessors e) \<inter> set (os_ids s) = {})"

definition os_ok :: "output_admissions \<Rightarrow> bool" where
  "os_ok s \<longleftrightarrow> distinct (os_ids s) \<and> (\<forall>e \<in> set (os_entries s). entry_ok s e) \<and>
     (\<forall>a \<in> set (os_entries s). \<forall>b \<in> set (os_entries s). oa_id a < oa_id b \<and> roots_overlap a b \<longrightarrow>
        oa_id a \<in> set (oa_predecessors b))"

lemma os_okD:
  assumes "os_ok s" and "e \<in> set (os_entries s)"
  shows "oa_id e < os_created s" "p \<in> set (oa_predecessors e) \<Longrightarrow> p < oa_id e"
    "oa_running e \<Longrightarrow> set (oa_predecessors e) \<inter> set (os_ids s) = {}"
  using assms unfolding os_ok_def entry_ok_def by blast+

lemma os_ok_new: "os_ok os_new"
  by (simp add: os_ok_def os_new_def os_ids_def)

lemma os_ok_enter:
  assumes ok: "os_ok s"
  shows "os_ok (enterOutputAdmission h dirs s)"
proof -
  define roots where "roots = sadds [] (map (canonicalBtPath h) dirs)"
  define preds where "preds = map oa_id (filter (\<lambda>e. list_ex (\<lambda>root. list_ex (\<lambda>other. directoriesOverlap root other) (oa_roots e)) roots)
    (os_entries s))"
  define new where "new = \<lparr> oa_id = os_created s, oa_roots = roots, oa_predecessors = preds, oa_running = False \<rparr>"
  let ?s = "s \<lparr> os_entries := os_entries s @ [new], os_created := os_created s + 1 \<rparr>"
  have eq: "enterOutputAdmission h dirs s = ?s"
    by (simp add: enterOutputAdmission_def roots_def preds_def new_def Let_def)
  have ids: "os_ids ?s = os_ids s @ [os_created s]" by (simp add: os_ids_def new_def)
  have below: "oa_id e < os_created s" if "e \<in> set (os_entries s)" for e using os_okD(1) [OF ok that] .
  have fresh: "os_created s \<notin> set (os_ids s)" using below by (fastforce simp: os_ids_def)
  have preds: "p < os_created s" if "p \<in> set preds" for p using that below by (auto simp: preds_def)
  have old: "entry_ok ?s e" if e: "e \<in> set (os_entries s)" for e
    using os_okD [OF ok e] below [OF e] unfolding entry_ok_def ids by fastforce
  have "entry_ok ?s new" using preds by (simp add: entry_ok_def new_def)
  moreover have "oa_id a \<in> set preds" if "a \<in> set (os_entries s)" "roots_overlap a new" for a
    using that overlap_sym by (fastforce simp: preds_def roots_overlap_def new_def list_ex_iff)
  moreover have "\<not> os_created s < oa_id a" if "a \<in> set (os_entries s)" for a using below [OF that] by simp
  ultimately show ?thesis
    unfolding eq os_ok_def ids using ok old fresh by (auto simp: os_ok_def new_def)
qed

lemma os_ok_awaited:
  assumes ok: "os_ok s"
  shows "os_ok (os_step (OutAwaited i) s)"
proof -
  define f :: "output_admission \<Rightarrow> output_admission" where "f e = (if oa_id e = i \<and> (\<forall>p \<in> set (oa_predecessors e). p \<notin> set (os_ids s)) then e \<lparr> oa_running := True \<rparr> else e)" for e
  have step: "os_step (OutAwaited i) s = s \<lparr> os_entries := map f (os_entries s) \<rparr>" by (simp add: f_def [abs_def])
  have f: "oa_id (f e) = oa_id e" "oa_roots (f e) = oa_roots e" "oa_predecessors (f e) = oa_predecessors e"
    "oa_running (f e) \<Longrightarrow> oa_running e \<or> set (oa_predecessors e) \<inter> set (os_ids s) = {}" for e
    by (auto simp: f_def split: if_splits)
  have ids: "os_ids (s \<lparr> os_entries := map f (os_entries s) \<rparr>) = os_ids s" by (simp add: os_ids_def comp_def f)
  have "entry_ok (s \<lparr> os_entries := map f (os_entries s) \<rparr>) (f e)" if e: "e \<in> set (os_entries s)" for e
    using os_okD [OF ok e] f(4) [of e] unfolding entry_ok_def ids f(1-3) by auto
  moreover have "roots_overlap (f a) (f b) = roots_overlap a b" for a b by (simp add: roots_overlap_def f)
  ultimately show ?thesis
    using ok unfolding step os_ok_def ids by (simp add: f)
qed

lemma os_ok_settled:
  assumes ok: "os_ok s"
  shows "os_ok (os_step (OutSettled i) s)"
proof -
  have ids: "set (os_ids (os_step (OutSettled i) s)) \<subseteq> set (os_ids s)" by (auto simp: os_ids_def)
  have "distinct (os_ids (os_step (OutSettled i) s))" using ok by (simp add: os_ids_def os_ok_def distinct_map_filter)
  moreover have "entry_ok (os_step (OutSettled i) s) e" if "e \<in> set (os_entries s)" for e
    using os_okD [OF ok that] ids unfolding entry_ok_def by auto
  ultimately show ?thesis using ok unfolding os_ok_def by auto
qed

lemma os_ok_step: "os_ok s \<Longrightarrow> os_ok (os_step e s)"
  by (cases e) (simp_all only: os_step.simps(1) os_ok_enter os_ok_awaited os_ok_settled)

lemma os_ok_run: "os_ok s \<Longrightarrow> os_ok (os_run es s)"
  by (induction es arbitrary: s) (simp_all add: os_run_def os_ok_step)

definition os_alive :: "output_admissions \<Rightarrow> nat set" where "os_alive s = set (os_ids s)"

definition os_running :: "output_admissions \<Rightarrow> nat set" where
  "os_running s = oa_id ` {e \<in> set (os_entries s). oa_running e}"

definition os_waits :: "output_admissions \<Rightarrow> nat \<Rightarrow> nat set" where
  "os_waits s i = (\<Union>e \<in> {e \<in> set (os_entries s). oa_id e = i}. set (oa_predecessors e))"

definition os_clash :: "output_admissions \<Rightarrow> nat \<Rightarrow> nat \<Rightarrow> bool" where
  "os_clash s i j \<longleftrightarrow> (\<exists>a \<in> set (os_entries s). \<exists>b \<in> set (os_entries s). oa_id a = i \<and> oa_id b = j \<and> roots_overlap a b)"

lemma os_unique: "os_ok s \<Longrightarrow> a \<in> set (os_entries s) \<Longrightarrow> b \<in> set (os_entries s) \<Longrightarrow> oa_id a = oa_id b \<Longrightarrow> a = b"
  unfolding os_ok_def os_ids_def by (meson distinct_map inj_onD)

interpretation directory_lock: backward_waits os_ok os_alive os_running os_waits os_clash
proof unfold_locales
  fix s i p assume "os_ok s" "i \<in> os_alive s" "p \<in> os_waits s i"
  then show "p < i" using os_okD(2) by (auto simp: os_waits_def)
next
  fix s i assume "os_ok s" "i \<in> os_running s"
  then show "os_waits s i \<inter> os_alive s = {}"
    using os_okD(3) os_unique by (fastforce simp: os_running_def os_waits_def os_alive_def)
next
  fix s i j assume s: "os_ok s" "i \<in> os_alive s" "j \<in> os_alive s" "i < j" "os_clash s i j"
  then obtain a b where ab: "a \<in> set (os_entries s)" "b \<in> set (os_entries s)" "oa_id a = i" "oa_id b = j" "roots_overlap a b"
    by (auto simp: os_clash_def)
  then have "i \<in> os_waits s j" using s unfolding os_ok_def os_waits_def by blast
  then show "os_waits s j \<inter> os_alive s \<noteq> {}" using s(2) by blast
next
  fix s i j assume "os_clash s i j"
  then show "os_clash s j i" using roots_overlap_sym unfolding os_clash_def by blast
qed (auto simp: os_alive_def os_running_def os_ids_def)

section \<open>Every admitted operation gets its turn\<close>

definition turns :: "output_admission \<Rightarrow> nat" where "turns e = (if oa_running e then 1 else 2)"

definition os_pending :: "output_admissions \<Rightarrow> nat" where "os_pending s = sum_list (map turns (os_entries s))"

lemma pending_map:
  assumes "\<And>e. turns (f e) \<le> turns e" and "\<And>e. f e \<noteq> e \<Longrightarrow> turns (f e) < turns e"
  shows "sum_list (map turns (map f es)) \<le> sum_list (map turns es)"
    and "map f es \<noteq> es \<Longrightarrow> sum_list (map turns (map f es)) < sum_list (map turns es)"
proof -
  show le: "sum_list (map turns (map f es)) \<le> sum_list (map turns es)" for es
    using assms(1) by (induction es) (simp_all add: add_mono)
  show "map f es \<noteq> es \<Longrightarrow> sum_list (map turns (map f es)) < sum_list (map turns es)"
  proof (induction es)
    case (Cons e es)
    then show ?case using assms(2) [of e] le [of es] assms(1) [of e] by (cases "f e = e") (fastforce simp: add_less_le_mono)+
  qed simp
qed

lemma pending_filter:
  "sum_list (map turns (filter P es)) \<le> sum_list (map turns es)"
  "filter P es \<noteq> es \<Longrightarrow> sum_list (map turns (filter P es)) < sum_list (map turns es)"
proof -
  show le: "sum_list (map turns (filter P es)) \<le> sum_list (map turns es)" for es
    by (induction es) (auto simp: turns_def)
  show "filter P es \<noteq> es \<Longrightarrow> sum_list (map turns (filter P es)) < sum_list (map turns es)"
  proof (induction es)
    case (Cons e es)
    have "0 < turns e" by (simp add: turns_def)
    then show ?case using Cons le [of es] by (cases "P e") fastforce+
  qed simp
qed

fun is_enter :: "output_event \<Rightarrow> bool" where
  "is_enter (OutEnter h dirs) \<longleftrightarrow> True"
| "is_enter _ \<longleftrightarrow> False"

text \<open>A history in which no operation is admitted and every event does something.\<close>

fun os_effective :: "output_event list \<Rightarrow> output_admissions \<Rightarrow> bool" where
  "os_effective [] s \<longleftrightarrow> True"
| "os_effective (e # es) s \<longleftrightarrow> \<not> is_enter e \<and> os_step e s \<noteq> s \<and> os_effective es (os_step e s)"

lemma pending_step:
  assumes "\<not> is_enter e" and "os_step e s \<noteq> s"
  shows "os_pending (os_step e s) < os_pending s"
proof (cases e)
  case (OutAwaited i)
  define f :: "output_admission \<Rightarrow> output_admission" where
    "f e = (if oa_id e = i \<and> (\<forall>p \<in> set (oa_predecessors e). p \<notin> set (os_ids s)) then e \<lparr> oa_running := True \<rparr> else e)" for e
  have step: "os_step e s = s \<lparr> os_entries := map f (os_entries s) \<rparr>" by (simp add: OutAwaited f_def [abs_def])
  have "map f (os_entries s) \<noteq> os_entries s" using assms(2) unfolding step by auto
  then have "sum_list (map turns (map f (os_entries s))) < sum_list (map turns (os_entries s))"
    by (intro pending_map(2)) (auto simp: f_def turns_def split: if_splits)
  then show ?thesis by (simp add: step os_pending_def)
next
  case (OutSettled i)
  have "filter (\<lambda>e. \<not> (oa_id e = i \<and> oa_running e)) (os_entries s) \<noteq> os_entries s" using assms(2) OutSettled by auto
  from pending_filter(2) [OF this] show ?thesis by (simp add: OutSettled os_pending_def)
qed (use assms(1) in simp)

lemma effective_bound: "os_effective rest s \<Longrightarrow> length rest + os_pending (os_run rest s) \<le> os_pending s"
proof (induction rest arbitrary: s)
  case (Cons e rest)
  then show ?case using pending_step [of e s] by (fastforce simp: os_run_def)
qed (simp add: os_run_def)

lemma pending_le: "os_pending s \<le> 2 * length (os_entries s)"
proof -
  have "sum_list (map turns es) \<le> 2 * length es" for es by (induction es) (simp_all add: turns_def)
  then show ?thesis by (simp add: os_pending_def)
qed

lemma some_turn:
  assumes ok: "os_ok s" and "os_entries s \<noteq> []"
  shows "\<exists>e. os_effective [e] s"
proof -
  have "os_alive s \<noteq> {}" using assms(2) by (simp add: os_alive_def os_ids_def)
  from directory_lock.lock_progress [OF ok this] obtain a where a: "a \<in> set (os_entries s)" "os_waits s (oa_id a) \<inter> os_alive s = {}"
    by (auto simp: os_alive_def os_ids_def)
  show ?thesis
  proof (cases "oa_running a")
    case True
    have "a \<notin> set (os_entries (os_step (OutSettled (oa_id a)) s))" using True by simp
    then have "os_step (OutSettled (oa_id a)) s \<noteq> s" using a(1) by metis
    then show ?thesis by (intro exI [where x = "OutSettled (oa_id a)"]) simp
  next
    case False
    have free: "\<forall>p \<in> set (oa_predecessors a). p \<notin> set (os_ids s)" using a by (auto simp: os_waits_def os_alive_def)
    have "a \<lparr> oa_running := True \<rparr> \<in> set (os_entries (os_step (OutAwaited (oa_id a)) s))"
      using a(1) free by (auto simp: image_iff intro!: bexI [where x = a])
    moreover have "a \<lparr> oa_running := True \<rparr> \<notin> set (os_entries s)"
      using os_unique [OF ok a(1), of "a \<lparr> oa_running := True \<rparr>"] False by (metis output_admission.select_convs(4) output_admission.simps(1) output_admission.surjective output_admission.update_convs(4))
    ultimately have "os_step (OutAwaited (oa_id a)) s \<noteq> s" by metis
    then show ?thesis by (intro exI [where x = "OutAwaited (oa_id a)"]) simp
  qed
qed

section \<open>The info hash lock\<close>

definition call_ok :: "hash_admissions \<Rightarrow> hash_call \<Rightarrow> bool" where
  "call_ok s c \<longleftrightarrow> ha_id c < hs_created s \<and>
     (\<forall>p. ha_previous c = Some p \<longrightarrow> p < ha_id c \<and> (ha_held c \<longrightarrow> p \<notin> set (hs_ids s)))"

definition chained :: "hash_admissions \<Rightarrow> bool" where
  "chained s \<longleftrightarrow> (\<forall>a \<in> set (hs_calls s). \<forall>b \<in> set (hs_calls s). ha_key a = ha_key b \<and> ha_id a < ha_id b \<longrightarrow>
     (\<exists>p \<in> set (hs_calls s). ha_key p = ha_key b \<and> ha_previous b = Some (ha_id p) \<and> ha_id a \<le> ha_id p))"

definition tail_ok :: "hash_admissions \<Rightarrow> string \<Rightarrow> bool" where
  "tail_ok s k \<longleftrightarrow>
     (case map_of (hs_tails s) k of
        None \<Rightarrow> \<forall>c \<in> set (hs_calls s). ha_key c \<noteq> k
      | Some t \<Rightarrow> (\<exists>c \<in> set (hs_calls s). ha_id c = t \<and> ha_key c = k) \<and>
                  (\<forall>c \<in> set (hs_calls s). ha_key c = k \<longrightarrow> ha_id c \<le> t))"

definition hs_ok :: "hash_admissions \<Rightarrow> bool" where
  "hs_ok s \<longleftrightarrow> distinct (hs_ids s) \<and> (\<forall>c \<in> set (hs_calls s). call_ok s c) \<and> chained s \<and> (\<forall>k. tail_ok s k)"

lemma hs_okD:
  assumes "hs_ok s"
  shows "distinct (hs_ids s)" "c \<in> set (hs_calls s) \<Longrightarrow> call_ok s c" "chained s" "tail_ok s k"
  using assms by (simp_all add: hs_ok_def)

lemma hs_ok_new: "hs_ok hs_new"
  by (simp add: hs_ok_def hs_new_def hs_ids_def chained_def tail_ok_def)

lemma hs_unique: "hs_ok s \<Longrightarrow> a \<in> set (hs_calls s) \<Longrightarrow> b \<in> set (hs_calls s) \<Longrightarrow> ha_id a = ha_id b \<Longrightarrow> a = b"
  unfolding hs_ok_def hs_ids_def by (meson distinct_map inj_onD)

lemma held_first:
  assumes ok: "hs_ok s" and "c \<in> set (hs_calls s)" and "ha_held c" and "a \<in> set (hs_calls s)" and "ha_key a = ha_key c"
  shows "ha_id c \<le> ha_id a"
proof (rule ccontr)
  assume "\<not> ha_id c \<le> ha_id a"
  then obtain p where "p \<in> set (hs_calls s)" "ha_previous c = Some (ha_id p)"
    using hs_okD(3) [OF ok] assms(2,4,5) unfolding chained_def by force
  then show False using hs_okD(2) [OF ok assms(2)] assms(3) by (simp add: call_ok_def hs_ids_def)
qed

lemma hs_ok_acquire:
  assumes ok: "hs_ok s"
  shows "hs_ok (acquireBtAdmission key s)"
proof -
  define new where "new = \<lparr> ha_id = hs_created s, ha_key = key, ha_previous = map_of (hs_tails s) key, ha_held = False \<rparr>"
  define s' where "s' = s \<lparr> hs_tails := jset (hs_tails s) key (hs_created s), hs_calls := hs_calls s @ [new], hs_created := hs_created s + 1 \<rparr>"
  have eq: "acquireBtAdmission key s = s'" by (simp add: acquireBtAdmission_def new_def s'_def)
  have calls: "set (hs_calls s') = insert new (set (hs_calls s))" and ids: "hs_ids s' = hs_ids s @ [hs_created s]"
    by (simp_all add: s'_def new_def hs_ids_def)
  have below: "ha_id c < hs_created s" if "c \<in> set (hs_calls s)" for c
    using hs_okD(2) [OF ok that] by (simp add: call_ok_def)
  have fresh: "hs_created s \<notin> set (hs_ids s)" using below by (fastforce simp: hs_ids_def)
  have new: "ha_id new = hs_created s" "ha_key new = key" "ha_previous new = map_of (hs_tails s) key" "\<not> ha_held new"
    by (simp_all add: new_def)
  have tail: "tail_ok s key" using hs_okD(4) [OF ok] .
  have "call_ok s' c" if c: "c \<in> set (hs_calls s)" for c
    using hs_okD(2) [OF ok c] below [OF c] unfolding call_ok_def ids by (auto simp: s'_def)
  moreover have "call_ok s' new"
    using tail below unfolding call_ok_def tail_ok_def by (auto simp: s'_def new split: option.splits)
  moreover have last_of: "\<exists>p \<in> set (hs_calls s). ha_key p = key \<and> map_of (hs_tails s) key = Some (ha_id p) \<and> ha_id a \<le> ha_id p"
    if "a \<in> set (hs_calls s)" "ha_key a = key" for a
    using tail that unfolding tail_ok_def by (auto split: option.splits)
  have "chained s'"
    unfolding chained_def calls
  proof (intro ballI impI)
    fix a b assume ab: "a \<in> insert new (set (hs_calls s))" "b \<in> insert new (set (hs_calls s))" "ha_key a = ha_key b \<and> ha_id a < ha_id b"
    then have a: "a \<in> set (hs_calls s)" using below new(1) by (metis insertE not_less_iff_gr_or_eq order_less_irrefl)
    show "\<exists>p \<in> insert new (set (hs_calls s)). ha_key p = ha_key b \<and> ha_previous b = Some (ha_id p) \<and> ha_id a \<le> ha_id p"
    proof (cases "b = new")
      case True
      then show ?thesis using last_of [OF a] ab(3) new(2,3) by force
    next
      case False
      then show ?thesis using hs_okD(3) [OF ok] a ab(2,3) unfolding chained_def by blast
    qed
  qed
  moreover have "tail_ok s' k" for k
    using hs_okD(4) [OF ok, of k] below unfolding tail_ok_def calls by (auto simp: s'_def new less_imp_le split: option.splits)
  ultimately show ?thesis
    using hs_okD(1) [OF ok] fresh unfolding eq hs_ok_def ids calls by auto
qed

lemma hs_ok_awaited:
  assumes ok: "hs_ok s"
  shows "hs_ok (hs_step nb (HashAwaited i) s)"
proof -
  define f :: "hash_call \<Rightarrow> hash_call" where
    "f c = (if ha_id c = i \<and> (case ha_previous c of None \<Rightarrow> True | Some p \<Rightarrow> p \<notin> set (hs_ids s)) then c \<lparr> ha_held := True \<rparr> else c)" for c
  define s' where "s' = s \<lparr> hs_calls := map f (hs_calls s) \<rparr>"
  have step: "hs_step nb (HashAwaited i) s = s'" by (simp add: s'_def f_def [abs_def])
  have f: "ha_id (f c) = ha_id c" "ha_key (f c) = ha_key c" "ha_previous (f c) = ha_previous c"
    "ha_held (f c) \<Longrightarrow> ha_held c \<or> (\<forall>p. ha_previous c = Some p \<longrightarrow> p \<notin> set (hs_ids s))" for c
    by (auto simp: f_def split: if_splits)
  have ids: "hs_ids s' = hs_ids s" by (simp add: s'_def hs_ids_def comp_def f)
  have calls: "set (hs_calls s') = f ` set (hs_calls s)" by (simp add: s'_def)
  have "call_ok s' (f c)" if c: "c \<in> set (hs_calls s)" for c
    using hs_okD(2) [OF ok c] f(4) [of c] unfolding call_ok_def ids f(1-3) by (auto simp: s'_def)
  moreover have "chained s'" using hs_okD(3) [OF ok] unfolding chained_def calls by (simp add: f)
  moreover have "tail_ok s' k" for k
    using hs_okD(4) [OF ok, of k] unfolding tail_ok_def calls by (auto simp: f s'_def split: option.splits)
  ultimately show ?thesis using hs_okD(1) [OF ok] unfolding step hs_ok_def ids calls by auto
qed

lemma hs_ok_release:
  assumes ok: "hs_ok s"
  shows "hs_ok (releaseBtAdmission i s)"
proof (cases "find (\<lambda>c. ha_id c = i \<and> ha_held c) (hs_calls s)")
  case None
  then show ?thesis using ok by (simp add: releaseBtAdmission_def)
next
  case (Some c)
  then have c: "c \<in> set (hs_calls s)" "ha_id c = i" "ha_held c" by (auto dest: find_SomeD)
  define s' where "s' = s \<lparr> hs_calls := filter (\<lambda>c. ha_id c \<noteq> i) (hs_calls s),
    hs_tails := (if map_of (hs_tails s) (ha_key c) = Some i then jdel (hs_tails s) (ha_key c) else hs_tails s) \<rparr>"
  have eq: "releaseBtAdmission i s = s'" by (simp add: releaseBtAdmission_def Some s'_def)
  have calls: "set (hs_calls s') = set (hs_calls s) - {c}"
    using hs_unique [OF ok _ c(1)] c(2) by (auto simp: s'_def)
  have ids: "set (hs_ids s') \<subseteq> set (hs_ids s)" "distinct (hs_ids s')"
    using hs_okD(1) [OF ok] by (auto simp: s'_def hs_ids_def distinct_map_filter)
  have first: "i \<le> ha_id a" if "a \<in> set (hs_calls s)" "ha_key a = ha_key c" for a
    using held_first [OF ok c(1,3) that] c(2) by simp
  have other: "ha_id a \<noteq> i" if "a \<in> set (hs_calls s)" "a \<noteq> c" for a using hs_unique [OF ok that(1) c(1)] that(2) c(2) by metis
  have "call_ok s' a" if "a \<in> set (hs_calls s)" for a
    using hs_okD(2) [OF ok that] ids unfolding call_ok_def by (auto simp: s'_def)
  moreover have "chained s'"
    unfolding chained_def calls
  proof (intro ballI impI)
    fix a b assume a: "a \<in> set (hs_calls s) - {c}" and b: "b \<in> set (hs_calls s) - {c}" and ab: "ha_key a = ha_key b \<and> ha_id a < ha_id b"
    then obtain p where p: "p \<in> set (hs_calls s)" "ha_key p = ha_key b" "ha_previous b = Some (ha_id p)" "ha_id a \<le> ha_id p"
      using hs_okD(3) [OF ok] unfolding chained_def by blast
    have "p \<noteq> c"
    proof
      assume "p = c"
      then have "ha_id a < i" using other [of a] a p(4) c(2) by force
      then show False using first [of a] a ab p(2) \<open>p = c\<close> by force
    qed
    with p show "\<exists>p \<in> set (hs_calls s) - {c}. ha_key p = ha_key b \<and> ha_previous b = Some (ha_id p) \<and> ha_id a \<le> ha_id p" by blast
  qed
  moreover have "tail_ok s' k" for k
  proof (cases "k = ha_key c")
    case False
    then have "map_of (hs_tails s') k = map_of (hs_tails s) k" by (simp add: s'_def jget_jdel)
    then show ?thesis using hs_okD(4) [OF ok, of k] False unfolding tail_ok_def calls by (auto split: option.splits)
  next
    case True
    obtain t where t: "map_of (hs_tails s) k = Some t" and tail: "\<exists>d \<in> set (hs_calls s). ha_id d = t \<and> ha_key d = k"
      "\<forall>d \<in> set (hs_calls s). ha_key d = k \<longrightarrow> ha_id d \<le> t"
      using hs_okD(4) [OF ok, of k] c(1) True unfolding tail_ok_def by (auto split: option.splits)
    show ?thesis
    proof (cases "t = i")
      case True
      have "ha_key d \<noteq> k" if "d \<in> set (hs_calls s) - {c}" for d
        using first [of d] tail(2) other [of d] that True \<open>k = ha_key c\<close> by force
      moreover have "map_of (hs_tails s') k = None" using t True \<open>k = ha_key c\<close> by (simp add: s'_def jget_jdel)
      ultimately show ?thesis unfolding tail_ok_def calls by simp
    next
      case False
      have "map_of (hs_tails s') k = Some t" using t False \<open>k = ha_key c\<close> by (simp add: s'_def)
      then show ?thesis using tail False c(2) unfolding tail_ok_def calls by auto
    qed
  qed
  ultimately show ?thesis using ids unfolding eq hs_ok_def calls by blast
qed

lemma hs_ok_step: "hs_ok s \<Longrightarrow> hs_ok (hs_step nb e s)"
  by (cases e) (simp_all only: hs_step.simps(1,3) acquireBtInfoHashAdmission_def hs_ok_acquire hs_ok_awaited hs_ok_release)

lemma hs_ok_run: "hs_ok s \<Longrightarrow> hs_ok (hs_run nb es s)"
  by (induction es arbitrary: s) (simp_all add: hs_run_def hs_ok_step)

definition hs_alive :: "hash_admissions \<Rightarrow> nat set" where "hs_alive s = set (hs_ids s)"

definition hs_held :: "hash_admissions \<Rightarrow> nat set" where "hs_held s = ha_id ` {c \<in> set (hs_calls s). ha_held c}"

definition hs_waits :: "hash_admissions \<Rightarrow> nat \<Rightarrow> nat set" where
  "hs_waits s i = {p. \<exists>c \<in> set (hs_calls s). ha_id c = i \<and> ha_previous c = Some p}"

definition hs_clash :: "hash_admissions \<Rightarrow> nat \<Rightarrow> nat \<Rightarrow> bool" where
  "hs_clash s i j \<longleftrightarrow> (\<exists>a \<in> set (hs_calls s). \<exists>b \<in> set (hs_calls s). ha_id a = i \<and> ha_id b = j \<and> ha_key a = ha_key b)"

interpretation hash_lock: backward_waits hs_ok hs_alive hs_held hs_waits hs_clash
proof unfold_locales
  fix s i p assume "hs_ok s" "i \<in> hs_alive s" "p \<in> hs_waits s i"
  then show "p < i" using hs_okD(2) by (auto simp: hs_waits_def call_ok_def)
next
  fix s i assume "hs_ok s" "i \<in> hs_held s"
  then show "hs_waits s i \<inter> hs_alive s = {}"
    using hs_okD(2) hs_unique by (fastforce simp: hs_held_def hs_waits_def hs_alive_def call_ok_def)
next
  fix s i j assume s: "hs_ok s" "i \<in> hs_alive s" "j \<in> hs_alive s" "i < j" "hs_clash s i j"
  then obtain a b where "a \<in> set (hs_calls s)" "b \<in> set (hs_calls s)" "ha_id a = i" "ha_id b = j" "ha_key a = ha_key b"
    by (auto simp: hs_clash_def)
  then obtain p where "p \<in> set (hs_calls s)" "ha_id p \<in> hs_waits s j"
    using hs_okD(3) [OF s(1)] s(4) unfolding chained_def hs_waits_def by blast
  then show "hs_waits s j \<inter> hs_alive s \<noteq> {}" by (auto simp: hs_alive_def hs_ids_def)
next
  fix s i j assume "hs_clash s i j"
  then show "hs_clash s j i" by (auto simp: hs_clash_def) metis
qed (auto simp: hs_alive_def hs_held_def hs_ids_def)

section \<open>Which torrents may be created\<close>

text \<open>\<open>instances[0]\<close> where there is exactly one.\<close>

definition isBtInfoHashRegistered :: "DownloadTask \<Rightarrow> bool" where
  "isBtInfoHashRegistered t \<longleftrightarrow>
     (let untouched = (case dt_instances t of
            [i] \<Rightarrow> dt_engineTaskId t = [] \<and> (ti_gid i = None \<or> ti_gid i = Some []) \<and>
                   \<not> hasOwn (pl_legacyBtActivation (ti_payload i)) \<and>
                   (case safeParse (pl_legacyImport (ti_payload i)) of
                      None \<Rightarrow> False
                    | Some m \<Rightarrow> lm_activation m = LInactive \<and> lm_storagePolicy m = LegacyReadOnly)
          | _ \<Rightarrow> False)
      in \<not> untouched \<and> dt_status t \<notin> {Completed, MetadataReady, Removed})"

definition btTaskTargetDir :: "path_host \<Rightarrow> DownloadTask \<Rightarrow> string" where
  "btTaskTargetDir h t =
     (let metadataOnly = dt_type t = Magnet \<and> list_ex (\<lambda>i. ti_phase i = MagnetMetadataResolution) (dt_instances t)
      in if metadataOnly \<and> dt_finalName t = []
         then canonicalBtPath h (if dt_finalPath t \<noteq> [] then dt_finalPath t else dt_saveDir t)
         else if dt_finalPath t \<noteq> [] then canonicalBtPath h (path_dirname (dt_finalPath t))
         else canonicalBtPath h (dt_saveDir t))"

definition normalizeSelection :: "nat list \<Rightarrow> nat list" where
  "normalizeSelection values = sort (sadds [] values)"

definition selectionsEqual :: "nat list \<Rightarrow> nat list \<Rightarrow> bool" where
  "selectionsEqual a b \<longleftrightarrow> length a = length b \<and> list_all (\<lambda>i. a ! i = b ! i) [0..<length a]"

datatype duplicate_reason = ActiveInfoHash | SelectionMismatch | ExistingFiles

record duplicate_conflict =
  dc_reason :: duplicate_reason
  dc_infoHash :: string
  dc_targetDir :: string
  dc_existing :: "(string \<times> string \<times> TaskStatus) option"
  dc_canCreateCopy :: bool

datatype bt_admission = BtCreate | BtReuse DownloadTask bool | BtConflict duplicate_conflict

datatype duplicate_policy = PolicyReuse | PolicyCreateCopy

record duplicate_input =
  di_infoHash :: string
  di_saveDir :: string
  di_selectedFiles :: "nat list"
  di_policy :: duplicate_policy
  di_excludeTaskId :: "string option"

definition bt_conflict :: "duplicate_reason \<Rightarrow> string \<Rightarrow> string \<Rightarrow> DownloadTask \<Rightarrow> bool \<Rightarrow> bt_admission" where
  "bt_conflict reason infoHash targetDir t canCreateCopy =
     BtConflict \<lparr> dc_reason = reason, dc_infoHash = infoHash, dc_targetDir = targetDir,
       dc_existing = Some (dt_id t, dt_name t, dt_status t), dc_canCreateCopy = canCreateCopy \<rparr>"

definition existingFilesConflict :: "path_host \<Rightarrow> (string \<Rightarrow> string option) \<Rightarrow> string \<Rightarrow> string \<Rightarrow> duplicate_conflict" where
  "existingFilesConflict h nb infoHash targetDir =
     \<lparr> dc_reason = ExistingFiles,
       dc_infoHash = (case normalizeBtInfoHash nb infoHash of Some k \<Rightarrow> k | None \<Rightarrow> latinLowerCase infoHash),
       dc_targetDir = canonicalBtPath h targetDir, dc_existing = None, dc_canCreateCopy = True \<rparr>"

text \<open>\<open>candidates\<close>, \<open>sameDir\<close> and \<open>exact\<close> of \<open>inspectBtDuplicate\<close>.\<close>

definition duplicate_candidates :: "(string \<Rightarrow> string option) \<Rightarrow> DownloadTask list \<Rightarrow> duplicate_input \<Rightarrow> string \<Rightarrow> DownloadTask list" where
  "duplicate_candidates nb tasks input infoHash =
     filter (\<lambda>t. Some (dt_id t) \<noteq> di_excludeTaskId input \<and>
                 normalizeBtInfoHash nb (case dt_infoHash t of None \<Rightarrow> [] | Some v \<Rightarrow> v) = Some infoHash \<and>
                 dt_status t \<noteq> Removed) tasks"

definition exact_duplicate :: "nat list \<Rightarrow> DownloadTask list \<Rightarrow> DownloadTask option" where
  "exact_duplicate requestedSelection sameDir =
     find (\<lambda>t. length requestedSelection > 0 \<and>
               selectionsEqual (normalizeSelection (case dt_bt t of None \<Rightarrow> [] | Some b \<Rightarrow> bt_selectedFiles b)) requestedSelection)
       sameDir"

definition inspectBtDuplicate ::
  "path_host \<Rightarrow> (string \<Rightarrow> string option) \<Rightarrow> DownloadTask list \<Rightarrow> duplicate_input \<Rightarrow> bt_admission" where
  "inspectBtDuplicate h nb tasks input =
     (case normalizeBtInfoHash nb (di_infoHash input) of
        None \<Rightarrow> BtCreate
      | Some infoHash \<Rightarrow>
          let targetDir = canonicalBtPath h (di_saveDir input);
              requestedSelection = normalizeSelection (di_selectedFiles input);
              candidates = duplicate_candidates nb tasks input infoHash;
              sameDir = filter (\<lambda>t. btTaskTargetDir h t = targetDir) candidates;
              exact = exact_duplicate requestedSelection sameDir;
              active = find (\<lambda>t. Some (dt_id t) \<noteq> map_option dt_id exact \<and> isBtInfoHashRegistered t) candidates;
              reuse = di_policy input = PolicyReuse
          in if candidates = [] then BtCreate
             else if reuse \<and> (case exact of None \<Rightarrow> False | Some t \<Rightarrow> dt_status t \<noteq> Error \<and> isBtInfoHashRegistered t)
             then BtReuse (the exact) False
             else case active of
                    Some t \<Rightarrow> bt_conflict ActiveInfoHash infoHash targetDir t False
                  | None \<Rightarrow>
                      if reuse \<and> (case exact of None \<Rightarrow> False | Some t \<Rightarrow> dt_status t = Completed \<or> dt_status t = Error)
                      then BtReuse (the exact) True
                      else case find isBtInfoHashRegistered candidates of
                             Some t \<Rightarrow> bt_conflict ActiveInfoHash infoHash targetDir t False
                           | None \<Rightarrow> if reuse \<and> sameDir \<noteq> [] then bt_conflict SelectionMismatch infoHash targetDir (hd sameDir) True
                                     else BtCreate)"

lemma no_tail_left: "hs_calls (hs_run nb es hs_new) = [] \<Longrightarrow> hs_tails (hs_run nb es hs_new) = []"
proof -
  let ?s = "hs_run nb es hs_new"
  assume none: "hs_calls ?s = []"
  have "map_of (hs_tails ?s) k = None" for k
    using hs_okD(4) [OF hs_ok_run [OF hs_ok_new], of nb es k] none by (auto simp: tail_ok_def split: option.splits)
  then have "k \<notin> fst ` set (hs_tails ?s)" for k by (simp add: map_of_eq_None_iff)
  then show ?thesis by (cases "hs_tails ?s") fastforce+
qed

lemma selections_equal_iff: "selectionsEqual a b \<longleftrightarrow> a = b"
proof -
  have "selectionsEqual a b \<longleftrightarrow> length a = length b \<and> (\<forall>i<length a. a ! i = b ! i)"
    by (simp add: selectionsEqual_def list_all_iff Ball_def)
  then show ?thesis by (simp add: list_eq_iff_nth_eq)
qed

lemma normalize_selection_set: "set (normalizeSelection xs) = set xs"
  by (simp add: normalizeSelection_def)

lemma exact_Some:
  assumes "exact_duplicate (normalizeSelection sel) (filter P cs) = Some t"
  shows "t \<in> set cs \<and> P t \<and> (case dt_bt t of None \<Rightarrow> False | Some b \<Rightarrow> set (bt_selectedFiles b) = set sel) \<and> sel \<noteq> []"
proof -
  have t: "t \<in> set (filter P cs)" "normalizeSelection sel \<noteq> []"
      "normalizeSelection (case dt_bt t of None \<Rightarrow> [] | Some b \<Rightarrow> bt_selectedFiles b) = normalizeSelection sel"
    using find_SomeD [OF assms [unfolded exact_duplicate_def]] by (auto simp: selections_equal_iff)
  from t(3) have "set (case dt_bt t of None \<Rightarrow> [] | Some b \<Rightarrow> bt_selectedFiles b) = set sel"
    using normalize_selection_set by metis
  moreover have "sel \<noteq> []" using t(2) normalize_selection_set [of sel] by force
  ultimately show ?thesis using t(1) by (cases "dt_bt t") auto
qed

section \<open>Properties\<close>

text \<open>
  C19: no two operations write into overlapping directories at the same time. However admissions, returns and
  failures interleave and whatever the file system answers, two operations that run together have no root of one
  inside, above or equal to a root of the other.
\<close>
theorem output_admissions_exclusive:
  assumes "a \<in> set (os_entries (os_run es os_new))" and "b \<in> set (os_entries (os_run es os_new))" and "a \<noteq> b"
    and "oa_running a" and "oa_running b" and "r \<in> set (oa_roots a)" and "r' \<in> set (oa_roots b)"
  shows "\<not> prefix (abs_segments r) (abs_segments r')"
proof
  let ?s = "os_run es os_new"
  have ok: "os_ok ?s" by (rule os_ok_run [OF os_ok_new])
  have running: "oa_id a \<in> os_running ?s" "oa_id b \<in> os_running ?s" using assms by (auto simp: os_running_def)
  have "oa_id a \<noteq> oa_id b" using os_unique [OF ok assms(1,2)] assms(3) by blast
  from directory_lock.exclusion [OF ok running this] have "\<not> roots_overlap a b" using assms(1,2) by (auto simp: os_clash_def)
  moreover assume "prefix (abs_segments r) (abs_segments r')"
  ultimately show False using assms(6,7) unfolding roots_overlap_def overlap_iff by blast
qed

text \<open>
  C37: admissions never deadlock. Whatever was admitted, also moves that cross each other, as long as no new
  operation comes in the events that do something are few, two per entry at most, and while an entry is left one of
  them is possible. So every admitted operation runs and leaves, provided the operations that run end.
\<close>
theorem output_admissions_finish:
  assumes "os_effective rest (os_run es os_new)"
  shows "length rest \<le> 2 * length (os_entries (os_run es os_new)) \<and>
    (os_entries (os_run (es @ rest) os_new) = [] \<or> (\<exists>e. os_effective [e] (os_run (es @ rest) os_new)))"
proof -
  have "length rest \<le> os_pending (os_run es os_new)" using effective_bound [OF assms] by simp
  then show ?thesis
    using pending_le [of "os_run es os_new"] some_turn [OF os_ok_run [OF os_ok_new], of "es @ rest"] by fastforce
qed

text \<open>
  C38: one owner per info hash. Of the calls that are not released, one that has been admitted is the first of its
  hash, so two admitted calls of a hash are the same call, and admission is in the order of the calls. While calls
  are left, one is admitted or can be; and when none is left the table of tails is empty again, so nothing of a hash
  stays behind.
\<close>
theorem hash_admission_exclusive:
  assumes "s = hs_run nb es hs_new"
  shows "(\<forall>a \<in> set (hs_calls s). \<forall>b \<in> set (hs_calls s). ha_key a = ha_key b \<and> ha_held b \<longrightarrow>
      ha_id b \<le> ha_id a \<and> (ha_held a \<longrightarrow> a = b)) \<and>
    (hs_calls s \<noteq> [] \<longrightarrow> (\<exists>c \<in> set (hs_calls s). \<forall>p. ha_previous c = Some p \<longrightarrow> p \<notin> set (hs_ids s))) \<and>
    (hs_calls s = [] \<longrightarrow> hs_tails s = [])"
proof (intro conjI)
  have ok: "hs_ok s" unfolding assms(1) by (rule hs_ok_run [OF hs_ok_new])
  show "\<forall>a \<in> set (hs_calls s). \<forall>b \<in> set (hs_calls s). ha_key a = ha_key b \<and> ha_held b \<longrightarrow>
      ha_id b \<le> ha_id a \<and> (ha_held a \<longrightarrow> a = b)"
    using held_first [OF ok] hs_unique [OF ok] by (metis order_antisym)
  show "hs_calls s \<noteq> [] \<longrightarrow> (\<exists>c \<in> set (hs_calls s). \<forall>p. ha_previous c = Some p \<longrightarrow> p \<notin> set (hs_ids s))"
    using hash_lock.lock_progress [OF ok] by (force simp: hs_alive_def hs_waits_def hs_ids_def)
  show "hs_calls s = [] \<longrightarrow> hs_tails s = []" using no_tail_left assms by simp
qed

text \<open>
  C20: what the duplicate policy decides. A copy is created only when no task of the same hash is registered with
  the engine. A task is reused only when it has the hash, the directory and exactly the selection that was asked
  for; without a recheck it is registered, and with one it has ended and no other task of the hash is registered.
  A conflict names a task of the hash, and offers a copy exactly when none is registered.
\<close>
theorem duplicate_policy_sound:
  assumes "normalizeBtInfoHash nb (di_infoHash input) = Some infoHash"
    and "cs = duplicate_candidates nb tasks input infoHash"
  shows "case inspectBtDuplicate h nb tasks input of
      BtCreate \<Rightarrow> list_all (\<lambda>t. \<not> isBtInfoHashRegistered t) cs
    | BtReuse t recheck \<Rightarrow>
        di_policy input = PolicyReuse \<and> t \<in> set cs \<and> btTaskTargetDir h t = canonicalBtPath h (di_saveDir input) \<and>
        (case dt_bt t of None \<Rightarrow> False | Some b \<Rightarrow> set (bt_selectedFiles b) = set (di_selectedFiles input)) \<and>
        di_selectedFiles input \<noteq> [] \<and>
        (if recheck then dt_status t \<in> {Completed, Error} \<and> list_all (\<lambda>u. dt_id u = dt_id t \<or> \<not> isBtInfoHashRegistered u) cs
         else isBtInfoHashRegistered t \<and> dt_status t \<noteq> Error)
    | BtConflict c \<Rightarrow>
        (\<exists>t \<in> set cs. dc_existing c = Some (dt_id t, dt_name t, dt_status t)) \<and>
        dc_canCreateCopy c = list_all (\<lambda>t. \<not> isBtInfoHashRegistered t) cs"
proof -
  define target where "target = canonicalBtPath h (di_saveDir input)"
  define exact where "exact = exact_duplicate (normalizeSelection (di_selectedFiles input)) (filter (\<lambda>t. btTaskTargetDir h t = target) cs)"
  define active where "active = find (\<lambda>t. Some (dt_id t) \<noteq> map_option dt_id exact \<and> isBtInfoHashRegistered t) cs"
  have exact: "t \<in> set cs \<and> btTaskTargetDir h t = target \<and>
      (case dt_bt t of None \<Rightarrow> False | Some b \<Rightarrow> set (bt_selectedFiles b) = set (di_selectedFiles input)) \<and> di_selectedFiles input \<noteq> []"
    if "exact = Some t" for t using exact_Some that unfolding exact_def by fast
  have active: "u \<in> set cs \<and> isBtInfoHashRegistered u" if "active = Some u" for u
    using find_SomeD that unfolding active_def by fast
  have idle: "list_all (\<lambda>u. Some (dt_id u) = map_option dt_id exact \<or> \<not> isBtInfoHashRegistered u) cs" if "active = None"
    using that unfolding active_def find_None_iff list_all_iff by blast
  have some: "u \<in> set cs \<and> isBtInfoHashRegistered u" if "find isBtInfoHashRegistered cs = Some u" for u
    using find_SomeD that by fast
  have none: "list_all (\<lambda>u. \<not> isBtInfoHashRegistered u) cs" if "find isBtInfoHashRegistered cs = None"
    using that unfolding find_None_iff list_all_iff by blast
  have eq: "inspectBtDuplicate h nb tasks input =
     (if cs = [] then BtCreate
      else if di_policy input = PolicyReuse \<and> (case exact of None \<Rightarrow> False | Some t \<Rightarrow> dt_status t \<noteq> Error \<and> isBtInfoHashRegistered t)
      then BtReuse (the exact) False
      else case active of
             Some t \<Rightarrow> bt_conflict ActiveInfoHash infoHash target t False
           | None \<Rightarrow>
               if di_policy input = PolicyReuse \<and> (case exact of None \<Rightarrow> False | Some t \<Rightarrow> dt_status t = Completed \<or> dt_status t = Error)
               then BtReuse (the exact) True
               else case find isBtInfoHashRegistered cs of
                      Some t \<Rightarrow> bt_conflict ActiveInfoHash infoHash target t False
                    | None \<Rightarrow> if di_policy input = PolicyReuse \<and> filter (\<lambda>t. btTaskTargetDir h t = target) cs \<noteq> []
                              then bt_conflict SelectionMismatch infoHash target (hd (filter (\<lambda>t. btTaskTargetDir h t = target) cs)) True
                              else BtCreate)"
    unfolding inspectBtDuplicate_def exact_def active_def target_def assms(2) by (simp add: assms(1) Let_def)
  have registered: "\<not> list_all (\<lambda>t. \<not> isBtInfoHashRegistered t) cs" if "u \<in> set cs" "isBtInfoHashRegistered u" for u
    using that by (auto simp: list_all_iff)
  have same_dir: "hd (filter P cs) \<in> set cs" if "filter P cs \<noteq> []" for P using hd_in_set [OF that] by simp
  show ?thesis
  proof (cases "cs = []")
    case True
    then show ?thesis by (simp add: eq)
  next
    case False
    consider (reuse) t where "di_policy input = PolicyReuse" "exact = Some t" "dt_status t \<noteq> Error" "isBtInfoHashRegistered t"
      | (other) "\<not> (di_policy input = PolicyReuse \<and> (case exact of None \<Rightarrow> False | Some t \<Rightarrow> dt_status t \<noteq> Error \<and> isBtInfoHashRegistered t))"
      by (cases exact) auto
    then show ?thesis
    proof cases
      case reuse
      then show ?thesis using exact [OF reuse(2)] False by (simp add: eq target_def)
    next
      case other
      show ?thesis
      proof (cases active)
        case (Some u)
        then show ?thesis using active [OF Some] registered False unfolding eq if_not_P [OF other] by (auto simp: bt_conflict_def)
      next
        case None
        consider (recheck) t where "di_policy input = PolicyReuse" "exact = Some t" "dt_status t = Completed \<or> dt_status t = Error"
          | (rest) "\<not> (di_policy input = PolicyReuse \<and> (case exact of None \<Rightarrow> False | Some t \<Rightarrow> dt_status t = Completed \<or> dt_status t = Error))"
          by (cases exact) auto
        then show ?thesis
        proof cases
          case recheck
          then show ?thesis using exact [OF recheck(2)] idle [OF None] False None
            unfolding eq if_not_P [OF other] by (auto simp: target_def)
        next
          case rest
          show ?thesis
            using some none registered same_dir False None unfolding eq if_not_P [OF other] if_not_P [OF rest]
            by (cases "find isBtInfoHashRegistered cs") (auto simp: bt_conflict_def)
        qed
      qed
    qed
  qed
qed

section \<open>Examples\<close>

definition toy_host :: path_host where
  "toy_host = \<lparr> ph_cwd = ''/'', ph_realpath = Some, ph_ignoresCase = False, ph_nfdLower = (\<lambda>v. v) \<rparr>"

lemma output_admissions_exclusive_witness:
  "\<exists>a b s. s = os_run [OutEnter toy_host [''/a''], OutEnter toy_host [''/b''], OutAwaited 0, OutAwaited 1] os_new \<and>
     a \<in> set (os_entries s) \<and> b \<in> set (os_entries s) \<and> oa_running a \<and> oa_running b \<and> a \<noteq> b \<and>
     \<not> prefix (abs_segments ''/a'') (abs_segments ''/b'')"
proof -
  let ?es = "[OutEnter toy_host [''/a''], OutEnter toy_host [''/b''], OutAwaited 0, OutAwaited 1]"
  let ?a = "\<lparr> oa_id = 0, oa_roots = [''/a''], oa_predecessors = [], oa_running = True \<rparr>"
  let ?b = "\<lparr> oa_id = 1, oa_roots = [''/b''], oa_predecessors = [], oa_running = True \<rparr>"
  have "os_entries (os_run ?es os_new) = [?a, ?b]" by code_simp
  then have ab: "?a \<in> set (os_entries (os_run ?es os_new))" "?b \<in> set (os_entries (os_run ?es os_new))" by simp_all
  from output_admissions_exclusive [OF this, of "''/a''" "''/b''"]
  have "\<not> prefix (abs_segments ''/a'') (abs_segments ''/b'')" by simp
  with ab show ?thesis by (intro exI [where x = ?a] exI [where x = ?b] exI [where x = "os_run ?es os_new"]) simp
qed

text \<open>A move out of a directory and one into it: the second waits for the first.\<close>

lemma output_admissions_finish_witness:
  "\<exists>rest. length rest = 4 \<and> os_effective rest (os_run [OutEnter toy_host [''/a'', ''/c''], OutEnter toy_host [''/c/d'', ''/a'']] os_new) \<and>
     os_entries (os_run ([OutEnter toy_host [''/a'', ''/c''], OutEnter toy_host [''/c/d'', ''/a'']] @ rest) os_new) = [] \<and>
     length rest \<le> 2 * length (os_entries (os_run [OutEnter toy_host [''/a'', ''/c''], OutEnter toy_host [''/c/d'', ''/a'']] os_new))"
proof -
  let ?es = "[OutEnter toy_host [''/a'', ''/c''], OutEnter toy_host [''/c/d'', ''/a'']]"
  let ?rest = "[OutAwaited 0, OutSettled 0, OutAwaited 1, OutSettled 1]"
  let ?s = "\<lparr> os_entries = [\<lparr> oa_id = 0, oa_roots = [''/a'', ''/c''], oa_predecessors = [], oa_running = False \<rparr>,
      \<lparr> oa_id = 1, oa_roots = [''/c/d'', ''/a''], oa_predecessors = [0], oa_running = False \<rparr>], os_created = 2 \<rparr>"
  have s: "os_run ?es os_new = ?s" by code_simp
  have eff: "os_effective ?rest (os_run ?es os_new)" unfolding s by (simp add: os_ids_def)
  have split: "os_run (?es @ ?rest) os_new = os_run ?rest (os_run ?es os_new)" by (simp only: os_run_def foldl_append)
  have "os_entries (os_run (?es @ ?rest) os_new) = []" unfolding split s by (simp add: os_run_def os_ids_def)
  then show ?thesis using eff conjunct1 [OF output_admissions_finish [OF eff]]
    by (intro exI [where x = ?rest] conjI) (assumption | simp only: list.size)+
qed

lemma hash_admission_exclusive_witness:
  "\<exists>s. s = hs_run Some [HashAcquire ''a'', HashAcquire '' a'', HashAwaited 0, HashAwaited 1] hs_new \<and>
     length (hs_calls s) = 2 \<and> (\<forall>a \<in> set (hs_calls s). \<forall>b \<in> set (hs_calls s). ha_held a \<and> ha_held b \<longrightarrow> a = b)"
proof -
  let ?s = "hs_run Some [HashAcquire ''a'', HashAcquire '' a'', HashAwaited 0, HashAwaited 1] hs_new"
  have calls: "hs_calls ?s = [\<lparr> ha_id = 0, ha_key = ''hash:a'', ha_previous = None, ha_held = True \<rparr>,
      \<lparr> ha_id = 1, ha_key = ''hash:a'', ha_previous = Some 0, ha_held = False \<rparr>]" by code_simp
  have "\<forall>a \<in> set (hs_calls ?s). \<forall>b \<in> set (hs_calls ?s). ha_key a = ha_key b" unfolding calls by simp
  with hash_admission_exclusive [OF refl, of Some "[HashAcquire ''a'', HashAcquire '' a'', HashAwaited 0, HashAwaited 1]"]
  have "\<forall>a \<in> set (hs_calls ?s). \<forall>b \<in> set (hs_calls ?s). ha_held a \<and> ha_held b \<longrightarrow> a = b" by blast
  moreover have "length (hs_calls ?s) = 2" unfolding calls by simp
  ultimately show ?thesis by blast
qed

lemma duplicate_policy_sound_witness:
  "\<exists>t. inspectBtDuplicate toy_host Some [t]
      \<lparr> di_infoHash = ''h'', di_saveDir = ''/d'', di_selectedFiles = [2, 1, 2], di_policy = PolicyReuse, di_excludeTaskId = None \<rparr> =
     BtReuse t False \<and> isBtInfoHashRegistered t \<and> dt_status t \<noteq> Error"
proof -
  let ?i = "\<lparr> di_infoHash = ''h'', di_saveDir = ''/d'', di_selectedFiles = [2, 1, 2], di_policy = PolicyReuse, di_excludeTaskId = None \<rparr>"
  let ?t = "(example_task Bt KBt []) \<lparr> dt_infoHash := Some '' h'', dt_status := Downloading, dt_bt := Some \<lparr> bt_peers = 0, bt_seeds = 0, bt_ratio = 0, bt_trackers = [],
    bt_selectedFiles = [1, 2], bt_peersInSwarm = 0, bt_seedsInSwarm = 0, bt_announceList = [], bt_comment = None, bt_isPrivate = False,
    bt_magnetUri = None, bt_sequentialDownload = False \<rparr> \<rparr>"
  have hash: "normalizeBtInfoHash Some (di_infoHash ?i) = Some ''h''" by code_simp
  have reuse: "inspectBtDuplicate toy_host Some [?t] ?i = BtReuse ?t False" by code_simp
  from duplicate_policy_sound [OF hash refl, where h = toy_host and tasks = "[?t]"] reuse
  show ?thesis by (intro exI [where x = ?t]) (simp split: option.splits)
qed

end
