(* ===== verification/Host_Permission.thy ===== *)
theory Host_Permission
  imports Extension_Identity Finalize_Path "HOL-Library.Sublist"
begin

text \<open>
  Which URLs a plugin may reach: the match patterns of \<open>core/plugin/permissions/host-pattern.ts\<close>. \<open>new URL\<close> is
  a parameter. The regular expression of a path is kept as
  the text the code builds and is read by a matcher for the fragment that text uses.
\<close>

section \<open>Texts\<close>

text \<open>\<open>indexOf\<close> of a non-empty text.\<close>

fun index_of_text :: "string \<Rightarrow> string \<Rightarrow> nat option" where
  "index_of_text pat [] = None"
| "index_of_text pat (c # s) = (if take (length pat) (c # s) = pat then Some 0 else map_option Suc (index_of_text pat s))"

definition ends_with :: "string \<Rightarrow> string \<Rightarrow> bool" where
  "ends_with s t \<longleftrightarrow> length t \<le> length s \<and> drop (length s - length t) s = t"

definition ascii_digit :: "char \<Rightarrow> bool" where "ascii_digit c \<longleftrightarrow> 48 \<le> (of_char c :: nat) \<and> (of_char c :: nat) \<le> 57"

definition ascii_letter :: "char \<Rightarrow> bool" where
  "ascii_letter c \<longleftrightarrow> 97 \<le> (of_char (lower_char c) :: nat) \<and> (of_char (lower_char c) :: nat) \<le> 122"

definition hex_digit :: "char \<Rightarrow> bool" where
  "hex_digit c \<longleftrightarrow> ascii_digit c \<or> 97 \<le> (of_char (lower_char c) :: nat) \<and> (of_char (lower_char c) :: nat) \<le> 102"

text \<open>\<open>toUpperCase\<close> of a hexadecimal digit.\<close>

definition upper_hex :: "char \<Rightarrow> char" where
  "upper_hex c = (if 97 \<le> (of_char c :: nat) \<and> (of_char c :: nat) \<le> 102 then char_of ((of_char c :: nat) - 32) else c)"

fun uppercasePercentEscapes :: "string \<Rightarrow> string" where
  "uppercasePercentEscapes (p # a # b # cs) =
     (if p = CHR ''%'' \<and> hex_digit a \<and> hex_digit b then p # upper_hex a # upper_hex b # uppercasePercentEscapes cs
      else p # uppercasePercentEscapes (a # b # cs))"
| "uppercasePercentEscapes cs = cs"

section \<open>Regular expressions of paths\<close>

text \<open>The replacement of metacharacters, and that of the star.\<close>

definition metacharacters :: string where
  "metacharacters = ''.+?^${}()|['' @ [CHR 0x5D, CHR 0x5C]"

definition escape_path :: "string \<Rightarrow> string" where
  "escape_path p = concat (map (\<lambda>c. if c \<in> set metacharacters then [CHR 0x5C, c] else [c]) p)"

definition path_expression_source :: "string \<Rightarrow> string" where
  "path_expression_source p =
     ''^'' @ concat (map (\<lambda>c. if c = CHR ''*'' then ''.*'' else [c]) (escape_path p)) @ ''$''"

text \<open>
  Reading the fragment of regular expressions that consists of literal characters, escaped characters and \<open>.*\<close>
  between \<open>^\<close> and \<open>$\<close>; \<open>None\<close> is an expression beyond it.
\<close>

datatype path_token = TokChar char | TokAny

fun read_tokens :: "string \<Rightarrow> path_token list option" where
  "read_tokens [] = None"
| "read_tokens [c] = (if c = CHR ''$'' then Some [] else None)"
| "read_tokens (c # c' # cs) =
     (if c = CHR 0x5C then map_option (Cons (TokChar c')) (read_tokens cs)
      else if c = CHR ''.'' \<and> c' = CHR ''*'' then map_option (Cons TokAny) (read_tokens cs)
      else if c \<in> set metacharacters \<or> c = CHR ''*'' then None
      else map_option (Cons (TokChar c)) (read_tokens (c' # cs)))"

definition read_expression :: "string \<Rightarrow> path_token list option" where
  "read_expression src = (case src of [] \<Rightarrow> None | c # cs \<Rightarrow> if c = CHR ''^'' then read_tokens cs else None)"

text \<open>The dot matches any character but a line terminator; without flags \<open>$\<close> is the end of the input.\<close>

definition line_terminator :: "char \<Rightarrow> bool" where
  "line_terminator c \<longleftrightarrow> (of_char c :: nat) \<in> {10, 13}"

fun tokens_match :: "path_token list \<Rightarrow> string \<Rightarrow> bool" where
  "tokens_match [] s \<longleftrightarrow> s = []"
| "tokens_match (TokChar c # ts) [] \<longleftrightarrow> False"
| "tokens_match (TokChar c # ts) (x # xs) \<longleftrightarrow> c = x \<and> tokens_match ts xs"
| "tokens_match (TokAny # ts) [] \<longleftrightarrow> tokens_match ts []"
| "tokens_match (TokAny # ts) (x # xs) \<longleftrightarrow> tokens_match ts (x # xs) \<or> (\<not> line_terminator x \<and> tokens_match (TokAny # ts) xs)"

definition regexp_test :: "string \<Rightarrow> string \<Rightarrow> bool" where
  "regexp_test src s \<longleftrightarrow> (case read_expression src of None \<Rightarrow> False | Some ts \<Rightarrow> tokens_match ts s)"

section \<open>Patterns\<close>

datatype pattern_scheme = SchemeHttp | SchemeHttps | SchemeAny

datatype pattern_host = HostAny | HostExact string | HostSubdomain string

record host_pattern =
  hp_scheme :: pattern_scheme
  hp_host :: pattern_host
  hp_pathExpression :: string

definition canonicalUrlHost :: "string \<Rightarrow> string option" where
  "canonicalUrlHost hostname =
     (if hostname = [] then None
      else let lower = toLowerCase hostname
           in if hd lower = CHR ''['' then (if last lower = CHR 0x5D then Some lower else None)
              else let host = (if last lower = CHR ''.'' then butlast lower else lower)
                   in if host \<noteq> [] then Some host else None)"

definition canonicalManifestHost :: "url_parser \<Rightarrow> string \<Rightarrow> string option" where
  "canonicalManifestHost u rawHost =
     (if CHR '':'' \<in> set rawHost \<and> \<not> (rawHost \<noteq> [] \<and> hd rawHost = CHR ''['' \<and> last rawHost = CHR 0x5D) then None
      else case u (''http://'' @ rawHost @ ''/'') of
             None \<Rightarrow> None
           | Some parsed \<Rightarrow>
               if url_username parsed \<noteq> [] \<or> url_password parsed \<noteq> [] \<or> url_port parsed \<noteq> [] then None
               else canonicalUrlHost (url_hostname parsed))"

definition parsePatternHost :: "url_parser \<Rightarrow> string \<Rightarrow> pattern_host option" where
  "parsePatternHost u rawHost =
     (if rawHost = ''*'' then Some HostAny
      else if take 2 rawHost = ''*.'' then
        (let tail = drop 2 rawHost
         in if CHR ''*'' \<in> set tail then None
            else case canonicalManifestHost u tail of
                   None \<Rightarrow> None
                 | Some v \<Rightarrow> if v = [] \<or> hd v = CHR ''['' then None else Some (HostSubdomain v))
      else if CHR ''*'' \<in> set rawHost then None
      else case canonicalManifestHost u rawHost of
             None \<Rightarrow> None
           | Some v \<Rightarrow> if v = [] then None else Some (HostExact v))"

definition forbidden_in_host :: "char \<Rightarrow> bool" where
  "forbidden_in_host c \<longleftrightarrow> js_space c \<or> c \<in> {CHR 0x5C, CHR ''@'', CHR ''?'', CHR ''#'', CHR ''%''}"

definition parsePatternScheme :: "string \<Rightarrow> pattern_scheme option" where
  "parsePatternScheme rawScheme =
     (if rawScheme = ''*'' then Some SchemeAny else if rawScheme = ''http'' then Some SchemeHttp
      else if rawScheme = ''https'' then Some SchemeHttps else None)"

definition parseHostPermissionPatternUncached :: "url_parser \<Rightarrow> string \<Rightarrow> host_pattern option" where
  "parseHostPermissionPatternUncached u pattern =
     (if pattern = ''<all_urls>''
      then Some \<lparr> hp_scheme = SchemeAny, hp_host = HostAny, hp_pathExpression = ''^'' @ [CHR 0x5C] @ ''/.*$'' \<rparr>
      else case index_of_text ''://'' pattern of
             None \<Rightarrow> None
           | Some separator \<Rightarrow>
               if separator = 0 then None
               else case parsePatternScheme (take separator pattern) of
                      None \<Rightarrow> None
                    | Some scheme \<Rightarrow>
                        let authorityAndPath = drop (separator + 3) pattern;
                            rawHost = takeWhile (\<lambda>c. c \<noteq> CHR ''/'') authorityAndPath;
                            rawPath = dropWhile (\<lambda>c. c \<noteq> CHR ''/'') authorityAndPath
                        in if CHR ''/'' \<notin> set authorityAndPath then None
                           else if rawHost = [] \<or> rawPath = [] \<or> CHR ''#'' \<in> set rawPath \<or> list_ex forbidden_in_host rawHost then None
                           else case parsePatternHost u rawHost of
                                  None \<Rightarrow> None
                                | Some host \<Rightarrow>
                                    Some \<lparr> hp_scheme = scheme, hp_host = host,
                                      hp_pathExpression = path_expression_source (uppercasePercentEscapes rawPath) \<rparr>)"

text \<open>\<open>parsedPatternCache\<close>, where \<open>null\<close> stands for an invalid pattern.\<close>

type_synonym pattern_cache = "(string, host_pattern option) jmap"

definition parseHostPermissionPattern :: "url_parser \<Rightarrow> string \<Rightarrow> pattern_cache \<Rightarrow> host_pattern option \<times> pattern_cache" where
  "parseHostPermissionPattern u pattern cache =
     (case map_of cache pattern of
        Some cached \<Rightarrow> (cached, cache)
      | None \<Rightarrow> (let parsed = parseHostPermissionPatternUncached u pattern in (parsed, jset cache pattern parsed)))"

section \<open>Matching\<close>

definition matchesPatternHost :: "pattern_host \<Rightarrow> string \<Rightarrow> bool" where
  "matchesPatternHost pattern host =
     (case pattern of
        HostAny \<Rightarrow> True
      | HostExact v \<Rightarrow> v = host
      | HostSubdomain v \<Rightarrow> host = v \<or> ends_with host (CHR ''.'' # v))"

definition scheme_char :: "char \<Rightarrow> bool" where
  "scheme_char c \<longleftrightarrow> ascii_letter c \<or> ascii_digit c \<or> c \<in> {CHR ''+'', CHR ''.'', CHR ''-''}"

text \<open>
  \<open>trimStart\<close>, then the two forms of an authority: after \<open>scheme://\<close>, where the expression is greedy and a colon is
  no character of a scheme, or after \<open>//\<close>.
\<close>

definition hasAuthorityUserInfo :: "string \<Rightarrow> bool" where
  "hasAuthorityUserInfo rawUrl =
     (let trimmed = dropWhile js_space rawUrl;
          scheme = takeWhile scheme_char trimmed;
          rest = dropWhile scheme_char trimmed;
          authority = (if trimmed \<noteq> [] \<and> ascii_letter (hd trimmed) \<and> take 3 rest = ''://'' then Some (drop 3 rest)
                       else if take 2 trimmed = ''//'' then Some (drop 2 trimmed) else None)
      in case authority of
           None \<Rightarrow> False
         | Some a \<Rightarrow> CHR ''@'' \<in> set (takeWhile (\<lambda>c. c \<notin> {CHR ''/'', CHR ''?'', CHR ''#'', CHR 0x5C}) a))"

definition scheme_matches :: "pattern_scheme \<Rightarrow> string \<Rightarrow> bool" where
  "scheme_matches s protocol \<longleftrightarrow> (case s of SchemeAny \<Rightarrow> True | SchemeHttp \<Rightarrow> protocol = ''http:'' | SchemeHttps \<Rightarrow> protocol = ''https:'')"

definition matchesHostPermission :: "url_parser \<Rightarrow> string \<Rightarrow> string \<Rightarrow> pattern_cache \<Rightarrow> bool \<times> pattern_cache" where
  "matchesHostPermission u pattern rawUrl cache0 =
     (let (parsedPattern, cache) = parseHostPermissionPattern u pattern cache0
      in case parsedPattern of
           None \<Rightarrow> (False, cache)
         | Some p \<Rightarrow>
             if hasAuthorityUserInfo rawUrl then (False, cache)
             else case u rawUrl of
                    None \<Rightarrow> (False, cache)
                  | Some url \<Rightarrow>
                      if url_protocol url \<notin> {''http:'', ''https:''} \<or> url_username url \<noteq> [] \<or> url_password url \<noteq> [] then (False, cache)
                      else if \<not> scheme_matches (hp_scheme p) (url_protocol url) then (False, cache)
                      else case canonicalUrlHost (url_hostname url) of
                             None \<Rightarrow> (False, cache)
                           | Some host \<Rightarrow>
                               if host = [] \<or> \<not> matchesPatternHost (hp_host p) host then (False, cache)
                               else (regexp_test (hp_pathExpression p)
                                       (uppercasePercentEscapes (url_pathname url @ url_search url)), cache))"

text \<open>\<open>some\<close> stops at the first pattern that matches.\<close>

fun matches_some :: "url_parser \<Rightarrow> string list \<Rightarrow> string \<Rightarrow> pattern_cache \<Rightarrow> bool \<times> pattern_cache" where
  "matches_some u [] rawUrl cache = (False, cache)"
| "matches_some u (p # ps) rawUrl cache =
     (let (found, cache') = matchesHostPermission u p rawUrl cache
      in if found then (True, cache') else matches_some u ps rawUrl cache')"

definition matchesAnyHostPermission :: "url_parser \<Rightarrow> string list option \<Rightarrow> string \<Rightarrow> pattern_cache \<Rightarrow> bool \<times> pattern_cache" where
  "matchesAnyHostPermission u patterns rawUrl cache = matches_some u (case patterns of None \<Rightarrow> [] | Some ps \<Rightarrow> ps) rawUrl cache"

section \<open>What a path expression matches\<close>

text \<open>The reference: a star stands for any text without line terminators, every other character for itself.\<close>

inductive glob :: "string \<Rightarrow> string \<Rightarrow> bool" where
  glob_Nil: "glob [] []"
| glob_char: "c \<noteq> CHR ''*'' \<Longrightarrow> glob p s \<Longrightarrow> glob (c # p) (c # s)"
| glob_star: "glob p s \<Longrightarrow> \<forall>c \<in> set w. \<not> line_terminator c \<Longrightarrow> glob (CHR ''*'' # p) (w @ s)"

inductive_cases glob_NilE: "glob [] s"
inductive_cases glob_ConsE: "glob (c # p) s"

definition token_of :: "char \<Rightarrow> path_token" where
  "token_of c = (if c = CHR ''*'' then TokAny else TokChar c)"

lemma read_source: "read_tokens (concat (map (\<lambda>c. if c = CHR ''*'' then ''.*'' else [c]) (escape_path p)) @ ''$'') = Some (map token_of p)"
proof (induction p)
  case Nil
  then show ?case by (simp add: escape_path_def)
next
  case (Cons c p)
  let ?r = "concat (map (\<lambda>c. if c = CHR ''*'' then ''.*'' else [c]) (escape_path p)) @ ''$''"
  obtain d ds where r: "?r = d # ds" by (cases ?r) auto
  have meta: "CHR ''*'' \<notin> set metacharacters" "CHR 0x5C \<in> set metacharacters" "CHR ''.'' \<in> set metacharacters"
    by (simp_all add: metacharacters_def)
  consider "c \<in> set metacharacters" | "c = CHR ''*''" | "c \<notin> set metacharacters" "c \<noteq> CHR ''*''" by blast
  then show ?case
  proof cases
    case 1
    then have "c \<noteq> CHR ''*''" using meta(1) by blast
    then have "escape_path (c # p) = CHR 0x5C # c # escape_path p" using 1 by (simp add: escape_path_def)
    with \<open>c \<noteq> CHR ''*''\<close> show ?thesis using Cons r by (simp add: token_of_def)
  next
    case 2
    then have "escape_path (c # p) = c # escape_path p" using meta(1) by (simp add: escape_path_def)
    with 2 show ?thesis using Cons r by (simp add: token_of_def)
  next
    case 3
    then have e: "escape_path (c # p) = c # escape_path p" by (simp add: escape_path_def)
    have "c \<noteq> CHR 0x5C" "c \<noteq> CHR ''.''" using 3(1) meta(2,3) by blast+
    with e 3 show ?thesis using Cons r by (simp add: token_of_def)
  qed
qed

lemma tokens_match_glob: "tokens_match (map token_of p) s \<longleftrightarrow> glob p s"
proof
  show "tokens_match (map token_of p) s \<Longrightarrow> glob p s"
  proof (induction "map token_of p" s arbitrary: p rule: tokens_match.induct)
    case (4 ts)
    then obtain q where q: "p = CHR ''*'' # q" "ts = map token_of q" by (auto simp: token_of_def split: if_splits)
    show ?case using glob_star [of q "[]" "[]"] 4 q by simp
  next
    case (5 ts x xs)
    then obtain q where q: "p = CHR ''*'' # q" "ts = map token_of q" by (auto simp: token_of_def split: if_splits)
    show ?case
    proof (cases "tokens_match ts (x # xs)")
      case True
      then show ?thesis using glob_star [of q "x # xs" "[]"] 5(1) q by simp
    next
      case False
      then have "glob (CHR ''*'' # q) xs" "\<not> line_terminator x" using 5(2) [of p] 5(3,4) q by auto
      from this(1) obtain w s where "xs = w @ s" "glob q s" "\<forall>c\<in>set w. \<not> line_terminator c" by (auto elim: glob_ConsE)
      then show ?thesis using glob_star [of q s "x # w"] \<open>\<not> line_terminator x\<close> q by simp
    qed
  qed (auto simp: token_of_def glob_Nil glob_char split: if_splits)
  show "glob p s \<Longrightarrow> tokens_match (map token_of p) s"
  proof (induction rule: glob.induct)
    case (glob_star p s w)
    then have "tokens_match (TokAny # map token_of p) (w @ s)"
    proof (induction w)
      case Nil
      then show ?case by (cases s) simp_all
    qed simp
    moreover have "token_of (CHR ''*'') = TokAny" by (simp add: token_of_def)
    ultimately show ?case by simp
  qed (simp_all add: token_of_def)
qed

lemma expression_glob: "regexp_test (path_expression_source p) s \<longleftrightarrow> glob p s"
  by (simp add: regexp_test_def path_expression_source_def read_expression_def read_source tokens_match_glob)

lemma all_urls_glob: "regexp_test (''^'' @ [CHR 0x5C] @ ''/.*$'') s \<longleftrightarrow> glob ''/*'' s"
  using tokens_match_glob [of "''/*''"] by (simp add: regexp_test_def read_expression_def token_of_def)

section \<open>What a pattern permits\<close>

text \<open>The labels of a host: what a subdomain pattern compares.\<close>

definition labels :: "string \<Rightarrow> string list" where "labels h = split_on (CHR ''.'') h"

lemma labels_inject: "labels a = labels b \<Longrightarrow> a = b"
proof -
  have "intersperse_c (CHR ''.'') (split_on (CHR ''.'') h) = h" for h
  proof (induction h)
    case (Cons x xs)
    then show ?case by (cases "split_on (CHR ''.'') xs" rule: list.exhaust; cases "tl (split_on (CHR ''.'') xs)") auto
  qed simp
  then show "labels a = labels b \<Longrightarrow> a = b" unfolding labels_def by metis
qed

lemma ends_with_iff: "ends_with s t \<longleftrightarrow> (\<exists>p. s = p @ t)"
  by (metis append_take_drop_id append_eq_conv_conj diff_diff_cancel diff_le_self ends_with_def length_append length_drop le_add2 add_diff_cancel_right')

lemma labels_prefix: "ls \<noteq> [] \<Longrightarrow> labels h = ls @ labels v \<Longrightarrow> \<exists>p. h = p @ CHR ''.'' # v"
proof (induction h arbitrary: ls)
  case Nil
  have "labels v \<noteq> []" by (simp add: labels_def)
  then show ?case using Nil by (cases ls) (simp_all add: labels_def)
next
  case (Cons x xs)
  show ?case
  proof (cases "x = CHR ''.''")
    case True
    then have eq: "[] # labels xs = ls @ labels v" using Cons.prems(2) by (simp add: labels_def)
    then obtain ls' where ls: "ls = [] # ls'" "labels xs = ls' @ labels v" using Cons.prems(1) by (cases ls) auto
    show ?thesis
    proof (cases "ls' = []")
      case True
      then have "xs = v" using ls labels_inject by simp
      then show ?thesis using \<open>x = CHR ''.''\<close> by (intro exI [where x = "[]"]) simp
    next
      case False
      from Cons.IH [OF this ls(2)] obtain p where "xs = p @ CHR ''.'' # v" by blast
      then show ?thesis by (intro exI [where x = "x # p"]) simp
    qed
  next
    case False
    obtain l lr where l: "labels xs = l # lr" by (cases "labels xs") (simp_all add: labels_def)
    then have "(x # l) # lr = ls @ labels v" using Cons.prems(2) False by (simp add: labels_def)
    then obtain ls' where ls: "ls = (x # l) # ls'" "lr = ls' @ labels v" using Cons.prems(1) by (cases ls) auto
    from Cons.IH [of "l # ls'"] l ls(2) obtain p where "xs = p @ CHR ''.'' # v" by auto
    then show ?thesis by (intro exI [where x = "x # p"]) simp
  qed
qed

lemma subdomain_labels: "host = v \<or> ends_with host (CHR ''.'' # v) \<longleftrightarrow> suffix (labels v) (labels host)"
proof
  assume "host = v \<or> ends_with host (CHR ''.'' # v)"
  then show "suffix (labels v) (labels host)"
    by (auto simp: ends_with_iff labels_def split_on_append_sep suffix_def)
next
  assume "suffix (labels v) (labels host)"
  then obtain ls where ls: "labels host = ls @ labels v" by (auto simp: suffix_def)
  then show "host = v \<or> ends_with host (CHR ''.'' # v)"
    using labels_inject [of host v] labels_prefix [of ls host v] by (cases "ls = []") (auto simp: ends_with_iff)
qed

text \<open>The host part of a pattern against a canonical host.\<close>

definition host_part_permits :: "url_parser \<Rightarrow> string \<Rightarrow> string \<Rightarrow> bool" where
  "host_part_permits u rawHost host \<longleftrightarrow>
     rawHost = ''*'' \<or>
     (\<exists>rest v. rawHost = ''*.'' @ rest \<and> CHR ''*'' \<notin> set rest \<and> canonicalManifestHost u rest = Some v \<and> hd v \<noteq> CHR ''['' \<and>
        suffix (labels v) (labels host)) \<or>
     (CHR ''*'' \<notin> set rawHost \<and> canonicalManifestHost u rawHost = Some host)"

lemma canonical_nonempty: "canonicalUrlHost h = Some v \<Longrightarrow> v \<noteq> []"
  by (auto simp: canonicalUrlHost_def Let_def toLowerCase_def split: if_splits)

lemma manifest_nonempty: "canonicalManifestHost u h = Some v \<Longrightarrow> v \<noteq> []"
  using canonical_nonempty by (auto simp: canonicalManifestHost_def split: if_splits option.splits)

lemma host_part_exact:
  "(\<exists>p. parsePatternHost u rawHost = Some p \<and> matchesPatternHost p host) \<longleftrightarrow> host_part_permits u rawHost host"
proof -
  consider "rawHost = ''*''" | rest where "rawHost = ''*.'' @ rest" | "rawHost \<noteq> ''*''" "take 2 rawHost \<noteq> ''*.''"
    by (metis append_take_drop_id)
  then show ?thesis
  proof cases
    case 1
    then show ?thesis by (simp add: parsePatternHost_def host_part_permits_def matchesPatternHost_def)
  next
    case 2
    then show ?thesis using manifest_nonempty [of u rest]
      by (auto simp: parsePatternHost_def host_part_permits_def matchesPatternHost_def Let_def subdomain_labels split: option.splits)
  next
    case 3
    have "rawHost \<noteq> ''*.'' @ rest" for rest using 3(2) by auto
    then show ?thesis using 3 manifest_nonempty [of u rawHost]
      by (auto simp: parsePatternHost_def host_part_permits_def matchesPatternHost_def split: option.splits)
  qed
qed

lemma index_of_split: "index_of_text pat s = Some n \<Longrightarrow> s = take n s @ pat @ drop (n + length pat) s"
proof (induction s arbitrary: n)
  case (Cons c s)
  show ?case
  proof (cases "take (length pat) (c # s) = pat")
    case True
    then have "n = 0" using Cons.prems by simp
    then show ?thesis using True by (metis append_Nil append_take_drop_id plus_nat.add_0 take0)
  next
    case False
    then obtain m where "n = Suc m" "index_of_text pat s = Some m" using Cons.prems by auto
    then show ?thesis using Cons.IH by simp
  qed
qed simp

definition spec_scheme :: "string \<Rightarrow> string \<Rightarrow> bool" where
  "spec_scheme s protocol \<longleftrightarrow> s = ''*'' \<or> s @ '':'' = protocol"

lemma index_of_scheme: "s \<in> {''*'', ''http'', ''https''} \<Longrightarrow> index_of_text ''://'' (s @ ''://'' @ rest) = Some (length s)"
  by auto

lemma scheme_spec:
  assumes "protocol \<in> {''http:'', ''https:''}"
  shows "(\<exists>p. parsePatternScheme s = Some p \<and> scheme_matches p protocol) \<longleftrightarrow> spec_scheme s protocol"
  using assms by (auto simp: parsePatternScheme_def scheme_matches_def spec_scheme_def)

lemma scheme_spec_known: "protocol \<in> {''http:'', ''https:''} \<Longrightarrow> spec_scheme s protocol \<Longrightarrow> s \<in> {''*'', ''http'', ''https''}"
  by (auto simp: spec_scheme_def append_eq_Cons_conv)

text \<open>A pattern with an authority and a path, by its parts.\<close>

definition spec_pattern :: "url_parser \<Rightarrow> string \<Rightarrow> string \<Rightarrow> string \<Rightarrow> string \<Rightarrow> bool" where
  "spec_pattern u pattern protocol host pathAndQuery \<longleftrightarrow>
     (\<exists>s h path. pattern = s @ ''://'' @ h @ CHR ''/'' # path \<and> spec_scheme s protocol \<and>
        h \<noteq> [] \<and> CHR ''/'' \<notin> set h \<and> \<not> list_ex forbidden_in_host h \<and> CHR ''#'' \<notin> set path \<and>
        host_part_permits u h host \<and> glob (uppercasePercentEscapes (CHR ''/'' # path)) pathAndQuery)"

lemma parse_exact:
  assumes "protocol \<in> {''http:'', ''https:''}" and "pattern \<noteq> ''<all_urls>''"
  shows "(\<exists>p. parseHostPermissionPatternUncached u pattern = Some p \<and> scheme_matches (hp_scheme p) protocol \<and>
      matchesPatternHost (hp_host p) host \<and> regexp_test (hp_pathExpression p) pathAndQuery) \<longleftrightarrow>
    spec_pattern u pattern protocol host pathAndQuery"
proof
  assume "\<exists>p. parseHostPermissionPatternUncached u pattern = Some p \<and> scheme_matches (hp_scheme p) protocol \<and>
      matchesPatternHost (hp_host p) host \<and> regexp_test (hp_pathExpression p) pathAndQuery"
  then obtain p where p: "parseHostPermissionPatternUncached u pattern = Some p" "scheme_matches (hp_scheme p) protocol"
    "matchesPatternHost (hp_host p) host" "regexp_test (hp_pathExpression p) pathAndQuery" by blast
  obtain n where n: "index_of_text ''://'' pattern = Some n"
    using p(1) assms(2) by (auto simp: parseHostPermissionPatternUncached_def split: option.splits)
  define a where "a = drop (n + 3) pattern"
  define h where "h = takeWhile (\<lambda>c. c \<noteq> CHR ''/'') a"
  define path where "path = dropWhile (\<lambda>c. c \<noteq> CHR ''/'') a"
  have parts: "pattern = take n pattern @ ''://'' @ h @ path"
    using index_of_split [OF n] by (simp add: a_def h_def path_def numeral_3_eq_3)
  have ok: "n \<noteq> 0" "CHR ''/'' \<in> set a" "h \<noteq> []" "path \<noteq> []" "CHR ''#'' \<notin> set path" "\<not> list_ex forbidden_in_host h"
    "parsePatternScheme (take n pattern) = Some (hp_scheme p)" "parsePatternHost u h = Some (hp_host p)"
    "hp_pathExpression p = path_expression_source (uppercasePercentEscapes path)"
    using p(1) assms(2) n
    by (auto simp: parseHostPermissionPatternUncached_def Let_def a_def [symmetric] h_def [symmetric] path_def [symmetric]
        split: if_splits option.splits)
  obtain path' where path': "path = CHR ''/'' # path'"
    using hd_dropWhile [of "\<lambda>c. c \<noteq> CHR ''/''" a] ok(4) by (cases path) (auto simp: path_def)
  have "CHR ''/'' \<notin> set h" unfolding h_def by (auto dest: set_takeWhileD)
  moreover have "spec_scheme (take n pattern) protocol" using scheme_spec [OF assms(1)] ok(7) p(2) by blast
  moreover have "host_part_permits u h host" using host_part_exact ok(8) p(3) by blast
  moreover have "glob (uppercasePercentEscapes (CHR ''/'' # path')) pathAndQuery"
    using p(4) unfolding ok(9) expression_glob path' .
  ultimately show "spec_pattern u pattern protocol host pathAndQuery"
    using ok parts path' unfolding spec_pattern_def by (metis list.set_intros(2))
next
  assume "spec_pattern u pattern protocol host pathAndQuery"
  then obtain s h path where p: "pattern = s @ ''://'' @ h @ CHR ''/'' # path" "spec_scheme s protocol"
    "h \<noteq> []" "CHR ''/'' \<notin> set h" "\<not> list_ex forbidden_in_host h" "CHR ''#'' \<notin> set path"
    "host_part_permits u h host" "glob (uppercasePercentEscapes (CHR ''/'' # path)) pathAndQuery"
    unfolding spec_pattern_def by blast
  have known: "s \<in> {''*'', ''http'', ''https''}" by (rule scheme_spec_known [OF assms(1) p(2)])
  obtain sch where sch: "parsePatternScheme s = Some sch" "scheme_matches sch protocol" using scheme_spec [OF assms(1)] p(2) by blast
  obtain hp where hp: "parsePatternHost u h = Some hp" "matchesPatternHost hp host" using host_part_exact p(7) by blast
  have index: "index_of_text ''://'' pattern = Some (length s)" unfolding p(1) by (rule index_of_scheme [OF known])
  have tw: "takeWhile (\<lambda>c. c \<noteq> CHR ''/'') (h @ CHR ''/'' # path) = h" "dropWhile (\<lambda>c. c \<noteq> CHR ''/'') (h @ CHR ''/'' # path) = CHR ''/'' # path"
    using p(4) by (simp_all add: takeWhile_append dropWhile_append)
  have drop: "drop (length s + 3) pattern = h @ CHR ''/'' # path" "take (length s) pattern = s" "s \<noteq> []"
    using known by (auto simp: p(1))
  have "parseHostPermissionPatternUncached u pattern =
      Some \<lparr> hp_scheme = sch, hp_host = hp, hp_pathExpression = path_expression_source (uppercasePercentEscapes (CHR ''/'' # path)) \<rparr>"
    using assms(2) p(3,5,6) by (simp add: parseHostPermissionPatternUncached_def index drop tw sch hp Let_def)
  then show "\<exists>p. parseHostPermissionPatternUncached u pattern = Some p \<and> scheme_matches (hp_scheme p) protocol \<and>
      matchesPatternHost (hp_host p) host \<and> regexp_test (hp_pathExpression p) pathAndQuery"
    using sch hp p(8) by (simp add: expression_glob)
qed

section \<open>The cache does not show\<close>

definition cache_ok :: "url_parser \<Rightarrow> pattern_cache \<Rightarrow> bool" where
  "cache_ok u cache \<longleftrightarrow> (\<forall>pattern p. map_of cache pattern = Some p \<longrightarrow> p = parseHostPermissionPatternUncached u pattern)"

lemma cached_parse:
  assumes "cache_ok u cache"
  shows "fst (parseHostPermissionPattern u pattern cache) = parseHostPermissionPatternUncached u pattern"
    "cache_ok u (snd (parseHostPermissionPattern u pattern cache))"
  using assms by (auto simp: parseHostPermissionPattern_def cache_ok_def Let_def split: option.splits if_splits)

lemma cached_match:
  assumes "cache_ok u cache"
  shows "cache_ok u (snd (matchesHostPermission u pattern rawUrl cache))"
    "fst (matchesHostPermission u pattern rawUrl cache) = fst (matchesHostPermission u pattern rawUrl [])"
proof -
  have snd: "snd (matchesHostPermission u pattern rawUrl c) = snd (parseHostPermissionPattern u pattern c)" for c
    by (simp add: matchesHostPermission_def case_prod_beta Let_def split: option.split)
  show "cache_ok u (snd (matchesHostPermission u pattern rawUrl cache))" unfolding snd by (rule cached_parse(2) [OF assms])
  have empty: "cache_ok u []" by (simp add: cache_ok_def)
  have fst: "fst (matchesHostPermission u pattern rawUrl c) =
      (case fst (parseHostPermissionPattern u pattern c) of None \<Rightarrow> False
       | Some p \<Rightarrow> \<not> hasAuthorityUserInfo rawUrl \<and>
           (case u rawUrl of None \<Rightarrow> False
            | Some url \<Rightarrow> url_protocol url \<in> {''http:'', ''https:''} \<and> url_username url = [] \<and> url_password url = [] \<and>
                scheme_matches (hp_scheme p) (url_protocol url) \<and>
                (case canonicalUrlHost (url_hostname url) of None \<Rightarrow> False
                 | Some host \<Rightarrow> host \<noteq> [] \<and> matchesPatternHost (hp_host p) host \<and>
                     regexp_test (hp_pathExpression p) (uppercasePercentEscapes (url_pathname url @ url_search url)))))" for c
    by (auto simp: matchesHostPermission_def case_prod_beta Let_def split: option.splits)
  show "fst (matchesHostPermission u pattern rawUrl cache) = fst (matchesHostPermission u pattern rawUrl [])"
    unfolding fst cached_parse(1) [OF assms] cached_parse(1) [OF empty] ..
qed

lemma match_exact:
  "fst (matchesHostPermission u pattern rawUrl []) \<longleftrightarrow>
     \<not> hasAuthorityUserInfo rawUrl \<and>
     (\<exists>url host. u rawUrl = Some url \<and> url_protocol url \<in> {''http:'', ''https:''} \<and> url_username url = [] \<and> url_password url = [] \<and>
        canonicalUrlHost (url_hostname url) = Some host \<and>
        (let pathAndQuery = uppercasePercentEscapes (url_pathname url @ url_search url)
         in pattern = ''<all_urls>'' \<and> glob ''/*'' pathAndQuery \<or>
            pattern \<noteq> ''<all_urls>'' \<and> spec_pattern u pattern (url_protocol url) host pathAndQuery))"
proof -
  let ?P = "\<lambda>url. uppercasePercentEscapes (url_pathname url @ url_search url)"
  have "fst (matchesHostPermission u pattern rawUrl []) \<longleftrightarrow>
     \<not> hasAuthorityUserInfo rawUrl \<and>
     (\<exists>url host. u rawUrl = Some url \<and> url_protocol url \<in> {''http:'', ''https:''} \<and> url_username url = [] \<and> url_password url = [] \<and>
        canonicalUrlHost (url_hostname url) = Some host \<and>
        (\<exists>p. parseHostPermissionPatternUncached u pattern = Some p \<and> scheme_matches (hp_scheme p) (url_protocol url) \<and>
           matchesPatternHost (hp_host p) host \<and> regexp_test (hp_pathExpression p) (?P url)))"
    using canonical_nonempty
    by (auto simp: matchesHostPermission_def parseHostPermissionPattern_def Let_def split: option.splits)
  moreover have spec: "(\<exists>p. parseHostPermissionPatternUncached u pattern = Some p \<and> scheme_matches (hp_scheme p) protocol \<and>
      matchesPatternHost (hp_host p) host \<and> regexp_test (hp_pathExpression p) w) \<longleftrightarrow>
      pattern = ''<all_urls>'' \<and> glob ''/*'' w \<or> pattern \<noteq> ''<all_urls>'' \<and> spec_pattern u pattern protocol host w"
    if "protocol \<in> {''http:'', ''https:''}" for protocol host w
  proof (cases "pattern = ''<all_urls>''")
    case True
    then show ?thesis using all_urls_glob [of w]
      by (simp add: parseHostPermissionPatternUncached_def scheme_matches_def matchesPatternHost_def)
  next
    case False
    then show ?thesis using parse_exact [OF that False] by simp
  qed
  ultimately show ?thesis unfolding Let_def
    by (simp only:) (rule conj_cong [OF refl], rule ex_cong1, rule ex_cong1, (rule conj_cong [OF refl])+, rule spec, assumption)
qed

section \<open>Properties\<close>

fun permission_queries :: "url_parser \<Rightarrow> (string \<times> string) list \<Rightarrow> pattern_cache \<Rightarrow> bool list \<times> pattern_cache" where
  "permission_queries u [] cache = ([], cache)"
| "permission_queries u ((pattern, rawUrl) # qs) cache =
     (let (b, cache1) = matchesHostPermission u pattern rawUrl cache; (bs, cache2) = permission_queries u qs cache1 in (b # bs, cache2))"

lemma queries_cached:
  "cache_ok u cache \<Longrightarrow>
   fst (permission_queries u qs cache) = map (\<lambda>(pattern, rawUrl). fst (matchesHostPermission u pattern rawUrl [])) qs \<and>
   cache_ok u (snd (permission_queries u qs cache))"
proof (induction u qs cache rule: permission_queries.induct)
  case (2 u pattern rawUrl qs cache)
  obtain b cache1 where m: "matchesHostPermission u pattern rawUrl cache = (b, cache1)" by fastforce
  have "cache_ok u cache1" "b = fst (matchesHostPermission u pattern rawUrl [])"
    using cached_match [OF 2(2), of pattern rawUrl] m by simp_all
  then show ?case using 2(1) [OF m [symmetric] refl] by (simp add: m case_prod_beta Let_def)
qed simp

text \<open>
  C30: the cache of parsed patterns cannot be observed. However many questions were asked before and in which order,
  of valid and invalid patterns, each gets the answer it would get from an empty cache.
\<close>
theorem pattern_cache_transparent:
  "fst (permission_queries u qs []) = map (\<lambda>(pattern, rawUrl). fst (matchesHostPermission u pattern rawUrl [])) qs"
  using queries_cached [of u "[]" qs] by (simp add: cache_ok_def)

text \<open>
  C23: exactly what a host permission permits. A URL is permitted by a pattern if and only if it carries no
  credentials, not even empty ones in its text, is an HTTP or HTTPS URL with a host, and the pattern is
  \<open><all_urls>\<close> and the path starts with a slash, or the pattern is a scheme, a host and a path of which each fits:
  the scheme is a star or that of the URL, the host is a star, the canonical host itself, or a star before a host
  whose labels are the last labels of it, and the path fits as a glob in which only the star is special.
\<close>
theorem host_permission_exact:
  "fst (matchesHostPermission u pattern rawUrl (snd (permission_queries u qs []))) \<longleftrightarrow>
     \<not> hasAuthorityUserInfo rawUrl \<and>
     (\<exists>url host. u rawUrl = Some url \<and> url_protocol url \<in> {''http:'', ''https:''} \<and> url_username url = [] \<and> url_password url = [] \<and>
        canonicalUrlHost (url_hostname url) = Some host \<and>
        (let pathAndQuery = uppercasePercentEscapes (url_pathname url @ url_search url)
         in pattern = ''<all_urls>'' \<and> glob ''/*'' pathAndQuery \<or>
            pattern \<noteq> ''<all_urls>'' \<and> spec_pattern u pattern (url_protocol url) host pathAndQuery))"
proof -
  have "cache_ok u (snd (permission_queries u qs []))" using queries_cached [of u "[]" qs] by (simp add: cache_ok_def)
  then show ?thesis using cached_match(2) match_exact by blast
qed

text \<open>A parser of the one URL of the examples below.\<close>

definition toy_http_url :: url where
  "toy_http_url = \<lparr> url_protocol = ''https:'', url_hostname = ''a.b.c'', url_host = ''a.b.c'', url_port = [], url_username = [],
     url_password = [], url_pathname = ''/x.y'', url_search = [], url_hash = [] \<rparr>"

definition toy_http_parser :: url_parser where
  "toy_http_parser raw =
     (if raw = ''https://a.b.c/x.y'' \<or> raw = ''https://@a.b.c/x.y'' then Some toy_http_url
      else if raw = ''http://b.c/'' then Some (toy_http_url \<lparr> url_hostname := ''b.c'' \<rparr>) else None)"

lemma permission_examples:
  "map (\<lambda>(pattern, rawUrl). fst (matchesHostPermission toy_http_parser pattern rawUrl []))
     [(''*://*.b.c/*'', ''https://a.b.c/x.y''), (''http://*.b.c/*'', ''https://a.b.c/x.y''), (''https://b.c/*'', ''https://a.b.c/x.y''),
      (''<all_urls>'', ''https://@a.b.c/x.y''), (''https://*.b.c/x?y'', ''https://a.b.c/x.y''), (''https://*.*.c/*'', ''https://a.b.c/x.y'')]
   = [True, False, False, False, False, False]"
  by code_simp

end
