(* ===== verification/Spec2Isabelle.thy ===== *)
theory Spec2Isabelle
  imports Reconnect_Limit Canonical Nonce_Service Pair_Flood Pre_Auth Circuit_Breaker
    Task_Model Task_Lifecycle Task_Manager Media_Progress Final_Name Transcript Envelope
    Completion_Shutdown Polling
    Hook_Chain Command_Invoker Final_Sanitize Device_Code Ticket_Verify Reconnect_Session Credential_Life
    Frame_Pump Pair_Safety Pair_Honest Pair_Wiring
    Bt_Admission Host_Permission
begin

text \<open>
  A verification library for the core of Motrix, a download manager: a TypeScript core that an Electron
  application and a headless server share. The core hands downloads to the aria2 engine, keeps the
  registry of tasks, runs plugins in a sandbox around them and offers a bridge to browser extensions and
  command line clients over WebSocket. The theories model the parts of \<open>src/core\<close> that decide
  something: protocols, state machines, limits, merges and path rules. Paths below are relative to
  \<open>src/\<close> of the repository's own \<open>src\<close> directory.

  \<^bold>\<open>The parts and how they interact.\<close>

  The bridge. A paired extension opens a socket; \<open>Pre_Auth\<close> holds it until it has authenticated or its
  deadline passes, \<open>Reconnect_Limit\<close> and \<open>Pair_Flood\<close> bound the attempts, \<open>Nonce_Service\<close>
  hands out one-shot pairing nonces. \<open>Reconnect_Session\<close> runs the challenge and response against
  \<open>Credential_Store\<close>, which promotes a provisional credential durably before the accept; what is
  MACed is encoded by \<open>Canonical\<close> and \<open>Transcript\<close>, a Safari resume is attested by
  \<open>Ticket_Verify\<close>, trust levels come from \<open>Extension_Identity\<close>. After the handshake every frame
  passes \<open>Envelope\<close>. Command line clients pair through \<open>Device_Code\<close>.

  The first pairing of an extension is \<open>Pair_Session\<close>: a code shown to the user is the password of the
  \<open>Spake2\<close> exchange, a guess at it costs an attempt, and after both sides have confirmed the new
  credential travels sealed by \<open>Envelope\<close>, is offered to the store and committed by the acknowledgement.
  \<open>Frame_Pump\<close> hands the frames of the socket to it one at a time and keeps what arrives meanwhile.

  The tasks. \<open>Polling\<close> reads the engine; each snapshot is merged into a task by \<open>Task_Lifecycle\<close>
  over the data of \<open>Task_Model\<close> and published through \<open>Task_Manager\<close>; \<open>Media_Progress\<close> derives
  what is shown, \<open>Final_Name\<close> picks the name a download is published under, \<open>Completion_Shutdown\<close>
  ends the session when everything is done. Before a torrent is created \<open>Bt_Admission\<close> decides whether its
  info hash is free, and keeps operations out of each other's directories.

  The plugins. \<open>Role_Band\<close> orders the plugins of a hook, \<open>Plugin_Lane\<close> serializes the entries into
  one plugin, \<open>Hook_Chain\<close> runs a chain over what \<open>Hook_Effects\<close> lets a hook do and
  \<open>Staged_Effects\<close> keeps until the commit; \<open>Chain_Merge\<close> merges request patches with the input of
  the user, \<open>Finalize_Path\<close> and \<open>Final_Sanitize\<close> confine what a finalizer may name,
  \<open>Host_Permission\<close> says which URLs a plugin may reach, \<open>Circuit_Breaker\<close> stops a failing plugin. \<open>Command_Invoker\<close> and \<open>Call_Guards\<close> let one
  plugin call a command of another.

  \<^bold>\<open>Theories and sources.\<close>

  \<^item> \<open>Prelude\<close>: the insertion-ordered \<open>Map\<close> and \<open>Set\<close> of ECMAScript, results, the collection
    \<open>js_simps\<close>; the locale \<open>keyed_store\<close> with its interpretation \<open>jm\<close>.
  \<^item> \<open>Sliding_Window\<close>: the contract of a sliding-window limit as a locale; interpreted by
    \<open>Reconnect_Limit\<close> (\<open>core/bridge/mbp1/reconnect-rate-limit.ts\<close>), \<open>Nonce_Service\<close>
    (\<open>nonce-service.ts\<close>), \<open>Call_Guards\<close> and \<open>Device_Code\<close>.
  \<^item> \<open>Epoch_Guard\<close>: the contract of a counter that is captured before an await and compared after it,
    interpreted by the theories of asynchronous code.
  \<^item> \<open>Canonical\<close> (\<open>canonical.ts\<close>), \<open>Transcript\<close> (\<open>transcript.ts\<close>), \<open>Envelope\<close>
    (\<open>envelope.ts\<close>), \<open>Pair_Flood\<close> (\<open>flood-control.ts\<close>), \<open>Pre_Auth\<close>
    (\<open>pre-auth-table.ts\<close>), \<open>Ticket_Verify\<close> (\<open>ticket-verify.ts\<close>), \<open>Reconnect_Session\<close>
    (\<open>reconnect-session.ts\<close>, \<open>reconnect-mac.ts\<close>, \<open>safari-installation.ts\<close>, parts of
    \<open>frames.ts\<close>), all under \<open>core/bridge/mbp1\<close>.
  \<^item> \<open>Spake2\<close> (\<open>spake2-core.ts\<close>, \<open>scrypt-w.ts\<close>, \<open>pairing-code.ts\<close>),
    \<open>Pair_Session\<close> (\<open>pair-session.ts\<close>) in the same directory, with \<open>Pair_Invariant\<close> (the
    invariant of the session and the first handlers), \<open>Pair_Safety\<close> (the other handlers, and what holds of
    every run), \<open>Pair_Example\<close> (a concrete group, with exchanges evaluated over it) and \<open>Pair_Honest\<close>
    (what an honest peer and a wrong guess get); \<open>Frame_Pump\<close> (\<open>createPreAuthFramePump\<close> of
    \<open>core/bridge/web-socket-bridge-server.ts\<close>) and \<open>Pair_Wiring\<close> (the pairing socket of the same
    file: session, pump, deadline and the outcome for the flood control).
  \<^item> \<open>Extension_Identity\<close> (\<open>core/bridge/extension-identity-resolver.ts\<close>), \<open>Credential_Store\<close> and
    \<open>Credential_Life\<close> (\<open>core/bridge/credential-store.ts\<close>: the operations, and what they promise over
    the life of the store), \<open>Device_Code\<close> (\<open>core/bridge/device-code-service.ts\<close>).
  \<^item> \<open>Task_Model\<close> (\<open>shared/types/task.ts\<close>, \<open>task-actions.ts\<close>), \<open>Task_Lifecycle\<close>
    (\<open>core/task/apply-terminal-transition.ts\<close>, \<open>merge-engine-task.ts\<close> and the helpers they call),
    \<open>Task_Manager\<close> (\<open>task-manager.ts\<close>), \<open>Final_Name\<close> (\<open>final-name-picker.ts\<close>,
    \<open>path-length.ts\<close>), \<open>Completion_Shutdown\<close> (\<open>completion-shutdown-controller.ts\<close>),
    \<open>Bt_Admission\<close> (\<open>bt-duplicate-policy.ts\<close>, \<open>output-path-identity.ts\<close>),
    \<open>Media_Progress\<close> (\<open>shared/utils/media-progress.ts\<close>), \<open>Polling\<close>
    (\<open>core/engine/aria2/polling-scheduler.ts\<close>).
  \<^item> \<open>Role_Band\<close>, \<open>Chain_Merge\<close>, \<open>Hook_Effects\<close>, \<open>Staged_Effects\<close>, \<open>Hook_Chain\<close>
    (the files of \<open>core/plugin/hooks\<close>), \<open>Host_Permission\<close> (\<open>core/plugin/permissions/host-pattern.ts\<close>), \<open>Plugin_Lane\<close> (\<open>core/plugin/host/plugin-lane.ts\<close>),
    \<open>Circuit_Breaker\<close> (\<open>core/plugin/circuit\<close>), \<open>Call_Guards\<close> and \<open>Command_Invoker\<close>
    (\<open>core/plugin/commands\<close>), \<open>Finalize_Path\<close> and \<open>Final_Sanitize\<close>
    (\<open>core/fs/finalize-path.ts\<close>), \<open>Node_Path\<close> (the POSIX functions of \<open>node:path\<close> they use).

  \<^bold>\<open>How the code is read.\<close> A class is a record with one field per field of the class, a method a function
  from state to state and result, a thrown error the left side of a sum. A piece of code that runs without
  \<open>await\<close> is one step and reads the clock once; what an await returns is an event, and any events may
  come between. A \<open>Map\<close> is an association list in insertion order. Timers are part of the state and fire as
  events. Calls to other components and frames sent are lists of effects. Strings are lists of 8-bit
  characters, and the code's ASCII checks are kept; \<open>Final_Sanitize\<close> works on UTF-16 units, since the
  length rules it proves depend on them. Numbers are \<open>int\<close> or \<open>nat\<close> where the code bounds them below
  the limit of exact integers, and bytes are \<open>8 word\<close>. Cryptography (AES-GCM, HMAC, HKDF, SHA-256,
  Ed25519, scrypt, the group and its encoding of points), \<open>new URL\<close>, JSON parsing, JSON Schema compilation, random sources and file system outcomes are arguments of
  the definitions; what a property needs of them is one of its hypotheses.

  \<^bold>\<open>What is shown.\<close> The bridge: no frame is opened twice or out of order and no nonce is used twice for the
  same key; a reconnect is accepted only in time, after a proof of the key and a durable promotion, and a
  wrong MAC cannot be told from an unknown id; a ticket is honoured once; a principal never has two committed
  credentials nor loses its one except by revocation, through failing writes and crashes; a revoked credential
  never comes back; the official trust level rests on compiled-in ids. Pairing: both sides of the exchange reach
  the same secret; no credential is sealed, and nothing committed, but after a confirmation that matches the
  code; a code bears a bounded number of guesses, each answered alike whatever was wrong with it; a slot of the
  flood control is given back exactly once; an honest peer is confirmed; the server
  behind the pump runs such sessions and no others, and charges every unconfirmed guess once, unless the prompt
  throws while the socket closes. The credential that pairing hands out belongs to the hello, the code, the run and
  the keys of one conversation. The tasks: the registry's indexes agree; every uploaded byte is counted once, however
  polls and settlements interleave; one poll follows the other, and none of a stopped
  scheduler speaks; the shutdown fires only when everything is done; two operations never write into overlapping
  directories together and admissions never deadlock, a hash has one owner, and a torrent is copied only when no
  task of its hash is registered. The plugins: a pattern permits exactly the URLs its parts say; the chained promises of a lane make a serial
  queue; a failed plugin leaves no effects; quotas, rights and directories are
  respected; every open command call is counted and every one that ends is counted back, also through the wiring that
  drops the call chain, where a plugin can come back into its own chain; merging respects the
  user and does not depend on the order of the input.

  \<^bold>\<open>Bounds and termination.\<close> All functions are total. Loops over lists are structural; \<open>Final_Name\<close> and
  \<open>Node_Path\<close> use explicit measures or bounded search, as the code does with its own limits. Where a
  property speaks of progress it says which events have to happen (timers that fire, awaits that settle).
  \<open>drawScalar\<close> repeats until a draw is in range: it is a \<open>partial_function\<close> over the stream of random
  bytes whose value \<open>None\<close> is a loop that never ends, and it is shown to end as soon as one draw is in range.

  \<^bold>\<open>Not modelled.\<close> The WebSocket and HTTP servers apart from the pairing socket, SQLite statements and migrations, aria2 as a process and its RPC transport, BitTorrent metadata, archive
  extraction and plugin installation, the QuickJS runtime, Electron windows and menus, the renderer and its
  React state, and localization: they are transport, storage or presentation whose behaviour is that of the
  runtime or a library. \<open>PROJECT.json\<close> lists the parts with their status.
\<close>

end
